(* ===== verification/Prelude.thy ===== *)
theory Prelude
  imports Main "HOL-Library.Word" "HOL-Library.Multiset" "HOL-Library.AList"
begin

text \<open>
  Shared by every component: the names of the machine types, the collections the component
  proofs use, and the facts about association lists and sums over them that stand in for Go's
  maps.

  Go's \<open>time.Time\<close> is an \<open>int\<close>, the nanoseconds since Go's zero time, so \<open>IsZero\<close> is \<open>t = 0\<close>;
  \<open>time.Duration\<close> is an \<open>int\<close> of nanoseconds.  A Go map is an association list with distinct
  keys; the order in which \<open>range\<close> visits it is not specified by Go, so an operation that
  ranges over a map takes that order as an argument (\<open>iterates\<close>).
\<close>

type_synonym u8 = "8 word"
type_synonym u16 = "16 word"
type_synonym u32 = "32 word"
type_synonym u64 = "64 word"
type_synonym time = int
type_synonym duration = int
type_synonym bytes = "8 word list"

named_theorems frame \<open>fields an operation leaves alone\<close>
named_theorems msets \<open>what an operation does to the messages held\<close>

definition is_zero :: "time \<Rightarrow> bool" where
  "is_zero t \<longleftrightarrow> t = 0"

definition max_u64 :: u64 where
  "max_u64 = 18446744073709551615"

text \<open>An order in which a \<open>range\<close> loop may visit the keys of a map.\<close>

definition iterates :: "'k list \<Rightarrow> ('k \<times> 'v) list \<Rightarrow> bool" where
  "iterates ks al \<longleftrightarrow> distinct ks \<and> set ks = fst ` set al"

lemma iterates_keys [simp]: "distinct (map fst al) \<Longrightarrow> iterates (map fst al) al"
  by (simp add: iterates_def)

subsection \<open>Association lists\<close>

lemma map_of_update [simp]: "map_of (AList.update k v al) k' = (if k' = k then Some v else map_of al k')"
  by (simp add: update_conv')

lemma map_of_AList_delete [simp]:
  "map_of (AList.delete k al) k' = (if k' = k then None else map_of al k')"
  by (simp add: delete_conv')

lemma set_AList_delete: "distinct (map fst al) \<Longrightarrow>
  set (AList.delete k al) = {x \<in> set al. fst x \<noteq> k}"
  by (auto simp: AList.delete_eq)

lemma set_AList_update: "distinct (map fst al) \<Longrightarrow>
  set (AList.update k v al) = insert (k, v) {x \<in> set al. fst x \<noteq> k}"
  by (induction al) (force split: if_splits)+

lemma AList_update_fresh: "k \<notin> fst ` set al \<Longrightarrow> AList.update k v al = al @ [(k, v)]"
  by (induction al) auto

lemma distinct_AList_delete [simp]:
  "distinct (map fst al) \<Longrightarrow> distinct (map fst (AList.delete k al))"
  by (rule distinct_delete)

lemma distinct_AList_update [simp]:
  "distinct (map fst al) \<Longrightarrow> distinct (map fst (AList.update k v al))"
  by (rule distinct_update)

lemma keys_AList_update: "fst ` set (AList.update k v al) = insert k (fst ` set al)"
  by (induction al) auto

lemma keys_AList_delete: "fst ` set (AList.delete k al) = fst ` set al - {k}"
  by (auto simp: AList.delete_eq)

lemma map_of_in_set: "distinct (map fst al) \<Longrightarrow> map_of al k = Some v \<longleftrightarrow> (k, v) \<in> set al"
  by (simp add: map_of_eq_Some_iff)

subsection \<open>Sums over association lists\<close>

text \<open>The messages behind a map of groups or leases are a sum of multisets over its entries.\<close>

definition sum_al :: "('v \<Rightarrow> 'm::comm_monoid_add) \<Rightarrow> ('k \<times> 'v) list \<Rightarrow> 'm" where
  "sum_al f al = sum_list (map (\<lambda>x. f (snd x)) al)"

lemma sum_al_Nil [simp]: "sum_al f [] = 0"
  by (simp add: sum_al_def)

lemma sum_al_Cons [simp]: "sum_al f (x # al) = f (snd x) + sum_al f al"
  by (simp add: sum_al_def)

lemma sum_al_append [simp]: "sum_al f (al @ bl) = sum_al f al + sum_al f bl"
  by (simp add: sum_al_def)

lemma sum_al_cong: "(\<And>v. v \<in> snd ` set al \<Longrightarrow> f v = g v) \<Longrightarrow> sum_al f al = sum_al g al"
  by (induction al) auto

lemma sum_al_delete:
  "distinct (map fst al) \<Longrightarrow> map_of al k = Some v \<Longrightarrow> sum_al f al = f v + sum_al f (AList.delete k al)"
proof (induction al)
  case (Cons x al)
  show ?case
  proof (cases "fst x = k")
    case True
    with Cons.prems have "k \<notin> fst ` set al" by auto
    then have "AList.delete k al = al" by simp
    with True Cons.prems show ?thesis by (cases x) (auto simp: AList.delete_eq)
  next
    case False
    with Cons show ?thesis by (cases x) (auto simp: AList.delete_eq ac_simps)
  qed
qed simp

lemma sum_al_update_fresh:
  "k \<notin> fst ` set al \<Longrightarrow> sum_al f (AList.update k v al) = f v + sum_al f al"
  by (simp add: AList_update_fresh add.commute)

lemma sum_al_fun_upd_absent:
  "r \<notin> snd ` set al \<Longrightarrow> sum_al (\<lambda>r'. f ((H(r := g)) r')) al = sum_al (\<lambda>r'. f (H r')) al"
  by (rule sum_al_cong) auto

text \<open>Writing one cell of a store changes the sum by what that cell contributed.\<close>

lemma sum_al_fun_upd:
  assumes "distinct (map snd al)" and "r \<in> snd ` set al"
  shows "sum_al (\<lambda>r'. f ((H(r := g)) r')) al + f (H r) = sum_al (\<lambda>r'. f (H r')) al + f g"
  using assms
proof (induction al)
  case (Cons x al)
  show ?case
  proof (cases "snd x = r")
    case True
    with Cons.prems have "r \<notin> snd ` set al" by auto
    then have "sum_al (\<lambda>r'. f ((H(r := g)) r')) al = sum_al (\<lambda>r'. f (H r')) al"
      by (rule sum_al_fun_upd_absent)
    with True show ?thesis by (simp add: ac_simps)
  next
    case False
    with Cons.prems have "r \<in> snd ` set al" by auto
    with Cons have "sum_al (\<lambda>r'. f ((H(r := g)) r')) al + f (H r) = sum_al (\<lambda>r'. f (H r')) al + f g"
      by simp
    then have "f (H (snd x)) + (sum_al (\<lambda>r'. f ((H(r := g)) r')) al + f (H r))
        = f (H (snd x)) + (sum_al (\<lambda>r'. f (H r')) al + f g)" by simp
    with False show ?thesis by (simp add: add.assoc)
  qed
qed simp

lemma mem_sum_al: "x \<in># sum_al f al \<longleftrightarrow> (\<exists>e \<in> set al. x \<in># f (snd e))"
  by (induction al) auto

text \<open>A loop over all keys, in whatever order, adds up to the sum over the entries.\<close>

lemma iterates_mset:
  assumes "distinct (map fst al)" and "iterates ks al"
  shows "mset ks = mset (map fst al)"
proof -
  have "distinct ks" "set ks = set (map fst al)" using assms(2) by (simp_all add: iterates_def)
  with assms(1) show ?thesis by (metis set_eq_iff_mset_eq_distinct)
qed

lemma iterates_sum:
  fixes f :: "'v \<Rightarrow> 'm::comm_monoid_add"
  assumes d: "distinct (map fst al)" and it: "iterates ks al"
  shows "sum_list (map (\<lambda>k. f (the (map_of al k))) ks) = sum_al f al"
proof -
  have "sum_list (map (\<lambda>k. f (the (map_of al k))) ks) = sum_mset (image_mset (\<lambda>k. f (the (map_of al k))) (mset ks))"
    by (metis mset_map sum_mset_sum_list)
  also have "\<dots> = sum_list (map (\<lambda>k. f (the (map_of al k))) (map fst al))"
    unfolding iterates_mset [OF d it] by (metis mset_map sum_mset_sum_list)
  also have "map (\<lambda>k. f (the (map_of al k))) (map fst al) = map (\<lambda>x. f (snd x)) al"
    using d by (auto simp: map_of_is_SomeI)
  finally show ?thesis by (simp add: sum_al_def)
qed

subsection \<open>\<open>sort.Slice\<close>\<close>

text \<open>
  Go's \<open>sort.Slice\<close> with a \<open>less\<close> function.  The code never relies on where elements that compare
  equal end up; this one keeps their order.
\<close>

fun insert_by :: "('a \<Rightarrow> 'a \<Rightarrow> bool) \<Rightarrow> 'a \<Rightarrow> 'a list \<Rightarrow> 'a list" where
  "insert_by lt x [] = [x]"
| "insert_by lt x (y # ys) = (if lt y x then y # insert_by lt x ys else x # y # ys)"

definition sort_by :: "('a \<Rightarrow> 'a \<Rightarrow> bool) \<Rightarrow> 'a list \<Rightarrow> 'a list" where
  "sort_by lt xs = foldr (insert_by lt) xs []"

lemma mset_insert_by [simp]: "mset (insert_by lt x ys) = add_mset x (mset ys)"
  by (induction ys) auto

lemma mset_sort_by [simp]: "mset (sort_by lt xs) = mset xs"
  by (induction xs) (simp_all add: sort_by_def)

lemma set_sort_by [simp]: "set (sort_by lt xs) = set xs"
  by (metis mset_sort_by set_mset_mset)

lemma length_sort_by [simp]: "length (sort_by lt xs) = length xs"
  by (metis mset_sort_by size_mset)

text \<open>For a comparison whose negation is transitive, no later element is less than an earlier one.\<close>

lemma sorted_insert_by:
  assumes "\<And>a b c. \<not> lt b a \<Longrightarrow> \<not> lt c b \<Longrightarrow> \<not> lt c a" "\<And>a b. lt a b \<Longrightarrow> \<not> lt b a"
  shows "sorted_wrt (\<lambda>a b. \<not> lt b a) ys \<Longrightarrow> sorted_wrt (\<lambda>a b. \<not> lt b a) (insert_by lt x ys)"
proof (induction ys)
  case (Cons y ys)
  have s: "set (insert_by lt x ys) = insert x (set ys)" by (metis mset_insert_by set_mset_add_mset_insert set_mset_mset)
  show ?case
  proof (cases "lt y x")
    case True
    then show ?thesis using Cons assms(2) by (auto simp: s)
  next
    case False
    then show ?thesis using Cons assms(1) [of y x] by auto
  qed
qed simp

lemma sorted_sort_by:
  assumes "\<And>a b c. \<not> lt b a \<Longrightarrow> \<not> lt c b \<Longrightarrow> \<not> lt c a" "\<And>a b. lt a b \<Longrightarrow> \<not> lt b a"
  shows "sorted_wrt (\<lambda>a b. \<not> lt b a) (sort_by lt xs)"
  by (induction xs) (simp_all add: sort_by_def sorted_insert_by [OF assms])

end
