(* ===== verification/Message.thy ===== *)
theory Message
  imports Prelude Complex_Main
begin

text \<open>
  The engine's data (\<open>backend/queue/logic/engine/message.go\<close>, \<open>priority.go\<close>, \<open>errors.go\<close>,
  \<open>journal.go\<close> and the \<open>Config\<close> of \<open>queue.go\<close>): messages, receipts, priorities and their three
  metric buckets, the errors a call can return, the records a journal is asked to write, and a
  queue's settings with their defaults.

  A message is a value here.  The code shares \<open>*Message\<close> pointers, but a live message sits in
  exactly one of a group, a lease or the delay heap and every reader outside the slot is handed a
  copy, so no two holders can observe each other's writes.  \<open>StarvationReserve\<close> is a \<open>float64\<close> in
  the code and the rational number its literal denotes here.
\<close>

type_synonym prio = u8

definition MaxPriority :: prio where
  "MaxPriority = 100"

definition prio_valid :: "prio \<Rightarrow> bool" where
  "prio_valid p \<longleftrightarrow> p \<le> MaxPriority"

definition Low :: prio where "Low = 25"
definition Medium :: prio where "Medium = 50"
definition High :: prio where "High = 75"

definition prio_string :: "prio \<Rightarrow> string" where
  "prio_string p = (if p \<le> 33 then ''LOW'' else if p \<le> 66 then ''MEDIUM'' else ''HIGH'')"

definition bucketOf :: "prio \<Rightarrow> nat" where
  "bucketOf p = (if p \<le> 33 then 0 else if p \<le> 66 then 1 else 2)"

definition ParsePriority :: "string \<Rightarrow> prio option" where
  "ParsePriority s =
     (if s = ''LOW'' \<or> s = ''low'' then Some Low
      else if s = ''MEDIUM'' \<or> s = ''medium'' then Some Medium
      else if s = ''HIGH'' \<or> s = ''high'' then Some High
      else None)"

record queueKey =
  Org :: string
  Name :: string

definition key_string :: "queueKey \<Rightarrow> string" where
  "key_string k = Org k @ ''/'' @ Name k"

record message =
  ID :: string
  Payload :: bytes
  Priority :: prio
  GroupID :: string
  Seq :: u64
  EnqueuedAt :: time
  ExpiresAt :: time
  DeliverAfter :: time
  Attempts :: u32

definition zero_message :: message where
  "zero_message = \<lparr>ID = [], Payload = [], Priority = 0, GroupID = [], Seq = 0, EnqueuedAt = 0,
     ExpiresAt = 0, DeliverAfter = 0, Attempts = 0\<rparr>"

definition expired :: "message \<Rightarrow> time \<Rightarrow> bool" where
  "expired m now \<longleftrightarrow> \<not> is_zero (ExpiresAt m) \<and> \<not> now < ExpiresAt m"

text \<open>The ordering key: an ungrouped message is its own group.\<close>

definition msg_group :: "message \<Rightarrow> string" where
  "msg_group m = (if GroupID m \<noteq> [] then GroupID m else ID m)"

definition held_back :: "message \<Rightarrow> time \<Rightarrow> bool" where
  "held_back m now \<longleftrightarrow> \<not> is_zero (DeliverAfter m) \<and> now < DeliverAfter m"

record receipt =
  Slot :: u16
  MessageID :: string
  Epoch :: nat
  Incarnation :: u64

datatype engine_error = ErrNotInFlight | ErrLeaseExpired | ErrBadPriority | ErrQueueFull | ErrFrozen
  | ErrBadSlot | ErrJournal

datatype terminalKind = TerminalAck | TerminalExpired | TerminalDeadLettered

text \<open>The calls the engine makes on its \<open>Journal\<close>, in order.\<close>

datatype journal_entry =
    AppendEnqueue u16 message
  | AppendAttempt u16 string u32 nat
  | AppendTerminal u16 string terminalKind

subsection \<open>Settings\<close>

record config =
  Key :: queueKey
  VisibilityTimeout :: duration
  MaxRetries :: u32
  MaxRetriesSet :: bool
  DefaultTTL :: duration
  StarvationThreshold :: duration
  StarvationReserve :: rat
  StarvationAvoidanceEnabled :: bool
  MaxDepth :: int
  Distributed :: bool
  HasDeadLetter :: bool

definition second :: duration where
  "second = 1000000000"

definition applyDefaults :: "config \<Rightarrow> config" where
  "applyDefaults c =
     (let c = (if VisibilityTimeout c \<le> 0 then c\<lparr>VisibilityTimeout := 30 * second\<rparr> else c);
          c = (if \<not> MaxRetriesSet c \<and> MaxRetries c = 0 then c\<lparr>MaxRetries := 3\<rparr> else c);
          c = (if StarvationReserve c \<le> 0 \<or> StarvationReserve c > 1
               then c\<lparr>StarvationReserve := 1 / 5\<rparr> else c)
      in if StarvationThreshold c \<le> 0
         then (if DefaultTTL c > 0 then c\<lparr>StarvationThreshold := DefaultTTL c div 4\<rparr>
               else c\<lparr>StarvationThreshold := 60 * second\<rparr>)
         else c)"

definition config_ok :: "config \<Rightarrow> bool" where
  "config_ok c \<longleftrightarrow> VisibilityTimeout c > 0 \<and> 0 < StarvationReserve c \<and> StarvationReserve c \<le> 1 \<and>
     (MaxRetriesSet c \<or> MaxRetries c \<noteq> 0)"

lemma bucketOf_less [simp]: "bucketOf p < 3"
  by (simp add: bucketOf_def)

lemma applyDefaults_ok [simp]: "config_ok (applyDefaults c)"
  by (simp add: applyDefaults_def config_ok_def Let_def second_def)

lemma applyDefaults_keeps [simp]:
  "Key (applyDefaults c) = Key c" "DefaultTTL (applyDefaults c) = DefaultTTL c"
  "MaxDepth (applyDefaults c) = MaxDepth c" "Distributed (applyDefaults c) = Distributed c"
  "HasDeadLetter (applyDefaults c) = HasDeadLetter c"
  "MaxRetriesSet (applyDefaults c) = MaxRetriesSet c"
  "StarvationAvoidanceEnabled (applyDefaults c) = StarvationAvoidanceEnabled c"
  by (simp_all add: applyDefaults_def Let_def)

lemma applyDefaults_threshold:
  "DefaultTTL c \<le> 0 \<or> 4 \<le> DefaultTTL c \<Longrightarrow> StarvationThreshold (applyDefaults c) > 0"
  by (auto simp: applyDefaults_def Let_def second_def)

lemma applyDefaults_fixed:
  "config_ok c \<Longrightarrow> StarvationThreshold c > 0 \<Longrightarrow> applyDefaults c = c"
  by (simp add: applyDefaults_def config_ok_def Let_def)

end
