(* ===== verification/Slotting.thy ===== *)
theory Slotting
  imports Message "HOL-Library.Char_ord" "HOL-Library.List_Lexorder"
begin

text \<open>
  \<open>backend/slotting/slotting.go\<close>, \<open>backend/queue/logic/engine/cluster.go\<close> and
  \<open>backend/gateway/entity/model-member.go\<close>: how a group key picks a slot (FNV-1a) and a queue or slot
  picks a machine (rendezvous hashing over FNV-1a and splitmix64).  A Go string is its bytes, here
  the characters of a \<open>string\<close>; Go compares strings bytewise, which is the order of the library's
  \<open>Char_ord\<close> and \<open>List_Lexorder\<close>.
\<close>

unbundle bit_operations_syntax

subsection \<open>FNV-1a\<close>

definition byte :: "char \<Rightarrow> u8" where
  "byte c = of_nat (of_char c)"

definition fnv_offset :: u64 where
  "fnv_offset = 14695981039346656037"

definition fnv_prime :: u64 where
  "fnv_prime = 1099511628211"

definition fnv_write :: "u64 \<Rightarrow> bytes \<Rightarrow> u64" where
  "fnv_write h bs = foldl (\<lambda>h b. (h XOR ucast b) * fnv_prime) h bs"

definition hash64 :: "string \<Rightarrow> u64" where
  "hash64 s = fnv_write fnv_offset (map byte s)"

subsection \<open>Slots\<close>

definition PerQueue :: nat where "PerQueue = 16"
definition PerDistributedQueue :: nat where "PerDistributedQueue = 64"

definition CountFor :: "bool \<Rightarrow> nat" where
  "CountFor distributed = (if distributed then PerDistributedQueue else PerQueue)"

definition SlotFor :: "string \<Rightarrow> string \<Rightarrow> string \<Rightarrow> nat \<Rightarrow> u16" where
  "SlotFor org nm grp slots =
     (let h = fnv_write fnv_offset (map byte org);
          h = fnv_write h [0];
          h = fnv_write h (map byte nm);
          h = fnv_write h [0];
          h = fnv_write h (map byte grp)
      in ucast (h mod of_nat slots))"

definition SlotCountFor :: "bool \<Rightarrow> nat" where
  "SlotCountFor distributed = CountFor distributed"

definition SlotOf :: "queueKey \<Rightarrow> string \<Rightarrow> nat \<Rightarrow> u16" where
  "SlotOf q grp slots = SlotFor (Org q) (Name q) grp slots"

text \<open>\<open>strconv.Itoa\<close> on a non-negative number.\<close>

fun dec_digits :: "nat \<Rightarrow> string" where
  "dec_digits n = (if n < 10 then [char_of (48 + n)] else dec_digits (n div 10) @ [char_of (48 + n mod 10)])"

declare dec_digits.simps [simp del]

definition OwnerKeyFor :: "queueKey \<Rightarrow> u16 \<Rightarrow> bool \<Rightarrow> string" where
  "OwnerKeyFor q slot distributed =
     (if \<not> distributed then key_string q else key_string q @ ''/slot-'' @ dec_digits (unat slot))"

lemma SlotFor_less:
  assumes "0 < slots" "slots \<le> 65536"
  shows "unat (SlotFor org nm grp slots) < slots"
proof -
  have "unat (ucast (h mod of_nat slots :: u64) :: u16) < slots" for h :: u64
  proof -
    have u: "unat (of_nat slots :: u64) = slots" using assms(2) by (simp add: unat_of_nat)
    have l: "unat (h mod of_nat slots) < slots" using assms(1) by (simp add: unat_mod_distrib u)
    have "unat (ucast (h mod of_nat slots :: u64) :: u16) = unat (h mod of_nat slots) mod 65536"
      by (simp add: unsigned_ucast_eq take_bit_eq_mod)
    with l assms(2) show ?thesis by simp
  qed
  then show ?thesis by (simp add: SlotFor_def Let_def)
qed

lemma CountFor_range: "0 < CountFor d" "CountFor d \<le> 64"
  by (simp_all add: CountFor_def PerQueue_def PerDistributedQueue_def)

text \<open>A group key always names a slot the queue has: whatever the organisation, the queue, the
  group and the shape, the slot is below the queue's slot count.\<close>

theorem slot_in_range:
  "unat (SlotOf q grp (SlotCountFor distributed)) < SlotCountFor distributed"
  using CountFor_range [of distributed] by (simp add: SlotOf_def SlotCountFor_def SlotFor_less)

subsection \<open>Rendezvous hashing\<close>

record member =
  mem_id :: string
  mem_addr :: string

definition mix :: "u64 \<Rightarrow> u64 \<Rightarrow> u64" where
  "mix a b =
     (let x = a XOR (b * 0x9E3779B97F4A7C15);
          x = x XOR drop_bit 30 x;
          x = x * 0xBF58476D1CE4E5B9;
          x = x XOR drop_bit 27 x;
          x = x * 0x94D049BB133111EB;
          x = x XOR drop_bit 31 x
      in x)"

definition score :: "string \<Rightarrow> member \<Rightarrow> u64" where
  "score key m = mix (hash64 key) (hash64 (mem_id m))"

text \<open>The loop of \<open>OwnerFor\<close> keeps the first member with the greatest score so far.\<close>

definition owner_step :: "string \<Rightarrow> member option \<Rightarrow> member \<Rightarrow> member option" where
  "owner_step key best m =
     (case best of None \<Rightarrow> Some m | Some b \<Rightarrow> if score key m > score key b then Some m else Some b)"

definition OwnerFor :: "string \<Rightarrow> member list \<Rightarrow> member option" where
  "OwnerFor key members = foldl (owner_step key) None members"

definition ranked_before :: "string \<Rightarrow> member \<Rightarrow> member \<Rightarrow> bool" where
  "ranked_before key a b =
     (if score key a \<noteq> score key b then score key a > score key b else mem_id a < mem_id b)"

definition CandidatesFor :: "string \<Rightarrow> member list \<Rightarrow> int \<Rightarrow> member list" where
  "CandidatesFor key members width =
     (if width \<le> 0 \<or> width \<ge> int (length members) then members
      else take (nat width) (sort_by (ranked_before key) members))"

text \<open>
  \<open>itoa\<close> writes into eight bytes from the end, \<open>i\<close> of them still free; a ninth digit indexes the array
  at -1, the panic \<open>None\<close>.  A negative number leaves the loop at once.
\<close>

fun itoa_loop :: "nat \<Rightarrow> nat \<Rightarrow> string \<Rightarrow> string option" where
  "itoa_loop n 0 b = (if n > 0 then None else Some b)"
| "itoa_loop n (Suc i) b = (if n > 0 then itoa_loop (n div 10) i (char_of (48 + n mod 10) # b) else Some b)"

definition itoa :: "int \<Rightarrow> string option" where
  "itoa n = (if n = 0 then Some ''0'' else itoa_loop (nat n) 8 [])"

definition OwnerKey :: "string \<Rightarrow> string \<Rightarrow> int \<Rightarrow> bool \<Rightarrow> string option" where
  "OwnerKey org nm slot distributed =
     (if \<not> distributed then Some (org @ ''/'' @ nm)
      else case itoa slot of None \<Rightarrow> None | Some d \<Rightarrow> Some (org @ ''/'' @ nm @ ''/slot-'' @ d))"

lemma itoa_loop_digits: "0 < n \<Longrightarrow> itoa_loop n i b = (if n < 10 ^ i then Some (dec_digits n @ b) else None)"
proof (induction n i b rule: itoa_loop.induct)
  case (2 n i b)
  show ?case
  proof (cases "n < 10")
    case True
    then have d: "n div 10 = 0" by simp
    have "(1 :: nat) \<le> 10 ^ i" by simp
    then have "(10 :: nat) \<le> 10 ^ Suc i" by (simp del: one_le_power)
    with True have "n < 10 ^ Suc i" by (rule less_le_trans)
    with d 2 True show ?thesis by (cases i) (simp_all add: dec_digits.simps [of n])
  next
    case False
    then have "0 < n div 10" by simp
    moreover have "n div 10 < 10 ^ i \<longleftrightarrow> n < 10 ^ Suc i" by (simp add: less_mult_imp_div_less div_less_iff_less_mult mult.commute)
    ultimately show ?thesis using 2 False by (simp add: dec_digits.simps [of n])
  qed
qed simp

lemma itoa_small: "0 \<le> n \<Longrightarrow> n < 10 ^ 8 \<Longrightarrow> itoa n = Some (dec_digits (nat n))"
proof (cases "n = 0")
  case True
  moreover have "dec_digits 0 = ''0''" by code_simp
  ultimately show ?thesis by (simp add: itoa_def)
qed (simp add: itoa_def itoa_loop_digits nat_less_iff)

lemma itoa_panics: "10 ^ 8 \<le> n \<Longrightarrow> itoa n = None"
  by (simp add: itoa_def itoa_loop_digits nat_less_iff)

text \<open>The gateway and the queue node hash the same key: for every slot number the key the gateway
  builds with its own \<open>itoa\<close> is the key the node builds, so both sides place a queue or a slot on
  the same machine.\<close>

theorem owner_keys_agree:
  "OwnerKey (Org q) (Name q) (uint slot) distributed = Some (OwnerKeyFor q slot distributed)"
proof -
  have "uint slot < 10 ^ 8" using uint_lt2p [of slot] by simp
  then have "itoa (uint slot) = Some (dec_digits (unat slot))" by (simp add: itoa_small)
  then show ?thesis by (simp add: OwnerKey_def OwnerKeyFor_def key_string_def)
qed

end
