(* ===== verification/Placement.thy ===== *)
theory Placement
  imports Slotting
begin

text \<open>
  What rendezvous hashing guarantees (\<open>backend/gateway/entity/model-member.go\<close>).  The bit mixer is a
  bijection of the member hash, so scores of different members differ unless their 64-bit hashes
  collide.  From that: every gateway computes the same owner whatever order it lists the members in,
  adding or removing a machine moves only that machine's keys, and the candidates are a top of the
  ranking whose first is the owner.
\<close>

subsection \<open>The mixer is injective\<close>

lemma xorshift_inj:
  assumes "0 < k" and "x XOR drop_bit k x = y XOR drop_bit k (y :: u64)"
  shows "x = y"
proof -
  have e: "(bit x n \<noteq> bit x (n + k)) = (bit y n \<noteq> bit y (n + k))" for n
    using arg_cong [OF assms(2), of "\<lambda>w. bit w n"] by (auto simp: bit_xor_iff bit_drop_bit_eq ac_simps)
  have "bit x n = bit y n" for n
  proof (induction "64 - n" arbitrary: n rule: less_induct)
    case less
    show ?case
    proof (cases "n < 64")
      case False
      then have "\<not> bit x n" "\<not> bit y n" using bit_imp_le_length [of x n] bit_imp_le_length [of y n] by auto
      then show ?thesis by simp
    next
      case True
      then have "64 - (n + k) < 64 - n" using assms(1) by simp
      from less [OF this] e [of n] show ?thesis by blast
    qed
  qed
  then show ?thesis by (simp add: bit_eq_iff)
qed

lemma mult_inj_inverse: "d * c = (1 :: u64) \<Longrightarrow> x * c = y * c \<Longrightarrow> x = y"
proof -
  assume d: "d * c = 1" and e: "x * c = y * c"
  have "x = x * (c * d)" using d by (simp add: mult.commute)
  also have "\<dots> = (x * c) * d" by (simp only: mult.assoc)
  also have "\<dots> = (y * c) * d" by (simp only: e)
  also have "\<dots> = y * (c * d)" by (simp only: mult.assoc)
  also have "\<dots> = y" using d by (simp add: mult.commute)
  finally show "x = y" .
qed

lemma mixer_units:
  "17428512612931826493 * 0x9E3779B97F4A7C15 = (1 :: u64)" "10871156337175269513 * 0xBF58476D1CE4E5B9 = (1 :: u64)"
  "3573116690164977347 * 0x94D049BB133111EB = (1 :: u64)"
  by simp_all

lemma xor_cancel_left: "a XOR b = a XOR c \<longleftrightarrow> b = (c :: u64)"
  by (metis bit.xor_left_self)

text \<open>Different member hashes give different scores: for a fixed key hash the splitmix64 mixer
  maps no two member hashes to the same value.\<close>

theorem mix_injective: "mix a b = mix a c \<longleftrightarrow> b = c"
proof
  assume m: "mix a b = mix a c"
  let ?f = "\<lambda>x :: u64. x XOR drop_bit 30 x" and ?g = "\<lambda>x :: u64. x XOR drop_bit 27 x"
  let ?x = "a XOR (b * 0x9E3779B97F4A7C15)" and ?y = "a XOR (c * 0x9E3779B97F4A7C15)"
  have "?g (?f ?x * 0xBF58476D1CE4E5B9) * 0x94D049BB133111EB = ?g (?f ?y * 0xBF58476D1CE4E5B9) * 0x94D049BB133111EB"
    by (rule xorshift_inj [of 31, OF _ m [unfolded mix_def Let_def]]) simp
  then have "?g (?f ?x * 0xBF58476D1CE4E5B9) = ?g (?f ?y * 0xBF58476D1CE4E5B9)"
    by (rule mult_inj_inverse [OF mixer_units(3)])
  then have "?f ?x * 0xBF58476D1CE4E5B9 = ?f ?y * 0xBF58476D1CE4E5B9" by (rule xorshift_inj [of 27, rotated]) simp
  then have "?f ?x = ?f ?y" by (rule mult_inj_inverse [OF mixer_units(2)])
  then have "?x = ?y" by (rule xorshift_inj [of 30, rotated]) simp
  then have "b * 0x9E3779B97F4A7C15 = c * 0x9E3779B97F4A7C15" by (simp only: xor_cancel_left)
  then show "b = c" by (rule mult_inj_inverse [OF mixer_units(1)])
qed simp

subsection \<open>The owner\<close>

lemma owner_fold:
  "foldl (owner_step key) (Some b) ms = Some o' \<Longrightarrow>
   (o' = b \<or> o' \<in> set ms) \<and> score key b \<le> score key o' \<and> (\<forall>m \<in> set ms. score key m \<le> score key o')"
proof (induction ms arbitrary: b)
  case (Cons m ms)
  from Cons.prems have "foldl (owner_step key) (Some (if score key b < score key m then m else b)) ms = Some o'"
    by (simp add: owner_step_def [of key "Some b"] cong del: foldl_cong split: if_splits)
  from Cons.IH [OF this] show ?case by (auto split: if_splits)
qed simp

lemma owner_fold_Some: "\<exists>x. foldl (owner_step key) (Some b) ms = Some x"
  by (induction ms arbitrary: b) (simp_all add: owner_step_def)

lemma OwnerFor_best:
  assumes "OwnerFor key ms = Some x"
  shows "x \<in> set ms" "\<forall>m \<in> set ms. score key m \<le> score key x"
proof -
  obtain b bs where ms: "ms = b # bs" using assms by (cases ms) (simp_all add: OwnerFor_def)
  have "foldl (owner_step key) (Some b) bs = Some x" using assms ms by (simp add: OwnerFor_def owner_step_def)
  from owner_fold [OF this] ms show "x \<in> set ms" "\<forall>m \<in> set ms. score key m \<le> score key x" by auto
qed

lemma OwnerFor_None: "OwnerFor key ms = None \<longleftrightarrow> ms = []"
proof (cases ms)
  case (Cons b bs)
  then show ?thesis using owner_fold_Some [of key b bs] by (auto simp: OwnerFor_def owner_step_def)
qed (simp add: OwnerFor_def)

text \<open>No two members share a 64-bit hash.\<close>

definition hashes_distinct :: "member list \<Rightarrow> bool" where
  "hashes_distinct ms \<longleftrightarrow> (\<forall>a \<in> set ms. \<forall>b \<in> set ms. hash64 (mem_id a) = hash64 (mem_id b) \<longrightarrow> a = b)"

lemma score_inj: "hashes_distinct ms \<Longrightarrow> a \<in> set ms \<Longrightarrow> b \<in> set ms \<Longrightarrow> score key a = score key b \<Longrightarrow> a = b"
  by (simp add: score_def mix_injective hashes_distinct_def)

lemma OwnerFor_unique:
  assumes "hashes_distinct ms" "x \<in> set ms" "\<forall>m \<in> set ms. score key m \<le> score key x"
  shows "OwnerFor key ms = Some x"
proof -
  obtain y where y: "OwnerFor key ms = Some y" using assms(2) OwnerFor_None [of key ms] by (cases "OwnerFor key ms") auto
  note B = OwnerFor_best [OF y]
  have "score key x = score key y" using B assms(2,3) by (meson antisym)
  then have "x = y" by (rule score_inj [OF assms(1,2) B(1)])
  with y show ?thesis by simp
qed

text \<open>Every gateway picks the same owner. If no two members share a hash, any two listings of the
  same members, in any order and with any repetitions, give a key the same owner, and it is the
  member of greatest score.\<close>

theorem owner_agreement:
  assumes "hashes_distinct ms" and "set ms = set ms'"
  shows "OwnerFor key ms = OwnerFor key ms' \<and>
    (\<forall>x. OwnerFor key ms = Some x \<longrightarrow> x \<in> set ms \<and> (\<forall>m \<in> set ms. score key m \<le> score key x))"
proof (cases "OwnerFor key ms")
  case None
  then have "ms = []" by (simp add: OwnerFor_None)
  with assms(2) have "ms' = []" by simp
  with None \<open>ms = []\<close> show ?thesis by simp
next
  case (Some x)
  note B = OwnerFor_best [OF Some]
  have "hashes_distinct ms'" using assms by (simp add: hashes_distinct_def)
  then have "OwnerFor key ms' = Some x" using B assms(2) by (intro OwnerFor_unique) auto
  with Some B show ?thesis by simp
qed

definition nodes3 :: "member list" where
  "nodes3 = [\<lparr>mem_id = ''n1'', mem_addr = ''a''\<rparr>, \<lparr>mem_id = ''n2'', mem_addr = ''b''\<rparr>, \<lparr>mem_id = ''n3'', mem_addr = ''c''\<rparr>]"

lemma nodes3_distinct: "hashes_distinct nodes3"
proof -
  have "distinct (map (hash64 \<circ> mem_id) nodes3)" by code_simp
  then show ?thesis by (auto simp: hashes_distinct_def distinct_map inj_on_def)
qed

theorem owner_agreement_witness:
  "OwnerFor ''acme/orders'' nodes3 = OwnerFor ''acme/orders'' (rev nodes3)"
  using owner_agreement [OF nodes3_distinct, of "rev nodes3" "''acme/orders''"] by simp

lemma owner_fold_skip:
  "score key a \<le> score key b \<Longrightarrow>
   foldl (owner_step key) (Some a) ys = foldl (owner_step key) (Some b) ys \<or>
   foldl (owner_step key) (Some b) ys = Some b"
proof (induction ys arbitrary: a b)
  case (Cons y ys)
  consider "score key b < score key y" | "\<not> score key b < score key y" "score key a < score key y"
    | "\<not> score key b < score key y" "\<not> score key a < score key y" by blast
  then show ?case
  proof cases
    case 1
    then have "score key a < score key y" using Cons.prems by simp
    with 1 show ?thesis by (simp add: owner_step_def)
  next
    case 2
    then have "score key y \<le> score key b" by simp
    from Cons.IH [OF this] 2 show ?thesis by (auto simp: owner_step_def)
  next
    case 3
    then show ?thesis using Cons by (simp add: owner_step_def)
  qed
qed simp

text \<open>Adding or removing a machine moves only its own keys: with a member inserted anywhere in the
  list, the owner of a key is that member or whoever it was without it.\<close>

theorem minimal_disruption:
  "OwnerFor key (xs @ m # ys) = Some m \<or> OwnerFor key (xs @ m # ys) = OwnerFor key (xs @ ys)"
proof (cases "foldl (owner_step key) None xs")
  case None
  have "foldl (owner_step key) (Some m) ys = Some m \<or> foldl (owner_step key) (Some m) ys = foldl (owner_step key) None ys"
  proof (cases ys)
    case (Cons y zs)
    show ?thesis
    proof (cases "score key m < score key y")
      case False
      then have "score key y \<le> score key m" by simp
      from owner_fold_skip [OF this, of zs] False Cons show ?thesis by (auto simp: owner_step_def)
    qed (simp add: Cons owner_step_def)
  qed simp
  with None show ?thesis by (simp add: OwnerFor_def owner_step_def)
next
  case (Some b)
  show ?thesis
  proof (cases "score key b < score key m")
    case True
    then have "score key b \<le> score key m" by simp
    from owner_fold_skip [OF this, of ys] Some True show ?thesis by (auto simp: OwnerFor_def owner_step_def)
  qed (simp add: Some OwnerFor_def owner_step_def)
qed

subsection \<open>The candidates\<close>

lemma ranked_total:
  assumes "\<not> ranked_before key b a" "\<not> ranked_before key c b"
  shows "\<not> ranked_before key c a"
  using assms by (auto simp: ranked_before_def split: if_splits)

lemma ranked_asym: "ranked_before key a b \<Longrightarrow> \<not> ranked_before key b a"
  by (auto simp: ranked_before_def split: if_splits)

text \<open>The candidates of a queue are the top of its ranking and its owner is the first of them. For a
  width that bounds the members, the list has exactly that many machines, no machine left out
  scores above one taken, and, no two members sharing a hash, its first is the owner of the key.\<close>

theorem candidates_top:
  assumes "0 < width" and "width < int (length ms)" and "hashes_distinct ms"
  shows "length (CandidatesFor key ms width) = nat width \<and> mset (CandidatesFor key ms width) \<subseteq># mset ms \<and>
    (\<forall>a \<in> set (CandidatesFor key ms width). \<forall>b \<in># mset ms - mset (CandidatesFor key ms width). score key b \<le> score key a) \<and>
    OwnerFor key ms = Some (hd (CandidatesFor key ms width))"
proof -
  let ?r = "sort_by (ranked_before key) ms" and ?n = "nat width"
  have c: "CandidatesFor key ms width = take ?n ?r" using assms by (simp add: CandidatesFor_def)
  have n: "0 < ?n" "?n < length ms" using assms by simp_all
  have s: "sorted_wrt (\<lambda>a b. \<not> ranked_before key b a) ?r"
    by (rule sorted_sort_by) (use ranked_total ranked_asym in blast)+
  have split: "mset ms = mset (take ?n ?r) + mset (drop ?n ?r)"
    by (metis append_take_drop_id mset_append mset_sort_by)
  have sc: "score key b \<le> score key a" if "\<not> ranked_before key b a" for a b
    using that by (auto simp: ranked_before_def split: if_splits)
  have "sorted_wrt (\<lambda>a b. \<not> ranked_before key b a) (take ?n ?r @ drop ?n ?r)" using s by simp
  then have 1: "score key b \<le> score key a" if "a \<in> set (take ?n ?r)" "b \<in> set (drop ?n ?r)" for a b
    using that sc unfolding sorted_wrt_append by blast
  obtain h t where h: "?r = h # t" using n by (cases ?r) (auto dest: arg_cong [where f = length])
  have "score key b \<le> score key h" if "b \<in> set ms" for b
  proof -
    have "b \<in> set ?r" using that by simp
    then show ?thesis using s sc unfolding h by auto
  qed
  moreover have "h \<in> set ms" using h set_sort_by [of "ranked_before key" ms] by auto
  ultimately have "OwnerFor key ms = Some h" by (intro OwnerFor_unique assms(3)) auto
  moreover have "hd (take ?n ?r) = h" using n h by (cases ?n) simp_all
  ultimately show ?thesis using 1 split n unfolding c by auto
qed

theorem candidates_top_witness:
  "length (CandidatesFor ''acme/orders'' nodes3 2) = 2 \<and>
   OwnerFor ''acme/orders'' nodes3 = Some (hd (CandidatesFor ''acme/orders'' nodes3 2))"
  using candidates_top [OF _ _ nodes3_distinct, of 2 "''acme/orders''"] by (simp add: nodes3_def)

end
