(* ===== verification/Deque.thy ===== *)
theory Deque
  imports Prelude
begin

text \<open>
  \<open>backend/queue/logic/engine/deque.go\<close>: the FIFO behind every priority band and every group.
  A deque is a buffer and the index of its head; \<open>dq_list\<close> is the queue it stands for and
  \<open>dq_wf\<close> the bound on the head.  The locale \<open>fifo\<close> states the contract the slot relies on, and
  its interpretation discharges it for the buffer with its lazily moved head.

  Go's zero value of the element type, which \<open>popFront\<close> writes over the slot it leaves, is an
  argument.
\<close>

record 'a deque =
  buf :: "'a list"
  head :: nat

definition dq_empty :: "'a deque" where
  "dq_empty = \<lparr>buf = [], head = 0\<rparr>"

definition len :: "'a deque \<Rightarrow> nat" where
  "len d = length (buf d) - head d"

definition is_empty :: "'a deque \<Rightarrow> bool" where
  "is_empty d \<longleftrightarrow> len d = 0"

definition pushBack :: "'a deque \<Rightarrow> 'a \<Rightarrow> 'a deque" where
  "pushBack d v = d\<lparr>buf := buf d @ [v]\<rparr>"

definition pushFront :: "'a deque \<Rightarrow> 'a \<Rightarrow> 'a deque" where
  "pushFront d v =
     (if head d > 0 then d\<lparr>head := head d - 1, buf := (buf d)[head d - 1 := v]\<rparr>
      else d\<lparr>buf := v # buf d\<rparr>)"

text \<open>
  The test is written \<open>head < length\<close> where the code has \<open>head == len(buf)\<close> the other way round:
  the head never passes the end (\<open>dq_wf\<close>), and the recursions below then terminate on every value.
\<close>

definition popFront :: "'a \<Rightarrow> 'a deque \<Rightarrow> ('a \<times> 'a deque) option" where
  "popFront zero d =
     (if head d < length (buf d) then
        let v = buf d ! head d;
            b = (buf d)[head d := zero];
            h = head d + 1
        in if h > 32 \<and> h * 2 \<ge> length b
           then Some (v, d\<lparr>buf := drop h b, head := 0\<rparr>)
           else Some (v, d\<lparr>buf := b, head := h\<rparr>)
      else None)"

definition front :: "'a deque \<Rightarrow> 'a option" where
  "front d = (if head d < length (buf d) then Some (buf d ! head d) else None)"

definition dq_at :: "'a deque \<Rightarrow> nat \<Rightarrow> 'a" where
  "dq_at d i = buf d ! (head d + i)"

definition all :: "'a deque \<Rightarrow> 'a list" where
  "all d = drop (head d) (buf d)"

definition prepend :: "'a deque \<Rightarrow> 'a list \<Rightarrow> 'a deque" where
  "prepend d vs = (if vs = [] then d else \<lparr>buf = vs @ drop (head d) (buf d), head = 0\<rparr>)"

text \<open>The queue a deque stands for.\<close>

definition dq_list :: "'a deque \<Rightarrow> 'a list" where
  "dq_list d = drop (head d) (buf d)"

definition dq_wf :: "'a deque \<Rightarrow> bool" where
  "dq_wf d \<longleftrightarrow> head d \<le> length (buf d)"

subsection \<open>The buffer implements the queue\<close>

lemma dq_empty_wf [simp]: "dq_wf dq_empty"
  by (simp add: dq_wf_def dq_empty_def)

lemma dq_list_empty [simp]: "dq_list dq_empty = []"
  by (simp add: dq_list_def dq_empty_def)

lemma len_dq_list [simp]: "len d = length (dq_list d)"
  by (simp add: len_def dq_list_def)

lemma is_empty_dq_list [simp]: "is_empty d \<longleftrightarrow> dq_list d = []"
  by (simp add: is_empty_def)

lemma all_dq_list [simp]: "all d = dq_list d"
  by (simp add: all_def dq_list_def)

lemma dq_at_list [simp]: "dq_wf d \<Longrightarrow> i < length (dq_list d) \<Longrightarrow> dq_at d i = dq_list d ! i"
  by (simp add: dq_at_def dq_list_def dq_wf_def)

lemma front_dq_list [simp]: "front d = (case dq_list d of [] \<Rightarrow> None | v # _ \<Rightarrow> Some v)"
proof (cases "head d < length (buf d)")
  case True
  then have "drop (head d) (buf d) = buf d ! head d # drop (Suc (head d)) (buf d)"
    by (rule Cons_nth_drop_Suc [symmetric])
  with True show ?thesis by (simp add: front_def dq_list_def)
qed (simp add: front_def dq_list_def)

lemma pushBack_list [simp]: "dq_wf d \<Longrightarrow> dq_list (pushBack d v) = dq_list d @ [v]"
  by (simp add: pushBack_def dq_list_def dq_wf_def)

lemma pushBack_wf [simp]: "dq_wf d \<Longrightarrow> dq_wf (pushBack d v)"
  by (simp add: pushBack_def dq_wf_def)

lemma pushFront_list [simp]: "dq_wf d \<Longrightarrow> dq_list (pushFront d v) = v # dq_list d"
proof (cases "head d > 0")
  case True
  assume wf: "dq_wf d"
  then have lt: "head d - 1 < length ((buf d)[head d - 1 := v])"
    using True by (simp add: dq_wf_def)
  have "drop (head d - 1) ((buf d)[head d - 1 := v])
      = (buf d)[head d - 1 := v] ! (head d - 1) # drop (Suc (head d - 1)) ((buf d)[head d - 1 := v])"
    using lt by (rule Cons_nth_drop_Suc [symmetric])
  with True lt show ?thesis by (simp add: pushFront_def dq_list_def)
qed (simp add: pushFront_def dq_list_def)

lemma pushFront_wf [simp]: "dq_wf d \<Longrightarrow> dq_wf (pushFront d v)"
  by (auto simp: pushFront_def dq_wf_def)

lemma prepend_list [simp]: "dq_list (prepend d vs) = vs @ dq_list d"
  by (simp add: prepend_def dq_list_def)

lemma prepend_wf [simp]: "dq_wf d \<Longrightarrow> dq_wf (prepend d vs)"
  by (simp add: prepend_def dq_wf_def)

lemma popFront_None [simp]: "popFront z d = None \<longleftrightarrow> dq_list d = []"
  by (simp add: popFront_def dq_list_def Let_def)

text \<open>Popping yields the first element and leaves the rest, whether or not the buffer is moved.\<close>

lemma popFront_Some:
  assumes "popFront z d = Some (v, d')"
  shows "dq_list d = v # dq_list d' \<and> dq_wf d'"
proof -
  from assms have lt: "head d < length (buf d)"
    by (simp add: popFront_def split: if_splits)
  have "dq_list d = buf d ! head d # drop (Suc (head d)) (buf d)"
    using lt by (simp add: dq_list_def Cons_nth_drop_Suc)
  with assms lt show ?thesis
    by (auto simp: popFront_def Let_def dq_list_def dq_wf_def split: if_splits)
qed

lemma popFront_Cons:
  assumes "dq_list d = v # vs"
  obtains d' where "popFront z d = Some (v, d')" and "dq_list d' = vs" and "dq_wf d'"
proof (cases "popFront z d")
  case (Some x)
  obtain v' d' where "x = (v', d')" by (cases x)
  with Some popFront_Some [of z d v' d'] assms that show thesis by auto
qed (use assms in simp)

lemma popFront_len: "popFront z d = Some (v, d') \<Longrightarrow> length (dq_list d') < length (dq_list d)"
  by (drule popFront_Some) simp

subsection \<open>The contract of a FIFO\<close>

text \<open>Popping until nothing is left, as \<open>slot.drain\<close> does, with a bound on the number of pops.\<close>

fun drain_with :: "('q \<Rightarrow> ('a \<times> 'q) option) \<Rightarrow> nat \<Rightarrow> 'q \<Rightarrow> 'a list \<times> 'q" where
  "drain_with pop 0 q = ([], q)"
| "drain_with pop (Suc n) q = (case pop q of None \<Rightarrow> ([], q)
     | Some (x, q') \<Rightarrow> (x # fst (drain_with pop n q'), snd (drain_with pop n q')))"

locale fifo =
  fixes contents :: "'q \<Rightarrow> 'a list"
    and ok :: "'q \<Rightarrow> bool"
    and push :: "'q \<Rightarrow> 'a \<Rightarrow> 'q"
    and unpop :: "'q \<Rightarrow> 'a \<Rightarrow> 'q"
    and pop :: "'q \<Rightarrow> ('a \<times> 'q) option"
  assumes push_contents: "ok q \<Longrightarrow> contents (push q x) = contents q @ [x]"
    and push_ok: "ok q \<Longrightarrow> ok (push q x)"
    and unpop_contents: "ok q \<Longrightarrow> contents (unpop q x) = x # contents q"
    and unpop_ok: "ok q \<Longrightarrow> ok (unpop q x)"
    and pop_none: "pop q = None \<longleftrightarrow> contents q = []"
    and pop_some: "pop q = Some (x, q') \<Longrightarrow> contents q = x # contents q' \<and> ok q'"
begin

lemma drain_contents:
  "length (contents q) \<le> n \<Longrightarrow> fst (drain_with pop n q) = contents q \<and> contents (snd (drain_with pop n q)) = []"
proof (induction n arbitrary: q)
  case 0
  then show ?case by simp
next
  case (Suc n)
  show ?case
  proof (cases "pop q")
    case None
    then have "contents q = []" by (simp add: pop_none)
    with None show ?thesis by simp
  next
    case (Some y)
    obtain x q' where y: "y = (x, q')" by (cases y)
    with Some have c: "contents q = x # contents q'" using pop_some by blast
    with Suc.prems have "length (contents q') \<le> n" by simp
    from Suc.IH [OF this] c Some y show ?thesis by (simp add: split_beta)
  qed
qed

lemma drain_ok: "ok q \<Longrightarrow> ok (snd (drain_with pop n q))"
proof (induction n arbitrary: q)
  case (Suc n)
  then show ?case using pop_some by (cases "pop q") (auto split: prod.splits)
qed simp

lemma push_all_contents: "ok q \<Longrightarrow> contents (foldl push q xs) = contents q @ xs"
  by (induction xs arbitrary: q) (simp_all add: push_contents push_ok)

text \<open>What is pushed comes out in the order it went in: first in, first out.\<close>

lemma fifo_order:
  assumes "ok q" and "contents q = []" and "length xs \<le> n"
  shows "fst (drain_with pop n (foldl push q xs)) = xs \<and> contents (snd (drain_with pop n (foldl push q xs))) = []"
  using drain_contents [of "foldl push q xs" n] push_all_contents [of q xs] assms by simp

lemma unpop_pop: "ok q \<Longrightarrow> \<exists>q'. pop (unpop q x) = Some (x, q') \<and> contents q' = contents q"
proof -
  assume ok: "ok q"
  then have c: "contents (unpop q x) = x # contents q" by (rule unpop_contents)
  then obtain y q' where "pop (unpop q x) = Some (y, q')"
    using pop_none [of "unpop q x"] by (cases "pop (unpop q x)") auto
  with c pop_some [OF this] show ?thesis by auto
qed

end

interpretation dq: fifo dq_list dq_wf pushBack pushFront "popFront z" for z :: 'a
  by unfold_locales (auto dest: popFront_Some)

text \<open>A deque is a FIFO: pushing any list of elements onto an empty deque and popping until it
  reports empty returns exactly those elements in order, whatever compactions the buffer goes
  through, and leaves the deque empty.\<close>

theorem deque_fifo_order:
  "fst (drain_with (popFront z) (length xs) (foldl pushBack dq_empty xs)) = xs
   \<and> dq_list (snd (drain_with (popFront z) (length xs) (foldl pushBack dq_empty xs))) = []"
  by (rule dq.fifo_order) simp_all

end
