(* ===== verification/GoHeap.thy ===== *)
theory GoHeap
  imports Deque
begin

text \<open>
  \<open>backend/queue/logic/engine/heaps.go\<close>: the lease timers and the delayed messages, two slices
  kept in heap order by Go's \<open>container/heap\<close>.  \<open>Less\<close> compares the \<open>at\<close> times, here the
  function \<open>key\<close>; \<open>up\<close>, \<open>down\<close>, \<open>heap_push\<close> and \<open>heap_pop\<close> are the package's loops on the slice.
  The locale \<open>timer_queue\<close> is the contract the slot uses: pushing and popping keep the contents as a
  multiset and a pop takes an entry with the least time.
\<close>

text \<open>The parent of a position, \<open>(j - 1) / 2\<close>.\<close>

definition parent :: "nat \<Rightarrow> nat" where
  "parent j = (j - 1) div 2"

lemma parent_less: "0 < j \<Longrightarrow> parent j < j"
  by (simp add: parent_def)

lemma parent_le: "parent j \<le> j"
  by (simp add: parent_def)

lemma parent_0 [simp]: "parent 0 = 0"
  by (simp add: parent_def)

definition swap :: "'a list \<Rightarrow> nat \<Rightarrow> nat \<Rightarrow> 'a list" where
  "swap h i j = h[i := h ! j, j := h ! i]"

function up :: "('a \<Rightarrow> time) \<Rightarrow> 'a list \<Rightarrow> nat \<Rightarrow> 'a list" where
  "up key h j =
     (let i = parent j
      in if i = j \<or> \<not> key (h ! j) < key (h ! i) then h else up key (swap h i j) i)"
  by pat_completeness auto
termination
  by (relation "measure (\<lambda>(key, h, j). j)") (auto simp: parent_def)

function down :: "('a \<Rightarrow> time) \<Rightarrow> 'a list \<Rightarrow> nat \<Rightarrow> nat \<Rightarrow> 'a list" where
  "down key h i n =
     (let j1 = 2 * i + 1
      in if j1 \<ge> n then h
         else let j = (if j1 + 1 < n \<and> key (h ! (j1 + 1)) < key (h ! j1) then j1 + 1 else j1)
              in if \<not> key (h ! j) < key (h ! i) then h else down key (swap h i j) j n)"
  by pat_completeness auto
termination
  by (relation "measure (\<lambda>(key, h, i, n). n - i)") (auto split: if_splits)

declare up.simps [simp del] down.simps [simp del]

definition heap_push :: "('a \<Rightarrow> time) \<Rightarrow> 'a list \<Rightarrow> 'a \<Rightarrow> 'a list" where
  "heap_push key h x = up key (h @ [x]) (length h)"

text \<open>\<open>heap.Pop\<close>; the callers test \<open>Len() > 0\<close> first.\<close>

definition heap_pop :: "('a \<Rightarrow> time) \<Rightarrow> 'a list \<Rightarrow> 'a \<times> 'a list" where
  "heap_pop key h =
     (let n = length h - 1;
          h' = down key (swap h 0 n) 0 n
      in (h' ! n, take n h'))"

definition heap_take :: "('a \<Rightarrow> time) \<Rightarrow> 'a list \<Rightarrow> ('a \<times> 'a list) option" where
  "heap_take key h = (if h = [] then None else Some (heap_pop key h))"

text \<open>Heap order on the first \<open>n\<close> elements.\<close>

definition heap_upto :: "('a \<Rightarrow> time) \<Rightarrow> 'a list \<Rightarrow> nat \<Rightarrow> bool" where
  "heap_upto key h n \<longleftrightarrow> (\<forall>k. 0 < k \<and> k < n \<longrightarrow> key (h ! (parent k)) \<le> key (h ! k))"

definition is_heap :: "('a \<Rightarrow> time) \<Rightarrow> 'a list \<Rightarrow> bool" where
  "is_heap key h \<longleftrightarrow> heap_upto key h (length h)"

subsection \<open>Swaps and loops only reorder\<close>

lemma length_swap [simp]: "length (swap h i j) = length h"
  by (simp add: swap_def)

lemma mset_swap_idx [simp]: "i < length h \<Longrightarrow> j < length h \<Longrightarrow> mset (swap h i j) = mset h"
  by (simp add: swap_def mset_swap)

lemma nth_swap:
  "k < length h \<Longrightarrow> i < length h \<Longrightarrow> j < length h \<Longrightarrow>
   swap h i j ! k = (if k = j then h ! i else if k = i then h ! j else h ! k)"
  by (simp add: swap_def nth_list_update)

lemma up_mset: "j < length h \<Longrightarrow> mset (up key h j) = mset h"
proof (induction key h j rule: up.induct)
  case (1 key h j)
  have "parent j < length h" using "1.prems" parent_le [of j] by linarith
  with 1 show ?case by (subst up.simps) (auto simp: Let_def)
qed

lemma up_length: "j < length h \<Longrightarrow> length (up key h j) = length h"
  using up_mset [of j h key] by (metis size_mset)

lemma down_mset: "n \<le> length h \<Longrightarrow> mset (down key h i n) = mset h"
proof (induction key h i n rule: down.induct)
  case (1 key h i n)
  show ?case
    by (subst down.simps) (use 1 in \<open>auto simp: Let_def\<close>)
qed

lemma down_length: "n \<le> length h \<Longrightarrow> length (down key h i n) = length h"
  using down_mset [of n h key i] by (metis size_mset)

text \<open>\<open>down\<close> touches only the first \<open>n\<close> positions.\<close>

lemma down_frame: "n \<le> m \<Longrightarrow> m < length h \<Longrightarrow> down key h i n ! m = h ! m"
proof (induction key h i n rule: down.induct)
  case (1 key h i n)
  show ?case
    by (subst down.simps) (use 1 in \<open>auto simp: Let_def nth_swap\<close>)
qed

subsection \<open>\<open>up\<close> restores heap order\<close>

definition up_inv :: "('a \<Rightarrow> time) \<Rightarrow> 'a list \<Rightarrow> nat \<Rightarrow> bool" where
  "up_inv key h j \<longleftrightarrow>
     (\<forall>k. 0 < k \<and> k < length h \<and> k \<noteq> j \<longrightarrow> key (h ! (parent k)) \<le> key (h ! k)) \<and>
     (\<forall>k. 0 < j \<and> 0 < k \<and> k < length h \<and> parent k = j \<longrightarrow> key (h ! (parent j)) \<le> key (h ! k))"

lemma up_inv_step:
  assumes inv: "up_inv key h j" and j: "0 < j" "j < length h" and pj: "parent j = i"
    and lt: "key (h ! j) < key (h ! i)"
  shows "up_inv key (swap h i j) i"
proof -
  have i: "i < j" "i < length h" using j pj parent_less [of j] by auto
  have nth: "swap h i j ! k = (if k = j then h ! i else if k = i then h ! j else h ! k)"
    if "k < length h" for k
    using that i j by (simp add: nth_swap)
  have A: "key (h ! parent k) \<le> key (h ! k)" if "0 < k" "k < length h" "k \<noteq> j" for k
    using inv that by (simp add: up_inv_def)
  have B: "key (h ! i) \<le> key (h ! k)" if "0 < k" "k < length h" "parent k = j" for k
    using inv that j pj by (simp add: up_inv_def)
  have 1: "key (swap h i j ! parent k) \<le> key (swap h i j ! k)"
    if k: "0 < k" "k < length h" "k \<noteq> i" for k
  proof -
    have p: "parent k < k" using k parent_less by simp
    consider "k = j" | "parent k = j" "k \<noteq> j" | "parent k = i" "k \<noteq> j"
      | "k \<noteq> j" "parent k \<noteq> j" "parent k \<noteq> i" by blast
    then show ?thesis
      using A [OF k(1,2)] B [OF k(1,2)] lt k p i j pj by cases (auto simp: nth)
  qed
  have 2: "key (swap h i j ! parent i) \<le> key (swap h i j ! k)"
    if k: "0 < i" "0 < k" "k < length h" "parent k = i" for k
  proof -
    have p: "parent i < i" using k(1) parent_less by simp
    then have "swap h i j ! parent i = h ! parent i" using i j by (simp add: nth)
    moreover have "key (h ! parent i) \<le> key (h ! i)" using A [of i] k(1) i by simp
    moreover have "k \<noteq> i" using k parent_less [of k] by auto
    ultimately show ?thesis
      using A [of k] k i j by (cases "k = j") (auto simp: nth)
  qed
  show ?thesis using 1 2 by (simp add: up_inv_def)
qed

lemma up_heap: "j < length h \<Longrightarrow> up_inv key h j \<Longrightarrow> is_heap key (up key h j)"
proof (induction key h j rule: up.induct)
  case (1 key h j)
  show ?case
  proof (cases "parent j = j \<or> \<not> key (h ! j) < key (h ! parent j)")
    case True
    have "key (h ! parent k) \<le> key (h ! k)" if "0 < k" "k < length h" for k
      using True "1.prems" that parent_less [of k] by (cases "k = j") (auto simp: up_inv_def)
    with True show ?thesis by (subst up.simps) (simp add: is_heap_def heap_upto_def)
  next
    case False
    then have j: "0 < j" by (cases j) auto
    have "parent j < length (swap h (parent j) j)"
      using "1.prems"(1) parent_le [of j] by simp
    moreover have "up_inv key (swap h (parent j) j) (parent j)"
      using up_inv_step [OF "1.prems"(2) j "1.prems"(1) refl] False by simp
    ultimately have "is_heap key (up key (swap h (parent j) j) (parent j))"
      using "1.IH" [OF refl False] by simp
    with False show ?thesis by (subst up.simps) (simp add: Let_def)
  qed
qed

subsection \<open>\<open>down\<close> restores heap order\<close>

definition down_inv :: "('a \<Rightarrow> time) \<Rightarrow> 'a list \<Rightarrow> nat \<Rightarrow> nat \<Rightarrow> bool" where
  "down_inv key h i n \<longleftrightarrow>
     (\<forall>k. 0 < k \<and> k < n \<and> parent k \<noteq> i \<longrightarrow> key (h ! (parent k)) \<le> key (h ! k)) \<and>
     (\<forall>k. 0 < i \<and> 0 < k \<and> k < n \<and> parent k = i \<longrightarrow> key (h ! parent i) \<le> key (h ! k))"

lemma children: "0 < k \<Longrightarrow> parent k = i \<longleftrightarrow> k = 2 * i + 1 \<or> k = 2 * i + 2"
  by (cases k) (auto simp: parent_def)

lemma down_inv_step:
  assumes inv: "down_inv key h i n" and n: "n \<le> length h"
    and j: "0 < j" "j < n" "parent j = i" and lt: "key (h ! j) < key (h ! i)"
    and least: "\<And>k. 0 < k \<Longrightarrow> k < n \<Longrightarrow> parent k = i \<Longrightarrow> key (h ! j) \<le> key (h ! k)"
  shows "down_inv key (swap h i j) j n"
proof -
  let ?h = "swap h i j"
  have i: "i < j" using j parent_less by blast
  have nth: "?h ! k = (if k = j then h ! i else if k = i then h ! j else h ! k)" if "k < n" for k
    using that i j n by (intro nth_swap) auto
  have A: "key (h ! (parent k)) \<le> key (h ! k)" if "0 < k" "k < n" "parent k \<noteq> i" for k
    using inv that by (simp add: down_inv_def)
  have B: "key (h ! parent i) \<le> key (h ! k)" if "0 < i" "0 < k" "k < n" "parent k = i" for k
    using inv that by (simp add: down_inv_def)
  have 1: "key (?h ! (parent k)) \<le> key (?h ! k)" if k: "0 < k" "k < n" "parent k \<noteq> j" for k
  proof -
    have p: "parent k < k" "parent k < n" using k parent_less [of k] by auto
    consider "k = j" | "parent k = i" "k \<noteq> j" | "k = i"
      | "k \<noteq> j" "k \<noteq> i" "parent k \<noteq> i" by blast
    then show ?thesis
    proof cases
      case 1
      with i j lt p show ?thesis by (simp add: nth)
    next
      case 2
      moreover have "k \<noteq> i" using 2 k p by auto
      ultimately show ?thesis using least [OF k(1,2)] p k by (simp add: nth)
    next
      case 3
      with B [of j] k i j p show ?thesis by (simp add: nth)
    next
      case 4
      with A [OF k(1,2)] k p show ?thesis by (simp add: nth)
    qed
  qed
  have 2: "key (?h ! (parent j)) \<le> key (?h ! k)" if k: "0 < k" "k < n" "parent k = j" for k
  proof -
    have "k \<noteq> j" "k \<noteq> i" using k i parent_less [of k] by auto
    with A [OF k(1,2)] k i j show ?thesis by (simp add: nth)
  qed
  show ?thesis using 1 2 by (simp add: down_inv_def)
qed

lemma down_heap: "n \<le> length h \<Longrightarrow> down_inv key h i n \<Longrightarrow> heap_upto key (down key h i n) n"
proof (induction key h i n rule: down.induct)
  case (1 key h i n)
  let ?j1 = "2 * i + 1"
  let ?j = "if ?j1 + 1 < n \<and> key (h ! (?j1 + 1)) < key (h ! ?j1) then ?j1 + 1 else ?j1"
  have A: "key (h ! (parent k)) \<le> key (h ! k)" if "0 < k" "k < n" "parent k \<noteq> i" for k
    using "1.prems"(2) that by (simp add: down_inv_def)
  have least: "key (h ! ?j) \<le> key (h ! k)" if "0 < k" "k < n" "parent k = i" for k
    using that children [of k i] by auto
  consider "n \<le> ?j1" | "?j1 < n" "\<not> key (h ! ?j) < key (h ! i)"
    | "?j1 < n" "key (h ! ?j) < key (h ! i)" by linarith
  then show ?case
  proof cases
    case 1
    then have "parent k \<noteq> i" if "0 < k" "k < n" for k
      using that children [of k i] by auto
    with A 1 show ?thesis by (subst down.simps) (simp add: heap_upto_def)
  next
    case 2
    then have "key (h ! i) \<le> key (h ! k)" if "0 < k" "k < n" "parent k = i" for k
      using least [OF that] by linarith
    with A have "heap_upto key h n" by (metis heap_upto_def)
    with 2 show ?thesis by (subst down.simps) (auto simp: Let_def)
  next
    case 3
    have j: "0 < ?j" "?j < n" "parent ?j = i" using 3 by (auto simp: parent_def)
    have "down_inv key (swap h i ?j) ?j n"
      using down_inv_step [OF "1.prems"(2,1) j 3(2) least] by blast
    then have "heap_upto key (down key (swap h i ?j) ?j n) n"
      using "1.IH" [OF refl _ refl] 3 "1.prems"(1) by simp
    with 3 show ?thesis by (subst down.simps) (simp add: Let_def del: One_nat_def)
  qed
qed

subsection \<open>Push and pop\<close>

lemma heap_push_mset [simp]: "mset (heap_push key h x) = add_mset x (mset h)"
  by (simp add: heap_push_def up_mset)

lemma heap_push_set [simp]: "set (heap_push key h x) = insert x (set h)"
  by (metis heap_push_mset set_mset_add_mset_insert set_mset_mset)

lemma heap_push_length [simp]: "length (heap_push key h x) = Suc (length h)"
  by (metis heap_push_mset size_add_mset size_mset)

lemma heap_push_heap [simp]:
  assumes "is_heap key h"
  shows "is_heap key (heap_push key h x)"
  unfolding heap_push_def
proof (rule up_heap)
  have "key ((h @ [x]) ! parent k) \<le> key ((h @ [x]) ! k)" if "0 < k" "k < length h" for k
    using assms that parent_less [of k] by (simp add: is_heap_def heap_upto_def nth_append)
  moreover have "parent k \<noteq> length h" if "0 < k" "k < Suc (length h)" for k
    using that parent_less [of k] by simp
  ultimately show "up_inv key (h @ [x]) (length h)"
    by (auto simp: up_inv_def less_Suc_eq)
qed simp

lemma is_heap_Nil [simp]: "is_heap key []"
  by (simp add: is_heap_def heap_upto_def)

lemma heap_root_le: "heap_upto key h n \<Longrightarrow> k < n \<Longrightarrow> key (h ! 0) \<le> key (h ! k)"
proof (induction k rule: less_induct)
  case (less k)
  show ?case
  proof (cases "k = 0")
    case False
    then have "key (h ! 0) \<le> key (h ! (parent k))" using less parent_less [of k] by simp
    also have "\<dots> \<le> key (h ! k)" using False less.prems by (simp add: heap_upto_def)
    finally show ?thesis .
  qed simp
qed

text \<open>The first element of the slice has the least time: what the sweep loops test.\<close>

lemma heap_root_min: "is_heap key h \<Longrightarrow> x \<in> set h \<Longrightarrow> key (h ! 0) \<le> key x"
  by (metis heap_root_le in_set_conv_nth is_heap_def)

lemma heap_pop_props:
  assumes "h \<noteq> []" and "is_heap key h" and "heap_pop key h = (x, h')"
  shows "x = h ! 0 \<and> mset h = add_mset x (mset h') \<and> is_heap key h'"
proof -
  let ?n = "length h - 1"
  let ?h1 = "swap h 0 ?n"
  let ?h2 = "down key ?h1 0 ?n"
  have n: "?n < length h" "Suc ?n = length h" using assms(1) by simp_all
  have len: "length ?h2 = length h" using down_length [of ?n ?h1 key 0] by simp
  have pn: "parent k < length h" "parent k \<noteq> ?n" "parent k < ?n" if "0 < k" "k < ?n" for k
    using that parent_less [of k] by linarith+
  have inv: "down_inv key ?h1 0 ?n"
    using pn assms(1,2) parent_less
    by (auto simp: down_inv_def is_heap_def heap_upto_def nth_swap)
  have heap: "heap_upto key ?h2 ?n" by (rule down_heap) (use inv in simp_all)
  have last: "?h2 ! ?n = h ! 0"
    using n down_frame [of ?n ?n ?h1 key 0] nth_swap [of ?n h 0 ?n] assms(1) by simp
  have x: "x = h ! 0" "h' = take ?n ?h2"
    using assms(3) last by (auto simp: heap_pop_def Let_def)
  have "?h2 = take ?n ?h2 @ [?h2 ! ?n]"
    using n len by (metis lessI take_Suc_conv_app_nth take_all_iff le_refl)
  then have "mset ?h2 = add_mset (h ! 0) (mset h')"
    using last x by (metis mset_append mset_single_iff_right union_mset_add_mset_right add_mset_add_single mset.simps(2) mset.simps(1))
  moreover have "mset ?h2 = mset h" using down_mset [of ?n ?h1 key 0] mset_swap_idx [of 0 h ?n] assms(1) by simp
  moreover have "is_heap key h'"
    using heap len x pn by (simp add: is_heap_def heap_upto_def)
  ultimately show ?thesis using x by simp
qed

lemma heap_pop_length: "h \<noteq> [] \<Longrightarrow> length (snd (heap_pop key h)) < length h"
  using down_length [of "length h - 1" "swap h 0 (length h - 1)" key 0]
  by (simp add: heap_pop_def Let_def)

subsection \<open>The contract of a timer queue\<close>

locale timer_queue =
  fixes contents :: "'q \<Rightarrow> 'a multiset"
    and ok :: "'q \<Rightarrow> bool"
    and key :: "'a \<Rightarrow> time"
    and push :: "'q \<Rightarrow> 'a \<Rightarrow> 'q"
    and pop :: "'q \<Rightarrow> ('a \<times> 'q) option"
  assumes push_contents: "contents (push q x) = add_mset x (contents q)"
    and push_ok: "ok q \<Longrightarrow> ok (push q x)"
    and pop_none: "pop q = None \<longleftrightarrow> contents q = {#}"
    and pop_some: "ok q \<Longrightarrow> pop q = Some (x, q') \<Longrightarrow> contents q = add_mset x (contents q') \<and> ok q'"
    and pop_least: "ok q \<Longrightarrow> pop q = Some (x, q') \<Longrightarrow> y \<in># contents q' \<Longrightarrow> key x \<le> key y"
begin

lemma drain_props:
  "ok q \<Longrightarrow> size (contents q) \<le> n \<Longrightarrow>
   mset (fst (drain_with pop n q)) = contents q \<and> sorted (map key (fst (drain_with pop n q)))"
proof (induction n arbitrary: q)
  case 0
  then show ?case by simp
next
  case (Suc n)
  show ?case
  proof (cases "pop q")
    case None
    then have "contents q = {#}" by (simp add: pop_none)
    with None show ?thesis by simp
  next
    case (Some y)
    obtain x q' where y: "y = (x, q')" by (cases y)
    with Some Suc.prems have c: "contents q = add_mset x (contents q')" and ok: "ok q'"
      using pop_some by blast+
    with Suc.prems have "size (contents q') \<le> n" by simp
    note IH = Suc.IH [OF ok this]
    have "key x \<le> key z" if "z \<in> set (fst (drain_with pop n q'))" for z
      using pop_least [of q x q' z] Suc.prems Some y that IH by (metis set_mset_mset)
    with IH c Some y show ?thesis by auto
  qed
qed

text \<open>Whatever is pushed comes out in order of its time.\<close>

lemma timer_order:
  assumes "ok q" and "contents q = {#}"
  shows "mset (fst (drain_with pop (length xs) (foldl push q xs))) = mset xs
    \<and> sorted (map key (fst (drain_with pop (length xs) (foldl push q xs))))"
proof -
  have "ok (foldl push q xs) \<and> contents (foldl push q xs) = contents q + mset xs"
    using assms(1) by (induction xs arbitrary: q) (simp_all add: push_ok push_contents)
  then have "ok (foldl push q xs)" and "contents (foldl push q xs) = mset xs"
    using assms(2) by simp_all
  then show ?thesis using drain_props [of "foldl push q xs" "length xs"] by simp
qed

end

interpretation th: timer_queue mset "is_heap key" key "heap_push key" "heap_take key" for key :: "'a \<Rightarrow> time"
proof (unfold_locales, goal_cases)
  case (4 q x q')
  then show ?case by (auto simp: heap_take_def split: if_splits dest: heap_pop_props)
next
  case (5 q x q' y)
  then have "q \<noteq> []" and "heap_pop key q = (x, q')" by (auto simp: heap_take_def split: if_splits)
  with 5(1,3) heap_pop_props [of q key x q'] heap_root_min [of key q y] show ?case
    by (metis insert_iff set_mset_add_mset_insert set_mset_mset)
qed (auto simp: heap_take_def)

text \<open>The timer heap hands entries out by deadline: after pushing any entries into an empty
  heap, popping them all returns exactly those entries, none lost or repeated, in
  non-decreasing order of time.\<close>

theorem timer_heap_order:
  "mset (fst (drain_with (heap_take key) (length xs) (foldl (heap_push key) [] xs))) = mset xs
   \<and> sorted (map key (fst (drain_with (heap_take key) (length xs) (foldl (heap_push key) [] xs))))"
  by (rule th.timer_order) simp_all

end
