(* ===== verification/Slot.thy ===== *)
theory Slot
  imports Message GoHeap
begin

text \<open>
  \<open>backend/queue/logic/engine/slot.go\<close>, \<open>group.go\<close>, \<open>sweep.go\<close> and \<open>stats.go\<close>: the state of one slot
  and every operation on it, under the slot's lock.

  A \<open>*group\<close> is shared by the \<open>groups\<close> map, by band entries (some of them stale) and by leases, so
  groups live in a store \<open>gheap\<close> and a pointer is an address below \<open>gnext\<close>.  \<open>bands\<close> maps a priority
  to its deque; \<open>groups\<close> and \<open>inflight\<close> are association lists, and the operations that range over
  them take the visiting order.  Group versions, epochs and the lifetime counters are \<open>uint64\<close> values
  that grow by one per event and are natural numbers here; gauges are \<open>int64\<close> and integers here.
\<close>

unbundle bit_operations_syntax

subsection \<open>State\<close>

record group =
  gid :: string
  msgs :: "message deque"
  locked :: bool
  inBand :: bool
  band :: prio
  version :: nat

record bandEntry =
  e_g :: nat
  e_ver :: nat

record lease =
  l_msg :: message
  l_g :: nat
  l_epoch :: nat
  l_deadline :: time

record timerEntry =
  t_id :: string
  t_epoch :: nat
  t_at :: time

record delayEntry =
  d_msg :: message
  d_at :: time

record slotStats =
  n_ready :: "nat \<Rightarrow> int"
  n_inflight :: int
  n_delayed :: int
  n_bytes :: int
  n_enqueued :: nat
  n_acked :: nat
  n_expired :: nat
  n_requeued :: nat
  n_deadLettered :: nat

datatype msgState = stAbsent | stReady | stInFlight | stDelayed

record slot =
  sid :: u16
  bandMask :: "u64 \<times> u64"
  bands :: "prio \<rightharpoonup> bandEntry deque"
  gheap :: "nat \<Rightarrow> group"
  gnext :: nat
  groups :: "(string \<times> nat) list"
  inflight :: "(string \<times> lease) list"
  timers :: "timerEntry list"
  delayed :: "delayEntry list"
  epochSeq :: nat
  st :: slotStats
  hint :: nat
  headSeq :: u64
  sfrozen :: bool

definition empty_group :: "string \<Rightarrow> group" where
  "empty_group g = \<lparr>gid = g, msgs = dq_empty, locked = False, inBand = False, band = 0, version = 0\<rparr>"

definition zero_entry :: bandEntry where
  "zero_entry = \<lparr>e_g = 0, e_ver = 0\<rparr>"

definition zero_stats :: slotStats where
  "zero_stats = \<lparr>n_ready = (\<lambda>_. 0), n_inflight = 0, n_delayed = 0, n_bytes = 0, n_enqueued = 0,
     n_acked = 0, n_expired = 0, n_requeued = 0, n_deadLettered = 0\<rparr>"

definition newSlot :: "u16 \<Rightarrow> slot" where
  "newSlot i = \<lparr>sid = i, bandMask = (0, 0), bands = Map.empty, gheap = (\<lambda>_. empty_group []), gnext = 0,
     groups = [], inflight = [], timers = [], delayed = [], epochSeq = 0, st = zero_stats, hint = 0,
     headSeq = max_u64, sfrozen = False\<rparr>"

subsection \<open>Gauges\<close>

definition resetGauges :: "slotStats \<Rightarrow> slotStats" where
  "resetGauges t = t\<lparr>n_ready := (\<lambda>_. 0), n_inflight := 0, n_delayed := 0, n_bytes := 0\<rparr>"

definition move_from :: "slotStats \<Rightarrow> message \<Rightarrow> msgState \<Rightarrow> slotStats" where
  "move_from t m from = (case from of
     stReady \<Rightarrow> t\<lparr>n_ready := (n_ready t)(bucketOf (Priority m) := n_ready t (bucketOf (Priority m)) - 1)\<rparr>
   | stInFlight \<Rightarrow> t\<lparr>n_inflight := n_inflight t - 1\<rparr>
   | stDelayed \<Rightarrow> t\<lparr>n_delayed := n_delayed t - 1\<rparr>
   | stAbsent \<Rightarrow> t\<lparr>n_bytes := n_bytes t + int (length (Payload m))\<rparr>)"

definition move_to :: "slotStats \<Rightarrow> message \<Rightarrow> msgState \<Rightarrow> slotStats" where
  "move_to t m to = (case to of
     stReady \<Rightarrow> t\<lparr>n_ready := (n_ready t)(bucketOf (Priority m) := n_ready t (bucketOf (Priority m)) + 1)\<rparr>
   | stInFlight \<Rightarrow> t\<lparr>n_inflight := n_inflight t + 1\<rparr>
   | stDelayed \<Rightarrow> t\<lparr>n_delayed := n_delayed t + 1\<rparr>
   | stAbsent \<Rightarrow> t\<lparr>n_bytes := n_bytes t - int (length (Payload m))\<rparr>)"

definition move :: "slot \<Rightarrow> message \<Rightarrow> msgState \<Rightarrow> msgState \<Rightarrow> slot" where
  "move s m from to = s\<lparr>st := move_to (move_from (st s) m from) m to\<rparr>"

subsection \<open>The band mask\<close>

text \<open>
  \<open>bandMask[p>>6]\<close> is the first word below priority 64 and the second from there; priorities are at
  most 100, so no index past the array is ever formed.
\<close>

definition band_bit :: "prio \<Rightarrow> u64" where
  "band_bit p = push_bit (unat (p AND 63)) 1"

definition setBand :: "slot \<Rightarrow> prio \<Rightarrow> slot" where
  "setBand s p = s\<lparr>bandMask :=
     (if drop_bit 6 p = 0 then (fst (bandMask s) OR band_bit p, snd (bandMask s))
      else (fst (bandMask s), snd (bandMask s) OR band_bit p))\<rparr>"

definition clearBand :: "slot \<Rightarrow> prio \<Rightarrow> slot" where
  "clearBand s p = s\<lparr>bandMask :=
     (if drop_bit 6 p = 0 then (fst (bandMask s) AND NOT (band_bit p), snd (bandMask s))
      else (fst (bandMask s), snd (bandMask s) AND NOT (band_bit p)))\<rparr>"

definition LeadingZeros64 :: "u64 \<Rightarrow> nat" where
  "LeadingZeros64 w = length (takeWhile (\<lambda>i. \<not> bit w i) (rev [0..<64]))"

definition highestBand :: "slot \<Rightarrow> prio option" where
  "highestBand s =
     (if snd (bandMask s) \<noteq> 0 then Some (of_nat (127 - LeadingZeros64 (snd (bandMask s))))
      else if fst (bandMask s) \<noteq> 0 then Some (of_nat (63 - LeadingZeros64 (fst (bandMask s))))
      else None)"

subsection \<open>Groups and bands\<close>

definition upd_group :: "slot \<Rightarrow> nat \<Rightarrow> (group \<Rightarrow> group) \<Rightarrow> slot" where
  "upd_group s r f = s\<lparr>gheap := (gheap s)(r := f (gheap s r))\<rparr>"

definition band_deque :: "slot \<Rightarrow> prio \<Rightarrow> bandEntry deque" where
  "band_deque s p = (case bands s p of None \<Rightarrow> dq_empty | Some d \<Rightarrow> d)"

definition pushGroup :: "slot \<Rightarrow> nat \<Rightarrow> slot" where
  "pushGroup s r =
     (case front (msgs (gheap s r)) of
        None \<Rightarrow> s
      | Some m \<Rightarrow>
          if locked (gheap s r) then s
          else let p = Priority m;
                   s = upd_group s r (\<lambda>g. g\<lparr>version := version g + 1, band := p, inBand := True\<rparr>);
                   e = \<lparr>e_g = r, e_ver = version (gheap s r)\<rparr>
               in setBand (s\<lparr>bands := (bands s)(p \<mapsto> pushBack (band_deque s p) e)\<rparr>) p)"

definition dropBand :: "slot \<Rightarrow> prio \<Rightarrow> slot" where
  "dropBand s p = clearBand (s\<lparr>bands := (bands s)(p := None)\<rparr>) p"

text \<open>The loop of \<open>takeGroup\<close>: stale entries are skipped, the first live one is taken out.\<close>

function take_entry :: "(nat \<Rightarrow> group) \<Rightarrow> bandEntry deque \<Rightarrow> (nat \<Rightarrow> group) \<times> bandEntry deque \<times> nat option" where
  "take_entry H d =
     (case popFront zero_entry d of
        None \<Rightarrow> (H, d, None)
      | Some (e, d') \<Rightarrow>
          if e_ver e \<noteq> version (H (e_g e)) then take_entry H d'
          else let H' = H(e_g e := (H (e_g e))\<lparr>inBand := False\<rparr>)
               in if locked (H (e_g e)) \<or> is_empty (msgs (H (e_g e))) then take_entry H' d'
                  else (H', d', Some (e_g e)))"
  by pat_completeness auto
termination
  by (relation "measure (\<lambda>(H, d). length (dq_list d))") (auto dest: popFront_len)

declare take_entry.simps [simp del]

definition takeGroup :: "slot \<Rightarrow> prio \<Rightarrow> slot \<times> nat option" where
  "takeGroup s p =
     (case bands s p of
        None \<Rightarrow> (clearBand s p, None)
      | Some d \<Rightarrow>
          (case take_entry (gheap s) d of
             (H, d', Some r) \<Rightarrow>
               (let s = s\<lparr>gheap := H, bands := (bands s)(p \<mapsto> d')\<rparr>
                in (if is_empty d' then dropBand s p else s, Some r))
           | (H, d', None) \<Rightarrow> (dropBand (s\<lparr>gheap := H\<rparr>) p, None)))"

text \<open>The first deliverable message among the first eight entries of a band.\<close>

fun head_scan :: "(nat \<Rightarrow> group) \<Rightarrow> bandEntry list \<Rightarrow> message option" where
  "head_scan H [] = None"
| "head_scan H (e # es) =
     (if e_ver e \<noteq> version (H (e_g e)) \<or> locked (H (e_g e)) then head_scan H es
      else (case front (msgs (H (e_g e))) of Some m \<Rightarrow> Some m | None \<Rightarrow> head_scan H es))"

definition headMessage :: "slot \<Rightarrow> prio \<Rightarrow> message option" where
  "headMessage s p =
     (case bands s p of
        None \<Rightarrow> None
      | Some d \<Rightarrow>
          (let limit = (if len d > 8 then 8 else len d)
           in head_scan (gheap s) (map (dq_at d) [0..<limit])))"

definition refreshHint :: "slot \<Rightarrow> slot" where
  "refreshHint s =
     (case highestBand s of
        None \<Rightarrow> s\<lparr>hint := 0, headSeq := max_u64\<rparr>
      | Some p \<Rightarrow> s\<lparr>hint := unat p + 1,
                    headSeq := (case headMessage s p of Some m \<Rightarrow> Seq m | None \<Rightarrow> max_u64)\<rparr>)"

subsection \<open>Enqueue\<close>

definition hold :: "slot \<Rightarrow> message \<Rightarrow> msgState \<Rightarrow> slot" where
  "hold s m from =
     move (s\<lparr>delayed := heap_push d_at (delayed s) \<lparr>d_msg = m, d_at = DeliverAfter m\<rparr>\<rparr>) m from stDelayed"

definition group_ref :: "slot \<Rightarrow> string \<Rightarrow> slot \<times> nat" where
  "group_ref s k =
     (case map_of (groups s) k of
        Some r \<Rightarrow> (s, r)
      | None \<Rightarrow> (s\<lparr>gheap := (gheap s)(gnext s := empty_group k), gnext := gnext s + 1,
                    groups := AList.update k (gnext s) (groups s)\<rparr>, gnext s))"

definition admit :: "slot \<Rightarrow> message \<Rightarrow> slot" where
  "admit s m =
     (let (s, r) = group_ref s (msg_group m);
          s = upd_group s r (\<lambda>g. g\<lparr>msgs := pushBack (msgs g) m\<rparr>)
      in if \<not> locked (gheap s r) \<and> \<not> inBand (gheap s r) then pushGroup s r else s)"

definition enqueue :: "slot \<Rightarrow> message \<Rightarrow> time \<Rightarrow> slot" where
  "enqueue s m now =
     (let s = s\<lparr>st := (st s)\<lparr>n_enqueued := n_enqueued (st s) + 1\<rparr>\<rparr>
      in if held_back m now then hold s m stAbsent
         else refreshHint (admit (move s m stAbsent stReady) m))"

subsection \<open>Delivery\<close>

definition dropExpired :: "slot \<Rightarrow> message \<Rightarrow> slot" where
  "dropExpired s m =
     (let s = move s m stReady stAbsent in s\<lparr>st := (st s)\<lparr>n_expired := n_expired (st s) + 1\<rparr>\<rparr>)"

definition dropGroupIfIdle :: "slot \<Rightarrow> nat \<Rightarrow> slot" where
  "dropGroupIfIdle s r =
     (let g = gheap s r
      in if \<not> locked g \<and> is_empty (msgs g) \<and> \<not> inBand g
         then s\<lparr>groups := AList.delete (gid g) (groups s)\<rparr> else s)"

lemma dropExpired_gheap [simp]: "gheap (dropExpired s m) = gheap s"
  by (simp add: dropExpired_def move_def Let_def)

lemma upd_group_gheap [simp]: "gheap (upd_group s r f) = (gheap s)(r := f (gheap s r))"
  by (simp add: upd_group_def)

text \<open>Pop the group's messages until one has not expired.\<close>

function pop_fresh :: "slot \<Rightarrow> nat \<Rightarrow> time \<Rightarrow> slot \<times> message option" where
  "pop_fresh s r now =
     (case popFront zero_message (msgs (gheap s r)) of
        None \<Rightarrow> (s, None)
      | Some (v, d) \<Rightarrow>
          (let s = upd_group s r (\<lambda>g. g\<lparr>msgs := d\<rparr>)
           in if expired v now then pop_fresh (dropExpired s v) r now else (s, Some v)))"
  by pat_completeness auto
termination
  by (relation "measure (\<lambda>(s, r, now). length (dq_list (msgs (gheap s r))))")
    (auto dest: popFront_len)

declare pop_fresh.simps [simp del]

definition take_msg :: "slot \<Rightarrow> prio \<Rightarrow> time \<Rightarrow> duration \<Rightarrow> slot \<times> (message \<times> receipt) option" where
  "take_msg s p now vis =
     (case takeGroup s p of
        (s, None) \<Rightarrow> (refreshHint s, None)
      | (s, Some r) \<Rightarrow>
          (case pop_fresh s r now of
             (s, None) \<Rightarrow> (refreshHint (dropGroupIfIdle s r), None)
           | (s, Some m) \<Rightarrow>
               (let m = m\<lparr>Attempts := Attempts m + 1\<rparr>;
                    s = s\<lparr>epochSeq := epochSeq s + 1\<rparr>;
                    s = upd_group s r (\<lambda>g. g\<lparr>locked := True\<rparr>);
                    l = \<lparr>l_msg = m, l_g = r, l_epoch = epochSeq s, l_deadline = now + vis\<rparr>;
                    s = s\<lparr>inflight := AList.update (ID m) l (inflight s),
                          timers := heap_push t_at (timers s)
                            \<lparr>t_id = ID m, t_epoch = l_epoch l, t_at = l_deadline l\<rparr>\<rparr>;
                    s = refreshHint (move s m stReady stInFlight)
                in (s, Some (m, \<lparr>Slot = sid s, MessageID = ID m, Epoch = l_epoch l, Incarnation = 0\<rparr>)))))"

subsection \<open>Acknowledgement, rejection and the lease timers\<close>

definition unlock :: "slot \<Rightarrow> nat \<Rightarrow> slot" where
  "unlock s r =
     (let s = upd_group s r (\<lambda>g. g\<lparr>locked := False\<rparr>)
      in if is_empty (msgs (gheap s r)) then dropGroupIfIdle s r
         else if \<not> inBand (gheap s r) then pushGroup s r else s)"

definition ack :: "slot \<Rightarrow> receipt \<Rightarrow> slot \<times> engine_error option" where
  "ack s r =
     (case map_of (inflight s) (MessageID r) of
        None \<Rightarrow> (s, Some ErrNotInFlight)
      | Some l \<Rightarrow>
          if l_epoch l \<noteq> Epoch r then (s, Some ErrLeaseExpired)
          else let s = s\<lparr>inflight := AList.delete (MessageID r) (inflight s)\<rparr>;
                   s = move s (l_msg l) stInFlight stAbsent;
                   s = s\<lparr>st := (st s)\<lparr>n_acked := n_acked (st s) + 1\<rparr>\<rparr>;
                   s = unlock s (l_g l)
               in (refreshHint s, None))"

text \<open>
  \<open>retire\<close> with its deferred \<open>unlock\<close>: the state, the message to dead-letter if any, and whether the
  message went back.
\<close>

definition retire :: "slot \<Rightarrow> lease \<Rightarrow> time \<Rightarrow> u32 \<Rightarrow> duration \<Rightarrow> bool \<Rightarrow> slot \<times> message option \<times> bool" where
  "retire s l now maxRetries delay deadLetter =
     (let g = l_g l; m = l_msg l
      in if expired m now then
           (let s = move s m stInFlight stAbsent;
                s = s\<lparr>st := (st s)\<lparr>n_expired := n_expired (st s) + 1\<rparr>\<rparr>
            in (unlock s g, None, False))
         else if Attempts m \<ge> maxRetries \<and> deadLetter then
           (let s = move s m stInFlight stAbsent;
                s = s\<lparr>st := (st s)\<lparr>n_deadLettered := n_deadLettered (st s) + 1\<rparr>\<rparr>
            in (unlock s g, Some m, False))
         else if delay > 0 then
           (let m = m\<lparr>DeliverAfter := now + delay\<rparr>;
                s = hold s m stInFlight;
                s = s\<lparr>st := (st s)\<lparr>n_requeued := n_requeued (st s) + 1\<rparr>\<rparr>
            in (unlock s g, None, True))
         else
           (let s = upd_group s g (\<lambda>g. g\<lparr>msgs := pushFront (msgs g) m\<rparr>);
                s = move s m stInFlight stReady;
                s = s\<lparr>st := (st s)\<lparr>n_requeued := n_requeued (st s) + 1\<rparr>\<rparr>
            in (unlock s g, None, True)))"

definition nack :: "slot \<Rightarrow> receipt \<Rightarrow> duration \<Rightarrow> time \<Rightarrow> u32 \<Rightarrow> bool \<Rightarrow> slot \<times> (engine_error + message option)" where
  "nack s r delay now maxRetries deadLetter =
     (case map_of (inflight s) (MessageID r) of
        None \<Rightarrow> (s, Inl ErrNotInFlight)
      | Some l \<Rightarrow>
          if l_epoch l \<noteq> Epoch r then (s, Inl ErrLeaseExpired)
          else let s = s\<lparr>inflight := AList.delete (MessageID r) (inflight s)\<rparr>;
                   (s, dead, back) = retire s l now maxRetries delay deadLetter
               in (refreshHint s, Inr dead))"

end
