(* ===== verification/Sweep.thy ===== *)
theory Sweep
  imports Slot
begin

text \<open>
  The timers of a slot and its hand-over (\<open>backend/queue/logic/engine/sweep.go\<close>, the rest of
  \<open>slot.go\<close>): expired leases, expired messages, delayed messages, the starvation scan, statistics,
  copying and draining.  The three timer loops are recursions on the slot; their termination rests on
  the frame lemmas for what one iteration leaves alone.
\<close>

subsection \<open>What the primitives leave alone\<close>

lemma move_frame [simp]:
  "sid (move s m a b) = sid s" "bandMask (move s m a b) = bandMask s" "bands (move s m a b) = bands s"
  "gheap (move s m a b) = gheap s" "gnext (move s m a b) = gnext s" "groups (move s m a b) = groups s"
  "inflight (move s m a b) = inflight s" "timers (move s m a b) = timers s"
  "delayed (move s m a b) = delayed s" "epochSeq (move s m a b) = epochSeq s"
  "hint (move s m a b) = hint s" "headSeq (move s m a b) = headSeq s" "sfrozen (move s m a b) = sfrozen s"
  by (simp_all add: move_def)

lemma setBand_frame [simp]:
  "sid (setBand s p) = sid s" "bands (setBand s p) = bands s" "gheap (setBand s p) = gheap s"
  "gnext (setBand s p) = gnext s" "groups (setBand s p) = groups s" "inflight (setBand s p) = inflight s"
  "timers (setBand s p) = timers s" "delayed (setBand s p) = delayed s" "epochSeq (setBand s p) = epochSeq s"
  "st (setBand s p) = st s" "sfrozen (setBand s p) = sfrozen s"
  by (simp_all add: setBand_def)

lemma clearBand_frame [simp]:
  "sid (clearBand s p) = sid s" "bands (clearBand s p) = bands s" "gheap (clearBand s p) = gheap s"
  "gnext (clearBand s p) = gnext s" "groups (clearBand s p) = groups s" "inflight (clearBand s p) = inflight s"
  "timers (clearBand s p) = timers s" "delayed (clearBand s p) = delayed s"
  "epochSeq (clearBand s p) = epochSeq s" "st (clearBand s p) = st s" "sfrozen (clearBand s p) = sfrozen s"
  by (simp_all add: clearBand_def)

lemma upd_group_frame [simp]:
  "sid (upd_group s r f) = sid s" "bandMask (upd_group s r f) = bandMask s"
  "bands (upd_group s r f) = bands s" "gnext (upd_group s r f) = gnext s"
  "groups (upd_group s r f) = groups s" "inflight (upd_group s r f) = inflight s"
  "timers (upd_group s r f) = timers s" "delayed (upd_group s r f) = delayed s"
  "epochSeq (upd_group s r f) = epochSeq s" "st (upd_group s r f) = st s"
  "sfrozen (upd_group s r f) = sfrozen s" "hint (upd_group s r f) = hint s"
  "headSeq (upd_group s r f) = headSeq s"
  by (simp_all add: upd_group_def)

lemma dropBand_frame [simp]:
  "sid (dropBand s p) = sid s" "bands (dropBand s p) = (bands s)(p := None)" "gheap (dropBand s p) = gheap s"
  "gnext (dropBand s p) = gnext s" "groups (dropBand s p) = groups s" "inflight (dropBand s p) = inflight s"
  "timers (dropBand s p) = timers s" "delayed (dropBand s p) = delayed s"
  "epochSeq (dropBand s p) = epochSeq s" "st (dropBand s p) = st s" "sfrozen (dropBand s p) = sfrozen s"
  by (simp_all add: dropBand_def)

lemma pushGroup_frame [simp]:
  "sid (pushGroup s r) = sid s" "gnext (pushGroup s r) = gnext s" "groups (pushGroup s r) = groups s"
  "inflight (pushGroup s r) = inflight s" "timers (pushGroup s r) = timers s"
  "delayed (pushGroup s r) = delayed s" "epochSeq (pushGroup s r) = epochSeq s"
  "st (pushGroup s r) = st s" "sfrozen (pushGroup s r) = sfrozen s"
  by (simp_all add: pushGroup_def Let_def split: list.splits)

lemma refreshHint_frame [simp]:
  "sid (refreshHint s) = sid s" "bandMask (refreshHint s) = bandMask s" "bands (refreshHint s) = bands s"
  "gheap (refreshHint s) = gheap s" "gnext (refreshHint s) = gnext s" "groups (refreshHint s) = groups s"
  "inflight (refreshHint s) = inflight s" "timers (refreshHint s) = timers s"
  "delayed (refreshHint s) = delayed s" "epochSeq (refreshHint s) = epochSeq s"
  "st (refreshHint s) = st s" "sfrozen (refreshHint s) = sfrozen s"
  by (simp_all add: refreshHint_def split: option.splits)

lemma hold_frame [simp]:
  "sid (hold s m a) = sid s" "bandMask (hold s m a) = bandMask s" "bands (hold s m a) = bands s"
  "gheap (hold s m a) = gheap s" "gnext (hold s m a) = gnext s" "groups (hold s m a) = groups s"
  "inflight (hold s m a) = inflight s" "timers (hold s m a) = timers s"
  "epochSeq (hold s m a) = epochSeq s" "sfrozen (hold s m a) = sfrozen s"
  "hint (hold s m a) = hint s" "headSeq (hold s m a) = headSeq s"
  "delayed (hold s m a) = heap_push d_at (delayed s) \<lparr>d_msg = m, d_at = DeliverAfter m\<rparr>"
  by (simp_all add: hold_def)

lemma group_ref_frame:
  assumes "group_ref s k = (s', r)"
  shows "sid s' = sid s" "bandMask s' = bandMask s" "bands s' = bands s" "inflight s' = inflight s"
    "timers s' = timers s" "delayed s' = delayed s" "epochSeq s' = epochSeq s" "st s' = st s"
    "sfrozen s' = sfrozen s" "hint s' = hint s" "headSeq s' = headSeq s"
  using assms by (auto simp: group_ref_def split: option.splits)

lemma admit_frame [simp]:
  "sid (admit s m) = sid s" "inflight (admit s m) = inflight s" "timers (admit s m) = timers s"
  "delayed (admit s m) = delayed s" "epochSeq (admit s m) = epochSeq s" "st (admit s m) = st s"
  "sfrozen (admit s m) = sfrozen s"
  by (auto simp: admit_def Let_def group_ref_frame split: prod.splits)

lemma dropExpired_frame [simp]:
  "sid (dropExpired s m) = sid s" "bandMask (dropExpired s m) = bandMask s" "bands (dropExpired s m) = bands s"
  "gnext (dropExpired s m) = gnext s" "groups (dropExpired s m) = groups s"
  "inflight (dropExpired s m) = inflight s" "timers (dropExpired s m) = timers s"
  "delayed (dropExpired s m) = delayed s" "epochSeq (dropExpired s m) = epochSeq s"
  "sfrozen (dropExpired s m) = sfrozen s"
  by (simp_all add: dropExpired_def Let_def)

lemma dropGroupIfIdle_frame [simp]:
  "sid (dropGroupIfIdle s r) = sid s" "bandMask (dropGroupIfIdle s r) = bandMask s"
  "bands (dropGroupIfIdle s r) = bands s" "gheap (dropGroupIfIdle s r) = gheap s"
  "gnext (dropGroupIfIdle s r) = gnext s" "inflight (dropGroupIfIdle s r) = inflight s"
  "timers (dropGroupIfIdle s r) = timers s" "delayed (dropGroupIfIdle s r) = delayed s"
  "epochSeq (dropGroupIfIdle s r) = epochSeq s" "st (dropGroupIfIdle s r) = st s"
  "sfrozen (dropGroupIfIdle s r) = sfrozen s"
  by (simp_all add: dropGroupIfIdle_def Let_def)

lemma unlock_frame [simp]:
  "sid (unlock s r) = sid s" "gnext (unlock s r) = gnext s" "inflight (unlock s r) = inflight s"
  "timers (unlock s r) = timers s" "delayed (unlock s r) = delayed s" "epochSeq (unlock s r) = epochSeq s"
  "st (unlock s r) = st s" "sfrozen (unlock s r) = sfrozen s"
  by (simp_all add: unlock_def Let_def)

lemma retire_frame:
  assumes "retire s l now mr delay dl = (s', dead, back)"
  shows "sid s' = sid s" "gnext s' = gnext s" "inflight s' = inflight s" "timers s' = timers s"
    "epochSeq s' = epochSeq s" "sfrozen s' = sfrozen s"
  using assms by (auto simp: retire_def Let_def split: if_splits)

lemma retire_timers [simp]: "timers (fst (retire s l now mr delay dl)) = timers s"
  by (simp add: retire_def Let_def)

subsection \<open>Expired leases\<close>

function sweepLeases_loop :: "slot \<Rightarrow> time \<Rightarrow> u32 \<Rightarrow> bool \<Rightarrow> message list \<Rightarrow> nat \<Rightarrow> slot \<times> message list \<times> nat" where
  "sweepLeases_loop s now maxRetries deadLetter dead requeued =
     (if timers s \<noteq> [] \<and> \<not> now < t_at (timers s ! 0) then
        let (e, h) = heap_pop t_at (timers s);
            s = s\<lparr>timers := h\<rparr>
        in case map_of (inflight s) (t_id e) of
             None \<Rightarrow> sweepLeases_loop s now maxRetries deadLetter dead requeued
           | Some l \<Rightarrow>
               if l_epoch l \<noteq> t_epoch e
               then sweepLeases_loop s now maxRetries deadLetter dead requeued
               else let s = s\<lparr>inflight := AList.delete (t_id e) (inflight s)\<rparr>;
                        (s, m, back) = retire s l now maxRetries 0 deadLetter
                    in sweepLeases_loop s now maxRetries deadLetter
                         (case m of None \<Rightarrow> dead | Some m \<Rightarrow> dead @ [m])
                         (if back then requeued + 1 else requeued)
      else (s, dead, requeued))"
  by pat_completeness auto
termination
  by (relation "measure (\<lambda>(s, _). length (timers s))")
    (use heap_pop_length in \<open>auto dest: retire_frame simp: prod_eq_iff\<close>)

declare sweepLeases_loop.simps [simp del]

definition sweepLeases :: "slot \<Rightarrow> time \<Rightarrow> u32 \<Rightarrow> bool \<Rightarrow> slot \<times> message list \<times> nat" where
  "sweepLeases s now maxRetries deadLetter =
     (let (s, dead, requeued) = sweepLeases_loop s now maxRetries deadLetter [] 0
      in (refreshHint s, dead, requeued))"

subsection \<open>Expired messages\<close>

function expire_front :: "slot \<Rightarrow> nat \<Rightarrow> time \<Rightarrow> nat \<Rightarrow> slot \<times> nat" where
  "expire_front s r now dropped =
     (case front (msgs (gheap s r)) of
        None \<Rightarrow> (s, dropped)
      | Some m \<Rightarrow>
          if \<not> expired m now then (s, dropped)
          else (case popFront zero_message (msgs (gheap s r)) of
                  None \<Rightarrow> (s, dropped)
                | Some (_, d) \<Rightarrow>
                    expire_front (dropExpired (upd_group s r (\<lambda>g. g\<lparr>msgs := d\<rparr>)) m) r now (dropped + 1)))"
  by pat_completeness auto
termination
  by (relation "measure (\<lambda>(s, r, now, n). length (dq_list (msgs (gheap s r))))")
    (auto dest: popFront_len)

declare expire_front.simps [simp del]

definition sweepTTL_group :: "slot \<Rightarrow> nat \<Rightarrow> time \<Rightarrow> slot \<times> nat" where
  "sweepTTL_group s r now =
     (let (s, dropped) = expire_front s r now 0;
          s = (if dropped > 0 \<and> inBand (gheap s r)
               then upd_group s r (\<lambda>g. g\<lparr>version := version g + 1, inBand := False\<rparr>) else s);
          s = (if \<not> inBand (gheap s r) \<and> \<not> locked (gheap s r) \<and> \<not> is_empty (msgs (gheap s r))
               then pushGroup s r else s)
      in (dropGroupIfIdle s r, dropped))"

fun sweepTTL_loop :: "slot \<Rightarrow> string list \<Rightarrow> time \<Rightarrow> nat \<Rightarrow> slot \<times> nat" where
  "sweepTTL_loop s [] now n = (s, n)"
| "sweepTTL_loop s (k # ks) now n =
     (case map_of (groups s) k of
        None \<Rightarrow> sweepTTL_loop s ks now n
      | Some r \<Rightarrow> (let (s, dropped) = sweepTTL_group s r now in sweepTTL_loop s ks now (n + dropped)))"

text \<open>\<open>ks\<close> is the order in which the loop visits the groups.\<close>

definition sweepTTL :: "slot \<Rightarrow> string list \<Rightarrow> time \<Rightarrow> slot \<times> nat" where
  "sweepTTL s ks now = (let (s, n) = sweepTTL_loop s ks now 0 in (refreshHint s, n))"

subsection \<open>Delayed messages\<close>

function releaseDelayed_loop :: "slot \<Rightarrow> time \<Rightarrow> nat \<Rightarrow> slot \<times> nat" where
  "releaseDelayed_loop s now n =
     (if delayed s \<noteq> [] \<and> \<not> now < d_at (delayed s ! 0) then
        let (e, h) = heap_pop d_at (delayed s);
            s = s\<lparr>delayed := h\<rparr>;
            m = (d_msg e)\<lparr>DeliverAfter := 0\<rparr>;
            s = admit (move s m stDelayed stReady) m
        in releaseDelayed_loop s now (n + 1)
      else (s, n))"
  by pat_completeness auto
termination
  by (relation "measure (\<lambda>(s, _). length (delayed s))")
    (use heap_pop_length in \<open>auto simp: prod_eq_iff\<close>)

declare releaseDelayed_loop.simps [simp del]

definition releaseDelayed :: "slot \<Rightarrow> time \<Rightarrow> slot \<times> nat" where
  "releaseDelayed s now =
     (let (s, n) = releaseDelayed_loop s now 0 in (if n > 0 then refreshHint s else s, n))"

subsection \<open>The starvation scan\<close>

text \<open>
  The set bits of a mask word from the lowest up, as \<open>TrailingZeros64\<close> and clearing the bit found
  yield them.
\<close>

definition set_bits :: "u64 \<Rightarrow> nat list" where
  "set_bits w = filter (bit w) [0..<64]"

fun band_scan :: "slot \<Rightarrow> time \<Rightarrow> nat list \<Rightarrow> prio option" where
  "band_scan s cutoff [] = None"
| "band_scan s cutoff (b # bs) =
     (case headMessage s (of_nat b) of
        Some m \<Rightarrow> if EnqueuedAt m < cutoff then Some (of_nat b) else band_scan s cutoff bs
      | None \<Rightarrow> band_scan s cutoff bs)"

definition oldestBandBefore :: "slot \<Rightarrow> time \<Rightarrow> prio option" where
  "oldestBandBefore s cutoff =
     band_scan s cutoff (set_bits (fst (bandMask s)) @ map (\<lambda>b. 64 + b) (set_bits (snd (bandMask s))))"

subsection \<open>Statistics\<close>

record stats =
  s_ready :: "nat \<Rightarrow> int"
  s_inflight :: int
  s_delayed :: int
  s_bytes :: int
  s_oldestAge :: duration
  s_topReady :: int
  s_enqueued :: nat
  s_acked :: nat
  s_expired :: nat
  s_requeued :: nat
  s_deadLettered :: nat
  s_escapes :: nat

definition stats_group :: "slot \<Rightarrow> time \<Rightarrow> duration \<times> int \<Rightarrow> nat \<Rightarrow> duration \<times> int" where
  "stats_group s now a r =
     (case front (msgs (gheap s r)) of
        None \<Rightarrow> a
      | Some m \<Rightarrow>
          if expired m now then a
          else ((if now - EnqueuedAt m > fst a then now - EnqueuedAt m else fst a),
                (if \<not> locked (gheap s r) \<and> int (unat (Priority m)) > snd a
                 then int (unat (Priority m)) else snd a)))"

definition slot_stats :: "slot \<Rightarrow> time \<Rightarrow> stats" where
  "slot_stats s now =
     (let (age, top) = foldl (stats_group s now) (0, -1) (map snd (groups s))
      in \<lparr>s_ready = n_ready (st s), s_inflight = n_inflight (st s), s_delayed = n_delayed (st s),
          s_bytes = n_bytes (st s), s_oldestAge = (if age < 0 then 0 else age), s_topReady = top,
          s_enqueued = n_enqueued (st s), s_acked = n_acked (st s), s_expired = n_expired (st s),
          s_requeued = n_requeued (st s), s_deadLettered = n_deadLettered (st s), s_escapes = 0\<rparr>)"

subsection \<open>Copying and draining\<close>

text \<open>\<open>ki\<close> and \<open>kg\<close> are the orders in which the leases and the groups are visited.\<close>

definition leased_msgs :: "slot \<Rightarrow> string list \<Rightarrow> message list" where
  "leased_msgs s ki = map (\<lambda>k. l_msg (the (map_of (inflight s) k))) ki"

definition grouped_msgs :: "slot \<Rightarrow> string list \<Rightarrow> message list" where
  "grouped_msgs s kg = concat (map (\<lambda>k. all (msgs (gheap s (the (map_of (groups s) k))))) kg)"

definition copyAll :: "slot \<Rightarrow> string list \<Rightarrow> string list \<Rightarrow> message list" where
  "copyAll s ki kg = leased_msgs s ki @ grouped_msgs s kg @ map d_msg (delayed s)"

definition drained_msgs :: "slot \<Rightarrow> string list \<Rightarrow> message list" where
  "drained_msgs s kg =
     concat (map (\<lambda>k. let d = msgs (gheap s (the (map_of (groups s) k)))
                      in fst (drain_with (popFront zero_message) (len d) d)) kg)"

definition emptied :: "slot \<Rightarrow> string list \<Rightarrow> slot" where
  "emptied s kg =
     foldl (\<lambda>s k. upd_group s (the (map_of (groups s) k))
       (\<lambda>g. g\<lparr>msgs := snd (drain_with (popFront zero_message) (len (msgs g)) (msgs g))\<rparr>)) s kg"

lemma emptied_frame [simp]:
  "sid (emptied s kg) = sid s" "gnext (emptied s kg) = gnext s" "epochSeq (emptied s kg) = epochSeq s"
  "st (emptied s kg) = st s" "sfrozen (emptied s kg) = sfrozen s"
  by (induction kg arbitrary: s) (simp_all add: emptied_def)

definition drain :: "slot \<Rightarrow> string list \<Rightarrow> string list \<Rightarrow> slot \<times> message list" where
  "drain s ki kg =
     (let out = leased_msgs s ki @ drained_msgs s kg
                @ map d_msg (fst (drain_with (heap_take d_at) (length (delayed s)) (delayed s)));
          s = (emptied s kg)\<lparr>delayed := [], inflight := [], groups := [], bands := Map.empty, bandMask := (0, 0),
                timers := [], st := resetGauges (st s)\<rparr>
      in (refreshHint s, sort_key Seq out))"

end
