(* ===== verification/Bands.thy ===== *)
theory Bands
  imports Sweep
begin

text \<open>
  The band mask and the band entries of a slot: what \<open>highestBand\<close> finds, the structural invariant
  \<open>band_ok\<close> that ties \<open>groups\<close>, \<open>bands\<close>, group versions and the mask together, and its
  preservation by the primitives.  \<open>band_ok X\<close> exempts the groups in \<open>X\<close>, the ones an operation has
  in its hands, from being either locked or listed.
\<close>

subsection \<open>Mask bits\<close>

definition mask_bit :: "slot \<Rightarrow> prio \<Rightarrow> bool" where
  "mask_bit s p \<longleftrightarrow>
     (if drop_bit 6 p = 0 then bit (fst (bandMask s)) (unat (p AND 63))
      else bit (snd (bandMask s)) (unat (p AND 63)))"

lemma unat_low6: "unat (p AND 63 :: prio) = unat p mod 64"
proof -
  have "p AND 63 = take_bit 6 p" by (simp add: take_bit_eq_mask mask_eq_exp_minus_1)
  then have "p AND 63 = p mod 64" by (simp add: take_bit_eq_mod)
  then show ?thesis by (simp add: unat_mod_distrib)
qed

lemma unat_high2: "unat (drop_bit 6 p :: prio) = unat p div 64"
  by (simp only: unat_drop_bit_eq) (simp add: drop_bit_eq_div)

lemma unat_low6_less [simp]: "unat (p AND 63 :: prio) < 64"
  by (simp add: unat_low6)

lemma high2_zero: "drop_bit 6 p = 0 \<longleftrightarrow> unat (p :: prio) < 64"
proof -
  have "drop_bit 6 p = 0 \<longleftrightarrow> unat (drop_bit 6 p) = 0" by (simp add: unat_eq_0)
  then show ?thesis by (simp add: unat_high2 div_eq_0_iff)
qed

lemma div64: "\<not> n < 64 \<Longrightarrow> n < 128 \<Longrightarrow> n div 64 = (1::nat)"
  by (rule div_nat_eqI) simp_all

lemma prio_split: "drop_bit 6 p = 0 \<longleftrightarrow> drop_bit 6 q = 0 \<Longrightarrow> p AND 63 = q AND 63
  \<Longrightarrow> p < 128 \<Longrightarrow> q < 128 \<Longrightarrow> p = (q :: prio)"
proof -
  assume h: "drop_bit 6 p = 0 \<longleftrightarrow> drop_bit 6 q = 0" and l: "p AND 63 = q AND 63"
    and lt: "p < 128" "q < 128"
  have "unat p < 128" "unat q < 128" using lt by (simp_all add: word_less_nat_alt)
  moreover have "unat p mod 64 = unat q mod 64" using l by (metis unat_low6)
  moreover have "unat p div 64 = unat q div 64"
    using h calculation(1,2) unfolding high2_zero
    by (cases "unat p < 64"; cases "unat q < 64") (simp_all add: div64)
  ultimately have "unat p = unat q" by (metis div_mult_mod_eq)
  then show ?thesis by (simp only: word_unat_eq_iff)
qed

lemma unat_eq_iff_low6: "unat (q AND 63 :: prio) = unat (p AND 63 :: prio) \<longleftrightarrow> q AND 63 = p AND 63"
  by (metis word_unat_eq_iff)

lemma bit_band_bit: "bit (band_bit p) n \<longleftrightarrow> n = unat (p AND 63)"
  using unat_low6_less [of p] by (auto simp: band_bit_def bit_exp_iff)

lemma mask_setBand: "p < 128 \<Longrightarrow> q < 128 \<Longrightarrow> mask_bit (setBand s p) q \<longleftrightarrow> q = p \<or> mask_bit s q"
  using prio_split [of q p] unat_eq_iff_low6 [of q p]
  by (auto simp: mask_bit_def setBand_def bit_or_iff bit_band_bit)

lemma mask_clearBand: "p < 128 \<Longrightarrow> q < 128 \<Longrightarrow> mask_bit (clearBand s p) q \<longleftrightarrow> q \<noteq> p \<and> mask_bit s q"
  using prio_split [of q p] unat_eq_iff_low6 [of q p]
  by (auto simp: mask_bit_def clearBand_def bit_and_iff bit_not_iff bit_band_bit)

lemma mask_bit_cong: "bandMask s' = bandMask s \<Longrightarrow> mask_bit s' p = mask_bit s p"
  by (simp add: mask_bit_def)

lemma takeWhile_rev_upt:
  "(\<exists>i<n. P i) \<Longrightarrow>
   (let k = length (takeWhile (\<lambda>i. \<not> P i) (rev [0..<n]))
    in k < n \<and> P (n - 1 - k) \<and> (\<forall>i<n. P i \<longrightarrow> i \<le> n - 1 - k))"
proof (induction n)
  case (Suc n)
  show ?case
  proof (cases "P n")
    case False
    with Suc.prems have "\<exists>i<n. P i" by (auto simp: less_Suc_eq)
    from Suc.IH [OF this] False show ?thesis by (auto simp: Let_def less_Suc_eq)
  qed auto
qed simp

lemma LeadingZeros64_props:
  assumes "w \<noteq> 0"
  shows "LeadingZeros64 w < 64" "bit w (63 - LeadingZeros64 w)" "bit w i \<Longrightarrow> i \<le> 63 - LeadingZeros64 w"
proof -
  have "\<exists>i<64. bit w i"
  proof (rule ccontr)
    assume "\<not> ?thesis"
    then have "w = 0" by (intro bit_eqI) (auto dest: bit_imp_le_length)
    with assms show False by simp
  qed
  from takeWhile_rev_upt [OF this]
  have *: "LeadingZeros64 w < 64 \<and> bit w (64 - 1 - LeadingZeros64 w)
    \<and> (\<forall>i<64. bit w i \<longrightarrow> i \<le> 64 - 1 - LeadingZeros64 w)"
    unfolding LeadingZeros64_def Let_def .
  then show "LeadingZeros64 w < 64" "bit w (63 - LeadingZeros64 w)" by simp_all
  show "bit w i \<Longrightarrow> i \<le> 63 - LeadingZeros64 w" using * bit_imp_le_length [of w i] by simp
qed

lemma mask_bit_of_nat:
  "n < 64 \<Longrightarrow> mask_bit s (of_nat n) \<longleftrightarrow> bit (fst (bandMask s)) n"
  "n < 64 \<Longrightarrow> mask_bit s (of_nat (64 + n)) \<longleftrightarrow> bit (snd (bandMask s)) n"
  by (simp_all add: mask_bit_def high2_zero unat_low6 unat_of_nat del: of_nat_add)

text \<open>\<open>highestBand\<close> is the greatest priority whose bit is set.\<close>

lemma highestBand_Some:
  assumes "highestBand s = Some p"
  shows "p < 128 \<and> mask_bit s p \<and> (\<forall>q<128. mask_bit s q \<longrightarrow> q \<le> p)"
proof (cases "snd (bandMask s) = 0")
  case False
  let ?k = "63 - LeadingZeros64 (snd (bandMask s))"
  note lz = LeadingZeros64_props [OF False]
  have p: "p = of_nat (64 + ?k)"
    using assms False lz(1) by (simp add: highestBand_def del: of_nat_add)
  have u: "unat p = 64 + ?k" using p by (simp add: unat_of_nat del: of_nat_add)
  have "q \<le> p" if q: "q < 128" "mask_bit s q" for q
  proof (cases "unat q < 64")
    case True
    with u show ?thesis by (simp add: word_le_nat_alt)
  next
    case F: False
    with q have "bit (snd (bandMask s)) (unat q mod 64)"
      by (simp add: mask_bit_def high2_zero unat_low6)
    then have "unat q mod 64 \<le> ?k" by (rule lz(3))
    moreover have "unat q < 128" using q(1) by (simp add: word_less_nat_alt)
    then have "unat q = 64 + unat q mod 64" using F div64 [OF F] div_mult_mod_eq [of "unat q" 64] by simp
    ultimately show ?thesis using u by (simp only: word_le_nat_alt)
  qed
  moreover have "mask_bit s p" unfolding p by (subst mask_bit_of_nat(2)) (use lz in simp_all)
  moreover have "p < 128" using u by (simp add: word_less_nat_alt)
  ultimately show ?thesis by blast
next
  case True
  with assms have ne: "fst (bandMask s) \<noteq> 0" by (auto simp: highestBand_def split: if_splits)
  let ?k = "63 - LeadingZeros64 (fst (bandMask s))"
  note lz = LeadingZeros64_props [OF ne]
  have p: "p = of_nat ?k" using assms True ne by (simp add: highestBand_def)
  have u: "unat p = ?k" using p by (simp add: unat_of_nat)
  have "q \<le> p" if q: "q < 128" "mask_bit s q" for q
  proof -
    have "unat q < 64" "bit (fst (bandMask s)) (unat q mod 64)"
      using q True by (auto simp: mask_bit_def high2_zero unat_low6 split: if_splits)
    with lz(3) [OF this(2)] u show ?thesis by (simp add: word_le_nat_alt)
  qed
  moreover have "mask_bit s p" unfolding p by (subst mask_bit_of_nat(1)) (use lz in simp_all)
  moreover have "p < 128" using u by (simp add: word_less_nat_alt)
  ultimately show ?thesis by blast
qed

lemma highestBand_None:
  "highestBand s = None \<longleftrightarrow> (\<forall>q<128. \<not> mask_bit s q)"
proof
  assume "highestBand s = None"
  then have "fst (bandMask s) = 0" "snd (bandMask s) = 0"
    by (auto simp: highestBand_def split: if_splits)
  then show "\<forall>q<128. \<not> mask_bit s q" by (simp add: mask_bit_def)
next
  assume "\<forall>q<128. \<not> mask_bit s q"
  then show "highestBand s = None" using highestBand_Some by (metis option.exhaust)
qed

subsection \<open>The structural invariant\<close>

definition refs :: "slot \<Rightarrow> nat set" where
  "refs s = snd ` set (groups s)"

definition entries :: "slot \<Rightarrow> prio \<Rightarrow> bandEntry list" where
  "entries s p = dq_list (band_deque s p)"

definition current :: "(nat \<Rightarrow> group) \<Rightarrow> bandEntry \<Rightarrow> bool" where
  "current H e \<longleftrightarrow> e_ver e = version (H (e_g e))"

definition cur_entry :: "(nat \<Rightarrow> group) \<Rightarrow> nat \<Rightarrow> bandEntry" where
  "cur_entry H r = \<lparr>e_g = r, e_ver = version (H r)\<rparr>"

text \<open>The groups map points at distinct, allocated groups filed under their own name.\<close>

definition groups_wf :: "slot \<Rightarrow> bool" where
  "groups_wf s \<longleftrightarrow> distinct (map fst (groups s)) \<and>
     (\<forall>(k, r) \<in> set (groups s). r < gnext s \<and> gid (gheap s r) = k) \<and>
     (\<forall>r. dq_wf (msgs (gheap s r)))"

text \<open>A band exists exactly while its mask bit is set, and then it is not empty.\<close>

definition bands_wf :: "slot \<Rightarrow> bool" where
  "bands_wf s \<longleftrightarrow> (\<forall>p. bands s p \<noteq> None \<longrightarrow> p \<le> 100 \<and> entries s p \<noteq> []) \<and>
     (\<forall>p. dq_wf (band_deque s p)) \<and> (\<forall>p<128. mask_bit s p \<longleftrightarrow> bands s p \<noteq> None)"

text \<open>An entry whose version is current names a group that is listed in this very band.\<close>

definition entries_wf :: "slot \<Rightarrow> bool" where
  "entries_wf s \<longleftrightarrow> (\<forall>p. \<forall>e \<in> set (entries s p).
     e_g e < gnext s \<and> e_ver e \<le> version (gheap s (e_g e)) \<and>
     (current (gheap s) e \<longrightarrow> e_g e \<in> refs s \<and> inBand (gheap s (e_g e)) \<and> band (gheap s (e_g e)) = p))"

text \<open>A listed group is unlocked, has a head of its band's priority, and exactly one live entry.\<close>

definition listed_wf :: "slot \<Rightarrow> bool" where
  "listed_wf s \<longleftrightarrow> (\<forall>r \<in> refs s. inBand (gheap s r) \<longrightarrow>
     \<not> locked (gheap s r) \<and>
     (\<exists>m ms. dq_list (msgs (gheap s r)) = m # ms \<and> Priority m = band (gheap s r)) \<and>
     count_list (entries s (band (gheap s r))) (cur_entry (gheap s) r) = 1)"

text \<open>No group is stranded: it is out with a worker or listed in a band.\<close>

definition progress :: "nat set \<Rightarrow> slot \<Rightarrow> bool" where
  "progress X s \<longleftrightarrow> (\<forall>r \<in> refs s - X. locked (gheap s r) \<or> inBand (gheap s r))"

definition msg_ok :: "string \<Rightarrow> message \<Rightarrow> bool" where
  "msg_ok k m \<longleftrightarrow> Priority m \<le> 100 \<and> msg_group m = k"

definition contents_wf :: "slot \<Rightarrow> bool" where
  "contents_wf s \<longleftrightarrow> (\<forall>r \<in> refs s. \<forall>m \<in> set (dq_list (msgs (gheap s r))). msg_ok (gid (gheap s r)) m)"

definition band_ok :: "nat set \<Rightarrow> slot \<Rightarrow> bool" where
  "band_ok X s \<longleftrightarrow> groups_wf s \<and> bands_wf s \<and> entries_wf s \<and> listed_wf s \<and> progress X s \<and> contents_wf s"

lemmas band_ok_defs = band_ok_def groups_wf_def bands_wf_def entries_wf_def listed_wf_def progress_def
  contents_wf_def

lemma band_ok_cong:
  assumes "bandMask s' = bandMask s" "bands s' = bands s" "gheap s' = gheap s" "gnext s' = gnext s"
    "groups s' = groups s"
  shows "band_ok X s' \<longleftrightarrow> band_ok X s"
proof -
  have 1: "refs s' = refs s" by (simp add: refs_def assms)
  have 2: "band_deque s' = band_deque s" by (simp add: fun_eq_iff band_deque_def assms)
  then have 3: "entries s' = entries s" by (simp add: fun_eq_iff entries_def)
  have 4: "mask_bit s' = mask_bit s" by (simp add: fun_eq_iff mask_bit_def assms)
  show ?thesis by (simp only: band_ok_defs assms 1 2 3 4)
qed

lemma band_ok_frame [simp]:
  "band_ok X (move s m a b) \<longleftrightarrow> band_ok X s" "band_ok X (refreshHint s) \<longleftrightarrow> band_ok X s"
  "band_ok X (hold s m a) \<longleftrightarrow> band_ok X s" "band_ok X (dropExpired s m) \<longleftrightarrow> band_ok X s"
  "band_ok X (s\<lparr>st := t\<rparr>) \<longleftrightarrow> band_ok X s" "band_ok X (s\<lparr>timers := ts\<rparr>) \<longleftrightarrow> band_ok X s"
  "band_ok X (s\<lparr>inflight := al\<rparr>) \<longleftrightarrow> band_ok X s" "band_ok X (s\<lparr>delayed := ds\<rparr>) \<longleftrightarrow> band_ok X s"
  "band_ok X (s\<lparr>epochSeq := n\<rparr>) \<longleftrightarrow> band_ok X s" "band_ok X (s\<lparr>sfrozen := f\<rparr>) \<longleftrightarrow> band_ok X s"
  by (rule band_ok_cong; simp)+

lemma refs_frame [simp]:
  "refs (upd_group s r f) = refs s" "refs (move s m a b) = refs s" "refs (refreshHint s) = refs s"
  "refs (pushGroup s r) = refs s" "refs (dropExpired s m) = refs s"
  "refs (s\<lparr>st := t\<rparr>) = refs s" "refs (s\<lparr>timers := ts\<rparr>) = refs s" "refs (s\<lparr>inflight := al\<rparr>) = refs s"
  "refs (s\<lparr>delayed := ds\<rparr>) = refs s" "refs (s\<lparr>epochSeq := n\<rparr>) = refs s" "refs (hold s m a) = refs s"
  by (simp_all add: refs_def)

lemma entries_upd_group [simp]: "entries (upd_group s r f) p = entries s p"
  by (simp add: entries_def band_deque_def)

lemma mask_bit_upd_group [simp]: "mask_bit (upd_group s r f) p = mask_bit s p"
  by (simp add: mask_bit_def)

lemma groups_wf_mem: "groups_wf s \<Longrightarrow> (k, r) \<in> set (groups s) \<Longrightarrow> r < gnext s \<and> gid (gheap s r) = k"
  by (auto simp: groups_wf_def)

lemma groups_wf_dq: "groups_wf s \<Longrightarrow> dq_wf (msgs (gheap s r))"
  by (simp add: groups_wf_def)

lemma groups_wf_keys: "groups_wf s \<Longrightarrow> distinct (map fst (groups s))"
  by (simp add: groups_wf_def)

lemma groups_wf_distinct:
  "groups_wf s \<Longrightarrow> distinct (map snd (groups s))"
proof -
  assume wf: "groups_wf s"
  have "inj_on snd (set (groups s))"
  proof (rule inj_onI)
    fix x y assume "x \<in> set (groups s)" "y \<in> set (groups s)" and e: "snd x = snd y"
    then have "gid (gheap s (snd x)) = fst x" "gid (gheap s (snd y)) = fst y"
      using groups_wf_mem [OF wf] by (metis prod.collapse)+
    with e show "x = y" by (metis prod.collapse)
  qed
  moreover have "distinct (groups s)" using wf by (simp add: groups_wf_def distinct_map)
  ultimately show ?thesis by (simp add: distinct_map)
qed

lemma map_of_groups:
  assumes wf: "groups_wf s" and m: "map_of (groups s) k = Some r"
  shows "r \<in> refs s \<and> r < gnext s \<and> gid (gheap s r) = k"
proof -
  have "(k, r) \<in> set (groups s)" using m by (rule map_of_SomeD)
  then show ?thesis using groups_wf_mem [OF wf] by (force simp: refs_def)
qed

lemma refs_map_of: "groups_wf s \<Longrightarrow> r \<in> refs s \<longleftrightarrow> map_of (groups s) (gid (gheap s r)) = Some r"
proof
  assume wf: "groups_wf s" and "r \<in> refs s"
  then obtain k where k: "(k, r) \<in> set (groups s)" by (auto simp: refs_def)
  then have "gid (gheap s r) = k" using groups_wf_mem [OF wf] by blast
  with k groups_wf_keys [OF wf] show "map_of (groups s) (gid (gheap s r)) = Some r" by simp
next
  assume "groups_wf s" "map_of (groups s) (gid (gheap s r)) = Some r"
  then show "r \<in> refs s" using map_of_groups by blast
qed

lemma refs_less: "groups_wf s \<Longrightarrow> r \<in> refs s \<Longrightarrow> r < gnext s"
  using map_of_groups refs_map_of by blast

lemma band_okD:
  assumes "band_ok X s"
  shows "groups_wf s" "bands_wf s" "entries_wf s" "listed_wf s" "progress X s" "contents_wf s"
  using assms by (simp_all add: band_ok_def)

lemma band_ok_mono: "band_ok X s \<Longrightarrow> X \<subseteq> Y \<Longrightarrow> band_ok Y s"
  by (auto simp: band_ok_def progress_def)

subsection \<open>Changing one group\<close>

text \<open>
  The general step: one group is rewritten.  Its live entry, if it has one, must still be right, or
  the version must have moved on.
\<close>

lemma band_ok_upd_group:
  assumes ok: "band_ok X s"
    and id: "gid (f (gheap s r)) = gid (gheap s r)" and wf: "dq_wf (msgs (f (gheap s r)))"
    and ver: "version (gheap s r) < version (f (gheap s r)) \<or>
      version (f (gheap s r)) = version (gheap s r) \<and>
      (inBand (gheap s r) \<longrightarrow> inBand (f (gheap s r)) \<and> band (f (gheap s r)) = band (gheap s r))"
    and listed: "r \<in> refs s \<Longrightarrow> inBand (f (gheap s r)) \<Longrightarrow> inBand (gheap s r) \<and>
      version (f (gheap s r)) = version (gheap s r) \<and> \<not> locked (f (gheap s r)) \<and>
      (\<exists>m ms. dq_list (msgs (f (gheap s r))) = m # ms \<and> Priority m = band (gheap s r))"
    and prog: "r \<in> Y \<or> locked (f (gheap s r)) \<or> inBand (f (gheap s r))" "X \<subseteq> insert r Y"
    and cont: "\<And>m. r \<in> refs s \<Longrightarrow> m \<in> set (dq_list (msgs (f (gheap s r)))) \<Longrightarrow> msg_ok (gid (gheap s r)) m"
  shows "band_ok Y (upd_group s r f)"
proof -
  note wfs = band_okD [OF ok]
  have 1: "groups_wf (upd_group s r f)" using wfs(1) id wf by (auto simp: groups_wf_def)
  have 2: "bands_wf (upd_group s r f)"
    using wfs(2) by (simp add: bands_wf_def band_deque_def)
  have 3: "entries_wf (upd_group s r f)"
    unfolding entries_wf_def
  proof (intro allI ballI)
    fix p e assume "e \<in> set (entries (upd_group s r f) p)"
    then have e: "e_g e < gnext s" "e_ver e \<le> version (gheap s (e_g e))"
      "current (gheap s) e \<longrightarrow> e_g e \<in> refs s \<and> inBand (gheap s (e_g e)) \<and> band (gheap s (e_g e)) = p"
      using wfs(3) by (auto simp: entries_wf_def)
    then show "e_g e < gnext (upd_group s r f) \<and> e_ver e \<le> version (gheap (upd_group s r f) (e_g e)) \<and>
      (current (gheap (upd_group s r f)) e \<longrightarrow> e_g e \<in> refs (upd_group s r f) \<and>
        inBand (gheap (upd_group s r f) (e_g e)) \<and> band (gheap (upd_group s r f) (e_g e)) = p)"
      using ver by (cases "e_g e = r") (auto simp: current_def)
  qed
  have 4: "listed_wf (upd_group s r f)"
    unfolding listed_wf_def
  proof (intro ballI impI)
    fix r' assume r': "r' \<in> refs (upd_group s r f)" and i: "inBand (gheap (upd_group s r f) r')"
    have L: "\<not> locked (gheap s r') \<and>
        (\<exists>m ms. dq_list (msgs (gheap s r')) = m # ms \<and> Priority m = band (gheap s r')) \<and>
        count_list (entries s (band (gheap s r'))) (cur_entry (gheap s) r') = 1" if "inBand (gheap s r')"
      using wfs(4) r' that unfolding listed_wf_def by simp
    show "\<not> locked (gheap (upd_group s r f) r') \<and>
      (\<exists>m ms. dq_list (msgs (gheap (upd_group s r f) r')) = m # ms \<and>
        Priority m = band (gheap (upd_group s r f) r')) \<and>
      count_list (entries (upd_group s r f) (band (gheap (upd_group s r f) r')))
        (cur_entry (gheap (upd_group s r f)) r') = 1"
    proof (cases "r' = r")
      case True
      with r' i have l: "r \<in> refs s" "inBand (f (gheap s r))" by simp_all
      note L' = listed [OF l]
      from L' True have "inBand (gheap s r')" by simp
      from L [OF this] L' ver True show ?thesis by (auto simp: cur_entry_def)
    next
      case False
      with i L show ?thesis by (simp add: cur_entry_def)
    qed
  qed
  have 5: "progress Y (upd_group s r f)" using wfs(5) prog by (auto simp: progress_def)
  have 6: "contents_wf (upd_group s r f)" using wfs(6) cont id by (auto simp: contents_wf_def)
  show ?thesis using 1 2 3 4 5 6 by (simp add: band_ok_def)
qed

text \<open>Writing the messages of a group, its head staying as it is while the group is listed.\<close>

lemma band_ok_upd_msgs:
  assumes "band_ok X s" and "dq_wf d"
    and "\<And>m. m \<in> set (dq_list d) \<Longrightarrow> msg_ok (gid (gheap s r)) m"
    and "inBand (gheap s r) \<Longrightarrow> \<exists>m ms. dq_list d = m # ms \<and> Priority m = band (gheap s r)"
    and "r \<in> refs s"
  shows "band_ok X (upd_group s r (\<lambda>g. g\<lparr>msgs := d\<rparr>))"
proof (cases "r \<in> X")
  case True
  with assms band_okD(4) [OF assms(1)] show ?thesis
    by (intro band_ok_upd_group [OF assms(1)]) (auto simp: listed_wf_def)
next
  case False
  with assms band_okD(4,5) [OF assms(1)] show ?thesis
    by (intro band_ok_upd_group [OF assms(1)]) (auto simp: listed_wf_def progress_def)
qed

lemma band_ok_lock:
  assumes "band_ok X s" and "\<not> inBand (gheap s r)"
  shows "band_ok (X - {r}) (upd_group s r (\<lambda>g. g\<lparr>locked := True\<rparr>))"
  using assms band_okD(1,6) [OF assms(1)]
  by (intro band_ok_upd_group [OF assms(1)]) (auto simp: groups_wf_def contents_wf_def)

lemma band_ok_unlock:
  assumes "band_ok X s"
  shows "band_ok (insert r X) (upd_group s r (\<lambda>g. g\<lparr>locked := False\<rparr>))"
  using band_okD(1,4,6) [OF assms]
  by (intro band_ok_upd_group [OF assms]) (auto simp: groups_wf_def contents_wf_def listed_wf_def)

text \<open>Bumping the version makes every entry of the group stale.\<close>

lemma band_ok_unlist:
  assumes "band_ok X s"
  shows "band_ok (insert r X) (upd_group s r (\<lambda>g. g\<lparr>version := version g + 1, inBand := False\<rparr>))"
  using band_okD(1,6) [OF assms]
  by (intro band_ok_upd_group [OF assms]) (auto simp: groups_wf_def contents_wf_def)

end
