(* ===== verification/BandSteps.thy ===== *)
theory BandSteps
  imports Bands
begin

text \<open>
  The primitives of a slot keep \<open>band_ok\<close>: taking a group out of a band, putting one in, dropping an
  idle one, unlocking, and admitting a message.
\<close>

subsection \<open>Replacing the entries of one band\<close>

definition set_entries :: "slot \<Rightarrow> prio \<Rightarrow> bandEntry deque \<Rightarrow> slot" where
  "set_entries s p d =
     (if dq_list d = [] then dropBand s p else s\<lparr>bands := (bands s)(p \<mapsto> d)\<rparr>)"

lemma set_entries_frame [simp]:
  "gheap (set_entries s p d) = gheap s" "gnext (set_entries s p d) = gnext s"
  "groups (set_entries s p d) = groups s" "refs (set_entries s p d) = refs s"
  by (simp_all add: set_entries_def refs_def)

lemma band_deque_set_entries:
  "band_deque (set_entries s p d) q =
     (if q = p then (if dq_list d = [] then dq_empty else d) else band_deque s q)"
  by (simp add: set_entries_def band_deque_def)

lemma entries_set_entries [simp]:
  "entries (set_entries s p d) q = (if q = p then dq_list d else entries s q)"
  by (simp add: entries_def band_deque_set_entries)

lemma mask_bit_dropBand:
  "p < 128 \<Longrightarrow> q < 128 \<Longrightarrow> mask_bit (dropBand s p) q \<longleftrightarrow> q \<noteq> p \<and> mask_bit s q"
  by (simp add: dropBand_def mask_clearBand) (simp add: mask_bit_def)

lemma bands_wf_cong:
  assumes "bandMask s' = bandMask s" "bands s' = bands s"
  shows "bands_wf s' \<longleftrightarrow> bands_wf s"
proof -
  have 1: "band_deque s' = band_deque s" by (simp add: fun_eq_iff band_deque_def assms)
  have 2: "mask_bit s' = mask_bit s" by (simp add: fun_eq_iff mask_bit_def assms)
  show ?thesis by (simp only: bands_wf_def entries_def 1 2 assms)
qed

lemma bands_wf_set_entries:
  assumes "bands_wf s" "bands s p \<noteq> None" "dq_wf d"
  shows "bands_wf (set_entries s p d)"
proof -
  have p: "p \<le> 100" using assms by (auto simp: bands_wf_def)
  then have "p < 128" by (rule order_le_less_trans) simp
  with assms p have m: "mask_bit s p" by (simp add: bands_wf_def)
  have "mask_bit (set_entries s p d) q \<longleftrightarrow> bands (set_entries s p d) q \<noteq> None" if "q < 128" for q
  proof (cases "dq_list d = []")
    case True
    with that \<open>p < 128\<close> assms(1) show ?thesis
      by (auto simp: set_entries_def mask_bit_dropBand bands_wf_def)
  next
    case False
    with that assms(1) m show ?thesis
      by (auto simp: set_entries_def bands_wf_def mask_bit_def)
  qed
  moreover have "q \<le> 100 \<and> entries (set_entries s p d) q \<noteq> []" if "bands (set_entries s p d) q \<noteq> None" for q
    using that assms(1) p by (auto simp: set_entries_def bands_wf_def entries_def band_deque_def split: if_splits)
  moreover have "dq_wf (band_deque (set_entries s p d) q)" for q
    using assms(1,3) by (simp add: band_deque_set_entries bands_wf_def)
  ultimately show ?thesis unfolding bands_wf_def by blast
qed

subsection \<open>\<open>takeGroup\<close>\<close>

definition live :: "(nat \<Rightarrow> group) \<Rightarrow> bandEntry \<Rightarrow> bool" where
  "live H e \<longleftrightarrow> (current H e \<longrightarrow> \<not> locked (H (e_g e)) \<and> dq_list (msgs (H (e_g e))) \<noteq> [])"

lemma take_entry_spec:
  assumes "\<forall>e \<in> set (dq_list d). live H e" and "take_entry H d = (H', d', res)"
  shows "case res of
      None \<Rightarrow> H' = H \<and> dq_list d' = [] \<and> (\<forall>e \<in> set (dq_list d). \<not> current H e)
    | Some r \<Rightarrow> \<exists>pre e. dq_list d = pre @ e # dq_list d' \<and> dq_wf d' \<and> (\<forall>x \<in> set pre. \<not> current H x) \<and>
        current H e \<and> e_g e = r \<and> H' = H(r := (H r)\<lparr>inBand := False\<rparr>)"
  using assms
proof (induction H d arbitrary: H' d' res rule: take_entry.induct)
  case (1 H d)
  show ?case
  proof (cases "popFront zero_entry d")
    case None
    then have "take_entry H d = (H, d, None)" by (subst take_entry.simps) (simp only: option.case)
    with 1 None show ?thesis by auto
  next
    case (Some x)
    obtain e d1 where x: "x = (e, d1)" by (cases x)
    with Some have pop: "popFront zero_entry d = Some (e, d1)" by simp
    note l = popFront_Some [OF pop]
    show ?thesis
    proof (cases "current H e")
      case False
      then have t: "take_entry H d = take_entry H d1"
        using pop by (simp add: take_entry.simps [of H d] current_def)
      have "\<forall>e\<in>set (dq_list d1). live H e" using 1(3) l by simp

      have "take_entry H d1 = (H', d', res)" using 1(4) t by simp
      note I = 1(1) [OF Some x [symmetric] _ \<open>\<forall>e\<in>set (dq_list d1). live H e\<close> this]
      show ?thesis
      proof (cases res)
        case None
        with I False l show ?thesis by (simp add: current_def)
      next
        case (Some r)
        with I False l obtain pre e' where "dq_list d1 = pre @ e' # dq_list d' \<and> dq_wf d' \<and> (\<forall>x \<in> set pre. \<not> current H x) \<and>
            current H e' \<and> e_g e' = r \<and> H' = H(r := (H r)\<lparr>inBand := False\<rparr>)"
          by (auto simp: current_def)
        with Some False l show ?thesis
          by (auto intro!: exI [of _ "e # pre"] exI [of _ e'])
      qed
    next
      case True
      with 1(3) l have "\<not> locked (H (e_g e)) \<and> dq_list (msgs (H (e_g e))) \<noteq> []"
        by (simp add: live_def)
      with True pop have "take_entry H d = (H(e_g e := (H (e_g e))\<lparr>inBand := False\<rparr>), d1, Some (e_g e))"
        by (simp add: take_entry.simps [of H d] current_def Let_def)
      with 1(4) have "H' = H(e_g e := (H (e_g e))\<lparr>inBand := False\<rparr>)" "d' = d1" "res = Some (e_g e)" by simp_all
      with l True show ?thesis by (auto intro!: exI [of _ "[]"])
    qed
  qed
qed

lemma groups_wf_same:
  assumes "groups_wf s" "groups s' = groups s" "gnext s' = gnext s"
    and "\<And>r. gid (gheap s' r) = gid (gheap s r)" "\<And>r. dq_wf (msgs (gheap s' r))"
  shows "groups_wf s'"
  using assms(1) by (simp add: groups_wf_def assms(2-))

lemma entries_wfD:
  assumes "entries_wf s" and "e \<in> set (entries s p)"
  shows "e_g e < gnext s" "e_ver e \<le> version (gheap s (e_g e))"
    "current (gheap s) e \<Longrightarrow> e_g e \<in> refs s \<and> inBand (gheap s (e_g e)) \<and> band (gheap s (e_g e)) = p"
  using assms by (auto simp: entries_wf_def)

lemma band_entries_live:
  assumes "band_ok X s" and "e \<in> set (entries s p)"
  shows "live (gheap s) e"
proof -
  have "current (gheap s) e \<Longrightarrow> e_g e \<in> refs s \<and> inBand (gheap s (e_g e))"
    using assms band_okD(3) by (auto simp: entries_wf_def)
  then show ?thesis using band_okD(4) [OF assms(1)] by (auto simp: live_def listed_wf_def)
qed

text \<open>
  A band whose entries are all stale is dropped, and no group was listed in it; otherwise the group
  taken is the first listed one, and its head has the band's priority.
\<close>

lemma takeGroup_cases:
  assumes ok: "band_ok X s" and p: "p < 128" and t: "takeGroup s p = (s', res)"
  obtains (none) "res = None" "gheap s' = gheap s" "band_ok X s'" "\<And>r. r \<in> refs s \<Longrightarrow> inBand (gheap s r) \<Longrightarrow> band (gheap s r) \<noteq> p"
    | (some) r m ms where "res = Some r" "r \<in> refs s" "inBand (gheap s r)" "band (gheap s r) = p"
        "dq_list (msgs (gheap s r)) = m # ms" "Priority m = p" "\<not> locked (gheap s r)"
        "gheap s' = (gheap s)(r := (gheap s r)\<lparr>inBand := False\<rparr>)" "band_ok (insert r X) s'"
proof (cases "bands s p")
  case None
  then have s': "s' = clearBand s p" "res = None" using t by (simp_all add: takeGroup_def)
  have m: "\<not> mask_bit s p" using None band_okD(2) [OF ok] p by (auto simp: bands_wf_def)
  have e: "entries s p = []" using None by (simp add: entries_def band_deque_def)
  have 1: "refs s' = refs s" by (simp add: s' refs_def)
  have 2: "band_deque s' = band_deque s" by (simp add: s' fun_eq_iff band_deque_def)
  then have 3: "entries s' = entries s" by (simp add: fun_eq_iff entries_def)
  have 4: "\<forall>q<128. mask_bit s' q = mask_bit s q" using m p by (auto simp: s' mask_clearBand)
  have 5: "bands s' = bands s" by (simp add: s')
  have "bands_wf s'" using band_okD(2) [OF ok] 4 by (simp only: bands_wf_def 2 3 5) blast
  then have "band_ok X s'" using ok
    by (simp add: band_ok_def groups_wf_def entries_wf_def listed_wf_def progress_def contents_wf_def 1 3)
       (simp add: s')
  moreover have "band (gheap s r) \<noteq> p" if "r \<in> refs s" "inBand (gheap s r)" for r
    using that band_okD(4) [OF ok] e by (auto simp: listed_wf_def)
  ultimately show thesis using none s' by simp
next
  case (Some d)
  note wfs = band_okD [OF ok]
  have d: "entries s p = dq_list d" "dq_wf d"
    using Some wfs(2) by (simp_all add: entries_def band_deque_def bands_wf_def split: option.splits)
  obtain H d' res' where te: "take_entry (gheap s) d = (H, d', res')" by (cases "take_entry (gheap s) d")
  have "\<forall>e \<in> set (dq_list d). live (gheap s) e" using band_entries_live [OF ok] by (simp flip: d(1))
  note spec = take_entry_spec [OF this te]
  show thesis
  proof (cases res')
    case None
    with spec have H: "H = gheap s" "\<forall>e \<in> set (entries s p). \<not> current (gheap s) e" by (simp_all add: d)
    with None Some t te have s': "s' = set_entries s p dq_empty" "res = None"
      by (simp_all add: takeGroup_def set_entries_def)
    have nl: "band (gheap s r) \<noteq> p" if r: "r \<in> refs s" "inBand (gheap s r)" for r
    proof
      assume "band (gheap s r) = p"
      with r wfs(4) have "count_list (entries s p) (cur_entry (gheap s) r) = 1" by (auto simp: listed_wf_def)
      then have "cur_entry (gheap s) r \<in> set (entries s p)" by (metis count_notin zero_neq_one)
      with H(2) show False by (auto simp: current_def cur_entry_def)
    qed
    have "bands_wf s'" unfolding s' by (rule bands_wf_set_entries) (use Some wfs in simp_all)
    moreover have "entries_wf s'" using wfs(3) by (simp add: entries_wf_def s')
    moreover have "listed_wf s'" using wfs(4) nl by (simp add: listed_wf_def s')
    ultimately have "band_ok X s'" using wfs by (simp add: band_ok_def groups_wf_def progress_def contents_wf_def s')
    with none s' nl show thesis by simp
  next
    case (Some r)
    with spec obtain pre e where E: "entries s p = pre @ e # dq_list d'" "dq_wf d'" and pre: "\<forall>x \<in> set pre. \<not> current (gheap s) x"
      and E': "current (gheap s) e" "e_g e = r" "H = (gheap s)(r := (gheap s r)\<lparr>inBand := False\<rparr>)"
      by (auto simp: d)
    note E = E E'
    have s': "s' = set_entries (s\<lparr>gheap := H\<rparr>) p d'" "res = Some r"
      using Some t te \<open>bands s p = Some d\<close>
      by (auto simp: takeGroup_def set_entries_def Let_def dropBand_def clearBand_def split: if_splits)
    have r: "r \<in> refs s" "inBand (gheap s r)" "band (gheap s r) = p"
      using entries_wfD(3) [OF wfs(3), of e p] E by simp_all
    then have L: "\<not> locked (gheap s r)" "\<exists>m ms. dq_list (msgs (gheap s r)) = m # ms \<and> Priority m = p"
        "count_list (entries s p) (cur_entry (gheap s) r) = 1"
      using wfs(4) by (auto simp: listed_wf_def)
    have e: "e = cur_entry (gheap s) r" using E(3,4) by (simp add: current_def cur_entry_def)
    have nocur: "cur_entry (gheap s) r \<notin> set (dq_list d')"
    proof
      assume "cur_entry (gheap s) r \<in> set (dq_list d')"
      then have "count_list (dq_list d') e \<noteq> 0" by (simp add: e count_list_0_iff)
      with L(3) show False by (simp add: E(1) e)
    qed
    have cur: "current H x = current (gheap s) x" for x by (simp add: current_def E(5))
    have ver: "version (H x) = version (gheap s x)" for x by (simp add: E(5))
    have "bands_wf s'" unfolding s'(1)
    proof (rule bands_wf_set_entries)
      show "bands_wf (s\<lparr>gheap := H\<rparr>)" by (rule iffD2 [OF bands_wf_cong wfs(2)]) simp_all
    qed (use \<open>bands s p = Some d\<close> E in simp_all)
    moreover have entries: "entries s' q = (if q = p then dq_list d' else entries s q)" for q
      by (simp add: s'(1)) (simp add: entries_def band_deque_def)
    moreover have refs: "refs s' = refs s" by (simp add: s'(1)) (simp add: refs_def)
    have "groups_wf s'"
      by (rule groups_wf_same [OF wfs(1)]) (simp_all add: s'(1) E(5) groups_wf_dq [OF wfs(1)])
    moreover have "entries_wf s'"
      unfolding entries_wf_def
    proof (intro allI ballI)
      fix q x assume x: "x \<in> set (entries s' q)"
      then have "x \<in> set (entries s q)" by (auto simp: entries E(1) split: if_splits)
      then have X: "e_g x < gnext s" "e_ver x \<le> version (gheap s (e_g x))"
        "current (gheap s) x \<longrightarrow> e_g x \<in> refs s \<and> inBand (gheap s (e_g x)) \<and> band (gheap s (e_g x)) = q"
        using entries_wfD [OF wfs(3)] by blast+
      have "e_g x \<noteq> r" if "current (gheap s) x"
      proof
        assume "e_g x = r"
        with that have "x = cur_entry (gheap s) r" by (simp add: current_def cur_entry_def)
        moreover from that X(3) r(3) \<open>e_g x = r\<close> have "q = p" by simp
        ultimately show False using x nocur by (simp add: entries)
      qed
      with X show "e_g x < gnext s' \<and> e_ver x \<le> version (gheap s' (e_g x)) \<and>
        (current (gheap s') x \<longrightarrow> e_g x \<in> refs s' \<and> inBand (gheap s' (e_g x)) \<and> band (gheap s' (e_g x)) = q)"
        by (simp add: s'(1) cur ver refs [unfolded s'(1)]) (simp add: E(5) refs_def)
    qed
    moreover have "listed_wf s'"
      unfolding listed_wf_def
    proof (intro ballI impI)
      fix r' assume r': "r' \<in> refs s'" and i: "inBand (gheap s' r')"
      then have ne: "r' \<noteq> r" by (auto simp: s'(1) E(5))
      have c: "cur_entry (gheap s') r' = cur_entry (gheap s) r'"
        by (simp add: s'(1) ver cur_entry_def)
      have g: "gheap s' r' = gheap s r'" using ne by (simp add: s'(1) E(5))
      have L': "\<not> locked (gheap s r') \<and>
        (\<exists>m ms. dq_list (msgs (gheap s r')) = m # ms \<and> Priority m = band (gheap s r')) \<and>
        count_list (entries s (band (gheap s r'))) (cur_entry (gheap s) r') = 1"
        using wfs(4) r' i g by (simp add: listed_wf_def refs)
      have "cur_entry (gheap s) r' \<notin> set pre" using pre by (auto simp: current_def cur_entry_def)
      moreover have "e \<noteq> cur_entry (gheap s) r'" using ne E(4) by (auto simp: cur_entry_def)
      ultimately have "count_list (entries s' (band (gheap s r'))) (cur_entry (gheap s) r')
          = count_list (entries s (band (gheap s r'))) (cur_entry (gheap s) r')"
        by (cases "band (gheap s r') = p") (simp_all add: entries E(1))
      with L' show "\<not> locked (gheap s' r') \<and>
        (\<exists>m ms. dq_list (msgs (gheap s' r')) = m # ms \<and> Priority m = band (gheap s' r')) \<and>
        count_list (entries s' (band (gheap s' r'))) (cur_entry (gheap s') r') = 1"
        by (simp add: g c)
    qed
    moreover have "progress (insert r X) s'" using wfs(5) by (simp add: progress_def refs) (simp add: s'(1) E(5))
    moreover have "contents_wf s'" using wfs(6) by (simp add: contents_wf_def refs) (simp add: s'(1) E(5))
    ultimately have "band_ok (insert r X) s'" by (simp add: band_ok_def)
    moreover have "gheap s' = (gheap s)(r := (gheap s r)\<lparr>inBand := False\<rparr>)" by (simp add: s'(1) E(5))
    ultimately show thesis using some s'(2) r L by blast
  qed
qed

subsection \<open>\<open>pushGroup\<close>\<close>

lemma pushGroup_gheap:
  assumes "dq_list (msgs (gheap s r)) = m # ms" "\<not> locked (gheap s r)"
  shows "gheap (pushGroup s r) = (gheap s)(r := (gheap s r)\<lparr>version := version (gheap s r) + 1,
    band := Priority m, inBand := True\<rparr>)"
  using assms by (simp add: pushGroup_def Let_def)

lemma pushGroup_bands:
  assumes "dq_list (msgs (gheap s r)) = m # ms" "\<not> locked (gheap s r)"
  shows "bands (pushGroup s r) = (bands s)(Priority m \<mapsto>
      pushBack (band_deque s (Priority m)) \<lparr>e_g = r, e_ver = version (gheap s r) + 1\<rparr>)"
  using assms by (simp add: pushGroup_def Let_def band_deque_def)

lemma pushGroup_mask:
  assumes "dq_list (msgs (gheap s r)) = m # ms" "\<not> locked (gheap s r)" "Priority m < 128" "q < 128"
  shows "mask_bit (pushGroup s r) q \<longleftrightarrow> q = Priority m \<or> mask_bit s q"
  using assms by (simp add: pushGroup_def Let_def mask_setBand) (simp add: mask_bit_def)

lemma prio_less_128: "(p :: prio) \<le> 100 \<Longrightarrow> p < 128"
  by (erule order_le_less_trans) simp

text \<open>Listing a group that has messages and is neither locked nor listed.\<close>

lemma band_ok_pushGroup:
  assumes ok: "band_ok X s" and r: "r \<in> refs s" "\<not> inBand (gheap s r)" "\<not> locked (gheap s r)"
    and m: "dq_list (msgs (gheap s r)) = m # ms"
  shows "band_ok (X - {r}) (pushGroup s r)"
proof -
  note wfs = band_okD [OF ok]
  let ?s = "pushGroup s r" and ?p = "Priority m"
  let ?e = "\<lparr>e_g = r, e_ver = version (gheap s r) + 1\<rparr>"
  note H = pushGroup_gheap [OF m r(3)]
  have p: "?p \<le> 100" using wfs(6) r m by (simp add: contents_wf_def msg_ok_def)
  note p' = prio_less_128 [OF p]
  have wfd: "dq_wf (band_deque s q)" for q using wfs(2) by (simp add: bands_wf_def)
  have bd: "band_deque ?s q = (if q = ?p then pushBack (band_deque s ?p) ?e else band_deque s q)" for q
    by (simp add: band_deque_def pushGroup_bands [OF m r(3)])
  have en: "entries ?s q = (if q = ?p then entries s ?p @ [?e] else entries s q)" for q
    using wfd by (simp add: entries_def bd)
  have old: "x \<in> set (entries s q) \<Longrightarrow> x \<noteq> ?e" for x q
    using entries_wfD(2) [OF wfs(3), of x q] by auto
  have cur: "current (gheap ?s) x \<longleftrightarrow> current (gheap s) x \<and> e_g x \<noteq> r" if "x \<in> set (entries s q)" for x q
    using entries_wfD(2,3) [OF wfs(3) that] r by (auto simp: current_def H)
  have 1: "groups_wf ?s"
    by (rule groups_wf_same [OF wfs(1)]) (simp_all add: H groups_wf_dq [OF wfs(1)])
  have 2: "bands_wf ?s"
    unfolding bands_wf_def
  proof (intro conjI allI impI)
    show "q \<le> 100" "entries ?s q \<noteq> []" if "bands ?s q \<noteq> None" for q
      using that wfs(2) p by (auto simp: bands_wf_def en pushGroup_bands [OF m r(3)] split: if_splits)
    show "dq_wf (band_deque ?s q)" for q using wfd by (simp add: bd)
    show "mask_bit ?s q \<longleftrightarrow> bands ?s q \<noteq> None" if "q < 128" for q
      using that wfs(2) p' by (simp add: pushGroup_mask [OF m r(3)] pushGroup_bands [OF m r(3)] bands_wf_def)
  qed
  have 3: "entries_wf ?s"
    unfolding entries_wf_def
  proof (intro allI ballI)
    fix q x assume x: "x \<in> set (entries ?s q)"
    show "e_g x < gnext ?s \<and> e_ver x \<le> version (gheap ?s (e_g x)) \<and>
      (current (gheap ?s) x \<longrightarrow> e_g x \<in> refs ?s \<and> inBand (gheap ?s (e_g x)) \<and> band (gheap ?s (e_g x)) = q)"
    proof (cases "x \<in> set (entries s q)")
      case True
      from entries_wfD [OF wfs(3) True] cur [OF True] show ?thesis by (auto simp: H)
    next
      case False
      with x have "x = ?e" "q = ?p" by (simp_all add: en split: if_splits)
      with r refs_less [OF wfs(1)] show ?thesis by (simp add: H)
    qed
  qed
  have 4: "listed_wf ?s"
    unfolding listed_wf_def
  proof (intro ballI impI)
    fix r' assume r': "r' \<in> refs ?s" and i: "inBand (gheap ?s r')"
    show "\<not> locked (gheap ?s r') \<and>
      (\<exists>m ms. dq_list (msgs (gheap ?s r')) = m # ms \<and> Priority m = band (gheap ?s r')) \<and>
      count_list (entries ?s (band (gheap ?s r'))) (cur_entry (gheap ?s) r') = 1"
    proof (cases "r' = r")
      case True
      have "count_list (entries s ?p) ?e = 0" using old by (auto simp: count_list_0_iff)
      with True m r show ?thesis by (simp add: H en cur_entry_def)
    next
      case False
      then have g: "gheap ?s r' = gheap s r'" by (simp add: H)
      with r' i wfs(4) have L: "\<not> locked (gheap s r') \<and>
        (\<exists>m ms. dq_list (msgs (gheap s r')) = m # ms \<and> Priority m = band (gheap s r')) \<and>
        count_list (entries s (band (gheap s r'))) (cur_entry (gheap s) r') = 1"
        by (simp add: listed_wf_def)
      have "cur_entry (gheap ?s) r' = cur_entry (gheap s) r'" by (simp add: cur_entry_def g)
      moreover have "cur_entry (gheap s) r' \<noteq> ?e" using False by (simp add: cur_entry_def)
      ultimately show ?thesis using L by (auto simp: g en)
    qed
  qed
  have 5: "progress (X - {r}) ?s" using wfs(5) by (auto simp: progress_def H)
  have 6: "contents_wf ?s" using wfs(6) by (simp add: contents_wf_def H)
  show ?thesis using 1 2 3 4 5 6 by (simp add: band_ok_def)
qed

subsection \<open>Dropping an idle group\<close>

lemma band_ok_forget:
  assumes ok: "band_ok X s" and r: "r \<in> refs s" "\<not> inBand (gheap s r)"
  shows "band_ok (X - {r}) (s\<lparr>groups := AList.delete (gid (gheap s r)) (groups s)\<rparr>)" (is "band_ok _ ?s")
    and "refs (s\<lparr>groups := AList.delete (gid (gheap s r)) (groups s)\<rparr>) = refs s - {r}"
proof -
  note wfs = band_okD [OF ok]
  have sub: "set (groups ?s) = {x \<in> set (groups s). fst x \<noteq> gid (gheap s r)}"
    using groups_wf_keys [OF wfs(1)] by (simp add: set_AList_delete)
  have key: "k = gid (gheap s r) \<longleftrightarrow> r' = r" if "(k, r') \<in> set (groups s)" for k r'
  proof -
    have "gid (gheap s r') = k" using groups_wf_mem [OF wfs(1) that] ..
    moreover have "map_of (groups s) (gid (gheap s r)) = Some r" using r(1) refs_map_of [OF wfs(1)] by blast
    moreover have "map_of (groups s) k = Some r'" using that groups_wf_keys [OF wfs(1)] by simp
    ultimately show ?thesis by (metis option.inject)
  qed
  show refs: "refs ?s = refs s - {r}"
    unfolding refs_def sub using key by (auto simp: image_iff split_paired_all)
  have 2: "band_deque ?s = band_deque s" by (simp add: fun_eq_iff band_deque_def)
  then have 3: "entries ?s = entries s" by (simp add: fun_eq_iff entries_def)
  have 1: "groups_wf ?s"
    using groups_wf_keys [OF wfs(1)] groups_wf_mem [OF wfs(1)] groups_wf_dq [OF wfs(1)]
    unfolding groups_wf_def sub by auto
  have b: "bands_wf ?s" by (rule iffD2 [OF bands_wf_cong wfs(2)]) simp_all
  have e: "entries_wf ?s"
    unfolding entries_wf_def 3
  proof (intro allI ballI)
    fix q x assume x: "x \<in> set (entries s q)"
    from entries_wfD [OF wfs(3) x] r(2)
    show "e_g x < gnext ?s \<and> e_ver x \<le> version (gheap ?s (e_g x)) \<and>
      (current (gheap ?s) x \<longrightarrow> e_g x \<in> refs ?s \<and> inBand (gheap ?s (e_g x)) \<and> band (gheap ?s (e_g x)) = q)"
      unfolding refs by auto
  qed
  have l: "listed_wf ?s" using wfs(4) by (simp add: listed_wf_def refs 3)
  have p: "progress (X - {r}) ?s" using wfs(5) unfolding progress_def refs by auto
  have c: "contents_wf ?s" using wfs(6) by (simp add: contents_wf_def refs)
  show "band_ok (X - {r}) ?s" using 1 b e l p c by (simp add: band_ok_def)
qed

lemma band_ok_dropGroupIfIdle:
  assumes ok: "band_ok X s" and r: "r \<in> refs s"
    and "r \<in> X \<Longrightarrow> locked (gheap s r) \<or> inBand (gheap s r) \<or> dq_list (msgs (gheap s r)) = []"
  shows "band_ok (X - {r}) (dropGroupIfIdle s r)"
proof (cases "\<not> locked (gheap s r) \<and> dq_list (msgs (gheap s r)) = [] \<and> \<not> inBand (gheap s r)")
  case True
  with band_ok_forget(1) [OF ok r] show ?thesis by (simp add: dropGroupIfIdle_def Let_def)
next
  case False
  then have "dropGroupIfIdle s r = s" by (auto simp: dropGroupIfIdle_def Let_def)
  moreover have "locked (gheap s r) \<or> inBand (gheap s r)"
  proof (cases "r \<in> X")
    case False
    with band_okD(5) [OF ok] r show ?thesis by (auto simp: progress_def)
  qed (use assms(3) False in auto)
  then have "band_ok (X - {r}) s" using ok by (auto simp: band_ok_def progress_def)
  ultimately show ?thesis by simp
qed

lemma refs_dropGroupIfIdle_sub: "refs (dropGroupIfIdle s r) \<subseteq> refs s"
  by (auto simp: dropGroupIfIdle_def Let_def refs_def AList.delete_eq)

subsection \<open>\<open>unlock\<close>\<close>

lemma band_ok_unlock_step:
  assumes ok: "band_ok X s" and r: "r \<in> refs s" "locked (gheap s r)"
  shows "band_ok (X - {r}) (unlock s r)"
proof -
  let ?s = "upd_group s r (\<lambda>g. g\<lparr>locked := False\<rparr>)"
  have i: "\<not> inBand (gheap s r)" using band_okD(4) [OF ok] r by (auto simp: listed_wf_def)
  have ok': "band_ok (insert r X) ?s" by (rule band_ok_unlock [OF ok])
  show ?thesis
  proof (cases "dq_list (msgs (gheap s r))")
    case Nil
    then have "band_ok (insert r X - {r}) (dropGroupIfIdle ?s r)"
      by (intro band_ok_dropGroupIfIdle [OF ok']) (simp_all add: r)
    with Nil show ?thesis by (auto simp: unlock_def Let_def elim: band_ok_mono)
  next
    case (Cons m ms)
    then have "band_ok (insert r X - {r}) (pushGroup ?s r)"
      by (intro band_ok_pushGroup [OF ok', of r m ms]) (simp_all add: r i)
    with Cons i show ?thesis by (auto simp: unlock_def Let_def elim: band_ok_mono)
  qed
qed

subsection \<open>\<open>admit\<close>\<close>

lemma band_ok_group_ref:
  assumes ok: "band_ok X s" and g: "group_ref s k = (s', r)"
  shows "band_ok (insert r X) s'" "r \<in> refs s'" "gid (gheap s' r) = k" "refs s' = insert r (refs s)"
    "map_of (groups s) k = Some r \<and> s' = s \<or>
     map_of (groups s) k = None \<and> r = gnext s \<and> r \<notin> refs s \<and> gheap s' = (gheap s)(r := empty_group k)"
proof -
  note wfs = band_okD [OF ok]
  have "band_ok (insert r X) s' \<and> r \<in> refs s' \<and> gid (gheap s' r) = k \<and> refs s' = insert r (refs s) \<and>
    (map_of (groups s) k = Some r \<and> s' = s \<or>
     map_of (groups s) k = None \<and> r = gnext s \<and> r \<notin> refs s \<and> gheap s' = (gheap s)(r := empty_group k))"
  proof (cases "map_of (groups s) k")
    case (Some r')
    then have "s' = s" "r' = r" using g by (simp_all add: group_ref_def)
    with Some map_of_groups [OF wfs(1) Some] ok show ?thesis by (auto elim: band_ok_mono)
  next
    case None
    let ?e = "empty_group k"
    have r: "r = gnext s" and s': "s' = s\<lparr>gheap := (gheap s)(gnext s := ?e), gnext := gnext s + 1,
                    groups := AList.update k (gnext s) (groups s)\<rparr>"
      using g None by (auto simp: group_ref_def)
    have nk: "k \<notin> fst ` set (groups s)" using None by (simp add: map_of_eq_None_iff)
    have nr: "r \<notin> refs s" using refs_less [OF wfs(1)] r by blast
    have gs: "groups s' = groups s @ [(k, r)]" using nk by (simp add: s' r AList_update_fresh)
    have H: "gheap s' = (gheap s)(r := ?e)" by (simp add: s' r)
    have refs: "refs s' = insert r (refs s)" by (simp add: refs_def gs)
    have 2: "band_deque s' = band_deque s" by (simp add: fun_eq_iff band_deque_def s')
    then have 3: "entries s' = entries s" by (simp add: fun_eq_iff entries_def)
    have old: "e_g x < gnext s" "e_g x \<noteq> r" if "x \<in> set (entries s q)" for x q
      using entries_wfD(1) [OF wfs(3) that] r by simp_all
    have 1: "groups_wf s'"
      unfolding groups_wf_def
    proof (intro conjI)
      show "distinct (map fst (groups s'))" using groups_wf_keys [OF wfs(1)] nk by (simp add: gs)
      show "\<forall>(k', r') \<in> set (groups s'). r' < gnext s' \<and> gid (gheap s' r') = k'"
      proof (clarify)
        fix k' r' assume "(k', r') \<in> set (groups s')"
        then consider "k' = k" "r' = r" | "(k', r') \<in> set (groups s)" by (auto simp: gs)
        then show "r' < gnext s' \<and> gid (gheap s' r') = k'"
        proof cases
          case 2
          from groups_wf_mem [OF wfs(1) 2] r show ?thesis by (simp add: H) (simp add: s')
        qed (simp add: H empty_group_def, simp add: s' r)
      qed
      show "\<forall>r. dq_wf (msgs (gheap s' r))" using groups_wf_dq [OF wfs(1)] by (simp add: H empty_group_def)
    qed
    have b: "bands_wf s'" by (rule iffD2 [OF bands_wf_cong wfs(2)]) (simp_all add: s')
    have e: "entries_wf s'"
      unfolding entries_wf_def 3
    proof (intro allI ballI)
      fix q x assume x: "x \<in> set (entries s q)"
      from entries_wfD [OF wfs(3) x] old [OF x]
      show "e_g x < gnext s' \<and> e_ver x \<le> version (gheap s' (e_g x)) \<and>
        (current (gheap s') x \<longrightarrow> e_g x \<in> refs s' \<and> inBand (gheap s' (e_g x)) \<and> band (gheap s' (e_g x)) = q)"
        unfolding refs by (simp add: H current_def) (simp add: s')
    qed
    have l: "listed_wf s'" using wfs(4) nr unfolding listed_wf_def refs 3
      by (auto simp: H empty_group_def cur_entry_def)
    have p: "progress (insert r X) s'" using wfs(5) unfolding progress_def refs by (auto simp: H)
    have c: "contents_wf s'" using wfs(6) nr unfolding contents_wf_def refs by (auto simp: H empty_group_def)
    have "band_ok (insert r X) s'" using 1 b e l p c by (simp add: band_ok_def)
    with refs None nr r H show ?thesis by (simp add: empty_group_def)
  qed
  then show "band_ok (insert r X) s'" "r \<in> refs s'" "gid (gheap s' r) = k" "refs s' = insert r (refs s)"
    "map_of (groups s) k = Some r \<and> s' = s \<or>
     map_of (groups s) k = None \<and> r = gnext s \<and> r \<notin> refs s \<and> gheap s' = (gheap s)(r := empty_group k)"
    by blast+
qed

text \<open>Admitting a message never leaves its group stranded.\<close>

lemma band_ok_admit:
  assumes ok: "band_ok X s" and p: "Priority m \<le> 100"
  shows "band_ok X (admit s m)"
proof -
  obtain s1 r where g: "group_ref s (msg_group m) = (s1, r)" by (cases "group_ref s (msg_group m)")
  note G = band_ok_group_ref [OF ok g]
  let ?d = "pushBack (msgs (gheap s1 r)) m"
  let ?s = "upd_group s1 r (\<lambda>g. g\<lparr>msgs := ?d\<rparr>)"
  have wf: "dq_wf (msgs (gheap s1 r))" using band_okD(1) [OF G(1)] by (rule groups_wf_dq)
  have ok2: "band_ok (insert r X) ?s"
  proof (rule band_ok_upd_msgs [OF G(1)])
    show "msg_ok (gid (gheap s1 r)) x" if "x \<in> set (dq_list ?d)" for x
      using that wf p G(2,3) band_okD(6) [OF G(1)] by (auto simp: contents_wf_def msg_ok_def)
    show "\<exists>m ms. dq_list ?d = m # ms \<and> Priority m = band (gheap s1 r)" if "inBand (gheap s1 r)"
      using that wf G(2) band_okD(4) [OF G(1)] by (auto simp: listed_wf_def)
  qed (use wf G in simp_all)
  have eq: "upd_group s1 r (\<lambda>g. g\<lparr>msgs := pushBack (msgs g) m\<rparr>) = ?s" by (simp add: upd_group_def)
  obtain m' ms' where m': "dq_list ?d = m' # ms'" using wf by (cases "dq_list (msgs (gheap s1 r))") auto
  show ?thesis
  proof (cases "\<not> locked (gheap s1 r) \<and> \<not> inBand (gheap s1 r)")
    case True
    then have "admit s m = pushGroup ?s r" by (simp add: admit_def g eq Let_def)
    moreover have "band_ok (insert r X - {r}) (pushGroup ?s r)"
      by (rule band_ok_pushGroup [OF ok2, of r m' ms']) (use True m' G in simp_all)
    ultimately show ?thesis by (auto elim: band_ok_mono)
  next
    case False
    then have "admit s m = ?s" by (auto simp: admit_def g eq Let_def)
    moreover have "progress X ?s" using band_okD(5) [OF ok2] False by (auto simp: progress_def)
    ultimately show ?thesis using ok2 by (simp add: band_ok_def)
  qed
qed

end
