(* ===== verification/SlotInv.thy ===== *)
theory SlotInv
  imports BandSteps
begin

text \<open>
  The invariant of a slot.  \<open>band_ok\<close> says which groups are offered; \<open>lease_ok\<close> ties a locked group to
  its one lease; \<open>timers_ok\<close> gives every lease a timer of its own; \<open>delay_ok\<close> orders the delayed heap;
  \<open>gauges\<close> makes the statistics the sizes of what is held.  \<open>ready_ms\<close>, \<open>flight_ms\<close> and \<open>delayed_ms\<close>
  are the messages a slot holds, as multisets, and \<open>held\<close> is their sum: what every operation has to
  account for.  \<open>slot_inv\<close> is the whole, and \<open>slot_ok\<close> adds that the lock-free hint is up to date.
\<close>

subsection \<open>What a slot holds\<close>

definition ready_ms :: "slot \<Rightarrow> message multiset" where
  "ready_ms s = sum_al (\<lambda>r. mset (dq_list (msgs (gheap s r)))) (groups s)"

definition flight_ms :: "slot \<Rightarrow> message multiset" where
  "flight_ms s = sum_al (\<lambda>l. {#l_msg l#}) (inflight s)"

definition delayed_ms :: "slot \<Rightarrow> message multiset" where
  "delayed_ms s = image_mset d_msg (mset (delayed s))"

definition held :: "slot \<Rightarrow> message multiset" where
  "held s = ready_ms s + flight_ms s + delayed_ms s"

text \<open>What stays the same of a message through deliveries and delays.\<close>

definition core :: "message \<Rightarrow> message" where
  "core m = m\<lparr>DeliverAfter := 0, Attempts := 0\<rparr>"

lemma core_simps [simp]:
  "ID (core m) = ID m" "Payload (core m) = Payload m" "Priority (core m) = Priority m"
  "GroupID (core m) = GroupID m" "Seq (core m) = Seq m" "EnqueuedAt (core m) = EnqueuedAt m"
  "ExpiresAt (core m) = ExpiresAt m" "msg_group (core m) = msg_group m"
  "msg_group (m\<lparr>Attempts := a\<rparr>) = msg_group m" "msg_group (m\<lparr>DeliverAfter := t\<rparr>) = msg_group m"
  "core (m\<lparr>Attempts := a\<rparr>) = core m" "core (m\<lparr>DeliverAfter := t\<rparr>) = core m"
  by (simp_all add: core_def msg_group_def)

subsection \<open>The invariant\<close>

definition lease_wf :: "slot \<Rightarrow> string \<Rightarrow> lease \<Rightarrow> bool" where
  "lease_wf s i l \<longleftrightarrow> ID (l_msg l) = i \<and> l_g l \<in> refs s \<and> locked (gheap s (l_g l)) \<and>
     msg_ok (gid (gheap s (l_g l))) (l_msg l)"

definition lease_ok :: "nat set \<Rightarrow> slot \<Rightarrow> bool" where
  "lease_ok X s \<longleftrightarrow> distinct (map fst (inflight s)) \<and> distinct (map (l_g \<circ> snd) (inflight s)) \<and>
     (\<forall>x \<in> set (inflight s). lease_wf s (fst x) (snd x)) \<and>
     (\<forall>r \<in> refs s - X. locked (gheap s r) \<longrightarrow> r \<in> (l_g \<circ> snd) ` set (inflight s))"

definition timer_of :: "string \<Rightarrow> lease \<Rightarrow> timerEntry" where
  "timer_of i l = \<lparr>t_id = i, t_epoch = l_epoch l, t_at = l_deadline l\<rparr>"

definition timers_ok :: "slot \<Rightarrow> bool" where
  "timers_ok s \<longleftrightarrow> is_heap t_at (timers s) \<and> distinct (map t_epoch (timers s)) \<and>
     (\<forall>e \<in> set (timers s). t_epoch e \<le> epochSeq s) \<and>
     (\<forall>x \<in> set (inflight s). timer_of (fst x) (snd x) \<in> set (timers s))"

definition delay_ok :: "slot \<Rightarrow> bool" where
  "delay_ok s \<longleftrightarrow> is_heap d_at (delayed s) \<and>
     (\<forall>e \<in> set (delayed s). d_at e = DeliverAfter (d_msg e) \<and> Priority (d_msg e) \<le> 100)"

definition gauges :: "slotStats \<Rightarrow> message multiset \<Rightarrow> message multiset \<Rightarrow> message multiset \<Rightarrow> bool" where
  "gauges t R F D \<longleftrightarrow>
     (\<forall>b. n_ready t b = int (size (filter_mset (\<lambda>m. bucketOf (Priority m) = b) R))) \<and>
     n_inflight t = int (size F) \<and> n_delayed t = int (size D) \<and>
     n_bytes t = int (sum_mset (image_mset (\<lambda>m. length (Payload m)) (R + F + D)))"

text \<open>A message ID names one message, or redeliveries of it in one group.\<close>

definition ids_ok :: "message multiset \<Rightarrow> bool" where
  "ids_ok M \<longleftrightarrow> (\<forall>m \<in># M. \<forall>m' \<in># M. ID m = ID m' \<longrightarrow> msg_group m = msg_group m')"

definition slot_core :: "slot \<Rightarrow> bool" where
  "slot_core s \<longleftrightarrow> band_ok {} s \<and> lease_ok {} s \<and> timers_ok s \<and> delay_ok s"

definition slot_inv :: "slot \<Rightarrow> bool" where
  "slot_inv s \<longleftrightarrow> slot_core s \<and> gauges (st s) (ready_ms s) (flight_ms s) (delayed_ms s) \<and> ids_ok (held s)"

definition slot_ok :: "slot \<Rightarrow> bool" where
  "slot_ok s \<longleftrightarrow> slot_inv s \<and> refreshHint s = s"

lemma slot_inv_core: "slot_inv s \<Longrightarrow> slot_core s"
  by (simp add: slot_inv_def)

lemma slot_coreD: "slot_core s \<Longrightarrow> band_ok {} s" "slot_core s \<Longrightarrow> lease_ok {} s" "slot_core s \<Longrightarrow> timers_ok s"
    "slot_core s \<Longrightarrow> delay_ok s"
  by (simp_all add: slot_core_def)

subsection \<open>Sets of identities\<close>

lemma ids_ok_mono: "ids_ok M \<Longrightarrow> N \<subseteq># M \<Longrightarrow> ids_ok N"
  by (auto simp: ids_ok_def dest!: set_mset_mono)

lemma ids_ok_core: "ids_ok (image_mset core M) \<longleftrightarrow> ids_ok M"
  by (auto simp: ids_ok_def)

lemma ids_ok_eqv: "image_mset core N = image_mset core M \<Longrightarrow> ids_ok N \<longleftrightarrow> ids_ok M"
  using ids_ok_core by metis

lemma ids_ok_sub: "image_mset core N \<subseteq># image_mset core M \<Longrightarrow> ids_ok M \<Longrightarrow> ids_ok N"
  using ids_ok_core ids_ok_mono by metis

subsection \<open>The ready messages\<close>

lemma ready_ms_cong:
  assumes "groups s' = groups s" and "\<And>r. r \<in> refs s \<Longrightarrow> msgs (gheap s' r) = msgs (gheap s r)"
  shows "ready_ms s' = ready_ms s"
  unfolding ready_ms_def assms(1) by (rule sum_al_cong) (simp add: assms(2) refs_def)

lemma mem_ready: "m \<in># ready_ms s \<longleftrightarrow> (\<exists>r \<in> refs s. m \<in> set (dq_list (msgs (gheap s r))))"
  by (auto simp: ready_ms_def mem_sum_al refs_def)

lemma mem_flight: "m \<in># flight_ms s \<longleftrightarrow> (\<exists>x \<in> set (inflight s). m = l_msg (snd x))"
  by (auto simp: flight_ms_def mem_sum_al)

lemma mem_delayed: "m \<in># delayed_ms s \<longleftrightarrow> (\<exists>e \<in> set (delayed s). m = d_msg e)"
  by (auto simp: delayed_ms_def)

lemma mem_held: "m \<in># held s \<longleftrightarrow> m \<in># ready_ms s \<or> m \<in># flight_ms s \<or> m \<in># delayed_ms s"
  by (simp add: held_def disj_assoc)

lemma ready_ms_frame [simp]:
  "ready_ms (move s m a b) = ready_ms s" "ready_ms (refreshHint s) = ready_ms s"
  "ready_ms (hold s m a) = ready_ms s" "ready_ms (dropExpired s m) = ready_ms s"
  "ready_ms (s\<lparr>st := t\<rparr>) = ready_ms s" "ready_ms (s\<lparr>timers := ts\<rparr>) = ready_ms s"
  "ready_ms (s\<lparr>inflight := al\<rparr>) = ready_ms s" "ready_ms (s\<lparr>delayed := ds\<rparr>) = ready_ms s"
  "ready_ms (s\<lparr>epochSeq := n\<rparr>) = ready_ms s" "ready_ms (s\<lparr>sfrozen := f\<rparr>) = ready_ms s"
  by (simp_all add: ready_ms_def)

lemma flight_ms_frame [simp]:
  "flight_ms (move s m a b) = flight_ms s" "flight_ms (refreshHint s) = flight_ms s"
  "flight_ms (hold s m a) = flight_ms s" "flight_ms (dropExpired s m) = flight_ms s"
  "flight_ms (upd_group s r f) = flight_ms s" "flight_ms (pushGroup s r) = flight_ms s"
  "flight_ms (dropGroupIfIdle s r) = flight_ms s" "flight_ms (unlock s r) = flight_ms s"
  "flight_ms (admit s m) = flight_ms s"
  "flight_ms (s\<lparr>st := t\<rparr>) = flight_ms s" "flight_ms (s\<lparr>timers := ts\<rparr>) = flight_ms s"
  "flight_ms (s\<lparr>delayed := ds\<rparr>) = flight_ms s"
  "flight_ms (s\<lparr>epochSeq := n\<rparr>) = flight_ms s" "flight_ms (s\<lparr>sfrozen := fz\<rparr>) = flight_ms s"
  by (simp_all add: flight_ms_def)

lemma delayed_ms_frame [simp]:
  "delayed_ms (move s m a b) = delayed_ms s" "delayed_ms (refreshHint s) = delayed_ms s"
  "delayed_ms (dropExpired s m) = delayed_ms s"
  "delayed_ms (upd_group s r f) = delayed_ms s" "delayed_ms (pushGroup s r) = delayed_ms s"
  "delayed_ms (dropGroupIfIdle s r) = delayed_ms s" "delayed_ms (unlock s r) = delayed_ms s"
  "delayed_ms (admit s m) = delayed_ms s"
  "delayed_ms (s\<lparr>st := t\<rparr>) = delayed_ms s" "delayed_ms (s\<lparr>timers := ts\<rparr>) = delayed_ms s"
  "delayed_ms (s\<lparr>inflight := al\<rparr>) = delayed_ms s"
  "delayed_ms (s\<lparr>epochSeq := n\<rparr>) = delayed_ms s" "delayed_ms (s\<lparr>sfrozen := fz\<rparr>) = delayed_ms s"
  "delayed_ms (hold s m a) = add_mset m (delayed_ms s)"
  by (simp_all add: delayed_ms_def)

text \<open>Rewriting the messages of one group.\<close>

lemma ready_ms_upd_msgs:
  assumes "groups_wf s" "r \<in> refs s"
  shows "ready_ms (upd_group s r f) + mset (dq_list (msgs (gheap s r)))
      = ready_ms s + mset (dq_list (msgs (f (gheap s r))))"
  using sum_al_fun_upd [OF groups_wf_distinct [OF assms(1)], of r "\<lambda>g. mset (dq_list (msgs g))" "gheap s" "f (gheap s r)"]
    assms(2) by (simp add: ready_ms_def refs_def)

lemma ready_ms_upd_same:
  "msgs (f (gheap s r)) = msgs (gheap s r) \<Longrightarrow> ready_ms (upd_group s r f) = ready_ms s"
  by (rule ready_ms_cong) auto

lemma pushGroup_msgs [simp]: "msgs (gheap (pushGroup s r) r') = msgs (gheap s r')"
  "locked (gheap (pushGroup s r) r') = locked (gheap s r')" "gid (gheap (pushGroup s r) r') = gid (gheap s r')"
  by (simp_all add: pushGroup_def Let_def split: list.splits)

lemma ready_ms_pushGroup [simp]: "ready_ms (pushGroup s r) = ready_ms s"
  by (rule ready_ms_cong) simp_all

lemma ready_ms_forget:
  assumes "groups_wf s" "r \<in> refs s" "dq_list (msgs (gheap s r)) = []"
  shows "ready_ms (s\<lparr>groups := AList.delete (gid (gheap s r)) (groups s)\<rparr>) = ready_ms s"
proof -
  have "map_of (groups s) (gid (gheap s r)) = Some r" using assms refs_map_of by blast
  from sum_al_delete [OF groups_wf_keys [OF assms(1)] this, of "\<lambda>r. mset (dq_list (msgs (gheap s r)))"] assms(3)
  show ?thesis by (simp add: ready_ms_def)
qed

lemma ready_ms_dropGroupIfIdle [simp]:
  "groups_wf s \<Longrightarrow> r \<in> refs s \<Longrightarrow> ready_ms (dropGroupIfIdle s r) = ready_ms s"
  by (simp add: dropGroupIfIdle_def Let_def ready_ms_forget)

lemma groups_wf_upd:
  "groups_wf s \<Longrightarrow> gid (f (gheap s r)) = gid (gheap s r) \<Longrightarrow> dq_wf (msgs (f (gheap s r))) \<Longrightarrow> groups_wf (upd_group s r f)"
  by (rule groups_wf_same) (auto simp: groups_wf_dq)

lemma ready_ms_unlock [simp]:
  "groups_wf s \<Longrightarrow> r \<in> refs s \<Longrightarrow> ready_ms (unlock s r) = ready_ms s"
  by (simp add: unlock_def Let_def ready_ms_upd_same groups_wf_upd groups_wf_dq)

lemma ready_ms_admit_ref:
  assumes ok: "band_ok X s" and g: "group_ref s k = (s1, r)"
  shows "ready_ms s1 = ready_ms s"
proof (cases "map_of (groups s) k")
  case (Some r')
  with band_ok_group_ref(5) [OF ok g] show ?thesis by auto
next
  case None
  then have "s1 = s\<lparr>gheap := (gheap s)(gnext s := empty_group k), gnext := gnext s + 1,
      groups := AList.update k (gnext s) (groups s)\<rparr>" using g by (auto simp: group_ref_def)
  moreover have "k \<notin> fst ` set (groups s)" using None by (simp add: map_of_eq_None_iff)
  moreover have "sum_al (\<lambda>r. mset (dq_list (msgs (((gheap s)(gnext s := empty_group k)) r)))) (groups s) = ready_ms s"
    unfolding ready_ms_def
  proof (rule sum_al_cong)
    fix v assume "v \<in> snd ` set (groups s)"
    then have "v \<noteq> gnext s" using refs_less [OF band_okD(1) [OF ok], of v] by (auto simp: refs_def)
    then show "mset (dq_list (msgs (((gheap s)(gnext s := empty_group k)) v))) = mset (dq_list (msgs (gheap s v)))"
      by simp
  qed
  ultimately show ?thesis by (simp add: ready_ms_def sum_al_update_fresh empty_group_def)
qed

lemma ready_ms_admit:
  assumes ok: "band_ok X s"
  shows "ready_ms (admit s m) = add_mset m (ready_ms s)"
proof -
  obtain s1 r where g: "group_ref s (msg_group m) = (s1, r)" by (cases "group_ref s (msg_group m)")
  note G = band_ok_group_ref [OF ok g]
  have wf: "dq_wf (msgs (gheap s1 r))" using band_okD(1) [OF G(1)] by (rule groups_wf_dq)
  let ?s = "upd_group s1 r (\<lambda>g. g\<lparr>msgs := pushBack (msgs g) m\<rparr>)"
  have "ready_ms ?s + mset (dq_list (msgs (gheap s1 r))) = ready_ms s1 + mset (dq_list (msgs (gheap s1 r)) @ [m])"
    using ready_ms_upd_msgs [OF band_okD(1) [OF G(1)] G(2), of "\<lambda>g. g\<lparr>msgs := pushBack (msgs g) m\<rparr>"] wf by simp
  then have "ready_ms ?s = add_mset m (ready_ms s)" using ready_ms_admit_ref [OF ok g] by simp
  then show ?thesis by (simp add: admit_def g Let_def)
qed

subsection \<open>Gauges\<close>

lemma gauges_counters [simp]:
  "gauges (t\<lparr>n_enqueued := n\<rparr>) R F D = gauges t R F D" "gauges (t\<lparr>n_acked := n\<rparr>) R F D = gauges t R F D"
  "gauges (t\<lparr>n_expired := n\<rparr>) R F D = gauges t R F D" "gauges (t\<lparr>n_requeued := n\<rparr>) R F D = gauges t R F D"
  "gauges (t\<lparr>n_deadLettered := n\<rparr>) R F D = gauges t R F D"
  by (simp_all add: gauges_def)

text \<open>Every transition of \<open>move\<close> keeps the gauges the sizes of the three states.\<close>

lemma gauges_in:
  assumes "gauges (st s) R F D"
  shows "gauges (st (move s m stAbsent stReady)) (add_mset m R) F D"
    and "gauges (st (move s m stAbsent stDelayed)) R F (add_mset m D)"
  using assms by (auto simp: gauges_def move_def move_from_def move_to_def)

lemma gauges_out:
  "gauges (st s) (add_mset m R) F D \<Longrightarrow> gauges (st (move s m stReady stAbsent)) R F D"
  "gauges (st s) R (add_mset m F) D \<Longrightarrow> gauges (st (move s m stInFlight stAbsent)) R F D"
  by (auto simp: gauges_def move_def move_from_def move_to_def)

lemma core_eq_tally: "core m = core m' \<Longrightarrow> Priority m = Priority m' \<and> length (Payload m) = length (Payload m')"
  by (metis core_simps(2,3))

lemma gauges_lease:
  assumes "core m = core m'"
  shows "gauges (st s) (add_mset m' R) F D \<Longrightarrow> gauges (st (move s m stReady stInFlight)) R (add_mset m F) D"
    and "gauges (st s) R (add_mset m' F) D \<Longrightarrow> gauges (st (move s m stInFlight stReady)) (add_mset m R) F D"
    and "gauges (st s) R (add_mset m' F) D \<Longrightarrow> gauges (st (move s m stInFlight stDelayed)) R F (add_mset m D)"
    and "gauges (st s) R F (add_mset m' D) \<Longrightarrow> gauges (st (move s m stDelayed stReady)) (add_mset m R) F D"
  using core_eq_tally [OF assms] by (auto simp: gauges_def move_def move_from_def move_to_def)

subsection \<open>Leases\<close>

definition leased :: "slot \<Rightarrow> nat set" where
  "leased s = (l_g \<circ> snd) ` set (inflight s)"

lemma lease_ok_cong:
  assumes "lease_ok X s" "refs s' = refs s" "inflight s' = inflight s"
    and "\<And>r. r \<in> refs s \<Longrightarrow> locked (gheap s' r) = locked (gheap s r) \<and> gid (gheap s' r) = gid (gheap s r)"
  shows "lease_ok X s'"
  using assms(1,4) by (simp add: lease_ok_def lease_wf_def assms(2,3))

lemma lease_ok_frame [simp]:
  "lease_ok X s \<Longrightarrow> lease_ok X (move s m a b)" "lease_ok X s \<Longrightarrow> lease_ok X (refreshHint s)"
  "lease_ok X s \<Longrightarrow> lease_ok X (hold s m a)" "lease_ok X s \<Longrightarrow> lease_ok X (dropExpired s m)"
  "lease_ok X s \<Longrightarrow> lease_ok X (s\<lparr>st := t\<rparr>)" "lease_ok X s \<Longrightarrow> lease_ok X (s\<lparr>timers := ts\<rparr>)"
  "lease_ok X s \<Longrightarrow> lease_ok X (s\<lparr>delayed := ds\<rparr>)" "lease_ok X s \<Longrightarrow> lease_ok X (s\<lparr>epochSeq := n\<rparr>)"
  "lease_ok X s \<Longrightarrow> lease_ok X (pushGroup s r)"
  by (erule lease_ok_cong; simp)+

lemma lease_ok_upd_group:
  "lease_ok X s \<Longrightarrow> locked (f (gheap s r)) = locked (gheap s r) \<Longrightarrow> gid (f (gheap s r)) = gid (gheap s r)
   \<Longrightarrow> lease_ok X (upd_group s r f)"
  by (erule lease_ok_cong) auto

lemma lease_ok_mono: "lease_ok X s \<Longrightarrow> X \<subseteq> Y \<Longrightarrow> lease_ok Y s"
  by (auto simp: lease_ok_def)

lemma leasedD: "lease_ok X s \<Longrightarrow> r \<in> leased s \<Longrightarrow> r \<in> refs s \<and> locked (gheap s r)"
  by (auto simp: lease_ok_def lease_wf_def leased_def)

lemma lease_ok_lookup:
  assumes "lease_ok X s" and "map_of (inflight s) i = Some l"
  shows "ID (l_msg l) = i" "l_g l \<in> refs s" "locked (gheap s (l_g l))" "msg_ok (gid (gheap s (l_g l))) (l_msg l)"
    "(i, l) \<in> set (inflight s)"
proof -
  have "(i, l) \<in> set (inflight s)" using assms(2) by (rule map_of_SomeD)
  then show "ID (l_msg l) = i" "l_g l \<in> refs s" "locked (gheap s (l_g l))" "msg_ok (gid (gheap s (l_g l))) (l_msg l)"
    "(i, l) \<in> set (inflight s)"
    using assms(1) by (auto simp: lease_ok_def lease_wf_def)
qed

lemma lease_ok_dropGroupIfIdle:
  assumes ok: "lease_ok X s" and b: "band_ok Y s" and r: "r \<in> refs s"
  shows "lease_ok X (dropGroupIfIdle s r)"
proof (cases "\<not> locked (gheap s r) \<and> dq_list (msgs (gheap s r)) = [] \<and> \<not> inBand (gheap s r)")
  case True
  let ?s = "s\<lparr>groups := AList.delete (gid (gheap s r)) (groups s)\<rparr>"
  have refs: "refs ?s = refs s - {r}" using band_ok_forget(2) [OF b r] True by simp
  have "lease_wf ?s (fst x) (snd x)" if "x \<in> set (inflight s)" for x
    using that ok True unfolding lease_wf_def refs by (auto simp: lease_ok_def lease_wf_def)
  then have "lease_ok X ?s" using ok unfolding lease_ok_def refs by auto
  then show ?thesis using True by (simp add: dropGroupIfIdle_def Let_def)
next
  case False
  then have "dropGroupIfIdle s r = s" by (auto simp: dropGroupIfIdle_def Let_def)
  with ok show ?thesis by simp
qed

lemma lease_ok_unlock:
  assumes ok: "lease_ok (insert r X) s" and b: "band_ok Y s" and r: "r \<in> refs s" "r \<notin> leased s"
  shows "lease_ok X (unlock s r)"
proof -
  let ?s = "upd_group s r (\<lambda>g. g\<lparr>locked := False\<rparr>)"
  have "lease_wf ?s (fst x) (snd x)" if "x \<in> set (inflight s)" for x
  proof -
    have "l_g (snd x) \<noteq> r" using r(2) that by (auto simp: leased_def)
    then show ?thesis using that ok by (auto simp: lease_ok_def lease_wf_def)
  qed
  then have 1: "lease_ok X ?s" using ok by (auto simp: lease_ok_def)
  then have "lease_ok X (dropGroupIfIdle ?s r)"
    by (rule lease_ok_dropGroupIfIdle [OF _ band_ok_unlock [OF b]]) (simp add: r)
  with 1 show ?thesis by (simp add: unlock_def Let_def)
qed

lemma lease_ok_delete:
  assumes ok: "lease_ok X s" and l: "map_of (inflight s) i = Some l"
  shows "lease_ok (insert (l_g l) X) (s\<lparr>inflight := AList.delete i (inflight s)\<rparr>)" (is "lease_ok _ ?s")
    and "l_g l \<notin> leased (s\<lparr>inflight := AList.delete i (inflight s)\<rparr>)"
proof -
  have d: "distinct (map fst (inflight s))" "distinct (map (l_g \<circ> snd) (inflight s))"
    using ok by (simp_all add: lease_ok_def)
  have mem: "set (AList.delete i (inflight s)) = {x \<in> set (inflight s). fst x \<noteq> i}"
    by (rule set_AList_delete [OF d(1)])
  note il = lease_ok_lookup(5) [OF ok l]
  have key: "fst x = i" if "x \<in> set (inflight s)" "l_g (snd x) = l_g l" for x
  proof -
    have "x = (i, l)" using d(2) that il unfolding distinct_map inj_on_def by force
    then show ?thesis by simp
  qed
  show nl: "l_g l \<notin> leased ?s" using key by (auto simp: leased_def mem)
  have w: "lease_wf ?s (fst x) (snd x)" if "x \<in> set (inflight ?s)" for x
    using that ok mem by (auto simp: lease_ok_def lease_wf_def)
  have p: "r \<in> (l_g \<circ> snd) ` set (inflight ?s)" if r: "r \<in> refs s - insert (l_g l) X" "locked (gheap s r)" for r
  proof -
    from r ok obtain x where x: "x \<in> set (inflight s)" "l_g (snd x) = r" by (auto simp: lease_ok_def)
    have "fst x \<noteq> i"
    proof
      assume "fst x = i"
      then have "x = (i, l)" using d(1) x(1) il unfolding distinct_map inj_on_def by force
      with x r show False by simp
    qed
    with x show ?thesis by (auto simp: mem)
  qed
  have "distinct (map (l_g \<circ> snd) (AList.delete i (inflight s)))"
    using d(2) unfolding AList.delete_eq by (rule distinct_map_filter)
  with w p d(1) show "lease_ok (insert (l_g l) X) ?s" by (auto simp: lease_ok_def)
qed

lemma lease_ok_lock:
  "lease_ok X s \<Longrightarrow> lease_ok (insert r X) (upd_group s r (\<lambda>g. g\<lparr>locked := True\<rparr>))"
  by (auto simp: lease_ok_def lease_wf_def)

lemma lease_ok_add:
  assumes ok: "lease_ok (insert r X) s" and r: "r \<in> refs s" "locked (gheap s r)" "r \<notin> leased s"
    and i: "ID m \<notin> fst ` set (inflight s)" and m: "msg_ok (gid (gheap s r)) m" and l: "l_msg l = m" "l_g l = r"
  shows "lease_ok X (s\<lparr>inflight := AList.update (ID m) l (inflight s)\<rparr>)"
proof -
  have u: "AList.update (ID m) l (inflight s) = inflight s @ [(ID m, l)]" by (rule AList_update_fresh [OF i])
  show ?thesis using ok r i m l by (auto simp: u lease_ok_def lease_wf_def leased_def)
qed

lemma lease_ok_group_ref:
  assumes ok: "lease_ok X s" and b: "band_ok Y s" and g: "group_ref s k = (s1, r)"
  shows "lease_ok X s1"
proof (cases "map_of (groups s) k")
  case (Some r')
  with band_ok_group_ref(5) [OF b g] ok show ?thesis by auto
next
  case None
  note G = band_ok_group_ref [OF b g]
  with None have n: "r \<notin> refs s" "gheap s1 = (gheap s)(r := empty_group k)" by auto
  have inf: "inflight s1 = inflight s" using group_ref_frame(4) [OF g] .
  have "lease_wf s1 (fst x) (snd x)" if "x \<in> set (inflight s)" for x
    using that ok n by (auto simp: lease_ok_def lease_wf_def G(4))
  moreover have "\<not> locked (gheap s1 r)" by (simp add: n empty_group_def)
  ultimately show ?thesis using ok n unfolding lease_ok_def inf G(4) by auto
qed

lemma lease_ok_admit:
  assumes ok: "lease_ok X s" and b: "band_ok Y s"
  shows "lease_ok X (admit s m)"
proof -
  obtain s1 r where g: "group_ref s (msg_group m) = (s1, r)" by (cases "group_ref s (msg_group m)")
  have "lease_ok X (upd_group s1 r (\<lambda>g. g\<lparr>msgs := pushBack (msgs g) m\<rparr>))"
    by (rule lease_ok_upd_group [OF lease_ok_group_ref [OF ok b g]]) simp_all
  then show ?thesis by (simp add: admit_def g Let_def)
qed

subsection \<open>Timers and delays\<close>

lemma timers_ok_cong:
  "timers_ok s \<Longrightarrow> timers s' = timers s \<Longrightarrow> epochSeq s' = epochSeq s \<Longrightarrow> inflight s' = inflight s \<Longrightarrow> timers_ok s'"
  by (simp add: timers_ok_def)

lemma timers_ok_frame [simp]:
  "timers_ok (move s m a b) = timers_ok s" "timers_ok (refreshHint s) = timers_ok s"
  "timers_ok (hold s m a) = timers_ok s" "timers_ok (dropExpired s m) = timers_ok s"
  "timers_ok (upd_group s r f) = timers_ok s" "timers_ok (pushGroup s r) = timers_ok s"
  "timers_ok (dropGroupIfIdle s r) = timers_ok s" "timers_ok (unlock s r) = timers_ok s"
  "timers_ok (admit s m) = timers_ok s"
  "timers_ok (s\<lparr>st := t\<rparr>) = timers_ok s" "timers_ok (s\<lparr>delayed := ds\<rparr>) = timers_ok s"
  by (simp_all add: timers_ok_def)

lemma timers_ok_delete:
  "timers_ok s \<Longrightarrow> timers_ok (s\<lparr>inflight := AList.delete i (inflight s)\<rparr>)"
  by (auto simp: timers_ok_def AList.delete_eq)

lemma delay_ok_frame [simp]:
  "delay_ok (move s m a b) = delay_ok s" "delay_ok (refreshHint s) = delay_ok s"
  "delay_ok (dropExpired s m) = delay_ok s"
  "delay_ok (upd_group s r f) = delay_ok s" "delay_ok (pushGroup s r) = delay_ok s"
  "delay_ok (dropGroupIfIdle s r) = delay_ok s" "delay_ok (unlock s r) = delay_ok s"
  "delay_ok (admit s m) = delay_ok s"
  "delay_ok (s\<lparr>st := t\<rparr>) = delay_ok s" "delay_ok (s\<lparr>timers := ts\<rparr>) = delay_ok s"
  "delay_ok (s\<lparr>inflight := al\<rparr>) = delay_ok s" "delay_ok (s\<lparr>epochSeq := n\<rparr>) = delay_ok s"
  by (simp_all add: delay_ok_def)

lemma delay_ok_hold [simp]: "delay_ok s \<Longrightarrow> Priority m \<le> 100 \<Longrightarrow> delay_ok (hold s m a)"
  by (simp add: delay_ok_def)

subsection \<open>The hint\<close>

lemma highestBand_cong: "bandMask s' = bandMask s \<Longrightarrow> highestBand s' = highestBand s"
  by (simp add: highestBand_def)

lemma headMessage_cong: "bands s' = bands s \<Longrightarrow> gheap s' = gheap s \<Longrightarrow> headMessage s' p = headMessage s p"
  by (simp add: headMessage_def Let_def cong: option.case_cong)

lemma refreshHint_idem [simp]: "refreshHint (refreshHint s) = refreshHint s"
proof -
  have 1: "highestBand (refreshHint s) = highestBand s" by (rule highestBand_cong) simp
  have 2: "headMessage (refreshHint s) p = headMessage s p" for p by (rule headMessage_cong) simp_all
  show ?thesis unfolding refreshHint_def [of "refreshHint s"] 1 2 by (auto simp: refreshHint_def split: option.splits)
qed

lemma slot_core_refreshHint [simp]: "slot_core s \<Longrightarrow> slot_core (refreshHint s)"
  by (simp add: slot_core_def)

lemma held_frame [simp]:
  "held (refreshHint s) = held s" "held (s\<lparr>st := t\<rparr>) = held s" "held (s\<lparr>timers := ts\<rparr>) = held s"
  "held (s\<lparr>epochSeq := n\<rparr>) = held s" "held (s\<lparr>sfrozen := fz\<rparr>) = held s"
  by (simp_all add: held_def)

lemma slot_ok_refreshHint: "slot_inv s \<Longrightarrow> slot_ok (refreshHint s)"
  by (simp add: slot_ok_def slot_inv_def)

end
