(* ===== verification/SlotOps.thy ===== *)
theory SlotOps
  imports SlotInv
begin

text \<open>
  Every operation of a slot keeps \<open>slot_ok\<close>, and what each does to the messages held: \<open>enqueue\<close>,
  \<open>take\<close>, \<open>ack\<close> and \<open>nack\<close>.
\<close>

lemma slot_okD: "slot_ok s \<Longrightarrow> slot_inv s" "slot_ok s \<Longrightarrow> slot_core s"
  "slot_ok s \<Longrightarrow> gauges (st s) (ready_ms s) (flight_ms s) (delayed_ms s)" "slot_ok s \<Longrightarrow> ids_ok (held s)"
  by (simp_all add: slot_ok_def slot_inv_def)

subsection \<open>Enqueue\<close>

lemma enqueue_inv:
  assumes ok: "slot_ok s" and p: "Priority m \<le> 100" and ids: "ids_ok (add_mset m (held s))"
  shows "slot_ok (enqueue s m now)"
    "ready_ms (enqueue s m now) = (if held_back m now then ready_ms s else add_mset m (ready_ms s))"
    "delayed_ms (enqueue s m now) = (if held_back m now then add_mset m (delayed_ms s) else delayed_ms s)"
    "flight_ms (enqueue s m now) = flight_ms s"
proof -
  note core = slot_okD(2) [OF ok] and g = slot_okD(3) [OF ok]
  let ?s1 = "s\<lparr>st := (st s)\<lparr>n_enqueued := n_enqueued (st s) + 1\<rparr>\<rparr>"
  have g1: "gauges (st ?s1) (ready_ms s) (flight_ms s) (delayed_ms s)" using g by simp
  have "slot_ok (enqueue s m now) \<and>
    ready_ms (enqueue s m now) = (if held_back m now then ready_ms s else add_mset m (ready_ms s)) \<and>
    delayed_ms (enqueue s m now) = (if held_back m now then add_mset m (delayed_ms s) else delayed_ms s) \<and>
    flight_ms (enqueue s m now) = flight_ms s"
  proof (cases "held_back m now")
    case True
    let ?s = "hold ?s1 m stAbsent"
    have e: "enqueue s m now = ?s" using True by (simp add: enqueue_def)
    have core': "slot_core ?s" using core p by (auto simp: slot_core_def)
    have "gauges (st (move (?s1\<lparr>delayed := heap_push d_at (delayed ?s1) \<lparr>d_msg = m, d_at = DeliverAfter m\<rparr>\<rparr>) m stAbsent stDelayed))
        (ready_ms s) (flight_ms s) (add_mset m (delayed_ms s))"
      by (rule gauges_in(2)) (use g1 in simp)
    then have "gauges (st ?s) (ready_ms s) (flight_ms s) (add_mset m (delayed_ms s))" by (simp add: hold_def)
    with core' ids have "slot_inv ?s" by (simp add: slot_inv_def held_def)
    moreover have "refreshHint ?s = ?s"
    proof -
      have 1: "highestBand ?s = highestBand s" by (rule highestBand_cong) simp
      have 2: "headMessage ?s p = headMessage s p" for p by (rule headMessage_cong) simp_all
      have "refreshHint s = s" using ok by (simp add: slot_ok_def)
      then have "hint s = hint (refreshHint s)" "headSeq s = headSeq (refreshHint s)" by simp_all
      then show ?thesis unfolding refreshHint_def [of ?s] 1 2
        by (auto simp: refreshHint_def split: option.splits)
    qed
    ultimately show ?thesis using True e by (simp add: slot_ok_def)
  next
    case False
    let ?s2 = "move ?s1 m stAbsent stReady"
    let ?s = "admit ?s2 m"
    have e: "enqueue s m now = refreshHint ?s" using False by (simp add: enqueue_def)
    have b: "band_ok {} ?s2" using slot_coreD(1) [OF core] by simp
    have l: "lease_ok {} ?s2" using slot_coreD(2) [OF core] by simp
    have "slot_core ?s" using core band_ok_admit [OF b p] lease_ok_admit [OF l b] by (simp add: slot_core_def)
    moreover have r: "ready_ms ?s = add_mset m (ready_ms s)" using ready_ms_admit [OF b] by simp
    moreover have "gauges (st ?s2) (add_mset m (ready_ms s)) (flight_ms s) (delayed_ms s)"
      by (rule gauges_in(1) [OF g1])
    ultimately have "slot_inv ?s" using ids by (simp add: slot_inv_def held_def)
    then show ?thesis using False e r by (simp add: slot_ok_refreshHint)
  qed
  then show "slot_ok (enqueue s m now)"
    "ready_ms (enqueue s m now) = (if held_back m now then ready_ms s else add_mset m (ready_ms s))"
    "delayed_ms (enqueue s m now) = (if held_back m now then add_mset m (delayed_ms s) else delayed_ms s)"
    "flight_ms (enqueue s m now) = flight_ms s" by blast+
qed

subsection \<open>Delivery\<close>

lemma takeGroup_frame:
  assumes "takeGroup s p = (s', res)"
  shows "sid s' = sid s" "gnext s' = gnext s" "groups s' = groups s" "inflight s' = inflight s"
    "timers s' = timers s" "delayed s' = delayed s" "epochSeq s' = epochSeq s" "st s' = st s"
    "sfrozen s' = sfrozen s"
  using assms by (auto simp: takeGroup_def Let_def split: option.splits prod.splits if_splits)

lemma ready_ms_one:
  assumes "groups_wf s" "r \<in> refs s" "groups s' = groups s" "gheap s' = (gheap s)(r := g)"
  shows "ready_ms s' + mset (dq_list (msgs (gheap s r))) = ready_ms s + mset (dq_list (msgs g))"
  using sum_al_fun_upd [OF groups_wf_distinct [OF assms(1)], of r "\<lambda>g. mset (dq_list (msgs g))" "gheap s" g]
    assms by (simp add: ready_ms_def refs_def)

text \<open>\<open>pop_fresh\<close> drops the expired prefix of the group and stops at the first message that is not.\<close>

definition popped :: "slot \<Rightarrow> nat \<Rightarrow> time \<Rightarrow> slot \<Rightarrow> message option \<Rightarrow> message list \<Rightarrow> bool" where
  "popped s r now s' res dead \<longleftrightarrow>
     (\<forall>m \<in> set dead. expired m now) \<and>
     dq_list (msgs (gheap s r)) = dead @ (case res of None \<Rightarrow> [] | Some m \<Rightarrow> m # dq_list (msgs (gheap s' r))) \<and>
     (res = None \<longrightarrow> dq_list (msgs (gheap s' r)) = []) \<and> (\<forall>m. res = Some m \<longrightarrow> \<not> expired m now) \<and>
     gid (gheap s' r) = gid (gheap s r) \<and> locked (gheap s' r) = locked (gheap s r) \<and>
     inBand (gheap s' r) = inBand (gheap s r) \<and> (\<forall>r'. r' \<noteq> r \<longrightarrow> gheap s' r' = gheap s r') \<and>
     groups s' = groups s \<and> inflight s' = inflight s \<and> timers s' = timers s \<and> delayed s' = delayed s \<and>
     epochSeq s' = epochSeq s \<and> sid s' = sid s \<and> sfrozen s' = sfrozen s"

lemma poppedD:
  assumes "popped s r now s' res dead"
  shows "\<forall>m \<in> set dead. expired m now"
    "dq_list (msgs (gheap s r)) = dead @ (case res of None \<Rightarrow> [] | Some m \<Rightarrow> m # dq_list (msgs (gheap s' r)))"
    "res = None \<Longrightarrow> dq_list (msgs (gheap s' r)) = []" "res = Some m \<Longrightarrow> \<not> expired m now"
    "groups s' = groups s" "inflight s' = inflight s" "timers s' = timers s" "delayed s' = delayed s"
    "epochSeq s' = epochSeq s" "sid s' = sid s" "sfrozen s' = sfrozen s"
    "gid (gheap s' r) = gid (gheap s r)" "locked (gheap s' r) = locked (gheap s r)"
    "inBand (gheap s' r) = inBand (gheap s r)" "r' \<noteq> r \<Longrightarrow> gheap s' r' = gheap s r'"
  using assms unfolding popped_def by blast+

lemma pop_fresh_spec:
  assumes "band_ok X s" "r \<in> refs s" "\<not> inBand (gheap s r)" "pop_fresh s r now = (s', res)"
  shows "band_ok X s' \<and> (\<exists>dead. popped s r now s' res dead \<and>
    (\<forall>R F D. gauges (st s) (mset dead + R) F D \<longrightarrow> gauges (st s') R F D))"
  using assms
proof (induction s r now arbitrary: s' res rule: pop_fresh.induct)
  case (1 s r now)
  show ?case
  proof (cases "popFront zero_message (msgs (gheap s r))")
    case None
    then have "pop_fresh s r now = (s, None)" by (subst pop_fresh.simps) (simp only: option.case)
    with 1(5) have "s' = s" "res = None" by simp_all
    moreover have "popped s r now s None []" using None by (simp add: popped_def)
    ultimately show ?thesis using 1(2) by (auto intro!: exI [of _ "[]"])
  next
    case (Some x)
    obtain v d where x: "x = (v, d)" by (cases x)
    with Some have pop: "popFront zero_message (msgs (gheap s r)) = Some (v, d)" by simp
    note l = popFront_Some [OF pop]
    let ?s = "upd_group s r (\<lambda>g. g\<lparr>msgs := d\<rparr>)"
    have c: "msg_ok (gid (gheap s r)) m" if "m \<in> set (dq_list d)" for m
      using that l 1(3) band_okD(6) [OF 1(2)] by (simp add: contents_wf_def)
    have ok: "band_ok X ?s" by (rule band_ok_upd_msgs [OF 1(2)]) (use l c 1 in auto)
    show ?thesis
    proof (cases "expired v now")
      case True
      let ?s1 = "dropExpired ?s v"
      have "pop_fresh s r now = pop_fresh ?s1 r now"
        using True pop by (subst pop_fresh.simps) simp
      with 1(5) have p: "pop_fresh ?s1 r now = (s', res)" by simp
      have "band_ok X ?s1" "r \<in> refs ?s1" "\<not> inBand (gheap ?s1 r)"
        using ok 1 by simp_all
      from 1(1) [OF Some x [symmetric] refl True this p] obtain dead where
        D: "band_ok X s'" "popped ?s1 r now s' res dead"
        and G: "\<And>R F D. gauges (st ?s1) (mset dead + R) F D \<Longrightarrow> gauges (st s') R F D"
        by blast
      have "gauges (st s') R F D" if "gauges (st s) (mset (v # dead) + R) F D" for R F D
      proof -
        have "gauges (st ?s) (add_mset v (mset dead + R)) F D" using that by simp
        then have "gauges (st (move ?s v stReady stAbsent)) (mset dead + R) F D" by (rule gauges_out)
        then have "gauges (st ?s1) (mset dead + R) F D" by (simp add: dropExpired_def Let_def)
        with G show ?thesis by blast
      qed
      moreover have "popped s r now s' res (v # dead)"
        using D(2) True l by (simp add: popped_def)
      ultimately show ?thesis using D(1) by blast
    next
      case False
      then have "pop_fresh s r now = (?s, Some v)" using pop by (subst pop_fresh.simps) simp
      with 1(5) have s': "s' = ?s" "res = Some v" by simp_all
      then have "popped s r now s' res []" using False l by (simp add: popped_def)
      moreover have "gauges (st s') R F D" if "gauges (st s) (mset [] + R) F D" for R F D
        using that s' by simp
      ultimately show ?thesis using ok s'(1) by blast
    qed
  qed
qed

text \<open>The group taken and the message under its expired prefix, before any lease is made.\<close>

lemma take_front:
  assumes inv: "slot_inv s" and p: "p < 128" and t: "takeGroup s p = (s1, Some r)"
    and f: "pop_fresh s1 r now = (s2, res)"
  obtains dead where
    "band_ok {r} s2" "lease_ok {} s2" "timers_ok s2" "delay_ok s2" "refs s2 = refs s" "r \<in> refs s"
    "\<not> inBand (gheap s2 r)" "\<not> locked (gheap s2 r)" "gid (gheap s2 r) = gid (gheap s r)"
    "inBand (gheap s r)" "band (gheap s r) = p" "\<not> locked (gheap s r)"
    "\<forall>m \<in> set dead. expired m now" "\<And>m. res = Some m \<Longrightarrow> \<not> expired m now"
    "dq_list (msgs (gheap s r)) = dead @ (case res of None \<Rightarrow> [] | Some m \<Rightarrow> m # dq_list (msgs (gheap s2 r)))"
    "res = None \<Longrightarrow> dq_list (msgs (gheap s2 r)) = []"
    "\<exists>m ms. dq_list (msgs (gheap s r)) = m # ms \<and> Priority m = p"
    "ready_ms s = ready_ms s2 + mset dead + (case res of None \<Rightarrow> {#} | Some m \<Rightarrow> {#m#})"
    "inflight s2 = inflight s" "delayed s2 = delayed s" "timers s2 = timers s" "epochSeq s2 = epochSeq s"
    "sid s2 = sid s" "groups s2 = groups s"
    "gauges (st s2) (ready_ms s2 + (case res of None \<Rightarrow> {#} | Some m \<Rightarrow> {#m#})) (flight_ms s) (delayed_ms s)"
    "\<And>r'. r' \<noteq> r \<Longrightarrow> gheap s2 r' = gheap s r'"
proof -
  note core = slot_inv_core [OF inv]
  note b = slot_coreD(1) [OF core]
  note fr = takeGroup_frame [OF t]
  have "\<exists>m ms. r \<in> refs s \<and> inBand (gheap s r) \<and> band (gheap s r) = p \<and>
        dq_list (msgs (gheap s r)) = m # ms \<and> Priority m = p \<and> \<not> locked (gheap s r) \<and>
        gheap s1 = (gheap s)(r := (gheap s r)\<lparr>inBand := False\<rparr>) \<and> band_ok {r} s1"
    by (rule takeGroup_cases [OF b p t]) auto
  then obtain m ms where T: "r \<in> refs s" "inBand (gheap s r)" "band (gheap s r) = p"
        "dq_list (msgs (gheap s r)) = m # ms" "Priority m = p" "\<not> locked (gheap s r)"
        "gheap s1 = (gheap s)(r := (gheap s r)\<lparr>inBand := False\<rparr>)" "band_ok {r} s1" by blast
  have refs1: "refs s1 = refs s" by (simp add: refs_def fr)
  have "r \<in> refs s1" "\<not> inBand (gheap s1 r)" using T by (simp_all add: refs1)
  from pop_fresh_spec [OF T(8) this f] obtain dead where
    P: "band_ok {r} s2" "popped s1 r now s2 res dead"
      "\<And>R F D. gauges (st s1) (mset dead + R) F D \<Longrightarrow> gauges (st s2) R F D" by blast
  note pd = poppedD [OF P(2)]
  have refs2: "refs s2 = refs s" by (simp add: refs_def pd fr)
  have other: "gheap s2 r' = gheap s r'" if "r' \<noteq> r" for r' using that pd(15) T(7) by simp
  have dq: "dq_list (msgs (gheap s r)) = dead @ (case res of None \<Rightarrow> [] | Some m \<Rightarrow> m # dq_list (msgs (gheap s2 r)))"
    using pd(2) T(7) by simp
  have l2: "lease_ok {} s2"
  proof (rule lease_ok_cong [OF slot_coreD(2) [OF core] refs2])
    show "inflight s2 = inflight s" by (simp add: pd fr)
    show "locked (gheap s2 r') = locked (gheap s r') \<and> gid (gheap s2 r') = gid (gheap s r')" for r'
      by (cases "r' = r") (simp_all add: other pd T(7))
  qed
  have "gheap s2 = (gheap s)(r := gheap s2 r)" using other by (auto simp: fun_eq_iff)
  from ready_ms_one [OF band_okD(1) [OF b] T(1) _ this]
  have "ready_ms s2 + mset (dq_list (msgs (gheap s r))) = ready_ms s + mset (dq_list (msgs (gheap s2 r)))"
    by (simp add: pd fr)
  then have "ready_ms s2 + mset dead + (case res of None \<Rightarrow> {#} | Some m \<Rightarrow> {#m#}) + mset (dq_list (msgs (gheap s2 r)))
     = ready_ms s + mset (dq_list (msgs (gheap s2 r)))"
    unfolding dq using pd(3) by (cases res) (simp_all add: ac_simps)
  then have ready: "ready_ms s = ready_ms s2 + mset dead + (case res of None \<Rightarrow> {#} | Some m \<Rightarrow> {#m#})" by simp
  have "gauges (st s1) (mset dead + (ready_ms s2 + (case res of None \<Rightarrow> {#} | Some m \<Rightarrow> {#m#}))) (flight_ms s) (delayed_ms s)"
    using inv by (simp add: slot_inv_def fr ready ac_simps)
  note g2 = P(3) [OF this]
  have td: "timers_ok s2" "delay_ok s2" using slot_coreD(3,4) [OF core] by (simp_all add: timers_ok_def delay_ok_def pd fr)
  have gr: "\<not> inBand (gheap s2 r)" "\<not> locked (gheap s2 r)" "gid (gheap s2 r) = gid (gheap s r)"
    using T by (simp_all add: pd)
  have hd: "\<exists>m ms. dq_list (msgs (gheap s r)) = m # ms \<and> Priority m = p" using T by blast
  have eqs: "inflight s2 = inflight s" "delayed s2 = delayed s" "timers s2 = timers s" "epochSeq s2 = epochSeq s"
    "sid s2 = sid s" "groups s2 = groups s" by (simp_all add: pd fr)
  show thesis
    by (rule that [OF P(1) l2 td refs2 T(1) gr T(2,3,6) pd(1) pd(4) dq pd(3) hd ready eqs g2 other])
qed

lemma take_msg_cases:
  assumes inv: "slot_inv s" and p: "p < 128" and t: "take_msg s p now vis = (s', res)"
  obtains (none) dead where "res = None" "slot_ok s'" "\<forall>m \<in> set dead. expired m now"
      "ready_ms s = ready_ms s' + mset dead" "inflight s' = inflight s" "delayed s' = delayed s"
      "dead = [] \<longrightarrow> (\<forall>r \<in> refs s. inBand (gheap s r) \<longrightarrow> band (gheap s r) \<noteq> p)" "epochSeq s' = epochSeq s"
      "timers s' = timers s" "sid s' = sid s"
    | (some) r dead m rest l where
      "res = Some (m\<lparr>Attempts := Attempts m + 1\<rparr>, \<lparr>Slot = sid s, MessageID = ID m, Epoch = epochSeq s + 1, Incarnation = 0\<rparr>)"
      "slot_ok s'" "r \<in> refs s" "inBand (gheap s r)" "band (gheap s r) = p" "\<not> locked (gheap s r)"
      "dq_list (msgs (gheap s r)) = dead @ m # rest" "\<forall>m \<in> set dead. expired m now" "\<not> expired m now"
      "Priority (hd (dead @ [m])) = p" "ready_ms s = add_mset m (ready_ms s' + mset dead)"
      "l = \<lparr>l_msg = m\<lparr>Attempts := Attempts m + 1\<rparr>, l_g = r, l_epoch = epochSeq s + 1, l_deadline = now + vis\<rparr>"
      "inflight s' = inflight s @ [(ID m, l)]" "ID m \<notin> fst ` set (inflight s)" "delayed s' = delayed s"
      "epochSeq s' = epochSeq s + 1" "timers s' = heap_push t_at (timers s) (timer_of (ID m) l)"
      "locked (gheap s' r)" "dq_list (msgs (gheap s' r)) = rest" "gid (gheap s' r) = gid (gheap s r)"
      "refs s' = refs s" "\<And>r'. r' \<noteq> r \<Longrightarrow> gheap s' r' = gheap s r'" "sid s' = sid s"
proof -
  note core = slot_inv_core [OF inv]
  note b = slot_coreD(1) [OF core]
  obtain s1 r1 where tg: "takeGroup s p = (s1, r1)" by (cases "takeGroup s p")
  note fr = takeGroup_frame [OF tg]
  show thesis
  proof (cases r1)
    case None
    have N: "gheap s1 = gheap s \<and> band_ok {} s1 \<and> (\<forall>r \<in> refs s. inBand (gheap s r) \<longrightarrow> band (gheap s r) \<noteq> p)"
      by (rule takeGroup_cases [OF b p tg]) (use None in auto)
    have s': "s' = refreshHint s1" "res = None" using t tg None by (simp_all add: take_msg_def)
    have refs: "refs s1 = refs s" by (simp add: refs_def fr)
    have l: "lease_ok {} s1" by (rule lease_ok_cong [OF slot_coreD(2) [OF core] refs]) (use N fr in simp_all)
    have r: "ready_ms s1 = ready_ms s" by (rule ready_ms_cong) (use N fr in simp_all)
    have "flight_ms s1 = flight_ms s" "delayed_ms s1 = delayed_ms s" by (simp_all add: flight_ms_def delayed_ms_def fr)
    then have "slot_inv s1" using inv N l r
      by (simp add: slot_inv_def slot_core_def fr held_def timers_ok_def delay_ok_def)
    then show thesis using none [of "[]"] N s' r fr by (simp add: slot_ok_refreshHint)
  next
    case (Some r)
    with tg have tg: "takeGroup s p = (s1, Some r)" by simp
    obtain s2 r2 where pf: "pop_fresh s1 r now = (s2, r2)" by (cases "pop_fresh s1 r now")
    from take_front [OF inv p tg pf] obtain dead where F:
      "band_ok {r} s2" "lease_ok {} s2" "timers_ok s2" "delay_ok s2" "refs s2 = refs s" "r \<in> refs s"
      "\<not> inBand (gheap s2 r)" "\<not> locked (gheap s2 r)" "gid (gheap s2 r) = gid (gheap s r)"
      "inBand (gheap s r)" "band (gheap s r) = p" "\<not> locked (gheap s r)"
      "\<forall>m \<in> set dead. expired m now"
      "dq_list (msgs (gheap s r)) = dead @ (case r2 of None \<Rightarrow> [] | Some m \<Rightarrow> m # dq_list (msgs (gheap s2 r)))"
      "\<exists>m ms. dq_list (msgs (gheap s r)) = m # ms \<and> Priority m = p"
      "ready_ms s = ready_ms s2 + mset dead + (case r2 of None \<Rightarrow> {#} | Some m \<Rightarrow> {#m#})"
      "inflight s2 = inflight s" "delayed s2 = delayed s" "timers s2 = timers s" "epochSeq s2 = epochSeq s"
      "sid s2 = sid s" "groups s2 = groups s"
      "gauges (st s2) (ready_ms s2 + (case r2 of None \<Rightarrow> {#} | Some m \<Rightarrow> {#m#})) (flight_ms s) (delayed_ms s)"
      and F1: "\<And>m. r2 = Some m \<Longrightarrow> \<not> expired m now" "r2 = None \<Longrightarrow> dq_list (msgs (gheap s2 r)) = []"
      and other: "\<And>r'. r' \<noteq> r \<Longrightarrow> gheap s2 r' = gheap s r'"
      by metis
    have ms2: "flight_ms s2 = flight_ms s" "delayed_ms s2 = delayed_ms s" by (simp_all add: flight_ms_def delayed_ms_def F)
    show thesis
    proof (cases r2)
      case None
      let ?s = "dropGroupIfIdle s2 r"
      have s': "s' = refreshHint ?s" "res = None" using t tg pf None by (simp_all add: take_msg_def)
      have rr: "r \<in> refs s2" by (simp add: F)
      have 1: "band_ok {} ?s" using band_ok_dropGroupIfIdle [OF F(1) rr] F1(2) [OF None] by simp
      have 2: "lease_ok {} ?s" by (rule lease_ok_dropGroupIfIdle [OF F(2) F(1) rr])
      have 3: "ready_ms ?s = ready_ms s2" using ready_ms_dropGroupIfIdle [OF band_okD(1) [OF F(1)] rr] .
      have h: "held ?s \<subseteq># held s" using F(16) None 3 ms2 by (simp add: held_def)
      have "slot_inv ?s" using 1 2 3 F(3,4,23) ms2 None ids_ok_mono [OF _ h] inv
        by (simp add: slot_inv_def slot_core_def)
      moreover have "dead \<noteq> []" using F(14,15) None by auto
      ultimately show thesis using none [of dead] F(13,16,17,18,19,20,21) None s' 3 by (simp add: slot_ok_refreshHint)
    next
      case (Some m)
      let ?m = "m\<lparr>Attempts := Attempts m + 1\<rparr>"
      let ?l = "\<lparr>l_msg = ?m, l_g = r, l_epoch = epochSeq s + 1, l_deadline = now + vis\<rparr>"
      let ?s3 = "upd_group (s2\<lparr>epochSeq := epochSeq s2 + 1\<rparr>) r (\<lambda>g. g\<lparr>locked := True\<rparr>)"
      let ?s4 = "?s3\<lparr>inflight := AList.update (ID m) ?l (inflight s),
           timers := heap_push t_at (timers s) (timer_of (ID m) ?l)\<rparr>"
      let ?s = "move ?s4 ?m stReady stInFlight"
      have s': "s' = refreshHint ?s"
        "res = Some (?m, \<lparr>Slot = sid s, MessageID = ID m, Epoch = epochSeq s + 1, Incarnation = 0\<rparr>)"
        using t tg pf Some by (simp_all add: take_msg_def Let_def F timer_of_def)
      have bt: "band_ok {r} (s2\<lparr>epochSeq := epochSeq s2 + 1\<rparr>)" using F(1) by simp
      have b3: "band_ok {} ?s3" using band_ok_lock [OF bt, of r] F(7) by simp
      have l3: "lease_ok {r} ?s3" using lease_ok_lock [of "{}" "s2\<lparr>epochSeq := epochSeq s2 + 1\<rparr>" r] F(2) by simp
      have mr: "m \<in> set (dq_list (msgs (gheap s r)))" using F(14) Some by simp
      have mok: "msg_ok (gid (gheap s r)) m" using mr F(6) band_okD(6) [OF b] by (simp add: contents_wf_def)
      have nl: "r \<notin> leased ?s3" using leasedD [OF F(2), of r] F(8) by (auto simp: leased_def F)
      have fresh: "ID m \<notin> fst ` set (inflight s)"
      proof
        assume "ID m \<in> fst ` set (inflight s)"
        then obtain l where l: "(ID m, l) \<in> set (inflight s)" by auto
        have L: "lease_wf s (ID m) l" using l slot_coreD(2) [OF core] by (auto simp: lease_ok_def)
        have "m \<in># held s" using mr F(6) unfolding mem_held mem_ready by blast
        moreover have "l_msg l \<in># flight_ms s" using l unfolding mem_flight by force
        then have "l_msg l \<in># held s" by (simp add: mem_held)
        moreover have "ID (l_msg l) = ID m" using L by (simp add: lease_wf_def)
        moreover have "ids_ok (held s)" using inv by (simp add: slot_inv_def)
        ultimately have "msg_group (l_msg l) = msg_group m" unfolding ids_ok_def by blast
        then have "gid (gheap s (l_g l)) = gid (gheap s r)" using mok L by (simp add: lease_wf_def msg_ok_def)
        then have "l_g l = r" using refs_map_of [OF band_okD(1) [OF b]] L F(6) by (metis lease_wf_def option.inject)
        with L F(12) show False by (simp add: lease_wf_def)
      qed
      have inf: "AList.update (ID m) l (inflight s) = inflight s @ [(ID m, l)]" for l :: lease by (rule AList_update_fresh [OF fresh])
      have "msg_ok (gid (gheap ?s3 r)) ?m" using mok F(9) by (simp add: msg_ok_def)
      then have "lease_ok {} (?s3\<lparr>inflight := AList.update (ID ?m) ?l (inflight ?s3)\<rparr>)"
        by (intro lease_ok_add [OF l3]) (use F nl fresh in simp_all)
      then have l4: "lease_ok {} ?s4" by (rule lease_ok_cong) (simp_all add: F refs_def)
      have t4: "timers_ok ?s4"
      proof -
        have T: "is_heap t_at (timers s)" "distinct (map t_epoch (timers s))"
          "\<And>e. e \<in> set (timers s) \<Longrightarrow> t_epoch e \<le> epochSeq s"
          "\<And>x. x \<in> set (inflight s) \<Longrightarrow> timer_of (fst x) (snd x) \<in> set (timers s)"
          using slot_coreD(3) [OF core] by (simp_all add: timers_ok_def)
        let ?t = "heap_push t_at (timers s) (timer_of (ID m) ?l)"
        have "mset (map t_epoch ?t) = add_mset (epochSeq s + 1) (mset (map t_epoch (timers s)))"
          by (simp add: timer_of_def)
        moreover have "epochSeq s + 1 \<notin> set (map t_epoch (timers s))" using T(3) by fastforce
        ultimately have "distinct (map t_epoch ?t)" using T(2)
          by (metis distinct.simps(2) mset.simps(2) mset_eq_imp_distinct_iff)
        moreover have "t_epoch e \<le> epochSeq s + 1" if "e \<in> set ?t" for e
          using that T(3) [of e] by (auto simp: timer_of_def)
        moreover have "timer_of (fst x) (snd x) \<in> set ?t" if "x \<in> set (inflight s @ [(ID m, ?l)])" for x
          using that T(4) by auto
        ultimately show ?thesis using T(1) by (simp add: timers_ok_def F inf)
      qed
      have r4: "ready_ms ?s4 = ready_ms s2" by (rule ready_ms_cong) (simp_all add: refs_def)
      have "flight_ms ?s4 = add_mset ?m (flight_ms s)" by (simp add: flight_ms_def inf)
      moreover have "gauges (st ?s) (ready_ms s2) (add_mset ?m (flight_ms s)) (delayed_ms s)"
        by (rule gauges_lease(1) [where m' = m]) (use F(23) Some in simp_all)
      moreover have "image_mset core (ready_ms s2 + add_mset ?m (flight_ms s) + delayed_ms s) \<subseteq># image_mset core (held s)"
        using F(16) Some by (simp add: held_def)
      then have "ids_ok (ready_ms s2 + add_mset ?m (flight_ms s) + delayed_ms s)"
        by (rule ids_ok_sub) (use inv in \<open>simp add: slot_inv_def\<close>)
      moreover have "delayed_ms ?s4 = delayed_ms s" using ms2 by (simp add: delayed_ms_def)
      moreover have "delay_ok ?s4" using F(4) by (simp add: delay_ok_def)
      moreover have "band_ok {} ?s4" using b3 by (rule iffD2 [OF band_ok_cong, rotated 5]) simp_all
      ultimately have "slot_inv ?s" using l4 t4 r4 by (simp add: slot_inv_def slot_core_def held_def)
      then have ok: "slot_ok s'" using s'(1) by (simp add: slot_ok_refreshHint)
      have q: "dq_list (msgs (gheap s r)) = dead @ m # dq_list (msgs (gheap s2 r))" using F(14) Some by simp
      have h: "Priority (hd (dead @ [m])) = p" using F(15) q by (cases dead) auto
      show thesis
        by (rule some [OF s'(2) ok F(6,10,11,12) q F(13) F1(1) [OF Some] h _ refl _ fresh])
          (use F s'(1) r4 Some inf other in \<open>simp_all add: refs_def\<close>)
    qed
  qed
qed

subsection \<open>A lease handed back\<close>

text \<open>A lease that has been removed from \<open>inflight\<close>: its group is still locked and its message is
  counted as in flight.\<close>

definition lease_out :: "slot \<Rightarrow> lease \<Rightarrow> bool" where
  "lease_out s l \<longleftrightarrow> band_ok {} s \<and> lease_ok {l_g l} s \<and> l_g l \<notin> leased s \<and> l_g l \<in> refs s \<and>
     locked (gheap s (l_g l)) \<and> msg_ok (gid (gheap s (l_g l))) (l_msg l) \<and> timers_ok s \<and> delay_ok s \<and>
     gauges (st s) (ready_ms s) (add_mset (l_msg l) (flight_ms s)) (delayed_ms s) \<and>
     ids_ok (add_mset (l_msg l) (held s))"

lemma flight_ms_delete:
  assumes "lease_ok X s" and "map_of (inflight s) i = Some l"
  shows "flight_ms s = add_mset (l_msg l) (flight_ms (s\<lparr>inflight := AList.delete i (inflight s)\<rparr>))"
  using sum_al_delete [of "inflight s" i l "\<lambda>l. {#l_msg l#}"] assms by (simp add: flight_ms_def lease_ok_def)

lemma out_delete:
  assumes inv: "slot_inv s" and l: "map_of (inflight s) i = Some l"
  shows "lease_out (s\<lparr>inflight := AList.delete i (inflight s)\<rparr>) l"
proof -
  let ?s = "s\<lparr>inflight := AList.delete i (inflight s)\<rparr>"
  note core = slot_inv_core [OF inv]
  note lo = slot_coreD(2) [OF core]
  note L = lease_ok_lookup [OF lo l] and D = lease_ok_delete [OF lo l]
  have f: "flight_ms s = add_mset (l_msg l) (flight_ms ?s)" by (rule flight_ms_delete [OF lo l])
  have "held s = add_mset (l_msg l) (held ?s)" by (simp add: held_def f)
  with inv f have "gauges (st ?s) (ready_ms ?s) (add_mset (l_msg l) (flight_ms ?s)) (delayed_ms ?s)"
    "ids_ok (add_mset (l_msg l) (held ?s))" by (simp_all add: slot_inv_def)
  with L D slot_coreD [OF core] show ?thesis
    by (simp add: lease_out_def timers_ok_delete)
qed

lemma out_unlock:
  assumes "lease_out s l"
  shows "band_ok {} (unlock s (l_g l))" "lease_ok {} (unlock s (l_g l))" "timers_ok (unlock s (l_g l))"
    "delay_ok (unlock s (l_g l))" "ready_ms (unlock s (l_g l)) = ready_ms s"
proof -
  note o = assms [unfolded lease_out_def]
  have b: "band_ok {} s" and r: "l_g l \<in> refs s" "locked (gheap s (l_g l))" using o by simp_all
  show "band_ok {} (unlock s (l_g l))" using band_ok_unlock_step [OF b r] by simp
  show "lease_ok {} (unlock s (l_g l))"
    by (rule lease_ok_unlock [OF _ b]) (use o in simp_all)
  show "timers_ok (unlock s (l_g l))" "delay_ok (unlock s (l_g l))" using o by simp_all
  show "ready_ms (unlock s (l_g l)) = ready_ms s" using band_okD(1) [OF b] r by simp
qed

lemma unlock_msgs [simp]: "msgs (gheap (unlock s r) r') = msgs (gheap s r')"
  by (simp add: unlock_def Let_def)

lemma unlock_listed:
  assumes "dq_list (msgs (gheap s r)) \<noteq> []"
  shows "inBand (gheap (unlock s r) r)" "refs (unlock s r) = refs s"
proof -
  show "refs (unlock s r) = refs s" using assms by (simp add: unlock_def Let_def)
  show "inBand (gheap (unlock s r) r)"
    using assms by (auto simp: unlock_def Let_def pushGroup_def neq_Nil_conv)
qed

text \<open>A message that leaves the slot from its lease.\<close>

lemma out_gone:
  assumes o: "lease_out s l" and t: "t = (st (move s (l_msg l) stInFlight stAbsent))\<lparr>n_acked := a, n_expired := e, n_deadLettered := d\<rparr>"
  shows "slot_inv (unlock (s\<lparr>st := t\<rparr>) (l_g l))"
    "ready_ms (unlock (s\<lparr>st := t\<rparr>) (l_g l)) = ready_ms s"
proof -
  let ?s = "s\<lparr>st := t\<rparr>"
  have "gauges (st s) (ready_ms s) (add_mset (l_msg l) (flight_ms s)) (delayed_ms s)" using o by (simp add: lease_out_def)
  then have g: "gauges t (ready_ms s) (flight_ms s) (delayed_ms s)"
    using gauges_out(2) [of s "ready_ms s" "l_msg l" "flight_ms s" "delayed_ms s"] by (simp add: t)
  have bt: "band_ok {} ?s" and r: "l_g l \<in> refs ?s" "locked (gheap ?s (l_g l))" using o by (simp_all add: lease_out_def)
  have 1: "band_ok {} (unlock ?s (l_g l))" using band_ok_unlock_step [OF bt r] by simp
  have 2: "lease_ok {} (unlock ?s (l_g l))"
    by (rule lease_ok_unlock [OF _ bt]) (use o in \<open>simp_all add: lease_out_def leased_def\<close>)
  show 3: "ready_ms (unlock ?s (l_g l)) = ready_ms s" using band_okD(1) [OF bt] r by simp
  have "held s \<subseteq># add_mset (l_msg l) (held s)" by simp
  then have "ids_ok (held s)" using o ids_ok_mono unfolding lease_out_def by blast
  with 1 2 3 g o show "slot_inv (unlock ?s (l_g l))"
    by (simp add: slot_inv_def slot_core_def lease_out_def held_def)
qed

lemma ack_cases:
  assumes ok: "slot_ok s" and a: "ack s r = (s', res)"
  obtains (none) "res = Some ErrNotInFlight" "s' = s" "map_of (inflight s) (MessageID r) = None"
    | (stale) l where "res = Some ErrLeaseExpired" "s' = s" "map_of (inflight s) (MessageID r) = Some l" "l_epoch l \<noteq> Epoch r"
    | (acked) l where "res = None" "slot_ok s'" "map_of (inflight s) (MessageID r) = Some l" "l_epoch l = Epoch r"
        "inflight s' = AList.delete (MessageID r) (inflight s)" "ready_ms s' = ready_ms s" "delayed s' = delayed s"
        "flight_ms s = add_mset (l_msg l) (flight_ms s')"
proof (cases "map_of (inflight s) (MessageID r)")
  case None
  with none a show thesis by (simp add: ack_def)
next
  case (Some l)
  show thesis
  proof (cases "l_epoch l = Epoch r")
    case False
    with Some stale a show thesis by (simp add: ack_def)
  next
    case True
    let ?s0 = "s\<lparr>inflight := AList.delete (MessageID r) (inflight s)\<rparr>"
    let ?t = "(st (move ?s0 (l_msg l) stInFlight stAbsent))\<lparr>n_acked := n_acked (st s) + 1\<rparr>"
    have n: "n_acked (st (move ?s0 (l_msg l) stInFlight stAbsent)) = n_acked (st s)"
      by (simp add: move_def move_from_def move_to_def)
    have m: "(move ?s0 (l_msg l) stInFlight stAbsent)\<lparr>st := t\<rparr> = ?s0\<lparr>st := t\<rparr>" for t by (simp add: move_def)
    have s': "s' = refreshHint (unlock (?s0\<lparr>st := ?t\<rparr>) (l_g l))" "res = None"
      using a Some True n m by (simp_all add: ack_def Let_def)
    note o = out_delete [OF slot_okD(1) [OF ok] Some]
    have t: "?t = (st (move ?s0 (l_msg l) stInFlight stAbsent))\<lparr>n_acked := n_acked (st s) + 1,
      n_expired := n_expired ?t, n_deadLettered := n_deadLettered ?t\<rparr>" by simp
    note G = out_gone [OF o t]
    have f: "flight_ms s = add_mset (l_msg l) (flight_ms ?s0)"
      by (rule flight_ms_delete [OF slot_coreD(2) [OF slot_okD(2) [OF ok]] Some])
    show thesis
      by (rule acked [OF s'(2) _ Some True]) (use G s'(1) f in \<open>simp_all add: slot_ok_refreshHint\<close>)
  qed
qed

lemma retire_cases:
  assumes o: "lease_out s l" and t: "retire s l now mr delay dl = (s', dead, bk)"
  obtains (expired) "expired (l_msg l) now" "dead = None" "\<not> bk" "slot_inv s'" "flight_ms s' = flight_ms s"
        "ready_ms s' = ready_ms s" "delayed_ms s' = delayed_ms s"
    | (dead) "\<not> expired (l_msg l) now" "Attempts (l_msg l) \<ge> mr" "dl" "dead = Some (l_msg l)" "\<not> bk" "slot_inv s'"
        "flight_ms s' = flight_ms s" "ready_ms s' = ready_ms s" "delayed_ms s' = delayed_ms s"
    | (delayed) "\<not> expired (l_msg l) now" "\<not> (Attempts (l_msg l) \<ge> mr \<and> dl)" "delay > 0" "dead = None" "bk" "slot_inv s'"
        "flight_ms s' = flight_ms s" "ready_ms s' = ready_ms s"
        "delayed_ms s' = add_mset ((l_msg l)\<lparr>DeliverAfter := now + delay\<rparr>) (delayed_ms s)"
    | (front) "\<not> expired (l_msg l) now" "\<not> (Attempts (l_msg l) \<ge> mr \<and> dl)" "\<not> delay > 0" "dead = None" "bk" "slot_inv s'"
        "flight_ms s' = flight_ms s" "ready_ms s' = add_mset (l_msg l) (ready_ms s)" "delayed_ms s' = delayed_ms s"
        "dq_list (msgs (gheap s' (l_g l))) = l_msg l # dq_list (msgs (gheap s (l_g l)))" "inBand (gheap s' (l_g l))"
        "l_g l \<in> refs s'"
proof -
  let ?r = "l_g l" and ?m = "l_msg l"
  have rr: "?r \<in> refs s" "locked (gheap s ?r)" and b: "band_ok {} s" using o by (simp_all add: lease_out_def)
  have ids: "ids_ok (add_mset ?m (held s))" and g: "gauges (st s) (ready_ms s) (add_mset ?m (flight_ms s)) (delayed_ms s)"
    and pm: "Priority ?m \<le> 100" using o by (simp_all add: lease_out_def msg_ok_def)
  have cnt: "n_expired (st (move s ?m x y)) = n_expired (st s)" "n_deadLettered (st (move s ?m x y)) = n_deadLettered (st s)" for x y
    by (simp_all add: move_def move_from_def move_to_def split: msgState.splits)
  have mv: "(move s ?m x y)\<lparr>st := t\<rparr> = s\<lparr>st := t\<rparr>" for t x y by (simp add: move_def)
  consider (1) "Message.expired ?m now" | (2) "\<not> Message.expired ?m now" "Attempts ?m \<ge> mr \<and> dl"
    | (3) "\<not> Message.expired ?m now" "\<not> (Attempts ?m \<ge> mr \<and> dl)" "delay > 0"
    | (4) "\<not> Message.expired ?m now" "\<not> (Attempts ?m \<ge> mr \<and> dl)" "\<not> delay > 0" by blast
  then show thesis
  proof cases
    case 1
    let ?t = "(st (move s ?m stInFlight stAbsent))\<lparr>n_expired := n_expired (st s) + 1\<rparr>"
    have s': "s' = unlock (s\<lparr>st := ?t\<rparr>) ?r" "dead = None" "\<not> bk"
      using t 1 mv cnt by (auto simp: retire_def Let_def)
    have "?t = (st (move s ?m stInFlight stAbsent))\<lparr>n_acked := n_acked ?t, n_expired := n_expired (st s) + 1,
      n_deadLettered := n_deadLettered ?t\<rparr>" by simp
    note G = out_gone [OF o this]
    show thesis by (rule expired [OF 1 s'(2,3)]) (use G s'(1) in simp_all)
  next
    case 2
    let ?t = "(st (move s ?m stInFlight stAbsent))\<lparr>n_deadLettered := n_deadLettered (st s) + 1\<rparr>"
    have s': "s' = unlock (s\<lparr>st := ?t\<rparr>) ?r" "dead = Some ?m" "\<not> bk"
      using t 2 mv cnt by (auto simp: retire_def Let_def)
    have "?t = (st (move s ?m stInFlight stAbsent))\<lparr>n_acked := n_acked ?t, n_expired := n_expired ?t,
      n_deadLettered := n_deadLettered (st s) + 1\<rparr>" by simp
    note G = out_gone [OF o this]
    show thesis by (rule dead [OF 2(1) _ _ s'(2,3)]) (use 2 G s'(1) in simp_all)
  next
    case 3
    let ?m' = "?m\<lparr>DeliverAfter := now + delay\<rparr>"
    let ?h = "s\<lparr>delayed := heap_push d_at (delayed s) \<lparr>d_msg = ?m', d_at = DeliverAfter ?m'\<rparr>\<rparr>"
    let ?s2 = "(hold s ?m' stInFlight)\<lparr>st := (st (hold s ?m' stInFlight))\<lparr>n_requeued := n_requeued (st (hold s ?m' stInFlight)) + 1\<rparr>\<rparr>"
    have s': "s' = unlock ?s2 ?r" "dead = None" "bk"
      using t 3 by (auto simp: retire_def Let_def)
    have "gauges (st (move ?h ?m' stInFlight stDelayed)) (ready_ms s) (flight_ms s) (add_mset ?m' (delayed_ms s))"
      by (rule gauges_lease(3) [where m' = ?m]) (use g in simp_all)
    then have g2: "gauges (st ?s2) (ready_ms s) (flight_ms s) (add_mset ?m' (delayed_ms s))"
      by (simp add: hold_def)
    have bt: "band_ok {} ?s2" and r2: "?r \<in> refs ?s2" "locked (gheap ?s2 ?r)" using b rr by simp_all
    have 1: "band_ok {} (unlock ?s2 ?r)" using band_ok_unlock_step [OF bt r2] by simp
    have 2: "lease_ok {} (unlock ?s2 ?r)"
      by (rule lease_ok_unlock [OF _ bt r2(1)]) (use o in \<open>simp_all add: lease_out_def leased_def\<close>)
    have rd: "ready_ms (unlock ?s2 ?r) = ready_ms s" using band_okD(1) [OF bt] r2 by simp
    have "ids_ok (add_mset ?m' (held s))" by (rule ids_ok_sub [OF _ ids]) simp
    with 1 2 rd g2 o pm have "slot_inv s'"
      by (simp add: slot_inv_def slot_core_def lease_out_def held_def s'(1))
    then show thesis by (intro delayed [OF 3 s'(2,3)]) (use rd s'(1) in simp_all)
  next
    case 4
    let ?s1 = "upd_group s ?r (\<lambda>g. g\<lparr>msgs := pushFront (msgs g) ?m\<rparr>)"
    let ?s2 = "(move ?s1 ?m stInFlight stReady)\<lparr>st := (st (move ?s1 ?m stInFlight stReady))\<lparr>n_requeued := n_requeued (st (move ?s1 ?m stInFlight stReady)) + 1\<rparr>\<rparr>"
    have s': "s' = unlock ?s2 ?r" "dead = None" "bk"
      using t 4 by (auto simp: retire_def Let_def)
    have wf: "dq_wf (msgs (gheap s ?r))" using groups_wf_dq [OF band_okD(1) [OF b]] .
    have ni: "\<not> inBand (gheap s ?r)" using band_okD(4) [OF b] rr by (auto simp: listed_wf_def)
    have "band_ok {} (upd_group s ?r (\<lambda>g. g\<lparr>msgs := pushFront (msgs (gheap s ?r)) ?m\<rparr>))"
      by (rule band_ok_upd_msgs [OF b])
        (use wf ni rr o band_okD(6) [OF b] in \<open>auto simp: lease_out_def contents_wf_def\<close>)
    then have "band_ok {} ?s1" by (simp add: upd_group_def)
    then have bt: "band_ok {} ?s2" and r2: "?r \<in> refs ?s2" "locked (gheap ?s2 ?r)" using rr by simp_all
    have "ready_ms ?s1 + mset (dq_list (msgs (gheap s ?r))) = ready_ms s + mset (?m # dq_list (msgs (gheap s ?r)))"
      using ready_ms_upd_msgs [OF band_okD(1) [OF b] rr(1), of "\<lambda>g. g\<lparr>msgs := pushFront (msgs g) ?m\<rparr>"] wf by simp
    then have rd1: "ready_ms ?s1 = add_mset ?m (ready_ms s)" by simp
    have "gauges (st (move ?s1 ?m stInFlight stReady)) (add_mset ?m (ready_ms s)) (flight_ms s) (delayed_ms s)"
      by (rule gauges_lease(2) [where m' = ?m]) (use g in simp_all)
    then have g2: "gauges (st ?s2) (add_mset ?m (ready_ms s)) (flight_ms s) (delayed_ms s)" by simp
    have 1: "band_ok {} (unlock ?s2 ?r)" using band_ok_unlock_step [OF bt r2] by simp
    have "lease_ok {?r} ?s1" by (rule lease_ok_upd_group) (use o in \<open>simp_all add: lease_out_def\<close>)
    then have 2: "lease_ok {} (unlock ?s2 ?r)"
      by (intro lease_ok_unlock [OF _ bt r2(1)]) (use o in \<open>simp_all add: lease_out_def leased_def\<close>)
    have rd: "ready_ms (unlock ?s2 ?r) = add_mset ?m (ready_ms s)" using band_okD(1) [OF bt] r2 rd1 by simp
    have inv: "slot_inv s'" using 1 2 rd g2 o ids
      by (simp add: slot_inv_def slot_core_def lease_out_def held_def s'(1))
    have "dq_list (msgs (gheap ?s2 ?r)) = ?m # dq_list (msgs (gheap s ?r))" using wf by simp
    with unlock_listed [of ?s2 ?r] s'(1) rr
    have "dq_list (msgs (gheap s' ?r)) = ?m # dq_list (msgs (gheap s ?r))" "inBand (gheap s' ?r)" "?r \<in> refs s'"
      by simp_all
    then show thesis by (intro front [OF 4 s'(2,3) inv]) (use rd s'(1) wf in simp_all)
  qed
qed

lemma nack_cases:
  assumes ok: "slot_ok s" and a: "nack s r delay now mr dl = (s', res)"
  obtains (none) "res = Inl ErrNotInFlight" "s' = s" "map_of (inflight s) (MessageID r) = None"
    | (stale) l where "res = Inl ErrLeaseExpired" "s' = s" "map_of (inflight s) (MessageID r) = Some l" "l_epoch l \<noteq> Epoch r"
    | (nacked) l s0 s1 dead bk where "res = Inr dead" "slot_ok s'" "map_of (inflight s) (MessageID r) = Some l" "l_epoch l = Epoch r"
        "s0 = s\<lparr>inflight := AList.delete (MessageID r) (inflight s)\<rparr>" "retire s0 l now mr delay dl = (s1, dead, bk)"
        "s' = refreshHint s1" "lease_out s0 l" "flight_ms s = add_mset (l_msg l) (flight_ms s0)" "slot_inv s1"
proof (cases "map_of (inflight s) (MessageID r)")
  case None
  with none a show thesis by (simp add: nack_def)
next
  case (Some l)
  show thesis
  proof (cases "l_epoch l = Epoch r")
    case False
    with Some stale a show thesis by (simp add: nack_def)
  next
    case True
    let ?s0 = "s\<lparr>inflight := AList.delete (MessageID r) (inflight s)\<rparr>"
    obtain s1 dead bk where rt: "retire ?s0 l now mr delay dl = (s1, dead, bk)"
      by (cases "retire ?s0 l now mr delay dl")
    have s': "s' = refreshHint s1" "res = Inr dead" using a Some True rt by (simp_all add: nack_def Let_def)
    note o = out_delete [OF slot_okD(1) [OF ok] Some]
    have f: "flight_ms s = add_mset (l_msg l) (flight_ms ?s0)"
      by (rule flight_ms_delete [OF slot_coreD(2) [OF slot_okD(2) [OF ok]] Some])
    have inv: "slot_inv s1" by (rule retire_cases [OF o rt])
    show thesis
      by (rule nacked [OF s'(2) _ Some True refl rt s'(1) o f inv]) (use inv s'(1) in \<open>simp add: slot_ok_refreshHint\<close>)
  qed
qed

end
