(* ===== verification/SlotTimers.thy ===== *)
theory SlotTimers
  imports SlotOps
begin

text \<open>
  The sweeps of a slot keep its invariant and do what the clock asks: \<open>sweepLeases\<close> ends exactly the
  leases past their deadline, \<open>sweepTTL\<close> leaves no expired message at the head of a group,
  \<open>releaseDelayed\<close> moves exactly the due messages.  \<open>copyAll\<close> and \<open>drain\<close> yield all that is held.
\<close>

subsection \<open>Expired leases\<close>

lemma timers_pop:
  assumes "timers_ok s" "timers s \<noteq> []" "heap_pop t_at (timers s) = (e, h)"
  shows "e = timers s ! 0" "mset (timers s) = add_mset e (mset h)" "is_heap t_at h" "distinct (map t_epoch h)"
    "e \<in> set (timers s)" "set h = set (timers s) - {e}"
    "x \<in> set (timers s) \<Longrightarrow> t_epoch x = t_epoch e \<Longrightarrow> x = e"
proof -
  have P: "e = timers s ! 0 \<and> mset (timers s) = add_mset e (mset h) \<and> is_heap t_at h"
    by (rule heap_pop_props [OF assms(2) _ assms(3)]) (use assms(1) in \<open>simp add: timers_ok_def\<close>)
  then show "e = timers s ! 0" "mset (timers s) = add_mset e (mset h)" "is_heap t_at h" by simp_all
  have "mset (map t_epoch (timers s)) = mset (map t_epoch (e # h))" using P by simp
  moreover have "distinct (map t_epoch (timers s))" using assms(1) by (simp add: timers_ok_def)
  ultimately have d: "distinct (map t_epoch (e # h))" by (metis mset_eq_imp_distinct_iff)
  then show "distinct (map t_epoch h)" by simp
  have st: "set (timers s) = insert e (set h)" using P by (metis set_mset_add_mset_insert set_mset_mset)
  then show "e \<in> set (timers s)" by simp
  show "set h = set (timers s) - {e}" using st d by auto
  show "x \<in> set (timers s) \<Longrightarrow> t_epoch x = t_epoch e \<Longrightarrow> x = e" using st d by (metis (no_types, lifting) distinct.simps(2) image_eqI insert_iff list.simps(9) list.set_map)
qed

text \<open>One timer popped: either no lease owns it, or its lease is taken out.\<close>

lemma timers_step_stale:
  assumes inv: "slot_inv s" and h: "timers s \<noteq> []" "heap_pop t_at (timers s) = (e, h)"
    and n: "\<And>l. map_of (inflight s) (t_id e) = Some l \<Longrightarrow> l_epoch l \<noteq> t_epoch e"
  shows "slot_inv (s\<lparr>timers := h\<rparr>)"
proof -
  have t: "timers_ok s" and lo: "lease_ok {} s" using inv slot_inv_core slot_coreD by blast+
  note P = timers_pop [OF t h]
  have "timer_of (fst x) (snd x) \<in> set h" if x: "x \<in> set (inflight s)" for x
  proof -
    have "timer_of (fst x) (snd x) \<in> set (timers s)" using t x by (simp add: timers_ok_def)
    moreover have "timer_of (fst x) (snd x) \<noteq> e"
    proof
      assume e: "timer_of (fst x) (snd x) = e"
      have "map_of (inflight s) (fst x) = Some (snd x)" using lo x by (simp add: lease_ok_def)
      with n [of "snd x"] e show False by (auto simp: timer_of_def)
    qed
    ultimately show ?thesis by (simp add: P(6))
  qed
  then have "timers_ok (s\<lparr>timers := h\<rparr>)" using t P(3,4,6) by (auto simp: timers_ok_def)
  with inv show ?thesis by (simp add: slot_inv_def slot_core_def flight_ms_def)
qed

lemma timers_step_lease:
  assumes inv: "slot_inv s" and h: "timers s \<noteq> []" "heap_pop t_at (timers s) = (e, h)"
    and l: "map_of (inflight s) (t_id e) = Some l" "l_epoch l = t_epoch e"
  shows "lease_out (s\<lparr>timers := h, inflight := AList.delete (t_id e) (inflight s)\<rparr>) l" and "t_at e = l_deadline l"
proof -
  have t: "timers_ok s" and lo: "lease_ok {} s" using inv slot_inv_core slot_coreD by blast+
  note P = timers_pop [OF t h]
  have "(t_id e, l) \<in> set (inflight s)" using l(1) by (rule map_of_SomeD)
  then have tl: "timer_of (t_id e) l \<in> set (timers s)" using t by (force simp: timers_ok_def)
  then have te: "timer_of (t_id e) l = e" by (rule P(7)) (simp add: timer_of_def l)
  then show "t_at e = l_deadline l" by (metis timer_of_def timerEntry.select_convs(3))
  let ?s = "s\<lparr>inflight := AList.delete (t_id e) (inflight s)\<rparr>"
  have o: "lease_out ?s l" by (rule out_delete [OF inv l(1)])
  have "timer_of (fst x) (snd x) \<in> set h" if x: "x \<in> set (inflight ?s)" for x
  proof -
    have "x \<in> set (inflight s)" "fst x \<noteq> t_id e" using x by (auto simp: AList.delete_eq)
    then show ?thesis using t by (auto simp: P(6) timers_ok_def timer_of_def)
  qed
  then have "timers_ok (?s\<lparr>timers := h\<rparr>)" using t P(3,4,6) by (auto simp: timers_ok_def)
  moreover have "s\<lparr>timers := h, inflight := AList.delete (t_id e) (inflight s)\<rparr> = ?s\<lparr>timers := h\<rparr>" by simp
  ultimately show "lease_out (s\<lparr>timers := h, inflight := AList.delete (t_id e) (inflight s)\<rparr>) l"
    using o by (simp only: lease_out_def) (simp add: leased_def flight_ms_def held_def)
qed

lemma retire_sweep:
  assumes o: "lease_out s l" and t: "retire s l now mr 0 dl = (s', m, bk)"
  obtains gone where "slot_inv s'" "inflight s' = inflight s" "\<forall>x \<in># gone. expired x now"
    "add_mset (l_msg l) (held s) = held s' + gone + (case m of None \<Rightarrow> {#} | Some x \<Rightarrow> {#x#})"
    "\<And>x. m = Some x \<Longrightarrow> Attempts x \<ge> mr \<and> dl \<and> \<not> expired x now" "timers s' = timers s"
proof -
  note fr = retire_frame [OF t]
  show thesis
    by (rule retire_cases [OF o t])
      (rule that [of "{#l_msg l#}"] that [of "{#}"]; use fr in \<open>simp add: held_def\<close>)+
qed

lemma sweepLeases_loop_spec:
  assumes "slot_inv s" "sweepLeases_loop s now mr dl dead n = (s', dead', n')"
  shows "slot_inv s' \<and> (\<forall>e \<in> set (timers s'). now < t_at e) \<and>
    inflight s' = filter (\<lambda>x. now < l_deadline (snd x)) (inflight s) \<and>
    (\<exists>new gone. dead' = dead @ new \<and> (\<forall>m \<in># gone. expired m now) \<and>
       (\<forall>m \<in> set new. Attempts m \<ge> mr \<and> dl \<and> \<not> expired m now) \<and>
       held s = held s' + gone + mset new)"
  using assms
proof (induction s now mr dl dead n arbitrary: s' dead' n' rule: sweepLeases_loop.induct)
  case (1 s now mr dl dead n)
  note inv = 1(4)
  have t: "timers_ok s" and lo: "lease_ok {} s" using inv slot_inv_core slot_coreD by blast+
  show ?case
  proof (cases "timers s \<noteq> [] \<and> \<not> now < t_at (timers s ! 0)")
    case False
    then have r: "s' = s" "dead' = dead" using 1(5) by (subst (asm) sweepLeases_loop.simps, force)+
    have all: "now < t_at e" if "e \<in> set (timers s)" for e
      using heap_root_min [of t_at "timers s" e] that t False by (force simp: timers_ok_def)
    have "now < l_deadline (snd x)" if "x \<in> set (inflight s)" for x
      using all [of "timer_of (fst x) (snd x)"] that t by (simp add: timers_ok_def) (simp add: timer_of_def)
    then have "filter (\<lambda>x. now < l_deadline (snd x)) (inflight s) = inflight s" by simp
    with r all inv show ?thesis by (auto intro!: exI [of _ "[]"] exI [of _ "{#}"])
  next
    case True
    then have ne: "timers s \<noteq> []" and due: "\<not> now < t_at (timers s ! 0)" by auto
    obtain e h where eh: "heap_pop t_at (timers s) = (e, h)" by (cases "heap_pop t_at (timers s)")
    note P = timers_pop [OF t ne eh]
    let ?s1 = "s\<lparr>timers := h\<rparr>"
    show ?thesis
    proof (cases "\<exists>l. map_of (inflight s) (t_id e) = Some l \<and> l_epoch l = t_epoch e")
      case False
      have i1: "slot_inv ?s1" by (rule timers_step_stale [OF inv ne eh]) (use False in auto)
      have loop: "sweepLeases_loop s now mr dl dead n = sweepLeases_loop ?s1 now mr dl dead n"
      proof (cases "map_of (inflight s) (t_id e)")
        case None
        with True eh show ?thesis by (subst sweepLeases_loop.simps) simp
      next
        case (Some l)
        with False have "l_epoch l \<noteq> t_epoch e" by auto
        with Some True eh show ?thesis by (subst sweepLeases_loop.simps) simp
      qed
      from 1(5) loop have s': "sweepLeases_loop ?s1 now mr dl dead n = (s', dead', n')" by simp
      have "slot_inv s' \<and> (\<forall>e \<in> set (timers s'). now < t_at e) \<and>
        inflight s' = filter (\<lambda>x. now < l_deadline (snd x)) (inflight ?s1) \<and>
        (\<exists>new gone. dead' = dead @ new \<and> (\<forall>m \<in># gone. expired m now) \<and>
         (\<forall>m \<in> set new. Attempts m \<ge> mr \<and> dl \<and> \<not> expired m now) \<and> held ?s1 = held s' + gone + mset new)"
      proof (cases "map_of (inflight ?s1) (t_id e)")
        case None
        show ?thesis by (rule 1(1) [OF True refl eh [symmetric] refl None i1 s'])
      next
        case (Some l)
        have ne: "l_epoch l \<noteq> t_epoch e" using False Some by auto
        show ?thesis by (rule 1(2) [OF True refl eh [symmetric] refl Some ne i1 s'])
      qed
      then show ?thesis by simp
    next
      case lease: True
      then obtain l where l: "map_of (inflight s) (t_id e) = Some l" "l_epoch l = t_epoch e" by auto
      let ?s2 = "?s1\<lparr>inflight := AList.delete (t_id e) (inflight ?s1)\<rparr>"
      note O = timers_step_lease [OF inv ne eh l]
      obtain s3 m bk where rt: "retire ?s2 l now mr 0 dl = (s3, m, bk)" by (cases "retire ?s2 l now mr 0 dl")
      have o2: "lease_out ?s2 l" using O(1) by simp
      from retire_sweep [OF o2 rt] obtain gone where G: "slot_inv s3" "inflight s3 = inflight ?s2"
        "\<forall>x \<in># gone. expired x now"
        "add_mset (l_msg l) (held ?s2) = held s3 + gone + (case m of None \<Rightarrow> {#} | Some x \<Rightarrow> {#x#})"
        "\<And>x. m = Some x \<Longrightarrow> Attempts x \<ge> mr \<and> dl \<and> \<not> expired x now" by metis
      let ?dead = "case m of None \<Rightarrow> dead | Some m \<Rightarrow> dead @ [m]"
      let ?n = "if bk then n + 1 else n"
      have "sweepLeases_loop s now mr dl dead n = sweepLeases_loop s3 now mr dl ?dead ?n"
        using True l eh rt by (subst sweepLeases_loop.simps) simp
      with 1(5) have s': "sweepLeases_loop s3 now mr dl ?dead ?n = (s', dead', n')" by simp
      have ne2: "\<not> l_epoch l \<noteq> t_epoch e" using l by simp
      have l1: "map_of (inflight ?s1) (t_id e) = Some l" using l by simp
      from 1(3) [OF True refl eh [symmetric] refl l1 ne2 refl refl rt [symmetric] refl G(1) s']
      obtain new gone' where I: "slot_inv s'" "\<forall>e \<in> set (timers s'). now < t_at e"
        "inflight s' = filter (\<lambda>x. now < l_deadline (snd x)) (inflight s3)"
        "dead' = ?dead @ new" "\<forall>m \<in># gone'. expired m now"
        "\<forall>m \<in> set new. Attempts m \<ge> mr \<and> dl \<and> \<not> expired m now" "held s3 = held s' + gone' + mset new"
        by auto
      have fl: "flight_ms s = add_mset (l_msg l) (flight_ms ?s2)"
        using flight_ms_delete [OF lo l(1)] by (simp add: flight_ms_def)
      then have hs: "held s = add_mset (l_msg l) (held ?s2)" by (simp add: held_def)
      have late: "\<not> now < l_deadline l" using due P(1) O(2) by simp
      have "filter (\<lambda>x. now < l_deadline (snd x)) (AList.delete (t_id e) (inflight s))
          = filter (\<lambda>x. now < l_deadline (snd x)) (inflight s)"
        unfolding AList.delete_eq filter_filter
      proof (rule filter_cong [OF refl])
        fix x assume x: "x \<in> set (inflight s)"
        have "snd x = l" if "fst x = t_id e"
        proof -
          have "map_of (inflight s) (fst x) = Some (snd x)" using lo x by (simp add: lease_ok_def)
          with that l show ?thesis by simp
        qed
        with late show "((case x of (k, uu) \<Rightarrow> t_id e \<noteq> k) \<and> now < l_deadline (snd x)) = (now < l_deadline (snd x))"
          by (cases x) auto
      qed
      then have inf: "inflight s' = filter (\<lambda>x. now < l_deadline (snd x)) (inflight s)"
        using I(3) G(2) by simp
      let ?new = "(case m of None \<Rightarrow> [] | Some x \<Rightarrow> [x]) @ new"
      have "dead' = dead @ ?new" using I(4) by (cases m) simp_all
      moreover have "held s = held s' + (gone + gone') + mset ?new"
        using hs G(4) I(7) by (cases m) (simp_all add: ac_simps)
      moreover have "\<forall>x \<in># gone + gone'. expired x now" using G(3) I(5) by auto
      moreover have "\<forall>x \<in> set ?new. Attempts x \<ge> mr \<and> dl \<and> \<not> expired x now"
        using G(5) I(6) by (cases m) auto
      ultimately show ?thesis using I(1,2) inf by blast
    qed
  qed
qed

lemma sweepLeases_spec:
  assumes "slot_inv s" "sweepLeases s now mr dl = (s', dead, n)"
  shows "slot_ok s'" "\<forall>e \<in> set (timers s'). now < t_at e"
    "inflight s' = filter (\<lambda>x. now < l_deadline (snd x)) (inflight s)"
    "\<exists>gone. (\<forall>m \<in># gone. expired m now) \<and> held s = held s' + gone + mset dead"
    "\<forall>m \<in> set dead. Attempts m \<ge> mr \<and> dl \<and> \<not> expired m now"
proof -
  obtain s1 where l: "sweepLeases_loop s now mr dl [] 0 = (s1, dead, n)" and s': "s' = refreshHint s1"
    using assms(2) by (auto simp: sweepLeases_def split: prod.splits)
  from sweepLeases_loop_spec [OF assms(1) l] s'
  show "slot_ok s'" "\<forall>e \<in> set (timers s'). now < t_at e"
    "inflight s' = filter (\<lambda>x. now < l_deadline (snd x)) (inflight s)"
    "\<exists>gone. (\<forall>m \<in># gone. expired m now) \<and> held s = held s' + gone + mset dead"
    "\<forall>m \<in> set dead. Attempts m \<ge> mr \<and> dl \<and> \<not> expired m now"
    by (auto simp: slot_ok_refreshHint)
qed

subsection \<open>Expired messages\<close>

definition fresh_head :: "slot \<Rightarrow> nat \<Rightarrow> time \<Rightarrow> bool" where
  "fresh_head s r now \<longleftrightarrow> (\<forall>m ms. dq_list (msgs (gheap s r)) = m # ms \<longrightarrow> \<not> expired m now)"

lemma upd_group_st: "upd_group (s\<lparr>st := t\<rparr>) r f = (upd_group s r f)\<lparr>st := t\<rparr>"
  by (simp add: upd_group_def)

lemma upd_group_upd: "upd_group (upd_group s r f) r g = upd_group s r (\<lambda>x. g (f x))"
  by (simp add: upd_group_def)

lemma upd_group_id: "f (gheap s r) = gheap s r \<Longrightarrow> upd_group s r f = s"
  by (simp add: upd_group_def)

lemma dropExpired_st: "\<exists>t. dropExpired s m = s\<lparr>st := t\<rparr>"
  by (auto simp: dropExpired_def move_def Let_def)

lemma expire_front_spec:
  assumes "dq_wf (msgs (gheap s r))" "expire_front s r now n = (s', n')"
  shows "\<exists>dead d t. s' = (upd_group s r (\<lambda>g. g\<lparr>msgs := d\<rparr>))\<lparr>st := t\<rparr> \<and> n' = n + length dead \<and> dq_wf d \<and>
    dq_list (msgs (gheap s r)) = dead @ dq_list d \<and> (\<forall>m \<in> set dead. expired m now) \<and>
    (\<forall>m ms. dq_list d = m # ms \<longrightarrow> \<not> expired m now) \<and>
    (\<forall>R F D. gauges (st s) (mset dead + R) F D \<longrightarrow> gauges t R F D) \<and> (dead = [] \<longrightarrow> s' = s)"
  using assms
proof (induction s r now n arbitrary: s' n' rule: expire_front.induct)
  case (1 s r now n)
  show ?case
  proof (cases "\<exists>m ms. dq_list (msgs (gheap s r)) = m # ms \<and> expired m now")
    case False
    then have "expire_front s r now n = (s, n)"
      by (subst expire_front.simps) (auto split: list.splits)
    with 1(3) have s': "s' = s" "n' = n" by simp_all
    have "s = (upd_group s r (\<lambda>g. g\<lparr>msgs := msgs (gheap s r)\<rparr>))\<lparr>st := st s\<rparr>" by (simp add: upd_group_id)
    with s' False 1(2) show ?thesis
      by (intro exI [of _ "[]"] exI [of _ "msgs (gheap s r)"] exI [of _ "st s"]) auto
  next
    case True
    then obtain m ms where m: "dq_list (msgs (gheap s r)) = m # ms" "expired m now" by blast
    obtain d where d: "popFront zero_message (msgs (gheap s r)) = Some (m, d)" "dq_list d = ms" "dq_wf d"
      by (rule popFront_Cons [OF m(1)])
    let ?s = "upd_group s r (\<lambda>g. g\<lparr>msgs := d\<rparr>)"
    let ?s1 = "dropExpired ?s m"
    have e: "expire_front s r now n = expire_front ?s1 r now (n + 1)"
      using m d by (subst expire_front.simps) simp
    with 1(3) have s': "expire_front ?s1 r now (n + 1) = (s', n')" by simp
    have f: "front (msgs (gheap s r)) = Some m" using m by simp
    have wf: "dq_wf (msgs (gheap ?s1 r))" using d by simp
    from 1(1) [OF f _ d(1) refl wf s'] m(2) obtain dead d' t where I:
      "s' = (upd_group ?s1 r (\<lambda>g. g\<lparr>msgs := d'\<rparr>))\<lparr>st := t\<rparr>" "n' = n + 1 + length dead" "dq_wf d'"
      "dq_list d = dead @ dq_list d'" "\<forall>m \<in> set dead. expired m now"
      "\<forall>m ms. dq_list d' = m # ms \<longrightarrow> \<not> expired m now"
      "\<And>R F D. gauges (st ?s1) (mset dead + R) F D \<Longrightarrow> gauges t R F D" by auto
    obtain t0 where t0: "?s1 = ?s\<lparr>st := t0\<rparr>" using dropExpired_st by blast
    have "s' = (upd_group s r (\<lambda>g. g\<lparr>msgs := d'\<rparr>))\<lparr>st := t\<rparr>"
      unfolding I(1) t0 upd_group_st upd_group_upd by simp
    moreover have "gauges t R F D" if "gauges (st s) (mset (m # dead) + R) F D" for R F D
    proof -
      have "gauges (st ?s) (add_mset m (mset dead + R)) F D" using that by simp
      then have "gauges (st (move ?s m stReady stAbsent)) (mset dead + R) F D" by (rule gauges_out)
      then have "gauges (st ?s1) (mset dead + R) F D" by (simp add: dropExpired_def Let_def)
      then show ?thesis by (rule I(7))
    qed
    ultimately show ?thesis using I m d
      by (intro exI [of _ "m # dead"] exI [of _ d'] exI [of _ t]) auto
  qed
qed

lemma sweepTTL_group_spec:
  assumes inv: "slot_inv s" and r: "r \<in> refs s" and sw: "sweepTTL_group s r now = (s', n)"
  shows "\<exists>dead. slot_inv s' \<and> n = length dead \<and> (\<forall>m \<in> set dead. expired m now) \<and>
    dq_list (msgs (gheap s r)) = dead @ dq_list (msgs (gheap s' r)) \<and> fresh_head s' r now \<and>
    ready_ms s = ready_ms s' + mset dead \<and> inflight s' = inflight s \<and> delayed s' = delayed s \<and> timers s' = timers s \<and>
    epochSeq s' = epochSeq s \<and> sid s' = sid s \<and> set (groups s') \<subseteq> set (groups s) \<and>
    (\<forall>r'. r' \<noteq> r \<longrightarrow> gheap s' r' = gheap s r')"
proof -
  note core = slot_inv_core [OF inv]
  note b = slot_coreD(1) [OF core] and lo = slot_coreD(2) [OF core]
  note wfs = band_okD [OF b]
  obtain s1 where e: "expire_front s r now 0 = (s1, n)"
    using sw by (auto simp: sweepTTL_group_def Let_def split: prod.splits)
  from expire_front_spec [OF groups_wf_dq [OF wfs(1)] e] obtain dead d t where
    E: "s1 = (upd_group s r (\<lambda>g. g\<lparr>msgs := d\<rparr>))\<lparr>st := t\<rparr>" "n = length dead" "dq_wf d"
    "dq_list (msgs (gheap s r)) = dead @ dq_list d" "\<forall>m \<in> set dead. expired m now"
    "\<forall>m ms. dq_list d = m # ms \<longrightarrow> \<not> expired m now"
    and G: "\<And>R F D. gauges (st s) (mset dead + R) F D \<Longrightarrow> gauges t R F D" and z: "dead = [] \<Longrightarrow> s1 = s" by auto
  define s2 where "s2 = (if n > 0 \<and> inBand (gheap s1 r)
               then upd_group s1 r (\<lambda>g. g\<lparr>version := version g + 1, inBand := False\<rparr>) else s1)"
  define s3 where "s3 = (if \<not> inBand (gheap s2 r) \<and> \<not> locked (gheap s2 r) \<and> \<not> is_empty (msgs (gheap s2 r))
               then pushGroup s2 r else s2)"
  have "sweepTTL_group s r now = (dropGroupIfIdle s3 r, n)"
    by (simp only: sweepTTL_group_def e Let_def s3_def s2_def prod.case)
  then have s': "s' = dropGroupIfIdle s3 r" using sw by simp
  have d1: "msgs (gheap s1 r) = d" by (simp add: E(1))
  have cont: "msg_ok (gid (gheap s r)) m" if "m \<in> set (dq_list d)" for m
    using that E(4) r wfs(6) by (simp add: contents_wf_def)
  have refs2: "refs s2 = refs s" by (simp add: s2_def E(1)) 
  have g2: "msgs (gheap s2 r) = d" "locked (gheap s2 r) = locked (gheap s r)" "gid (gheap s2 r) = gid (gheap s r)"
    by (simp_all add: s2_def E(1))
  have o2: "gheap s2 r' = gheap s r'" if "r' \<noteq> r" for r' using that by (simp add: s2_def E(1))
  have gr2: "groups s2 = groups s" by (simp add: s2_def E(1))
  have b2: "band_ok (if inBand (gheap s2 r) \<or> locked (gheap s r) then {} else {r}) s2"
  proof (cases "dead = []")
    case True
    then have "s2 = s" using z E(2) by (simp add: s2_def)
    then show ?thesis using b by (auto elim: band_ok_mono)
  next
    case False
    show ?thesis
    proof (cases "inBand (gheap s r)")
      case True
      then have nl: "\<not> locked (gheap s r)" using wfs(4) r by (simp add: listed_wf_def)
      have "s2 = (upd_group s r (\<lambda>g. g\<lparr>msgs := d, version := version g + 1, inBand := False\<rparr>))\<lparr>st := t\<rparr>"
        using True False E(2) by (simp add: s2_def E(1) upd_group_st upd_group_upd)
      moreover have "band_ok {r} (upd_group s r (\<lambda>g. g\<lparr>msgs := d, version := version g + 1, inBand := False\<rparr>))"
        by (rule band_ok_upd_group [OF b]) (use E(3) cont in simp_all)
      ultimately show ?thesis using nl by simp
    next
      case False
      then have "locked (gheap s r)" using wfs(5) r by (auto simp: progress_def)
      moreover have "band_ok {} (upd_group s r (\<lambda>g. g\<lparr>msgs := d\<rparr>))"
        by (rule band_ok_upd_msgs [OF b E(3)]) (use cont r False in auto)
      moreover have "s2 = s1" using False by (simp add: s2_def E(1))
      ultimately show ?thesis by (simp add: E(1))
    qed
  qed
  have l1: "lease_ok {} s1" unfolding E(1) by (intro lease_ok_frame(5) lease_ok_upd_group [OF lo]) simp_all
  have l2: "lease_ok {} s2" unfolding s2_def using lease_ok_upd_group [OF l1] l1 by simp
  have r2: "r \<in> refs s2" using r refs2 by simp
  have b3: "band_ok (if inBand (gheap s3 r) \<or> locked (gheap s r) then {} else {r}) s3"
  proof (cases "\<not> inBand (gheap s2 r) \<and> \<not> locked (gheap s2 r) \<and> dq_list d \<noteq> []")
    case True
    then obtain m ms where m: "dq_list (msgs (gheap s2 r)) = m # ms" using g2 by (auto simp: neq_Nil_conv)
    from b2 True g2 have "band_ok {r} s2" by simp
    from band_ok_pushGroup [OF this r2 _ _ m] True have "band_ok {} (pushGroup s2 r)" by simp
    then show ?thesis using True g2 by (auto simp: s3_def elim: band_ok_mono)
  next
    case False
    then have "s3 = s2" using g2 by (auto simp: s3_def)
    then show ?thesis using b2 by simp
  qed
  have emp: "\<not> inBand (gheap s3 r) \<Longrightarrow> \<not> locked (gheap s r) \<Longrightarrow> dq_list (msgs (gheap s3 r)) = []"
    using g2 by (auto simp: s3_def pushGroup_def Let_def split: if_splits list.splits)
  have ref3: "refs s3 = refs s2" by (simp add: s3_def)
  have r3: "r \<in> refs s3" using r2 ref3 by simp
  have b': "band_ok {} s'"
  proof (cases "inBand (gheap s3 r) \<or> locked (gheap s r)")
    case True
    with b3 have "band_ok {} s3" by simp
    from band_ok_dropGroupIfIdle [OF this r3] show ?thesis by (simp add: s')
  next
    case False
    with b3 have "band_ok {r} s3" by simp
    from band_ok_dropGroupIfIdle [OF this r3] emp False show ?thesis by (simp add: s')
  qed
  have l3: "lease_ok {} s3" using l2 by (simp add: s3_def)
  have l': "lease_ok {} s'" unfolding s' by (rule lease_ok_dropGroupIfIdle [OF l3 b3 r3])
  have m3: "msgs (gheap s3 q) = msgs (gheap s2 q)" for q by (simp add: s3_def)
  have gr3: "groups s3 = groups s2" by (simp add: s3_def)
  have rm: "ready_ms s' = ready_ms s2"
    unfolding s' using band_okD(1) [OF b3] r3 by (simp add: ready_ms_cong [OF gr3] m3)
  have "gheap s2 = (gheap s)(r := gheap s2 r)" using o2 by (auto simp: fun_eq_iff)
  from ready_ms_one [OF wfs(1) r gr2 this] E(4) g2
  have "ready_ms s2 + mset dead = ready_ms s" by (simp add: ac_simps)
  then have ready: "ready_ms s = ready_ms s' + mset dead" using rm by simp
  have st': "st s' = t" by (simp add: s' s3_def s2_def E(1))
  have keep: "inflight s' = inflight s" "delayed s' = delayed s" "timers s' = timers s" "epochSeq s' = epochSeq s" "sid s' = sid s"
    by (simp_all add: s' s3_def s2_def E(1))
  have fl: "flight_ms s' = flight_ms s" "delayed_ms s' = delayed_ms s" by (simp_all add: flight_ms_def delayed_ms_def keep)
  have "gauges (st s) (mset dead + ready_ms s') (flight_ms s) (delayed_ms s)"
    using inv ready by (simp add: slot_inv_def ac_simps)
  then have "gauges (st s') (ready_ms s') (flight_ms s') (delayed_ms s')" using G st' fl by simp
  moreover have "held s' \<subseteq># held s" using ready fl by (simp add: held_def)
  then have "ids_ok (held s')" using inv ids_ok_mono by (auto simp: slot_inv_def)
  moreover have "timers_ok s'" "delay_ok s'" using slot_coreD(3,4) [OF core]
    by (simp_all add: timers_ok_def delay_ok_def keep)
  ultimately have inv': "slot_inv s'" using b' l' by (simp add: slot_inv_def slot_core_def)
  have dq': "msgs (gheap s' r) = d" by (simp add: s' m3 g2)
  have other: "gheap s' r' = gheap s r'" if "r' \<noteq> r" for r'
    using that o2 by (simp add: s' s3_def pushGroup_def Let_def split: list.splits)
  have sub: "set (groups s') \<subseteq> set (groups s)"
    by (auto simp: s' dropGroupIfIdle_def Let_def gr3 gr2 AList.delete_eq)
  show ?thesis
    using inv' E(2,4,5,6) dq' ready keep sub other by (auto simp: fresh_head_def intro!: exI [of _ dead])
qed

lemma sweepTTL_loop_spec:
  assumes "slot_inv s" "sweepTTL_loop s ks now n = (s', n')"
  shows "\<exists>dead. slot_inv s' \<and> n' = n + length dead \<and> (\<forall>m \<in> set dead. expired m now) \<and>
    ready_ms s = ready_ms s' + mset dead \<and> inflight s' = inflight s \<and> delayed s' = delayed s \<and> timers s' = timers s \<and>
    epochSeq s' = epochSeq s \<and> sid s' = sid s \<and> set (groups s') \<subseteq> set (groups s) \<and>
    (\<forall>r. fresh_head s r now \<longrightarrow> fresh_head s' r now) \<and>
    (\<forall>(k, r) \<in> set (groups s'). k \<in> set ks \<longrightarrow> fresh_head s' r now)"
  using assms
proof (induction s ks now n rule: sweepTTL_loop.induct)
  case (1 s now n)
  then show ?case by (auto intro!: exI [of _ "[]"])
next
  case (2 s k ks now n)
  note inv = 2(3)
  note wf = band_okD(1) [OF slot_coreD(1) [OF slot_inv_core [OF inv]]]
  show ?case
  proof (cases "map_of (groups s) k")
    case None
    with 2(4) have "sweepTTL_loop s ks now n = (s', n')" by simp
    from 2(1) [OF None inv this] obtain dead where D: "slot_inv s' \<and> n' = n + length dead \<and> (\<forall>m \<in> set dead. expired m now) \<and>
      ready_ms s = ready_ms s' + mset dead \<and> inflight s' = inflight s \<and> delayed s' = delayed s \<and> timers s' = timers s \<and>
      epochSeq s' = epochSeq s \<and> sid s' = sid s \<and> set (groups s') \<subseteq> set (groups s) \<and>
      (\<forall>r. fresh_head s r now \<longrightarrow> fresh_head s' r now) \<and>
      (\<forall>(k, r) \<in> set (groups s'). k \<in> set ks \<longrightarrow> fresh_head s' r now)" by blast
    moreover have "fst x \<noteq> k" if "x \<in> set (groups s')" for x
      using that D None by (auto simp: map_of_eq_None_iff)
    ultimately show ?thesis by (intro exI [of _ dead]) fastforce
  next
    case (Some r)
    have r: "r \<in> refs s" using map_of_groups [OF wf Some] by blast
    obtain s1 d where g: "sweepTTL_group s r now = (s1, d)" by (cases "sweepTTL_group s r now")
    from sweepTTL_group_spec [OF inv r g] obtain dead1 where G: "slot_inv s1" "d = length dead1" "\<forall>m \<in> set dead1. expired m now"
      "fresh_head s1 r now" "ready_ms s = ready_ms s1 + mset dead1" "inflight s1 = inflight s" "delayed s1 = delayed s"
      "timers s1 = timers s" "epochSeq s1 = epochSeq s" "sid s1 = sid s" "set (groups s1) \<subseteq> set (groups s)"
      "\<And>r'. r' \<noteq> r \<Longrightarrow> gheap s1 r' = gheap s r'" by blast
    have "sweepTTL_loop s1 ks now (n + d) = (s', n')" using 2(4) Some g by simp
    from 2(2) [OF Some g [symmetric] refl G(1) this] obtain dead2 where D: "slot_inv s'" "n' = n + d + length dead2" "\<forall>m \<in> set dead2. expired m now"
      "ready_ms s1 = ready_ms s' + mset dead2" "inflight s' = inflight s1" "delayed s' = delayed s1" "timers s' = timers s1"
      "epochSeq s' = epochSeq s1" "sid s' = sid s1" "set (groups s') \<subseteq> set (groups s1)"
      "\<And>r. fresh_head s1 r now \<Longrightarrow> fresh_head s' r now"
      "\<And>k r. (k, r) \<in> set (groups s') \<Longrightarrow> k \<in> set ks \<Longrightarrow> fresh_head s' r now" by blast
    have keep: "fresh_head s1 r' now" if "fresh_head s r' now" for r'
      using that G(4,12) by (cases "r' = r") (simp_all add: fresh_head_def)
    have k: "r' = r" if "(k, r') \<in> set (groups s')" for r'
    proof -
      have "(k, r') \<in> set (groups s)" using that D(10) G(11) by blast
      then have "map_of (groups s) k = Some r'" using groups_wf_keys [OF wf] by simp
      with Some show ?thesis by simp
    qed
    have fk: "fresh_head s' r' now" if "(k', r') \<in> set (groups s')" "k' \<in> set (k # ks)" for k' r'
      using that k D(11,12) G(4) by (cases "k' = k") auto
    have "ready_ms s = ready_ms s' + mset (dead1 @ dead2)" using G(5) D(4) by simp
    moreover have "\<forall>m \<in> set (dead1 @ dead2). expired m now" using G(3) D(3) by auto
    moreover have "set (groups s') \<subseteq> set (groups s)" using G(11) D(10) by blast
    moreover have "n' = n + length (dead1 @ dead2)" using D(2) G(2) by simp
    ultimately show ?thesis using D(1,5-9) G(6-10) keep D(11) fk
      by (intro exI [of _ "dead1 @ dead2"] conjI) auto
  qed
qed

lemma sweepTTL_spec:
  assumes "slot_inv s" "sweepTTL s ks now = (s', n)"
  obtains dead where "slot_ok s'" "n = length dead" "\<forall>m \<in> set dead. expired m now" "ready_ms s = ready_ms s' + mset dead"
    "inflight s' = inflight s" "delayed s' = delayed s" "timers s' = timers s" "epochSeq s' = epochSeq s" "sid s' = sid s"
    "\<And>r. iterates ks (groups s) \<Longrightarrow> r \<in> refs s' \<Longrightarrow> fresh_head s' r now"
proof -
  obtain s1 where l: "sweepTTL_loop s ks now 0 = (s1, n)" and s': "s' = refreshHint s1"
    using assms(2) by (auto simp: sweepTTL_def split: prod.splits)
  from sweepTTL_loop_spec [OF assms(1) l] obtain dead where D: "slot_inv s1" "n = length dead" "\<forall>m \<in> set dead. expired m now"
      "ready_ms s = ready_ms s1 + mset dead" "inflight s1 = inflight s" "delayed s1 = delayed s" "timers s1 = timers s"
      "epochSeq s1 = epochSeq s" "sid s1 = sid s" "set (groups s1) \<subseteq> set (groups s)"
      "\<And>k r. (k, r) \<in> set (groups s1) \<Longrightarrow> k \<in> set ks \<Longrightarrow> fresh_head s1 r now" by force
  have "fresh_head s' r now" if it: "iterates ks (groups s)" and r: "r \<in> refs s'" for r
  proof -
    from r obtain k where k: "(k, r) \<in> set (groups s1)" by (auto simp: s' refs_def)
    then have "(k, r) \<in> set (groups s)" using D(10) by blast
    then have "k \<in> set ks" using it by (force simp: iterates_def)
    then show ?thesis using D(11) [OF k] by (simp add: s' fresh_head_def)
  qed
  then show thesis using that [of dead] D s' by (simp add: slot_ok_refreshHint)
qed

subsection \<open>Delayed messages\<close>

definition undelay :: "message \<Rightarrow> message" where
  "undelay m = m\<lparr>DeliverAfter := 0\<rparr>"

lemma core_undelay [simp]: "core (undelay m) = core m"
  by (simp add: undelay_def)

lemma undelay_simps [simp]: "Priority (undelay m) = Priority m" "msg_group (undelay m) = msg_group m" "ID (undelay m) = ID m"
  by (simp_all add: undelay_def)

lemma releaseDelayed_loop_spec:
  assumes "slot_inv s" "releaseDelayed_loop s now n = (s', n')"
  shows "slot_inv s' \<and> inflight s' = inflight s \<and> timers s' = timers s \<and> epochSeq s' = epochSeq s \<and> sid s' = sid s \<and>
    delayed_ms s' = filter_mset (\<lambda>m. now < DeliverAfter m) (delayed_ms s) \<and>
    ready_ms s' = ready_ms s + image_mset undelay (filter_mset (\<lambda>m. \<not> now < DeliverAfter m) (delayed_ms s)) \<and>
    n' = n + size (filter_mset (\<lambda>m. \<not> now < DeliverAfter m) (delayed_ms s)) \<and> (n' = n \<longrightarrow> s' = s)"
  using assms
proof (induction s now n arbitrary: s' n' rule: releaseDelayed_loop.induct)
  case (1 s now n)
  note inv = 1(2)
  note core = slot_inv_core [OF inv]
  have dk: "is_heap d_at (delayed s)" "\<And>e. e \<in> set (delayed s) \<Longrightarrow> d_at e = DeliverAfter (d_msg e) \<and> Priority (d_msg e) \<le> 100"
    using slot_coreD(4) [OF core] by (simp_all add: delay_ok_def)
  show ?case
  proof (cases "delayed s \<noteq> [] \<and> \<not> now < d_at (delayed s ! 0)")
    case False
    then have r: "s' = s" "n' = n" using 1(3) by (subst (asm) releaseDelayed_loop.simps, force)+
    have "now < DeliverAfter m" if "m \<in># delayed_ms s" for m
    proof -
      from that obtain e where e: "e \<in> set (delayed s)" "m = d_msg e" by (auto simp: mem_delayed)
      then have "d_at (delayed s ! 0) \<le> d_at e" using heap_root_min [OF dk(1)] by blast
      with e False dk(2) show ?thesis by auto
    qed
    then have 1: "filter_mset (\<lambda>m. now < DeliverAfter m) (delayed_ms s) = delayed_ms s"
      "filter_mset (\<lambda>m. \<not> now < DeliverAfter m) (delayed_ms s) = {#}"
      by (auto simp: multiset_eq_iff simp flip: not_in_iff)
    show ?thesis unfolding r 1 using inv by simp
  next
    case True
    obtain e h where eh: "heap_pop d_at (delayed s) = (e, h)" by (cases "heap_pop d_at (delayed s)")
    have P: "e = delayed s ! 0" "mset (delayed s) = add_mset e (mset h)" "is_heap d_at h"
      using heap_pop_props [OF _ dk(1) eh] True by simp_all
    have eset: "e \<in> set (delayed s)" "set h \<subseteq> set (delayed s)"
      using P(2) by (metis insertI1 set_mset_add_mset_insert set_mset_mset, metis P(2) set_mset_add_mset_insert set_mset_mset subset_insertI)
    let ?m = "(d_msg e)\<lparr>DeliverAfter := 0\<rparr>"
    let ?s1 = "s\<lparr>delayed := h\<rparr>"
    let ?s2 = "move ?s1 ?m stDelayed stReady"
    let ?s3 = "admit ?s2 ?m"
    have dm: "delayed_ms s = add_mset (d_msg e) (delayed_ms ?s1)" by (simp add: delayed_ms_def P(2))
    have b: "band_ok {} ?s2" using slot_coreD(1) [OF core] by simp
    have l: "lease_ok {} ?s2" using slot_coreD(2) [OF core] by simp
    have p: "Priority ?m \<le> 100" using dk(2) eset by simp
    have rm: "ready_ms ?s3 = add_mset ?m (ready_ms s)" using ready_ms_admit [OF b] by simp
    have "gauges (st s) (ready_ms s) (flight_ms s) (add_mset (d_msg e) (delayed_ms ?s1))"
      using inv dm by (simp add: slot_inv_def)
    then have "gauges (st ?s2) (add_mset ?m (ready_ms s)) (flight_ms s) (delayed_ms ?s1)"
      by (intro gauges_lease(4) [where m' = "d_msg e"]) simp_all
    moreover have "image_mset core (ready_ms ?s3 + flight_ms s + delayed_ms ?s1) \<subseteq># image_mset core (held s)"
      by (simp add: rm held_def dm)
    then have "ids_ok (ready_ms ?s3 + flight_ms s + delayed_ms ?s1)"
      by (rule ids_ok_sub) (use inv in \<open>simp add: slot_inv_def\<close>)
    moreover have "delay_ok ?s1" using dk(2) eset P(3) by (auto simp: delay_ok_def)
    moreover have "timers_ok ?s1" using slot_coreD(3) [OF core] by simp
    moreover have "lease_ok {} ?s3" by (rule lease_ok_admit [OF l b])
    ultimately have i3: "slot_inv ?s3"
      using band_ok_admit [OF b p] by (simp add: slot_inv_def slot_core_def held_def rm)
    have "releaseDelayed_loop s now n = releaseDelayed_loop ?s3 now (n + 1)"
      using True eh by (subst releaseDelayed_loop.simps) (simp add: Let_def)
    with 1(3) have s': "releaseDelayed_loop ?s3 now (n + 1) = (s', n')" by simp
    note I = 1(1) [OF True refl eh [symmetric] refl refl refl i3 s']
    have due: "\<not> now < DeliverAfter (d_msg e)" using True P(1) dk(2) [OF eset(1)] by simp
    have ds: "delayed_ms ?s3 = delayed_ms ?s1" by simp
    show ?thesis using I due unfolding rm ds dm by (simp add: undelay_def)
  qed
qed

lemma releaseDelayed_spec:
  assumes "slot_ok s" "releaseDelayed s now = (s', n)"
  shows "slot_ok s'" "inflight s' = inflight s" "timers s' = timers s" "epochSeq s' = epochSeq s" "sid s' = sid s"
    "delayed_ms s' = filter_mset (\<lambda>m. now < DeliverAfter m) (delayed_ms s)"
    "ready_ms s' = ready_ms s + image_mset undelay (filter_mset (\<lambda>m. \<not> now < DeliverAfter m) (delayed_ms s))"
    "n = size (filter_mset (\<lambda>m. \<not> now < DeliverAfter m) (delayed_ms s))"
proof -
  obtain s1 where l: "releaseDelayed_loop s now 0 = (s1, n)" and s': "s' = (if n > 0 then refreshHint s1 else s1)"
    using assms(2) by (auto simp: releaseDelayed_def split: prod.splits)
  note S = releaseDelayed_loop_spec [OF slot_okD(1) [OF assms(1)] l]
  then show "slot_ok s'" using s' assms(1) by (auto simp: slot_ok_refreshHint)
  have E: "inflight s' = inflight s1" "timers s' = timers s1" "epochSeq s' = epochSeq s1" "sid s' = sid s1"
    "delayed_ms s' = delayed_ms s1" "ready_ms s' = ready_ms s1" by (simp_all add: s')
  show "inflight s' = inflight s" "timers s' = timers s" "epochSeq s' = epochSeq s" "sid s' = sid s"
    "delayed_ms s' = filter_mset (\<lambda>m. now < DeliverAfter m) (delayed_ms s)"
    "ready_ms s' = ready_ms s + image_mset undelay (filter_mset (\<lambda>m. \<not> now < DeliverAfter m) (delayed_ms s))"
    "n = size (filter_mset (\<lambda>m. \<not> now < DeliverAfter m) (delayed_ms s))"
    using S by (simp_all add: E)
qed

subsection \<open>Copying and draining\<close>

lemma mset_concat_map: "mset (concat (map f ks)) = sum_list (map (\<lambda>k. mset (f k)) ks)"
  by (induction ks) simp_all

lemma mset_map_sum: "mset (map f ks) = sum_list (map (\<lambda>k. {#f k#}) ks)"
  by (induction ks) simp_all

lemma mset_leased_msgs:
  assumes "lease_ok X s" "iterates ki (inflight s)"
  shows "mset (leased_msgs s ki) = flight_ms s"
  using iterates_sum [of "inflight s" ki "\<lambda>l. {#l_msg l#}"] assms
  by (simp only: leased_msgs_def mset_map_sum flight_ms_def lease_ok_def)

lemma mset_grouped_msgs:
  assumes "groups_wf s" "iterates kg (groups s)"
  shows "mset (grouped_msgs s kg) = ready_ms s"
  using iterates_sum [OF groups_wf_keys [OF assms(1)] assms(2), of "\<lambda>r. mset (dq_list (msgs (gheap s r)))"]
  by (simp add: grouped_msgs_def mset_concat_map ready_ms_def)

lemma copyAll_held:
  assumes "slot_core s" "iterates ki (inflight s)" "iterates kg (groups s)"
  shows "mset (copyAll s ki kg) = held s"
  using mset_leased_msgs [OF slot_coreD(2) assms(2)] mset_grouped_msgs [OF band_okD(1) [OF slot_coreD(1)] assms(3)] assms(1)
  by (simp add: copyAll_def held_def delayed_ms_def)

lemma drained_msgs_eq: "drained_msgs s kg = grouped_msgs s kg"
  by (simp add: drained_msgs_def grouped_msgs_def Let_def dq.drain_contents)

lemma emptied_wf:
  assumes "\<And>r. dq_wf (msgs (gheap s r))"
  shows "dq_wf (msgs (gheap (emptied s kg) r))"
  unfolding emptied_def using assms
proof (induction kg arbitrary: s)
  case (Cons k kg)
  have "dq_wf (msgs (gheap (upd_group s (the (map_of (groups s) k)) (\<lambda>g. g\<lparr>msgs := snd (drain_with (popFront zero_message) (len (msgs g)) (msgs g))\<rparr>)) r))" for r
    using Cons.prems by (auto intro: dq.drain_ok)
  from Cons.IH [OF this] show ?case by simp
qed simp

text \<open>A slot with no groups, no leases, nothing delayed and empty bands.\<close>

lemma slot_ok_blank:
  assumes "groups s = []" "inflight s = []" "delayed s = []" "timers s = []" "bands s = Map.empty" "bandMask s = (0, 0)"
    and "\<And>r. dq_wf (msgs (gheap s r))" and "\<exists>t. st s = resetGauges t"
  shows "slot_inv s" "held s = {#}"
proof -
  have 1: "band_deque s p = dq_empty" "entries s p = []" "refs s = {}" "mask_bit s p = False" for p
    by (simp_all add: band_deque_def entries_def refs_def mask_bit_def assms)
  have "band_ok {} s" by (simp add: band_ok_defs 1 assms)
  moreover have "lease_ok {} s" "timers_ok s" "delay_ok s"
    by (simp_all add: lease_ok_def timers_ok_def delay_ok_def 1 assms)
  moreover have ms: "ready_ms s = {#}" "flight_ms s = {#}" "delayed_ms s = {#}"
    by (simp_all add: ready_ms_def flight_ms_def delayed_ms_def assms)
  moreover have "gauges (st s) {#} {#} {#}" using assms(8) by (auto simp: gauges_def resetGauges_def)
  ultimately show "slot_inv s" "held s = {#}"
    by (simp_all add: slot_inv_def slot_core_def held_def ids_ok_def)
qed

lemma newSlot_ok: "slot_ok (newSlot i)" "held (newSlot i) = {#}"
proof -
  have "st (newSlot i) = resetGauges zero_stats" by (simp add: newSlot_def resetGauges_def zero_stats_def)
  then have "\<exists>t. st (newSlot i) = resetGauges t" ..
  note B = slot_ok_blank [OF _ _ _ _ _ _ _ this]
  show "held (newSlot i) = {#}" by (rule B(2)) (simp_all add: newSlot_def empty_group_def)
  have "slot_inv (newSlot i)" by (rule B(1)) (simp_all add: newSlot_def empty_group_def)
  moreover have "refreshHint (newSlot i) = newSlot i"
    by (simp add: refreshHint_def highestBand_def newSlot_def)
  ultimately show "slot_ok (newSlot i)" by (simp add: slot_ok_def)
qed

lemma drain_spec:
  assumes ok: "slot_core s" and it: "iterates ki (inflight s)" "iterates kg (groups s)" and d: "drain s ki kg = (s', ms)"
  shows "slot_ok s'" "held s' = {#}" "mset ms = held s" "sorted (map Seq ms)" "sid s' = sid s" "epochSeq s' = epochSeq s"
    "sfrozen s' = sfrozen s"
proof -
  let ?s = "(emptied s kg)\<lparr>delayed := [], inflight := [], groups := [], bands := Map.empty, bandMask := (0, 0),
                timers := [], st := resetGauges (st s)\<rparr>"
  have s': "s' = refreshHint ?s" using d by (simp add: drain_def Let_def)
  have ms: "ms = sort_key Seq (leased_msgs s ki @ drained_msgs s kg
                @ map d_msg (fst (drain_with (heap_take d_at) (length (delayed s)) (delayed s))))"
    using d by (simp add: drain_def Let_def)
  note wf = band_okD(1) [OF slot_coreD(1) [OF ok]]
  have "dq_wf (msgs (gheap ?s r))" for r using emptied_wf [OF groups_wf_dq [OF wf]] by simp
  note B = slot_ok_blank [of ?s, OF _ _ _ _ _ _ this]
  have "\<exists>t. st ?s = resetGauges t" by auto
  then have "slot_inv ?s" "held ?s = {#}" by (intro B; simp)+
  then show "slot_ok s'" "held s' = {#}" by (simp_all add: s' slot_ok_refreshHint)
  have "mset (map d_msg (fst (drain_with (heap_take d_at) (length (delayed s)) (delayed s)))) = delayed_ms s"
    using th.drain_props [of d_at "delayed s" "length (delayed s)"] slot_coreD(4) [OF ok]
    by (simp add: delayed_ms_def delay_ok_def)
  then show "mset ms = held s"
    using mset_leased_msgs [OF slot_coreD(2) [OF ok] it(1)] mset_grouped_msgs [OF wf it(2)]
    by (simp add: ms drained_msgs_eq held_def)
  show "sorted (map Seq ms)" by (simp add: ms)
  show "sid s' = sid s" "epochSeq s' = epochSeq s" "sfrozen s' = sfrozen s" by (simp_all add: s')
qed

end
