(* ===== verification/SlotAbsorb.thy ===== *)
theory SlotAbsorb
  imports SlotTimers
begin

text \<open>
  The part of \<open>Queue.Absorb\<close> that runs on one slot (\<open>backend/queue/logic/engine/queue.go\<close>): messages
  arriving from a log or from another owner are put in front of their groups, the delayed ones on
  the delay heap.  The slot's messages are already sorted by \<open>Seq\<close>; \<open>gs\<close> is the order in which the
  loop over \<open>byGroup\<close> visits the groups.
\<close>

definition absorb_group :: "slot \<Rightarrow> string \<Rightarrow> message list \<Rightarrow> slot" where
  "absorb_group s k ms =
     (let (s, r) = group_ref s k;
          s = upd_group s r (\<lambda>g. g\<lparr>msgs := prepend (msgs g) ms\<rparr>);
          s = foldl (\<lambda>s m. move s m stAbsent stReady) s ms;
          s = upd_group s r (\<lambda>g. g\<lparr>version := version g + 1, inBand := False\<rparr>)
      in if \<not> locked (gheap s r) then pushGroup s r else s)"

definition by_group :: "message list \<Rightarrow> time \<Rightarrow> string \<Rightarrow> message list" where
  "by_group ms now k = filter (\<lambda>m. \<not> held_back m now \<and> msg_group m = k) ms"

definition absorb_slot :: "slot \<Rightarrow> message list \<Rightarrow> string list \<Rightarrow> time \<Rightarrow> slot" where
  "absorb_slot s ms gs now =
     (let s = foldl (\<lambda>s k. absorb_group s k (by_group ms now k)) s gs;
          s = foldl (\<lambda>s m. hold s m stAbsent) s (filter (\<lambda>m. held_back m now) ms)
      in refreshHint s)"

lemma foldl_move_frame [simp]:
  "gheap (foldl (\<lambda>s m. move s m a b) s ms) = gheap s" "groups (foldl (\<lambda>s m. move s m a b) s ms) = groups s"
  "refs (foldl (\<lambda>s m. move s m a b) s ms) = refs s" "band_ok X (foldl (\<lambda>s m. move s m a b) s ms) = band_ok X s"
  "inflight (foldl (\<lambda>s m. move s m a b) s ms) = inflight s" "timers (foldl (\<lambda>s m. move s m a b) s ms) = timers s"
  "delayed (foldl (\<lambda>s m. move s m a b) s ms) = delayed s" "epochSeq (foldl (\<lambda>s m. move s m a b) s ms) = epochSeq s"
  "sid (foldl (\<lambda>s m. move s m a b) s ms) = sid s" "sfrozen (foldl (\<lambda>s m. move s m a b) s ms) = sfrozen s"
  by (induction ms arbitrary: s) simp_all

lemma foldl_move_frozen: "bands (foldl (\<lambda>s m. move s m a b) s ms) = bands s"
  "bandMask (foldl (\<lambda>s m. move s m a b) s ms) = bandMask s" "gnext (foldl (\<lambda>s m. move s m a b) s ms) = gnext s"
  by (induction ms arbitrary: s) simp_all

lemma gauges_foldl_ready:
  "gauges (st s) R F D \<Longrightarrow> gauges (st (foldl (\<lambda>s m. move s m stAbsent stReady) s ms)) (mset ms + R) F D"
proof (induction ms arbitrary: s R)
  case (Cons m ms)
  have "gauges (st (move s m stAbsent stReady)) (add_mset m R) F D" by (rule gauges_in(1) [OF Cons.prems])
  from Cons.IH [OF this] show ?case by simp
qed simp

lemma absorb_group_inv:
  assumes inv: "slot_inv s" and ms: "ms \<noteq> []" "\<And>m. m \<in> set ms \<Longrightarrow> Priority m \<le> 100 \<and> msg_group m = k"
    and ids: "ids_ok (held s + mset ms)"
  shows "slot_inv (absorb_group s k ms) \<and> ready_ms (absorb_group s k ms) = ready_ms s + mset ms \<and>
    inflight (absorb_group s k ms) = inflight s \<and> delayed (absorb_group s k ms) = delayed s \<and>
    timers (absorb_group s k ms) = timers s \<and> epochSeq (absorb_group s k ms) = epochSeq s \<and>
    sid (absorb_group s k ms) = sid s \<and> sfrozen (absorb_group s k ms) = sfrozen s"
proof -
  note core = slot_inv_core [OF inv]
  note b = slot_coreD(1) [OF core] and lo = slot_coreD(2) [OF core]
  obtain s1 r where g: "group_ref s k = (s1, r)" by (cases "group_ref s k")
  note G = band_ok_group_ref [OF b g] and fr = group_ref_frame [OF g]
  note wf1 = band_okD(1) [OF G(1)]
  let ?d = "prepend (msgs (gheap s1 r)) ms"
  let ?s2 = "upd_group s1 r (\<lambda>g. g\<lparr>msgs := prepend (msgs g) ms\<rparr>)"
  let ?s3 = "foldl (\<lambda>s m. move s m stAbsent stReady) ?s2 ms"
  let ?s4 = "upd_group ?s3 r (\<lambda>g. g\<lparr>version := version g + 1, inBand := False\<rparr>)"
  let ?s = "if \<not> locked (gheap ?s4 r) then pushGroup ?s4 r else ?s4"
  have e: "absorb_group s k ms = ?s" by (simp add: absorb_group_def g Let_def)
  have wfd: "dq_wf (msgs (gheap s1 r))" by (rule groups_wf_dq [OF wf1])
  let ?f = "\<lambda>g. g\<lparr>msgs := prepend (msgs g) ms, version := version g + 1, inBand := False\<rparr>"
  have bf: "band_ok {r} (upd_group s1 r ?f)"
    by (rule band_ok_upd_group [OF G(1)])
      (use wfd ms G(2,3) band_okD(6) [OF G(1)] in \<open>auto simp: contents_wf_def msg_ok_def\<close>)
  have b4: "band_ok {r} ?s4"
    by (rule iffD2 [OF band_ok_cong bf]) (simp_all add: foldl_move_frozen upd_group_def)
  have refs4: "refs ?s4 = refs s1" by simp
  note l1 = lease_ok_group_ref [OF lo b g]
  have l4: "lease_ok {} ?s4" by (rule lease_ok_cong [OF l1]) auto
  have dq4: "msgs (gheap ?s4 r) = ?d" by simp
  obtain m' ms' where m': "dq_list (msgs (gheap ?s4 r)) = m' # ms'" using ms(1) dq4
    by (cases ms) simp_all
  have b': "band_ok {} ?s"
  proof (cases "locked (gheap ?s4 r)")
    case True
    then have "progress {} ?s4" using band_okD(5) [OF b4] unfolding progress_def by auto
    with b4 True show ?thesis by (simp add: band_ok_def)
  next
    case False
    then have "band_ok ({r} - {r}) (pushGroup ?s4 r)"
      by (intro band_ok_pushGroup [OF b4 _ _ False m']) (use G(2) in simp_all)
    with False show ?thesis by simp
  qed
  have l': "lease_ok {} ?s" using l4 by simp
  have "ready_ms ?s2 + mset (dq_list (msgs (gheap s1 r))) = ready_ms s1 + mset (ms @ dq_list (msgs (gheap s1 r)))"
    using ready_ms_upd_msgs [OF wf1 G(2), of "\<lambda>g. g\<lparr>msgs := prepend (msgs g) ms\<rparr>"] by simp
  then have r2: "ready_ms ?s2 = ready_ms s1 + mset ms" by simp
  have r1: "ready_ms s1 = ready_ms s"
    using ready_ms_admit_ref [OF b g] .
  have r4: "ready_ms ?s4 = ready_ms s + mset ms"
  proof -
    have "ready_ms ?s4 = ready_ms ?s2" by (rule ready_ms_cong) auto
    with r2 r1 show ?thesis by simp
  qed
  then have r': "ready_ms ?s = ready_ms s + mset ms" by simp
  have "gauges (st ?s2) (ready_ms s) (flight_ms s) (delayed_ms s)" using inv by (simp add: slot_inv_def fr)
  from gauges_foldl_ready [OF this, of ms]
  have g': "gauges (st ?s) (ready_ms s + mset ms) (flight_ms s) (delayed_ms s)" by (simp add: ac_simps)
  have keep: "inflight ?s = inflight s" "delayed ?s = delayed s" "timers ?s = timers s" "epochSeq ?s = epochSeq s"
    "sid ?s = sid s" "sfrozen ?s = sfrozen s"
    by (simp_all add: fr)
  have fl: "flight_ms ?s = flight_ms s" "delayed_ms ?s = delayed_ms s" by (simp_all add: flight_ms_def delayed_ms_def fr)
  have "timers_ok ?s" by (rule timers_ok_cong [OF slot_coreD(3) [OF core] keep(3,4,1)])
  moreover have "delay_ok ?s" using slot_coreD(4) [OF core] unfolding delay_ok_def keep .
  moreover have "held ?s = held s + mset ms" unfolding held_def fl r' by (simp add: ac_simps)
  ultimately have "slot_inv ?s" using b' l' g' ids by (simp only: slot_inv_def slot_core_def fl r' simp_thms)
  with keep r' show ?thesis unfolding e by blast
qed

lemma hold_inv:
  assumes inv: "slot_inv s" and p: "Priority m \<le> 100" and ids: "ids_ok (add_mset m (held s))"
  shows "slot_inv (hold s m stAbsent)"
proof -
  note core = slot_inv_core [OF inv]
  have "gauges (st (move (s\<lparr>delayed := heap_push d_at (delayed s) \<lparr>d_msg = m, d_at = DeliverAfter m\<rparr>\<rparr>) m stAbsent stDelayed))
        (ready_ms s) (flight_ms s) (add_mset m (delayed_ms s))"
    by (rule gauges_in(2)) (use inv in \<open>simp add: slot_inv_def\<close>)
  then have "gauges (st (hold s m stAbsent)) (ready_ms s) (flight_ms s) (add_mset m (delayed_ms s))" by (simp add: hold_def)
  with core p ids show ?thesis by (simp add: slot_inv_def slot_core_def held_def)
qed

lemma foldl_hold_inv:
  assumes "slot_inv s" "\<And>m. m \<in> set ms \<Longrightarrow> Priority m \<le> 100" "ids_ok (held s + mset ms)"
  shows "slot_inv (foldl (\<lambda>s m. hold s m stAbsent) s ms) \<and>
    held (foldl (\<lambda>s m. hold s m stAbsent) s ms) = held s + mset ms \<and>
    inflight (foldl (\<lambda>s m. hold s m stAbsent) s ms) = inflight s \<and>
    timers (foldl (\<lambda>s m. hold s m stAbsent) s ms) = timers s \<and>
    epochSeq (foldl (\<lambda>s m. hold s m stAbsent) s ms) = epochSeq s \<and>
    sid (foldl (\<lambda>s m. hold s m stAbsent) s ms) = sid s"
  using assms
proof (induction ms arbitrary: s)
  case (Cons m ms)
  have h: "held (hold s m stAbsent) = add_mset m (held s)" by (simp add: held_def)
  have "add_mset m (held s) \<subseteq># held s + mset (m # ms)" by simp
  from ids_ok_mono [OF Cons.prems(3) this] have "slot_inv (hold s m stAbsent)"
    by (intro hold_inv Cons.prems) simp_all
  from Cons.IH [OF this] Cons.prems h show ?case by simp
qed simp

lemma foldl_absorb_inv:
  assumes "slot_inv s" "distinct gs" "\<And>k. k \<in> set gs \<Longrightarrow> by_group ms now k \<noteq> []"
    "\<And>m. m \<in> set ms \<Longrightarrow> Priority m \<le> 100"
    "ids_ok (held s + mset (filter (\<lambda>m. \<not> held_back m now \<and> msg_group m \<in> set gs) ms))"
  shows "slot_inv (foldl (\<lambda>s k. absorb_group s k (by_group ms now k)) s gs) \<and>
    held (foldl (\<lambda>s k. absorb_group s k (by_group ms now k)) s gs)
      = held s + mset (filter (\<lambda>m. \<not> held_back m now \<and> msg_group m \<in> set gs) ms) \<and>
    inflight (foldl (\<lambda>s k. absorb_group s k (by_group ms now k)) s gs) = inflight s \<and>
    timers (foldl (\<lambda>s k. absorb_group s k (by_group ms now k)) s gs) = timers s \<and>
    epochSeq (foldl (\<lambda>s k. absorb_group s k (by_group ms now k)) s gs) = epochSeq s \<and>
    sid (foldl (\<lambda>s k. absorb_group s k (by_group ms now k)) s gs) = sid s"
  using assms
proof (induction gs arbitrary: s)
  case Nil
  then show ?case by simp
next
  case (Cons k gs)
  let ?ms = "by_group ms now k" and ?s = "absorb_group s k (by_group ms now k)"
  let ?rest = "filter (\<lambda>m. \<not> held_back m now \<and> msg_group m \<in> set gs) ms"
  have split: "mset (filter (\<lambda>m. \<not> held_back m now \<and> msg_group m \<in> set (k # gs)) ms) = mset ?ms + mset ?rest"
    using Cons.prems(2) unfolding by_group_def by (induction ms) auto
  have "held s + mset ?ms \<subseteq># held s + mset (filter (\<lambda>m. \<not> held_back m now \<and> msg_group m \<in> set (k # gs)) ms)"
    unfolding split by simp
  note ids1 = ids_ok_mono [OF Cons.prems(5) this]
  have A: "slot_inv ?s \<and> ready_ms ?s = ready_ms s + mset ?ms \<and> inflight ?s = inflight s \<and> delayed ?s = delayed s \<and>
    timers ?s = timers s \<and> epochSeq ?s = epochSeq s \<and> sid ?s = sid s \<and> sfrozen ?s = sfrozen s"
    by (rule absorb_group_inv [OF Cons.prems(1) Cons.prems(3) _ ids1]) (use Cons.prems(4) in \<open>auto simp: by_group_def\<close>)
  then have h: "held ?s = held s + mset ?ms" by (simp add: held_def flight_ms_def delayed_ms_def)
  have ids2: "ids_ok (held ?s + mset ?rest)" using Cons.prems(5) unfolding split h by (simp add: ac_simps)
  have "distinct gs" "\<And>k. k \<in> set gs \<Longrightarrow> by_group ms now k \<noteq> []" using Cons.prems(2,3) by simp_all
  from Cons.IH [OF _ this Cons.prems(4) ids2] A h show ?case unfolding split by (simp add: ac_simps)
qed

lemma absorb_slot_spec:
  assumes ok: "slot_inv s" and p: "\<And>m. m \<in> set ms \<Longrightarrow> Priority m \<le> 100" and ids: "ids_ok (held s + mset ms)"
    and gs: "distinct gs" "set gs = msg_group ` {m \<in> set ms. \<not> held_back m now}"
  shows "slot_ok (absorb_slot s ms gs now)" "held (absorb_slot s ms gs now) = held s + mset ms"
    "inflight (absorb_slot s ms gs now) = inflight s" "timers (absorb_slot s ms gs now) = timers s"
    "epochSeq (absorb_slot s ms gs now) = epochSeq s" "sid (absorb_slot s ms gs now) = sid s"
proof -
  let ?a = "filter (\<lambda>m. \<not> held_back m now \<and> msg_group m \<in> set gs) ms"
  let ?b = "filter (\<lambda>m. held_back m now) ms"
  let ?s1 = "foldl (\<lambda>s k. absorb_group s k (by_group ms now k)) s gs"
  have a: "?a = filter (\<lambda>m. \<not> held_back m now) ms" using gs(2) by (auto intro: filter_cong)
  have split: "mset ms = mset ?a + mset ?b" unfolding a by (induction ms) simp_all
  have "held s + mset ?a \<subseteq># held s + mset ms" unfolding split by simp
  note ids1 = ids_ok_mono [OF ids this]
  have ne: "by_group ms now k \<noteq> []" if "k \<in> set gs" for k
    using that gs(2) by (auto simp: by_group_def filter_empty_conv)
  note A = foldl_absorb_inv [OF ok gs(1) ne p ids1]
  have "ids_ok (held ?s1 + mset ?b)" using A ids unfolding split by (simp add: ac_simps)
  then have B: "slot_inv (foldl (\<lambda>s m. hold s m stAbsent) ?s1 ?b)"
    "held (foldl (\<lambda>s m. hold s m stAbsent) ?s1 ?b) = held ?s1 + mset ?b"
    "inflight (foldl (\<lambda>s m. hold s m stAbsent) ?s1 ?b) = inflight ?s1"
    "timers (foldl (\<lambda>s m. hold s m stAbsent) ?s1 ?b) = timers ?s1"
    "epochSeq (foldl (\<lambda>s m. hold s m stAbsent) ?s1 ?b) = epochSeq ?s1"
    "sid (foldl (\<lambda>s m. hold s m stAbsent) ?s1 ?b) = sid ?s1"
    using foldl_hold_inv [of ?s1 ?b] A p by auto
  have e: "absorb_slot s ms gs now = refreshHint (foldl (\<lambda>s m. hold s m stAbsent) ?s1 ?b)"
    by (simp add: absorb_slot_def Let_def)
  show "slot_ok (absorb_slot s ms gs now)" unfolding e by (rule slot_ok_refreshHint [OF B(1)])
  show "held (absorb_slot s ms gs now) = held s + mset ms" unfolding e split using A B(2) by (simp add: ac_simps)
  show "inflight (absorb_slot s ms gs now) = inflight s" "timers (absorb_slot s ms gs now) = timers s"
    "epochSeq (absorb_slot s ms gs now) = epochSeq s" "sid (absorb_slot s ms gs now) = sid s"
    unfolding e using A B by simp_all
qed

end
