(* ===== verification/SlotRun.thy ===== *)
theory SlotRun
  imports SlotAbsorb
begin

text \<open>
  A slot as a state machine: its operations in any order, with any clock readings, from a new slot.
  Each step says which messages enter and which leave with a caller (acknowledged, dead-lettered or
  drained).  The properties below hold in every state such a run reaches, so of every
  interleaving of the callers, each of which holds the slot's lock for one step.
\<close>

datatype slot_op =
    Enqueue message time
  | Take prio time duration
  | Ack receipt
  | Nack receipt duration time u32 bool
  | SweepLeases time u32 bool
  | SweepTTL "string list" time
  | ReleaseDelayed time
  | Absorb "message list" "string list" time
  | Drain "string list" "string list"
  | Mark bool

inductive slot_step :: "slot \<Rightarrow> slot_op \<Rightarrow> slot \<Rightarrow> bool" where
  Enqueue: "prio_valid (Priority m) \<Longrightarrow> ids_ok (add_mset m (held s)) \<Longrightarrow> slot_step s (Enqueue m now) (enqueue s m now)"
| Take: "p < 128 \<Longrightarrow> slot_step s (Take p now vis) (fst (take_msg s p now vis))"
| Ack: "slot_step s (Ack r) (fst (ack s r))"
| Nack: "slot_step s (Nack r delay now mr dl) (fst (nack s r delay now mr dl))"
| SweepLeases: "slot_step s (SweepLeases now mr dl) (fst (sweepLeases s now mr dl))"
| SweepTTL: "iterates ks (groups s) \<Longrightarrow> slot_step s (SweepTTL ks now) (fst (sweepTTL s ks now))"
| ReleaseDelayed: "slot_step s (ReleaseDelayed now) (fst (releaseDelayed s now))"
| Absorb: "\<forall>m \<in> set ms. prio_valid (Priority m) \<Longrightarrow> ids_ok (held s + mset ms) \<Longrightarrow> distinct gs \<Longrightarrow>
    set gs = msg_group ` {m \<in> set ms. \<not> held_back m now} \<Longrightarrow> slot_step s (Absorb ms gs now) (absorb_slot s ms gs now)"
| Drain: "iterates ki (inflight s) \<Longrightarrow> iterates kg (groups s) \<Longrightarrow> slot_step s (Drain ki kg) (fst (drain s ki kg))"
| Mark: "slot_step s (Mark b) (s\<lparr>sfrozen := b\<rparr>)"

text \<open>The messages a step brings in, the ones it hands out for good, and the clock it read.\<close>

fun op_in :: "slot_op \<Rightarrow> message multiset" where
  "op_in (Enqueue m now) = {#m#}"
| "op_in (Absorb ms gs now) = mset ms"
| "op_in _ = {#}"

fun op_out :: "slot \<Rightarrow> slot_op \<Rightarrow> message multiset" where
  "op_out s (Ack r) = (if snd (ack s r) = None then {#l_msg (the (map_of (inflight s) (MessageID r)))#} else {#})"
| "op_out s (Nack r delay now mr dl) = (case snd (nack s r delay now mr dl) of Inr (Some m) \<Rightarrow> {#m#} | _ \<Rightarrow> {#})"
| "op_out s (SweepLeases now mr dl) = mset (fst (snd (sweepLeases s now mr dl)))"
| "op_out s (Drain ki kg) = mset (snd (drain s ki kg))"
| "op_out s _ = {#}"

fun op_clock :: "slot_op \<Rightarrow> time set" where
  "op_clock (Enqueue m now) = {now}"
| "op_clock (Take p now vis) = {now}"
| "op_clock (Ack r) = {}"
| "op_clock (Nack r delay now mr dl) = {now}"
| "op_clock (SweepLeases now mr dl) = {now}"
| "op_clock (SweepTTL ks now) = {now}"
| "op_clock (ReleaseDelayed now) = {now}"
| "op_clock (Absorb ms gs now) = {now}"
| "op_clock (Drain ki kg) = {}"
| "op_clock (Mark b) = {}"

inductive slot_run :: "slot \<Rightarrow> message multiset \<Rightarrow> message multiset \<Rightarrow> time set \<Rightarrow> slot \<Rightarrow> bool" where
  Start: "slot_run s {#} {#} {} s"
| Step: "slot_run s0 In Out T s \<Longrightarrow> slot_step s op s' \<Longrightarrow>
    slot_run s0 (In + op_in op) (Out + op_out s op) (T \<union> op_clock op) s'"

definition slot_reach :: "slot \<Rightarrow> bool" where
  "slot_reach s \<longleftrightarrow> (\<exists>i In Out T. slot_run (newSlot i) In Out T s)"

inductive_cases slot_stepE: "slot_step s op s'"

subsection \<open>One step\<close>

definition accounted :: "slot \<Rightarrow> slot_op \<Rightarrow> slot \<Rightarrow> bool" where
  "accounted s op s' \<longleftrightarrow> (\<exists>gone. (\<forall>m \<in># gone. \<exists>t \<in> op_clock op. expired m t) \<and>
     image_mset core (held s + op_in op) = image_mset core (held s' + op_out s op + gone))"

lemma accountedI:
  "\<forall>m \<in># gone. \<exists>t \<in> op_clock op. expired m t \<Longrightarrow>
   image_mset core (held s + op_in op) = image_mset core (held s' + op_out s op + gone) \<Longrightarrow> accounted s op s'"
  by (auto simp: accounted_def)

lemma prio_valid_100: "prio_valid p \<longleftrightarrow> p \<le> 100"
  by (simp add: prio_valid_def MaxPriority_def)

lemma step_take:
  assumes ok: "slot_ok s" and p: "p < 128"
  shows "slot_ok (fst (take_msg s p now vis)) \<and> accounted s (Take p now vis) (fst (take_msg s p now vis))"
proof -
  obtain s' res where t: "take_msg s p now vis = (s', res)" by (cases "take_msg s p now vis")
  show ?thesis
  proof (rule take_msg_cases [OF slot_okD(1) [OF ok] p t])
    fix dead assume "slot_ok s'" "\<forall>m \<in> set dead. expired m now" "ready_ms s = ready_ms s' + mset dead"
      "inflight s' = inflight s" "delayed s' = delayed s"
    then show ?thesis
      by (auto simp: t held_def flight_ms_def delayed_ms_def intro!: accountedI [where gone = "mset dead"])
  next
    fix r dead m rest l assume "slot_ok s'" "\<forall>m \<in> set dead. expired m now" "ready_ms s = add_mset m (ready_ms s' + mset dead)"
      "inflight s' = inflight s @ [(ID m, l)]" "delayed s' = delayed s"
      "l = \<lparr>l_msg = m\<lparr>Attempts := Attempts m + 1\<rparr>, l_g = r, l_epoch = epochSeq s + 1, l_deadline = now + vis\<rparr>"
    then show ?thesis
      by (auto simp: t held_def flight_ms_def delayed_ms_def intro!: accountedI [where gone = "mset dead"])
  qed
qed

lemma step_ack:
  assumes ok: "slot_ok s"
  shows "slot_ok (fst (ack s r)) \<and> accounted s (Ack r) (fst (ack s r))"
proof -
  obtain s' res where t: "ack s r = (s', res)" by (cases "ack s r")
  show ?thesis
    by (rule ack_cases [OF ok t])
      (use ok in \<open>auto simp: t held_def delayed_ms_def intro!: accountedI [where gone = "{#}"]\<close>)
qed

lemma step_nack:
  assumes ok: "slot_ok s"
  shows "slot_ok (fst (nack s r delay now mr dl)) \<and> accounted s (Nack r delay now mr dl) (fst (nack s r delay now mr dl))"
proof -
  obtain s' res where t: "nack s r delay now mr dl = (s', res)" by (cases "nack s r delay now mr dl")
  show ?thesis
  proof (rule nack_cases [OF ok t])
    fix l s0 s1 dead bk assume N: "res = Inr dead" "slot_ok s'" "s0 = s\<lparr>inflight := AList.delete (MessageID r) (inflight s)\<rparr>"
      and rt: "retire s0 l now mr delay dl = (s1, dead, bk)" and s': "s' = refreshHint s1" and o: "lease_out s0 l"
      and f: "flight_ms s = add_mset (l_msg l) (flight_ms s0)"
    have h: "held s = add_mset (l_msg l) (held s0)" using f by (simp add: held_def N(3))
    have "\<exists>gone. (\<forall>m \<in># gone. expired m now) \<and>
      image_mset core (held s) = image_mset core (held s' + (case dead of None \<Rightarrow> {#} | Some m \<Rightarrow> {#m#}) + gone)"
      by (rule retire_cases [OF o rt]; rule exI [of _ "{#l_msg l#}"] exI [of _ "{#}"]; use s' h in \<open>simp add: held_def\<close>)
    moreover have "op_out s (Nack r delay now mr dl) = (case dead of None \<Rightarrow> {#} | Some m \<Rightarrow> {#m#})"
      by (simp add: t N(1) split: option.split)
    ultimately show ?thesis using N(2) unfolding accounted_def by (auto simp: t)
  qed (use ok in \<open>auto simp: t intro!: accountedI [where gone = "{#}"]\<close>)
qed

lemma mark_ok:
  assumes "slot_ok s"
  shows "slot_ok (s\<lparr>sfrozen := b\<rparr>)" "held (s\<lparr>sfrozen := b\<rparr>) = held s"
proof -
  have B: "band_ok {} (s\<lparr>sfrozen := b\<rparr>) \<longleftrightarrow> band_ok {} s" by (rule band_ok_cong) simp_all
  have R: "ready_ms (s\<lparr>sfrozen := b\<rparr>) = ready_ms s" by (rule ready_ms_cong) (simp_all add: refs_def)
  have F: "flight_ms (s\<lparr>sfrozen := b\<rparr>) = flight_ms s" "delayed_ms (s\<lparr>sfrozen := b\<rparr>) = delayed_ms s"
    by (simp_all add: flight_ms_def delayed_ms_def)
  show H: "held (s\<lparr>sfrozen := b\<rparr>) = held s" by (simp add: held_def R F)
  have "lease_ok {} (s\<lparr>sfrozen := b\<rparr>) \<longleftrightarrow> lease_ok {} s"
    by (simp add: lease_ok_def lease_wf_def refs_def)
  moreover have "headMessage (s\<lparr>sfrozen := b\<rparr>) = headMessage s" by (rule ext, rule headMessage_cong) simp_all
  then have "refreshHint (s\<lparr>sfrozen := b\<rparr>) = (refreshHint s)\<lparr>sfrozen := b\<rparr>"
    by (simp add: refreshHint_def highestBand_def split: option.split)
  ultimately show "slot_ok (s\<lparr>sfrozen := b\<rparr>)"
    using assms B by (simp add: slot_ok_def slot_inv_def slot_core_def R F H timers_ok_def delay_ok_def)
qed

lemma step_ok:
  assumes ok: "slot_ok s" and st: "slot_step s op s'"
  shows "slot_ok s' \<and> accounted s op s'"
  using st
proof cases
  case (Enqueue m now)
  have "Priority m \<le> 100" using Enqueue(3) by (simp add: prio_valid_100)
  note E = enqueue_inv [OF ok this Enqueue(4), of now]
  show ?thesis unfolding Enqueue
    using E by (auto simp: held_def intro!: accountedI [where gone = "{#}"])
next
  case (SweepLeases now mr dl)
  obtain x dead n where t: "sweepLeases s now mr dl = (x, dead, n)" by (cases "sweepLeases s now mr dl")
  note S = sweepLeases_spec [OF slot_okD(1) [OF ok] t]
  from S(4) obtain gone where "\<forall>m \<in># gone. expired m now" "held s = held x + gone + mset dead" by blast
  then show ?thesis unfolding SweepLeases
    using S(1) by (auto simp: t intro!: accountedI [where gone = gone])
next
  case (SweepTTL ks now)
  obtain x n where t: "sweepTTL s ks now = (x, n)" by (cases "sweepTTL s ks now")
  from sweepTTL_spec [OF slot_okD(1) [OF ok] t] obtain dead where
    "slot_ok x" "\<forall>m \<in> set dead. expired m now" "ready_ms s = ready_ms x + mset dead"
    "inflight x = inflight s" "delayed x = delayed s" by metis
  then show ?thesis unfolding SweepTTL
    by (auto simp: t held_def flight_ms_def delayed_ms_def intro!: accountedI [where gone = "mset dead"])
next
  case (ReleaseDelayed now)
  obtain x n where t: "releaseDelayed s now = (x, n)" by (cases "releaseDelayed s now")
  note R = releaseDelayed_spec [OF ok t]
  have "image_mset core (delayed_ms s) = image_mset core (filter_mset (\<lambda>m. now < DeliverAfter m) (delayed_ms s)) +
      image_mset core (filter_mset (\<lambda>m. \<not> now < DeliverAfter m) (delayed_ms s))"
    by (metis image_mset_union multiset_partition)
  then have "image_mset core (held s) = image_mset core (held x)"
    by (simp add: held_def R flight_ms_def multiset.map_comp comp_def)
  then show ?thesis unfolding ReleaseDelayed
    using R(1) by (auto simp: t intro!: accountedI [where gone = "{#}"])
next
  case (Absorb ms gs now)
  have p: "\<And>m. m \<in> set ms \<Longrightarrow> Priority m \<le> 100" using Absorb(3) by (simp add: prio_valid_100)
  note A = absorb_slot_spec [OF slot_okD(1) [OF ok] p Absorb(4,5,6)]
  show ?thesis unfolding Absorb using A by (auto intro!: accountedI [where gone = "{#}"])
next
  case (Drain ki kg)
  obtain x ms where t: "drain s ki kg = (x, ms)" by (cases "drain s ki kg")
  note D = drain_spec [OF slot_okD(2) [OF ok] Drain(3,4) t]
  then show ?thesis unfolding Drain
    by (auto simp: t intro!: accountedI [where gone = "{#}"])
next
  case (Mark b)
  then show ?thesis using mark_ok [OF ok] by (auto intro!: accountedI [where gone = "{#}"])
qed (use step_take [OF ok] step_ack [OF ok] step_nack [OF ok] in auto)

lemma run_ok:
  assumes "slot_run s0 In Out T s" "slot_ok s0"
  shows "slot_ok s \<and> (\<exists>gone. (\<forall>m \<in># gone. \<exists>t \<in> T. expired m t) \<and>
    image_mset core (held s0 + In) = image_mset core (held s + Out + gone))"
  using assms
proof induction
  case (Start s)
  then show ?case by (auto intro!: exI [of _ "{#}"])
next
  case (Step s0 In Out T s op s')
  then obtain gone where ok: "slot_ok s" and g: "\<forall>m \<in># gone. \<exists>t \<in> T. expired m t"
    "image_mset core (held s0 + In) = image_mset core (held s + Out + gone)" by blast
  from step_ok [OF ok Step.hyps(2)] obtain gone' where ok': "slot_ok s'"
    and g': "\<forall>m \<in># gone'. \<exists>t \<in> op_clock op. expired m t"
    "image_mset core (held s + op_in op) = image_mset core (held s' + op_out s op + gone')" by (auto simp: accounted_def)
  have "image_mset core (held s0 + In) + image_mset core (op_in op)
      = image_mset core (held s + op_in op) + image_mset core (Out + gone)" using g(2) by (simp add: ac_simps)
  then have "image_mset core (held s0 + (In + op_in op)) = image_mset core (held s' + (Out + op_out s op) + (gone + gone'))"
    unfolding g'(2) by (simp add: ac_simps)
  moreover have "\<forall>m \<in># gone + gone'. \<exists>t \<in> T \<union> op_clock op. expired m t" using g(1) g'(1) by auto
  ultimately show ?case using ok' by blast
qed

lemma reach_ok: "slot_reach s \<Longrightarrow> slot_ok s"
  using run_ok newSlot_ok by (auto simp: slot_reach_def)

lemma reach_step: "slot_reach s \<Longrightarrow> slot_step s op s' \<Longrightarrow> slot_reach s'"
  unfolding slot_reach_def using slot_run.Step by blast

lemma reach_new: "slot_reach (newSlot i)"
  unfolding slot_reach_def using slot_run.Start by blast

end
