(* ===== verification/SlotProps.thy ===== *)
theory SlotProps
  imports SlotRun
begin

text \<open>
  What a slot promises its callers, in every reachable state.
\<close>

text \<open>Messages for the examples: an ungrouped one and a grouped one, with no expiry and no delay.\<close>

definition plain :: "string \<Rightarrow> prio \<Rightarrow> u64 \<Rightarrow> message" where
  "plain i p n = \<lparr>ID = i, Payload = [], Priority = p, GroupID = [], Seq = n, EnqueuedAt = 1, ExpiresAt = 0,
     DeliverAfter = 0, Attempts = 0\<rparr>"

definition grouped :: "string \<Rightarrow> string \<Rightarrow> prio \<Rightarrow> u64 \<Rightarrow> message" where
  "grouped i g p n = (plain i p n)\<lparr>GroupID := g\<rparr>"

lemma reach_one: "slot_reach (enqueue (newSlot i) (plain ''a'' 50 1) now)"
  by (rule reach_step [OF reach_new slot_step.Enqueue])
    (simp_all add: prio_valid_100 plain_def newSlot_ok ids_ok_def)

lemma held_one: "held (enqueue (newSlot i) (plain ''a'' 50 1) now) = {#plain ''a'' 50 1#}"
proof -
  have p: "Priority (plain ''a'' 50 1) \<le> 100" and h: "\<not> held_back (plain ''a'' 50 1) now"
    by (simp_all add: plain_def held_back_def is_zero_def)
  have ids: "ids_ok (add_mset (plain ''a'' 50 1) (held (newSlot i)))" by (simp add: newSlot_ok ids_ok_def)
  have z: "ready_ms (newSlot i) = {#}" "flight_ms (newSlot i) = {#}" "delayed_ms (newSlot i) = {#}"
    using newSlot_ok(2) [of i] by (simp_all add: held_def)
  note E = enqueue_inv [OF newSlot_ok(1) p ids, of now]
  show ?thesis unfolding held_def E z using h by simp
qed

subsection \<open>Conservation\<close>

text \<open>Messages are conserved. Whatever sequence of enqueues, takes, acks, nacks, sweeps, absorbs and
  drains a slot goes through, the messages that came in are, up to their delivery counters and delays and
  counted with multiplicity, exactly those still held, those handed out for good (acknowledged,
  dead-lettered, drained), and those dropped because they had expired at a clock reading of the run.\<close>

theorem slot_conservation:
  assumes "slot_run (newSlot i) In Out T s"
  shows "\<exists>gone. (\<forall>m \<in># gone. \<exists>t \<in> T. expired m t) \<and>
    image_mset core In = image_mset core (held s + Out + gone)"
  using run_ok [OF assms newSlot_ok(1)] newSlot_ok(2) by simp

theorem slot_conservation_witness:
  "\<exists>gone. (\<forall>m \<in># gone. \<exists>t \<in> {} \<union> op_clock (Enqueue (plain ''a'' 50 1) 3). expired m t) \<and>
    image_mset core ({#} + op_in (Enqueue (plain ''a'' 50 1) 3))
      = image_mset core (held (enqueue (newSlot 0) (plain ''a'' 50 1) 3) + ({#} + op_out (newSlot 0) (Enqueue (plain ''a'' 50 1) 3)) + gone)"
  by (rule slot_conservation [OF slot_run.Step [OF slot_run.Start slot_step.Enqueue]])
    (simp_all add: prio_valid_100 plain_def newSlot_ok ids_ok_def)

subsection \<open>Groups\<close>

text \<open>C36: No group is stranded and none is offered twice. In every reachable state, a group in the
  map is either locked and then owned by exactly one lease, or unlocked and then listed: it has
  messages, its band is the priority of its head message, and exactly one live entry for it waits
  in that band.\<close>

theorem no_group_stranded:
  assumes "slot_reach s" and "map_of (groups s) k = Some r"
  shows "(locked (gheap s r) \<and> \<not> inBand (gheap s r) \<and> (\<exists>!x. x \<in> set (inflight s) \<and> l_g (snd x) = r)) \<or>
    (\<not> locked (gheap s r) \<and> inBand (gheap s r) \<and>
     (\<exists>m ms. dq_list (msgs (gheap s r)) = m # ms \<and> Priority m = band (gheap s r)) \<and>
     count_list (entries s (band (gheap s r))) (cur_entry (gheap s) r) = 1)"
proof -
  have ok: "slot_core s" using reach_ok [OF assms(1)] slot_okD by blast
  note b = slot_coreD(1) [OF ok] and lo = slot_coreD(2) [OF ok]
  have r: "r \<in> refs s" using map_of_groups [OF band_okD(1) [OF b] assms(2)] by blast
  show ?thesis
  proof (cases "locked (gheap s r)")
    case True
    then obtain x where x: "x \<in> set (inflight s)" "l_g (snd x) = r" using lo r by (auto simp: lease_ok_def)
    moreover have "y = x" if "y \<in> set (inflight s)" "l_g (snd y) = r" for y
      using that x lo unfolding lease_ok_def distinct_map inj_on_def by force
    moreover have "\<not> inBand (gheap s r)" using True r band_okD(4) [OF b] by (auto simp: listed_wf_def)
    ultimately show ?thesis using True by blast
  next
    case False
    then have "inBand (gheap s r)" using r band_okD(5) [OF b] by (auto simp: progress_def)
    with False r band_okD(4) [OF b] show ?thesis unfolding listed_wf_def by blast
  qed
qed

text \<open>C37: Ordering groups are processed one message at a time: in every reachable state, two leases
  whose messages are of the same group are the same lease.\<close>

theorem group_serial:
  assumes "slot_reach s" and "x \<in> set (inflight s)" "y \<in> set (inflight s)"
    and "msg_group (l_msg (snd x)) = msg_group (l_msg (snd y))"
  shows "x = y"
proof -
  have ok: "slot_core s" using reach_ok [OF assms(1)] slot_okD by blast
  note wf = band_okD(1) [OF slot_coreD(1) [OF ok]] and lo = slot_coreD(2) [OF ok]
  have "lease_wf s (fst x) (snd x)" "lease_wf s (fst y) (snd y)" using lo assms by (simp_all add: lease_ok_def)
  then have "gid (gheap s (l_g (snd x))) = gid (gheap s (l_g (snd y)))" "l_g (snd x) \<in> refs s" "l_g (snd y) \<in> refs s"
    using assms(4) by (simp_all add: lease_wf_def msg_ok_def)
  then have "l_g (snd x) = l_g (snd y)" using refs_map_of [OF wf] by (metis option.inject)
  then show ?thesis using assms(2,3) lo unfolding lease_ok_def distinct_map inj_on_def by simp
qed

theorem no_group_stranded_witness:
  "(\<lambda>s r. (locked (gheap s r) \<and> \<not> inBand (gheap s r) \<and> (\<exists>!x. x \<in> set (inflight s) \<and> l_g (snd x) = r)) \<or>
    (\<not> locked (gheap s r) \<and> inBand (gheap s r) \<and>
     (\<exists>m ms. dq_list (msgs (gheap s r)) = m # ms \<and> Priority m = band (gheap s r)) \<and>
     count_list (entries s (band (gheap s r))) (cur_entry (gheap s) r) = 1))
   (enqueue (newSlot 0) (plain ''a'' 50 1) 3) 0"
  by (rule no_group_stranded [OF reach_one, where k = "''a''"])
    (simp add: enqueue_def held_back_def plain_def is_zero_def admit_def group_ref_def newSlot_def msg_group_def Let_def)

theorem group_serial_witness:
  "hd (inflight (fst (take_msg (enqueue (newSlot 0) (plain ''a'' 50 1) 3) 50 4 10)))
   = last (inflight (fst (take_msg (enqueue (newSlot 0) (plain ''a'' 50 1) 3) 50 4 10)))"
proof (rule group_serial [OF reach_step [OF reach_one slot_step.Take [of 50]]])
  let ?l = "inflight (fst (take_msg (enqueue (newSlot 0) (plain ''a'' 50 1) 3) 50 4 10))"
  have l: "map (\<lambda>x. ID (l_msg (snd x))) ?l = [''a'']" by code_simp
  then show "hd ?l \<in> set ?l" "last ?l \<in> set ?l" by (cases ?l; force)+
  show "msg_group (l_msg (snd (hd ?l))) = msg_group (l_msg (snd (last ?l)))"
    using l by (cases ?l) auto
qed simp

subsection \<open>The group queues\<close>

text \<open>The abstract state: for each group, the messages waiting, oldest first.\<close>

definition group_queue :: "slot \<Rightarrow> string \<Rightarrow> message list" where
  "group_queue s k = (case map_of (groups s) k of None \<Rightarrow> [] | Some r \<Rightarrow> dq_list (msgs (gheap s r)))"

lemma group_queue_ref: "groups_wf s \<Longrightarrow> r \<in> refs s \<Longrightarrow> group_queue s (gid (gheap s r)) = dq_list (msgs (gheap s r))"
  using refs_map_of [of s r] by (simp add: group_queue_def)

lemma group_queue_other:
  assumes "groups_wf s" "\<And>r. r \<in> refs s \<Longrightarrow> gid (gheap s r) \<noteq> k"
  shows "group_queue s k = []"
proof (cases "map_of (groups s) k")
  case (Some r)
  from map_of_groups [OF assms(1) Some] assms(2) show ?thesis by blast
qed (simp add: group_queue_def)

lemma group_queue_cong:
  assumes "groups_wf s" "groups_wf s'" "refs s' = refs s" "\<And>r. r \<in> refs s \<Longrightarrow> gid (gheap s' r) = gid (gheap s r)"
    and "\<And>r. r \<in> refs s \<Longrightarrow> gid (gheap s r) = k \<Longrightarrow> dq_list (msgs (gheap s' r)) = dq_list (msgs (gheap s r))"
  shows "group_queue s' k = group_queue s k"
proof (cases "\<exists>r \<in> refs s. gid (gheap s r) = k")
  case True
  then obtain r where r: "r \<in> refs s" "gid (gheap s r) = k" by blast
  then show ?thesis using group_queue_ref [OF assms(1), of r] group_queue_ref [OF assms(2), of r] assms by simp
next
  case False
  then show ?thesis using group_queue_other [OF assms(1), of k] group_queue_other [OF assms(2), of k] assms by auto
qed

lemma group_queue_same:
  "groups s' = groups s \<Longrightarrow> (\<And>r. msgs (gheap s' r) = msgs (gheap s r)) \<Longrightarrow> group_queue s' k = group_queue s k"
  by (simp add: group_queue_def split: option.split)

lemma group_queue_frame [simp]:
  "group_queue (refreshHint s) k = group_queue s k" "group_queue (pushGroup s r) k = group_queue s k"
  "group_queue (move s m a b) k = group_queue s k" "group_queue (hold s m a) k = group_queue s k"
  "group_queue (s\<lparr>st := t\<rparr>) k = group_queue s k" "group_queue (s\<lparr>inflight := al\<rparr>) k = group_queue s k"
  by (rule group_queue_same; simp)+

lemma group_queue_dropGroupIfIdle:
  "groups_wf s \<Longrightarrow> r \<in> refs s \<Longrightarrow> group_queue (dropGroupIfIdle s r) k = group_queue s k"
  using refs_map_of [of s r] by (auto simp: dropGroupIfIdle_def Let_def group_queue_def split: option.splits)

lemma group_queue_unlock:
  assumes "groups_wf s" "r \<in> refs s"
  shows "group_queue (unlock s r) k = group_queue s k"
proof -
  let ?s = "upd_group s r (\<lambda>g. g\<lparr>locked := False\<rparr>)"
  have "groups_wf ?s" by (rule groups_wf_upd) (simp_all add: assms groups_wf_dq)
  then have "group_queue (dropGroupIfIdle ?s r) k = group_queue ?s k" using assms(2) by (intro group_queue_dropGroupIfIdle) simp_all
  moreover have "group_queue ?s k = group_queue s k" by (rule group_queue_same) simp_all
  ultimately show ?thesis by (simp add: unlock_def Let_def)
qed

lemma group_queue_upd:
  assumes "groups_wf s" "r \<in> refs s"
  shows "group_queue (upd_group s r f) k =
    (if k = gid (gheap s r) then dq_list (msgs (f (gheap s r))) else group_queue s k)"
proof (cases "map_of (groups s) k")
  case None
  then show ?thesis using refs_map_of [OF assms(1), of r] assms(2) by (auto simp: group_queue_def)
next
  case (Some r')
  have g: "gid (gheap s r') = k" using map_of_groups [OF assms(1) Some] by blast
  show ?thesis
  proof (cases "r' = r")
    case True
    with Some g show ?thesis by (simp add: group_queue_def)
  next
    case False
    have "k \<noteq> gid (gheap s r)"
    proof
      assume "k = gid (gheap s r)"
      with refs_map_of [OF assms(1), of r] assms(2) Some False show False by simp
    qed
    with Some False show ?thesis by (simp add: group_queue_def)
  qed
qed

lemma group_queue_admit:
  assumes ok: "band_ok X s"
  shows "group_queue (admit s m) k = group_queue s k @ (if k = msg_group m then [m] else [])"
proof -
  obtain s1 r where g: "group_ref s (msg_group m) = (s1, r)" by (cases "group_ref s (msg_group m)")
  note G = band_ok_group_ref [OF ok g]
  note wf1 = band_okD(1) [OF G(1)]
  have q1: "group_queue s1 k = group_queue s k"
  proof (cases "map_of (groups s) (msg_group m)")
    case (Some r')
    with G(5) show ?thesis by auto
  next
    case None
    then have s1: "s1 = s\<lparr>gheap := (gheap s)(gnext s := empty_group (msg_group m)), gnext := gnext s + 1,
        groups := AList.update (msg_group m) (gnext s) (groups s)\<rparr>" using g by (auto simp: group_ref_def)
    have "r' \<noteq> gnext s" if "map_of (groups s) k = Some r'" for r'
      using map_of_groups [OF band_okD(1) [OF ok] that] by auto
    then show ?thesis using None by (auto simp: s1 group_queue_def empty_group_def split: option.splits)
  qed
  have "group_queue (upd_group s1 r (\<lambda>g. g\<lparr>msgs := pushBack (msgs g) m\<rparr>)) k
      = group_queue s k @ (if k = msg_group m then [m] else [])"
    using group_queue_ref [OF wf1 G(2)] G(3) q1 groups_wf_dq [OF wf1]
    by (auto simp: group_queue_upd [OF wf1 G(2)])
  note A = this
  have "admit s m = pushGroup (upd_group s1 r (\<lambda>g. g\<lparr>msgs := pushBack (msgs g) m\<rparr>)) r \<or>
      admit s m = upd_group s1 r (\<lambda>g. g\<lparr>msgs := pushBack (msgs g) m\<rparr>)"
    by (simp add: admit_def g Let_def)
  then show ?thesis by (elim disjE) (simp_all only: A group_queue_frame(2))
qed

text \<open>C39: Delivery within a group is first in, first out. When a take in a reachable state returns a
  message, it is the oldest unexpired message of its group, with its attempt counter raised by one;
  what was before it in the group had expired, what was behind it is now the group's queue, and
  every other group's queue is untouched.\<close>

theorem take_fifo:
  assumes "slot_reach s" and "p < 128" and "take_msg s p now vis = (s', Some (m', rc))"
  shows "\<exists>dead m. m' = m\<lparr>Attempts := Attempts m + 1\<rparr> \<and> (\<forall>x \<in> set dead. expired x now) \<and> \<not> expired m now \<and>
    group_queue s (msg_group m') = dead @ m # group_queue s' (msg_group m') \<and>
    (\<forall>k. k \<noteq> msg_group m' \<longrightarrow> group_queue s' k = group_queue s k)"
proof -
  have ok: "slot_ok s" by (rule reach_ok [OF assms(1)])
  note b = slot_coreD(1) [OF slot_okD(2) [OF ok]]
  show ?thesis
  proof (rule take_msg_cases [OF slot_okD(1) [OF ok] assms(2,3)])
    fix r dead m rest l
    assume T: "Some (m', rc) = Some (m\<lparr>Attempts := Attempts m + 1\<rparr>, \<lparr>Slot = sid s, MessageID = ID m, Epoch = epochSeq s + 1, Incarnation = 0\<rparr>)"
      "slot_ok s'" "r \<in> refs s" "dq_list (msgs (gheap s r)) = dead @ m # rest" "\<forall>m \<in> set dead. expired m now"
      "\<not> expired m now" "dq_list (msgs (gheap s' r)) = rest" "gid (gheap s' r) = gid (gheap s r)" "refs s' = refs s"
      "\<And>r'. r' \<noteq> r \<Longrightarrow> gheap s' r' = gheap s r'"
    note wf = band_okD(1) [OF b] and wf' = band_okD(1) [OF slot_coreD(1) [OF slot_okD(2) [OF T(2)]]]
    have k: "msg_group m' = gid (gheap s r)" using T band_okD(6) [OF b] by (simp add: contents_wf_def msg_ok_def)
    have "group_queue s (msg_group m') = dead @ m # rest" using group_queue_ref [OF wf T(3)] T(4) k by simp
    moreover have "group_queue s' (msg_group m') = rest" using group_queue_ref [OF wf', of r] T k by simp
    moreover have "group_queue s' k' = group_queue s k'" if "k' \<noteq> msg_group m'" for k'
    proof (rule group_queue_cong [OF wf wf' T(9)])
      fix q assume "q \<in> refs s"
      show "gid (gheap s' q) = gid (gheap s q)" using T(8,10) by (cases "q = r") simp_all
      show "dq_list (msgs (gheap s' q)) = dq_list (msgs (gheap s q))" if "gid (gheap s q) = k'"
        using that k T(10) \<open>k' \<noteq> msg_group m'\<close> by (cases "q = r") simp_all
    qed
    ultimately show ?thesis using T(1,5,6) by auto
  qed simp
qed

theorem take_fifo_witness:
  "(\<lambda>s s' m'. \<exists>dead m. m' = m\<lparr>Attempts := Attempts m + 1\<rparr> \<and> (\<forall>x \<in> set dead. expired x 4) \<and> \<not> expired m 4 \<and>
    group_queue s (msg_group m') = dead @ m # group_queue s' (msg_group m') \<and>
    (\<forall>k. k \<noteq> msg_group m' \<longrightarrow> group_queue s' k = group_queue s k))
   (enqueue (newSlot 0) (plain ''a'' 50 1) 3) (fst (take_msg (enqueue (newSlot 0) (plain ''a'' 50 1) 3) 50 4 10))
   ((plain ''a'' 50 1)\<lparr>Attempts := 1\<rparr>)"
proof -
  have "snd (take_msg (enqueue (newSlot 0) (plain ''a'' 50 1) 3) 50 4 10)
    = Some ((plain ''a'' 50 1)\<lparr>Attempts := 1\<rparr>, \<lparr>Slot = 0, MessageID = ''a'', Epoch = 1, Incarnation = 0\<rparr>)"
    by code_simp
  then have "take_msg (enqueue (newSlot 0) (plain ''a'' 50 1) 3) 50 4 10
    = (fst (take_msg (enqueue (newSlot 0) (plain ''a'' 50 1) 3) 50 4 10),
       Some ((plain ''a'' 50 1)\<lparr>Attempts := 1\<rparr>, \<lparr>Slot = 0, MessageID = ''a'', Epoch = 1, Incarnation = 0\<rparr>))"
    by (metis prod.collapse)
  from take_fifo [OF reach_one _ this] show ?thesis by simp
qed

lemma lease_out_wf: "lease_out s l \<Longrightarrow> groups_wf s \<and> l_g l \<in> refs s \<and> msg_group (l_msg l) = gid (gheap s (l_g l))"
  using band_okD(1) by (auto simp: lease_out_def msg_ok_def)

lemma group_queue_ack:
  assumes "slot_inv s"
  shows "group_queue (fst (ack s r)) k = group_queue s k"
proof (cases "snd (ack s r) = None")
  case True
  then obtain l where l: "map_of (inflight s) (MessageID r) = Some l" "l_epoch l = Epoch r"
    by (auto simp: ack_def split: option.splits if_splits)
  let ?s0 = "s\<lparr>inflight := AList.delete (MessageID r) (inflight s)\<rparr>"
  let ?s1 = "move ?s0 (l_msg l) stInFlight stAbsent"
  let ?s2 = "?s1\<lparr>st := (st ?s1)\<lparr>n_acked := n_acked (st ?s1) + 1\<rparr>\<rparr>"
  have o: "groups_wf ?s0" "l_g l \<in> refs ?s0" using lease_out_wf [OF out_delete [OF assms l(1)]] by simp_all
  have wf: "groups_wf ?s2" by (rule groups_wf_same [OF o(1)]) (use groups_wf_dq [OF o(1)] in simp_all)
  have "fst (ack s r) = refreshHint (unlock ?s2 (l_g l))" using l by (simp add: ack_def Let_def)
  moreover have "group_queue (unlock ?s2 (l_g l)) k = group_queue ?s2 k"
    by (rule group_queue_unlock [OF wf]) (use o(2) in simp)
  ultimately show ?thesis by simp
next
  case False
  then have "fst (ack s r) = s" by (auto simp: ack_def Let_def split: option.splits if_splits)
  then show ?thesis by simp
qed

text \<open>Enqueue appends. In a reachable state, a valid message that is not delayed becomes the last
  of its group's queue, a delayed one leaves the queues alone, and no other group's queue changes.\<close>

theorem enqueue_appends:
  assumes "slot_reach s" and "prio_valid (Priority m)" and "ids_ok (add_mset m (held s))"
  shows "group_queue (enqueue s m now) = (if held_back m now then group_queue s
    else (group_queue s)(msg_group m := group_queue s (msg_group m) @ [m]))"
proof -
  note b = slot_coreD(1) [OF slot_okD(2) [OF reach_ok [OF assms(1)]]]
  let ?s = "move (s\<lparr>st := (st s)\<lparr>n_enqueued := n_enqueued (st s) + 1\<rparr>\<rparr>) m stAbsent stReady"
  have "band_ok {} ?s" using b by simp
  from group_queue_admit [OF this, of m] show ?thesis
    by (auto simp: enqueue_def fun_eq_iff)
qed

theorem enqueue_appends_witness:
  "group_queue (enqueue (enqueue (newSlot 0) (plain ''a'' 50 1) 3) (plain ''b'' 50 2) 5) ''b'' = [plain ''b'' 50 2]"
proof -
  have "ids_ok (add_mset (plain ''b'' 50 2) (held (enqueue (newSlot 0) (plain ''a'' 50 1) 3)))"
    unfolding held_one by (simp add: ids_ok_def) (simp add: plain_def)
  moreover have "group_queue (enqueue (newSlot 0) (plain ''a'' 50 1) 3) ''b'' = []" by code_simp
  ultimately show ?thesis using enqueue_appends [OF reach_one, of "plain ''b'' 50 2" 0 3 5]
    by (simp add: plain_def prio_valid_100 held_back_def is_zero_def msg_group_def)
qed

text \<open>A message given back without delay is the next one of its group. In a reachable state, a
  nack of a live lease whose message has not expired and has retries left puts that message, as it
  was delivered, in front of its group's queue and changes no other queue.\<close>

theorem nack_to_front:
  assumes "slot_reach s" and l: "map_of (inflight s) (MessageID r) = Some l" "l_epoch l = Epoch r"
    and e: "\<not> expired (l_msg l) now" "Attempts (l_msg l) < mr"
  shows "group_queue (fst (nack s r 0 now mr dl))
    = (group_queue s)(msg_group (l_msg l) := l_msg l # group_queue s (msg_group (l_msg l)))"
proof -
  let ?s0 = "s\<lparr>inflight := AList.delete (MessageID r) (inflight s)\<rparr>"
  let ?s1 = "upd_group ?s0 (l_g l) (\<lambda>g. g\<lparr>msgs := pushFront (msgs g) (l_msg l)\<rparr>)"
  let ?s2 = "move ?s1 (l_msg l) stInFlight stReady"
  let ?s3 = "?s2\<lparr>st := (st ?s2)\<lparr>n_requeued := n_requeued (st ?s2) + 1\<rparr>\<rparr>"
  have wf: "groups_wf ?s0" and r: "l_g l \<in> refs ?s0" and k: "msg_group (l_msg l) = gid (gheap s (l_g l))"
    using lease_out_wf [OF out_delete [OF slot_okD(1) [OF reach_ok [OF assms(1)]] l(1)]] by simp_all
  have wf1: "groups_wf ?s1" by (rule groups_wf_upd [OF wf]) (use groups_wf_dq [OF wf] in simp_all)
  have wf3: "groups_wf ?s3" by (rule groups_wf_same [OF wf1]) (use groups_wf_dq [OF wf1] in simp_all)
  have "fst (nack s r 0 now mr dl) = refreshHint (unlock ?s3 (l_g l))"
    using l e(1) e(2) [unfolded not_le [symmetric]] by (simp add: nack_def retire_def Let_def)
  moreover have "group_queue (unlock ?s3 (l_g l)) q = group_queue ?s3 q" for q
    by (rule group_queue_unlock [OF wf3]) (use r in simp)
  moreover have "group_queue ?s1 q = (if q = gid (gheap s (l_g l)) then l_msg l # dq_list (msgs (gheap s (l_g l))) else group_queue s q)" for q
    using group_queue_upd [OF wf r, of "\<lambda>g. g\<lparr>msgs := pushFront (msgs g) (l_msg l)\<rparr>" q] groups_wf_dq [OF wf, of "l_g l"] by simp
  moreover have "group_queue s (gid (gheap s (l_g l))) = dq_list (msgs (gheap s (l_g l)))"
    using group_queue_ref [OF wf r] by simp
  ultimately show ?thesis by (simp add: fun_eq_iff k)
qed

text \<open>The state the examples below start from: one message out with a worker, at epoch 1.\<close>

definition one_leased :: slot where
  "one_leased = fst (take_msg (enqueue (newSlot 0) (plain ''a'' 50 1) 3) 50 4 10)"

lemma reach_one_leased: "slot_reach one_leased"
  unfolding one_leased_def by (rule reach_step [OF reach_one slot_step.Take]) simp

definition rcpt :: "string \<Rightarrow> nat \<Rightarrow> receipt" where
  "rcpt i e = \<lparr>Slot = 0, MessageID = i, Epoch = e, Incarnation = 0\<rparr>"

definition the_lease :: lease where
  "the_lease = \<lparr>l_msg = (plain ''a'' 50 1)\<lparr>Attempts := 1\<rparr>, l_g = 0, l_epoch = 1, l_deadline = 14\<rparr>"

lemma one_leased_inflight: "inflight one_leased = [(''a'', the_lease)]"
  by code_simp

theorem nack_to_front_witness:
  "group_queue (fst (nack one_leased (rcpt ''a'' 1) 0 5 3 True)) ''a'' = (plain ''a'' 50 1)\<lparr>Attempts := 1\<rparr> # group_queue one_leased ''a''"
  using nack_to_front [OF reach_one_leased, of "rcpt ''a'' 1" the_lease 5 3 True]
  by (simp add: one_leased_inflight rcpt_def the_lease_def plain_def expired_def is_zero_def msg_group_def)

end
