(* ===== verification/SlotLease.thy ===== *)
theory SlotLease
  imports SlotProps
begin

text \<open>
  Receipts and the clock: what an epoch guarantees, and what the three sweeps do in every reachable
  state.
\<close>

subsection \<open>Epochs\<close>

lemma sweepLeases_loop_epoch:
  "sweepLeases_loop s now mr dl dead n = (s', dead', n') \<Longrightarrow> epochSeq s' = epochSeq s \<and> sid s' = sid s"
proof (induction s now mr dl dead n arbitrary: s' dead' n' rule: sweepLeases_loop.induct)
  case (1 s now mr dl dead n)
  show ?case
  proof (cases "timers s \<noteq> [] \<and> \<not> now < t_at (timers s ! 0)")
    case False
    with 1(4) show ?thesis by (subst (asm) sweepLeases_loop.simps) auto
  next
    case True
    obtain e h where eh: "heap_pop t_at (timers s) = (e, h)" by (cases "heap_pop t_at (timers s)")
    let ?s1 = "s\<lparr>timers := h\<rparr>"
    show ?thesis
    proof (cases "map_of (inflight s) (t_id e)")
      case None
      then have "sweepLeases_loop ?s1 now mr dl dead n = (s', dead', n')"
        using 1(4) True eh by (subst (asm) sweepLeases_loop.simps) simp
      from 1(1) [OF True refl eh [symmetric] refl _ this] None show ?thesis by simp
    next
      case (Some l)
      show ?thesis
      proof (cases "l_epoch l = t_epoch e")
        case False
        then have "sweepLeases_loop ?s1 now mr dl dead n = (s', dead', n')"
          using 1(4) True eh Some by (subst (asm) sweepLeases_loop.simps) simp
        from 1(2) [OF True refl eh [symmetric] refl _ False this] Some show ?thesis by simp
      next
        case e: True
        let ?s2 = "?s1\<lparr>inflight := AList.delete (t_id e) (inflight ?s1)\<rparr>"
        obtain s3 m bk where rt: "retire ?s2 l now mr 0 dl = (s3, m, bk)" by (cases "retire ?s2 l now mr 0 dl")
        have "sweepLeases_loop s3 now mr dl (case m of None \<Rightarrow> dead | Some m \<Rightarrow> dead @ [m]) (if bk then n + 1 else n) = (s', dead', n')"
          using 1(4) True eh Some e rt by (subst (asm) sweepLeases_loop.simps) simp
        from 1(3) [OF True refl eh [symmetric] refl _ _ refl refl rt [symmetric] refl this] Some e retire_frame [OF rt]
        show ?thesis by simp
      qed
    qed
  qed
qed

lemma sweepLeases_epoch: "sweepLeases s now mr dl = (s', dead, n) \<Longrightarrow> epochSeq s' = epochSeq s \<and> sid s' = sid s"
  by (auto simp: sweepLeases_def split: prod.splits dest: sweepLeases_loop_epoch)

text \<open>A step keeps the leases it does not end, and a lease it creates has an epoch never used before.\<close>

lemma step_leases:
  assumes ok: "slot_ok s" and st: "slot_step s op s'"
  shows "epochSeq s \<le> epochSeq s' \<and>
    (\<forall>x \<in> set (inflight s'). x \<in> set (inflight s) \<or> epochSeq s < l_epoch (snd x))"
  using st
proof cases
  case (Enqueue m now)
  then show ?thesis by (simp add: enqueue_def Let_def)
next
  case (Take p now vis)
  obtain x res where t: "take_msg s p now vis = (x, res)" by (cases "take_msg s p now vis")
  show ?thesis unfolding Take t
    by (rule take_msg_cases [OF slot_okD(1) [OF ok] Take(3) t]) auto
next
  case (Ack r)
  have "inflight (fst (ack s r)) = inflight s \<or> inflight (fst (ack s r)) = AList.delete (MessageID r) (inflight s)"
    "epochSeq (fst (ack s r)) = epochSeq s"
    by (simp_all add: ack_def Let_def split: option.split)
  then show ?thesis unfolding Ack by (auto simp: AList.delete_eq)
next
  case (Nack r delay now mr dl)
  have "(inflight (fst (nack s r delay now mr dl)) = inflight s \<or>
      inflight (fst (nack s r delay now mr dl)) = AList.delete (MessageID r) (inflight s)) \<and>
    epochSeq (fst (nack s r delay now mr dl)) = epochSeq s"
    by (auto simp: nack_def Let_def dest: retire_frame split: option.split prod.split)
  then show ?thesis unfolding Nack by (auto simp: AList.delete_eq)
next
  case (SweepLeases now mr dl)
  obtain x dead n where t: "sweepLeases s now mr dl = (x, dead, n)" by (cases "sweepLeases s now mr dl")
  show ?thesis unfolding SweepLeases
    using sweepLeases_spec(3) [OF slot_okD(1) [OF ok] t] sweepLeases_epoch [OF t] t by simp
next
  case (SweepTTL ks now)
  obtain x n where t: "sweepTTL s ks now = (x, n)" by (cases "sweepTTL s ks now")
  from sweepTTL_spec [OF slot_okD(1) [OF ok] t] have "inflight x = inflight s" "epochSeq x = epochSeq s" by metis+
  then show ?thesis unfolding SweepTTL using t by simp
next
  case (ReleaseDelayed now)
  obtain x n where t: "releaseDelayed s now = (x, n)" by (cases "releaseDelayed s now")
  show ?thesis unfolding ReleaseDelayed using releaseDelayed_spec(2,4) [OF ok t] t by simp
next
  case (Absorb ms gs now)
  have p: "\<And>m. m \<in> set ms \<Longrightarrow> Priority m \<le> 100" using Absorb(3) by (simp add: prio_valid_100)
  show ?thesis unfolding Absorb using absorb_slot_spec(3,5) [OF slot_okD(1) [OF ok] p Absorb(4,5,6)] by simp
next
  case (Drain ki kg)
  then show ?thesis by (simp add: drain_def Let_def)
next
  case (Mark b)
  then show ?thesis by simp
qed

lemma epochs_le:
  assumes "slot_core s" "x \<in> set (inflight s)"
  shows "l_epoch (snd x) \<le> epochSeq s"
proof -
  have t: "timers_ok s" using assms(1) slot_coreD by blast
  then have "timer_of (fst x) (snd x) \<in> set (timers s)" using assms(2) by (simp add: timers_ok_def)
  then have "t_epoch (timer_of (fst x) (snd x)) \<le> epochSeq s" using t unfolding timers_ok_def by blast
  then show ?thesis by (simp add: timer_of_def)
qed

lemma run_leases:
  assumes "slot_run s0 In Out T s" "slot_ok s0"
  shows "epochSeq s0 \<le> epochSeq s \<and>
    (\<forall>x \<in> set (inflight s). x \<in> set (inflight s0) \<or> epochSeq s0 < l_epoch (snd x))"
  using assms
proof induction
  case (Step s0 In Out T s op s')
  then have "slot_ok s" using run_ok by blast
  from step_leases [OF this Step.hyps(2)] Step show ?case by fastforce
qed simp

text \<open>A receipt names one delivery for good. Let a take in a reachable state hand out a message
  with a receipt, and let anything at all happen to the slot afterwards. A lease the receipt still
  matches is the very lease of that delivery: that message, that deadline. So a receipt whose lease
  has lapsed and whose message is out again cannot settle the new delivery.\<close>

theorem receipt_one_delivery:
  assumes "slot_reach s" and "p < 128" and t: "take_msg s p now vis = (s1, Some (m, rc))"
    and run: "slot_run s1 In Out T s2" and l: "map_of (inflight s2) (MessageID rc) = Some l" "l_epoch l = Epoch rc"
  shows "l_msg l = m \<and> l_deadline l = now + vis"
proof -
  have ok: "slot_ok s" by (rule reach_ok [OF assms(1)])
  have ok1: "slot_ok s1" using step_take [OF ok assms(2), of now vis] t by simp
  have mem: "(MessageID rc, l) \<in> set (inflight s2)" using l(1) by (rule map_of_SomeD)
  show ?thesis
  proof (rule take_msg_cases [OF slot_okD(1) [OF ok] assms(2) t])
    fix r dead m0 rest l0
    assume T: "Some (m, rc) = Some (m0\<lparr>Attempts := Attempts m0 + 1\<rparr>, \<lparr>Slot = sid s, MessageID = ID m0, Epoch = epochSeq s + 1, Incarnation = 0\<rparr>)"
      "l0 = \<lparr>l_msg = m0\<lparr>Attempts := Attempts m0 + 1\<rparr>, l_g = r, l_epoch = epochSeq s + 1, l_deadline = now + vis\<rparr>"
      "inflight s1 = inflight s @ [(ID m0, l0)]" "epochSeq s1 = epochSeq s + 1"
    from run_leases [OF run ok1] mem l(2) T(1,4) have "(MessageID rc, l) \<in> set (inflight s1)" by force
    moreover have "(MessageID rc, l) \<notin> set (inflight s)"
      using epochs_le [OF slot_okD(2) [OF ok], of "(MessageID rc, l)"] l(2) T(1) by auto
    ultimately show ?thesis using T by auto
  qed simp
qed

lemma one_leased_groups: "groups one_leased = [(''a'', 0)]"
  by code_simp

lemma settled_no_lease:
  assumes ok: "slot_ok s" and st: "slot_step s op s1" and run: "slot_run s1 In Out T s2"
    and l: "map_of (inflight s) i = Some l" and d: "inflight s1 = AList.delete i (inflight s)"
  shows "map_of (inflight s2) i = Some l' \<Longrightarrow> l_epoch l' \<noteq> l_epoch l"
proof
  assume l': "map_of (inflight s2) i = Some l'" and e: "l_epoch l' = l_epoch l"
  have ok1: "slot_ok s1" using step_ok [OF ok st] by blast
  have le: "l_epoch l \<le> epochSeq s1"
    using epochs_le [OF slot_okD(2) [OF ok], of "(i, l)"] l step_leases [OF ok st] by (force dest: map_of_SomeD)
  have "(i, l') \<in> set (inflight s2)" using l' by (rule map_of_SomeD)
  then have "(i, l') \<in> set (inflight s1)" using run_leases [OF run ok1] le e by force
  then show False using d by (auto simp: AList.delete_eq)
qed

lemma ack_None: "snd (ack s rc) = None \<longleftrightarrow> (\<exists>l. map_of (inflight s) (MessageID rc) = Some l \<and> l_epoch l = Epoch rc)"
  by (simp add: ack_def Let_def split: option.split)

lemma nack_Inr: "(\<exists>d. snd (nack s rc delay now mr dl) = Inr d) \<longleftrightarrow>
    (\<exists>l. map_of (inflight s) (MessageID rc) = Some l \<and> l_epoch l = Epoch rc)"
  by (auto simp: nack_def Let_def split: option.split prod.split)

theorem receipt_one_delivery_witness:
  "l_msg the_lease = (plain ''a'' 50 1)\<lparr>Attempts := 1\<rparr> \<and> l_deadline the_lease = 4 + 10"
proof (rule receipt_one_delivery [OF reach_one, where p = 50 and rc = "rcpt ''a'' 1"])
  have "snd (take_msg (enqueue (newSlot 0) (plain ''a'' 50 1) 3) 50 4 10) = Some ((plain ''a'' 50 1)\<lparr>Attempts := 1\<rparr>, rcpt ''a'' 1)"
    by code_simp
  then show "take_msg (enqueue (newSlot 0) (plain ''a'' 50 1) 3) 50 4 10 = (one_leased, Some ((plain ''a'' 50 1)\<lparr>Attempts := 1\<rparr>, rcpt ''a'' 1))"
    by (metis one_leased_def prod.collapse)
  show "slot_run one_leased {#} {#} {} one_leased" by (rule slot_run.Start)
qed (simp_all add: one_leased_inflight rcpt_def the_lease_def)

text \<open>C38: A delivery is settled at most once. Once a receipt from a take has been accepted by an
  ack, or by a nack, no later ack or nack with it is accepted, whatever the slot does in between.\<close>

theorem settled_once:
  assumes "slot_reach s"
    and settled: "s1 = fst (ack s rc) \<and> snd (ack s rc) = None \<or>
      s1 = fst (nack s rc delay now mr dl) \<and> (\<exists>d. snd (nack s rc delay now mr dl) = Inr d)"
    and run: "slot_run s1 In Out T s2"
  shows "snd (ack s2 rc) \<noteq> None \<and> (\<forall>d. snd (nack s2 rc delay' now' mr' dl') \<noteq> Inr d)"
proof -
  have ok: "slot_ok s" by (rule reach_ok [OF assms(1)])
  have "\<exists>l op. map_of (inflight s) (MessageID rc) = Some l \<and> l_epoch l = Epoch rc \<and> slot_step s op s1"
    using settled ack_None [of s rc] nack_Inr [of s rc delay now mr dl] by (metis slot_step.Ack slot_step.Nack)
  then obtain l op where l: "map_of (inflight s) (MessageID rc) = Some l" "l_epoch l = Epoch rc" and st: "slot_step s op s1"
    by blast
  have d: "inflight s1 = AList.delete (MessageID rc) (inflight s)"
    using l settled by (auto simp: ack_def nack_def Let_def dest: retire_frame split: prod.splits)
  have "map_of (inflight s2) (MessageID rc) \<noteq> Some l' \<or> l_epoch l' \<noteq> Epoch rc" for l'
    using settled_no_lease [OF ok st run l(1) d, of l'] l(2) by auto
  then show ?thesis using ack_None [of s2 rc] nack_Inr [of s2 rc delay' now' mr' dl'] by blast
qed

theorem settled_once_witness:
  "snd (ack (fst (ack one_leased (rcpt ''a'' 1))) (rcpt ''a'' 1)) \<noteq> None \<and>
   (\<forall>d. snd (nack (fst (ack one_leased (rcpt ''a'' 1))) (rcpt ''a'' 1) 0 5 3 True) \<noteq> Inr d)"
  by (rule settled_once [OF reach_one_leased _ slot_run.Start, of _ _ 0 5 3 True])
    (simp add: ack_None one_leased_inflight rcpt_def the_lease_def)

subsection \<open>The sweeps\<close>

text \<open>The lease sweep ends exactly the leases whose deadline has come. In a reachable state,
  the leases left are those with a deadline still ahead, unchanged; every message of an ended lease
  is back in the slot, or is handed out for dead-lettering, which happens only with the retries
  used up and the message unexpired, or has expired; nothing else is lost or added.\<close>

theorem sweep_leases_exact:
  assumes "slot_reach s" and "sweepLeases s now mr dl = (s', dead, n)"
  shows "inflight s' = filter (\<lambda>x. now < l_deadline (snd x)) (inflight s) \<and>
    (\<forall>m \<in> set dead. Attempts m \<ge> mr \<and> dl \<and> \<not> expired m now) \<and>
    (\<exists>gone. (\<forall>m \<in># gone. expired m now) \<and> held s = held s' + gone + mset dead)"
  using sweepLeases_spec [OF slot_okD(1) [OF reach_ok [OF assms(1)]] assms(2)] by blast

theorem sweep_leases_exact_witness:
  "inflight (fst (sweepLeases one_leased 14 3 True)) = [] \<and>
   {m \<in> set (fst (snd (sweepLeases one_leased 14 3 True))). Attempts m < 3 \<or> expired m 14} = {} \<and>
   (\<exists>gone. (\<forall>m \<in># gone. expired m 14) \<and>
      held one_leased = held (fst (sweepLeases one_leased 14 3 True)) + gone + mset (fst (snd (sweepLeases one_leased 14 3 True))))"
proof -
  obtain s' dead n where e: "sweepLeases one_leased 14 3 True = (s', dead, n)" by (cases "sweepLeases one_leased 14 3 True")
  from sweep_leases_exact [OF reach_one_leased e] show ?thesis
    by (auto simp: e one_leased_inflight the_lease_def)
qed

text \<open>After the expiry sweep no group has an expired message at its head, so none that is due to
  be delivered next is dead: in a reachable state, for any order of visiting the groups, every
  group left has an unexpired head, what went had expired and is counted, and leases and
  delayed messages are as they were.\<close>

theorem sweep_ttl_clears:
  assumes "slot_reach s" and "iterates ks (groups s)" and "sweepTTL s ks now = (s', n)"
  shows "(\<forall>k r m ms. map_of (groups s') k = Some r \<longrightarrow> dq_list (msgs (gheap s' r)) = m # ms \<longrightarrow> \<not> expired m now) \<and>
    inflight s' = inflight s \<and> delayed s' = delayed s \<and>
    (\<exists>dead. (\<forall>m \<in> set dead. expired m now) \<and> length dead = n \<and> ready_ms s = ready_ms s' + mset dead)"
proof -
  from sweepTTL_spec [OF slot_okD(1) [OF reach_ok [OF assms(1)]] assms(3)] obtain dead where D: "slot_ok s'" "n = length dead"
    "\<forall>m \<in> set dead. expired m now" "ready_ms s = ready_ms s' + mset dead" "inflight s' = inflight s"
    "delayed s' = delayed s" "\<And>r. iterates ks (groups s) \<Longrightarrow> r \<in> refs s' \<Longrightarrow> fresh_head s' r now" by metis
  have "\<not> expired m now" if "map_of (groups s') k = Some r" "dq_list (msgs (gheap s' r)) = m # ms" for k r m ms
    using that D(7) [OF assms(2), of r] map_of_groups [OF band_okD(1) [OF slot_coreD(1) [OF slot_okD(2) [OF D(1)]]]]
    by (auto simp: fresh_head_def)
  then show ?thesis using D by blast
qed

theorem sweep_ttl_clears_witness:
  "inflight (fst (sweepTTL one_leased [''a''] 9)) = inflight one_leased"
  using sweep_ttl_clears [OF reach_one_leased _ surjective_pairing, of "[''a'']" 9]
  by (simp add: iterates_def one_leased_groups)

text \<open>The delay sweep releases exactly the messages whose time has come: in a reachable state,
  the messages still delayed are those due later, those due are ready with their delay cleared,
  and the count returned is their number.\<close>

theorem release_delayed_exact:
  assumes "slot_reach s" and "releaseDelayed s now = (s', n)"
  shows "delayed_ms s' = filter_mset (\<lambda>m. now < DeliverAfter m) (delayed_ms s) \<and>
    ready_ms s' = ready_ms s + image_mset undelay (filter_mset (\<lambda>m. \<not> now < DeliverAfter m) (delayed_ms s)) \<and>
    n = size (filter_mset (\<lambda>m. \<not> now < DeliverAfter m) (delayed_ms s)) \<and> inflight s' = inflight s"
  using releaseDelayed_spec [OF reach_ok [OF assms(1)] assms(2)] by blast

theorem release_delayed_exact_witness:
  "snd (releaseDelayed (fst (nack one_leased (rcpt ''a'' 1) 7 5 3 True)) 12)
   = size (filter_mset (\<lambda>m. \<not> 12 < DeliverAfter m) (delayed_ms (fst (nack one_leased (rcpt ''a'' 1) 7 5 3 True))))"
  using release_delayed_exact [OF reach_step [OF reach_one_leased slot_step.Nack] surjective_pairing,
    of "rcpt ''a'' 1" 7 5 3 True 12] by blast

subsection \<open>Handing a slot over\<close>

text \<open>Copying and draining yield everything. In a reachable state, for any visiting orders, the
  copy taken for a hand-over and the list returned by a drain are exactly the messages the
  slot holds (ready, in flight and delayed); the drained list is in order of sequence number and
  the drained slot holds nothing.\<close>

theorem copy_and_drain_complete:
  assumes "slot_reach s" and "iterates ki (inflight s)" "iterates kg (groups s)" and "drain s ki kg = (s', ms)"
  shows "mset (copyAll s ki kg) = held s \<and> mset ms = held s \<and> sorted (map Seq ms) \<and> held s' = {#}"
  using drain_spec [OF slot_okD(2) [OF reach_ok [OF assms(1)]] assms(2-4)]
    copyAll_held [OF slot_okD(2) [OF reach_ok [OF assms(1)]] assms(2,3)] by simp

theorem copy_and_drain_complete_witness:
  "mset (copyAll one_leased [''a''] [''a'']) = held one_leased \<and>
   mset (snd (drain one_leased [''a''] [''a''])) = held one_leased"
  using copy_and_drain_complete [OF reach_one_leased _ _ surjective_pairing, of "[''a'']" "[''a'']"]
  by (simp add: iterates_def one_leased_groups one_leased_inflight)

end
