(* ===== verification/SlotPrio.thy ===== *)
theory SlotPrio
  imports SlotLease
begin

text \<open>
  Priorities in a slot: what the lock-free hint announces, what a take at the announced band returns,
  and what the statistics report.
\<close>

text \<open>A group is on offer when no worker has it; its head message is the next one it would deliver.\<close>

definition offers :: "slot \<Rightarrow> nat \<Rightarrow> message \<Rightarrow> bool" where
  "offers s r h \<longleftrightarrow> r \<in> refs s \<and> \<not> locked (gheap s r) \<and> (\<exists>ms. dq_list (msgs (gheap s r)) = h # ms)"

lemma offers_band:
  assumes ok: "band_ok {} s" and o: "offers s r h"
  shows "inBand (gheap s r)" "band (gheap s r) = Priority h" "mask_bit s (Priority h)" "Priority h < 128"
    "cur_entry (gheap s) r \<in> set (entries s (Priority h))"
proof -
  show i: "inBand (gheap s r)" using o band_okD(5) [OF ok] by (auto simp: offers_def progress_def)
  have L: "count_list (entries s (band (gheap s r))) (cur_entry (gheap s) r) = 1"
    "\<exists>m ms. dq_list (msgs (gheap s r)) = m # ms \<and> Priority m = band (gheap s r)"
    using o i band_okD(4) [OF ok] by (auto simp: listed_wf_def offers_def)
  show b: "band (gheap s r) = Priority h" using L(2) o by (auto simp: offers_def)
  show e: "cur_entry (gheap s) r \<in> set (entries s (Priority h))"
    using L(1) b by (metis count_notin zero_neq_one)
  then have "bands s (Priority h) \<noteq> None" by (auto simp: entries_def band_deque_def split: option.splits)
  then have p: "Priority h \<le> 100 \<and> (Priority h < 128 \<longrightarrow> mask_bit s (Priority h))"
    using band_okD(2) [OF ok] by (auto simp: bands_wf_def)
  then show "Priority h < 128" using prio_less_128 by blast
  with p show "mask_bit s (Priority h)" by blast
qed

lemma hint_highest: "slot_ok s \<Longrightarrow> hint s = (case highestBand s of None \<Rightarrow> 0 | Some p \<Rightarrow> unat p + 1)"
proof -
  assume "slot_ok s"
  then have "hint s = hint (refreshHint s)" by (simp add: slot_ok_def)
  also have "\<dots> = (case highestBand s of None \<Rightarrow> 0 | Some p \<Rightarrow> unat p + 1)"
    by (simp add: refreshHint_def split: option.split)
  finally show ?thesis .
qed

lemma hint_Some: "slot_ok s \<Longrightarrow> hint s = unat p + 1 \<Longrightarrow> highestBand s = Some p"
  using hint_highest [of s] by (auto split: option.splits simp: word_unat_eq_iff)

text \<open>A take at the announced band serves the best message. In a reachable state whose lock-free
  hint announces band \<open>p\<close>, and with no expired message at the head of a group on offer, a message
  taken at \<open>p\<close> has priority exactly \<open>p\<close>, and no group on offer has a head of greater priority.\<close>

theorem take_serves_best:
  assumes "slot_reach s" and "hint s = unat p + 1"
    and "\<And>r h. offers s r h \<Longrightarrow> \<not> expired h now"
    and "take_msg s p now vis = (s', Some (m, rc))"
  shows "Priority m = p \<and> (\<forall>r h. offers s r h \<longrightarrow> Priority h \<le> Priority m)"
proof -
  have ok: "slot_ok s" by (rule reach_ok [OF assms(1)])
  note b = slot_coreD(1) [OF slot_okD(2) [OF ok]]
  have hb: "p < 128 \<and> mask_bit s p \<and> (\<forall>q<128. mask_bit s q \<longrightarrow> q \<le> p)"
    by (rule highestBand_Some [OF hint_Some [OF ok assms(2)]])
  then have p: "p < 128" by blast
  have "Priority h \<le> p" if "offers s r h" for r h
    using hb offers_band(3,4) [OF b that] by blast
  moreover have "Priority m = p"
  proof (rule take_msg_cases [OF slot_okD(1) [OF ok] p assms(4)])
    fix r dead m0 rest l
    assume T: "Some (m, rc) = Some (m0\<lparr>Attempts := Attempts m0 + 1\<rparr>, \<lparr>Slot = sid s, MessageID = ID m0, Epoch = epochSeq s + 1, Incarnation = 0\<rparr>)"
      "r \<in> refs s" "\<not> locked (gheap s r)" "dq_list (msgs (gheap s r)) = dead @ m0 # rest" "\<forall>m \<in> set dead. expired m now"
      "Priority (hd (dead @ [m0])) = p"
    have "dead = []"
    proof (rule ccontr)
      assume "dead \<noteq> []"
      then have "offers s r (hd dead)" "expired (hd dead) now" using T by (auto simp: offers_def neq_Nil_conv)
      with assms(3) show False by blast
    qed
    with T show ?thesis by simp
  qed simp
  ultimately show ?thesis by blast
qed

lemma zero_hint_nothing_offered: "slot_reach s \<Longrightarrow> hint s = 0 \<Longrightarrow> \<not> offers s r h"
proof
  assume "slot_reach s" "hint s = 0" and o: "offers s r h"
  then have ok: "slot_ok s" using reach_ok by blast
  note b = slot_coreD(1) [OF slot_okD(2) [OF ok]]
  have "highestBand s = None" using hint_highest [OF ok] \<open>hint s = 0\<close> by (auto split: option.splits)
  with offers_band(3,4) [OF b o] show False by (simp add: highestBand_None)
qed

lemma reach_enqueue:
  assumes "slot_reach s" "prio_valid (Priority m)" "ids_ok (add_mset m (held s))"
  shows "slot_reach (enqueue s m now)" "held (enqueue s m now) = add_mset m (held s)"
proof -
  show "slot_reach (enqueue s m now)" by (rule reach_step [OF assms(1) slot_step.Enqueue [OF assms(2,3)]])
  have "Priority m \<le> 100" using assms(2) by (simp add: prio_valid_100)
  from enqueue_inv(2-4) [OF reach_ok [OF assms(1)] this assms(3), of now]
  show "held (enqueue s m now) = add_mset m (held s)" by (simp add: held_def)
qed

text \<open>The state of the examples: one group whose head is already expired and of high priority, with a
  low message behind it, and a second, medium, message.\<close>

definition dying :: message where
  "dying = (grouped ''a'' ''g'' 90 1)\<lparr>ExpiresAt := 5\<rparr>"

definition low_one :: message where
  "low_one = grouped ''b'' ''g'' 10 2"

definition inverted :: slot where
  "inverted = enqueue (enqueue (enqueue (newSlot 0) dying 1) low_one 1) (plain ''c'' 50 3) 1"

lemma reach_inverted: "slot_reach inverted"
proof -
  have v: "prio_valid (Priority dying)" "prio_valid (Priority low_one)" "prio_valid (Priority (plain ''c'' 50 3))"
    by (simp_all add: prio_valid_100 dying_def low_one_def grouped_def plain_def)
  have 1: "ids_ok (add_mset dying (held (newSlot 0)))" by (simp add: newSlot_ok ids_ok_def)
  note R1 = reach_enqueue [OF reach_new v(1) 1, of 1]
  have 2: "ids_ok (add_mset low_one (held (enqueue (newSlot 0) dying 1)))"
    by (simp add: R1 newSlot_ok ids_ok_def) (simp add: dying_def low_one_def grouped_def plain_def)
  note R2 = reach_enqueue [OF R1(1) v(2) 2, of 1]
  have 3: "ids_ok (add_mset (plain ''c'' 50 3) (held (enqueue (enqueue (newSlot 0) dying 1) low_one 1)))"
    by (simp add: R1 R2 newSlot_ok ids_ok_def) (simp add: dying_def low_one_def grouped_def plain_def)
  show ?thesis unfolding inverted_def by (rule reach_enqueue(1) [OF R2(1) v(3) 3])
qed

lemma inverted_groups: "map (\<lambda>(k, r). (k, r, locked (gheap inverted r), map ID (dq_list (msgs (gheap inverted r)))))
  (groups inverted) = [(''g'', 0, False, [''a'', ''b'']), (''c'', 1, False, [''c''])]"
  by code_simp

lemma one_offer: "offers (enqueue (newSlot 0) (plain ''a'' 50 1) 3) 0 (plain ''a'' 50 1)"
proof -
  have "groups (enqueue (newSlot 0) (plain ''a'' 50 1) 3) = [(''a'', 0)]"
    "dq_list (msgs (gheap (enqueue (newSlot 0) (plain ''a'' 50 1) 3) 0)) = [plain ''a'' 50 1]"
    "\<not> locked (gheap (enqueue (newSlot 0) (plain ''a'' 50 1) 3) 0)"
    by code_simp+
  then show ?thesis by (simp add: offers_def refs_def)
qed

theorem take_serves_best_witness:
  "Priority ((plain ''a'' 50 1)\<lparr>Attempts := 1\<rparr>) = (50 :: prio) \<and>
    Priority (plain ''a'' 50 1) \<le> Priority ((plain ''a'' 50 1)\<lparr>Attempts := 1\<rparr>)"
proof -
  have 1: "hint (enqueue (newSlot 0) (plain ''a'' 50 1) 3) = unat (50 :: prio) + 1" by code_simp
  have 2: "\<not> expired h 4" if o: "offers (enqueue (newSlot 0) (plain ''a'' 50 1) 3) r h" for r h
  proof -
    have "h \<in># held (enqueue (newSlot 0) (plain ''a'' 50 1) 3)"
      using o unfolding mem_held mem_ready offers_def by force
    then have "h = plain ''a'' 50 1" by (simp add: held_one)
    then show ?thesis by (simp add: plain_def expired_def is_zero_def)
  qed
  have "snd (take_msg (enqueue (newSlot 0) (plain ''a'' 50 1) 3) 50 4 10) = Some ((plain ''a'' 50 1)\<lparr>Attempts := 1\<rparr>, rcpt ''a'' 1)"
    by code_simp
  then have 3: "take_msg (enqueue (newSlot 0) (plain ''a'' 50 1) 3) 50 4 10 = (one_leased, Some ((plain ''a'' 50 1)\<lparr>Attempts := 1\<rparr>, rcpt ''a'' 1))"
    by (metis one_leased_def prod.collapse)
  have "Priority ((plain ''a'' 50 1)\<lparr>Attempts := 1\<rparr>) = (50 :: prio) \<and>
    (\<forall>r h. offers (enqueue (newSlot 0) (plain ''a'' 50 1) 3) r h \<longrightarrow> Priority h \<le> Priority ((plain ''a'' 50 1)\<lparr>Attempts := 1\<rparr>))"
    by (rule take_serves_best [OF reach_one 1 _ 3]) (rule 2)
  then show ?thesis using one_offer by blast
qed

text \<open>C40: An expired head lets a lower priority through. There is a reachable state in which a take at
  the announced band, 90, drops the expired head it was announced for and hands out the message
  behind it, of priority 10, although a group on offer has an unexpired head of priority 50.\<close>

theorem expired_head_inverts_priority:
  "\<exists>s p now vis s' m rc r h. slot_reach s \<and> hint s = unat p + 1 \<and> take_msg s p now vis = (s', Some (m, rc)) \<and>
     offers s r h \<and> \<not> expired h now \<and> Priority m < Priority h"
proof -
  have g: "(''c'', 1) \<in> set (groups inverted)" "\<not> locked (gheap inverted 1)" "map ID (dq_list (msgs (gheap inverted 1))) = [''c'']"
    using inverted_groups by auto
  have h: "map_option (\<lambda>m. (Priority m, ExpiresAt m)) (front (msgs (gheap inverted 1))) = Some (50, 0)" by code_simp
  then obtain c ms where c: "dq_list (msgs (gheap inverted 1)) = c # ms" "Priority c = 50" "ExpiresAt c = 0"
    by (auto split: list.splits)
  have "offers inverted 1 c" using g c by (force simp: offers_def refs_def)
  moreover have "\<not> expired c 10" using c by (simp add: expired_def is_zero_def)
  moreover have "map_option (\<lambda>(m, r). Priority m) (snd (take_msg inverted 90 10 30)) = Some 10" by code_simp
  then obtain x where x: "snd (take_msg inverted 90 10 30) = Some x" "Priority (fst x) = 10"
    by (cases "snd (take_msg inverted 90 10 30)") (simp_all add: case_prod_beta)
  then have m: "take_msg inverted 90 10 30 = (fst (take_msg inverted 90 10 30), Some (fst x, snd x))"
    by (metis prod.collapse)
  moreover have "hint inverted = 91" by code_simp
  then have "hint inverted = unat (90 :: prio) + 1" by simp
  moreover have "Priority (fst x) < Priority c" using x c by simp
  ultimately show ?thesis using reach_inverted by blast
qed

subsection \<open>What the hint's sequence number announces\<close>

lemma head_scan_stale: "\<forall>x \<in> set pre. \<not> current H x \<Longrightarrow> head_scan H (pre @ xs) = head_scan H xs"
  by (induction pre) (auto simp: current_def)

lemma headMessage_entries:
  "band_ok X s \<Longrightarrow> headMessage s p = head_scan (gheap s) (take 8 (entries s p))"
proof (cases "bands s p")
  case None
  then show ?thesis by (simp add: headMessage_def entries_def band_deque_def)
next
  case (Some d)
  assume ok: "band_ok X s"
  have wf: "dq_wf d" using band_okD(2) [OF ok] Some by (auto simp: bands_wf_def band_deque_def dest: spec [of _ p])
  have "map (dq_at d) [0..<(if 8 < length (dq_list d) then 8 else length (dq_list d))] = take 8 (dq_list d)"
    using wf by (intro nth_equalityI) (auto split: if_splits)
  then show ?thesis using Some by (simp only: headMessage_def entries_def band_deque_def Let_def option.case len_dq_list)
qed

lemma take_head:
  assumes "slot_reach s" and "p < 128" and "headMessage s p = Some h" and "\<not> expired h now"
  shows "\<exists>s' rc. take_msg s p now vis = (s', Some (h\<lparr>Attempts := Attempts h + 1\<rparr>, rc))"
proof -
  have ok: "slot_ok s" by (rule reach_ok [OF assms(1)])
  note b = slot_coreD(1) [OF slot_okD(2) [OF ok]]
  have hs: "head_scan (gheap s) (take 8 (entries s p)) = Some h" using assms(3) headMessage_entries [OF b] by simp
  have "bands s p \<noteq> None" using assms(3) by (cases "bands s p") (simp_all add: headMessage_def)
  then obtain d where d: "bands s p = Some d" "entries s p = dq_list d" by (auto simp: entries_def band_deque_def)
  obtain H d' res where te: "take_entry (gheap s) d = (H, d', res)" by (cases "take_entry (gheap s) d")
  have "\<forall>e \<in> set (dq_list d). live (gheap s) e" using band_entries_live [OF b] by (simp flip: d(2))
  note sp = take_entry_spec [OF this te]
  show ?thesis
  proof (cases res)
    case None
    then have "\<forall>e \<in> set (take 8 (entries s p)). \<not> current (gheap s) e" using sp d(2) by (auto dest: in_set_takeD)
    with hs show ?thesis using head_scan_stale [of "take 8 (entries s p)" "gheap s" "[]"] by simp
  next
    case (Some r)
    then obtain pre e where E: "entries s p = pre @ e # dq_list d'" "\<forall>x \<in> set pre. \<not> current (gheap s) x"
      "current (gheap s) e" "e_g e = r" using sp d(2) by auto
    have "length pre < 8"
    proof (rule ccontr)
      assume "\<not> length pre < 8"
      then have "\<forall>x \<in> set (take 8 (entries s p)). \<not> current (gheap s) x" using E(1,2) by (auto dest: in_set_takeD)
      with hs show False using head_scan_stale [of "take 8 (entries s p)" "gheap s" "[]"] by simp
    qed
    then have "take 8 (entries s p) = pre @ take (8 - length pre) (e # dq_list d')" by (simp add: E(1))
    moreover have "8 - length pre = Suc (7 - length pre)" using \<open>length pre < 8\<close> by simp
    ultimately have "head_scan (gheap s) (e # take (7 - length pre) (dq_list d')) = Some h"
      using hs head_scan_stale [OF E(2)] by simp
    moreover have l: "\<not> locked (gheap s r) \<and> dq_list (msgs (gheap s r)) \<noteq> []"
      using band_entries_live [OF b, of e p] E by (simp add: live_def)
    ultimately obtain ms where ms: "dq_list (msgs (gheap s r)) = h # ms"
      using E(3,4) by (auto simp: current_def neq_Nil_conv)
    have tg: "takeGroup s p = (fst (takeGroup s p), Some r)" using d(1) te Some by (simp add: takeGroup_def Let_def)
    obtain s' res' where t: "take_msg s p now vis = (s', res')" by (cases "take_msg s p now vis")
    obtain s2 r2 where pf: "pop_fresh (fst (takeGroup s p)) r now = (s2, r2)" by (cases "pop_fresh (fst (takeGroup s p)) r now")
    from take_front [OF slot_okD(1) [OF ok] assms(2) tg pf] obtain dead where F:
      "\<forall>m \<in> set dead. expired m now"
      "dq_list (msgs (gheap s r)) = dead @ (case r2 of None \<Rightarrow> [] | Some m \<Rightarrow> m # dq_list (msgs (gheap s2 r)))" by metis
    have "dead = []" using F ms assms(4) by (cases dead) auto
    with F ms have "r2 = Some h" by (cases r2) auto
    with t tg pf show ?thesis by (auto simp: take_msg_def Let_def split: prod.splits)
  qed
qed

text \<open>The hint's sequence number is the truth about the next delivery. In a reachable state, if the
  scan of the first eight entries of a band finds a head message and it has not expired, then a
  take at that band hands out that very message, whatever stale entries are in the way.\<close>

theorem hint_seq_is_next:
  assumes "slot_reach s" and "p < 128" and "headMessage s p = Some h" and "\<not> expired h now"
  shows "\<exists>s' rc. take_msg s p now vis = (s', Some (h\<lparr>Attempts := Attempts h + 1\<rparr>, rc))"
  using assms by (rule take_head)

theorem hint_seq_is_next_witness:
  "\<exists>s' rc. take_msg (enqueue (newSlot 0) (plain ''a'' 50 1) 3) 50 4 10 = (s', Some ((plain ''a'' 50 1)\<lparr>Attempts := Attempts (plain ''a'' 50 1) + 1\<rparr>, rc))"
proof (rule hint_seq_is_next [OF reach_one])
  show "headMessage (enqueue (newSlot 0) (plain ''a'' 50 1) 3) 50 = Some (plain ''a'' 50 1)" by code_simp
qed (simp_all add: plain_def expired_def is_zero_def)

subsection \<open>Statistics\<close>

definition due_head :: "slot \<Rightarrow> time \<Rightarrow> nat \<Rightarrow> message \<Rightarrow> bool" where
  "due_head s now r h \<longleftrightarrow> (\<exists>ms. dq_list (msgs (gheap s r)) = h # ms) \<and> \<not> expired h now"

lemma stats_group_due:
  "due_head s now r h \<Longrightarrow> stats_group s now a r = (max (fst a) (now - EnqueuedAt h),
     if locked (gheap s r) then snd a else max (snd a) (int (unat (Priority h))))"
  by (auto simp: due_head_def stats_group_def max_def)

lemma stats_group_not: "\<not> (\<exists>h. due_head s now r h) \<Longrightarrow> stats_group s now a r = a"
  by (auto simp: due_head_def stats_group_def split: list.splits)

lemma stats_fold:
  "foldl (stats_group s now) a rs = (age, tp) \<Longrightarrow>
   fst a \<le> age \<and> snd a \<le> tp \<and>
   (\<forall>r \<in> set rs. \<forall>h. due_head s now r h \<longrightarrow> now - EnqueuedAt h \<le> age \<and>
      (\<not> locked (gheap s r) \<longrightarrow> int (unat (Priority h)) \<le> tp)) \<and>
   (age = fst a \<or> (\<exists>r \<in> set rs. \<exists>h. due_head s now r h \<and> age = now - EnqueuedAt h)) \<and>
   (tp = snd a \<or> (\<exists>r \<in> set rs. \<exists>h. due_head s now r h \<and> \<not> locked (gheap s r) \<and> tp = int (unat (Priority h))))"
proof (induction rs arbitrary: a)
  case (Cons r rs)
  show ?case
  proof (cases "\<exists>h. due_head s now r h")
    case False
    with Cons.prems have "foldl (stats_group s now) a rs = (age, tp)" by (simp add: stats_group_not)
    from Cons.IH [OF this] False show ?thesis by (simp add: Bex_def) blast
  next
    case True
    then obtain h where h: "due_head s now r h" by blast
    have u: "h' = h" if "due_head s now r h'" for h' using that h by (auto simp: due_head_def)
    have "foldl (stats_group s now) (max (fst a) (now - EnqueuedAt h),
     if locked (gheap s r) then snd a else max (snd a) (int (unat (Priority h)))) rs = (age, tp)"
      using Cons.prems by (simp add: stats_group_due [OF h])
    note I = Cons.IH [OF this]
    have 1: "fst a \<le> age" "snd a \<le> tp" using I by (auto split: if_splits)
    have 2: "\<forall>q \<in> set (r # rs). \<forall>h. due_head s now q h \<longrightarrow> now - EnqueuedAt h \<le> age \<and>
      (\<not> locked (gheap s q) \<longrightarrow> int (unat (Priority h)) \<le> tp)"
      using I u by (auto split: if_splits)
    have 3: "age = fst a \<or> (\<exists>q \<in> set (r # rs). \<exists>h. due_head s now q h \<and> age = now - EnqueuedAt h)"
      using I h by (auto simp: max_def split: if_splits)
    have 4: "tp = snd a \<or> (\<exists>q \<in> set (r # rs). \<exists>h. due_head s now q h \<and> \<not> locked (gheap s q) \<and> tp = int (unat (Priority h)))"
      using I h by (auto simp: max_def split: if_splits)
    show ?thesis using 1 2 3 4 by blast
  qed
qed simp

text \<open>The statistics are the truth. In every reachable state the ready counts by priority class, the
  counts in flight and delayed and the bytes are those of the messages held; the top-ready
  priority bounds every unexpired head on offer and is attained, or is -1 with none on offer; the
  oldest age bounds the age of every unexpired head and is attained, or is 0.\<close>

theorem stats_exact:
  assumes "slot_reach s"
  shows "let t = slot_stats s now in
    (\<forall>b. s_ready t b = int (size (filter_mset (\<lambda>m. bucketOf (Priority m) = b) (ready_ms s)))) \<and>
    s_inflight t = int (length (inflight s)) \<and> s_delayed t = int (length (delayed s)) \<and>
    s_bytes t = int (sum_mset (image_mset (\<lambda>m. length (Payload m)) (held s))) \<and>
    (\<forall>r h. offers s r h \<longrightarrow> \<not> expired h now \<longrightarrow> int (unat (Priority h)) \<le> s_topReady t) \<and>
    (s_topReady t = -1 \<or> (\<exists>r h. offers s r h \<and> \<not> expired h now \<and> s_topReady t = int (unat (Priority h)))) \<and>
    (\<forall>r h. r \<in> refs s \<longrightarrow> due_head s now r h \<longrightarrow> now - EnqueuedAt h \<le> s_oldestAge t) \<and>
    (s_oldestAge t = 0 \<or> (\<exists>r h. r \<in> refs s \<and> due_head s now r h \<and> s_oldestAge t = now - EnqueuedAt h))"
proof -
  obtain age tp where f: "foldl (stats_group s now) (0, -1) (map snd (groups s)) = (age, tp)"
    by (cases "foldl (stats_group s now) (0, -1) (map snd (groups s))")
  note S = stats_fold [OF f]
  have rs: "set (map snd (groups s)) = refs s" by (simp add: refs_def)
  have o: "offers s r h \<and> \<not> expired h now \<longleftrightarrow> r \<in> refs s \<and> due_head s now r h \<and> \<not> locked (gheap s r)" for r h
    by (auto simp: offers_def due_head_def)
  have "gauges (st s) (ready_ms s) (flight_ms s) (delayed_ms s)" using slot_okD(3) [OF reach_ok [OF assms]] .
  moreover have "size (flight_ms s) = length (inflight s)"
    by (simp add: flight_ms_def sum_al_def)
  moreover have "size (delayed_ms s) = length (delayed s)" by (simp add: delayed_ms_def)
  moreover have "0 \<le> age" using S by simp
  ultimately show ?thesis using S o unfolding rs
    by (simp add: slot_stats_def f gauges_def held_def Let_def) blast
qed

theorem stats_exact_witness:
  "s_inflight (slot_stats one_leased 5) = 1 \<and> s_bytes (slot_stats one_leased 5)
    = int (sum_mset (image_mset (\<lambda>m. length (Payload m)) (held one_leased)))"
  using stats_exact [OF reach_one_leased, of 5] by (simp add: Let_def one_leased_inflight)

end
