(* ===== verification/Queue.thy ===== *)
theory Queue
  imports SlotPrio Slotting
begin

text \<open>
  \<open>backend/queue/logic/engine/queue.go\<close> and \<open>dispatch.go\<close>: one queue on one node, as a state passed
  through its operations.  Each operation runs as a whole here; what concurrent callers can do
  between its lock regions is the subject of the theories \<open>Admission\<close> and \<open>Handoff\<close>.

  \<open>slots\<close> is the map of slots and \<open>localView\<close> the sorted snapshot of its keys.  \<open>jlog\<close> is the sequence of
  records the engine has asked its journal to write.  The clock reading, the random message ID, the
  journal's answer and the orders in which maps are ranged over are arguments.  The lifetime counter
  \<open>escapes\<close> is a natural number; \<open>seq\<close>, \<open>dispatch\<close>, \<open>rr\<close> and \<open>cursor\<close> keep their width.
\<close>

record queue =
  conf :: config
  slots :: "(u16 \<times> slot) list"
  localView :: "u16 list"
  incarnation :: u64
  qseq :: u64
  qdispatch :: u64
  rr :: u64
  cursor :: u32
  depth :: int
  reserved :: int
  escapes :: nat
  qfrozen :: bool
  jlog :: "journal_entry list"

record enqueueOptions =
  eo_Payload :: bytes
  eo_Priority :: prio
  eo_GroupID :: string
  eo_TTL :: duration
  eo_DeliverAfter :: duration

definition generationShift :: nat where
  "generationShift = 40"

text \<open>\<open>New\<close>; a nil clock or journal is the caller's choice of the arguments of the operations.\<close>

definition New :: "config \<Rightarrow> u64 \<Rightarrow> u64 \<Rightarrow> queue" where
  "New cfg inc generation = \<lparr>conf = applyDefaults cfg, slots = [], localView = [], incarnation = inc,
     qseq = push_bit generationShift generation, qdispatch = 0, rr = 0, cursor = 0, depth = 0, reserved = 0,
     escapes = 0, qfrozen = False, jlog = []\<rparr>"

definition Generation :: "queue \<Rightarrow> u64" where
  "Generation q = drop_bit generationShift (qseq q)"

definition Reconfigure :: "queue \<Rightarrow> config \<Rightarrow> queue \<times> bool" where
  "Reconfigure q c =
     (let cur = conf q;
          c = applyDefaults (c\<lparr>Key := Key cur, Distributed := Distributed cur \<or> Distributed c\<rparr>)
      in if c = cur then (q, False) else (q\<lparr>conf := c\<rparr>, True))"

definition slotCount :: "queue \<Rightarrow> nat" where
  "slotCount q = SlotCountFor (Distributed (conf q))"

definition nextSeq :: "queue \<Rightarrow> queue \<times> u64" where
  "nextSeq q = (q\<lparr>qseq := qseq q + 1\<rparr>, qseq q + 1)"

definition adoptSeq :: "queue \<Rightarrow> u64 \<Rightarrow> queue" where
  "adoptSeq q n = (if n \<le> qseq q then q else q\<lparr>qseq := n\<rparr>)"

definition rebuildLocalView :: "queue \<Rightarrow> queue" where
  "rebuildLocalView q = q\<lparr>localView := sort (map fst (slots q))\<rparr>"

definition get_slot :: "queue \<Rightarrow> u16 \<Rightarrow> queue \<times> slot" where
  "get_slot q i =
     (case map_of (slots q) i of
        Some s \<Rightarrow> (q, s)
      | None \<Rightarrow> (rebuildLocalView (q\<lparr>slots := AList.update i (newSlot i) (slots q)\<rparr>), newSlot i))"

definition put_slot :: "queue \<Rightarrow> u16 \<Rightarrow> slot \<Rightarrow> queue" where
  "put_slot q i s = q\<lparr>slots := AList.update i s (slots q)\<rparr>"

subsection \<open>Enqueue\<close>

definition msgsPerSlotTarget :: int where
  "msgsPerSlotTarget = 1000"

text \<open>The loop of \<open>fanout\<close>; \<open>want\<close> starts at 1 and doubles.\<close>

function fanout_loop :: "int \<Rightarrow> nat \<Rightarrow> nat \<Rightarrow> nat" where
  "fanout_loop d n want =
     (if 0 < want \<and> want < n \<and> int want * msgsPerSlotTarget < d then fanout_loop d n (want * 2) else want)"
  by pat_completeness auto
termination by (relation "measure (\<lambda>(d, n, want). n - want)") auto

declare fanout_loop.simps [simp del]

definition fanout :: "queue \<Rightarrow> nat \<Rightarrow> nat" where
  "fanout q n = fanout_loop (depth q) n 1"

definition slotFor :: "queue \<Rightarrow> string \<Rightarrow> queue \<times> u16" where
  "slotFor q grp =
     (if grp \<noteq> [] then (q, SlotOf (Key (conf q)) grp (slotCount q))
      else let q = q\<lparr>rr := rr q + 1\<rparr> in (q, ucast (rr q mod of_nat (fanout q (slotCount q)))))"

definition build_message :: "config \<Rightarrow> enqueueOptions \<Rightarrow> string \<Rightarrow> time \<Rightarrow> message" where
  "build_message c o' i now =
     (let ttl = (if eo_TTL o' = 0 then DefaultTTL c else eo_TTL o')
      in \<lparr>ID = i, Payload = eo_Payload o', Priority = eo_Priority o', GroupID = eo_GroupID o', Seq = 0,
          EnqueuedAt = now, ExpiresAt = (if ttl > 0 then now + ttl else 0),
          DeliverAfter = (if eo_DeliverAfter o' > 0 then now + eo_DeliverAfter o' else 0), Attempts = 0\<rparr>)"

definition EnqueueToSlot :: "queue \<Rightarrow> u16 \<Rightarrow> enqueueOptions \<Rightarrow> string \<Rightarrow> time \<Rightarrow> bool \<Rightarrow> queue \<times> (engine_error + message)" where
  "EnqueueToSlot q slotID o' newid now journal_ok =
     (if qfrozen q then (q, Inl ErrFrozen)
      else if unat slotID \<ge> slotCount q then (q, Inl ErrBadSlot)
      else if \<not> prio_valid (eo_Priority o') then (q, Inl ErrBadPriority)
      else
        let q = q\<lparr>reserved := reserved q + 1\<rparr>; pending = reserved q
        in if MaxDepth (conf q) > 0 \<and> depth q + pending > MaxDepth (conf q)
           then (q\<lparr>reserved := reserved q - 1\<rparr>, Inl ErrQueueFull)
           else
             let m = build_message (conf q) o' newid now;
                 (q, s) = get_slot q slotID
             in if sfrozen s then (q\<lparr>reserved := reserved q - 1\<rparr>, Inl ErrFrozen)
                else
                  let (q, n) = nextSeq q;
                      m = m\<lparr>Seq := n\<rparr>
                  in if \<not> journal_ok then (q\<lparr>reserved := reserved q - 1\<rparr>, Inl ErrJournal)
                     else
                       let q = q\<lparr>jlog := jlog q @ [AppendEnqueue slotID m]\<rparr>;
                           q = put_slot q slotID (enqueue s m now);
                           q = q\<lparr>depth := depth q + 1\<rparr>
                       in (q\<lparr>reserved := reserved q - 1\<rparr>, Inr m))"

definition Enqueue :: "queue \<Rightarrow> enqueueOptions \<Rightarrow> string \<Rightarrow> time \<Rightarrow> bool \<Rightarrow> queue \<times> (engine_error + message)" where
  "Enqueue q o' newid now journal_ok =
     (let (q, i) = slotFor q (eo_GroupID o') in EnqueueToSlot q i o' newid now journal_ok)"

subsection \<open>Ack and Nack\<close>

definition Ack :: "queue \<Rightarrow> receipt \<Rightarrow> queue \<times> engine_error option" where
  "Ack q r =
     (if Incarnation r \<noteq> incarnation q then (q, Some ErrLeaseExpired)
      else let (q, s) = get_slot q (Slot r);
               (s, e) = ack s r;
               q = put_slot q (Slot r) s
           in if e = None
              then (q\<lparr>depth := depth q - 1, jlog := jlog q @ [AppendTerminal (Slot r) (MessageID r) TerminalAck]\<rparr>, None)
              else (q, e))"

definition Nack :: "queue \<Rightarrow> receipt \<Rightarrow> duration \<Rightarrow> time \<Rightarrow> queue \<times> (engine_error + message option)" where
  "Nack q r delay now =
     (if Incarnation r \<noteq> incarnation q then (q, Inl ErrLeaseExpired)
      else let (q, s) = get_slot q (Slot r);
               (s, res) = nack s r delay now (MaxRetries (conf q)) (HasDeadLetter (conf q));
               q = put_slot q (Slot r) s
           in case res of
                Inr (Some dead) \<Rightarrow>
                  (q\<lparr>depth := depth q - 1, jlog := jlog q @ [AppendTerminal (Slot r) (ID dead) TerminalDeadLettered]\<rparr>,
                   Inr (Some dead))
              | _ \<Rightarrow> (q, res))"

subsection \<open>Dequeue\<close>

definition maxDispatchRetries :: nat where "maxDispatchRetries = 4"
definition starvationScanLimit :: nat where "starvationScanLimit = 16"

definition local_slot :: "queue \<Rightarrow> u16 \<Rightarrow> slot" where
  "local_slot q i = the (map_of (slots q) i)"

definition reserveTick :: "queue \<Rightarrow> u64 \<Rightarrow> bool" where
  "reserveTick q n =
     (let c = conf q
      in if \<not> StarvationAvoidanceEnabled c \<or> StarvationReserve c \<le> 0 then False
         else let every = nat \<lfloor>1 / StarvationReserve c\<rfloor>
              in if every = 0 then True else unat n mod every = 0)"

definition bestBand_step :: "queue \<Rightarrow> prio option \<Rightarrow> u16 \<Rightarrow> prio option" where
  "bestBand_step q best i =
     (let s = local_slot q i
      in if sfrozen s \<or> hint s = 0 then best
         else let b = of_nat (hint s - 1)
              in case best of None \<Rightarrow> Some b | Some x \<Rightarrow> if b > x then Some b else Some x)"

definition bestBand :: "queue \<Rightarrow> prio option" where
  "bestBand q = foldl (bestBand_step q) None (localView q)"

definition urgent_step :: "queue \<Rightarrow> (u16 \<times> prio \<times> u64) option \<Rightarrow> u16 \<Rightarrow> (u16 \<times> prio \<times> u64) option" where
  "urgent_step q best i =
     (let s = local_slot q i
      in if sfrozen s \<or> hint s = 0 then best
         else let b = of_nat (hint s - 1); n = headSeq s
              in case best of
                   None \<Rightarrow> Some (i, b, n)
                 | Some (i', b', n') \<Rightarrow> if b > b' \<or> b = b' \<and> n < n' then Some (i, b, n) else Some (i', b', n'))"

definition pick_urgent :: "queue \<Rightarrow> (u16 \<times> prio \<times> u64) option" where
  "pick_urgent q = foldl (urgent_step q) None (localView q)"

definition stamp :: "queue \<Rightarrow> message \<times> receipt \<Rightarrow> message \<times> receipt" where
  "stamp q x = (fst x, (snd x)\<lparr>Incarnation := incarnation q\<rparr>)"

text \<open>The bounded loop of \<open>takeUrgent\<close>: \<open>n\<close> attempts left.\<close>

fun takeUrgent_loop :: "nat \<Rightarrow> queue \<Rightarrow> time \<Rightarrow> queue \<times> (message \<times> receipt) option" where
  "takeUrgent_loop 0 q now = (q, None)"
| "takeUrgent_loop (Suc n) q now =
     (case pick_urgent q of
        None \<Rightarrow> (q, None)
      | Some (i, b, _) \<Rightarrow>
          (let (s, r) = take_msg (local_slot q i) b now (VisibilityTimeout (conf q));
               q = put_slot q i s
           in case r of Some x \<Rightarrow> (q, Some (stamp q x)) | None \<Rightarrow> takeUrgent_loop n q now))"

definition takeUrgent :: "queue \<Rightarrow> time \<Rightarrow> queue \<times> (message \<times> receipt) option" where
  "takeUrgent q now = takeUrgent_loop maxDispatchRetries q now"

fun starved_loop :: "queue \<Rightarrow> time \<Rightarrow> time \<Rightarrow> prio \<Rightarrow> u16 list \<Rightarrow> queue \<times> (message \<times> receipt) option" where
  "starved_loop q now cutoff best [] = (q, None)"
| "starved_loop q now cutoff best (i # is) =
     (let s = local_slot q i
      in if sfrozen s then starved_loop q now cutoff best is
         else case oldestBandBefore s cutoff of
                None \<Rightarrow> starved_loop q now cutoff best is
              | Some p \<Rightarrow>
                  if p \<ge> best then starved_loop q now cutoff best is
                  else let (s, r) = take_msg s p now (VisibilityTimeout (conf q));
                           q = put_slot q i s
                       in case r of Some x \<Rightarrow> (q, Some (stamp q x)) | None \<Rightarrow> starved_loop q now cutoff best is)"

definition takeStarved :: "queue \<Rightarrow> time \<Rightarrow> queue \<times> (message \<times> receipt) option" where
  "takeStarved q now =
     (if localView q = [] then (q, None)
      else case bestBand q of
             None \<Rightarrow> (q, None)
           | Some best \<Rightarrow>
               (let cutoff = now - StarvationThreshold (conf q);
                    q = q\<lparr>cursor := cursor q + 1\<rparr>;
                    vs = localView q;
                    start = unat (cursor q) mod length vs
                in starved_loop q now cutoff best
                     (map (\<lambda>i. vs ! ((start + i) mod length vs)) [0..<min (length vs) starvationScanLimit])))"

definition afterTake :: "queue \<Rightarrow> message \<times> receipt \<Rightarrow> queue" where
  "afterTake q x = q\<lparr>jlog := jlog q @ [AppendAttempt (Slot (snd x)) (ID (fst x)) (Attempts (fst x)) (Epoch (snd x))]\<rparr>"

definition Dequeue :: "queue \<Rightarrow> time \<Rightarrow> queue \<times> (message \<times> receipt) option" where
  "Dequeue q now =
     (if qfrozen q then (q, None)
      else let q = q\<lparr>qdispatch := qdispatch q + 1\<rparr>;
               (q, early) = (if reserveTick q (qdispatch q) then takeStarved q now else (q, None))
           in case early of
                Some x \<Rightarrow> (afterTake (q\<lparr>escapes := escapes q + 1\<rparr>) x, Some x)
              | None \<Rightarrow> (case takeUrgent q now of
                  (q, Some x) \<Rightarrow> (afterTake q x, Some x)
                | (q, None) \<Rightarrow> (q, None)))"

end
