(* ===== verification/QueueMaint.thy ===== *)
theory QueueMaint
  imports Queue
begin

text \<open>
  The maintenance half of \<open>backend/queue/logic/engine/queue.go\<close>: sweeping, statistics, freezing,
  copying, dropping and absorbing slots.  A loop over the \<open>slots\<close> map takes the list of visits, and a
  loop over the maps inside a slot the order of that visit.  A result map from slots to messages is
  an association list; the code leaves empty slots out of it.
\<close>

subsection \<open>Sweep\<close>

record sweepResult =
  Redelivered :: nat
  Expired :: nat
  Released :: nat
  DeadLettered :: "(u16 \<times> message) list"

definition no_sweep :: sweepResult where
  "no_sweep = \<lparr>Redelivered = 0, Expired = 0, Released = 0, DeadLettered = []\<rparr>"

definition sweep_slot :: "config \<Rightarrow> slot \<Rightarrow> string list \<Rightarrow> time \<Rightarrow> slot \<times> sweepResult \<times> nat" where
  "sweep_slot c s ks now =
     (let gone = n_expired (st s) + n_deadLettered (st s);
          (s, released) = releaseDelayed s now;
          (s, dead, requeued) = sweepLeases s now (MaxRetries c) (HasDeadLetter c);
          (s, dropped) = sweepTTL s ks now
      in (s, \<lparr>Redelivered = requeued, Expired = dropped, Released = released,
              DeadLettered = map (\<lambda>m. (sid s, m)) dead\<rparr>,
          n_expired (st s) + n_deadLettered (st s) - gone))"

definition add_sweep :: "sweepResult \<Rightarrow> sweepResult \<Rightarrow> sweepResult" where
  "add_sweep a b = \<lparr>Redelivered = Redelivered a + Redelivered b, Expired = Expired a + Expired b,
     Released = Released a + Released b, DeadLettered = DeadLettered a @ DeadLettered b\<rparr>"

fun sweep_loop :: "queue \<Rightarrow> (u16 \<times> string list) list \<Rightarrow> time \<Rightarrow> sweepResult \<Rightarrow> nat \<Rightarrow> queue \<times> sweepResult \<times> nat" where
  "sweep_loop q [] now res removed = (q, res, removed)"
| "sweep_loop q ((i, ks) # vs) now res removed =
     (let s = local_slot q i
      in if sfrozen s then sweep_loop q vs now res removed
         else let (s, r, n) = sweep_slot (conf q) s ks now
              in sweep_loop (put_slot q i s) vs now (add_sweep res r) (removed + n))"

definition SweepQueue :: "queue \<Rightarrow> (u16 \<times> string list) list \<Rightarrow> time \<Rightarrow> queue \<times> sweepResult" where
  "SweepQueue q vs now =
     (let (q, res, removed) = sweep_loop q vs now no_sweep 0;
          q = q\<lparr>jlog := jlog q @ map (\<lambda>(i, m). AppendTerminal i (ID m) TerminalDeadLettered) (DeadLettered res)\<rparr>;
          q = q\<lparr>depth := depth q - int removed\<rparr>
      in (q, res))"

subsection \<open>Statistics\<close>

definition no_stats :: stats where
  "no_stats = \<lparr>s_ready = (\<lambda>_. 0), s_inflight = 0, s_delayed = 0, s_bytes = 0, s_oldestAge = 0, s_topReady = -1,
     s_enqueued = 0, s_acked = 0, s_expired = 0, s_requeued = 0, s_deadLettered = 0, s_escapes = 0\<rparr>"

definition add_slot_stats :: "stats \<Rightarrow> stats \<Rightarrow> stats" where
  "add_slot_stats a b = \<lparr>s_ready = (\<lambda>i. s_ready a i + s_ready b i), s_inflight = s_inflight a + s_inflight b,
     s_delayed = s_delayed a + s_delayed b, s_bytes = s_bytes a + s_bytes b,
     s_oldestAge = (if s_oldestAge b > s_oldestAge a then s_oldestAge b else s_oldestAge a),
     s_topReady = (if s_topReady b > s_topReady a then s_topReady b else s_topReady a),
     s_enqueued = s_enqueued a + s_enqueued b, s_acked = s_acked a + s_acked b,
     s_expired = s_expired a + s_expired b, s_requeued = s_requeued a + s_requeued b,
     s_deadLettered = s_deadLettered a + s_deadLettered b, s_escapes = s_escapes a\<rparr>"

definition StatsQueue :: "queue \<Rightarrow> time \<Rightarrow> stats" where
  "StatsQueue q now =
     (foldl (\<lambda>t x. add_slot_stats t (slot_stats (snd x) now)) no_stats (slots q))\<lparr>s_escapes := escapes q\<rparr>"

subsection \<open>Freezing and handing over\<close>

text \<open>A visit of a slot whose leases and groups are ranged over in the given orders.\<close>

type_synonym visit = "u16 \<times> string list \<times> string list"

fun freeze_loop :: "queue \<Rightarrow> visit list \<Rightarrow> (u16 \<times> message list) list \<Rightarrow> queue \<times> (u16 \<times> message list) list" where
  "freeze_loop q [] acc = (q, acc)"
| "freeze_loop q ((i, ki, kg) # vs) acc =
     (let (s, ms) = drain (local_slot q i) ki kg
      in freeze_loop (put_slot q i s) vs (if length ms > 0 then acc @ [(i, ms)] else acc))"

definition Freeze :: "queue \<Rightarrow> visit list \<Rightarrow> queue \<times> (u16 \<times> message list) list" where
  "Freeze q vs =
     (let (q, acc) = freeze_loop (q\<lparr>qfrozen := True\<rparr>) vs [] in (q\<lparr>depth := 0\<rparr>, acc))"

definition Thaw :: "queue \<Rightarrow> queue" where
  "Thaw q = q\<lparr>qfrozen := False\<rparr>"

fun FreezeSlots_loop :: "queue \<Rightarrow> visit list \<Rightarrow> (u16 \<times> message list) list \<Rightarrow> queue \<times> (u16 \<times> message list) list" where
  "FreezeSlots_loop q [] acc = (q, acc)"
| "FreezeSlots_loop q ((i, ki, kg) # vs) acc =
     (if unat i \<ge> slotCount q then FreezeSlots_loop q vs acc
      else let (q, s) = get_slot q i;
               s = s\<lparr>sfrozen := True\<rparr>;
               q = put_slot q i s;
               ms = copyAll s ki kg
           in FreezeSlots_loop q vs (if length ms > 0 then AList.update i ms acc else acc))"

definition FreezeSlots :: "queue \<Rightarrow> visit list \<Rightarrow> queue \<times> (u16 \<times> message list) list" where
  "FreezeSlots q vs = FreezeSlots_loop q vs []"

fun ThawSlots :: "queue \<Rightarrow> u16 list \<Rightarrow> queue" where
  "ThawSlots q [] = q"
| "ThawSlots q (i # is) =
     (if unat i < slotCount q
      then let (q, s) = get_slot q i in ThawSlots (put_slot q i (s\<lparr>sfrozen := False\<rparr>)) is
      else ThawSlots q is)"

fun DropSlots_loop :: "queue \<Rightarrow> visit list \<Rightarrow> nat \<Rightarrow> queue \<times> nat" where
  "DropSlots_loop q [] n = (q, n)"
| "DropSlots_loop q ((i, ki, kg) # vs) n =
     (if unat i \<ge> slotCount q then DropSlots_loop q vs n
      else let (q, s) = get_slot q i;
               (s, ms) = drain s ki kg
           in DropSlots_loop (put_slot q i (s\<lparr>sfrozen := False\<rparr>)) vs (n + length ms))"

definition DropSlots :: "queue \<Rightarrow> visit list \<Rightarrow> queue \<times> nat" where
  "DropSlots q vs = (let (q, n) = DropSlots_loop q vs 0 in (q\<lparr>depth := depth q - int n\<rparr>, n))"

definition FrozenSlots :: "queue \<Rightarrow> u16 list" where
  "FrozenSlots q = sort (map fst (filter (\<lambda>x. sfrozen (snd x)) (slots q)))"

definition slot_empty :: "slot \<Rightarrow> bool" where
  "slot_empty s \<longleftrightarrow> n_ready (st s) 0 + n_ready (st s) 1 + n_ready (st s) 2 = 0 \<and> n_inflight (st s) = 0 \<and> n_delayed (st s) = 0"

definition HeldSlots :: "queue \<Rightarrow> u16 list" where
  "HeldSlots q = sort (map fst (filter (\<lambda>x. \<not> slot_empty (snd x)) (slots q)))"

text \<open>\<open>Absorb\<close>: each visit names a slot, its messages and the order of the groups they fall into.\<close>

fun Absorb_loop :: "queue \<Rightarrow> (u16 \<times> message list \<times> string list) list \<Rightarrow> time \<Rightarrow> nat \<Rightarrow> u64 \<Rightarrow> queue \<times> nat \<times> u64" where
  "Absorb_loop q [] now added maxSeq = (q, added, maxSeq)"
| "Absorb_loop q ((i, ms, gs) # vs) now added maxSeq =
     (if ms = [] then Absorb_loop q vs now added maxSeq
      else let ms = sort_key Seq ms;
               maxSeq = (if Seq (last ms) > maxSeq then Seq (last ms) else maxSeq);
               (q, s) = get_slot q i;
               q = put_slot q i (absorb_slot s ms gs now)
           in Absorb_loop q vs now (added + length ms) maxSeq)"

definition AbsorbQueue :: "queue \<Rightarrow> (u16 \<times> message list \<times> string list) list \<Rightarrow> time \<Rightarrow> queue" where
  "AbsorbQueue q vs now =
     (let (q, added, maxSeq) = Absorb_loop q vs now 0 0;
          q = adoptSeq q maxSeq
      in q\<lparr>depth := depth q + int added\<rparr>)"

definition Snapshot :: "queue \<Rightarrow> visit list \<Rightarrow> (u16 \<times> message list) list" where
  "Snapshot q vs = map (\<lambda>(i, ki, kg). (i, sort_key Seq (copyAll (local_slot q i) ki kg))) vs"

end
