(* ===== verification/QueueInv.thy ===== *)
theory QueueInv
  imports QueueMaint
begin

text \<open>
  The invariant of a queue: its slots are the ones of its view, each is well formed, and the depth
  counter is never below the number of messages held.  The difference between the two is what
  \<open>phantom\<close> measures; the lemmas say which operations move it.
\<close>

subsection \<open>Counting\<close>

definition gauge_sum :: "slotStats \<Rightarrow> int" where
  "gauge_sum t = n_ready t 0 + n_ready t 1 + n_ready t 2 + n_inflight t + n_delayed t"

text \<open>What a slot holds plus what it has counted out as expired or dead.\<close>

definition tally :: "slotStats \<Rightarrow> int" where
  "tally t = gauge_sum t + int (n_expired t) + int (n_deadLettered t)"

lemma size_buckets:
  "int (size R) = int (size (filter_mset (\<lambda>m. bucketOf (Priority m) = 0) R)) +
     int (size (filter_mset (\<lambda>m. bucketOf (Priority m) = 1) R)) + int (size (filter_mset (\<lambda>m. bucketOf (Priority m) = 2) R))"
proof (induction R)
  case (add m R)
  have "bucketOf (Priority m) = 0 \<or> bucketOf (Priority m) = 1 \<or> bucketOf (Priority m) = 2"
    by (simp add: bucketOf_def)
  with add show ?case by auto
qed simp

lemma gauge_sum_held:
  assumes "slot_inv s"
  shows "gauge_sum (st s) = int (size (held s))"
proof -
  have "gauges (st s) (ready_ms s) (flight_ms s) (delayed_ms s)" using assms by (simp add: slot_inv_def)
  then show ?thesis using size_buckets [of "ready_ms s"]
    by (simp add: gauge_sum_def gauges_def held_def)
qed

lemma gauge_sum_counters [simp]:
  "gauge_sum (t\<lparr>n_enqueued := n\<rparr>) = gauge_sum t" "gauge_sum (t\<lparr>n_acked := n\<rparr>) = gauge_sum t"
  "gauge_sum (t\<lparr>n_expired := n\<rparr>) = gauge_sum t" "gauge_sum (t\<lparr>n_requeued := n\<rparr>) = gauge_sum t"
  "gauge_sum (t\<lparr>n_deadLettered := n\<rparr>) = gauge_sum t"
  by (simp_all add: gauge_sum_def)

lemma gauge_sum_move:
  "gauge_sum (st (move s m a b)) = gauge_sum (st s) - (if a = stAbsent then 0 else 1) + (if b = stAbsent then 0 else 1)"
  using bucketOf_less [of "Priority m"]
  by (auto simp: gauge_sum_def move_def move_from_def move_to_def bucketOf_def split: msgState.splits)

lemma move_counters [simp]:
  "n_expired (st (move s m a b)) = n_expired (st s)" "n_deadLettered (st (move s m a b)) = n_deadLettered (st s)"
  by (simp_all add: move_def move_from_def move_to_def split: msgState.splits)

lemma hold_counters [simp]:
  "n_expired (st (hold s m a)) = n_expired (st s)" "n_deadLettered (st (hold s m a)) = n_deadLettered (st s)"
  by (simp_all add: hold_def)

lemma gauge_sum_hold: "gauge_sum (st (hold s m a)) = gauge_sum (st s) + (if a = stAbsent then 1 else 0)"
  by (simp add: hold_def gauge_sum_move)

lemma tally_dropExpired [simp]: "tally (st (dropExpired s m)) = tally (st s)"
  by (simp add: dropExpired_def Let_def tally_def gauge_sum_move)

lemma tally_retire: "tally (st (fst (retire s l now mr delay dl))) = tally (st s)"
  by (simp add: retire_def Let_def tally_def gauge_sum_move gauge_sum_hold)

lemma tally_sweepLeases_loop:
  "tally (st (fst (sweepLeases_loop s now mr dl dead n))) = tally (st s)"
proof (induction s now mr dl dead n rule: sweepLeases_loop.induct)
  case (1 s now mr dl dead n)
  show ?case
  proof (cases "timers s \<noteq> [] \<and> \<not> now < t_at (timers s ! 0)")
    case False
    then show ?thesis by (subst sweepLeases_loop.simps) auto
  next
    case True
    obtain e h where eh: "heap_pop t_at (timers s) = (e, h)" by (cases "heap_pop t_at (timers s)")
    let ?s1 = "s\<lparr>timers := h\<rparr>"
    show ?thesis
    proof (cases "map_of (inflight s) (t_id e)")
      case None
      with 1(1) [OF True refl eh [symmetric] refl] True eh show ?thesis by (subst sweepLeases_loop.simps) simp
    next
      case (Some l)
      show ?thesis
      proof (cases "l_epoch l = t_epoch e")
        case False
        with 1(2) [OF True refl eh [symmetric] refl _ False] Some True eh show ?thesis
          by (subst sweepLeases_loop.simps) simp
      next
        case e: True
        let ?s2 = "?s1\<lparr>inflight := AList.delete (t_id e) (inflight ?s1)\<rparr>"
        obtain s3 m bk where rt: "retire ?s2 l now mr 0 dl = (s3, m, bk)" by (cases "retire ?s2 l now mr 0 dl")
        have "tally (st s3) = tally (st s)" using tally_retire [of ?s2 l now mr 0 dl] rt by simp
        with 1(3) [OF True refl eh [symmetric] refl _ _ refl refl rt [symmetric] refl] Some True eh e rt show ?thesis
          by (subst sweepLeases_loop.simps) simp
      qed
    qed
  qed
qed

lemma tally_sweepLeases: "tally (st (fst (sweepLeases s now mr dl))) = tally (st s)"
  using tally_sweepLeases_loop [of s now mr dl "[]" 0]
  by (cases "sweepLeases_loop s now mr dl [] 0") (simp add: sweepLeases_def)

lemma tally_expire_front: "tally (st (fst (expire_front s r now n))) = tally (st s)"
proof (induction s r now n rule: expire_front.induct)
  case (1 s r now n)
  show ?case
  proof (cases "front (msgs (gheap s r))")
    case None
    then show ?thesis by (subst expire_front.simps) (simp only: option.case fst_conv)
  next
    case (Some m)
    show ?thesis
    proof (cases "expired m now")
      case False
      with Some show ?thesis by (subst expire_front.simps) (simp only: option.case fst_conv not_False_eq_True if_True)
    next
      case True
      show ?thesis
      proof (cases "popFront zero_message (msgs (gheap s r))")
        case none: None
        with Some True show ?thesis
          by (subst expire_front.simps) (simp only: option.case fst_conv not_True_eq_False if_False)
      next
        case (Some x)
        obtain v d where x: "x = (v, d)" by (cases x)
        from 1 [OF \<open>front _ = Some m\<close> _ Some x [symmetric]] True \<open>front _ = Some m\<close> Some x show ?thesis
          by (subst expire_front.simps)
            (simp only: option.case prod.case not_True_eq_False if_False tally_dropExpired upd_group_frame simp_thms)
      qed
    qed
  qed
qed

lemma tally_sweepTTL_group: "tally (st (fst (sweepTTL_group s r now))) = tally (st s)"
  using tally_expire_front [of s r now 0]
  by (cases "expire_front s r now 0") (simp add: sweepTTL_group_def Let_def)

lemma tally_sweepTTL_loop: "tally (st (fst (sweepTTL_loop s ks now n))) = tally (st s)"
proof (induction s ks now n rule: sweepTTL_loop.induct)
  case (2 s k ks now n)
  then show ?case using tally_sweepTTL_group
    by (auto split: option.splits prod.splits) (metis fst_conv)
qed simp

lemma tally_sweepTTL: "tally (st (fst (sweepTTL s ks now))) = tally (st s)"
  using tally_sweepTTL_loop [of s ks now 0] by (cases "sweepTTL_loop s ks now 0") (simp add: sweepTTL_def)

lemma tally_releaseDelayed_loop: "tally (st (fst (releaseDelayed_loop s now n))) = tally (st s)"
proof (induction s now n rule: releaseDelayed_loop.induct)
  case (1 s now n)
  show ?case
  proof (cases "delayed s \<noteq> [] \<and> \<not> now < d_at (delayed s ! 0)")
    case False
    then show ?thesis by (subst releaseDelayed_loop.simps) auto
  next
    case True
    obtain e h where eh: "heap_pop d_at (delayed s) = (e, h)" by (cases "heap_pop d_at (delayed s)")
    from 1 [OF True refl eh [symmetric] refl refl refl] True eh show ?thesis
      by (subst releaseDelayed_loop.simps) (simp add: Let_def tally_def gauge_sum_move)
  qed
qed

lemma tally_releaseDelayed: "tally (st (fst (releaseDelayed s now))) = tally (st s)"
  using tally_releaseDelayed_loop [of s now 0] by (cases "releaseDelayed_loop s now 0") (simp add: releaseDelayed_def)

text \<open>A sweep counts exactly the messages it removes.\<close>

lemma sweep_slot_spec:
  assumes ok: "slot_ok s" and sw: "sweep_slot c s ks now = (s', r, n)"
  shows "slot_ok s'" "sid s' = sid s" "size (held s) = size (held s') + n"
proof -
  obtain s1 rel where 1: "releaseDelayed s now = (s1, rel)" by (cases "releaseDelayed s now")
  obtain s2 dead req where 2: "sweepLeases s1 now (MaxRetries c) (HasDeadLetter c) = (s2, dead, req)"
    by (cases "sweepLeases s1 now (MaxRetries c) (HasDeadLetter c)")
  obtain s3 drop where 3: "sweepTTL s2 ks now = (s3, drop)" by (cases "sweepTTL s2 ks now")
  have s': "s' = s3" "n = n_expired (st s3) + n_deadLettered (st s3) - (n_expired (st s) + n_deadLettered (st s))"
    using sw 1 2 3 by (auto simp: sweep_slot_def Let_def)
  note R = releaseDelayed_spec [OF ok 1]
  note L = sweepLeases_spec [OF slot_okD(1) [OF R(1)] 2]
  from sweepTTL_spec [OF slot_okD(1) [OF L(1)] 3] have T: "slot_ok s3" "sid s3 = sid s2" by metis+
  show "slot_ok s'" using T s' by simp
  show "sid s' = sid s" using T R(5) sweepLeases_epoch [OF 2] s' by simp
  have "tally (st s3) = tally (st s)"
    using tally_releaseDelayed [of s now] tally_sweepLeases [of s1 now "MaxRetries c" "HasDeadLetter c"]
      tally_sweepTTL [of s2 ks now] 1 2 3 by simp
  then have "int (size (held s)) + int (n_expired (st s) + n_deadLettered (st s))
      = int (size (held s3)) + int (n_expired (st s3) + n_deadLettered (st s3))"
    using gauge_sum_held [OF slot_okD(1) [OF ok]] gauge_sum_held [OF slot_okD(1) [OF T(1)]] by (simp add: tally_def)
  moreover have "size (held s3) \<le> size (held s)"
  proof -
    have "size (delayed_ms s) = size (filter_mset (\<lambda>m. now < DeliverAfter m) (delayed_ms s)) +
        size (filter_mset (\<lambda>m. \<not> now < DeliverAfter m) (delayed_ms s))"
      by (metis multiset_partition size_union)
    then have a: "size (held s1) \<le> size (held s)"
      by (simp add: held_def R flight_ms_def)
    have b: "size (held s2) \<le> size (held s1)" using L(4) by auto
    have "size (held s3) \<le> size (held s2)"
      using sweepTTL_spec [OF slot_okD(1) [OF L(1)] 3] by (metis flight_ms_def delayed_ms_def held_def le_add1 size_union add.commute add.assoc)
    with a b show ?thesis by simp
  qed
  ultimately show "size (held s) = size (held s') + n" using s' by simp
qed


subsection \<open>One slot of a queue\<close>

definition slot_at :: "queue \<Rightarrow> u16 \<Rightarrow> slot" where
  "slot_at q i = (case map_of (slots q) i of Some s \<Rightarrow> s | None \<Rightarrow> newSlot i)"

definition qheld :: "queue \<Rightarrow> message multiset" where
  "qheld q = sum_al held (slots q)"

definition queue_ok :: "queue \<Rightarrow> bool" where
  "queue_ok q \<longleftrightarrow> distinct (map fst (slots q)) \<and> localView q = sort (map fst (slots q)) \<and> reserved q = 0 \<and>
     (\<forall>x \<in> set (slots q). slot_reach (snd x) \<and> sid (snd x) = fst x)"

definition with_slot :: "queue \<Rightarrow> u16 \<Rightarrow> slot \<Rightarrow> queue" where
  "with_slot q i s = put_slot (fst (get_slot q i)) i s"

lemma get_slot_at [simp]: "snd (get_slot q i) = slot_at q i"
  by (simp add: get_slot_def slot_at_def split: option.split)

lemma get_slot_frame [simp]:
  "conf (fst (get_slot q i)) = conf q" "incarnation (fst (get_slot q i)) = incarnation q"
  "qseq (fst (get_slot q i)) = qseq q" "depth (fst (get_slot q i)) = depth q"
  "reserved (fst (get_slot q i)) = reserved q" "qfrozen (fst (get_slot q i)) = qfrozen q"
  "jlog (fst (get_slot q i)) = jlog q"
  by (simp_all add: get_slot_def rebuildLocalView_def split: option.split)

lemma with_slot_frame [simp]:
  "conf (with_slot q i s) = conf q" "incarnation (with_slot q i s) = incarnation q"
  "qseq (with_slot q i s) = qseq q" "depth (with_slot q i s) = depth q"
  "reserved (with_slot q i s) = reserved q" "qfrozen (with_slot q i s) = qfrozen q"
  "jlog (with_slot q i s) = jlog q"
  by (simp_all add: with_slot_def put_slot_def)

lemma slot_at_with [simp]: "slot_at (with_slot q i s) j = (if j = i then s else slot_at q j)"
  by (simp add: slot_at_def with_slot_def put_slot_def get_slot_def rebuildLocalView_def split: option.split)

lemma queue_okD:
  assumes "queue_ok q"
  shows "slot_reach (slot_at q i)" "slot_ok (slot_at q i)" "sid (slot_at q i) = i"
proof -
  have "slot_reach (slot_at q i) \<and> sid (slot_at q i) = i"
  proof (cases "map_of (slots q) i")
    case None
    then show ?thesis using reach_new [of i] by (simp add: slot_at_def) (simp add: newSlot_def)
  next
    case (Some s)
    then have "(i, s) \<in> set (slots q)" by (rule map_of_SomeD)
    with assms Some show ?thesis by (force simp: queue_ok_def slot_at_def)
  qed
  then show "slot_reach (slot_at q i)" "slot_ok (slot_at q i)" "sid (slot_at q i) = i"
    using reach_ok by simp_all
qed

lemma queue_ok_cong:
  assumes "queue_ok q" "slots q' = slots q" "localView q' = localView q" "reserved q' = reserved q"
  shows "queue_ok q'" "qheld q' = qheld q" "slot_at q' i = slot_at q i"
  using assms by (simp_all add: queue_ok_def qheld_def slot_at_def)

lemma sum_al_update:
  "distinct (map fst al) \<Longrightarrow> map_of al k = Some v0 \<Longrightarrow> sum_al f (AList.update k v al) + f v0 = sum_al f al + f v"
proof (induction al)
  case (Cons x al)
  then show ?case by (cases "fst x = k") (cases x; auto simp: ac_simps)+
qed simp

lemma update_known: "k \<in> fst ` set al \<Longrightarrow> map fst (AList.update k v al) = map fst al"
  by (induction al) auto

text \<open>Replacing one slot moves the messages held by what that slot gained or lost.\<close>

lemma with_slot_ok:
  assumes ok: "queue_ok q" and s: "slot_reach s" "sid s = i"
  shows "queue_ok (with_slot q i s)" "qheld (with_slot q i s) + held (slot_at q i) = qheld q + held s"
proof -
  have "queue_ok (with_slot q i s) \<and> qheld (with_slot q i s) + held (slot_at q i) = qheld q + held s"
  proof (cases "map_of (slots q) i")
    case (Some s0)
    have d: "distinct (map fst (slots q))" using ok by (simp add: queue_ok_def)
    have "i \<in> fst ` set (slots q)" using Some by (metis domI dom_map_of_conv_image_fst)
    then have "map fst (AList.update i s (slots q)) = map fst (slots q)" by (rule update_known)
    then show ?thesis using ok Some s sum_al_update [OF d Some, of held s]
      by (auto simp: queue_ok_def with_slot_def put_slot_def get_slot_def qheld_def slot_at_def set_AList_update)
  next
    case None
    then have f: "i \<notin> fst ` set (slots q)" by (simp add: map_of_eq_None_iff)
    have u: "AList.update i s (AList.update i (newSlot i) (slots q)) = AList.update i s (slots q)" by simp
    show ?thesis using ok None s f u newSlot_ok
      by (auto simp: queue_ok_def with_slot_def put_slot_def get_slot_def qheld_def slot_at_def rebuildLocalView_def
          AList_update_fresh)
  qed
  then show "queue_ok (with_slot q i s)" "qheld (with_slot q i s) + held (slot_at q i) = qheld q + held s" by simp_all
qed

lemma local_slot_at: "map_of (slots q) i \<noteq> None \<Longrightarrow> local_slot q i = slot_at q i"
  by (auto simp: local_slot_def slot_at_def)

lemma put_slot_with: "map_of (slots q) i \<noteq> None \<Longrightarrow> put_slot q i s = with_slot q i s"
  by (auto simp: with_slot_def get_slot_def)

lemma localView_slots: "queue_ok q \<Longrightarrow> i \<in> set (localView q) \<longleftrightarrow> map_of (slots q) i \<noteq> None"
  by (force simp: queue_ok_def map_of_eq_None_iff)

lemma with_slot_known: "map_of (slots q) j \<noteq> None \<Longrightarrow> map_of (slots (with_slot q i s)) j \<noteq> None"
  by (auto simp: with_slot_def put_slot_def get_slot_def rebuildLocalView_def split: option.split)

end
