(* ===== verification/QueueRun.thy ===== *)
theory QueueRun
  imports QueueInv
begin

text \<open>
  What each operation of a queue does to the messages the queue holds and to its depth counter, and
  the runs of a queue: its operations in any order from \<open>New\<close>.  Each operation is a sequence of slot
  steps, so every slot of a queue is a reachable slot and all properties of slots carry over.
\<close>

definition qmoves :: "queue \<Rightarrow> message multiset \<Rightarrow> message multiset \<Rightarrow> time set \<Rightarrow> message multiset \<Rightarrow> queue \<Rightarrow> bool" where
  "qmoves q In Out T gone q' \<longleftrightarrow> queue_ok q' \<and> (\<forall>m \<in># gone. \<exists>t \<in> T. expired m t) \<and>
     image_mset core (qheld q + In) = image_mset core (qheld q' + Out + gone)"

lemma qmoves_size:
  "qmoves q In Out T gone q' \<Longrightarrow> size (qheld q) + size In = size (qheld q') + size Out + size gone"
proof -
  assume "qmoves q In Out T gone q'"
  then have "size (image_mset core (qheld q + In)) = size (image_mset core (qheld q' + Out + gone))"
    by (simp add: qmoves_def)
  then show ?thesis by simp
qed

lemma qmoves_trans:
  assumes "qmoves q In Out T gone q1" "qmoves q1 In' Out' T' gone' q2"
  shows "qmoves q (In + In') (Out + Out') (T \<union> T') (gone + gone') q2"
proof -
  have "image_mset core (qheld q + (In + In')) = image_mset core (qheld q + In) + image_mset core In'" by (simp add: ac_simps)
  also have "\<dots> = image_mset core (qheld q1 + In') + image_mset core (Out + gone)"
    using assms(1) by (simp add: qmoves_def ac_simps)
  also have "\<dots> = image_mset core (qheld q2 + (Out + Out') + (gone + gone'))"
    using assms(2) by (simp add: qmoves_def ac_simps)
  finally show ?thesis using assms by (auto simp: qmoves_def)
qed

lemma qmoves_refl: "queue_ok q \<Longrightarrow> qmoves q {#} {#} {} {#} q"
  by (simp add: qmoves_def)

lemma qmoves_mono: "qmoves q In Out T gone q' \<Longrightarrow> T \<subseteq> T' \<Longrightarrow> qmoves q In Out T' gone q'"
  by (fastforce simp: qmoves_def)

lemma qmoves_cong:
  assumes "qmoves q In Out T gone q1" "slots q2 = slots q1" "localView q2 = localView q1" "reserved q2 = reserved q1"
  shows "qmoves q In Out T gone q2"
  using assms queue_ok_cong [of q1 q2] by (simp add: qmoves_def)

lemma qmoves_cong0:
  assumes "qmoves q1 In Out T gone q'" "slots q1 = slots q"
  shows "qmoves q In Out T gone q'"
  using assms by (simp add: qmoves_def qheld_def)

subsection \<open>One slot step\<close>

lemma step_sid:
  assumes ok: "slot_ok s" and st: "slot_step s op s'"
  shows "sid s' = sid s"
  using st
proof cases
  case (Take p now vis)
  obtain x res where t: "take_msg s p now vis = (x, res)" by (cases "take_msg s p now vis")
  show ?thesis unfolding Take t
    by (rule take_msg_cases [OF slot_okD(1) [OF ok] Take(3) t]) auto
next
  case (SweepLeases now mr dl)
  obtain x dead n where t: "sweepLeases s now mr dl = (x, dead, n)" by (cases "sweepLeases s now mr dl")
  then show ?thesis unfolding SweepLeases using sweepLeases_epoch [OF t] by simp
next
  case (SweepTTL ks now)
  obtain x n where t: "sweepTTL s ks now = (x, n)" by (cases "sweepTTL s ks now")
  from sweepTTL_spec [OF slot_okD(1) [OF ok] t] have "sid x = sid s" by metis
  then show ?thesis unfolding SweepTTL using t by simp
next
  case (ReleaseDelayed now)
  obtain x n where t: "releaseDelayed s now = (x, n)" by (cases "releaseDelayed s now")
  show ?thesis unfolding ReleaseDelayed using releaseDelayed_spec(5) [OF ok t] t by simp
next
  case (Absorb ms gs now)
  have p: "\<And>m. m \<in> set ms \<Longrightarrow> Priority m \<le> 100" using Absorb(3) by (simp add: prio_valid_100)
  show ?thesis unfolding Absorb using absorb_slot_spec(6) [OF slot_okD(1) [OF ok] p Absorb(4,5,6)] by simp
next
  case (Nack r delay now mr dl)
  then show ?thesis
    by (auto simp: nack_def Let_def dest: retire_frame split: option.split prod.split)
qed (simp_all add: enqueue_def ack_def drain_def Let_def split: option.split)

lemma slot_step_moves:
  assumes ok: "queue_ok q" and st: "slot_step (slot_at q i) op s'"
  obtains gone where "qmoves q (op_in op) (op_out (slot_at q i) op) (op_clock op) gone (with_slot q i s')"
proof -
  from step_ok [OF queue_okD(2) [OF ok] st] obtain gone where g: "\<forall>m \<in># gone. \<exists>t \<in> op_clock op. expired m t"
    "image_mset core (held (slot_at q i) + op_in op) = image_mset core (held s' + op_out (slot_at q i) op + gone)"
    by (auto simp: accounted_def)
  have "slot_reach s'" "sid s' = i"
    using reach_step [OF queue_okD(1) [OF ok] st] step_sid [OF queue_okD(2) [OF ok] st] queue_okD(3) [OF ok] by simp_all
  note W = with_slot_ok [OF ok this]
  let ?q' = "with_slot q i s'"
  have "image_mset core (qheld ?q' + held (slot_at q i)) = image_mset core (qheld q + held s')" by (simp only: W(2))
  then have "image_mset core (qheld q + op_in op) + image_mset core (held s' + held (slot_at q i))
    = image_mset core (qheld ?q' + op_out (slot_at q i) op + gone) + image_mset core (held s' + held (slot_at q i))"
    using g(2) by (simp add: ac_simps)
  then have "qmoves q (op_in op) (op_out (slot_at q i) op) (op_clock op) gone ?q'"
    using W(1) g(1) by (simp add: qmoves_def)
  then show thesis by (rule that)
qed

subsection \<open>Enqueue, acknowledge\<close>

definition fresh_id :: "queue \<Rightarrow> u16 \<Rightarrow> string \<Rightarrow> bool" where
  "fresh_id q i k \<longleftrightarrow> k \<notin> ID ` set_mset (held (slot_at q i))"

lemma ids_ok_fresh:
  assumes "ids_ok M" "ID m \<notin> ID ` set_mset M"
  shows "ids_ok (add_mset m M)"
proof -
  have "\<forall>x \<in># M. ID x \<noteq> ID m" using assms(2) by (metis image_eqI)
  with assms(1) show ?thesis unfolding ids_ok_def by (metis insert_iff set_mset_add_mset_insert)
qed

lemma slot_ids: "slot_ok s \<Longrightarrow> ids_ok (held s)"
  by (simp add: slot_ok_def slot_inv_def)

lemma get_slot_reserved:
  "get_slot (q\<lparr>reserved := r\<rparr>) i = ((fst (get_slot q i))\<lparr>reserved := r\<rparr>, slot_at q i)"
  by (simp add: get_slot_def slot_at_def rebuildLocalView_def split: option.split)

lemma put_slot_fields [simp]:
  "slots (put_slot q i s) = AList.update i s (slots q)" "localView (put_slot q i s) = localView q"
  "conf (put_slot q i s) = conf q" "incarnation (put_slot q i s) = incarnation q"
  "qseq (put_slot q i s) = qseq q" "depth (put_slot q i s) = depth q" "jlog (put_slot q i s) = jlog q"
  "reserved (put_slot q i s) = reserved q" "qfrozen (put_slot q i s) = qfrozen q"
  by (simp_all add: put_slot_def)

lemma slots_with_slot:
  "slots (with_slot q i s) = AList.update i s (slots (fst (get_slot q i)))"
  "localView (with_slot q i s) = localView (fst (get_slot q i))"
  by (simp_all add: with_slot_def)

text \<open>The two outcomes of \<open>EnqueueToSlot\<close>.\<close>

lemma EnqueueToSlot_cases:
  assumes ok: "queue_ok q" and f: "fresh_id q i newid" and e: "EnqueueToSlot q i o' newid now jok = (q', res)"
  obtains (refused) err where "res = Inl err" "qmoves q {#} {#} {} {#} q'" "depth q' = depth q" "jlog q' = jlog q"
      "conf q' = conf q" "\<And>j. slot_at q' j = slot_at q j" "incarnation q' = incarnation q"
    | (accepted) m where "res = Inr m" "qmoves q {#m#} {#} {now} {#} q'" "depth q' = depth q + 1" "jok"
      "jlog q' = jlog q @ [AppendEnqueue i m]" "m = (build_message (conf q) o' newid now)\<lparr>Seq := qseq q + 1\<rparr>"
      "qseq q' = qseq q + 1" "prio_valid (eo_Priority o')" "unat i < slotCount q" "\<not> qfrozen q"
      "MaxDepth (conf q) > 0 \<longrightarrow> depth q' \<le> MaxDepth (conf q)" "conf q' = conf q" "incarnation q' = incarnation q"
      "\<And>j. slot_at q' j = (if j = i then enqueue (slot_at q i) m now else slot_at q j)" "\<not> sfrozen (slot_at q i)"
proof -
  let ?m = "(build_message (conf q) o' newid now)\<lparr>Seq := qseq q + 1\<rparr>"
  let ?s = "slot_at q i"
  have sl: "slots q' = slots q \<and> localView q' = localView q \<or> slots q' = slots (fst (get_slot q i)) \<and> localView q' = localView (fst (get_slot q i))"
    and same: "reserved q' = reserved q" "depth q' = depth q" "jlog q' = jlog q" "conf q' = conf q" "incarnation q' = incarnation q"
    if "res = Inl err" for err
    using e that
    by (simp_all add: EnqueueToSlot_def Let_def get_slot_reserved nextSeq_def split: if_splits)
       (auto split: if_splits)
  show thesis
  proof (cases res)
    case (Inl err)
    have W: "queue_ok (with_slot q i ?s)" "qheld (with_slot q i ?s) = qheld q"
      using with_slot_ok [OF ok queue_okD(1,3) [OF ok]] by simp_all
    have G: "queue_ok (fst (get_slot q i))" "qheld (fst (get_slot q i)) = qheld q" "\<And>j. slot_at (fst (get_slot q i)) j = slot_at q j"
    proof -
      have "slots (fst (get_slot q i)) = slots (with_slot q i ?s)" "localView (fst (get_slot q i)) = localView (with_slot q i ?s)"
        by (auto simp: with_slot_def put_slot_def get_slot_def rebuildLocalView_def slot_at_def update_triv split: option.split)
      then show "queue_ok (fst (get_slot q i))" "qheld (fst (get_slot q i)) = qheld q" "\<And>j. slot_at (fst (get_slot q i)) j = slot_at q j"
        using queue_ok_cong [OF W(1), of "fst (get_slot q i)"] W by simp_all
    qed
    have "queue_ok q'" "qheld q' = qheld q" "\<And>j. slot_at q' j = slot_at q j"
      using sl [OF Inl] same [OF Inl] queue_ok_cong [OF ok, of q'] queue_ok_cong [OF G(1), of q'] G by auto
    then show thesis using refused [OF Inl] same [OF Inl] by (simp add: qmoves_def)
  next
    case (Inr m)
    have P: "m = ?m" "jok" "prio_valid (eo_Priority o')" "unat i < slotCount q" "\<not> qfrozen q" "\<not> sfrozen ?s"
      "depth q' = depth q + 1" "jlog q' = jlog q @ [AppendEnqueue i m]" "qseq q' = qseq q + 1" "conf q' = conf q"
      "incarnation q' = incarnation q" "reserved q' = reserved q"
      "slots q' = slots (with_slot q i (enqueue ?s ?m now))" "localView q' = localView (with_slot q i (enqueue ?s ?m now))"
      "MaxDepth (conf q) > 0 \<longrightarrow> depth q + (reserved q + 1) \<le> MaxDepth (conf q)"
      using e Inr
      by (simp_all add: EnqueueToSlot_def Let_def get_slot_reserved nextSeq_def slots_with_slot split: if_splits)
         (auto split: if_splits)
    have i: "ID ?m = newid" "Priority ?m = eo_Priority o'" by (simp_all add: build_message_def Let_def)
    have "slot_step ?s (slot_op.Enqueue ?m now) (enqueue ?s ?m now)"
      using P(3) f ids_ok_fresh [OF slot_ids [OF queue_okD(2) [OF ok]], of ?m] i
      by (intro slot_step.Enqueue) (simp_all add: fresh_id_def)
    from slot_step_moves [OF ok this] obtain gone where
      Q: "qmoves q {#?m#} {#} {now} gone (with_slot q i (enqueue ?s ?m now))" by auto
    have "size gone = 0"
    proof -
      have "held (enqueue ?s ?m now) = add_mset ?m (held ?s)"
        using enqueue_inv [OF queue_okD(2) [OF ok], of ?m] P(3) f i
          ids_ok_fresh [OF slot_ids [OF queue_okD(2) [OF ok]], of ?m i]
        by (auto simp: prio_valid_100 held_def fresh_id_def)
      then have "qheld (with_slot q i (enqueue ?s ?m now)) + held ?s = qheld q + add_mset ?m (held ?s)"
        using with_slot_ok(2) [OF ok, of "enqueue ?s ?m now" i] queue_okD [OF ok]
          reach_step [OF queue_okD(1) [OF ok] \<open>slot_step ?s _ _\<close>] by (simp add: enqueue_def Let_def)
      from arg_cong [OF this, of size]
      have "size (qheld (with_slot q i (enqueue ?s ?m now))) = size (qheld q) + 1" by simp
      with qmoves_size [OF Q] show ?thesis by simp
    qed
    then have Q': "qmoves q {#m#} {#} {now} {#} q'" using qmoves_cong [OF Q, of q'] P by simp
    have at: "slot_at q' j = (if j = i then enqueue ?s m now else slot_at q j)" for j
      using slot_at_with [of q i "enqueue ?s ?m now" j] P(1,13) by (simp add: slot_at_def)
    have "reserved q = 0" using ok by (simp add: queue_ok_def)
    then show thesis using P Q' at by (intro accepted [OF Inr]) auto
  qed
qed

lemma get_slot_eq: "get_slot q i = (fst (get_slot q i), slot_at q i)"
  using get_slot_at [of q i] by (metis prod.collapse)

lemma Ack_eq:
  "Ack q r = (if Incarnation r \<noteq> incarnation q then (q, Some ErrLeaseExpired)
     else let s = fst (ack (slot_at q (Slot r)) r); e = snd (ack (slot_at q (Slot r)) r); q1 = with_slot q (Slot r) s
     in if e = None
        then (q1\<lparr>depth := depth q - 1, jlog := jlog q @ [AppendTerminal (Slot r) (MessageID r) TerminalAck]\<rparr>, None)
        else (q1, e))"
  unfolding Ack_def by (subst get_slot_eq, cases "ack (slot_at q (Slot r)) r") (auto simp: Let_def with_slot_def)

lemma Ack_moves:
  assumes ok: "queue_ok q" and a: "Ack q r = (q', res)"
  obtains (refused) e where "res = Some e" "qmoves q {#} {#} {} {#} q'" "depth q' = depth q" "jlog q' = jlog q"
    | (acked) l where "res = None" "Incarnation r = incarnation q"
      "map_of (inflight (slot_at q (Slot r))) (MessageID r) = Some l" "l_epoch l = Epoch r"
      "qmoves q {#} {#l_msg l#} {} {#} q'" "depth q' = depth q - 1"
      "jlog q' = jlog q @ [AppendTerminal (Slot r) (MessageID r) TerminalAck]"
proof -
  let ?s = "slot_at q (Slot r)"
  obtain s' e where t: "ack ?s r = (s', e)" by (cases "ack ?s r")
  have st: "slot_step ?s (slot_op.Ack r) s'" using slot_step.Ack [of ?s r] t by simp
  from slot_step_moves [OF ok this] obtain gone where
    Q: "qmoves q {#} (op_out ?s (slot_op.Ack r)) {} gone (with_slot q (Slot r) s')" by auto
  have g: "gone = {#}" using Q by (auto simp: qmoves_def)
  consider "Incarnation r \<noteq> incarnation q" | "Incarnation r = incarnation q" "e \<noteq> None" | "Incarnation r = incarnation q" "e = None"
    by blast
  then show thesis
  proof cases
    case 1
    then have "res = Some ErrLeaseExpired" "q' = q" using a by (auto simp: Ack_eq)
    then show thesis using refused qmoves_refl [OF ok] by simp
  next
    case 2
    then obtain x where e: "e = Some x" by auto
    then have "qmoves q {#} {#} {} {#} q'" using Q a 2 t g by (auto simp: Ack_eq Let_def)
    then show thesis using refused [of x] a 2 t e by (auto simp: Ack_eq Let_def)
  next
    case 3
    obtain l where l: "map_of (inflight ?s) (MessageID r) = Some l" "l_epoch l = Epoch r"
      by (rule ack_cases [OF queue_okD(2) [OF ok] t]) (use 3 in auto)
    have "op_out ?s (slot_op.Ack r) = {#l_msg l#}" using 3 t l by simp
    then have "qmoves q {#} {#l_msg l#} {} {#} (with_slot q (Slot r) s')" using Q g by simp
    then have "qmoves q {#} {#l_msg l#} {} {#} q'"
      by (rule qmoves_cong) (use a 3 t l in \<open>auto simp: Ack_eq Let_def\<close>)
    then show thesis using acked [of l] a 3 t l by (auto simp: Ack_eq Let_def)
  qed
qed

lemma Nack_eq:
  "Nack q r delay now = (if Incarnation r \<noteq> incarnation q then (q, Inl ErrLeaseExpired)
     else let n = nack (slot_at q (Slot r)) r delay now (MaxRetries (conf q)) (HasDeadLetter (conf q));
              q1 = with_slot q (Slot r) (fst n)
     in case snd n of
          Inr (Some dead) \<Rightarrow>
            (q1\<lparr>depth := depth q - 1, jlog := jlog q @ [AppendTerminal (Slot r) (ID dead) TerminalDeadLettered]\<rparr>, Inr (Some dead))
        | _ \<Rightarrow> (q1, snd n))"
  unfolding Nack_def
  by (subst get_slot_eq, cases "nack (slot_at q (Slot r)) r delay now (MaxRetries (conf q)) (HasDeadLetter (conf q))")
     (auto simp: Let_def with_slot_def split: sum.split option.split)

lemma Nack_moves:
  assumes ok: "queue_ok q" and a: "Nack q r delay now = (q', res)"
  obtains gone where "qmoves q {#} (case res of Inr (Some m) \<Rightarrow> {#m#} | _ \<Rightarrow> {#}) {now} gone q'"
    "depth q' = depth q - (case res of Inr (Some m) \<Rightarrow> 1 | _ \<Rightarrow> 0)"
    "jlog q' = jlog q @ (case res of Inr (Some m) \<Rightarrow> [AppendTerminal (Slot r) (ID m) TerminalDeadLettered] | _ \<Rightarrow> [])"
proof (cases "Incarnation r = incarnation q")
  case False
  then show thesis using that [of "{#}"] a qmoves_mono [OF qmoves_refl [OF ok], of "{now}"] by (auto simp: Nack_eq)
next
  case True
  let ?s = "slot_at q (Slot r)"
  let ?op = "slot_op.Nack r delay now (MaxRetries (conf q)) (HasDeadLetter (conf q))"
  obtain s' e where t: "nack ?s r delay now (MaxRetries (conf q)) (HasDeadLetter (conf q)) = (s', e)"
    by (cases "nack ?s r delay now (MaxRetries (conf q)) (HasDeadLetter (conf q))")
  have "slot_step ?s ?op s'" using slot_step.Nack [of ?s] t by (metis fst_conv)
  from slot_step_moves [OF ok this] obtain gone where
    Q: "qmoves q {#} (op_out ?s ?op) {now} gone (with_slot q (Slot r) s')" by auto
  have r: "res = e" using a True t by (auto simp: Nack_eq Let_def split: sum.splits option.splits)
  have "qmoves q {#} (case res of Inr (Some m) \<Rightarrow> {#m#} | _ \<Rightarrow> {#}) {now} gone q'"
    by (rule qmoves_cong [where ?q1.0 = "with_slot q (Slot r) s'"])
       (use Q r a True t in \<open>auto simp: Nack_eq Let_def split: sum.splits option.splits\<close>)
  moreover have "depth q' = depth q - (case res of Inr (Some m) \<Rightarrow> 1 | _ \<Rightarrow> 0)"
    "jlog q' = jlog q @ (case res of Inr (Some m) \<Rightarrow> [AppendTerminal (Slot r) (ID m) TerminalDeadLettered] | _ \<Rightarrow> [])"
    using r a True t by (auto simp: Nack_eq Let_def split: sum.splits option.splits)
  ultimately show thesis by (rule that)
qed

subsection \<open>Dequeue\<close>

text \<open>What a run of takes leaves alone.\<close>

definition qsame :: "queue \<Rightarrow> queue \<Rightarrow> bool" where
  "qsame q q' \<longleftrightarrow> conf q' = conf q \<and> incarnation q' = incarnation q \<and> qseq q' = qseq q \<and> depth q' = depth q \<and>
     reserved q' = reserved q \<and> qfrozen q' = qfrozen q \<and> jlog q' = jlog q \<and>
     (\<forall>i. sfrozen (slot_at q i) \<longrightarrow> slot_at q' i = slot_at q i)"

lemma qsame_trans: "qsame q q1 \<Longrightarrow> qsame q1 q2 \<Longrightarrow> qsame q q2"
  by (simp add: qsame_def)

lemma qsame_with: "\<not> sfrozen (slot_at q i) \<Longrightarrow> qsame q (with_slot q i s)"
  by (auto simp: qsame_def)

lemma hint_band:
  assumes "slot_reach s" "hint s \<noteq> 0"
  shows "unat (of_nat (hint s - 1) :: prio) = hint s - 1" "(of_nat (hint s - 1) :: prio) < 128"
proof -
  obtain p where p: "highestBand s = Some p" and h: "hint s = unat p + 1"
    using hint_highest [OF reach_ok [OF assms(1)]] assms(2) by (auto split: option.splits)
  then show "unat (of_nat (hint s - 1) :: prio) = hint s - 1" by simp
  show "(of_nat (hint s - 1) :: prio) < 128" using highestBand_Some [OF p] h by simp
qed

lemma take_moves:
  assumes ok: "queue_ok q" and i: "map_of (slots q) i \<noteq> None" and p: "p < 128"
    and t: "take_msg (local_slot q i) p now vis = (s', res)"
  obtains gone where "put_slot q i s' = with_slot q i s'" "qmoves q {#} {#} {now} gone (with_slot q i s')"
proof -
  have t': "take_msg (slot_at q i) p now vis = (s', res)" using t local_slot_at [OF i] by simp
  have "slot_step (slot_at q i) (slot_op.Take p now vis) s'" using slot_step.Take [OF p, of "slot_at q i"] t' by (metis fst_conv)
  from slot_step_moves [OF ok this] that put_slot_with [OF i] show thesis by auto
qed

text \<open>\<open>pick_urgent\<close> finds the unfrozen slot with the highest announced band, the oldest head among equals.\<close>

definition ready_slot :: "queue \<Rightarrow> u16 \<Rightarrow> bool" where
  "ready_slot q i \<longleftrightarrow> \<not> sfrozen (local_slot q i) \<and> hint (local_slot q i) \<noteq> 0"

definition announced :: "queue \<Rightarrow> u16 \<Rightarrow> prio" where
  "announced q i = of_nat (hint (local_slot q i) - 1)"

lemma urgent_fold:
  "foldl (urgent_step q) best is = r \<Longrightarrow> (\<forall>i b n. best = Some (i, b, n) \<longrightarrow> ready_slot q i \<and> b = announced q i \<and> n = headSeq (local_slot q i)) \<Longrightarrow>
   (case r of None \<Rightarrow> best = None \<and> (\<forall>i \<in> set is. \<not> ready_slot q i)
    | Some (i, b, n) \<Rightarrow> ready_slot q i \<and> b = announced q i \<and> n = headSeq (local_slot q i) \<and>
        (i \<in> set is \<or> best = Some (i, b, n)) \<and>
        (\<forall>j \<in> set is. ready_slot q j \<longrightarrow> announced q j \<le> b \<and> (announced q j = b \<longrightarrow> n \<le> headSeq (local_slot q j))) \<and>
        (\<forall>i' b' n'. best = Some (i', b', n') \<longrightarrow> b' \<le> b \<and> (b' = b \<longrightarrow> n \<le> n')))"
proof (induction "is" arbitrary: best)
  case Nil
  then show ?case by (auto split: option.split)
next
  case (Cons i "is")
  let ?b = "urgent_step q best i"
  have pre: "\<forall>i b n. ?b = Some (i, b, n) \<longrightarrow> ready_slot q i \<and> b = announced q i \<and> n = headSeq (local_slot q i)"
    using Cons.prems(2) by (auto simp: urgent_step_def Let_def ready_slot_def announced_def split: option.splits if_splits)
  have fold: "foldl (urgent_step q) ?b is = r" using Cons.prems(1) by simp
  note I = Cons.IH [OF fold pre]
  show ?case
  proof (cases "ready_slot q i")
    case False
    then have "?b = best" by (simp add: urgent_step_def Let_def ready_slot_def)
    with I False show ?thesis by (auto split: option.splits)
  next
    case True
    show ?thesis
    proof (cases best)
      case None
      then have "?b = Some (i, announced q i, headSeq (local_slot q i))"
        using True by (simp add: urgent_step_def Let_def ready_slot_def announced_def)
      with I True None show ?thesis by (auto split: option.splits)
    next
      case (Some x)
      obtain i' b' n' where x: "x = (i', b', n')" by (cases x)
      then have "?b = (if announced q i > b' \<or> announced q i = b' \<and> headSeq (local_slot q i) < n'
          then Some (i, announced q i, headSeq (local_slot q i)) else Some (i', b', n'))"
        using True Some by (simp add: urgent_step_def Let_def ready_slot_def announced_def)
      with I True Some x show ?thesis by (fastforce split: option.splits if_splits)
    qed
  qed
qed

lemma pick_urgent_Some:
  assumes "pick_urgent q = Some (i, b, n)"
  shows "i \<in> set (localView q)" "ready_slot q i" "b = announced q i" "n = headSeq (local_slot q i)"
    "\<And>j. j \<in> set (localView q) \<Longrightarrow> ready_slot q j \<Longrightarrow> announced q j \<le> b \<and> (announced q j = b \<longrightarrow> n \<le> headSeq (local_slot q j))"
  using urgent_fold [OF assms [unfolded pick_urgent_def]] by auto

lemma pick_urgent_None:
  assumes "pick_urgent q = None" "j \<in> set (localView q)"
  shows "\<not> ready_slot q j"
  using urgent_fold [OF assms(1) [unfolded pick_urgent_def]] assms(2) by auto

lemma takeUrgent_moves:
  assumes "queue_ok q" "takeUrgent_loop n q now = (q', res)"
  shows "\<exists>gone. qmoves q {#} {#} {now} gone q' \<and> qsame q q'"
  using assms
proof (induction n arbitrary: q)
  case 0
  then show ?case using qmoves_mono [OF qmoves_refl] by (auto simp: qsame_def)
next
  case (Suc n)
  show ?case
  proof (cases "pick_urgent q")
    case None
    then show ?thesis using Suc.prems qmoves_mono [OF qmoves_refl] by (auto simp: qsame_def)
  next
    case (Some x)
    obtain i b k where x: "x = (i, b, k)" by (cases x)
    note P = pick_urgent_Some [OF Some [unfolded x]]
    have i: "map_of (slots q) i \<noteq> None" using P(1) localView_slots [OF Suc.prems(1)] by simp
    obtain s' r where t: "take_msg (local_slot q i) b now (VisibilityTimeout (conf q)) = (s', r)"
      by (cases "take_msg (local_slot q i) b now (VisibilityTimeout (conf q))")
    have b: "b < 128" using hint_band(2) [OF queue_okD(1) [OF Suc.prems(1)], of i] P(2,3) local_slot_at [OF i]
      by (simp add: ready_slot_def announced_def)
    from take_moves [OF Suc.prems(1) i b t] obtain gone where
      M: "put_slot q i s' = with_slot q i s'" "qmoves q {#} {#} {now} gone (with_slot q i s')" .
    have S: "qsame q (with_slot q i s')"
      using P(2) local_slot_at [OF i] by (intro qsame_with) (simp add: ready_slot_def)
    show ?thesis
    proof (cases r)
      case (Some y)
      then have "q' = with_slot q i s'" using Suc.prems(2) \<open>pick_urgent q = Some x\<close> x t M by (simp add: Let_def)
      then show ?thesis using M S by blast
    next
      case None
      then have l: "takeUrgent_loop n (with_slot q i s') now = (q', res)"
        using Suc.prems(2) Some x t M by simp
      have "queue_ok (with_slot q i s')" using M(2) by (simp add: qmoves_def)
      from Suc.IH [OF this l] obtain gone' where "qmoves (with_slot q i s') {#} {#} {now} gone' q'" "qsame (with_slot q i s') q'" by blast
      then show ?thesis using qmoves_trans [OF M(2)] qsame_trans [OF S] by fastforce
    qed
  qed
qed

lemma band_scan_less:
  "band_scan s c bs = Some p \<Longrightarrow> \<forall>b \<in> set bs. b < 128 \<Longrightarrow> p < 128"
  by (induction bs) (auto split: option.splits if_splits simp: word_less_nat_alt unat_of_nat)

lemma oldestBandBefore_less: "oldestBandBefore s c = Some p \<Longrightarrow> p < 128"
  unfolding oldestBandBefore_def by (erule band_scan_less) (auto simp: set_bits_def)

lemma starved_moves:
  assumes "queue_ok q" "starved_loop q now c best is = (q', res)" "\<forall>i \<in> set is. map_of (slots q) i \<noteq> None"
  shows "\<exists>gone. qmoves q {#} {#} {now} gone q' \<and> qsame q q'"
  using assms
proof (induction "is" arbitrary: q)
  case Nil
  then show ?case using qmoves_mono [OF qmoves_refl] by (auto simp: qsame_def)
next
  case (Cons i "is")
  have i: "map_of (slots q) i \<noteq> None" using Cons.prems(3) by simp
  let ?s = "local_slot q i"
  show ?case
  proof (cases "\<not> sfrozen ?s \<and> (\<exists>p. oldestBandBefore ?s c = Some p \<and> p < best)")
    case False
    then have "starved_loop q now c best is = (q', res)"
      using Cons.prems(2) by (auto simp: Let_def split: if_splits option.splits)
    then show ?thesis using Cons.IH [OF Cons.prems(1)] Cons.prems(3) by simp
  next
    case True
    then obtain p where p: "oldestBandBefore ?s c = Some p" "p < best" "\<not> best \<le> p" "\<not> sfrozen ?s" by auto
    obtain s' r where t: "take_msg ?s p now (VisibilityTimeout (conf q)) = (s', r)"
      by (cases "take_msg ?s p now (VisibilityTimeout (conf q))")
    from take_moves [OF Cons.prems(1) i oldestBandBefore_less [OF p(1)] t] obtain gone where
      M: "put_slot q i s' = with_slot q i s'" "qmoves q {#} {#} {now} gone (with_slot q i s')" .
    have S: "qsame q (with_slot q i s')" using p(4) local_slot_at [OF i] by (intro qsame_with) simp
    show ?thesis
    proof (cases r)
      case (Some y)
      then have "q' = with_slot q i s'" using Cons.prems(2) p t M by (simp add: Let_def)
      then show ?thesis using M S by blast
    next
      case None
      then have l: "starved_loop (with_slot q i s') now c best is = (q', res)"
        using Cons.prems(2) p t M by (simp add: Let_def)
      have "queue_ok (with_slot q i s')" using M(2) by (simp add: qmoves_def)
      from Cons.IH [OF this l] obtain gone' where "qmoves (with_slot q i s') {#} {#} {now} gone' q'" "qsame (with_slot q i s') q'"
        using Cons.prems(3) with_slot_known by auto
      then show ?thesis using qmoves_trans [OF M(2)] qsame_trans [OF S] by fastforce
    qed
  qed
qed

lemma takeStarved_moves:
  assumes ok: "queue_ok q" and t: "takeStarved q now = (q', res)"
  shows "\<exists>gone. qmoves q {#} {#} {now} gone q' \<and> qsame q q'"
proof (cases "localView q = [] \<or> bestBand q = None")
  case True
  then have "q' = q" using t by (auto simp: takeStarved_def split: if_splits)
  then show ?thesis using qmoves_mono [OF qmoves_refl [OF ok]] by (auto simp: qsame_def)
next
  case False
  then obtain best where b: "bestBand q = Some best" by auto
  let ?q = "q\<lparr>cursor := cursor q + 1\<rparr>"
  let ?n = "length (localView q)"
  let ?is = "map (\<lambda>i. localView q ! ((unat (cursor q + 1) mod ?n + i) mod ?n)) [0..<min ?n starvationScanLimit]"
  have ok': "queue_ok ?q" "qheld ?q = qheld q" by (rule queue_ok_cong [OF ok]; simp)+
  have l: "starved_loop ?q now (now - StarvationThreshold (conf q)) best ?is = (q', res)"
    using t b False by (simp add: takeStarved_def Let_def)
  have "\<forall>i \<in> set ?is. i \<in> set (localView q)" using False by (auto simp: nth_mem)
  then have "\<forall>i \<in> set ?is. map_of (slots ?q) i \<noteq> None" using localView_slots [OF ok] by simp
  from starved_moves [OF ok'(1) l this] obtain gone where "qmoves ?q {#} {#} {now} gone q'" "qsame ?q q'" by blast
  moreover have "slot_at ?q i = slot_at q i" for i by (simp add: slot_at_def)
  ultimately show ?thesis using ok'(2) by (auto simp: qmoves_def qsame_def)
qed

text \<open>A dequeue hands out leases and drops expired messages; nothing else leaves, and the depth does not move.\<close>

lemma Dequeue_moves:
  assumes ok: "queue_ok q" and d: "Dequeue q now = (q', res)"
  obtains gone where "qmoves q {#} {#} {now} gone q'" "depth q' = depth q" "conf q' = conf q"
    "jlog q' = jlog q @ (case res of None \<Rightarrow> [] | Some x \<Rightarrow> [AppendAttempt (Slot (snd x)) (ID (fst x)) (Attempts (fst x)) (Epoch (snd x))])"
    "\<And>i. sfrozen (slot_at q i) \<Longrightarrow> slot_at q' i = slot_at q i" "qfrozen q \<longrightarrow> res = None \<and> q' = q"
proof (cases "qfrozen q")
  case True
  then have "q' = q" "res = None" using d by (simp_all add: Dequeue_def)
  then show thesis using that [of "{#}"] qmoves_mono [OF qmoves_refl [OF ok], of "{now}"] by simp
next
  case False
  let ?q = "q\<lparr>qdispatch := qdispatch q + 1\<rparr>"
  have ok1: "queue_ok ?q" "qheld ?q = qheld q" by (rule queue_ok_cong [OF ok]; simp)+
  have at: "slot_at ?q i = slot_at q i" for i by (simp add: slot_at_def)
  obtain q1 early where e: "(if reserveTick ?q (qdispatch q + 1) then takeStarved ?q now else (?q, None)) = (q1, early)"
    by (cases "if reserveTick ?q (qdispatch q + 1) then takeStarved ?q now else (?q, None)")
  have "\<exists>gone. qmoves ?q {#} {#} {now} gone q1 \<and> qsame ?q q1"
  proof (cases "reserveTick ?q (qdispatch q + 1)")
    case True
    then show ?thesis using takeStarved_moves [OF ok1(1)] e by simp
  next
    case False
    then have "q1 = ?q" using e by simp
    then show ?thesis using qmoves_mono [OF qmoves_refl [OF ok1(1)]] by (auto simp: qsame_def)
  qed
  then obtain g1 where M1: "qmoves q {#} {#} {now} g1 q1" and S1: "qsame q q1"
    using ok1(2) at by (auto simp: qmoves_def qsame_def)
  show thesis
  proof (cases early)
    case (Some x)
    then have q': "q' = afterTake (q1\<lparr>escapes := escapes q1 + 1\<rparr>) x" "res = Some x"
      using d e False by (simp_all add: Dequeue_def Let_def)
    have "qmoves q {#} {#} {now} g1 q'" by (rule qmoves_cong [OF M1]) (simp_all add: q' afterTake_def)
    moreover have "slot_at q' i = slot_at q1 i" for i by (simp add: q' afterTake_def slot_at_def)
    ultimately show thesis using that [of g1] S1 False by (simp add: q' afterTake_def qsame_def)
  next
    case None
    obtain q2 r where u: "takeUrgent_loop maxDispatchRetries q1 now = (q2, r)" by (cases "takeUrgent_loop maxDispatchRetries q1 now")
    have ok2: "queue_ok q1" using M1 by (simp add: qmoves_def)
    from takeUrgent_moves [OF ok2 u] obtain g2 where M2: "qmoves q1 {#} {#} {now} g2 q2" and S2: "qsame q1 q2" by blast
    have M: "qmoves q {#} {#} {now} (g1 + g2) q2" using qmoves_trans [OF M1 M2] by simp
    have S: "qsame q q2" by (rule qsame_trans [OF S1 S2])
    have q': "q' = (case r of None \<Rightarrow> q2 | Some x \<Rightarrow> afterTake q2 x)" "res = r"
      using d e False None u by (auto simp: Dequeue_def Let_def takeUrgent_def split: option.splits)
    have "qmoves q {#} {#} {now} (g1 + g2) q'" by (rule qmoves_cong [OF M]) (simp_all add: q' afterTake_def split: option.split)
    moreover have "slot_at q' i = slot_at q2 i" for i by (simp add: q' afterTake_def slot_at_def split: option.split)
    ultimately show thesis using that [of "g1 + g2"] S False by (simp add: q' afterTake_def qsame_def split: option.split)
  qed
qed

end
