(* ===== verification/QueueHandover.thy ===== *)
theory QueueHandover
  imports QueueRun
begin

text \<open>
  What sweeping, freezing, dropping and absorbing do to the messages a queue holds and to its depth.
  A visit is \<open>fair\<close> when its orders are orders in which Go may range over the slot's maps.
\<close>

lemma jlog_ok: "queue_ok (q\<lparr>jlog := j\<rparr>) = queue_ok q" "queue_ok (q\<lparr>depth := d\<rparr>) = queue_ok q"
    "queue_ok (q\<lparr>qfrozen := b\<rparr>) = queue_ok q" "queue_ok (q\<lparr>qseq := n\<rparr>) = queue_ok q"
    "qheld (q\<lparr>jlog := j\<rparr>) = qheld q" "qheld (q\<lparr>depth := d\<rparr>) = qheld q" "qheld (q\<lparr>qfrozen := b\<rparr>) = qheld q"
    "qheld (q\<lparr>qseq := n\<rparr>) = qheld q"
  by (simp_all add: queue_ok_def qheld_def)

lemma slot_at_fields [simp]:
  "slot_at (q\<lparr>jlog := j\<rparr>) i = slot_at q i" "slot_at (q\<lparr>depth := d\<rparr>) i = slot_at q i"
  "slot_at (q\<lparr>qfrozen := b\<rparr>) i = slot_at q i" "slot_at (q\<lparr>qseq := n\<rparr>) i = slot_at q i"
  by (simp_all add: slot_at_def)

subsection \<open>Sweeping\<close>

definition before_ttl :: "config \<Rightarrow> slot \<Rightarrow> time \<Rightarrow> slot" where
  "before_ttl c s now = fst (sweepLeases (fst (releaseDelayed s now)) now (MaxRetries c) (HasDeadLetter c))"

definition fair_sweep :: "queue \<Rightarrow> (u16 \<times> string list) list \<Rightarrow> time \<Rightarrow> bool" where
  "fair_sweep q vs now \<longleftrightarrow> distinct (map fst vs) \<and>
     (\<forall>x \<in> set vs. fst x \<in> set (localView q) \<and> iterates (snd x) (groups (before_ttl (conf q) (slot_at q (fst x)) now)))"

text \<open>Sweeping one slot is three slot steps.\<close>

lemma sweep_slot_reach:
  assumes s: "slot_reach s" and sw: "sweep_slot c s ks now = (s', r, n)" and it: "iterates ks (groups (before_ttl c s now))"
  shows "slot_reach s'" "sid s' = sid s" "size (held s) = size (held s') + n"
    "\<exists>gone. (\<forall>m \<in># gone. expired m now) \<and>
       image_mset core (held s) = image_mset core (held s' + mset (map snd (DeadLettered r)) + gone)"
    "n = size (held s) - size (held s')"
proof -
  obtain s1 rel where 1: "releaseDelayed s now = (s1, rel)" by (cases "releaseDelayed s now")
  obtain s2 dead req where 2: "sweepLeases s1 now (MaxRetries c) (HasDeadLetter c) = (s2, dead, req)"
    by (cases "sweepLeases s1 now (MaxRetries c) (HasDeadLetter c)")
  obtain s3 drop where 3: "sweepTTL s2 ks now = (s3, drop)" by (cases "sweepTTL s2 ks now")
  have r: "s' = s3" "map snd (DeadLettered r) = dead" using sw 1 2 3 by (auto simp: sweep_slot_def Let_def comp_def)
  have a: "slot_step s (slot_op.ReleaseDelayed now) s1" using slot_step.ReleaseDelayed [of s now] 1 by simp
  have b: "slot_step s1 (slot_op.SweepLeases now (MaxRetries c) (HasDeadLetter c)) s2"
    using slot_step.SweepLeases [of s1 now] 2 by (metis fst_conv)
  have d: "slot_step s2 (slot_op.SweepTTL ks now) s3"
    using slot_step.SweepTTL [of ks s2 now] it 1 2 3 by (simp add: before_ttl_def)
  show "slot_reach s'" using reach_step [OF reach_step [OF reach_step [OF s a] b] d] r by simp
  note ok = reach_ok [OF s]
  show "sid s' = sid s" "size (held s) = size (held s') + n" using sweep_slot_spec [OF ok sw] by simp_all
  then show "n = size (held s) - size (held s')" by simp
  have ok1: "slot_ok s1" and ok2: "slot_ok s2" using step_ok [OF ok a] step_ok [OF _ b] by simp_all
  from step_ok [OF ok a] obtain g1 where g1: "\<forall>m \<in># g1. expired m now"
    "image_mset core (held s) = image_mset core (held s1 + g1)" by (auto simp: accounted_def)
  from step_ok [OF ok1 b] obtain g2 where g2: "\<forall>m \<in># g2. expired m now"
    "image_mset core (held s1) = image_mset core (held s2 + mset dead + g2)" using 2 by (auto simp: accounted_def)
  from step_ok [OF ok2 d] obtain g3 where g3: "\<forall>m \<in># g3. expired m now"
    "image_mset core (held s2) = image_mset core (held s3 + g3)" by (auto simp: accounted_def)
  have "image_mset core (held s) = image_mset core (held s' + mset (map snd (DeadLettered r)) + (g1 + g2 + g3))"
    using g1(2) g2(2) g3(2) r by (simp add: ac_simps)
  with g1(1) g2(1) g3(1)
  show "\<exists>gone. (\<forall>m \<in># gone. expired m now) \<and>
       image_mset core (held s) = image_mset core (held s' + mset (map snd (DeadLettered r)) + gone)" by (metis union_iff)
qed

text \<open>The general form of \<open>slot_step_moves\<close>.\<close>

lemma with_slot_moves:
  assumes ok: "queue_ok q" and s: "slot_reach s'" "sid s' = i"
    and g: "\<forall>m \<in># gone. \<exists>t \<in> T. expired m t"
      "image_mset core (held (slot_at q i) + In) = image_mset core (held s' + Out + gone)"
  shows "qmoves q In Out T gone (with_slot q i s')"
proof -
  note W = with_slot_ok [OF ok s]
  let ?q' = "with_slot q i s'"
  have "image_mset core (qheld ?q' + held (slot_at q i)) = image_mset core (qheld q + held s')" by (simp only: W(2))
  then have "image_mset core (qheld q + In) + image_mset core (held s' + held (slot_at q i))
    = image_mset core (qheld ?q' + Out + gone) + image_mset core (held s' + held (slot_at q i))"
    using g(2) by (simp add: ac_simps)
  then show ?thesis using W(1) g(1) by (simp add: qmoves_def)
qed

lemma sweep_loop_moves:
  assumes "queue_ok q" "sweep_loop q vs now res n = (q', res', n')" "fair_sweep q vs now"
  shows "\<exists>gone dead. qmoves q {#} (mset (map snd dead)) {now} gone q' \<and> DeadLettered res' = DeadLettered res @ dead \<and>
    n' = n + length dead + size gone \<and> depth q' = depth q \<and> jlog q' = jlog q \<and> conf q' = conf q \<and>
    (\<forall>i. sfrozen (slot_at q i) \<longrightarrow> slot_at q' i = slot_at q i)"
  using assms
proof (induction vs arbitrary: q res n)
  case Nil
  then show ?case using qmoves_mono [OF qmoves_refl]
    by (auto intro!: exI [of _ "{#}"] exI [of _ "[]"])
next
  case (Cons v vs)
  obtain i ks where v: "v = (i, ks)" by (cases v)
  have F: "fair_sweep q vs now" "i \<notin> fst ` set vs" "i \<in> set (localView q)"
    "iterates ks (groups (before_ttl (conf q) (slot_at q i) now))"
    using Cons.prems(3) v by (auto simp: fair_sweep_def)
  have i: "map_of (slots q) i \<noteq> None" using localView_slots [OF Cons.prems(1)] F(3) by simp
  note at = local_slot_at [OF i] put_slot_with [OF i]
  show ?case
  proof (cases "sfrozen (slot_at q i)")
    case True
    then have "sweep_loop q vs now res n = (q', res', n')" using Cons.prems(2) v at by (simp add: Let_def)
    then show ?thesis using Cons.IH [OF Cons.prems(1) _ F(1)] by simp
  next
    case False
    obtain s' r k where sw: "sweep_slot (conf q) (slot_at q i) ks now = (s', r, k)"
      by (cases "sweep_slot (conf q) (slot_at q i) ks now")
    let ?q1 = "with_slot q i s'"
    have l: "sweep_loop ?q1 vs now (add_sweep res r) (n + k) = (q', res', n')"
      using Cons.prems(2) v at False sw by (simp add: Let_def)
    note R = sweep_slot_reach [OF queue_okD(1) [OF Cons.prems(1)] sw F(4)]
    have sid: "sid s' = i" using R(2) queue_okD(3) [OF Cons.prems(1)] by simp
    from R(4) obtain g1 where g1: "\<forall>m \<in># g1. expired m now"
      "image_mset core (held (slot_at q i)) = image_mset core (held s' + mset (map snd (DeadLettered r)) + g1)" by blast
    have M1: "qmoves q {#} (mset (map snd (DeadLettered r))) {now} g1 ?q1"
      by (rule with_slot_moves [OF Cons.prems(1) R(1) sid]) (use g1 in auto)
    have k: "k = length (DeadLettered r) + size g1"
    proof -
      have "size (held (slot_at q i)) = size (held s') + length (DeadLettered r) + size g1"
        using arg_cong [OF g1(2), of size] by (simp add: comp_def)
      then show ?thesis using R(3) by simp
    qed
    have ok1: "queue_ok ?q1" using M1 by (simp add: qmoves_def)
    have "set (localView q) \<subseteq> set (localView ?q1)"
      using localView_slots [OF ok1] localView_slots [OF Cons.prems(1)] with_slot_known by blast
    then have F1: "fair_sweep ?q1 vs now" using F(1,2) by (fastforce simp: fair_sweep_def)
    from Cons.IH [OF ok1 l F1] obtain g2 dead where
      M2: "qmoves ?q1 {#} (mset (map snd dead)) {now} g2 q'" and D: "DeadLettered res' = DeadLettered (add_sweep res r) @ dead"
        "n' = n + k + length dead + size g2" "depth q' = depth ?q1" "jlog q' = jlog ?q1" "conf q' = conf ?q1"
        "\<forall>i. sfrozen (slot_at ?q1 i) \<longrightarrow> slot_at q' i = slot_at ?q1 i" by blast
    have "qmoves q {#} (mset (map snd (DeadLettered r @ dead))) {now} (g1 + g2) q'"
      using qmoves_trans [OF M1 M2] by simp
    moreover have "DeadLettered res' = DeadLettered res @ (DeadLettered r @ dead)" using D(1) by (simp add: add_sweep_def)
    moreover have "n' = n + length (DeadLettered r @ dead) + size (g1 + g2)" using D(2) k by simp
    moreover have "\<forall>j. sfrozen (slot_at q j) \<longrightarrow> slot_at q' j = slot_at q j"
    proof (intro allI impI)
      fix j assume j: "sfrozen (slot_at q j)"
      with False have "j \<noteq> i" by auto
      then have "slot_at ?q1 j = slot_at q j" by simp
      with j D(6) show "slot_at q' j = slot_at q j" by metis
    qed
    ultimately show ?thesis using D(3-5) unfolding with_slot_frame by blast
  qed
qed

lemma SweepQueue_moves:
  assumes ok: "queue_ok q" and sw: "SweepQueue q vs now = (q', res)" and f: "fair_sweep q vs now"
  obtains gone where "qmoves q {#} (mset (map snd (DeadLettered res))) {now} gone q'"
    "depth q' = depth q - int (length (DeadLettered res) + size gone)"
    "jlog q' = jlog q @ map (\<lambda>(i, m). AppendTerminal i (ID m) TerminalDeadLettered) (DeadLettered res)"
    "\<And>i. sfrozen (slot_at q i) \<Longrightarrow> slot_at q' i = slot_at q i" "conf q' = conf q"
proof -
  obtain q1 r n where l: "sweep_loop q vs now no_sweep 0 = (q1, r, n)" by (cases "sweep_loop q vs now no_sweep 0")
  from sweep_loop_moves [OF ok l f] obtain gone dead where
    M: "qmoves q {#} (mset (map snd dead)) {now} gone q1" and D: "DeadLettered r = dead" "n = length dead + size gone"
      "depth q1 = depth q" "jlog q1 = jlog q" "\<forall>i. sfrozen (slot_at q i) \<longrightarrow> slot_at q1 i = slot_at q i" "conf q1 = conf q"
    by (auto simp: no_sweep_def)
  have q': "res = r" "q' = q1\<lparr>jlog := jlog q1 @ map (\<lambda>(i, m). AppendTerminal i (ID m) TerminalDeadLettered) (DeadLettered r),
      depth := depth q1 - int n\<rparr>" using sw l by (auto simp: SweepQueue_def Let_def)
  have "qmoves q {#} (mset (map snd (DeadLettered res))) {now} gone q'"
    using M D(1) q' by (auto simp: qmoves_def jlog_ok)
  then show thesis by (rule that) (use D q' in simp_all)
qed

subsection \<open>Freezing, dropping, absorbing\<close>

definition fair_visits :: "queue \<Rightarrow> visit list \<Rightarrow> bool" where
  "fair_visits q vs \<longleftrightarrow> distinct (map fst vs) \<and>
     (\<forall>(i, ki, kg) \<in> set vs. iterates ki (inflight (slot_at q i)) \<and> iterates kg (groups (slot_at q i)))"

lemma fair_visits_Cons:
  assumes "fair_visits q ((i, ki, kg) # vs)"
  shows "fair_visits (with_slot q i s) vs" "fair_visits q vs" "i \<notin> fst ` set vs"
    "iterates ki (inflight (slot_at q i))" "iterates kg (groups (slot_at q i))"
proof -
  show "i \<notin> fst ` set vs" "fair_visits q vs" "iterates ki (inflight (slot_at q i))" "iterates kg (groups (slot_at q i))"
    using assms by (auto simp: fair_visits_def)
  show "fair_visits (with_slot q i s) vs" using assms by (force simp: fair_visits_def)
qed

lemma slotCount_with [simp]: "slotCount (with_slot q i s) = slotCount q"
  by (simp add: slotCount_def)

lemma mark_moves:
  assumes ok: "queue_ok q"
  shows "qmoves q {#} {#} {} {#} (with_slot q i ((slot_at q i)\<lparr>sfrozen := b\<rparr>))"
proof (rule with_slot_moves [OF ok])
  show "slot_reach ((slot_at q i)\<lparr>sfrozen := b\<rparr>)"
    by (rule reach_step [OF queue_okD(1) [OF ok] slot_step.Mark])
qed (use queue_okD [OF ok] mark_ok in auto)

text \<open>\<open>FreezeSlots\<close> changes nothing but the marks, and its result is the messages of the slots named.\<close>

definition in_range :: "queue \<Rightarrow> visit list \<Rightarrow> u16 set" where
  "in_range q vs = {i \<in> fst ` set vs. unat i < slotCount q}"

lemma FreezeSlots_loop_moves:
  assumes "queue_ok q" "FreezeSlots_loop q vs acc = (q', out)" "fair_visits q vs" "fst ` set acc \<inter> fst ` set vs = {}" "distinct (map fst acc)"
  shows "qmoves q {#} {#} {} {#} q' \<and> depth q' = depth q \<and> jlog q' = jlog q \<and> qseq q' = qseq q \<and> qfrozen q' = qfrozen q \<and> conf q' = conf q \<and> 
    (\<forall>i. slot_at q' i = (if i \<in> in_range q vs then (slot_at q i)\<lparr>sfrozen := True\<rparr> else slot_at q i)) \<and>
    distinct (map fst out) \<and> (\<forall>x \<in> set out. x \<in> set acc \<or> fst x \<in> in_range q vs) \<and>
    (\<forall>i. map_of out i = (if i \<in> in_range q vs \<and> held (slot_at q i) \<noteq> {#} then map_of out i else map_of acc i)) \<and>
    (\<forall>i \<in> in_range q vs. mset (case map_of out i of None \<Rightarrow> [] | Some ms \<Rightarrow> ms) = held (slot_at q i))"
  using assms
proof (induction vs arbitrary: q acc)
  case Nil
  then show ?case using qmoves_refl by (auto simp: in_range_def)
next
  case (Cons v vs)
  obtain i ki kg where v: "v = (i, ki, kg)" by (cases v)
  note F = fair_visits_Cons [OF Cons.prems(3) [unfolded v]]
  show ?case
  proof (cases "unat i < slotCount q")
    case False
    then have "FreezeSlots_loop q vs acc = (q', out)" using Cons.prems(2) v by simp
    moreover have "in_range q (v # vs) = in_range q vs" using False v by (auto simp: in_range_def)
    ultimately show ?thesis using Cons.IH [OF Cons.prems(1) _ F(2) _ Cons.prems(5)] Cons.prems(4) by simp
  next
    case True
    let ?s = "(slot_at q i)\<lparr>sfrozen := True\<rparr>"
    let ?q1 = "with_slot q i ?s" and ?ms = "copyAll ?s ki kg"
    let ?acc = "if length ?ms > 0 then AList.update i ?ms acc else acc"
    have l: "FreezeSlots_loop ?q1 vs ?acc = (q', out)"
      using Cons.prems(2) True unfolding v
      by (subst (asm) FreezeSlots_loop.simps(2), subst (asm) get_slot_eq) (simp add: Let_def with_slot_def)
    have M1: "qmoves q {#} {#} {} {#} ?q1" by (rule mark_moves [OF Cons.prems(1)])
    have ok1: "queue_ok ?q1" using M1 by (simp add: qmoves_def)
    have ms: "mset ?ms = held (slot_at q i)"
    proof -
      have "slot_core ?s" using slot_okD(2) [OF mark_ok(1) [OF queue_okD(2) [OF Cons.prems(1)]]] .
      from copyAll_held [OF this] F(4,5) have "mset ?ms = held ?s" by simp
      then show ?thesis using mark_ok(2) [OF queue_okD(2) [OF Cons.prems(1)]] by simp
    qed
    have ni: "i \<notin> fst ` set acc" using Cons.prems(4) v by auto
    have acc: "fst ` set ?acc \<inter> fst ` set vs = {}" "distinct (map fst ?acc)"
      using Cons.prems(4,5) F(3) v by (auto simp: keys_AList_update)
    note I = Cons.IH [OF ok1 l F(1) acc]
    have R: "in_range q (v # vs) = insert i (in_range ?q1 vs)" "i \<notin> in_range ?q1 vs"
      using True v F(3) by (auto simp: in_range_def)
    have "qmoves q {#} {#} {} {#} q'" using qmoves_trans [OF M1] I by fastforce
    moreover have "depth q' = depth q" "jlog q' = jlog q" "qseq q' = qseq q" "qfrozen q' = qfrozen q" "conf q' = conf q" "distinct (map fst out)"
      using I by simp_all
    moreover have "\<forall>j. slot_at q' j = (if j \<in> in_range q (v # vs) then (slot_at q j)\<lparr>sfrozen := True\<rparr> else slot_at q j)"
      using I R by (metis insert_iff slot_at_with)
    moreover have "\<forall>x \<in> set out. x \<in> set acc \<or> fst x \<in> in_range q (v # vs)"
    proof
      fix x assume "x \<in> set out"
      with I have "x \<in> set ?acc \<or> fst x \<in> in_range ?q1 vs" by blast
      moreover have "x \<in> set ?acc \<Longrightarrow> x \<in> set acc \<or> fst x = i"
        using Cons.prems(5) by (auto simp: set_AList_update split: if_splits)
      ultimately show "x \<in> set acc \<or> fst x \<in> in_range q (v # vs)" using R by blast
    qed
    moreover have mi: "map_of out i = map_of ?acc i" using I R(2) by metis
    moreover have "\<forall>j. map_of out j = (if j \<in> in_range q (v # vs) \<and> held (slot_at q j) \<noteq> {#} then map_of out j else map_of acc j)"
    proof
      fix j
      show "map_of out j = (if j \<in> in_range q (v # vs) \<and> held (slot_at q j) \<noteq> {#} then map_of out j else map_of acc j)"
      proof (cases "j = i")
        case True
        then show ?thesis using mi ms R(1) by (auto split: if_splits)
      next
        case False
        then have "map_of ?acc j = map_of acc j" "slot_at ?q1 j = slot_at q j" by simp_all
        then show ?thesis using I R False by (metis insert_iff)
      qed
    qed
    moreover have "\<forall>j \<in> in_range q (v # vs). mset (case map_of out j of None \<Rightarrow> [] | Some ms \<Rightarrow> ms) = held (slot_at q j)"
    proof
      fix j assume j: "j \<in> in_range q (v # vs)"
      show "mset (case map_of out j of None \<Rightarrow> [] | Some ms \<Rightarrow> ms) = held (slot_at q j)"
      proof (cases "j = i")
        case True
        have "map_of acc i = None" using ni by (simp add: map_of_eq_None_iff)
        then show ?thesis using mi ms True by (auto split: if_splits)
      next
        case False
        with j R have "j \<in> in_range ?q1 vs" by simp
        then have "mset (case map_of out j of None \<Rightarrow> [] | Some ms \<Rightarrow> ms) = held (slot_at ?q1 j)" using I by blast
        then show ?thesis using False by simp
      qed
    qed
    ultimately show ?thesis by blast
  qed
qed

lemma FreezeSlots_moves:
  assumes ok: "queue_ok q" and f: "FreezeSlots q vs = (q', out)" and vs: "fair_visits q vs"
  shows "qmoves q {#} {#} {} {#} q'" "depth q' = depth q" "jlog q' = jlog q" "conf q' = conf q"
    "\<And>i. slot_at q' i = (if i \<in> in_range q vs then (slot_at q i)\<lparr>sfrozen := True\<rparr> else slot_at q i)"
    "\<And>i. i \<in> in_range q vs \<Longrightarrow> mset (case map_of out i of None \<Rightarrow> [] | Some ms \<Rightarrow> ms) = held (slot_at q i)"
    "fst ` set out \<subseteq> in_range q vs"
  using FreezeSlots_loop_moves [OF ok f [unfolded FreezeSlots_def] vs] by auto

lemma ThawSlots_moves:
  assumes "queue_ok q"
  shows "qmoves q {#} {#} {} {#} (ThawSlots q is) \<and> depth (ThawSlots q is) = depth q \<and> jlog (ThawSlots q is) = jlog q \<and>
    conf (ThawSlots q is) = conf q"
  using assms
proof (induction "is" arbitrary: q)
  case Nil
  then show ?case using qmoves_refl by simp
next
  case (Cons i "is")
  show ?case
  proof (cases "unat i < slotCount q")
    case False
    then show ?thesis using Cons by simp
  next
    case True
    let ?q1 = "with_slot q i ((slot_at q i)\<lparr>sfrozen := False\<rparr>)"
    have e: "ThawSlots q (i # is) = ThawSlots ?q1 is"
      using True by (subst ThawSlots.simps(2), subst get_slot_eq) (simp add: Let_def with_slot_def)
    have M1: "qmoves q {#} {#} {} {#} ?q1" by (rule mark_moves [OF Cons.prems])
    then have "queue_ok ?q1" by (simp add: qmoves_def)
    from Cons.IH [OF this] show ?thesis unfolding e using qmoves_trans [OF M1] by fastforce
  qed
qed

text \<open>Draining a slot and lifting its mark.\<close>

lemma drain_moves:
  assumes ok: "queue_ok q" and it: "iterates ki (inflight (slot_at q i))" "iterates kg (groups (slot_at q i))"
    and d: "drain (slot_at q i) ki kg = (s, ms)"
  shows "qmoves q {#} (mset ms) {} {#} (with_slot q i (s\<lparr>sfrozen := b\<rparr>))" "held (s\<lparr>sfrozen := b\<rparr>) = {#}" "mset ms = held (slot_at q i)"
proof -
  note D = drain_spec [OF slot_okD(2) [OF queue_okD(2) [OF ok]] it d]
  have "slot_step (slot_at q i) (slot_op.Drain ki kg) s" using slot_step.Drain [OF it] d by simp
  from reach_step [OF reach_step [OF queue_okD(1) [OF ok] this] slot_step.Mark]
  have r: "slot_reach (s\<lparr>sfrozen := b\<rparr>)" .
  show h: "held (s\<lparr>sfrozen := b\<rparr>) = {#}" using mark_ok(2) [OF D(1)] D(2) by simp
  show "mset ms = held (slot_at q i)" by (rule D)
  show "qmoves q {#} (mset ms) {} {#} (with_slot q i (s\<lparr>sfrozen := b\<rparr>))"
    by (rule with_slot_moves [OF ok r]) (use D h queue_okD(3) [OF ok] in auto)
qed

definition dropped :: "queue \<Rightarrow> visit list \<Rightarrow> message multiset" where
  "dropped q vs = sum_list (map (\<lambda>v. if unat (fst v) < slotCount q then held (slot_at q (fst v)) else {#}) vs)"

lemma DropSlots_loop_moves:
  assumes "queue_ok q" "DropSlots_loop q vs n = (q', n')" "fair_visits q vs"
  shows "qmoves q {#} (dropped q vs) {} {#} q' \<and> n' = n + size (dropped q vs) \<and> depth q' = depth q \<and> jlog q' = jlog q \<and>
    conf q' = conf q \<and> (\<forall>i. i \<notin> in_range q vs \<longrightarrow> slot_at q' i = slot_at q i) \<and>
    (\<forall>i \<in> in_range q vs. held (slot_at q' i) = {#} \<and> \<not> sfrozen (slot_at q' i))"
  using assms
proof (induction vs arbitrary: q n)
  case Nil
  then show ?case using qmoves_refl by (auto simp: in_range_def dropped_def)
next
  case (Cons v vs)
  obtain i ki kg where v: "v = (i, ki, kg)" by (cases v)
  note F = fair_visits_Cons [OF Cons.prems(3) [unfolded v]]
  show ?case
  proof (cases "unat i < slotCount q")
    case False
    then have "DropSlots_loop q vs n = (q', n')" using Cons.prems(2) v by simp
    moreover have "in_range q (v # vs) = in_range q vs" "dropped q (v # vs) = dropped q vs"
      using False v by (auto simp: in_range_def dropped_def)
    ultimately show ?thesis using Cons.IH [OF Cons.prems(1) _ F(2)] by simp
  next
    case True
    obtain s ms where d: "drain (slot_at q i) ki kg = (s, ms)" by (cases "drain (slot_at q i) ki kg")
    let ?q1 = "with_slot q i (s\<lparr>sfrozen := False\<rparr>)"
    have l: "DropSlots_loop ?q1 vs (n + length ms) = (q', n')"
      using Cons.prems(2) True d unfolding v
      by (subst (asm) DropSlots_loop.simps(2), subst (asm) get_slot_eq) (simp add: Let_def with_slot_def)
    note D = drain_moves(1,2) [OF Cons.prems(1) F(4,5) d, of False] drain_moves(3) [OF Cons.prems(1) F(4,5) d]
    have ok1: "queue_ok ?q1" using D(1) by (simp add: qmoves_def)
    have dr: "dropped q (v # vs) = mset ms + dropped ?q1 vs"
    proof -
      have "\<And>w. w \<in> set vs \<Longrightarrow> slot_at ?q1 (fst w) = slot_at q (fst w)" using F(3) by auto
      then have "dropped ?q1 vs = dropped q vs" unfolding dropped_def slotCount_with
        by (intro arg_cong [where f = sum_list] map_cong) auto
      then show ?thesis using True v D(3) by (simp add: dropped_def)
    qed
    from Cons.IH [OF ok1 l F(1)] have I: "qmoves ?q1 {#} (dropped ?q1 vs) {} {#} q'" "n' = n + length ms + size (dropped ?q1 vs)"
      "depth q' = depth q" "jlog q' = jlog q" "conf q' = conf q"
      "\<forall>j. j \<notin> in_range ?q1 vs \<longrightarrow> slot_at q' j = slot_at ?q1 j"
      "\<forall>j \<in> in_range ?q1 vs. held (slot_at q' j) = {#} \<and> \<not> sfrozen (slot_at q' j)" by auto
    have R: "in_range q (v # vs) = insert i (in_range ?q1 vs)" "i \<notin> in_range ?q1 vs"
      using True v F(3) by (auto simp: in_range_def)
    have "qmoves q {#} (dropped q (v # vs)) {} {#} q'" unfolding dr using qmoves_trans [OF D(1) I(1)] by simp
    moreover have "n' = n + size (dropped q (v # vs))" unfolding dr using I(2) by simp
    moreover have "\<forall>j. j \<notin> in_range q (v # vs) \<longrightarrow> slot_at q' j = slot_at q j" using I(6) R by simp
    moreover have "\<forall>j \<in> in_range q (v # vs). held (slot_at q' j) = {#} \<and> \<not> sfrozen (slot_at q' j)"
      using I(6,7) R D(2) by auto
    ultimately show ?thesis using I(3-5) by blast
  qed
qed

lemma DropSlots_moves:
  assumes ok: "queue_ok q" and d: "DropSlots q vs = (q', n)" and vs: "fair_visits q vs"
  shows "qmoves q {#} (dropped q vs) {} {#} q'" "n = size (dropped q vs)" "depth q' = depth q - int (size (dropped q vs))"
    "jlog q' = jlog q" "conf q' = conf q" "\<And>i. i \<notin> in_range q vs \<Longrightarrow> slot_at q' i = slot_at q i"
    "\<And>i. i \<in> in_range q vs \<Longrightarrow> held (slot_at q' i) = {#} \<and> \<not> sfrozen (slot_at q' i)"
proof -
  obtain q1 where l: "DropSlots_loop q vs 0 = (q1, n)" and q': "q' = q1\<lparr>depth := depth q1 - int n\<rparr>"
    using d by (auto simp: DropSlots_def Let_def split: prod.splits)
  note O = DropSlots_loop_moves [OF ok l vs, unfolded add_0]
  show "qmoves q {#} (dropped q vs) {} {#} q'" using O q' by (simp add: qmoves_def jlog_ok)
  show "n = size (dropped q vs)" "depth q' = depth q - int (size (dropped q vs))"
    "jlog q' = jlog q" "conf q' = conf q" "\<And>i. i \<notin> in_range q vs \<Longrightarrow> slot_at q' i = slot_at q i"
    "\<And>i. i \<in> in_range q vs \<Longrightarrow> held (slot_at q' i) = {#} \<and> \<not> sfrozen (slot_at q' i)"
    using O q' by simp_all
qed

lemma freeze_loop_moves:
  assumes "queue_ok q" "freeze_loop q vs acc = (q', out)" "fair_visits q vs" "\<forall>x \<in> set vs. fst x \<in> set (localView q)"
  shows "\<exists>ms. qmoves q {#} ms {} {#} q' \<and> mset (concat (map snd out)) = mset (concat (map snd acc)) + ms \<and>
    jlog q' = jlog q \<and> conf q' = conf q \<and> qfrozen q' = qfrozen q \<and>
    (\<forall>i. held (slot_at q' i) = (if i \<in> fst ` set vs then {#} else held (slot_at q i)))"
  using assms
proof (induction vs arbitrary: q acc)
  case Nil
  then show ?case using qmoves_refl by auto
next
  case (Cons v vs)
  obtain i ki kg where v: "v = (i, ki, kg)" by (cases v)
  note F = fair_visits_Cons [OF Cons.prems(3) [unfolded v]]
  have i: "map_of (slots q) i \<noteq> None" using localView_slots [OF Cons.prems(1)] Cons.prems(4) v by simp
  obtain s ms where d: "drain (slot_at q i) ki kg = (s, ms)" by (cases "drain (slot_at q i) ki kg")
  have fs: "s\<lparr>sfrozen := sfrozen s\<rparr> = s" by simp
  note D = drain_moves(1,2) [OF Cons.prems(1) F(4,5) d, of "sfrozen s", unfolded fs] drain_moves(3) [OF Cons.prems(1) F(4,5) d]
  let ?q1 = "with_slot q i s" and ?acc = "if length ms > 0 then acc @ [(i, ms)] else acc"
  have l: "freeze_loop ?q1 vs ?acc = (q', out)"
    using Cons.prems(2) d local_slot_at [OF i] put_slot_with [OF i] v by (simp add: Let_def)
  have ok1: "queue_ok ?q1" using D(1) by (simp add: qmoves_def)
  have "set (localView q) \<subseteq> set (localView ?q1)"
    using localView_slots [OF ok1] localView_slots [OF Cons.prems(1)] with_slot_known by blast
  then have "\<forall>x \<in> set vs. fst x \<in> set (localView ?q1)" using Cons.prems(4) by auto
  from Cons.IH [OF ok1 l F(1) this] obtain ms' where I: "qmoves ?q1 {#} ms' {} {#} q'"
    "mset (concat (map snd out)) = mset (concat (map snd ?acc)) + ms'" "jlog q' = jlog q" "conf q' = conf q" "qfrozen q' = qfrozen q"
    "\<forall>j. held (slot_at q' j) = (if j \<in> fst ` set vs then {#} else held (slot_at ?q1 j))" by auto
  have "qmoves q {#} (mset ms + ms') {} {#} q'" using qmoves_trans [OF D(1) I(1)] by simp
  moreover have "mset (concat (map snd out)) = mset (concat (map snd acc)) + (mset ms + ms')"
    using I(2) by (auto split: if_splits)
  moreover have "held (slot_at q' j) = (if j \<in> fst ` set (v # vs) then {#} else held (slot_at q j))" for j
    using I(6) D(2) v by auto
  ultimately show ?case using I(3-5) by blast
qed

text \<open>Freezing a whole queue empties it into the result.\<close>

lemma qheld_empty:
  assumes "queue_ok q" "\<And>i. held (slot_at q i) = {#}"
  shows "qheld q = {#}"
proof -
  have "held s = {#}" if "(i, s) \<in> set (slots q)" for i s
  proof -
    have "map_of (slots q) i = Some s" using assms(1) that by (simp add: queue_ok_def)
    then show ?thesis using assms(2) [of i] by (simp add: slot_at_def)
  qed
  then have "sum_al held (slots q) = sum_al (\<lambda>_. {#}) (slots q)" by (intro sum_al_cong) force
  then show ?thesis by (simp add: qheld_def sum_al_def)
qed

lemma Freeze_moves:
  assumes ok: "queue_ok q" and f: "Freeze q vs = (q', out)" and vs: "fair_visits q vs" "set (map fst vs) = set (localView q)"
  shows "qmoves q {#} (mset (concat (map snd out))) {} {#} q'" "qheld q' = {#}" "depth q' = 0" "jlog q' = jlog q"
    "qfrozen q'" "conf q' = conf q"
proof -
  obtain q1 where l: "freeze_loop (q\<lparr>qfrozen := True\<rparr>) vs [] = (q1, out)" and q': "q' = q1\<lparr>depth := 0\<rparr>"
    using f by (auto simp: Freeze_def Let_def split: prod.splits)
  have ok1: "queue_ok (q\<lparr>qfrozen := True\<rparr>)" using ok by (simp add: jlog_ok)
  have "fair_visits (q\<lparr>qfrozen := True\<rparr>) vs" using vs(1) by (simp add: fair_visits_def)
  moreover have vs2: "fst ` set vs = set (localView q)" "\<forall>x \<in> set vs. fst x \<in> set (localView (q\<lparr>qfrozen := True\<rparr>))"
    using vs(2) by auto
  ultimately obtain ms where M: "qmoves (q\<lparr>qfrozen := True\<rparr>) {#} ms {} {#} q1"
    "mset (concat (map snd out)) = ms" "jlog q1 = jlog q" "conf q1 = conf q" "qfrozen q1"
    "\<And>i. held (slot_at q1 i) = (if i \<in> set (localView q) then {#} else held (slot_at (q\<lparr>qfrozen := True\<rparr>) i))"
    using freeze_loop_moves [OF ok1 l] by (auto simp del: slot_at_fields)
  show "qmoves q {#} (mset (concat (map snd out))) {} {#} q'" using M(1,2) q' by (simp add: qmoves_def jlog_ok)
  show "depth q' = 0" "jlog q' = jlog q" "qfrozen q'" "conf q' = conf q" using M q' by simp_all
  have "held (slot_at q1 i) = {#}" for i
  proof (cases "i \<in> set (localView q)")
    case False
    then have "map_of (slots q) i = None" using localView_slots [OF ok] by simp
    then show ?thesis using M(6) False by (simp add: slot_at_def newSlot_ok)
  qed (use M(6) in simp)
  moreover have "queue_ok q1" using M(1) by (simp add: qmoves_def)
  ultimately show "qheld q' = {#}" using qheld_empty q' by (simp add: jlog_ok)
qed

definition absorbable :: "message multiset \<Rightarrow> time \<Rightarrow> message list \<Rightarrow> string list \<Rightarrow> bool" where
  "absorbable M now ms gs \<longleftrightarrow> (\<forall>m \<in> set ms. prio_valid (Priority m)) \<and> ids_ok (M + mset ms) \<and>
     distinct gs \<and> set gs = msg_group ` {m \<in> set ms. \<not> held_back m now}"

definition fair_absorb :: "queue \<Rightarrow> (u16 \<times> message list \<times> string list) list \<Rightarrow> time \<Rightarrow> bool" where
  "fair_absorb q vs now \<longleftrightarrow> distinct (map fst vs) \<and>
     (\<forall>(i, ms, gs) \<in> set vs. absorbable (held (slot_at q i)) now ms gs)"

definition absorbed :: "(u16 \<times> message list \<times> string list) list \<Rightarrow> message multiset" where
  "absorbed vs = sum_list (map (\<lambda>(i, ms, gs). mset ms) vs)"

lemma Seq_last_le: "sorted (map Seq ms) \<Longrightarrow> m \<in> set ms \<Longrightarrow> Seq m \<le> Seq (last ms)"
  by (induction ms) auto

lemma Absorb_loop_moves:
  assumes "queue_ok q" "Absorb_loop q vs now n mx = (q', n', mx')" "fair_absorb q vs now"
  shows "qmoves q (absorbed vs) {#} {now} {#} q' \<and> n' = n + size (absorbed vs) \<and> depth q' = depth q \<and> jlog q' = jlog q \<and>
    conf q' = conf q \<and> qseq q' = qseq q \<and> mx \<le> mx' \<and> (\<forall>m \<in># absorbed vs. Seq m \<le> mx') \<and>
    (\<forall>i. held (slot_at q' i) = held (slot_at q i) + sum_list (map (\<lambda>(j, ms, gs). if j = i then mset ms else {#}) vs))"
  using assms
proof (induction vs arbitrary: q n mx)
  case Nil
  then show ?case using qmoves_mono [OF qmoves_refl] by (auto simp: absorbed_def)
next
  case (Cons v vs)
  obtain i ms gs where v: "v = (i, ms, gs)" by (cases v)
  have F: "i \<notin> fst ` set vs" "\<forall>m \<in> set ms. prio_valid (Priority m)" "ids_ok (held (slot_at q i) + mset ms)" "distinct gs"
    "set gs = msg_group ` {m \<in> set ms. \<not> held_back m now}" "fair_absorb q vs now"
    using Cons.prems(3) v by (simp_all add: fair_absorb_def absorbable_def)
  show ?case
  proof (cases "ms = []")
    case True
    then have "Absorb_loop q vs now n mx = (q', n', mx')" using Cons.prems(2) v by simp
    from Cons.IH [OF Cons.prems(1) this F(6)] show ?thesis using True v by (simp add: absorbed_def)
  next
    case False
    let ?ms = "sort_key Seq ms"
    let ?s = "absorb_slot (slot_at q i) ?ms gs now"
    let ?q1 = "with_slot q i ?s"
    let ?mx = "if Seq (last ?ms) > mx then Seq (last ?ms) else mx"
    have l: "Absorb_loop ?q1 vs now (n + length ms) ?mx = (q', n', mx')"
      using Cons.prems(2) False unfolding v
      by (subst (asm) Absorb_loop.simps(2), subst (asm) get_slot_eq) (simp add: Let_def with_slot_def)
    have st: "slot_step (slot_at q i) (slot_op.Absorb ?ms gs now) ?s"
      by (rule slot_step.Absorb) (use F in simp_all)
    have p: "\<And>m. m \<in> set ?ms \<Longrightarrow> Priority m \<le> 100" using F(2) by (simp add: prio_valid_100)
    have h: "held ?s = held (slot_at q i) + mset ms"
      using absorb_slot_spec(2) [OF slot_okD(1) [OF queue_okD(2) [OF Cons.prems(1)]], of ?ms i gs now] p F(3-5) by simp
    have sid: "sid ?s = i" using step_sid [OF queue_okD(2) [OF Cons.prems(1)] st] queue_okD(3) [OF Cons.prems(1)] by simp
    have M1: "qmoves q (mset ms) {#} {now} {#} ?q1"
      by (rule with_slot_moves [OF Cons.prems(1) reach_step [OF queue_okD(1) [OF Cons.prems(1)] st] sid]) (use h in auto)
    have ok1: "queue_ok ?q1" using M1 by (simp add: qmoves_def)
    have F1: "fair_absorb ?q1 vs now" using F(1,6) by (force simp: fair_absorb_def)
    note I = Cons.IH [OF ok1 l F1]
    have ab: "absorbed (v # vs) = mset ms + absorbed vs" by (simp add: absorbed_def v)
    have I1: "qmoves ?q1 (absorbed vs) {#} {now} {#} q'" "?mx \<le> mx'" "\<forall>m \<in># absorbed vs. Seq m \<le> mx'" using I by blast+
    have "qmoves q (absorbed (v # vs)) {#} {now} {#} q'" unfolding ab using qmoves_trans [OF M1 I1(1)] by simp
    moreover have "Seq m \<le> ?mx" if "m \<in> set ms" for m
    proof -
      have "m \<in> set ?ms" using that by simp
      moreover have "sorted (map Seq ?ms)" by simp
      ultimately have "Seq m \<le> Seq (last ?ms)"
        by (metis Seq_last_le)
      then show ?thesis by auto
    qed
    then have "\<forall>m \<in># absorbed (v # vs). Seq m \<le> mx'" unfolding ab using I1(2,3)
      by (metis order.trans set_mset_mset union_iff)
    moreover have "mx \<le> mx'" using I1(2) by (auto split: if_splits)
    moreover have "\<forall>j. held (slot_at q' j) = held (slot_at q j) + sum_list (map (\<lambda>(k, ms, gs). if k = j then mset ms else {#}) (v # vs))"
    proof
      fix j
      have "held (slot_at q' j) = held (slot_at ?q1 j) + sum_list (map (\<lambda>(k, ms, gs). if k = j then mset ms else {#}) vs)"
        using I by blast
      then show "held (slot_at q' j) = held (slot_at q j) + sum_list (map (\<lambda>(k, ms, gs). if k = j then mset ms else {#}) (v # vs))"
        using h v by (cases "j = i") (simp_all add: ac_simps)
    qed
    moreover have "n' = n + size (absorbed (v # vs))" "depth q' = depth q" "jlog q' = jlog q" "conf q' = conf q" "qseq q' = qseq q"
      using I unfolding ab with_slot_frame by - (elim conjE; simp (no_asm_simp))+
    ultimately show ?thesis by blast
  qed
qed

lemma AbsorbQueue_moves:
  assumes ok: "queue_ok q" and f: "fair_absorb q vs now"
  shows "qmoves q (absorbed vs) {#} {now} {#} (AbsorbQueue q vs now)" "depth (AbsorbQueue q vs now) = depth q + int (size (absorbed vs))"
    "jlog (AbsorbQueue q vs now) = jlog q" "conf (AbsorbQueue q vs now) = conf q"
    "\<forall>m \<in># absorbed vs. Seq m \<le> qseq (AbsorbQueue q vs now)" "qseq q \<le> qseq (AbsorbQueue q vs now)"
    "\<And>i. held (slot_at (AbsorbQueue q vs now) i) = held (slot_at q i) + sum_list (map (\<lambda>(j, ms, gs). if j = i then mset ms else {#}) vs)"
proof -
  obtain q1 n mx where l: "Absorb_loop q vs now 0 0 = (q1, n, mx)" by (cases "Absorb_loop q vs now 0 0")
  have A: "qmoves q (absorbed vs) {#} {now} {#} q1" "n = size (absorbed vs)" "depth q1 = depth q"
    "jlog q1 = jlog q" "conf q1 = conf q" "qseq q1 = qseq q" "\<forall>m \<in># absorbed vs. Seq m \<le> mx"
    and H: "\<forall>i. held (slot_at q1 i) = held (slot_at q i) + sum_list (map (\<lambda>(j, ms, gs). if j = i then mset ms else {#}) vs)"
    using Absorb_loop_moves [OF ok l f] unfolding add_0 by - (elim conjE; assumption)+
  have e: "AbsorbQueue q vs now = (adoptSeq q1 mx)\<lparr>depth := depth (adoptSeq q1 mx) + int n\<rparr>"
    using l by (simp add: AbsorbQueue_def Let_def)
  have s: "slots (AbsorbQueue q vs now) = slots q1" "localView (AbsorbQueue q vs now) = localView q1"
    "reserved (AbsorbQueue q vs now) = reserved q1" by (simp_all add: e adoptSeq_def)
  show "qmoves q (absorbed vs) {#} {now} {#} (AbsorbQueue q vs now)"
    by (rule qmoves_cong [OF A(1) s])
  show "depth (AbsorbQueue q vs now) = depth q + int (size (absorbed vs))"
    "jlog (AbsorbQueue q vs now) = jlog q" "conf (AbsorbQueue q vs now) = conf q"
    using A(2-5) by (auto simp: e adoptSeq_def)
  have m: "qseq (AbsorbQueue q vs now) = (if mx \<le> qseq q then qseq q else mx)" using A(6) by (simp add: e adoptSeq_def)
  show "\<forall>x \<in># absorbed vs. Seq x \<le> qseq (AbsorbQueue q vs now)"
    unfolding m using A(7) by (cases "mx \<le> qseq q") (auto intro: order.trans)
  show "qseq q \<le> qseq (AbsorbQueue q vs now)" unfolding m by auto
  have "slot_at (AbsorbQueue q vs now) i = slot_at q1 i" for i by (simp add: slot_at_def s)
  then show "held (slot_at (AbsorbQueue q vs now) i) = held (slot_at q i) + sum_list (map (\<lambda>(j, ms, gs). if j = i then mset ms else {#}) vs)" for i
    using H by simp
qed

end
