(* ===== verification/QueueProps.thy ===== *)
theory QueueProps
  imports QueueHandover
begin

text \<open>
  The runs of a queue and what holds in all of them: no message is lost or made up, the depth counter
  covers what is held, a dequeue serves the most urgent slot, a hand-over moves exactly the messages
  of the slots named.
\<close>

inductive queue_step :: "queue \<Rightarrow> message multiset \<Rightarrow> message multiset \<Rightarrow> time set \<Rightarrow> queue \<Rightarrow> bool" where
  Route: "slotFor q g = (q', i) \<Longrightarrow> queue_step q {#} {#} {} q'"
| Enqueue: "EnqueueToSlot q i o' k now jok = (q', res) \<Longrightarrow> fresh_id q i k \<Longrightarrow>
    queue_step q (case res of Inl _ \<Rightarrow> {#} | Inr m \<Rightarrow> {#m#}) {#} {now} q'"
| Ack: "Ack q r = (q', res) \<Longrightarrow>
    queue_step q {#} (if res = None then {#l_msg (the (map_of (inflight (slot_at q (Slot r))) (MessageID r)))#} else {#}) {} q'"
| Nack: "Nack q r delay now = (q', res) \<Longrightarrow> queue_step q {#} (case res of Inr (Some m) \<Rightarrow> {#m#} | _ \<Rightarrow> {#}) {now} q'"
| Dequeue: "Dequeue q now = (q', res) \<Longrightarrow> queue_step q {#} {#} {now} q'"
| Sweep: "SweepQueue q vs now = (q', res) \<Longrightarrow> fair_sweep q vs now \<Longrightarrow>
    queue_step q {#} (mset (map snd (DeadLettered res))) {now} q'"
| Reconfigure: "Reconfigure q c = (q', b) \<Longrightarrow> queue_step q {#} {#} {} q'"
| FreezeSlots: "FreezeSlots q vs = (q', out) \<Longrightarrow> fair_visits q vs \<Longrightarrow> queue_step q {#} {#} {} q'"
| ThawSlots: "queue_step q {#} {#} {} (ThawSlots q is)"
| DropSlots: "DropSlots q vs = (q', n) \<Longrightarrow> fair_visits q vs \<Longrightarrow> queue_step q {#} (dropped q vs) {} q'"
| Freeze: "Freeze q vs = (q', out) \<Longrightarrow> fair_visits q vs \<Longrightarrow> set (map fst vs) = set (localView q) \<Longrightarrow>
    queue_step q {#} (mset (concat (map snd out))) {} q'"
| Thaw: "queue_step q {#} {#} {} (Thaw q)"
| Absorb: "fair_absorb q vs now \<Longrightarrow> queue_step q (absorbed vs) {#} {now} (AbsorbQueue q vs now)"

inductive queue_run :: "queue \<Rightarrow> message multiset \<Rightarrow> message multiset \<Rightarrow> time set \<Rightarrow> queue \<Rightarrow> bool" where
  Start: "queue_run q {#} {#} {} q"
| Step: "queue_run q0 In Out T q \<Longrightarrow> queue_step q In' Out' T' q' \<Longrightarrow> queue_run q0 (In + In') (Out + Out') (T \<union> T') q'"

definition queue_reach :: "queue \<Rightarrow> bool" where
  "queue_reach q \<longleftrightarrow> (\<exists>c inc g In Out T. queue_run (New c inc g) In Out T q)"

text \<open>The depth counter covers the messages held; it runs ahead by at most the messages leaked.\<close>

definition covers :: "queue \<Rightarrow> nat \<Rightarrow> bool" where
  "covers q n \<longleftrightarrow> int (size (qheld q)) \<le> depth q \<and> depth q \<le> int (size (qheld q) + n)"

lemma covers_step:
  assumes m: "qmoves q In Out T (swept + leaked) q'" and c: "covers q n"
    and d: "depth q' = depth q + int (size In) - int (size Out) - int (size swept)"
  shows "covers q' (n + size leaked)"
  using qmoves_size [OF m] c d by (simp add: covers_def)

definition step_effect :: "queue \<Rightarrow> message multiset \<Rightarrow> message multiset \<Rightarrow> time set \<Rightarrow> queue \<Rightarrow> bool" where
  "step_effect q In Out T q' \<longleftrightarrow> (\<exists>swept leaked. qmoves q In Out T (swept + leaked) q' \<and>
     (\<forall>n. covers q n \<longrightarrow> covers q' (n + size leaked)))"

lemma step_effectI:
  assumes "qmoves q In Out T (swept + leaked) q'" "depth q' = depth q + int (size In) - int (size Out) - int (size swept)"
  shows "step_effect q In Out T q'"
  using assms covers_step unfolding step_effect_def by blast

lemma same_effect:
  assumes "queue_ok q" "slots q' = slots q" "localView q' = localView q" "reserved q' = reserved q" "depth q' = depth q"
  shows "step_effect q {#} {#} {} q'"
proof -
  have "qmoves q {#} {#} {} ({#} + {#}) q'" using qmoves_cong [OF qmoves_refl [OF assms(1)] assms(2-4)] by simp
  then show ?thesis by (rule step_effectI) (use assms in simp)
qed

lemma queue_step_effect:
  assumes ok: "queue_ok q" and st: "queue_step q In Out T q'"
  shows "step_effect q In Out T q'"
  using st
proof cases
  case (Route g i)
  then show ?thesis using same_effect [OF ok, of q'] by (auto simp: slotFor_def Let_def split: if_splits)
next
  case (Enqueue i o' k now jok res)
  show ?thesis
  proof (rule EnqueueToSlot_cases [OF ok Enqueue(5,4)])
    fix err assume "res = Inl err" "qmoves q {#} {#} {} {#} q'" "depth q' = depth q"
    then show ?thesis using step_effectI [where swept = "{#}" and leaked = "{#}"] qmoves_mono [of q "{#}" "{#}" "{}" "{#}" q' T] Enqueue
      by (auto intro: step_effectI [where swept = "{#}" and leaked = "{#}"])
  next
    fix m assume "res = Inr m" "qmoves q {#m#} {#} {now} {#} q'" "depth q' = depth q + 1"
    then show ?thesis using Enqueue by (auto intro: step_effectI [where swept = "{#}" and leaked = "{#}"])
  qed
next
  case (Ack r res)
  show ?thesis
    by (rule Ack_moves [OF ok Ack(4)]) (use Ack in \<open>auto intro: step_effectI [where swept = "{#}" and leaked = "{#}"]\<close>)
next
  case (Nack r delay now res)
  from Nack_moves [OF ok Nack(4)] obtain gone where
    "qmoves q {#} (case res of Inr (Some m) \<Rightarrow> {#m#} | _ \<Rightarrow> {#}) {now} ({#} + gone) q'"
    "depth q' = depth q - (case res of Inr (Some m) \<Rightarrow> 1 | _ \<Rightarrow> 0)" by auto
  then show ?thesis using Nack(1-3)
    by (auto intro!: step_effectI [where swept = "{#}" and leaked = gone] split: sum.splits option.splits)
next
  case (Dequeue now res)
  from Dequeue_moves [OF ok Dequeue(4)] obtain gone where "qmoves q {#} {#} {now} ({#} + gone) q'" "depth q' = depth q" by auto
  then show ?thesis using Dequeue(1-3) by (auto intro!: step_effectI [where swept = "{#}" and leaked = gone])
next
  case (Sweep vs now res)
  from SweepQueue_moves [OF ok Sweep(4,5)] obtain gone where
    "qmoves q {#} (mset (map snd (DeadLettered res))) {now} (gone + {#}) q'"
    "depth q' = depth q - int (length (DeadLettered res) + size gone)" by auto
  then show ?thesis using Sweep(1-3) by (auto intro!: step_effectI [where swept = gone and leaked = "{#}"] simp: comp_def)
next
  case (Reconfigure c b)
  then show ?thesis using same_effect [OF ok, of q'] by (auto simp: Reconfigure_def Let_def split: if_splits)
next
  case (FreezeSlots vs out)
  show ?thesis using FreezeSlots_moves(1,2) [OF ok FreezeSlots(4,5)] FreezeSlots(1-3)
    by (auto intro: step_effectI [where swept = "{#}" and leaked = "{#}"])
next
  case (ThawSlots "is")
  show ?thesis using ThawSlots_moves [OF ok, of "is"] ThawSlots
    by (auto intro: step_effectI [where swept = "{#}" and leaked = "{#}"])
next
  case (DropSlots vs n)
  show ?thesis using DropSlots_moves(1,3) [OF ok DropSlots(4,5)] DropSlots(1-3)
    by (auto intro: step_effectI [where swept = "{#}" and leaked = "{#}"])
next
  case (Freeze vs out)
  note F = Freeze_moves [OF ok Freeze(4-6)]
  then have "covers q' (n + size {#})" for n by (simp add: covers_def)
  moreover have "qmoves q In Out T ({#} + {#}) q'" using F(1) Freeze(1-3) by simp
  ultimately show ?thesis unfolding step_effect_def by blast
next
  case Thaw
  then show ?thesis using same_effect [OF ok, of q'] by (simp add: Thaw_def)
next
  case (Absorb vs now)
  show ?thesis using AbsorbQueue_moves(1,2) [OF ok Absorb(5)] Absorb(1-4)
    by (auto intro: step_effectI [where swept = "{#}" and leaked = "{#}"])
qed

lemma New_ok: "queue_ok (New c inc g)" "qheld (New c inc g) = {#}" "covers (New c inc g) 0"
  by (simp_all add: New_def queue_ok_def qheld_def covers_def)

lemma queue_run_ok:
  assumes "queue_run q0 In Out T q" "queue_ok q0" "covers q0 0"
  shows "queue_ok q \<and> (\<exists>swept leaked. qmoves q0 In Out T (swept + leaked) q \<and> covers q (size leaked))"
  using assms
proof induction
  case (Start q)
  then show ?case using qmoves_refl [of q] by (auto intro!: exI [of _ "{#}"])
next
  case (Step q0 In Out T q In' Out' T' q')
  then obtain swept leaked where ok: "queue_ok q" and m: "qmoves q0 In Out T (swept + leaked) q" "covers q (size leaked)" by blast
  from queue_step_effect [OF ok Step.hyps(2)] obtain s l where
    E: "qmoves q In' Out' T' (s + l) q'" "covers q' (size leaked + size l)" using m(2) by (auto simp: step_effect_def)
  have "qmoves q0 (In + In') (Out + Out') (T \<union> T') ((swept + s) + (leaked + l)) q'"
    using qmoves_trans [OF m(1) E(1)] by (simp add: ac_simps)
  moreover have "covers q' (size (leaked + l))" using E(2) by simp
  ultimately show ?case by (metis qmoves_def)
qed

lemma queue_reach_ok: "queue_reach q \<Longrightarrow> queue_ok q"
  using queue_run_ok New_ok by (auto simp: queue_reach_def)

lemma queue_reach_step: "queue_reach q \<Longrightarrow> queue_step q In Out T q' \<Longrightarrow> queue_reach q'"
  unfolding queue_reach_def using queue_run.Step by blast

lemma queue_reach_New: "queue_reach (New c inc g)"
  unfolding queue_reach_def using queue_run.Start by blast


text \<open>A queue of at most one message, for the examples.\<close>

definition tiny_conf :: config where
  "tiny_conf = \<lparr>Key = \<lparr>Org = ''o'', Name = ''q''\<rparr>, VisibilityTimeout = 100, MaxRetries = 3, MaxRetriesSet = True,
     DefaultTTL = 0, StarvationThreshold = 50, StarvationReserve = 1, StarvationAvoidanceEnabled = False, MaxDepth = 1,
     Distributed = False, HasDeadLetter = True\<rparr>"

definition opts :: "prio \<Rightarrow> duration \<Rightarrow> enqueueOptions" where
  "opts p ttl = \<lparr>eo_Payload = [], eo_Priority = p, eo_GroupID = [], eo_TTL = ttl, eo_DeliverAfter = 0\<rparr>"

definition leak1 :: queue where
  "leak1 = fst (EnqueueToSlot (New tiny_conf 7 0) 0 (opts 50 5) ''a'' 1 True)"

definition leak2 :: queue where
  "leak2 = fst (Dequeue leak1 10)"

lemma reach_Enqueue: "queue_reach q \<Longrightarrow> fresh_id q i k \<Longrightarrow> queue_reach (fst (EnqueueToSlot q i o' k now jok))"
  using queue_reach_step [OF _ queue_step.Enqueue [OF prod.collapse [symmetric]]] .

lemma reach_Dequeue: "queue_reach q \<Longrightarrow> queue_reach (fst (Dequeue q now))"
  using queue_reach_step [OF _ queue_step.Dequeue [OF prod.collapse [symmetric]]] .

lemma reach_Sweep: "queue_reach q \<Longrightarrow> fair_sweep q vs now \<Longrightarrow> queue_reach (fst (SweepQueue q vs now))"
  using queue_reach_step [OF _ queue_step.Sweep [OF prod.collapse [symmetric]]] .

lemma leak1_reach: "queue_reach leak1"
  unfolding leak1_def by (rule reach_Enqueue [OF queue_reach_New]) code_simp

definition leak_msg :: message where
  "leak_msg = (build_message (applyDefaults tiny_conf) (opts 50 5) ''a'' 1)\<lparr>Seq := 1\<rparr>"

lemma leak1_step: "EnqueueToSlot (New tiny_conf 7 0) 0 (opts 50 5) ''a'' 1 True = (leak1, Inr leak_msg)"
proof (rule prod_eqI)
  show "snd (EnqueueToSlot (New tiny_conf 7 0) 0 (opts 50 5) ''a'' 1 True) = snd (leak1, Inr leak_msg)"
    unfolding snd_conv by code_simp
qed (simp add: leak1_def)


text \<open>C9: The depth counter leaks. There is a reachable queue that holds no message at all, whose counter
  equals its limit, and which refuses every enqueue to its slot as full; a sweep does not repair
  the count. The message that caused it expired and was dropped by a dequeue, which
  does not count it out.\<close>

theorem phantom_depth_blocks:
  "\<exists>q. queue_reach q \<and> qheld q = {#} \<and> MaxDepth (conf q) = 1 \<and> depth (fst (SweepQueue q [(0, [])] 20)) = 1 \<and>
     (\<forall>o' k now jok. snd (EnqueueToSlot q 0 (o'\<lparr>eo_Priority := 50\<rparr>) k now jok) = Inl ErrQueueFull)"
proof (intro exI conjI allI)
  show "queue_reach leak2" unfolding leak2_def by (rule reach_Dequeue [OF leak1_reach])
  show "qheld leak2 = {#}" by code_simp
  show c: "MaxDepth (conf leak2) = 1" by code_simp
  show "depth (fst (SweepQueue leak2 [(0, [])] 20)) = 1" by code_simp
  have "\<not> qfrozen leak2" "0 < slotCount leak2" "reserved leak2 = 0" "depth leak2 = 1" by code_simp+
  then show "snd (EnqueueToSlot leak2 0 (o'\<lparr>eo_Priority := 50\<rparr>) k now jok) = Inl ErrQueueFull" for o' k now jok
    using c by (simp add: EnqueueToSlot_def Let_def prio_valid_def MaxPriority_def)
qed



subsection \<open>What a dequeue serves\<close>

text \<open>A take that finds nothing, with no expired head on offer, has not touched a group.\<close>

lemma take_none_keeps:
  assumes ok: "slot_ok s" and p: "p < 128" and t: "take_msg s p now vis = (s', None)"
    and fresh: "\<And>r h. offers s r h \<Longrightarrow> \<not> expired h now"
  shows "gheap s' = gheap s" "groups s' = groups s" "sfrozen s' = sfrozen s"
proof -
  obtain s1 r1 where tg: "takeGroup s p = (s1, r1)" by (cases "takeGroup s p")
  note b = slot_coreD(1) [OF slot_okD(2) [OF ok]]
  have "r1 = None"
  proof (rule ccontr)
    assume "r1 \<noteq> None"
    then obtain r where r: "r1 = Some r" by auto
    obtain s2 r2 where pf: "pop_fresh s1 r now = (s2, r2)" by (cases "pop_fresh s1 r now")
    have r2: "r2 = None" using t tg r pf by (auto simp: take_msg_def Let_def split: option.splits)
    from take_front [OF slot_okD(1) [OF ok] p tg [unfolded r] pf] obtain dead where
      F: "\<forall>m \<in> set dead. expired m now" "dq_list (msgs (gheap s r)) = dead" "r \<in> refs s" "inBand (gheap s r)" "\<not> locked (gheap s r)"
        "\<exists>m ms. dq_list (msgs (gheap s r)) = m # ms \<and> Priority m = p" using r2 by (simp, metis append_Nil2)
    then obtain h ms where "dead = h # ms" by auto
    with F have "offers s r h" "expired h now" by (auto simp: offers_def)
    with fresh show False by blast
  qed
  then have "s' = refreshHint s1" using t tg by (simp add: take_msg_def)
  moreover have "gheap s1 = gheap s" by (rule takeGroup_cases [OF b p tg]) (use \<open>r1 = None\<close> in auto)
  ultimately show "gheap s' = gheap s" "groups s' = groups s" "sfrozen s' = sfrozen s"
    by (simp_all add: takeGroup_frame [OF tg])
qed

lemma offers_cong: "gheap s' = gheap s \<Longrightarrow> groups s' = groups s \<Longrightarrow> offers s' r h = offers s r h"
  by (simp add: offers_def refs_def)

text \<open>What the queue has on offer: the heads of the unlocked groups of its unfrozen slots.\<close>

definition on_offer :: "queue \<Rightarrow> message \<Rightarrow> bool" where
  "on_offer q h \<longleftrightarrow> (\<exists>i r. \<not> sfrozen (slot_at q i) \<and> offers (slot_at q i) r h)"

lemma offered_announced:
  assumes ok: "queue_ok q" and f: "\<not> sfrozen (slot_at q j)" and o: "offers (slot_at q j) r h"
  shows "j \<in> set (localView q)" "ready_slot q j" "Priority h \<le> announced q j"
proof -
  have k: "map_of (slots q) j \<noteq> None"
  proof
    assume "map_of (slots q) j = None"
    then have "slot_at q j = newSlot j" by (simp add: slot_at_def)
    with o show False by (simp add: offers_def refs_def newSlot_def)
  qed
  then show "j \<in> set (localView q)" using localView_slots [OF ok] by simp
  note sok = queue_okD(2) [OF ok, of j]
  note b = offers_band [OF slot_coreD(1) [OF slot_okD(2) [OF sok]] o]
  have "highestBand (slot_at q j) \<noteq> None" using b(3,4) highestBand_None by blast
  then obtain p where p: "highestBand (slot_at q j) = Some p" by auto
  have h: "hint (slot_at q j) = unat p + 1" using hint_highest [OF sok] p by simp
  show "ready_slot q j" using f h local_slot_at [OF k] by (simp add: ready_slot_def)
  have "announced q j = p" using h local_slot_at [OF k] by (simp add: announced_def)
  then show "Priority h \<le> announced q j" using highestBand_Some [OF p] b(3,4) by blast
qed

definition next_best :: "queue \<Rightarrow> message \<Rightarrow> bool" where
  "next_best q m \<longleftrightarrow> (\<exists>h. on_offer q h \<and> m = h\<lparr>Attempts := Attempts h + 1\<rparr>) \<and>
     (\<forall>h. on_offer q h \<longrightarrow> Priority h \<le> Priority m)"

lemma takeUrgent_best:
  assumes "queue_ok q" "\<And>h. on_offer q h \<Longrightarrow> \<not> expired h now" "takeUrgent_loop n q now = (q', Some (m, rc))"
  shows "next_best q m \<and> Incarnation rc = incarnation q"
  using assms
proof (induction n arbitrary: q)
  case (Suc n)
  show ?case
  proof (cases "pick_urgent q")
    case None
    then show ?thesis using Suc.prems(3) by simp
  next
    case (Some x)
    obtain i b k where x: "x = (i, b, k)" by (cases x)
    note P = pick_urgent_Some [OF Some [unfolded x]]
    have i: "map_of (slots q) i \<noteq> None" using P(1) localView_slots [OF Suc.prems(1)] by simp
    note at = local_slot_at [OF i]
    have nf: "\<not> sfrozen (slot_at q i)" using P(2) at by (simp add: ready_slot_def)
    note sok = queue_okD(2) [OF Suc.prems(1), of i]
    obtain s' r where t: "take_msg (slot_at q i) b now (VisibilityTimeout (conf q)) = (s', r)"
      by (cases "take_msg (slot_at q i) b now (VisibilityTimeout (conf q))")
    have b: "b < 128" using hint_band(2) [OF queue_okD(1) [OF Suc.prems(1)], of i] P(2,3) at
      by (simp add: ready_slot_def announced_def)
    have fresh: "\<not> expired h now" if "offers (slot_at q i) r h" for r h
      using Suc.prems(2) nf that by (auto simp: on_offer_def)
    from take_moves [OF Suc.prems(1) i b t [folded at]] have M: "put_slot q i s' = with_slot q i s'" "queue_ok (with_slot q i s')"
      by (auto simp: qmoves_def)
    show ?thesis
    proof (cases r)
      case (Some y)
      have "takeUrgent_loop (Suc n) q now = (with_slot q i s', Some (stamp (with_slot q i s') y))"
        using \<open>pick_urgent q = Some x\<close> x t M(1) Some by (simp add: Let_def at)
      from trans [OF this [symmetric] Suc.prems(3)] have y: "(m, rc) = stamp (with_slot q i s') y"
        by (metis Pair_inject option.inject)
      then have m: "fst y = m" "Incarnation rc = incarnation q" by (simp_all add: stamp_def)
      have "\<exists>h r. offers (slot_at q i) r h \<and> m = h\<lparr>Attempts := Attempts h + 1\<rparr> \<and> Priority h = b"
      proof (rule take_msg_cases [OF slot_okD(1) [OF sok] b t])
        fix r' dead m0 rest
        assume T: "r = Some (m0\<lparr>Attempts := Attempts m0 + 1\<rparr>, \<lparr>Slot = sid (slot_at q i), MessageID = ID m0, Epoch = epochSeq (slot_at q i) + 1, Incarnation = 0\<rparr>)"
          "r' \<in> refs (slot_at q i)" "\<not> locked (gheap (slot_at q i) r')" "dq_list (msgs (gheap (slot_at q i) r')) = dead @ m0 # rest"
          "\<forall>m \<in> set dead. expired m now" "Priority (hd (dead @ [m0])) = b"
        have "dead = []"
        proof (rule ccontr)
          assume "dead \<noteq> []"
          then have "offers (slot_at q i) r' (hd dead)" "expired (hd dead) now" using T by (auto simp: offers_def neq_Nil_conv)
          with fresh show False by blast
        qed
        then have "offers (slot_at q i) r' m0" "Priority m0 = b" using T by (auto simp: offers_def)
        moreover have "m = m0\<lparr>Attempts := Attempts m0 + 1\<rparr>" using T(1) Some m(1) by simp
        ultimately show ?thesis by blast
      qed (use Some in simp)
      then obtain h r' where h: "offers (slot_at q i) r' h" "m = h\<lparr>Attempts := Attempts h + 1\<rparr>" "Priority h = b" by blast
      have "Priority h' \<le> b" if "on_offer q h'" for h'
      proof -
        from that obtain j r'' where j: "\<not> sfrozen (slot_at q j)" "offers (slot_at q j) r'' h'" by (auto simp: on_offer_def)
        note O = offered_announced [OF Suc.prems(1) j]
        show ?thesis using P(5) [OF O(1,2)] O(3) by (meson order.trans)
      qed
      moreover have "on_offer q h" using h(1) nf by (auto simp: on_offer_def)
      ultimately show ?thesis using h(2,3) m(2) by (auto simp: next_best_def)
    next
      case None
      note K = take_none_keeps [OF sok b t [unfolded None] fresh]
      have "(\<not> sfrozen (slot_at (with_slot q i s') j) \<and> offers (slot_at (with_slot q i s') j) r h) =
          (\<not> sfrozen (slot_at q j) \<and> offers (slot_at q j) r h)" for j r h
        using offers_cong [OF K(1,2)] K(3) by (cases "j = i") simp_all
      then have same: "on_offer (with_slot q i s') h = on_offer q h" for h by (simp only: on_offer_def)
      have "takeUrgent_loop n (with_slot q i s') now = (q', Some (m, rc))"
        using Suc.prems(3) Some x t None M(1) by (simp add: at)
      from Suc.IH [OF M(2) _ this] Suc.prems(2) same show ?thesis by (simp add: next_best_def)
    qed
  qed
qed simp


text \<open>A queue with one message of priority 50, and then one of priority 90 in another slot.\<close>

definition two_slots :: queue where
  "two_slots = fst (EnqueueToSlot (fst (EnqueueToSlot (New (tiny_conf\<lparr>MaxDepth := 9, Distributed := True\<rparr>) 7 0) 0 (opts 50 0) ''a'' 1 True))
     3 (opts 90 0) ''b'' 2 True)"

lemma two_slots_reach: "queue_reach two_slots"
  unfolding two_slots_def by (rule reach_Enqueue [OF reach_Enqueue [OF queue_reach_New]]; code_simp)

lemma two_slots_held:
  assumes "h \<in># qheld two_slots"
  shows "ExpiresAt h = 0"
proof (rule ccontr)
  assume "ExpiresAt h \<noteq> 0"
  with assms have "h \<in># filter_mset (\<lambda>h. ExpiresAt h \<noteq> 0) (qheld two_slots)" by simp
  moreover have "filter_mset (\<lambda>h. ExpiresAt h \<noteq> 0) (qheld two_slots) = {#}" by code_simp
  ultimately show False by simp
qed

lemma on_offer_held:
  assumes ok: "queue_ok q" and o: "on_offer q h"
  shows "h \<in># qheld q"
proof -
  from o obtain i r where O: "offers (slot_at q i) r h" by (auto simp: on_offer_def)
  then have "h \<in># held (slot_at q i)" unfolding mem_held mem_ready offers_def by force
  moreover have "map_of (slots q) i \<noteq> None"
  proof
    assume "map_of (slots q) i = None"
    then have "slot_at q i = newSlot i" by (simp add: slot_at_def)
    with O show False by (simp add: offers_def refs_def newSlot_def)
  qed
  ultimately show ?thesis by (force simp: qheld_def mem_sum_al slot_at_def dest: map_of_SomeD)
qed

definition best_msg :: message where
  "best_msg = (build_message (applyDefaults tiny_conf) (opts 90 0) ''b'' 2)\<lparr>Seq := 2\<rparr>"


end
