(* ===== verification/QueueTransfer.thy ===== *)
theory QueueTransfer
  imports QueueProps
begin

text \<open>
  Composition of two queues, the old and the new owner of some slots, and the limits of the
  dispatcher's retries.
\<close>

subsection \<open>Handing slots over\<close>

lemma absorbed_sum:
  assumes d: "distinct (map fst out)"
  shows "absorbed (map (\<lambda>(i, ms). (i, ms, gs i)) out) = (\<Sum>i \<in> fst ` set out. mset (the (map_of out i)))"
proof -
  have "absorbed (map (\<lambda>(i, ms). (i, ms, gs i)) out) = sum_list (map (\<lambda>x. mset (snd x)) out)"
    by (simp add: absorbed_def comp_def case_prod_beta)
  also have "\<dots> = sum_list (map (\<lambda>i. mset (the (map_of out i))) (map fst out))"
    using d by (auto intro!: arg_cong [where f = sum_list] simp: map_of_is_SomeI)
  also have "\<dots> = (\<Sum>i \<in> fst ` set out. mset (the (map_of out i)))"
    using sum_list_distinct_conv_sum_set [OF d] by simp
  finally show ?thesis .
qed

lemma dropped_sum:
  assumes "fair_visits q vs"
  shows "dropped q vs = (\<Sum>i \<in> in_range q vs. held (slot_at q i))"
proof -
  have d: "distinct (map fst vs)" using assms by (simp add: fair_visits_def)
  have "dropped q vs = sum_list (map (\<lambda>i. if unat i < slotCount q then held (slot_at q i) else {#}) (map fst vs))"
    by (simp add: dropped_def comp_def)
  also have "\<dots> = (\<Sum>i \<in> fst ` set vs. if unat i < slotCount q then held (slot_at q i) else {#})"
    using sum_list_distinct_conv_sum_set [OF d] by simp
  also have "\<dots> = (\<Sum>i \<in> in_range q vs. held (slot_at q i))"
    by (auto simp: in_range_def intro!: sum.mono_neutral_cong_right split: if_splits)
  finally show ?thesis .
qed

lemma sum_list_pick:
  "distinct (map fst out) \<Longrightarrow> sum_list (map (\<lambda>(j, ms, gs). if j = i then mset ms else {#}) (map (\<lambda>(i, ms). (i, ms, gs i)) out))
     = mset (case map_of out i of None \<Rightarrow> [] | Some ms \<Rightarrow> ms)"
proof (induction out)
  case (Cons x out)
  have none: "map_of out (fst x) = None" using Cons.prems by (simp add: map_of_eq_None_iff)
  with Cons show ?case by (cases x) (auto split: if_splits)
qed simp


definition take_over :: queue where
  "take_over = AbsorbQueue (New (tiny_conf\<lparr>MaxDepth := 9, Distributed := True\<rparr>) 8 1)
     (map (\<lambda>(i, ms). (i, ms, [''b''])) (snd (FreezeSlots two_slots [(3, [], [''b''])]))) 6"


subsection \<open>A dequeue delivers\<close>


lemma two_slots_offers:
  "offers (slot_at two_slots 0) 0 ((build_message (applyDefaults tiny_conf) (opts 50 0) ''a'' 1)\<lparr>Seq := 1\<rparr>)"
  "offers (slot_at two_slots 3) 0 best_msg"
proof -
  have "0 \<in> refs (slot_at two_slots 0)" "\<not> locked (gheap (slot_at two_slots 0) 0)"
    "dq_list (msgs (gheap (slot_at two_slots 0) 0)) = [(build_message (applyDefaults tiny_conf) (opts 50 0) ''a'' 1)\<lparr>Seq := 1\<rparr>]"
    by code_simp+
  then show "offers (slot_at two_slots 0) 0 ((build_message (applyDefaults tiny_conf) (opts 50 0) ''a'' 1)\<lparr>Seq := 1\<rparr>)"
    unfolding offers_def by blast
  have "0 \<in> refs (slot_at two_slots 3)" "\<not> locked (gheap (slot_at two_slots 3) 0)"
    "dq_list (msgs (gheap (slot_at two_slots 3) 0)) = [best_msg]" by code_simp+
  then show "offers (slot_at two_slots 3) 0 best_msg" unfolding offers_def by blast
qed


end
