(* ===== verification/WalRecord.thy ===== *)
theory WalRecord
  imports Message "HOL-Library.Monad_Syntax"
begin

text \<open>
  \<open>backend/queue/repo/walfile/record.go\<close>: the records of the write-ahead log.  A record is a header of
  nine bytes (length, CRC-32 of the body, kind) and a body, the JSON text of a struct.  The model
  has the JSON objects the struct tags describe (\<open>json\<close>: field names, \<open>omitempty\<close>, zero values for
  missing fields, range checks of the integer types); the text of an object is left to the parameters
  \<open>render\<close> and \<open>parse\<close>, of which only \<open>json_text render parse\<close> is ever assumed: parsing what was
  rendered gives it back.
\<close>

unbundle bit_operations_syntax

subsection \<open>CRC-32 (IEEE)\<close>

definition crc_poly :: u32 where
  "crc_poly = 0xEDB88320"

definition crc_bit :: "u32 \<Rightarrow> u32" where
  "crc_bit c = (if bit c 0 then drop_bit 1 c XOR crc_poly else drop_bit 1 c)"

definition crc_byte :: "u32 \<Rightarrow> 8 word \<Rightarrow> u32" where
  "crc_byte c b = (crc_bit ^^ 8) (c XOR ucast b)"

definition crc32 :: "bytes \<Rightarrow> u32" where
  "crc32 bs = NOT (foldl crc_byte (NOT 0) bs)"

subsection \<open>Little-endian numbers\<close>

definition le32 :: "u32 \<Rightarrow> bytes" where
  "le32 w = [ucast w, ucast (drop_bit 8 w), ucast (drop_bit 16 w), ucast (drop_bit 24 w)]"

definition un_le32 :: "bytes \<Rightarrow> u32" where
  "un_le32 bs = ucast (bs ! 0) OR push_bit 8 (ucast (bs ! 1)) OR push_bit 16 (ucast (bs ! 2)) OR push_bit 24 (ucast (bs ! 3))"

lemma length_le32 [simp]: "length (le32 w) = 4"
  by (simp add: le32_def)

lemma join32:
  fixes w :: u32
  shows "(ucast (ucast w :: 8 word) :: u32) OR push_bit 8 (ucast (ucast (drop_bit 8 w) :: 8 word)) OR
    push_bit 16 (ucast (ucast (drop_bit 16 w) :: 8 word)) OR push_bit 24 (ucast (ucast (drop_bit 24 w) :: 8 word)) = w"
proof (rule bit_word_eqI)
  fix n assume n: "n < LENGTH(32)"
  then have "n < 8 \<or> 8 \<le> n \<and> n < 16 \<or> 16 \<le> n \<and> n < 24 \<or> 24 \<le> n \<and> n < 32" by auto
  then show "bit ((ucast (ucast w :: 8 word) :: u32) OR push_bit 8 (ucast (ucast (drop_bit 8 w) :: 8 word)) OR
    push_bit 16 (ucast (ucast (drop_bit 16 w) :: 8 word)) OR push_bit 24 (ucast (ucast (drop_bit 24 w) :: 8 word))) n = bit w n"
    using n
    by (elim disjE)
       (simp_all only: bit_or_iff bit_push_bit_iff bit_ucast_iff bit_drop_bit_eq comp_def possible_bit_word, auto)
qed

lemma un_le32_le32 [simp]: "un_le32 (le32 w @ bs) = w"
  using join32 [of w] unfolding un_le32_def le32_def
  by (simp only: append_Cons nth_Cons_0 nth_Cons_Suc One_nat_def numeral_2_eq_2 numeral_3_eq_3)

subsection \<open>JSON objects\<close>

datatype json = JStr string | JBytes bytes | JNum int | JTime time | JObj "(string \<times> json) list"

definition json_text :: "(json \<Rightarrow> bytes) \<Rightarrow> (bytes \<Rightarrow> json option) \<Rightarrow> bool" where
  "json_text render parse \<longleftrightarrow> (\<forall>j. parse (render j) = Some j)"

fun json_fields :: "json \<Rightarrow> (string \<times> json) list option" where
  "json_fields (JObj fs) = Some fs"
| "json_fields _ = None"

text \<open>A field that is missing keeps the zero value of its type.\<close>

definition get_str :: "(string \<times> json) list \<Rightarrow> string \<Rightarrow> string option" where
  "get_str fs k = (case map_of fs k of None \<Rightarrow> Some [] | Some (JStr s) \<Rightarrow> Some s | _ \<Rightarrow> None)"

definition get_bytes :: "(string \<times> json) list \<Rightarrow> string \<Rightarrow> bytes option" where
  "get_bytes fs k = (case map_of fs k of None \<Rightarrow> Some [] | Some (JBytes s) \<Rightarrow> Some s | _ \<Rightarrow> None)"

definition get_time :: "(string \<times> json) list \<Rightarrow> string \<Rightarrow> time option" where
  "get_time fs k = (case map_of fs k of None \<Rightarrow> Some 0 | Some (JTime t) \<Rightarrow> Some t | _ \<Rightarrow> None)"

definition get_time_ptr :: "(string \<times> json) list \<Rightarrow> string \<Rightarrow> time option option" where
  "get_time_ptr fs k = (case map_of fs k of None \<Rightarrow> Some None | Some (JTime t) \<Rightarrow> Some (Some t) | _ \<Rightarrow> None)"

text \<open>A number out of the range of its unsigned type is an error.\<close>

definition get_uint :: "nat \<Rightarrow> (string \<times> json) list \<Rightarrow> string \<Rightarrow> int option" where
  "get_uint w fs k = (case map_of fs k of None \<Rightarrow> Some 0
     | Some (JNum n) \<Rightarrow> if 0 \<le> n \<and> n < 2 ^ w then Some n else None | _ \<Rightarrow> None)"

subsection \<open>Payloads\<close>

record enqueuePayload =
  p_ID :: string
  p_Payload :: bytes
  p_Priority :: u8
  p_GroupID :: string
  p_Seq :: u64
  p_EnqueuedAt :: time
  p_ExpiresAt :: "time option"
  p_DeliverAfter :: "time option"

record attemptPayload =
  a_ID :: string
  a_Attempts :: u32
  a_Epoch :: u64

record terminalPayload =
  t_ID :: string
  t_Kind :: u8

definition enqueue_json :: "enqueuePayload \<Rightarrow> json" where
  "enqueue_json p = JObj
     ([(''id'', JStr (p_ID p)), (''payload'', JBytes (p_Payload p)), (''priority'', JNum (uint (p_Priority p)))]
      @ (if p_GroupID p = [] then [] else [(''group'', JStr (p_GroupID p))])
      @ [(''seq'', JNum (uint (p_Seq p))), (''at'', JTime (p_EnqueuedAt p))]
      @ (case p_ExpiresAt p of None \<Rightarrow> [] | Some t \<Rightarrow> [(''exp'', JTime t)])
      @ (case p_DeliverAfter p of None \<Rightarrow> [] | Some t \<Rightarrow> [(''after'', JTime t)]))"

definition enqueue_unjson :: "json \<Rightarrow> enqueuePayload option" where
  "enqueue_unjson j = do {
     fs \<leftarrow> json_fields j;
     i \<leftarrow> get_str fs ''id''; pl \<leftarrow> get_bytes fs ''payload''; p \<leftarrow> get_uint 8 fs ''priority'';
     g \<leftarrow> get_str fs ''group''; n \<leftarrow> get_uint 64 fs ''seq''; t \<leftarrow> get_time fs ''at'';
     e \<leftarrow> get_time_ptr fs ''exp''; d \<leftarrow> get_time_ptr fs ''after'';
     Some \<lparr>p_ID = i, p_Payload = pl, p_Priority = of_int p, p_GroupID = g, p_Seq = of_int n,
       p_EnqueuedAt = t, p_ExpiresAt = e, p_DeliverAfter = d\<rparr> }"

definition attempt_json :: "attemptPayload \<Rightarrow> json" where
  "attempt_json p = JObj [(''id'', JStr (a_ID p)), (''n'', JNum (uint (a_Attempts p))), (''e'', JNum (uint (a_Epoch p)))]"

definition attempt_unjson :: "json \<Rightarrow> attemptPayload option" where
  "attempt_unjson j = do {
     fs \<leftarrow> json_fields j; i \<leftarrow> get_str fs ''id''; n \<leftarrow> get_uint 32 fs ''n''; e \<leftarrow> get_uint 64 fs ''e'';
     Some \<lparr>a_ID = i, a_Attempts = of_int n, a_Epoch = of_int e\<rparr> }"

definition terminal_json :: "terminalPayload \<Rightarrow> json" where
  "terminal_json p = JObj [(''id'', JStr (t_ID p)), (''k'', JNum (uint (t_Kind p)))]"

definition terminal_unjson :: "json \<Rightarrow> terminalPayload option" where
  "terminal_unjson j = do {
     fs \<leftarrow> json_fields j; i \<leftarrow> get_str fs ''id''; k \<leftarrow> get_uint 8 fs ''k'';
     Some \<lparr>t_ID = i, t_Kind = of_int k\<rparr> }"

lemma uint_less: "uint (w :: 'a::len word) < 2 ^ LENGTH('a)"
  by (rule uint_bounded)

lemma json_roundtrip [simp]:
  "enqueue_unjson (enqueue_json p) = Some p" "attempt_unjson (attempt_json a) = Some a" "terminal_unjson (terminal_json t) = Some t"
proof -
  show "enqueue_unjson (enqueue_json p) = Some p"
    using uint_less [of "p_Priority p"] uint_less [of "p_Seq p"]
    by (cases "p_ExpiresAt p"; cases "p_DeliverAfter p"; cases "p_GroupID p = []")
       (simp_all add: enqueue_unjson_def enqueue_json_def get_str_def get_bytes_def get_uint_def get_time_def get_time_ptr_def)
  show "attempt_unjson (attempt_json a) = Some a"
    using uint_less [of "a_Attempts a"] uint_less [of "a_Epoch a"]
    by (simp add: attempt_unjson_def attempt_json_def get_str_def get_uint_def)
  show "terminal_unjson (terminal_json t) = Some t"
    using uint_less [of "t_Kind t"]
    by (simp add: terminal_unjson_def terminal_json_def get_str_def get_uint_def)
qed

definition payloadFromMessage :: "message \<Rightarrow> enqueuePayload" where
  "payloadFromMessage m = \<lparr>p_ID = ID m, p_Payload = Payload m, p_Priority = Priority m, p_GroupID = GroupID m,
     p_Seq = Seq m, p_EnqueuedAt = EnqueuedAt m,
     p_ExpiresAt = (if is_zero (ExpiresAt m) then None else Some (ExpiresAt m)),
     p_DeliverAfter = (if is_zero (DeliverAfter m) then None else Some (DeliverAfter m))\<rparr>"

definition messageFromPayload :: "enqueuePayload \<Rightarrow> message" where
  "messageFromPayload p = \<lparr>ID = p_ID p, Payload = p_Payload p, Priority = p_Priority p, GroupID = p_GroupID p,
     Seq = p_Seq p, EnqueuedAt = p_EnqueuedAt p,
     ExpiresAt = (case p_ExpiresAt p of None \<Rightarrow> 0 | Some t \<Rightarrow> t),
     DeliverAfter = (case p_DeliverAfter p of None \<Rightarrow> 0 | Some t \<Rightarrow> t), Attempts = 0\<rparr>"

text \<open>Everything but the attempt count survives the log.\<close>

lemma payload_roundtrip [simp]: "messageFromPayload (payloadFromMessage m) = m\<lparr>Attempts := 0\<rparr>"
  by (simp add: messageFromPayload_def payloadFromMessage_def is_zero_def)

lemma p_ID_payload [simp]: "p_ID (payloadFromMessage m) = ID m"
  by (simp add: payloadFromMessage_def)

subsection \<open>Records\<close>

definition kindEnqueue :: u8 where "kindEnqueue = 1"
definition kindAttempt :: u8 where "kindAttempt = 2"
definition kindTerminal :: u8 where "kindTerminal = 3"
definition kindDeadLetter :: u8 where "kindDeadLetter = 4"
definition kindDeadLetterDrained :: u8 where "kindDeadLetterDrained = 5"

lemmas kind_defs = kindEnqueue_def kindAttempt_def kindTerminal_def kindDeadLetter_def kindDeadLetterDrained_def

definition headerLen :: nat where "headerLen = 4 + 4 + 1"
definition maxRecordBytes :: nat where "maxRecordBytes = 16 * 2 ^ 20"

definition encode :: "(json \<Rightarrow> bytes) \<Rightarrow> u8 \<Rightarrow> json \<Rightarrow> bytes" where
  "encode render kind v =
     (let body = render v in le32 (of_nat (length body)) @ le32 (crc32 body) @ [kind] @ body)"

datatype read_result = ReadEOF | ReadTorn | ReadRecord u8 bytes bytes

text \<open>\<open>readRecord\<close> on what is left of the file; the third component is what is left after it.\<close>

definition readRecord :: "bytes \<Rightarrow> read_result" where
  "readRecord bs =
     (if bs = [] then ReadEOF
      else if length bs < headerLen then ReadTorn
      else let n = unat (un_le32 bs); sum = un_le32 (drop 4 bs); kind = bs ! 8; r = drop headerLen bs
           in if n > maxRecordBytes then ReadTorn
              else if length r < n then ReadTorn
              else if crc32 (take n r) \<noteq> sum then ReadTorn
              else ReadRecord kind (take n r) (drop n r))"

definition fits :: "bytes \<Rightarrow> bool" where
  "fits body \<longleftrightarrow> length body \<le> maxRecordBytes"

lemma length_encode [simp]: "length (encode render k v) = headerLen + length (render v)"
  by (simp add: encode_def Let_def headerLen_def)

lemma encode_nonempty [simp]: "encode render k v \<noteq> []"
  by (simp add: encode_def Let_def le32_def)

lemma unat_length: "fits body \<Longrightarrow> unat (of_nat (length body) :: u32) = length body"
  by (simp add: fits_def maxRecordBytes_def unat_of_nat)

lemma readRecord_encode [simp]:
  assumes "fits (render v)"
  shows "readRecord (encode render k v @ rest) = ReadRecord k (render v) rest"
proof -
  let ?b = "render v"
  have e: "encode render k v @ rest = le32 (of_nat (length ?b)) @ (le32 (crc32 ?b) @ (k # ?b @ rest))"
    by (simp add: encode_def Let_def)
  have "drop 4 (encode render k v @ rest) = le32 (crc32 ?b) @ (k # ?b @ rest)" unfolding e by simp
  moreover have "(encode render k v @ rest) ! 8 = k" unfolding e by (simp add: nth_append)
  moreover have "drop headerLen (encode render k v @ rest) = ?b @ rest" unfolding e by (simp add: headerLen_def)
  moreover have "un_le32 (encode render k v @ rest) = of_nat (length ?b)" unfolding e by simp
  ultimately show ?thesis using assms unat_length [OF assms]
    by (simp add: readRecord_def Let_def fits_def headerLen_def)
qed

text \<open>A proper prefix of a record, which is what a crash in the middle of a write leaves, is never a record.\<close>

lemma readRecord_torn:
  assumes f: "fits (render v)" and p: "n < length (encode render k v)"
  shows "readRecord (take n (encode render k v)) = (if n = 0 then ReadEOF else ReadTorn)"
proof (cases "n < headerLen")
  case True
  then show ?thesis using p by (simp add: readRecord_def)
next
  case False
  let ?b = "render v" and ?e = "encode render k v"
  have e: "?e = le32 (of_nat (length ?b)) @ (le32 (crc32 ?b) @ (k # ?b))" by (simp add: encode_def Let_def)
  have n: "n = headerLen + (n - headerLen)" using False by simp
  have "take n ?e = le32 (of_nat (length ?b)) @ take (n - 4) (le32 (crc32 ?b) @ (k # ?b))"
    using False unfolding e by (simp add: headerLen_def)
  then have l: "unat (un_le32 (take n ?e)) = length ?b" using unat_length [OF f] by simp
  have "length (drop headerLen (take n ?e)) < length ?b" using p False by simp
  then show ?thesis using l False p by (auto simp: readRecord_def Let_def headerLen_def)
qed

end
