(* ===== verification/Wal.thy ===== *)
theory Wal
  imports WalRecord
begin

text \<open>
  \<open>backend/queue/repo/walfile/wal.go\<close>: the write-ahead log of a queue, one file per slot.  A file is
  its bytes.  What the operating system answers is an argument: how much of a write succeeded, whether a
  flush did.  Replay reads records until the end of the file or the first one that is torn, and cuts the
  file there.  Open files, the periodic flush and the locks are not part of the state; the group commit
  of concurrent appends is the subject of the theory \<open>GroupCommit\<close>.
\<close>

datatype syncMode = SyncAlways | SyncInterval | SyncNever

record wal =
  wsync :: syncMode
  wfiles :: "(u16 \<times> bytes) list"

definition wfile :: "wal \<Rightarrow> u16 \<Rightarrow> bytes" where
  "wfile w i = (case map_of (wfiles w) i of None \<Rightarrow> [] | Some f \<Rightarrow> f)"

subsection \<open>Appending\<close>

text \<open>
  \<open>wrote\<close> is \<open>None\<close> when the write went through and \<open>Some n\<close> when it failed after \<open>n\<close> bytes; \<open>flushed\<close> is the
  answer of the flush.  The result is true when no error is returned.
\<close>

definition append_wal :: "(json \<Rightarrow> bytes) \<Rightarrow> wal \<Rightarrow> u16 \<Rightarrow> u8 \<Rightarrow> json \<Rightarrow> bool \<Rightarrow> nat option \<Rightarrow> bool \<Rightarrow> wal \<times> bool" where
  "append_wal render w i kind v durable wrote flushed =
     (let buf = encode render kind v
      in case wrote of
           Some n \<Rightarrow> (w\<lparr>wfiles := AList.update i (wfile w i @ take n buf) (wfiles w)\<rparr>, False)
         | None \<Rightarrow>
             (let w = w\<lparr>wfiles := AList.update i (wfile w i @ buf) (wfiles w)\<rparr>
              in if \<not> durable \<or> wsync w \<noteq> SyncAlways then (w, True) else (w, flushed)))"

definition AppendEnqueue_wal :: "(json \<Rightarrow> bytes) \<Rightarrow> wal \<Rightarrow> u16 \<Rightarrow> message \<Rightarrow> nat option \<Rightarrow> bool \<Rightarrow> wal \<times> bool" where
  "AppendEnqueue_wal render w i m wrote flushed =
     append_wal render w i kindEnqueue (enqueue_json (payloadFromMessage m)) True wrote flushed"

definition AppendAttempt_wal :: "(json \<Rightarrow> bytes) \<Rightarrow> wal \<Rightarrow> u16 \<Rightarrow> string \<Rightarrow> u32 \<Rightarrow> u64 \<Rightarrow> nat option \<Rightarrow> wal" where
  "AppendAttempt_wal render w i k n e wrote =
     fst (append_wal render w i kindAttempt (attempt_json \<lparr>a_ID = k, a_Attempts = n, a_Epoch = e\<rparr>) False wrote True)"

definition AppendTerminal_wal :: "(json \<Rightarrow> bytes) \<Rightarrow> wal \<Rightarrow> u16 \<Rightarrow> string \<Rightarrow> u8 \<Rightarrow> nat option \<Rightarrow> wal" where
  "AppendTerminal_wal render w i k kd wrote =
     fst (append_wal render w i kindTerminal (terminal_json \<lparr>t_ID = k, t_Kind = kd\<rparr>) False wrote True)"

subsection \<open>Replay\<close>

record replay =
  rlive :: "(string \<times> message) list"
  rorder :: "string list"
  rgood :: nat

definition no_replay :: replay where
  "no_replay = \<lparr>rlive = [], rorder = [], rgood = 0\<rparr>"

text \<open>One record; \<open>None\<close> when its body does not parse.\<close>

definition apply_record :: "(bytes \<Rightarrow> json option) \<Rightarrow> u8 \<Rightarrow> bytes \<Rightarrow> replay \<Rightarrow> replay option" where
  "apply_record parse kind body st =
     (if kind = kindEnqueue then do {
        j \<leftarrow> parse body; p \<leftarrow> enqueue_unjson j;
        Some (st\<lparr>rorder := (if map_of (rlive st) (p_ID p) = None then rorder st @ [p_ID p] else rorder st),
                 rlive := AList.update (p_ID p) (messageFromPayload p) (rlive st)\<rparr>) }
      else if kind = kindAttempt then do {
        j \<leftarrow> parse body; p \<leftarrow> attempt_unjson j;
        Some (case map_of (rlive st) (a_ID p) of
                None \<Rightarrow> st
              | Some m \<Rightarrow> st\<lparr>rlive := AList.update (a_ID p) (m\<lparr>Attempts := a_Attempts p\<rparr>) (rlive st)\<rparr>) }
      else if kind = kindTerminal then do {
        j \<leftarrow> parse body; p \<leftarrow> terminal_unjson j;
        Some (st\<lparr>rlive := AList.delete (t_ID p) (rlive st)\<rparr>) }
      else Some st)"

lemma readRecord_shorter: "readRecord bs = ReadRecord k body rest \<Longrightarrow> length rest < length bs"
  by (auto simp: readRecord_def Let_def headerLen_def split: if_splits)

text \<open>The second component of the result says that the loop ended at a torn record.\<close>

function replay_loop :: "(bytes \<Rightarrow> json option) \<Rightarrow> bytes \<Rightarrow> replay \<Rightarrow> (replay \<times> bool) option" where
  "replay_loop parse bs st =
     (case readRecord bs of
        ReadEOF \<Rightarrow> Some (st, False)
      | ReadTorn \<Rightarrow> Some (st, True)
      | ReadRecord kind body rest \<Rightarrow>
          (case apply_record parse kind body (st\<lparr>rgood := rgood st + (headerLen + length body)\<rparr>) of
             None \<Rightarrow> None
           | Some st \<Rightarrow> replay_loop parse rest st))"
  by pat_completeness auto
termination
  by (relation "measure (\<lambda>(parse, bs, st). length bs)") (auto dest: readRecord_shorter)

declare replay_loop.simps [simp del]

definition replayed :: "replay \<Rightarrow> message list" where
  "replayed st = map (\<lambda>i. the (map_of (rlive st) i)) (filter (\<lambda>i. map_of (rlive st) i \<noteq> None) (rorder st))"

text \<open>The messages a slot's file holds, and the file afterwards.\<close>

definition replaySlot :: "(bytes \<Rightarrow> json option) \<Rightarrow> bytes \<Rightarrow> (message list \<times> bytes) option" where
  "replaySlot parse file =
     (case replay_loop parse file no_replay of
        None \<Rightarrow> None
      | Some (st, torn) \<Rightarrow> Some (replayed st, if torn then take (rgood st) file else file))"

text \<open>\<open>Replay\<close> stops at the first slot it cannot read; slots with nothing left are not in the result.\<close>

fun replay_files :: "(bytes \<Rightarrow> json option) \<Rightarrow> wal \<Rightarrow> (u16 \<times> bytes) list \<Rightarrow> (u16 \<times> message list) list \<Rightarrow> wal \<times> (u16 \<times> message list) list option" where
  "replay_files parse w [] out = (w, Some out)"
| "replay_files parse w ((i, f) # fs) out =
     (case replaySlot parse f of
        None \<Rightarrow> (w, None)
      | Some (ms, f') \<Rightarrow>
          replay_files parse (w\<lparr>wfiles := AList.update i f' (wfiles w)\<rparr>) fs (if length ms > 0 then out @ [(i, ms)] else out))"

definition Replay :: "(bytes \<Rightarrow> json option) \<Rightarrow> wal \<Rightarrow> wal \<times> (u16 \<times> message list) list option" where
  "Replay parse w = replay_files parse w (wfiles w) []"

subsection \<open>Compaction\<close>

definition Marks :: "wal \<Rightarrow> (u16 \<times> nat) list" where
  "Marks w = map (\<lambda>(i, f). (i, length f)) (wfiles w)"

definition copyTail :: "bytes \<Rightarrow> nat \<Rightarrow> bytes" where
  "copyTail src from = (if length src \<le> from then [] else drop from src)"

definition compact_one :: "(json \<Rightarrow> bytes) \<Rightarrow> message \<Rightarrow> bytes" where
  "compact_one render m =
     encode render kindEnqueue (enqueue_json (payloadFromMessage m))
     @ (if Attempts m > 0 then encode render kindAttempt (attempt_json \<lparr>a_ID = ID m, a_Attempts = Attempts m, a_Epoch = 0\<rparr>)
        else [])"

definition Compact :: "(json \<Rightarrow> bytes) \<Rightarrow> wal \<Rightarrow> u16 \<Rightarrow> message list \<Rightarrow> nat \<Rightarrow> wal" where
  "Compact render w i ms from =
     w\<lparr>wfiles := AList.update i (concat (map (compact_one render) ms) @ copyTail (wfile w i) from) (wfiles w)\<rparr>"

definition Drop_wal :: "wal \<Rightarrow> u16 \<Rightarrow> wal" where
  "Drop_wal w i = w\<lparr>wfiles := AList.delete i (wfiles w)\<rparr>"

subsection \<open>What a log means\<close>

text \<open>The contents of a log as operations, and the messages they leave behind.\<close>

datatype wop = WEnq message | WAtt string u32 u64 | WTerm string u8

fun op_kind :: "wop \<Rightarrow> u8" where
  "op_kind (WEnq m) = kindEnqueue"
| "op_kind (WAtt i n e) = kindAttempt"
| "op_kind (WTerm i k) = kindTerminal"

fun op_json :: "wop \<Rightarrow> json" where
  "op_json (WEnq m) = enqueue_json (payloadFromMessage m)"
| "op_json (WAtt i n e) = attempt_json \<lparr>a_ID = i, a_Attempts = n, a_Epoch = e\<rparr>"
| "op_json (WTerm i k) = terminal_json \<lparr>t_ID = i, t_Kind = k\<rparr>"

definition op_bytes :: "(json \<Rightarrow> bytes) \<Rightarrow> wop \<Rightarrow> bytes" where
  "op_bytes render p = encode render (op_kind p) (op_json p)"

definition log_bytes :: "(json \<Rightarrow> bytes) \<Rightarrow> wop list \<Rightarrow> bytes" where
  "log_bytes render ps = concat (map (op_bytes render) ps)"

fun wstep :: "wop \<Rightarrow> (string \<Rightarrow> message option) \<Rightarrow> (string \<Rightarrow> message option)" where
  "wstep (WEnq m) f = f(ID m \<mapsto> m\<lparr>Attempts := 0\<rparr>)"
| "wstep (WAtt i n e) f = (case f i of None \<Rightarrow> f | Some m \<Rightarrow> f(i \<mapsto> m\<lparr>Attempts := n\<rparr>))"
| "wstep (WTerm i k) f = f(i := None)"

definition wlive :: "wop list \<Rightarrow> string \<Rightarrow> message option" where
  "wlive ps = fold wstep ps Map.empty"

definition all_fit :: "(json \<Rightarrow> bytes) \<Rightarrow> wop list \<Rightarrow> bool" where
  "all_fit render ps \<longleftrightarrow> (\<forall>p \<in> set ps. fits (render (op_json p)))"

lemma log_bytes_simps [simp]:
  "log_bytes render [] = []" "log_bytes render (p # ps) = op_bytes render p @ log_bytes render ps"
  "log_bytes render (ps @ qs) = log_bytes render ps @ log_bytes render qs"
  by (simp_all add: log_bytes_def)

lemma all_fit_simps [simp]:
  "all_fit render []" "all_fit render (p # ps) = (fits (render (op_json p)) \<and> all_fit render ps)"
  "all_fit render (ps @ qs) = (all_fit render ps \<and> all_fit render qs)"
  by (auto simp: all_fit_def)

text \<open>One record in the replay is one operation.\<close>

fun apply_op :: "wop \<Rightarrow> replay \<Rightarrow> replay" where
  "apply_op (WEnq m) st = st\<lparr>rorder := (if map_of (rlive st) (ID m) = None then rorder st @ [ID m] else rorder st),
     rlive := AList.update (ID m) (m\<lparr>Attempts := 0\<rparr>) (rlive st)\<rparr>"
| "apply_op (WAtt i n e) st = (case map_of (rlive st) i of None \<Rightarrow> st
     | Some m \<Rightarrow> st\<lparr>rlive := AList.update i (m\<lparr>Attempts := n\<rparr>) (rlive st)\<rparr>)"
| "apply_op (WTerm i k) st = st\<lparr>rlive := AList.delete i (rlive st)\<rparr>"

lemma apply_record_op:
  "json_text render parse \<Longrightarrow> apply_record parse (op_kind p) (render (op_json p)) st = Some (apply_op p st)"
  by (cases p) (auto simp: apply_record_def json_text_def kind_defs split: option.split)

lemma rgood_apply_op [simp]: "rgood (apply_op p st) = rgood st"
  by (cases p) (auto split: option.split)

lemma apply_op_good: "apply_op p (st\<lparr>rgood := g\<rparr>) = (apply_op p st)\<lparr>rgood := g\<rparr>"
  by (cases p) (auto split: option.split)

lemma fold_op_good: "fold apply_op ps (st\<lparr>rgood := g\<rparr>) = (fold apply_op ps st)\<lparr>rgood := g\<rparr>"
  by (induction ps arbitrary: st) (simp_all add: apply_op_good)

lemma replay_loop_log:
  assumes j: "json_text render parse" and f: "all_fit render ps"
  shows "replay_loop parse (log_bytes render ps @ rest) st =
    replay_loop parse rest ((fold apply_op ps st)\<lparr>rgood := rgood st + length (log_bytes render ps)\<rparr>)"
  using f
proof (induction ps arbitrary: st)
  case Nil
  then show ?case by simp
next
  case (Cons p ps)
  let ?b = "render (op_json p)"
  let ?st = "st\<lparr>rgood := rgood st + (headerLen + length ?b)\<rparr>"
  have "readRecord (op_bytes render p @ (log_bytes render ps @ rest)) = ReadRecord (op_kind p) ?b (log_bytes render ps @ rest)"
    using Cons.prems by (simp add: op_bytes_def)
  then have "replay_loop parse (log_bytes render (p # ps) @ rest) st = replay_loop parse (log_bytes render ps @ rest) (apply_op p ?st)"
    using apply_record_op [OF j, of p ?st] by (subst replay_loop.simps) simp
  also have "\<dots> = replay_loop parse rest ((fold apply_op ps (apply_op p ?st))\<lparr>rgood := rgood (apply_op p ?st) + length (log_bytes render ps)\<rparr>)"
    using Cons by simp
  also have "(fold apply_op ps (apply_op p ?st))\<lparr>rgood := rgood (apply_op p ?st) + length (log_bytes render ps)\<rparr>
      = (fold apply_op (p # ps) st)\<lparr>rgood := rgood st + length (log_bytes render (p # ps))\<rparr>"
    by (simp add: apply_op_good fold_op_good op_bytes_def)
  finally show ?case .
qed

text \<open>The live map of the replay is the meaning of the log, and every live message is in the order.\<close>

definition replay_ok :: "replay \<Rightarrow> (string \<Rightarrow> message option) \<Rightarrow> bool" where
  "replay_ok st f \<longleftrightarrow> map_of (rlive st) = f \<and> dom f \<subseteq> set (rorder st)"

lemma replay_ok_step: "replay_ok st f \<Longrightarrow> replay_ok (apply_op p st) (wstep p f)"
  by (cases p) (auto simp: replay_ok_def fun_eq_iff split: option.split if_splits)

lemma replay_ok_fold: "replay_ok st f \<Longrightarrow> replay_ok (fold apply_op ps st) (fold wstep ps f)"
  by (induction ps arbitrary: st f) (auto dest: replay_ok_step)

lemma replay_ok_log: "replay_ok ((fold apply_op ps no_replay)\<lparr>rgood := g\<rparr>) (wlive ps)"
proof -
  have "replay_ok no_replay Map.empty" by (simp add: replay_ok_def no_replay_def)
  from replay_ok_fold [OF this, of ps] show ?thesis by (simp add: replay_ok_def wlive_def)
qed

lemma set_replayed: "replay_ok st f \<Longrightarrow> set (replayed st) = ran f"
  by (force simp: replay_ok_def replayed_def ran_def dom_def)

definition replay_state :: "wop list \<Rightarrow> nat \<Rightarrow> replay" where
  "replay_state ps g = (fold apply_op ps no_replay)\<lparr>rgood := g\<rparr>"

lemma replaySlot_log:
  assumes j: "json_text render parse" and f: "all_fit render ps"
  shows "replaySlot parse (log_bytes render ps) = Some (replayed (replay_state ps (length (log_bytes render ps))), log_bytes render ps)"
  using replay_loop_log [OF j f, of "[]" no_replay]
  by (simp add: replaySlot_def replay_loop.simps [of parse "[]"] readRecord_def replay_state_def no_replay_def)

lemma replaySlot_torn:
  assumes j: "json_text render parse" and f: "all_fit render (ps @ [p])" and n: "0 < n" "n < length (op_bytes render p)"
  shows "replaySlot parse (log_bytes render ps @ take n (op_bytes render p))
    = Some (replayed (replay_state ps (length (log_bytes render ps))), log_bytes render ps)"
proof -
  have "readRecord (take n (op_bytes render p)) = ReadTorn"
    using readRecord_torn [of render "op_json p" n "op_kind p"] f n by (simp add: op_bytes_def)
  then have "replay_loop parse (take n (op_bytes render p)) st = Some (st, True)" for st
    by (subst replay_loop.simps) simp
  then show ?thesis using replay_loop_log [OF j, of ps "take n (op_bytes render p)" no_replay] f
    by (simp add: replaySlot_def replay_state_def no_replay_def)
qed

lemma replayed_live: "set (replayed (replay_state ps g)) = ran (wlive ps)"
  using set_replayed [OF replay_ok_log [where ps = ps and g = g]] by (simp add: replay_state_def)

end
