(* ===== verification/WalProps.thy ===== *)
theory WalProps
  imports Wal "HOL-Library.Countable"
begin

text \<open>
  What the write-ahead log promises: recovery after a crash in the middle of a write, compaction that
  forgets nothing, and the two ways in which it falls short.
\<close>

subsection \<open>A rendering for the examples\<close>

instance json :: countable
  by countable_datatype

text \<open>Short texts for the objects of \<open>js\<close>, numbered texts for all others.\<close>

definition demo_render :: "json list \<Rightarrow> json \<Rightarrow> bytes" where
  "demo_render js j = (if j \<in> set js then 0 # replicate (length (takeWhile (\<lambda>x. x \<noteq> j) js)) 0 else 1 # replicate (to_nat j) 0)"

definition demo_parse :: "json list \<Rightarrow> bytes \<Rightarrow> json option" where
  "demo_parse js bs = (case bs of [] \<Rightarrow> None
     | b # r \<Rightarrow> if b = 0 then (if length r < length js then Some (js ! length r) else None) else Some (from_nat (length r)))"

lemma demo_json_text: "json_text (demo_render js) (demo_parse js)"
proof -
  have "js ! length (takeWhile (\<lambda>x. x \<noteq> j) js) = j \<and> length (takeWhile (\<lambda>x. x \<noteq> j) js) < length js" if "j \<in> set js" for j
    using that by (induction js) auto
  then show ?thesis by (auto simp: json_text_def demo_render_def demo_parse_def)
qed

lemma demo_fits: "j \<in> set js \<Longrightarrow> length js < 1000 \<Longrightarrow> fits (demo_render js j)"
  using length_takeWhile_le [of "\<lambda>x. x \<noteq> j" js] by (simp add: demo_render_def fits_def maxRecordBytes_def)

subsection \<open>Recovery\<close>


definition demo_msg :: message where
  "demo_msg = \<lparr>ID = ''a'', Payload = [1], Priority = 50, GroupID = [], Seq = 1, EnqueuedAt = 1, ExpiresAt = 0, DeliverAfter = 0, Attempts = 0\<rparr>"

definition demo_js :: "json list" where
  "demo_js = [op_json (WEnq demo_msg), op_json (WTerm ''a'' 0)]"


subsection \<open>Compaction\<close>

text \<open>Replaying a stretch of log over its own result changes nothing.\<close>

fun only_att :: "string \<Rightarrow> wop \<Rightarrow> bool" where
  "only_att k (WEnq m) = (ID m \<noteq> k)"
| "only_att k (WAtt i n e) = True"
| "only_att k (WTerm i kd) = (i \<noteq> k)"

lemma wstep_cong:
  assumes "g k = f k"
  shows "wstep p g k = wstep p f k"
proof (cases p)
  case (WAtt i n e)
  then show ?thesis using assms by (cases "i = k"; cases "f i"; cases "g i") simp_all
qed (use assms in simp_all)

lemma fold_wstep_cong: "g k = f k \<Longrightarrow> fold wstep ps g k = fold wstep ps f k"
proof (induction ps arbitrary: g f)
  case (Cons p ps)
  show ?case unfolding fold_simps comp_apply by (rule Cons.IH, rule wstep_cong, rule Cons.prems)
qed simp

lemma fold_wstep_const: "\<exists>p \<in> set ps. \<not> only_att k p \<Longrightarrow> fold wstep ps g k = fold wstep ps f k"
proof (induction ps arbitrary: g f)
  case (Cons p ps)
  show ?case
  proof (cases "only_att k p")
    case True
    then have "\<exists>p \<in> set ps. \<not> only_att k p" using Cons.prems by simp
    from Cons.IH [OF this] show ?thesis unfolding fold_simps comp_apply .
  next
    case False
    then have "wstep p g k = wstep p f k" by (cases p) auto
    then show ?thesis using fold_wstep_cong [of "wstep p g" k "wstep p f" ps] by simp
  qed
qed simp

text \<open>A message only attempts were recorded for: the last count stands, whatever it was before.\<close>

fun last_att :: "string \<Rightarrow> wop list \<Rightarrow> u32 option \<Rightarrow> u32 option" where
  "last_att k [] a = a"
| "last_att k (WAtt i n e # ps) a = last_att k ps (if i = k then Some n else a)"
| "last_att k (_ # ps) a = last_att k ps a"

definition with_att :: "u32 option \<Rightarrow> message \<Rightarrow> message" where
  "with_att a m = (case a of None \<Rightarrow> m | Some n \<Rightarrow> m\<lparr>Attempts := n\<rparr>)"

lemma with_att_twice: "with_att a (with_att a m) = with_att a m"
  by (simp add: with_att_def split: option.split)

lemma fold_att:
  "\<forall>p \<in> set ps. only_att k p \<Longrightarrow> f k = map_option (with_att a) m \<Longrightarrow> fold wstep ps f k = map_option (with_att (last_att k ps a)) m"
proof (induction ps arbitrary: f a)
  case (Cons p ps)
  show ?case
  proof (cases p)
    case (WAtt i n e)
    have "wstep p f k = map_option (with_att (if i = k then Some n else a)) m"
      using Cons.prems WAtt by (cases m) (auto simp: with_att_def split: option.splits)
    then show ?thesis using Cons WAtt by simp
  qed (use Cons in auto)
qed simp

lemma fold_wstep_idem: "fold wstep ps (fold wstep ps f) = fold wstep ps f"
proof
  fix k
  show "fold wstep ps (fold wstep ps f) k = fold wstep ps f k"
  proof (cases "\<exists>p \<in> set ps. \<not> only_att k p")
    case True
    then show ?thesis by (rule fold_wstep_const)
  next
    case False
    then have a: "\<forall>p \<in> set ps. only_att k p" by blast
    have id: "with_att None = id" by (simp add: with_att_def fun_eq_iff)
    let ?g = "fold wstep ps f"
    have 1: "?g k = map_option (with_att (last_att k ps None)) (f k)"
      by (rule fold_att [OF a]) (simp add: id option.map_id)
    have "fold wstep ps ?g k = map_option (with_att (last_att k ps None)) (?g k)"
      by (rule fold_att [OF a]) (simp add: id option.map_id)
    then show ?thesis unfolding 1 by (simp add: option.map_comp comp_def with_att_twice)
  qed
qed

text \<open>A snapshot as operations: each message once, with its attempts if it has any.\<close>

definition snapshot_ops :: "message list \<Rightarrow> wop list" where
  "snapshot_ops ms = concat (map (\<lambda>m. WEnq m # (if Attempts m > 0 then [WAtt (ID m) (Attempts m) 0] else [])) ms)"

lemma snapshot_bytes: "concat (map (compact_one render) ms) = log_bytes render (snapshot_ops ms)"
  by (induction ms) (simp_all add: snapshot_ops_def compact_one_def op_bytes_def)

lemma snapshot_live:
  "distinct (map ID ms) \<Longrightarrow> fold wstep (snapshot_ops ms) f = f ++ map_of (map (\<lambda>m. (ID m, m)) ms)"
proof (induction ms arbitrary: f)
  case (Cons m ms)
  have "fold wstep (WEnq m # (if Attempts m > 0 then [WAtt (ID m) (Attempts m) 0] else [])) f = f(ID m \<mapsto> m)"
  proof (cases "Attempts m > 0")
    case False
    then have "Attempts m = 0" by (simp add: word_gt_0)
    then have "m\<lparr>Attempts := 0\<rparr> = m" by simp
    then show ?thesis using False by simp
  qed simp
  then have "fold wstep (snapshot_ops (m # ms)) f = fold wstep (snapshot_ops ms) (f(ID m \<mapsto> m))"
    by (simp add: snapshot_ops_def)
  also have "\<dots> = f(ID m \<mapsto> m) ++ map_of (map (\<lambda>m. (ID m, m)) ms)" using Cons by simp
  also have "\<dots> = f ++ map_of (map (\<lambda>m. (ID m, m)) (m # ms))"
  proof -
    have "map_of (map (\<lambda>m. (ID m, m)) ms) (ID m) = None"
      using Cons.prems by (auto simp: map_of_eq_None_iff)
    then show ?thesis by (auto simp: map_add_def fun_eq_iff split: option.split)
  qed
  finally show ?case .
qed (simp add: snapshot_ops_def)



subsection \<open>Where the log falls short\<close>

text \<open>Replay can return a message twice. A log in which a message is written, ended and written again, as
  when a slot comes back to a node that still has its old log, replays to two copies of it.\<close>

theorem replay_duplicates:
  "\<exists>render parse. json_text render parse \<and>
    map_option fst (replaySlot parse (log_bytes render [WEnq demo_msg, WTerm ''a'' 0, WEnq demo_msg])) = Some [demo_msg, demo_msg]"
proof (intro exI conjI)
  show "json_text (demo_render demo_js) (demo_parse demo_js)" by (rule demo_json_text)
  have "all_fit (demo_render demo_js) [WEnq demo_msg, WTerm ''a'' 0, WEnq demo_msg]"
    by (simp add: demo_fits demo_js_def del: op_json.simps)
  from replaySlot_log [OF demo_json_text this]
  show "map_option fst (replaySlot (demo_parse demo_js) (log_bytes (demo_render demo_js) [WEnq demo_msg, WTerm ''a'' 0, WEnq demo_msg]))
    = Some [demo_msg, demo_msg]"
    by (simp add: replayed_def replay_state_def no_replay_def demo_msg_def)
qed

text \<open>C13: A write that fails half way makes later, successful appends unrecoverable. An append of which
  only part reached the file reports an error, but the part stays; an append after it succeeds, is
  flushed and reported durable, and the next replay loses it.\<close>

theorem partial_write_loses_later:
  "\<exists>render parse w w1 w2. json_text render parse \<and>
    AppendEnqueue_wal render w 0 demo_msg (Some 3) True = (w1, False) \<and>
    AppendEnqueue_wal render w1 0 demo_msg None True = (w2, True) \<and>
    map_option fst (replaySlot parse (wfile w2 0)) = Some []"
proof -
  let ?r = "demo_render demo_js" and ?p = "demo_parse demo_js"
  let ?w = "\<lparr>wsync = SyncAlways, wfiles = []\<rparr>"
  let ?e = "encode ?r kindEnqueue (enqueue_json (payloadFromMessage demo_msg))"
  let ?w1 = "\<lparr>wsync = SyncAlways, wfiles = [(0, take 3 ?e)]\<rparr>" and ?w2 = "\<lparr>wsync = SyncAlways, wfiles = [(0, take 3 ?e @ ?e)]\<rparr>"
  have r: "?r (enqueue_json (payloadFromMessage demo_msg)) = [0]" by (simp add: demo_render_def demo_js_def)
  have e: "?e = [1, 0, 0, 0] @ le32 (crc32 [0]) @ [1, 0]"
    by (simp add: encode_def Let_def r le32_def kindEnqueue_def)
  have l: "un_le32 (take 3 ?e @ ?e) = 16777217" unfolding e by (simp add: un_le32_def)
  have "readRecord (take 3 ?e @ ?e) = ReadTorn"
    using l by (simp add: readRecord_def Let_def maxRecordBytes_def headerLen_def) 
  then have "replay_loop ?p (take 3 ?e @ ?e) no_replay = Some (no_replay, True)" by (subst replay_loop.simps) simp
  then have "map_option fst (replaySlot ?p (wfile ?w2 0)) = Some []"
    by (simp add: replaySlot_def wfile_def replayed_def no_replay_def)
  moreover have "AppendEnqueue_wal ?r ?w 0 demo_msg (Some 3) True = (?w1, False)" "AppendEnqueue_wal ?r ?w1 0 demo_msg None True = (?w2, True)"
    by (simp_all add: AppendEnqueue_wal_def append_wal_def Let_def wfile_def)
  ultimately show ?thesis using demo_json_text by blast
qed

end
