(* ===== verification/Errors.thy ===== *)
theory Errors
  imports Message
begin

text \<open>
  The errors of the two services: \<open>backend/queue/entity/enterr/errors.go\<close> and
  \<open>backend/gateway/entity/enterr/errors.go\<close> (the same type in two packages), the strings of the
  engine's errors, and how an error crosses the network: a node maps its code to a gRPC status
  (\<open>toStatus\<close>, \<open>backend/queue/controller/grpc-server.go\<close>), a gateway maps the status back
  (\<open>fromStatus\<close>, \<open>backend/gateway/repo/nodegrpc/nodegrpc.go\<close>).
\<close>

datatype code = CodeInvalid | CodeNotFound | CodeConflict | CodeExhausted | CodeMoved | CodeInternal

definition code_string :: "code \<Rightarrow> string" where
  "code_string c = (case c of CodeInvalid \<Rightarrow> ''invalid'' | CodeNotFound \<Rightarrow> ''not_found'' | CodeConflict \<Rightarrow> ''conflict''
     | CodeExhausted \<Rightarrow> ''exhausted'' | CodeMoved \<Rightarrow> ''moved'' | CodeInternal \<Rightarrow> ''internal'')"

text \<open>An \<open>error\<close> value: one of the package's, or any other with its text.\<close>

record enterr =
  Code :: code
  Message :: string
  Detail :: string

datatype err = Coded enterr | Plain string

definition error_string :: "enterr \<Rightarrow> string" where
  "error_string e =
     (if Detail e \<noteq> [] then code_string (Code e) @ '': '' @ Message e @ '': '' @ Detail e
      else code_string (Code e) @ '': '' @ Message e)"

fun Error :: "err \<Rightarrow> string" where
  "Error (Coded e) = error_string e"
| "Error (Plain s) = s"

definition New_error :: "code \<Rightarrow> string \<Rightarrow> err" where
  "New_error c msg = Coded \<lparr>Code = c, Message = msg, Detail = []\<rparr>"

definition Wrap :: "code \<Rightarrow> string \<Rightarrow> err \<Rightarrow> err" where
  "Wrap c msg e = Coded \<lparr>Code = c, Message = msg, Detail = Error e\<rparr>"

definition Invalid :: "string \<Rightarrow> err" where
  "Invalid msg = New_error CodeInvalid msg"

definition NotFound :: "string \<Rightarrow> err" where
  "NotFound what = New_error CodeNotFound (what @ '' not found'')"

definition Internal :: "string \<Rightarrow> err \<Rightarrow> err" where
  "Internal msg e = Wrap CodeInternal msg e"

definition Moved :: "string \<Rightarrow> err" where
  "Moved owner = Coded \<lparr>Code = CodeMoved, Message = ''queue moved'', Detail = owner\<rparr>"

fun CodeOf :: "err \<Rightarrow> code" where
  "CodeOf (Coded e) = Code e"
| "CodeOf (Plain _) = CodeInternal"

lemma CodeOf_simps [simp]:
  "CodeOf (New_error c msg) = c" "CodeOf (Wrap c msg e) = c" "CodeOf (Invalid msg) = CodeInvalid"
  "CodeOf (NotFound what) = CodeNotFound" "CodeOf (Internal msg e) = CodeInternal" "CodeOf (Moved owner) = CodeMoved"
  by (simp_all add: New_error_def Wrap_def Invalid_def NotFound_def Internal_def Moved_def)

text \<open>The engine's errors as text; \<open>ErrJournal\<close> stands for whatever the journal answered.\<close>

definition engine_err :: "engine_error \<Rightarrow> err" where
  "engine_err e = Plain (case e of
       ErrNotInFlight \<Rightarrow> ''engine: message not in flight''
     | ErrLeaseExpired \<Rightarrow> ''engine: lease expired, message was redelivered''
     | ErrBadPriority \<Rightarrow> ''engine: priority out of range''
     | ErrQueueFull \<Rightarrow> ''engine: queue at max depth''
     | ErrFrozen \<Rightarrow> ''engine: queue is frozen''
     | ErrBadSlot \<Rightarrow> ''engine: slot out of range''
     | ErrJournal \<Rightarrow> ''journal'')"

subsection \<open>Errors on the wire\<close>

text \<open>The gRPC codes the two sides name; the others behave like \<open>Unknown\<close>.\<close>

datatype grpc_code = C_OK | C_InvalidArgument | C_NotFound | C_FailedPrecondition | C_ResourceExhausted | C_Aborted
  | C_Internal | C_Unavailable | C_DeadlineExceeded | C_Unknown

record grpc_status =
  st_code :: grpc_code
  st_msg :: string

definition toStatus :: "err \<Rightarrow> grpc_status" where
  "toStatus e = \<lparr>st_code = (case CodeOf e of CodeInvalid \<Rightarrow> C_InvalidArgument | CodeNotFound \<Rightarrow> C_NotFound
       | CodeConflict \<Rightarrow> C_FailedPrecondition | CodeExhausted \<Rightarrow> C_ResourceExhausted | CodeMoved \<Rightarrow> C_Aborted
       | CodeInternal \<Rightarrow> C_Internal), st_msg = Error e\<rparr>"

text \<open>What a call can end with at the gateway: an error that is not a status, or a status.\<close>

datatype call_err = NotStatus string | Status grpc_status

definition fromStatus :: "call_err \<Rightarrow> err" where
  "fromStatus e =
     (case e of
        NotStatus s \<Rightarrow> Wrap CodeInternal ''node call'' (Plain s)
      | Status st \<Rightarrow> (case st_code st of
            C_InvalidArgument \<Rightarrow> New_error CodeInvalid (st_msg st)
          | C_NotFound \<Rightarrow> New_error CodeNotFound (st_msg st)
          | C_FailedPrecondition \<Rightarrow> New_error CodeConflict (st_msg st)
          | C_ResourceExhausted \<Rightarrow> New_error CodeExhausted (st_msg st)
          | C_Aborted \<Rightarrow> New_error CodeMoved (st_msg st)
          | C_Unavailable \<Rightarrow> New_error CodeExhausted (''node unreachable: '' @ st_msg st)
          | C_DeadlineExceeded \<Rightarrow> New_error CodeExhausted (''node unreachable: '' @ st_msg st)
          | _ \<Rightarrow> New_error CodeInternal (st_msg st)))"

text \<open>The gateway acts on the code the node returned.\<close>

lemma CodeOf_fromStatus [simp]: "CodeOf (fromStatus (Status (toStatus e))) = CodeOf e"
  by (simp add: fromStatus_def toStatus_def split: code.split)

end
