(* ===== verification/Entity.thy ===== *)
theory Entity
  imports Errors Sweep
begin

text \<open>
  The types a node's operations take and return, \<open>backend/queue/entity/req-queue.go\<close>, with the
  conversions of that file (\<open>Key\<close>, \<open>EngineConfig\<close>, \<open>ToWire\<close>, \<open>FromWire\<close>) and \<open>toStats\<close> of
  \<open>backend/queue/logic/stats-logic.go\<close>.  The gateway declares the same types again in
  \<open>backend/gateway/entity/repo-node.go\<close>, field by field; they are synonyms here.  A pointer that may be
  nil is an option, a Go map an association list, a \<open>[3]int64\<close> a list of three.
\<close>

record queueSpec =
  sp_Org :: string
  sp_Name :: string
  sp_VisibilityTimeout :: duration
  sp_MaxRetries :: u32
  sp_DefaultTTL :: duration
  sp_StarvationThreshold :: duration
  sp_StarvationReserve :: rat
  sp_StarvationAvoidanceEnabled :: bool
  sp_MaxDepth :: int
  sp_Distributed :: bool
  sp_HasDeadLetter :: bool
  sp_Generation :: u64

definition no_spec :: queueSpec where
  "no_spec = \<lparr>sp_Org = [], sp_Name = [], sp_VisibilityTimeout = 0, sp_MaxRetries = 0, sp_DefaultTTL = 0,
     sp_StarvationThreshold = 0, sp_StarvationReserve = 0, sp_StarvationAvoidanceEnabled = False, sp_MaxDepth = 0,
     sp_Distributed = False, sp_HasDeadLetter = False, sp_Generation = 0\<rparr>"

definition spec_Key :: "queueSpec \<Rightarrow> queueKey" where
  "spec_Key s = \<lparr>Org = sp_Org s, Name = sp_Name s\<rparr>"

definition EngineConfig :: "queueSpec \<Rightarrow> config" where
  "EngineConfig s = \<lparr>Key = spec_Key s, VisibilityTimeout = sp_VisibilityTimeout s, MaxRetries = sp_MaxRetries s,
     MaxRetriesSet = True, DefaultTTL = sp_DefaultTTL s, StarvationThreshold = sp_StarvationThreshold s,
     StarvationReserve = sp_StarvationReserve s, StarvationAvoidanceEnabled = sp_StarvationAvoidanceEnabled s,
     MaxDepth = sp_MaxDepth s, Distributed = sp_Distributed s, HasDeadLetter = sp_HasDeadLetter s\<rparr>"

record enqueueRequest =
  er_Spec :: queueSpec
  er_Slot :: "u16 option"
  er_Payload :: bytes
  er_Priority :: u8
  er_GroupID :: string
  er_TTL :: duration
  er_DeliverAfter :: duration

record enqueueResponse =
  es_MessageID :: string
  es_Slot :: u16
  es_Seq :: u64

record dequeueRequest =
  dr_Spec :: queueSpec
  dr_MaxMessages :: int

record deliveredMessage =
  dm_MessageID :: string
  dm_Payload :: bytes
  dm_Priority :: u8
  dm_GroupID :: string
  dm_Attempts :: u32
  dm_EnqueuedAt :: time
  dm_Receipt :: string

record ackRequest =
  ar_Spec :: queueSpec
  ar_Receipt :: string

record nackRequest =
  nr_Spec :: queueSpec
  nr_Receipt :: string
  nr_Delay :: duration

record queueStats =
  qs_Org :: string
  qs_Name :: string
  qs_Ready :: "int list"
  qs_InFlight :: int
  qs_Delayed :: int
  qs_OldestAge :: duration
  qs_TopReady :: int
  qs_Enqueued :: nat
  qs_Acked :: nat
  qs_Expired :: nat
  qs_Requeued :: nat
  qs_DeadLettered :: nat
  qs_Escapes :: nat

definition toStats :: "queueKey \<Rightarrow> stats \<Rightarrow> queueStats" where
  "toStats k s = \<lparr>qs_Org = Org k, qs_Name = Name k, qs_Ready = [s_ready s 0, s_ready s 1, s_ready s 2],
     qs_InFlight = s_inflight s, qs_Delayed = s_delayed s, qs_OldestAge = s_oldestAge s, qs_TopReady = s_topReady s,
     qs_Enqueued = s_enqueued s, qs_Acked = s_acked s, qs_Expired = s_expired s, qs_Requeued = s_requeued s,
     qs_DeadLettered = s_deadLettered s, qs_Escapes = s_escapes s\<rparr>"

record wireMessage =
  w_ID :: string
  w_Payload :: bytes
  w_Priority :: u8
  w_GroupID :: string
  w_Seq :: u64
  w_EnqueuedAt :: time
  w_ExpiresAt :: "time option"
  w_DeliverAfter :: "time option"
  w_Attempts :: u32

definition ToWire :: "message \<Rightarrow> wireMessage" where
  "ToWire m = \<lparr>w_ID = ID m, w_Payload = Payload m, w_Priority = Priority m, w_GroupID = GroupID m, w_Seq = Seq m,
     w_EnqueuedAt = EnqueuedAt m,
     w_ExpiresAt = (if is_zero (ExpiresAt m) then None else Some (ExpiresAt m)),
     w_DeliverAfter = (if is_zero (DeliverAfter m) then None else Some (DeliverAfter m)), w_Attempts = Attempts m\<rparr>"

definition FromWire :: "wireMessage \<Rightarrow> message" where
  "FromWire w = \<lparr>ID = w_ID w, Payload = w_Payload w, Priority = w_Priority w, GroupID = w_GroupID w, Seq = w_Seq w,
     EnqueuedAt = w_EnqueuedAt w, ExpiresAt = (case w_ExpiresAt w of None \<Rightarrow> 0 | Some t \<Rightarrow> t),
     DeliverAfter = (case w_DeliverAfter w of None \<Rightarrow> 0 | Some t \<Rightarrow> t), Attempts = w_Attempts w\<rparr>"

record transferRequest =
  tr_MoveID :: string
  tr_Spec :: queueSpec
  tr_BySlot :: "(u16 \<times> wireMessage list) list"

record heldSlots =
  hs_Org :: string
  hs_Name :: string
  hs_Slots :: "u16 list"
  hs_Frozen :: "u16 list"

record heldResponse =
  hr_NodeID :: string
  hr_Queues :: "heldSlots list"

record pendingDeadLetter =
  pd_Slot :: u16
  pd_Msg :: message

record deadLetterItem =
  dl_Org :: string
  dl_Name :: string
  dl_Slot :: u16
  dl_Msg :: message

text \<open>The gateway's declarations of the same types.\<close>

type_synonym nodeEnqueue = enqueueRequest
type_synonym nodeEnqueueResult = enqueueResponse
type_synonym nodeMessage = deliveredMessage
type_synonym nodeStats = queueStats

text \<open>Nothing of a message is lost in the form nodes exchange, its attempt count included.\<close>

lemma FromWire_ToWire [simp]: "FromWire (ToWire m) = m"
  by (simp add: FromWire_def ToWire_def is_zero_def)

lemma FromWire_o_ToWire [simp]: "FromWire \<circ> ToWire = id"
  by (simp add: fun_eq_iff)

lemma spec_Key_simps [simp]: "Org (spec_Key s) = sp_Org s" "Name (spec_Key s) = sp_Name s" "Key (EngineConfig s) = spec_Key s"
  by (simp_all add: spec_Key_def EngineConfig_def)

end
