(* ===== verification/DeadLetters.thy ===== *)
theory DeadLetters
  imports Wal Entity
begin

text \<open>
  \<open>backend/queue/repo/walfile/deadletters.go\<close>: the log of the messages a queue has given up on, until
  the gateway confirms it moved them.  It is a file of records like a slot's; \<open>scan\<close> is the loop both
  kinds of replay share, over the switch on the record kind.  Replay gives every message that was
  recorded and not yet drained, and restores neither more nor less after a crash in the middle of
  a write.
\<close>

subsection \<open>Reading a log\<close>

text \<open>The position after the last whole record is the second component, the third says it ended torn.\<close>

function scan :: "(u8 \<Rightarrow> bytes \<Rightarrow> 's \<Rightarrow> 's option) \<Rightarrow> bytes \<Rightarrow> nat \<Rightarrow> 's \<Rightarrow> ('s \<times> nat \<times> bool) option" where
  "scan step bs good z =
     (case readRecord bs of
        ReadEOF \<Rightarrow> Some (z, good, False)
      | ReadTorn \<Rightarrow> Some (z, good, True)
      | ReadRecord kind body rest \<Rightarrow>
          (case step kind body z of
             None \<Rightarrow> None
           | Some z \<Rightarrow> scan step rest (good + (headerLen + length body)) z))"
  by pat_completeness auto
termination
  by (relation "measure (\<lambda>(step, bs, g, z). length bs)") (auto dest: readRecord_shorter)

declare scan.simps [simp del]

definition records :: "(json \<Rightarrow> bytes) \<Rightarrow> ('p \<Rightarrow> u8) \<Rightarrow> ('p \<Rightarrow> json) \<Rightarrow> 'p list \<Rightarrow> bytes" where
  "records render kd js ps = concat (map (\<lambda>p. encode render (kd p) (js p)) ps)"

lemma records_simps [simp]:
  "records render kd js [] = []" "records render kd js (p # ps) = encode render (kd p) (js p) @ records render kd js ps"
  "records render kd js (ps @ qs) = records render kd js ps @ records render kd js qs"
  by (simp_all add: records_def)

lemma scan_records:
  assumes "\<And>p. p \<in> set ps \<Longrightarrow> fits (render (js p))" and "\<And>p z. step (kd p) (render (js p)) z = Some (ap p z)"
  shows "scan step (records render kd js ps @ rest) g z
    = scan step rest (g + length (records render kd js ps)) (fold ap ps z)"
  using assms(1)
proof (induction ps arbitrary: g z)
  case (Cons p ps)
  then have "readRecord (encode render (kd p) (js p) @ (records render kd js ps @ rest))
      = ReadRecord (kd p) (render (js p)) (records render kd js ps @ rest)" by simp
  with Cons show ?case by (subst scan.simps) (simp add: assms(2) add.assoc)
qed simp

lemma scan_end: "scan step [] g z = Some (z, g, False)"
  by (subst scan.simps) (simp add: readRecord_def)

lemma scan_torn:
  assumes "fits (render v)" and "n < length (encode render k v)"
  shows "scan step (take n (encode render k v)) g z = Some (z, g, n \<noteq> 0)"
  by (subst scan.simps) (simp add: readRecord_torn [of render v n k, OF assms])

subsection \<open>The dead-letter log\<close>

record deadLetterPayload =
  d_Slot :: u16
  d_Msg :: enqueuePayload

definition deadletter_json :: "deadLetterPayload \<Rightarrow> json" where
  "deadletter_json d = JObj [(''slot'', JNum (uint (d_Slot d))), (''msg'', enqueue_json (d_Msg d))]"

definition deadletter_unjson :: "json \<Rightarrow> deadLetterPayload option" where
  "deadletter_unjson j = do {
     fs \<leftarrow> json_fields j; n \<leftarrow> get_uint 16 fs ''slot'';
     p \<leftarrow> enqueue_unjson (case map_of fs ''msg'' of None \<Rightarrow> JObj [] | Some x \<Rightarrow> x);
     Some \<lparr>d_Slot = of_int n, d_Msg = p\<rparr> }"

lemma deadletter_roundtrip [simp]: "deadletter_unjson (deadletter_json d) = Some d"
  using uint_less [of "d_Slot d"]
  by (simp add: deadletter_unjson_def deadletter_json_def get_uint_def)

text \<open>Appending: the file afterwards and whether no error is returned; a letter is flushed, a drain is not.\<close>

definition write_log :: "bytes \<Rightarrow> bytes \<Rightarrow> nat option \<Rightarrow> bytes" where
  "write_log file data wrote = file @ (case wrote of None \<Rightarrow> data | Some n \<Rightarrow> take n data)"

definition AppendDeadLetter :: "(json \<Rightarrow> bytes) \<Rightarrow> bytes \<Rightarrow> u16 \<Rightarrow> message \<Rightarrow> nat option \<Rightarrow> bool \<Rightarrow> bytes \<times> bool" where
  "AppendDeadLetter render file i m wrote flushed =
     (write_log file (encode render kindDeadLetter (deadletter_json \<lparr>d_Slot = i, d_Msg = payloadFromMessage m\<rparr>)) wrote,
      wrote = None \<and> flushed)"

definition AppendDeadLetterDrained :: "(json \<Rightarrow> bytes) \<Rightarrow> bytes \<Rightarrow> string \<Rightarrow> nat option \<Rightarrow> bytes \<times> bool" where
  "AppendDeadLetterDrained render file k wrote =
     (write_log file (encode render kindDeadLetterDrained (terminal_json \<lparr>t_ID = k, t_Kind = 0\<rparr>)) wrote, wrote = None)"

record dl_replay =
  dlive :: "(string \<times> pendingDeadLetter) list"
  dorder :: "string list"

definition apply_dl :: "(bytes \<Rightarrow> json option) \<Rightarrow> u8 \<Rightarrow> bytes \<Rightarrow> dl_replay \<Rightarrow> dl_replay option" where
  "apply_dl parse kind body z =
     (if kind = kindDeadLetter then do {
        j \<leftarrow> parse body; d \<leftarrow> deadletter_unjson j;
        let k = p_ID (d_Msg d) in
        Some (z\<lparr>dorder := (if map_of (dlive z) k = None then dorder z @ [k] else dorder z),
                 dlive := AList.update k \<lparr>pd_Slot = d_Slot d, pd_Msg = messageFromPayload (d_Msg d)\<rparr> (dlive z)\<rparr>) }
      else if kind = kindDeadLetterDrained then do {
        j \<leftarrow> parse body; t \<leftarrow> terminal_unjson j;
        Some (z\<lparr>dlive := AList.delete (t_ID t) (dlive z)\<rparr>) }
      else Some z)"

text \<open>The letters still waiting and the file afterwards; \<open>None\<close> for a body that does not parse.  A file that
  does not exist holds no records.\<close>

definition ReplayDeadLetters :: "(bytes \<Rightarrow> json option) \<Rightarrow> bytes \<Rightarrow> (pendingDeadLetter list \<times> bytes) option" where
  "ReplayDeadLetters parse file =
     (case scan (apply_dl parse) file 0 \<lparr>dlive = [], dorder = []\<rparr> of
        None \<Rightarrow> None
      | Some (z, good, torn) \<Rightarrow>
          Some (map (\<lambda>k. the (map_of (dlive z) k)) (filter (\<lambda>k. map_of (dlive z) k \<noteq> None) (dorder z)),
                if torn then take good file else file))"

definition CompactDeadLetters :: "(json \<Rightarrow> bytes) \<Rightarrow> pendingDeadLetter list \<Rightarrow> bytes" where
  "CompactDeadLetters render ds =
     concat (map (\<lambda>d. encode render kindDeadLetter (deadletter_json \<lparr>d_Slot = pd_Slot d, d_Msg = payloadFromMessage (pd_Msg d)\<rparr>)) ds)"

subsection \<open>What the log means\<close>

datatype dlop = DLetter u16 message | DDrained string

fun dl_kind :: "dlop \<Rightarrow> u8" where
  "dl_kind (DLetter i m) = kindDeadLetter"
| "dl_kind (DDrained k) = kindDeadLetterDrained"

fun dl_json :: "dlop \<Rightarrow> json" where
  "dl_json (DLetter i m) = deadletter_json \<lparr>d_Slot = i, d_Msg = payloadFromMessage m\<rparr>"
| "dl_json (DDrained k) = terminal_json \<lparr>t_ID = k, t_Kind = 0\<rparr>"

text \<open>A letter is kept without its attempt count.\<close>

fun dl_step :: "dlop \<Rightarrow> (string \<Rightarrow> pendingDeadLetter option) \<Rightarrow> (string \<Rightarrow> pendingDeadLetter option)" where
  "dl_step (DLetter i m) f = f(ID m \<mapsto> \<lparr>pd_Slot = i, pd_Msg = m\<lparr>Attempts := 0\<rparr>\<rparr>)"
| "dl_step (DDrained k) f = f(k := None)"

definition dl_live :: "dlop list \<Rightarrow> string \<Rightarrow> pendingDeadLetter option" where
  "dl_live ps = fold dl_step ps Map.empty"

definition dl_log :: "(json \<Rightarrow> bytes) \<Rightarrow> dlop list \<Rightarrow> bytes" where
  "dl_log render ps = records render dl_kind dl_json ps"

fun apply_dlop :: "dlop \<Rightarrow> dl_replay \<Rightarrow> dl_replay" where
  "apply_dlop (DLetter i m) z = z\<lparr>dorder := (if map_of (dlive z) (ID m) = None then dorder z @ [ID m] else dorder z),
     dlive := AList.update (ID m) \<lparr>pd_Slot = i, pd_Msg = m\<lparr>Attempts := 0\<rparr>\<rparr> (dlive z)\<rparr>"
| "apply_dlop (DDrained k) z = z\<lparr>dlive := AList.delete k (dlive z)\<rparr>"

lemma apply_dl_op:
  "json_text render parse \<Longrightarrow> apply_dl parse (dl_kind p) (render (dl_json p)) z = Some (apply_dlop p z)"
  by (cases p) (auto simp: apply_dl_def json_text_def kind_defs Let_def)

definition dl_ok :: "dl_replay \<Rightarrow> (string \<Rightarrow> pendingDeadLetter option) \<Rightarrow> bool" where
  "dl_ok z f \<longleftrightarrow> map_of (dlive z) = f \<and> dom f \<subseteq> set (dorder z)"

lemma dl_ok_step: "dl_ok z f \<Longrightarrow> dl_ok (apply_dlop p z) (dl_step p f)"
  by (cases p) (auto simp: dl_ok_def fun_eq_iff split: if_splits)

lemma dl_ok_fold: "dl_ok z f \<Longrightarrow> dl_ok (fold apply_dlop ps z) (fold dl_step ps f)"
  by (induction ps arbitrary: z f) (auto dest: dl_ok_step)

lemma dl_ok_log: "dl_ok (fold apply_dlop ps \<lparr>dlive = [], dorder = []\<rparr>) (dl_live ps)"
  unfolding dl_live_def by (rule dl_ok_fold) (simp add: dl_ok_def)

lemma replay_dl_scan:
  assumes "json_text render parse" and "\<And>p. p \<in> set ps \<Longrightarrow> fits (render (dl_json p))"
    and "scan (apply_dl parse) tail (length (dl_log render ps)) (fold apply_dlop ps \<lparr>dlive = [], dorder = []\<rparr>)
      = Some (fold apply_dlop ps \<lparr>dlive = [], dorder = []\<rparr>, length (dl_log render ps), torn)"
    and "torn \<or> tail = []"
  shows "\<exists>ds. ReplayDeadLetters parse (dl_log render ps @ tail) = Some (ds, dl_log render ps) \<and> set ds = ran (dl_live ps)"
proof -
  let ?z = "fold apply_dlop ps \<lparr>dlive = [], dorder = []\<rparr>"
  have "scan (apply_dl parse) (dl_log render ps @ tail) 0 \<lparr>dlive = [], dorder = []\<rparr> = Some (?z, length (dl_log render ps), torn)"
    unfolding dl_log_def using assms(3) [unfolded dl_log_def]
    by (subst scan_records [where ap = apply_dlop]) (simp_all add: assms(2) apply_dl_op [OF assms(1)])
  moreover have "set (map (\<lambda>k. the (map_of (dlive ?z) k)) (filter (\<lambda>k. map_of (dlive ?z) k \<noteq> None) (dorder ?z))) = ran (dl_live ps)"
    using dl_ok_log [of ps] by (force simp: dl_ok_def ran_def dom_def)
  ultimately show ?thesis using assms(4) by (auto simp: ReplayDeadLetters_def)
qed

lemma replay_dl_log:
  assumes "json_text render parse" and "\<And>p. p \<in> set ps \<Longrightarrow> fits (render (dl_json p))"
  shows "\<exists>ds. ReplayDeadLetters parse (dl_log render ps) = Some (ds, dl_log render ps) \<and> set ds = ran (dl_live ps)"
  using replay_dl_scan [OF assms, where tail = "[]" and torn = False] by (simp add: scan_end)

lemma replay_dl_torn:
  assumes "json_text render parse" and f: "\<And>x. x \<in> set (ps @ [p]) \<Longrightarrow> fits (render (dl_json x))"
    and n: "n < length (encode render (dl_kind p) (dl_json p))"
  shows "\<exists>ds. ReplayDeadLetters parse (dl_log render ps @ take n (encode render (dl_kind p) (dl_json p))) = Some (ds, dl_log render ps)
    \<and> set ds = ran (dl_live ps)"
proof (rule replay_dl_scan [OF assms(1), where torn = "n \<noteq> 0"])
  show "fits (render (dl_json x))" if "x \<in> set ps" for x using f that by simp
  have "fits (render (dl_json p))" using f by simp
  from scan_torn [OF this n] show "scan (apply_dl parse) (take n (encode render (dl_kind p) (dl_json p))) (length (dl_log render ps))
      (fold apply_dlop ps \<lparr>dlive = [], dorder = []\<rparr>) = Some (fold apply_dlop ps \<lparr>dlive = [], dorder = []\<rparr>, length (dl_log render ps), n \<noteq> 0)" .
qed auto

end
