(* ===== verification/Text.thy ===== *)
theory Text
  imports Slotting
begin

text \<open>
  The parts of Go's standard library for text that the services use on names, receipts and file
  names: decimal printing and \<open>strconv.ParseUint\<close> / \<open>strconv.Atoi\<close>, \<open>strings.Split\<close> at a colon,
  and \<open>base64.RawURLEncoding\<close>, with the round trips the encodings rest on.  A string is its bytes.
\<close>

subsection \<open>Decimal numbers\<close>

definition is_digit :: "char \<Rightarrow> bool" where
  "is_digit c \<longleftrightarrow> 48 \<le> (of_char c :: nat) \<and> (of_char c :: nat) \<le> 57"

definition dec_value :: "string \<Rightarrow> nat" where
  "dec_value s = foldl (\<lambda>n c. 10 * n + (of_char c - 48)) 0 s"

text \<open>\<open>ParseUint(s, 10, bits)\<close>; both of its errors are \<open>None\<close>.\<close>

definition ParseUint :: "string \<Rightarrow> nat \<Rightarrow> nat option" where
  "ParseUint s bits =
     (if s = [] \<or> \<not> list_all is_digit s then None
      else if dec_value s < 2 ^ bits then Some (dec_value s) else None)"

text \<open>\<open>Atoi\<close> on a 64-bit machine: an optional sign, then digits, in the range of \<open>int64\<close>.\<close>

definition Atoi :: "string \<Rightarrow> int option" where
  "Atoi s =
     (let neg = (s \<noteq> [] \<and> hd s = CHR ''-''); d = (if s \<noteq> [] \<and> (hd s = CHR ''-'' \<or> hd s = CHR ''+'') then tl s else s)
      in if d = [] \<or> \<not> list_all is_digit d then None
         else if neg then (if dec_value d \<le> 2 ^ 63 then Some (- int (dec_value d)) else None)
         else if dec_value d < 2 ^ 63 then Some (int (dec_value d)) else None)"

lemma digit_char [simp]: "d < 10 \<Longrightarrow> of_char (char_of (48 + d) :: char) = (48 + d :: nat)"
  by (simp add: of_char_of)

lemma is_digit_dec [simp]: "d < 10 \<Longrightarrow> is_digit (char_of (48 + d :: nat))"
  by (simp add: is_digit_def)

lemma dec_value_snoc [simp]: "dec_value (s @ [c]) = 10 * dec_value s + (of_char c - 48)"
  by (simp add: dec_value_def)

lemma dec_value_digits [simp]: "dec_value (dec_digits n) = n"
proof (induction n rule: dec_digits.induct)
  case (1 n)
  show ?case
  proof (cases "n < 10")
    case True
    then show ?thesis by (subst dec_digits.simps) (simp add: dec_value_def)
  next
    case False
    with 1 show ?thesis by (subst dec_digits.simps) simp
  qed
qed

lemma digits_dec_digits [simp]: "list_all is_digit (dec_digits n)"
proof (induction n rule: dec_digits.induct)
  case (1 n)
  then show ?case by (subst dec_digits.simps) (cases "n < 10"; simp)
qed

lemma dec_digits_not_Nil [simp]: "dec_digits n \<noteq> []"
  by (subst dec_digits.simps) simp

lemma ParseUint_digits [simp]: "n < 2 ^ bits \<Longrightarrow> ParseUint (dec_digits n) bits = Some n"
  by (simp add: ParseUint_def)

lemma ParseUint_less: "ParseUint s bits = Some n \<Longrightarrow> n < 2 ^ bits"
  by (auto simp: ParseUint_def split: if_splits)

lemma digits_no_sign: "list_all is_digit s \<Longrightarrow> s \<noteq> [] \<Longrightarrow> hd s \<noteq> CHR ''-'' \<and> hd s \<noteq> CHR ''+''"
  by (cases s) (auto simp: is_digit_def)

lemma Atoi_unsigned: "list_all is_digit s \<Longrightarrow> s \<noteq> [] \<Longrightarrow>
    Atoi s = (if dec_value s < 2 ^ 63 then Some (int (dec_value s)) else None)"
  using digits_no_sign [of s] by (simp add: Atoi_def Let_def)

text \<open>Where \<open>ParseUint\<close> on a narrow type succeeds, \<open>Atoi\<close> reads the same number.\<close>

lemma Atoi_ParseUint: "ParseUint s bits = Some n \<Longrightarrow> bits \<le> 63 \<Longrightarrow> Atoi s = Some (int n)"
proof -
  assume p: "ParseUint s bits = Some n" and b: "bits \<le> 63"
  then have s: "list_all is_digit s" "s \<noteq> []" and n: "n = dec_value s" "n < 2 ^ bits"
    by (auto simp: ParseUint_def split: if_splits)
  have "(2 :: nat) ^ bits \<le> 2 ^ 63" using b by (rule power_increasing) simp
  with n have "dec_value s < 2 ^ 63" by simp
  with s n show ?thesis by (simp add: Atoi_unsigned)
qed

subsection \<open>Splitting\<close>

fun split_at :: "char \<Rightarrow> string \<Rightarrow> string list" where
  "split_at c [] = [[]]"
| "split_at c (x # xs) =
     (if x = c then [] # split_at c xs
      else (case split_at c xs of [] \<Rightarrow> [[x]] | p # ps \<Rightarrow> (x # p) # ps))"

lemma split_at_not_Nil [simp]: "split_at c s \<noteq> []"
  by (cases s) (auto split: list.split)

lemma split_at_plain [simp]: "c \<notin> set s \<Longrightarrow> split_at c s = [s]"
  by (induction s) auto

lemma split_at_append [simp]: "c \<notin> set s \<Longrightarrow> split_at c (s @ c # r) = s # split_at c r"
  by (induction s) auto

lemma colon_not_digit: "list_all is_digit s \<Longrightarrow> CHR '':'' \<notin> set s"
  by (auto simp: list_all_iff is_digit_def)

lemma colon_dec_digits [simp]: "CHR '':'' \<notin> set (dec_digits n)"
  by (rule colon_not_digit) simp

subsection \<open>Base64\<close>

text \<open>The URL alphabet without padding; the decoder skips line breaks.\<close>

definition b64_char :: "nat \<Rightarrow> char" where
  "b64_char n = (if n < 26 then char_of (65 + n) else if n < 52 then char_of (71 + n)
     else if n < 62 then char_of (n - 4) else if n = 62 then CHR ''-'' else CHR ''_'')"

definition b64_value :: "char \<Rightarrow> nat option" where
  "b64_value c =
     (let n = of_char c :: nat
      in if 65 \<le> n \<and> n \<le> 90 then Some (n - 65) else if 97 \<le> n \<and> n \<le> 122 then Some (n - 71)
         else if 48 \<le> n \<and> n \<le> 57 then Some (n + 4) else if c = CHR ''-'' then Some 62
         else if c = CHR ''_'' then Some 63 else None)"

fun b64_groups :: "nat list \<Rightarrow> nat list" where
  "b64_groups (a # b # c # r) = [a div 4, a mod 4 * 16 + b div 16, b mod 16 * 4 + c div 64, c mod 64] @ b64_groups r"
| "b64_groups [a, b] = [a div 4, a mod 4 * 16 + b div 16, b mod 16 * 4]"
| "b64_groups [a] = [a div 4, a mod 4 * 16]"
| "b64_groups [] = []"

fun b64_ungroup :: "nat list \<Rightarrow> nat list option" where
  "b64_ungroup (w # x # y # z # r) =
     (case b64_ungroup r of None \<Rightarrow> None
      | Some bs \<Rightarrow> Some ([w * 4 + x div 16, x mod 16 * 16 + y div 4, y mod 4 * 64 + z] @ bs))"
| "b64_ungroup [w, x, y] = Some [w * 4 + x div 16, x mod 16 * 16 + y div 4]"
| "b64_ungroup [w, x] = Some [w * 4 + x div 16]"
| "b64_ungroup [w] = None"
| "b64_ungroup [] = Some []"

definition b64_encode :: "string \<Rightarrow> string" where
  "b64_encode s = map b64_char (b64_groups (map of_char s))"

definition b64_decode :: "string \<Rightarrow> string option" where
  "b64_decode s =
     (let s = filter (\<lambda>c. c \<noteq> char_of (10 :: nat) \<and> c \<noteq> char_of (13 :: nat)) s; vs = map b64_value s
      in if None \<in> set vs then None
         else case b64_ungroup (map the vs) of None \<Rightarrow> None | Some bs \<Rightarrow> Some (map char_of bs))"

lemma b64_value_char: "n < 64 \<Longrightarrow> b64_value (b64_char n) = Some n"
  unfolding b64_value_def b64_char_def Let_def by (auto simp: of_char_of)

lemma b64_char_no_break: "n < 64 \<Longrightarrow> b64_char n \<noteq> char_of (10 :: nat) \<and> b64_char n \<noteq> char_of (13 :: nat)"
proof -
  assume n: "n < 64"
  have "b64_value (char_of (10 :: nat)) = None" "b64_value (char_of (13 :: nat)) = None" by code_simp+
  with b64_value_char [OF n] show ?thesis by (metis option.distinct(1))
qed

lemma b64_groups_small: "(\<forall>x \<in> set bs. x < 256) \<Longrightarrow> \<forall>x \<in> set (b64_groups bs). x < 64"
  by (induction bs rule: b64_groups.induct) (auto simp: algebra_simps)

lemma b64_ungroup_groups: "(\<forall>x \<in> set bs. x < 256) \<Longrightarrow> b64_ungroup (b64_groups bs) = Some bs"
proof (induction bs rule: b64_groups.induct)
  case (1 a b c r)
  have "(a div 4) * 4 + (a mod 4 * 16 + b div 16) div 16 = a" "(a mod 4 * 16 + b div 16) mod 16 * 16 + (b mod 16 * 4 + c div 64) div 4 = b"
    "(b mod 16 * 4 + c div 64) mod 4 * 64 + c mod 64 = c"
    using 1(2) by auto
  with 1 show ?case by simp
next
  case (2 a b)
  have "(a div 4) * 4 + (a mod 4 * 16 + b div 16) div 16 = a" "(a mod 4 * 16 + b div 16) mod 16 * 16 + (b mod 16 * 4) div 4 = b"
    using 2 by auto
  then show ?case by simp
next
  case (3 a)
  have "(a div 4) * 4 + (a mod 4 * 16) div 16 = a" by simp
  then show ?case by simp
qed simp

lemma of_char_256: "of_char c < (256 :: nat)"
  by (cases c) (simp add: of_char_def)

lemma b64_roundtrip [simp]: "b64_decode (b64_encode s) = Some s"
proof -
  let ?g = "b64_groups (map of_char s)"
  have small: "\<forall>x \<in> set (map (of_char :: char \<Rightarrow> nat) s). x < 256" by (auto simp: of_char_256)
  note g = b64_groups_small [OF small]
  have "filter (\<lambda>c. c \<noteq> char_of (10 :: nat) \<and> c \<noteq> char_of (13 :: nat)) (map b64_char ?g) = map b64_char ?g"
    using g b64_char_no_break by (auto simp: filter_id_conv)
  moreover have "map b64_value (map b64_char ?g) = map Some ?g"
    using g b64_value_char by auto
  moreover have "map the (map Some ?g) = ?g" by (simp add: comp_def)
  ultimately show ?thesis
    by (simp add: b64_decode_def b64_encode_def Let_def b64_ungroup_groups [OF small] comp_def del: map_map)
       (auto simp: comp_def)
qed

end
