(* ===== verification/Receipt.thy ===== *)
theory Receipt
  imports Text Errors
begin

text \<open>
  \<open>backend/queue/entity/receipt.go\<close>: a receipt as the token a client holds, and
  \<open>slotFromReceipt\<close> of \<open>backend/gateway/logic/routing-logic.go\<close>, which reads only its slot to find
  the machine to ask.  The delivery epoch is a \<open>uint64\<close> in the code and a number here, so a token is
  good for an epoch below \<open>2^64\<close>.
\<close>

definition EncodeReceipt :: "receipt \<Rightarrow> string" where
  "EncodeReceipt r = b64_encode
     (dec_digits (unat (Slot r)) @ '':'' @ MessageID r @ '':'' @ dec_digits (Epoch r) @ '':'' @ dec_digits (unat (Incarnation r)))"

definition DecodeReceipt :: "string \<Rightarrow> err + receipt" where
  "DecodeReceipt s =
     (case b64_decode s of
        None \<Rightarrow> Inl (Plain ''receipt: illegal base64 data'')
      | Some b \<Rightarrow>
          (let parts = split_at CHR '':'' b
           in if List.length parts \<noteq> 4 then Inl (Plain (''receipt: want 4 fields, got '' @ dec_digits (List.length parts)))
              else case ParseUint (parts ! 0) 16 of
                None \<Rightarrow> Inl (Plain ''receipt slot'')
              | Some sl \<Rightarrow> (case ParseUint (parts ! 2) 64 of
                  None \<Rightarrow> Inl (Plain ''receipt epoch'')
                | Some ep \<Rightarrow> (case ParseUint (parts ! 3) 64 of
                    None \<Rightarrow> Inl (Plain ''receipt incarnation'')
                  | Some inc \<Rightarrow> Inr \<lparr>Slot = of_nat sl, MessageID = parts ! 1, Epoch = ep, Incarnation = of_nat inc\<rparr>))))"

text \<open>The gateway's half: \<open>SplitN(.., 2)\<close> and \<open>Atoi\<close> on the first part.\<close>

definition slotFromReceipt :: "string \<Rightarrow> err + int" where
  "slotFromReceipt s =
     (case b64_decode s of
        None \<Rightarrow> Inl (Invalid ''malformed receipt'')
      | Some b \<Rightarrow> (case Atoi (hd (split_at CHR '':'' b)) of
            None \<Rightarrow> Inl (Invalid ''malformed receipt'')
          | Some n \<Rightarrow> Inr n))"

lemma split_receipt:
  "CHR '':'' \<notin> set i \<Longrightarrow>
   split_at CHR '':'' (dec_digits a @ '':'' @ i @ '':'' @ dec_digits b @ '':'' @ dec_digits c)
     = [dec_digits a, i, dec_digits b, dec_digits c]"
  by simp

lemma decode_encode:
  assumes "CHR '':'' \<notin> set (MessageID r)" and "Epoch r < 2 ^ 64"
  shows "DecodeReceipt (EncodeReceipt r) = Inr r"
proof -
  have w: "unat (Slot r) < 2 ^ 16" "unat (Incarnation r) < 2 ^ 64"
    using unsigned_less [of "Slot r", where 'a = nat] unsigned_less [of "Incarnation r", where 'a = nat] by simp_all
  show ?thesis
    unfolding EncodeReceipt_def DecodeReceipt_def
    by (simp only: b64_roundtrip option.case split_receipt [OF assms(1)] Let_def)
       (simp add: ParseUint_digits [OF w(1), simplified] ParseUint_digits [OF w(2), simplified] ParseUint_digits [OF assms(2), simplified])
qed

text \<open>A receipt survives being handed to a client and back: whatever slot, delivery epoch and node
  incarnation it names, and for any message ID without a colon (the engine's are hexadecimal),
  decoding the token gives the same receipt.\<close>

theorem receipt_roundtrip:
  assumes "CHR '':'' \<notin> set (MessageID r)" and "Epoch r < 2 ^ 64"
  shows "DecodeReceipt (EncodeReceipt r) = Inr r"
  using assms by (rule decode_encode)

theorem receipt_roundtrip_witness:
  "DecodeReceipt (EncodeReceipt \<lparr>Slot = 65535, MessageID = ''a1'', Epoch = 3, Incarnation = 7\<rparr>)
     = Inr \<lparr>Slot = 65535, MessageID = ''a1'', Epoch = 3, Incarnation = 7\<rparr>"
  by (rule receipt_roundtrip) simp_all

text \<open>The gateway sends an acknowledgement to the slot the node will look it up in: every token a
  node accepts as a receipt, made by \<open>EncodeReceipt\<close> or not, is read by the gateway as naming the same
  slot.\<close>

theorem receipt_routed_to_slot:
  assumes "DecodeReceipt s = Inr r"
  shows "slotFromReceipt s = Inr (uint (Slot r))"
proof -
  obtain b where b: "b64_decode s = Some b" and l: "List.length (split_at CHR '':'' b) = 4"
    using assms by (auto simp: DecodeReceipt_def Let_def split: option.splits if_splits)
  obtain n where n: "ParseUint (split_at CHR '':'' b ! 0) 16 = Some n" and r: "Slot r = of_nat n"
    using assms b l by (auto simp: DecodeReceipt_def Let_def split: option.splits)
  have "hd (split_at CHR '':'' b) = split_at CHR '':'' b ! 0" by (rule hd_conv_nth) simp
  with Atoi_ParseUint [OF n] have "Atoi (hd (split_at CHR '':'' b)) = Some (int n)" by simp
  moreover have "uint (of_nat n :: u16) = int n"
    using ParseUint_less [OF n] by (simp add: uint_nat unat_of_nat)
  ultimately show ?thesis by (simp add: slotFromReceipt_def b r)
qed

theorem receipt_routed_to_slot_witness:
  "slotFromReceipt (EncodeReceipt \<lparr>Slot = 15, MessageID = ''a'', Epoch = 3, Incarnation = 7\<rparr>) = Inr 15"
  using receipt_routed_to_slot [OF decode_encode [of "\<lparr>Slot = 15, MessageID = ''a'', Epoch = 3, Incarnation = 7\<rparr>"]] by simp

end
