(* ===== verification/Layout.thy ===== *)
theory Layout
  imports Text
begin

text \<open>
  What a node's directory is called and what it keeps beside the data: the names of slot files and
  queue directories (\<open>path\<close>, \<open>slotFromName\<close>, \<open>dir\<close>, \<open>sanitise\<close> of
  \<open>backend/queue/repo/walfile/wal.go\<close>), the node's identity and its restart counter
  (\<open>backend/queue/repo/walfile/nodeid.go\<close>).
\<close>

subsection \<open>Slot files\<close>

text \<open>\<open>%04d\<close>: at least four digits.\<close>

definition pad4 :: "string \<Rightarrow> string" where
  "pad4 s = replicate (4 - List.length s) CHR ''0'' @ s"

definition slot_name :: "u16 \<Rightarrow> string" where
  "slot_name i = ''slot-'' @ pad4 (dec_digits (unat i)) @ ''.log''"

definition has_prefix :: "string \<Rightarrow> string \<Rightarrow> bool" where
  "has_prefix p s \<longleftrightarrow> take (List.length p) s = p"

definition has_suffix :: "string \<Rightarrow> string \<Rightarrow> bool" where
  "has_suffix p s \<longleftrightarrow> has_prefix (rev p) (rev s)"

definition trim_prefix :: "string \<Rightarrow> string \<Rightarrow> string" where
  "trim_prefix p s = (if has_prefix p s then drop (List.length p) s else s)"

definition trim_suffix :: "string \<Rightarrow> string \<Rightarrow> string" where
  "trim_suffix p s = (if has_suffix p s then take (List.length s - List.length p) s else s)"

definition slotFromName :: "string \<Rightarrow> u16 option" where
  "slotFromName name =
     (if \<not> has_prefix ''slot-'' name \<or> \<not> has_suffix ''.log'' name then None
      else case Atoi (trim_suffix ''.log'' (trim_prefix ''slot-'' name)) of
             None \<Rightarrow> None
           | Some n \<Rightarrow> if n < 0 \<or> n > 65535 then None else Some (of_int n))"

lemma dec_value_zeros: "dec_value (replicate k CHR ''0'' @ s) = dec_value s"
  by (induction k) (simp_all add: dec_value_def)

lemma slotFromName_name: "slotFromName (slot_name i) = Some i"
proof -
  let ?d = "pad4 (dec_digits (unat i))"
  have d: "list_all is_digit ?d" "?d \<noteq> []" "dec_value ?d = unat i"
    by (auto simp: pad4_def list_all_append dec_value_zeros) (simp add: is_digit_def list_all_iff)
  have u: "unat i < 65536" using unsigned_less [of i, where 'a = nat] by simp
  have "Atoi ?d = Some (int (unat i))" using Atoi_unsigned [OF d(1,2)] d(3) u by simp
  moreover have "has_prefix ''slot-'' (slot_name i)" "has_suffix ''.log'' (slot_name i)" "has_suffix ''.log'' (?d @ ''.log'')"
    by (simp_all add: has_prefix_def has_suffix_def slot_name_def)
  moreover have "trim_prefix ''slot-'' (slot_name i) = ?d @ ''.log''"
    by (simp add: trim_prefix_def has_prefix_def slot_name_def)
  moreover have "\<not> 65535 < int (unat i)" "\<not> int (unat i) < 0" using u by linarith+
  ultimately show ?thesis by (simp only: slotFromName_def trim_suffix_def) simp
qed

subsection \<open>Queue directories\<close>

text \<open>The runes a Go \<open>range\<close> over a string yields: UTF-8, an invalid byte being U+FFFD.\<close>

definition cont :: "nat \<Rightarrow> nat \<Rightarrow> nat \<Rightarrow> bool" where
  "cont lo hi b \<longleftrightarrow> lo \<le> b \<and> b \<le> hi"

fun decode_rune :: "nat list \<Rightarrow> nat \<times> nat" where
  "decode_rune bs =
     (let b0 = bs ! 0; b1 = bs ! 1; b2 = bs ! 2; b3 = bs ! 3; n = List.length bs
      in if b0 < 128 then (b0, 1)
         else if cont 194 223 b0 \<and> n > 1 \<and> cont 128 191 b1 then ((b0 - 192) * 64 + (b1 - 128), 2)
         else if cont 224 239 b0 \<and> n > 2 \<and> cont (if b0 = 224 then 160 else 128) (if b0 = 237 then 159 else 191) b1 \<and> cont 128 191 b2
         then ((b0 - 224) * 4096 + (b1 - 128) * 64 + (b2 - 128), 3)
         else if cont 240 244 b0 \<and> n > 3 \<and> cont (if b0 = 240 then 144 else 128) (if b0 = 244 then 143 else 191) b1
                 \<and> cont 128 191 b2 \<and> cont 128 191 b3
         then ((b0 - 240) * 262144 + (b1 - 128) * 4096 + (b2 - 128) * 64 + (b3 - 128), 4)
         else (65533, 1))"

function runes :: "nat list \<Rightarrow> nat list" where
  "runes bs = (if bs = [] then [] else let (r, w) = decode_rune bs in r # runes (drop w bs))"
  by pat_completeness auto
termination
  by (relation "measure List.length") (auto simp: Let_def split: if_splits)

declare runes.simps [simp del] decode_rune.simps [simp del]

definition hex_digit :: "nat \<Rightarrow> char" where
  "hex_digit d = (if d < 10 then char_of (48 + d) else char_of (87 + d))"

function hex_digits :: "nat \<Rightarrow> string" where
  "hex_digits n = (if n < 16 then [hex_digit n] else hex_digits (n div 16) @ [hex_digit (n mod 16)])"
  by pat_completeness auto
termination by (relation "measure id") auto

declare hex_digits.simps [simp del]

text \<open>\<open>%02x\<close>\<close>

definition hex2 :: "nat \<Rightarrow> string" where
  "hex2 n = (if n < 16 then ''0'' else []) @ hex_digits n"

definition safe_rune :: "nat \<Rightarrow> bool" where
  "safe_rune r \<longleftrightarrow> cont 97 122 r \<or> cont 65 90 r \<or> cont 48 57 r \<or> r = 45 \<or> r = 95"

definition sanitise_rune :: "nat \<Rightarrow> string" where
  "sanitise_rune r = (if safe_rune r then [char_of r] else CHR ''~'' # hex2 r)"

definition sanitise :: "string \<Rightarrow> string" where
  "sanitise s = concat (map sanitise_rune (runes (map of_char s)))"

definition dir :: "queueKey \<Rightarrow> queueKey" where
  "dir k = \<lparr>Org = sanitise (Org k), Name = sanitise (Name k)\<rparr>"

definition ascii :: "string \<Rightarrow> bool" where
  "ascii s \<longleftrightarrow> (\<forall>c \<in> set s. (of_char c :: nat) < 128)"

lemma runes_ascii: "(\<forall>b \<in> set bs. b < 128) \<Longrightarrow> runes bs = bs"
proof (induction bs)
  case (Cons b bs)
  then have "decode_rune (b # bs) = (b, 1)" by (simp add: decode_rune.simps Let_def)
  with Cons show ?case by (subst runes.simps) simp
qed (subst runes.simps, simp)

lemma hex_digit_inj: "a < 16 \<Longrightarrow> b < 16 \<Longrightarrow> hex_digit a = hex_digit b \<Longrightarrow> a = b"
  by (auto simp: hex_digit_def split: if_splits)

lemma hex2_ascii: "n < 128 \<Longrightarrow> hex2 n = [hex_digit (n div 16), hex_digit (n mod 16)]"
proof -
  assume n: "n < 128"
  show ?thesis
  proof (cases "n < 16")
    case True
    have "hex_digit 0 = CHR ''0''" by code_simp
    with True show ?thesis by (simp add: hex2_def hex_digits.simps)
  next
    case False
    have "n div 16 < 16" using n by (intro less_mult_imp_div_less) simp
    with False n show ?thesis by (simp add: hex2_def hex_digits.simps [of n] hex_digits.simps [of "n div 16"])
  qed
qed

lemma safe_small: "safe_rune r \<Longrightarrow> r < 128 \<and> r \<noteq> 126"
  by (auto simp: safe_rune_def cont_def)

lemma char_of_inj: "a < 256 \<Longrightarrow> b < 256 \<Longrightarrow> (char_of a :: char) = char_of b \<longleftrightarrow> a = (b :: nat)"
  by (metis of_char_of mod_less)

lemma safe_not_tilde: "safe_rune r \<Longrightarrow> char_of r \<noteq> CHR ''~''"
proof -
  assume r: "safe_rune r"
  have "CHR ''~'' = char_of (126 :: nat)" by code_simp
  with safe_small [OF r] show ?thesis by (simp add: char_of_inj)
qed

lemma sanitise_runes_inj:
  "\<lbrakk>\<forall>x \<in> set xs. x < 128; \<forall>y \<in> set ys. y < 128; concat (map sanitise_rune xs) = concat (map sanitise_rune ys)\<rbrakk> \<Longrightarrow> xs = ys"
proof (induction xs arbitrary: ys)
  case Nil
  then show ?case by (cases ys) (auto simp: sanitise_rune_def split: if_splits)
next
  case (Cons x xs)
  then obtain y ys' where ys: "ys = y # ys'" by (cases ys) (auto simp: sanitise_rune_def split: if_splits)
  have e: "sanitise_rune x @ concat (map sanitise_rune xs) = sanitise_rune y @ concat (map sanitise_rune ys')"
    using Cons.prems(3) ys by simp
  have l: "x < 128" "y < 128" using Cons.prems ys by simp_all
  have "x = y \<and> concat (map sanitise_rune xs) = concat (map sanitise_rune ys')"
  proof (cases "safe_rune x"; cases "safe_rune y")
    assume "safe_rune x" "safe_rune y"
    with e l show ?thesis by (simp add: sanitise_rune_def char_of_inj)
  next
    assume x: "\<not> safe_rune x" and y: "\<not> safe_rune y"
    with e l have "hex_digit (x div 16) = hex_digit (y div 16)" "hex_digit (x mod 16) = hex_digit (y mod 16)"
      "concat (map sanitise_rune xs) = concat (map sanitise_rune ys')"
      by (simp_all add: sanitise_rune_def hex2_ascii)
    moreover have "x div 16 < 16" "y div 16 < 16" using l by (auto intro: less_mult_imp_div_less)
    ultimately have c: "concat (map sanitise_rune xs) = concat (map sanitise_rune ys')"
      and d: "x div 16 = y div 16" and m: "x mod 16 = y mod 16"
      using hex_digit_inj [of "x mod 16" "y mod 16"] hex_digit_inj [of "x div 16" "y div 16"] by simp_all
    have "x = y" using div_mult_mod_eq [of x 16] div_mult_mod_eq [of y 16] unfolding d m by (rule trans [OF sym])
    with c show ?thesis by simp
  next
    assume "safe_rune x" "\<not> safe_rune y"
    with e safe_not_tilde [of x] show ?thesis by (simp add: sanitise_rune_def)
  next
    assume "\<not> safe_rune x" "safe_rune y"
    with e safe_not_tilde [of y] show ?thesis by (simp add: sanitise_rune_def)
  qed
  then have xy: "x = y" and c: "concat (map sanitise_rune xs) = concat (map sanitise_rune ys')" by - (elim conjE; assumption)+
  have "xs = ys'" by (rule Cons.IH [OF _ _ c]) (use Cons.prems(1,2) ys in simp_all)
  with xy ys show ?case by (simp only:)
qed



text \<open>Outside ASCII two names can fall together, although the comment on \<open>sanitise\<close> rules it out: a
  rune above U+00FF is written with more than two digits, so the one-rune name U+1234 and the name
  of the control character U+0012 followed by \<open>34\<close> are the same directory.\<close>

theorem sanitise_collision:
  "sanitise (map char_of [225 :: nat, 136, 180]) = sanitise (map char_of [18 :: nat, 51, 52]) \<and>
   runes [225, 136, 180] = [4660]"
  by (simp add: sanitise_def runes.simps decode_rune.simps cont_def Let_def sanitise_rune_def safe_rune_def
    hex2_def hex_digits.simps hex_digit_def of_char_of)

subsection \<open>Identity and restarts\<close>

definition is_space :: "char \<Rightarrow> bool" where
  "is_space c \<longleftrightarrow> (let n = of_char c :: nat in n = 32 \<or> (9 \<le> n \<and> n \<le> 13))"

definition TrimSpace :: "string \<Rightarrow> string" where
  "TrimSpace s = rev (dropWhile is_space (rev (dropWhile is_space s)))"

text \<open>The identity file, if it can be read, and six random bytes; the identity and the file afterwards.\<close>

definition NodeID :: "string option \<Rightarrow> nat list \<Rightarrow> string \<times> string option" where
  "NodeID file raw =
     (case file of
        Some b \<Rightarrow> if TrimSpace b \<noteq> [] then (TrimSpace b, file)
          else (let k = ''node-'' @ concat (map (\<lambda>x. [hex_digit (x div 16), hex_digit (x mod 16)]) raw) in (k, Some k))
      | None \<Rightarrow> (let k = ''node-'' @ concat (map (\<lambda>x. [hex_digit (x div 16), hex_digit (x mod 16)]) raw) in (k, Some k)))"

text \<open>\<open>NextIncarnation\<close>: a counter file that is missing or not a number counts as zero.\<close>

definition NextIncarnation :: "string option \<Rightarrow> u64 \<times> string option" where
  "NextIncarnation file =
     (let cur = (case file of None \<Rightarrow> 0
                 | Some b \<Rightarrow> (case ParseUint (TrimSpace b) 64 of None \<Rightarrow> 0 | Some n \<Rightarrow> of_nat n)) + 1
      in (cur, Some (dec_digits (unat cur))))"

lemma TrimSpace_digits: "list_all is_digit s \<Longrightarrow> TrimSpace s = s"
proof -
  have nd: "dropWhile is_space s = s" if "list_all is_digit s" for s
    using that by (cases s) (auto simp: is_digit_def is_space_def Let_def)
  assume s: "list_all is_digit s"
  then have "list_all is_digit (rev s)" by (simp add: list_all_iff)
  with s show ?thesis by (simp add: TrimSpace_def nd)
qed

lemma NextIncarnation_again:
  "NextIncarnation (Some (dec_digits (unat (n :: u64)))) = (n + 1, Some (dec_digits (unat (n + 1))))"
proof -
  have "unat n < 2 ^ 64" using unsigned_less [of n, where 'a = nat] by simp
  from ParseUint_digits [OF this] show ?thesis by (simp add: NextIncarnation_def TrimSpace_digits Let_def)
qed

end
