(* ===== verification/Node.thy ===== *)
theory Node
  imports QueueMaint DeadLetters Receipt Layout
begin

text \<open>
  \<open>backend/queue/logic\<close>: a queue node.  It owns a set of queues, each an engine with the log it writes
  to, and turns the requests of \<open>req-queue.go\<close> into engine operations: which queues live here, dead
  letters on their way to the gateway, the timers, recovery, compaction and the node's half of a
  hand-over.  The directory of a node is part of the state, since it is what a restart finds: the log
  files of each queue under the name \<open>dir\<close> gives it.

  \<open>render\<close> and \<open>parse\<close> are the JSON text of a record.  The clock, message IDs and what the disk answers to
  the writes an operation may fail on are arguments, as is the order of every map that is ranged over.
  The records whose write error the code ignores (attempts, terminals) are taken to be written.
\<close>

subsection \<open>State\<close>

record liveQueue =
  lq_q :: queue
  lq_dl :: "(string \<times> pendingDeadLetter) list"

record queueDir =
  qd_wal :: wal
  qd_dl :: bytes

type_synonym notification = queueKey

record subscribers =
  sub_next :: nat
  sub_m :: "(nat \<times> notification list) list"

record node =
  n_id :: string
  n_inc :: u64
  n_sync :: syncMode
  n_queues :: "(queueKey \<times> liveQueue) list"
  n_moves :: "string list"
  n_subs :: subscribers
  n_disk :: "(queueKey \<times> queueDir) list"

text \<open>\<open>New\<close> over what is on the disk.\<close>

definition New_node :: "string \<Rightarrow> u64 \<Rightarrow> syncMode \<Rightarrow> (queueKey \<times> queueDir) list \<Rightarrow> node" where
  "New_node i inc sync disk = \<lparr>n_id = i, n_inc = inc, n_sync = sync, n_queues = [], n_moves = [],
     n_subs = \<lparr>sub_next = 0, sub_m = []\<rparr>, n_disk = disk\<rparr>"

definition disk_at :: "node \<Rightarrow> queueKey \<Rightarrow> queueDir" where
  "disk_at n k = (case map_of (n_disk n) (dir k) of
       None \<Rightarrow> \<lparr>qd_wal = \<lparr>wsync = n_sync n, wfiles = []\<rparr>, qd_dl = []\<rparr>
     | Some d \<Rightarrow> d\<lparr>qd_wal := (qd_wal d)\<lparr>wsync := n_sync n\<rparr>\<rparr>)"

definition set_disk :: "queueKey \<Rightarrow> queueDir \<Rightarrow> node \<Rightarrow> node" where
  "set_disk k d n = n\<lparr>n_disk := AList.update (dir k) d (n_disk n)\<rparr>"

definition lookup :: "node \<Rightarrow> queueKey \<Rightarrow> liveQueue option" where
  "lookup n k = map_of (n_queues n) k"

definition set_live :: "queueKey \<Rightarrow> liveQueue \<Rightarrow> node \<Rightarrow> node" where
  "set_live k lq n = n\<lparr>n_queues := AList.update k lq (n_queues n)\<rparr>"

subsection \<open>Subscribers (\<open>notify-logic.go\<close>)\<close>

definition sub_cap :: nat where
  "sub_cap = 64"

definition Subscribe :: "node \<Rightarrow> node \<times> nat" where
  "Subscribe n = (let s = n_subs n; i = sub_next s + 1
     in (n\<lparr>n_subs := \<lparr>sub_next = i, sub_m = AList.update i [] (sub_m s)\<rparr>\<rparr>, i))"

definition Unsubscribe :: "node \<Rightarrow> nat \<Rightarrow> node" where
  "Unsubscribe n i = n\<lparr>n_subs := (n_subs n)\<lparr>sub_m := AList.delete i (sub_m (n_subs n))\<rparr>\<rparr>"

definition publish :: "subscribers \<Rightarrow> notification \<Rightarrow> subscribers" where
  "publish s k = s\<lparr>sub_m := map (\<lambda>(i, ch). (i, if List.length ch < sub_cap then ch @ [k] else ch)) (sub_m s)\<rparr>"

definition notifyWork :: "queueKey \<Rightarrow> node \<Rightarrow> node" where
  "notifyWork k n = n\<lparr>n_subs := publish (n_subs n) k\<rparr>"

subsection \<open>The queues of a node (\<open>queue-manager-logic.go\<close>)\<close>

text \<open>\<open>open_err\<close> is the answer of opening the log when the queue is not live yet.\<close>

definition queueFor :: "node \<Rightarrow> queueSpec \<Rightarrow> err option \<Rightarrow> node \<times> (err + liveQueue)" where
  "queueFor n spec open_err =
     (let k = spec_Key spec
      in case lookup n k of
           Some lq \<Rightarrow> (let lq = lq\<lparr>lq_q := fst (Reconfigure (lq_q lq) (EngineConfig spec))\<rparr> in (set_live k lq n, Inr lq))
         | None \<Rightarrow> (case open_err of
             Some e \<Rightarrow> (n, Inl e)
           | None \<Rightarrow> (let lq = \<lparr>lq_q = New (EngineConfig spec) (n_inc n) (sp_Generation spec), lq_dl = []\<rparr>
                      in (set_live k lq (set_disk k (disk_at n k) n), Inr lq))))"

definition Held :: "node \<Rightarrow> queueKey list" where
  "Held n = map fst (n_queues n)"

text \<open>The queue's directory is removed whether it was live or not.\<close>

definition Drop_node :: "node \<Rightarrow> queueKey \<Rightarrow> node" where
  "Drop_node n k = n\<lparr>n_queues := AList.delete k (n_queues n), n_disk := AList.delete (dir k) (n_disk n)\<rparr>"

subsection \<open>The engine and its journal\<close>

definition terminal_code :: "terminalKind \<Rightarrow> u8" where
  "terminal_code k = (case k of TerminalAck \<Rightarrow> 0 | TerminalExpired \<Rightarrow> 1 | TerminalDeadLettered \<Rightarrow> 2)"

fun journal_write :: "(json \<Rightarrow> bytes) \<Rightarrow> journal_entry \<Rightarrow> wal \<Rightarrow> wal" where
  "journal_write render (AppendEnqueue i m) w = fst (AppendEnqueue_wal render w i m None True)"
| "journal_write render (AppendAttempt i k n e) w = AppendAttempt_wal render w i k n (of_nat e) None"
| "journal_write render (AppendTerminal i k kd) w = AppendTerminal_wal render w i k (terminal_code kd) None"

text \<open>Put a queue back after an engine operation, with the records it wrote meanwhile in its log.\<close>

definition put_queue :: "(json \<Rightarrow> bytes) \<Rightarrow> queueKey \<Rightarrow> liveQueue \<Rightarrow> queue \<Rightarrow> node \<Rightarrow> node" where
  "put_queue render k lq q n =
     (let d = disk_at n k; new = drop (List.length (jlog (lq_q lq))) (jlog q)
      in set_live k (lq\<lparr>lq_q := q\<rparr>) (set_disk k (d\<lparr>qd_wal := fold (journal_write render) new (qd_wal d)\<rparr>) n))"

subsection \<open>Enqueue and dequeue\<close>

text \<open>\<open>wrote\<close> and \<open>flushed\<close> are the answers to the one write an enqueue waits for.\<close>

definition enqueue_journaled :: "(json \<Rightarrow> bytes) \<Rightarrow> node \<Rightarrow> queueKey \<Rightarrow> liveQueue \<Rightarrow> u16 \<Rightarrow> enqueueOptions \<Rightarrow> string \<Rightarrow> time
    \<Rightarrow> nat option \<Rightarrow> bool \<Rightarrow> node \<times> (engine_error + message)" where
  "enqueue_journaled render n k lq i o' newid now wrote flushed =
     (case EnqueueToSlot (lq_q lq) i o' newid now True of
        (q, Inl e) \<Rightarrow> (set_live k (lq\<lparr>lq_q := q\<rparr>) n, Inl e)
      | (_, Inr m) \<Rightarrow>
          (let d = disk_at n k;
               (w, ok) = AppendEnqueue_wal render (qd_wal d) i m wrote flushed;
               (q, r) = EnqueueToSlot (lq_q lq) i o' newid now ok
           in (set_live k (lq\<lparr>lq_q := q\<rparr>) (set_disk k (d\<lparr>qd_wal := w\<rparr>) n), r)))"

definition Enqueue_node :: "(json \<Rightarrow> bytes) \<Rightarrow> node \<Rightarrow> enqueueRequest \<Rightarrow> err option \<Rightarrow> string \<Rightarrow> time \<Rightarrow> nat option \<Rightarrow> bool
    \<Rightarrow> node \<times> (err + enqueueResponse)" where
  "Enqueue_node render n req open_err newid now wrote flushed =
     (case queueFor n (er_Spec req) open_err of
        (n, Inl e) \<Rightarrow> (n, Inl (Internal ''open queue'' e))
      | (n, Inr lq) \<Rightarrow>
          (let k = spec_Key (er_Spec req);
               opts = \<lparr>eo_Payload = er_Payload req, eo_Priority = er_Priority req, eo_GroupID = er_GroupID req,
                       eo_TTL = er_TTL req, eo_DeliverAfter = er_DeliverAfter req\<rparr>
           in case er_Slot req of
                None \<Rightarrow> (n, Inl (Invalid ''slot is required''))
              | Some i \<Rightarrow>
                  (case enqueue_journaled render n k lq i opts newid now wrote flushed of
                     (n, Inl ErrBadPriority) \<Rightarrow> (n, Inl (Invalid ''priority must be 0-100''))
                   | (n, Inl ErrQueueFull) \<Rightarrow> (n, Inl (New_error CodeExhausted ''queue is at max depth''))
                   | (n, Inl ErrFrozen) \<Rightarrow> (n, Inl (Moved []))
                   | (n, Inl e) \<Rightarrow> (n, Inl (Internal ''enqueue'' (engine_err e)))
                   | (n, Inr m) \<Rightarrow> (notifyWork k n, Inr \<lparr>es_MessageID = ID m, es_Slot = i, es_Seq = Seq m\<rparr>))))"

definition delivered :: "message \<times> receipt \<Rightarrow> deliveredMessage" where
  "delivered x = (let m = fst x in \<lparr>dm_MessageID = ID m, dm_Payload = Payload m, dm_Priority = Priority m,
     dm_GroupID = GroupID m, dm_Attempts = Attempts m, dm_EnqueuedAt = EnqueuedAt m, dm_Receipt = EncodeReceipt (snd x)\<rparr>)"

text \<open>The loop of \<open>Dequeue\<close>, with the clock at each turn.\<close>

fun dequeue_loop :: "queue \<Rightarrow> time list \<Rightarrow> queue \<times> (message \<times> receipt) list" where
  "dequeue_loop q [] = (q, [])"
| "dequeue_loop q (now # ts) =
     (case Dequeue q now of
        (q, None) \<Rightarrow> (q, [])
      | (q, Some x) \<Rightarrow> (let (q, xs) = dequeue_loop q ts in (q, x # xs)))"

definition clamp_max :: "int \<Rightarrow> nat" where
  "clamp_max k = (if k \<le> 0 then 1 else if k > 10 then 10 else nat k)"

definition Dequeue_node :: "(json \<Rightarrow> bytes) \<Rightarrow> node \<Rightarrow> dequeueRequest \<Rightarrow> err option \<Rightarrow> (nat \<Rightarrow> time) \<Rightarrow> node \<times> (err + deliveredMessage list)" where
  "Dequeue_node render n req open_err clock =
     (case queueFor n (dr_Spec req) open_err of
        (n, Inl e) \<Rightarrow> (n, Inl (Internal ''open queue'' e))
      | (n, Inr lq) \<Rightarrow>
          (let (q, xs) = dequeue_loop (lq_q lq) (map clock [0..<clamp_max (dr_MaxMessages req)])
           in (put_queue render (spec_Key (dr_Spec req)) lq q n, Inr (map delivered xs))))"

subsection \<open>Dead letters (\<open>deadletter-logic.go\<close>)\<close>

definition maxPendingDeadLetters :: nat where
  "maxPendingDeadLetters = 10000"

definition offerDeadLetter :: "(json \<Rightarrow> bytes) \<Rightarrow> node \<Rightarrow> queueKey \<Rightarrow> u16 \<Rightarrow> message \<Rightarrow> nat option \<Rightarrow> bool \<Rightarrow> node" where
  "offerDeadLetter render n k i m wrote flushed =
     (case lookup n k of
        None \<Rightarrow> n
      | Some lq \<Rightarrow>
          (let d = disk_at n k; (file, ok) = AppendDeadLetter render (qd_dl d) i m wrote flushed;
               n = set_disk k (d\<lparr>qd_dl := file\<rparr>) n
           in if \<not> ok then n
              else if List.length (lq_dl lq) \<ge> maxPendingDeadLetters then n
              else set_live k (lq\<lparr>lq_dl := AList.update (ID m) \<lparr>pd_Slot = i, pd_Msg = m\<rparr> (lq_dl lq)\<rparr>) n))"

definition DeadLetters :: "node \<Rightarrow> deadLetterItem list" where
  "DeadLetters n = concat (map (\<lambda>(k, lq). map (\<lambda>(_, d). \<lparr>dl_Org = Org k, dl_Name = Name k, dl_Slot = pd_Slot d, dl_Msg = pd_Msg d\<rparr>) (lq_dl lq))
     (n_queues n))"

definition ack_dead_queue :: "(json \<Rightarrow> bytes) \<Rightarrow> string list \<Rightarrow> queueKey \<times> liveQueue \<Rightarrow> node \<Rightarrow> node" where
  "ack_dead_queue render ids x n =
     (let (k, lq) = x; drained = filter (\<lambda>i. i \<in> set ids) (map fst (lq_dl lq)); d = disk_at n k
      in set_live k (lq\<lparr>lq_dl := filter (\<lambda>e. fst e \<notin> set drained) (lq_dl lq)\<rparr>)
           (set_disk k (d\<lparr>qd_dl := fold (\<lambda>i file. fst (AppendDeadLetterDrained render file i None)) drained (qd_dl d)\<rparr>) n))"

definition AckDeadLetters :: "(json \<Rightarrow> bytes) \<Rightarrow> node \<Rightarrow> string list \<Rightarrow> node" where
  "AckDeadLetters render n ids = fold (ack_dead_queue render ids) (n_queues n) n"

definition recoverDeadLetters :: "(json \<Rightarrow> bytes) \<Rightarrow> (bytes \<Rightarrow> json option) \<Rightarrow> node \<Rightarrow> queueKey \<Rightarrow> liveQueue \<Rightarrow> node \<times> liveQueue" where
  "recoverDeadLetters render parse n k lq =
     (let d = disk_at n k
      in case ReplayDeadLetters parse (qd_dl d) of
           None \<Rightarrow> (n, lq)
         | Some (ds, file) \<Rightarrow>
             if ds = [] then (set_disk k (d\<lparr>qd_dl := file\<rparr>) n, lq)
             else let lq = lq\<lparr>lq_dl := fold (\<lambda>x. AList.update (ID (pd_Msg x)) x) ds (lq_dl lq)\<rparr>
                  in (set_live k lq (set_disk k (d\<lparr>qd_dl := CompactDeadLetters render ds\<rparr>) n), lq))"

subsection \<open>Ack and nack\<close>

definition Ack_node :: "(json \<Rightarrow> bytes) \<Rightarrow> node \<Rightarrow> ackRequest \<Rightarrow> node \<times> err option" where
  "Ack_node render n req =
     (let k = spec_Key (ar_Spec req)
      in case lookup n k of
           None \<Rightarrow> (n, Some (NotFound ''queue''))
         | Some lq \<Rightarrow> (case DecodeReceipt (ar_Receipt req) of
             Inl e \<Rightarrow> (n, Some (Invalid (Error e)))
           | Inr r \<Rightarrow>
               (let (q, e) = Ack (lq_q lq) r; n = put_queue render k lq q n
                in case e of
                     None \<Rightarrow> (n, None)
                   | Some ErrNotInFlight \<Rightarrow> (n, None)
                   | Some ErrLeaseExpired \<Rightarrow> (n, Some (New_error CodeConflict ''lease expired, message was redelivered''))
                   | Some e \<Rightarrow> (n, Some (Internal ''ack'' (engine_err e))))))"

definition Nack_node :: "(json \<Rightarrow> bytes) \<Rightarrow> node \<Rightarrow> nackRequest \<Rightarrow> time \<Rightarrow> nat option \<Rightarrow> bool \<Rightarrow> node \<times> err option" where
  "Nack_node render n req now wrote flushed =
     (let k = spec_Key (nr_Spec req)
      in case lookup n k of
           None \<Rightarrow> (n, Some (NotFound ''queue''))
         | Some lq \<Rightarrow> (case DecodeReceipt (nr_Receipt req) of
             Inl e \<Rightarrow> (n, Some (Invalid (Error e)))
           | Inr r \<Rightarrow>
               (let (q, res) = Nack (lq_q lq) r (nr_Delay req) now; n = put_queue render k lq q n
                in case res of
                     Inl ErrNotInFlight \<Rightarrow> (n, None)
                   | Inl ErrLeaseExpired \<Rightarrow> (n, Some (New_error CodeConflict ''lease expired, message was redelivered''))
                   | Inl e \<Rightarrow> (n, Some (Internal ''nack'' (engine_err e)))
                   | Inr (Some dead) \<Rightarrow> (offerDeadLetter render n k (Slot r) dead wrote flushed, None)
                   | Inr None \<Rightarrow> (notifyWork k n, None))))"

end
