(* ===== verification/NodeMaint.thy ===== *)
theory NodeMaint
  imports Node
begin

text \<open>
  The rest of a node's operations, \<open>backend/queue/logic\<close>: the sweeper, compaction and recovery, the
  node's half of a hand-over (\<open>migration-logic.go\<close>) and the statistics it reports.
\<close>

subsection \<open>Sweeper and compaction (\<open>sweeper-logic.go\<close>)\<close>

text \<open>A visit names a live queue and the order its slots and groups are ranged over.\<close>

definition sweep_one :: "(json \<Rightarrow> bytes) \<Rightarrow> time \<Rightarrow> queueKey \<times> (u16 \<times> string list) list \<Rightarrow> node \<Rightarrow> node" where
  "sweep_one render now x n =
     (let (k, vs) = x
      in case lookup n k of
           None \<Rightarrow> n
         | Some lq \<Rightarrow>
             (let (q, res) = SweepQueue (lq_q lq) vs now;
                  n = put_queue render k lq q n;
                  n = fold (\<lambda>(i, m) n. offerDeadLetter render n k i m None True) (DeadLettered res) n
              in if Redelivered res + Released res > 0 then notifyWork k n else n))"

definition Sweep_node :: "(json \<Rightarrow> bytes) \<Rightarrow> node \<Rightarrow> (queueKey \<times> (u16 \<times> string list) list) list \<Rightarrow> time \<Rightarrow> node" where
  "Sweep_node render n visits now = fold (sweep_one render now) visits n"

text \<open>Compaction of one queue: the marks are read before the snapshot is taken.\<close>

definition compact_queue :: "(json \<Rightarrow> bytes) \<Rightarrow> queueKey \<times> visit list \<Rightarrow> node \<Rightarrow> node" where
  "compact_queue render x n =
     (let (k, vs) = x
      in case lookup n k of
           None \<Rightarrow> n
         | Some lq \<Rightarrow>
             (let d = disk_at n k; marks = Marks (qd_wal d); bySlot = Snapshot (lq_q lq) vs
              in set_disk k (d\<lparr>qd_wal := fold (\<lambda>(i, ms) w. Compact render w i ms (case map_of marks i of None \<Rightarrow> 0 | Some m \<Rightarrow> m))
                     bySlot (qd_wal d)\<rparr>) n))"

definition Compact_node :: "(json \<Rightarrow> bytes) \<Rightarrow> node \<Rightarrow> (queueKey \<times> visit list) list \<Rightarrow> node" where
  "Compact_node render n visits = fold (compact_queue render) visits n"

subsection \<open>Recovery (\<open>recovery-logic.go\<close>)\<close>

definition List_keys :: "node \<Rightarrow> queueKey list" where
  "List_keys n = map fst (n_disk n)"

definition bare_spec :: "queueKey \<Rightarrow> queueSpec" where
  "bare_spec k = no_spec\<lparr>sp_Org := Org k, sp_Name := Name k\<rparr>"

text \<open>One queue: opened from a bare specification, its dead letters restored, its messages absorbed.\<close>

definition recover_one :: "(json \<Rightarrow> bytes) \<Rightarrow> (bytes \<Rightarrow> json option) \<Rightarrow> time \<Rightarrow> (u16 \<Rightarrow> message list \<Rightarrow> string list) \<Rightarrow> queueKey \<Rightarrow> node \<Rightarrow> node" where
  "recover_one render parse now orders k n =
     (case queueFor n (bare_spec k) None of
        (n, Inl _) \<Rightarrow> n
      | (n, Inr lq) \<Rightarrow>
          (let (n, lq) = recoverDeadLetters render parse n k lq; d = disk_at n k
           in case Replay parse (qd_wal d) of
                (w, None) \<Rightarrow> set_disk k (d\<lparr>qd_wal := w\<rparr>) n
              | (w, Some bySlot) \<Rightarrow>
                  (let n = set_disk k (d\<lparr>qd_wal := w\<rparr>) n
                   in if sum_list (map (\<lambda>x. List.length (snd x)) bySlot) = 0 then n
                      else set_live k (lq\<lparr>lq_q := AbsorbQueue (lq_q lq) (map (\<lambda>(i, ms). (i, ms, orders i ms)) bySlot) now\<rparr>) n)))"

definition Recover :: "(json \<Rightarrow> bytes) \<Rightarrow> (bytes \<Rightarrow> json option) \<Rightarrow> node \<Rightarrow> time \<Rightarrow> (u16 \<Rightarrow> message list \<Rightarrow> string list) \<Rightarrow> node" where
  "Recover render parse n now orders = fold (recover_one render parse now orders) (List_keys n) n"

subsection \<open>Hand-over (\<open>migration-logic.go\<close>)\<close>

definition to_wire_map :: "(u16 \<times> message list) list \<Rightarrow> (u16 \<times> wireMessage list) list" where
  "to_wire_map bySlot = map (\<lambda>(i, ms). (i, map ToWire ms)) bySlot"

text \<open>The destructive form; slots that are not to move are absorbed back before the queue thaws.\<close>

definition Freeze_node :: "node \<Rightarrow> queueSpec \<Rightarrow> u16 list \<Rightarrow> visit list \<Rightarrow> (u16 \<Rightarrow> message list \<Rightarrow> string list) \<Rightarrow> time
    \<Rightarrow> node \<times> (u16 \<times> wireMessage list) list" where
  "Freeze_node n spec only vs orders now =
     (let k = spec_Key spec
      in case lookup n k of
           None \<Rightarrow> (n, [])
         | Some lq \<Rightarrow>
             (let (q, bySlot) = Freeze (lq_q lq) vs;
                  back = filter (\<lambda>x. only \<noteq> [] \<and> fst x \<notin> set only) bySlot;
                  q = fold (\<lambda>(i, ms) q. AbsorbQueue q [(i, ms, orders i ms)] now) back q;
                  q = (if only \<noteq> [] then Thaw q else q)
              in (set_live k (lq\<lparr>lq_q := q\<rparr>) n,
                  to_wire_map (filter (\<lambda>x. \<not> (only \<noteq> [] \<and> fst x \<notin> set only)) bySlot))))"

definition move_key :: "queueKey \<Rightarrow> string \<Rightarrow> string" where
  "move_key k moveID = key_string k @ ''/'' @ moveID"

definition claimMove :: "node \<Rightarrow> queueKey \<Rightarrow> string \<Rightarrow> node \<times> bool" where
  "claimMove n k moveID =
     (let x = move_key k moveID
      in if x \<in> set (n_moves n) then (n, False) else (n\<lparr>n_moves := x # n_moves n\<rparr>, True))"

text \<open>Journaling a transfer, message by message; it stops at the first write that fails.\<close>

fun journal_transfer :: "(json \<Rightarrow> bytes) \<Rightarrow> wal \<Rightarrow> (u16 \<times> message) list \<Rightarrow> (nat option \<times> bool) list \<Rightarrow> wal \<times> bool" where
  "journal_transfer render w [] io = (w, True)"
| "journal_transfer render w ((i, m) # ms) io =
     (let (wrote, flushed) = (case io of [] \<Rightarrow> (None, True) | x # _ \<Rightarrow> x);
          (w, ok) = AppendEnqueue_wal render w i m wrote flushed
      in if ok then journal_transfer render w ms (tl io) else (w, False))"

definition transfer_msgs :: "(u16 \<times> wireMessage list) list \<Rightarrow> (u16 \<times> message list) list" where
  "transfer_msgs bySlot = map (\<lambda>(i, ws). (i, map FromWire ws)) bySlot"

definition flat_msgs :: "(u16 \<times> message list) list \<Rightarrow> (u16 \<times> message) list" where
  "flat_msgs bySlot = concat (map (\<lambda>(i, ms). map (Pair i) ms) bySlot)"

definition Absorb_node :: "(json \<Rightarrow> bytes) \<Rightarrow> node \<Rightarrow> transferRequest \<Rightarrow> err option \<Rightarrow> (nat option \<times> bool) list
    \<Rightarrow> (u16 \<Rightarrow> message list \<Rightarrow> string list) \<Rightarrow> time \<Rightarrow> node \<times> err option" where
  "Absorb_node render n req open_err io orders now =
     (case queueFor n (tr_Spec req) open_err of
        (n, Inl e) \<Rightarrow> (n, Some (Internal ''open queue'' e))
      | (n, Inr lq) \<Rightarrow>
          (let k = spec_Key (tr_Spec req);
               (n, fresh) = (if tr_MoveID req \<noteq> [] then claimMove n k (tr_MoveID req) else (n, True))
           in if \<not> fresh then (n, None)
              else
                let d = disk_at n k; bySlot = transfer_msgs (tr_BySlot req);
                    (w, ok) = journal_transfer render (qd_wal d) (flat_msgs bySlot) io;
                    n = set_disk k (d\<lparr>qd_wal := w\<rparr>) n
                in if \<not> ok then (n, Some (Internal ''journal transfer'' (Plain ''write'')))
                   else
                     let q = Thaw (AbsorbQueue (lq_q lq) (map (\<lambda>(i, ms). (i, ms, orders i ms)) bySlot) now);
                         n = set_live k (lq\<lparr>lq_q := q\<rparr>) n
                     in (if flat_msgs bySlot \<noteq> [] then notifyWork k n else n, None)))"

definition PrepareMove :: "node \<Rightarrow> queueSpec \<Rightarrow> visit list \<Rightarrow> node \<times> (u16 \<times> wireMessage list) list" where
  "PrepareMove n spec vs =
     (let k = spec_Key spec
      in case lookup n k of
           None \<Rightarrow> (n, [])
         | Some lq \<Rightarrow> (let (q, bySlot) = FreezeSlots (lq_q lq) vs in (set_live k (lq\<lparr>lq_q := q\<rparr>) n, to_wire_map bySlot)))"

definition DiscardMove :: "node \<Rightarrow> queueSpec \<Rightarrow> visit list \<Rightarrow> node" where
  "DiscardMove n spec vs =
     (let k = spec_Key spec
      in case lookup n k of
           None \<Rightarrow> n
         | Some lq \<Rightarrow>
             (let (q, _) = DropSlots (lq_q lq) vs; d = disk_at n k
              in set_live k (lq\<lparr>lq_q := q\<rparr>) (set_disk k (d\<lparr>qd_wal := fold (\<lambda>v w. Drop_wal w (fst v)) vs (qd_wal d)\<rparr>) n)))"

definition AbortMove :: "node \<Rightarrow> queueSpec \<Rightarrow> u16 list \<Rightarrow> node" where
  "AbortMove n spec is =
     (let k = spec_Key spec
      in case lookup n k of None \<Rightarrow> n | Some lq \<Rightarrow> set_live k (lq\<lparr>lq_q := ThawSlots (lq_q lq) is\<rparr>) n)"

definition HeldSlots_node :: "node \<Rightarrow> heldResponse" where
  "HeldSlots_node n = \<lparr>hr_NodeID = n_id n, hr_Queues = map (\<lambda>(k, lq). \<lparr>hs_Org = Org k, hs_Name = Name k,
     hs_Slots = HeldSlots (lq_q lq), hs_Frozen = FrozenSlots (lq_q lq)\<rparr>) (n_queues n)\<rparr>"

subsection \<open>Statistics (\<open>stats-logic.go\<close>)\<close>

definition Stats_node :: "node \<Rightarrow> queueSpec \<Rightarrow> time \<Rightarrow> err + queueStats" where
  "Stats_node n spec now =
     (case lookup n (spec_Key spec) of
        None \<Rightarrow> Inl (NotFound ''queue'')
      | Some lq \<Rightarrow> Inr (toStats (spec_Key spec) (StatsQueue (lq_q lq) now)))"

definition StatsAll :: "node \<Rightarrow> time \<Rightarrow> string \<times> queueStats list" where
  "StatsAll n now = (n_id n, map (\<lambda>(k, lq). toStats k (StatsQueue (lq_q lq) now)) (n_queues n))"

subsection \<open>What these operations leave alone\<close>

lemma lookup_set_live [simp]: "lookup (set_live k lq n) k' = (if k' = k then Some lq else lookup n k')"
  by (simp add: lookup_def set_live_def map_of_eq_None_iff update_conv')

lemma lookup_set_disk [simp]: "lookup (set_disk k d n) k' = lookup n k'"
  by (simp add: lookup_def set_disk_def)

lemma lookup_notify [simp]: "lookup (notifyWork k n) k' = lookup n k'"
  by (simp add: lookup_def notifyWork_def)

lemma disk_set_live [simp]: "disk_at (set_live k lq n) k' = disk_at n k'"
  by (simp add: disk_at_def set_live_def split: option.split)

lemma disk_notify [simp]: "disk_at (notifyWork k n) k' = disk_at n k'"
  by (simp add: disk_at_def notifyWork_def split: option.split)

lemma disk_set_other: "dir k' \<noteq> dir k \<Longrightarrow> disk_at (set_disk k' d n) k = disk_at n k"
  by (simp add: disk_at_def set_disk_def update_conv' split: option.split)

lemma disk_set_same [simp]: "disk_at (set_disk k d n) k = d\<lparr>qd_wal := (qd_wal d)\<lparr>wsync := n_sync n\<rparr>\<rparr>"
  by (simp add: disk_at_def set_disk_def update_conv')

lemma live_set_disk [simp]: "n_queues (set_disk k d n) = n_queues n"
  by (simp add: set_disk_def)

lemma keys_set_live: "lookup n k = Some l \<Longrightarrow> map fst (n_queues (set_live k lq n)) = map fst (n_queues n)"
  by (force simp: set_live_def lookup_def update_keys dest: map_of_SomeD)

lemma inc_set [simp]: "n_inc (set_live k lq n) = n_inc n" "n_inc (set_disk k d n) = n_inc n" "n_inc (notifyWork k n) = n_inc n"
  by (simp_all add: set_live_def set_disk_def notifyWork_def)

end
