(* ===== verification/NodeProps.thy ===== *)
theory NodeProps
  imports NodeMaint QueueInv
begin

text \<open>
  What a node promises about receipts, retried hand-overs and dead letters, and where the retry of a
  hand-over falls short.
\<close>

subsection \<open>Opening a queue\<close>

lemma queueFor_ok:
  assumes "queueFor n spec e = (n', Inr lq)"
  shows "lookup n' (spec_Key spec) = Some lq"
    "slots (lq_q lq) = (case lookup n (spec_Key spec) of None \<Rightarrow> [] | Some l \<Rightarrow> slots (lq_q l))"
    "incarnation (lq_q lq) = (case lookup n (spec_Key spec) of None \<Rightarrow> n_inc n | Some l \<Rightarrow> incarnation (lq_q l))"
    "n_moves n' = n_moves n" "n_inc n' = n_inc n"
  using assms
  by (auto simp: queueFor_def Let_def Reconfigure_def New_def set_live_def set_disk_def lookup_def update_conv'
      split: option.splits if_splits)

lemma queueFor_live: "lookup n (spec_Key spec) = Some l \<Longrightarrow> \<exists>n' lq. queueFor n spec e = (n', Inr lq)"
  by (simp add: queueFor_def Let_def)

subsection \<open>Receipts and restarts\<close>

lemma Ack_stale: "Incarnation r \<noteq> incarnation q \<Longrightarrow> Ack q r = (q, Some ErrLeaseExpired)"
  by (simp add: Ack_def)


definition demo_spec :: queueSpec where
  "demo_spec = no_spec\<lparr>sp_Org := ''o'', sp_Name := ''n''\<rparr>"


subsection \<open>Retried hand-overs\<close>

lemma claimMove_simps:
  "claimMove n k x = (if move_key k x \<in> set (n_moves n) then (n, False) else (n\<lparr>n_moves := move_key k x # n_moves n\<rparr>, True))"
  by (simp add: claimMove_def Let_def)

text \<open>A hand-over the node has seen, whatever became of it, is answered with success and changes no queue.\<close>

lemma Absorb_claimed:
  assumes "lookup n (spec_Key (tr_Spec req)) = Some l" and "tr_MoveID req \<noteq> []"
    and "move_key (spec_Key (tr_Spec req)) (tr_MoveID req) \<in> set (n_moves n)"
  shows "\<exists>n' lq. Absorb_node render n req e io orders now = (n', None) \<and> lookup n' (spec_Key (tr_Spec req)) = Some lq \<and>
    slots (lq_q lq) = slots (lq_q l)"
proof -
  obtain n1 lq where q: "queueFor n (tr_Spec req) e = (n1, Inr lq)" using queueFor_live [OF assms(1)] by blast
  note s = queueFor_ok [OF q]
  have "Absorb_node render n req e io orders now = (n1, None)"
    using q s(4) assms(2,3) by (simp add: Absorb_node_def Let_def claimMove_simps)
  moreover have "slots (lq_q lq) = slots (lq_q l)" using s(2) assms(1) by simp
  ultimately show ?thesis using s(1) by blast
qed

lemma Absorb_first:
  assumes q: "queueFor n (tr_Spec req) e = (n1, Inr lq)" and "tr_MoveID req \<noteq> []"
    and "move_key (spec_Key (tr_Spec req)) (tr_MoveID req) \<notin> set (n_moves n)"
  shows "\<exists>n' err l. Absorb_node render n req e io orders now = (n', err) \<and> lookup n' (spec_Key (tr_Spec req)) = Some l \<and>
    move_key (spec_Key (tr_Spec req)) (tr_MoveID req) \<in> set (n_moves n') \<and>
    (err = None \<longleftrightarrow> snd (journal_transfer render (qd_wal (disk_at n1 (spec_Key (tr_Spec req)))) (flat_msgs (transfer_msgs (tr_BySlot req))) io)) \<and>
    (err \<noteq> None \<longrightarrow> slots (lq_q l) = slots (lq_q lq))"
proof -
  let ?k = "spec_Key (tr_Spec req)"
  note s = queueFor_ok [OF q]
  have c: "claimMove n1 ?k (tr_MoveID req) = (n1\<lparr>n_moves := move_key ?k (tr_MoveID req) # n_moves n1\<rparr>, True)"
    using s(4) assms(3) by (simp add: claimMove_simps)
  have d: "disk_at (n1\<lparr>n_moves := ms\<rparr>) ?k = disk_at n1 ?k" for ms by (simp add: disk_at_def split: option.split)
  obtain w ok where j: "journal_transfer render (qd_wal (disk_at n1 ?k)) (flat_msgs (transfer_msgs (tr_BySlot req))) io = (w, ok)"
    by fastforce
  show ?thesis
  proof (cases ok)
    case True
    then show ?thesis using q assms(2) c j
      by (simp add: Absorb_node_def Let_def d) (auto simp: set_live_def set_disk_def notifyWork_def lookup_def update_conv')
  next
    case False
    then show ?thesis using q assms(2) c j s(1)
      by (simp add: Absorb_node_def Let_def d) (auto simp: set_disk_def lookup_def)
  qed
qed

definition demo_node :: node where
  "demo_node = New_node ''x'' 8 SyncAlways []"

definition demo_transfer :: transferRequest where
  "demo_transfer = \<lparr>tr_MoveID = ''mv'', tr_Spec = demo_spec, tr_BySlot = [(3, [ToWire (zero_message\<lparr>ID := ''a'', Priority := 50, Seq := 1\<rparr>)])]\<rparr>"

lemma demo_open: "\<exists>n lq. queueFor demo_node (tr_Spec demo_transfer) None = (n, Inr lq) \<and> slots (lq_q lq) = []"
  by (simp add: queueFor_def Let_def demo_node_def New_node_def lookup_def New_def)

lemma demo_fresh: "tr_MoveID demo_transfer \<noteq> []" "k \<notin> set (n_moves demo_node)"
  by (simp_all add: demo_transfer_def demo_node_def New_node_def)

lemma demo_journal: "snd (journal_transfer render w (flat_msgs (transfer_msgs (tr_BySlot demo_transfer))) []) = True"
  "snd (journal_transfer render w (flat_msgs (transfer_msgs (tr_BySlot demo_transfer))) [(Some 0, True)]) = False"
  by (simp_all add: demo_transfer_def flat_msgs_def transfer_msgs_def AppendEnqueue_wal_def append_wal_def Let_def)

text \<open>Absorbing a transfer twice is absorbing it once: once a node has answered a hand-over with
  success, a retry under the same name is answered with success and adds nothing.\<close>

theorem absorb_retry_adds_nothing:
  assumes "queueFor n (tr_Spec req) e = (n1, Inr lq)" and "tr_MoveID req \<noteq> []"
    and "move_key (spec_Key (tr_Spec req)) (tr_MoveID req) \<notin> set (n_moves n)"
    and "Absorb_node render n req e io orders now = (n2, None)"
  shows "\<exists>n3 l2 l3. Absorb_node render n2 req e io' orders' later = (n3, None) \<and>
    lookup n2 (spec_Key (tr_Spec req)) = Some l2 \<and> lookup n3 (spec_Key (tr_Spec req)) = Some l3 \<and>
    slots (lq_q l3) = slots (lq_q l2)"
  using Absorb_first [OF assms(1-3), of render io orders now] assms(4)
    Absorb_claimed [OF _ assms(2), of n2, where e = e and render = render and io = io' and orders = orders' and now = later]
  by auto

theorem absorb_retry_adds_nothing_witness:
  "\<exists>n2 n3 l2 l3. Absorb_node (\<lambda>_. []) demo_node demo_transfer None [] (\<lambda>_ _. [''a'']) 5 = (n2, None) \<and>
    Absorb_node (\<lambda>_. []) n2 demo_transfer None [] (\<lambda>_ _. [''a'']) 6 = (n3, None) \<and>
    lookup n2 (spec_Key (tr_Spec demo_transfer)) = Some l2 \<and> lookup n3 (spec_Key (tr_Spec demo_transfer)) = Some l3 \<and>
    slots (lq_q l3) = slots (lq_q l2)"
proof -
  obtain n lq where q: "queueFor demo_node (tr_Spec demo_transfer) None = (n, Inr lq)" using demo_open by blast
  obtain n2 where a: "Absorb_node (\<lambda>_. []) demo_node demo_transfer None [] (\<lambda>_ _. [''a'']) 5 = (n2, None)"
    using Absorb_first [OF q demo_fresh, of "\<lambda>_. []" "[]" "\<lambda>_ _. [''a'']" 5] by (auto simp: demo_journal)
  from absorb_retry_adds_nothing [OF q demo_fresh a] a show ?thesis by blast
qed

text \<open>C18: Counterexample: the name of a hand-over is recorded before its messages are, so a first attempt
  that failed to journal them makes the retry a success that absorbed nothing. The gateway then
  discards the slots at their old owner, and the messages are gone.\<close>

theorem absorb_retry_loses:
  assumes "queueFor n (tr_Spec req) e = (n1, Inr lq)" and "tr_MoveID req \<noteq> []"
    and "move_key (spec_Key (tr_Spec req)) (tr_MoveID req) \<notin> set (n_moves n)"
    and "Absorb_node render n req e io orders now = (n2, Some err)"
  shows "\<exists>n3 l3. Absorb_node render n2 req e io' orders' later = (n3, None) \<and>
    lookup n3 (spec_Key (tr_Spec req)) = Some l3 \<and> slots (lq_q l3) = slots (lq_q lq)"
  using Absorb_first [OF assms(1-3), of render io orders now] assms(4)
    Absorb_claimed [OF _ assms(2), of n2, where e = e and render = render and io = io' and orders = orders' and now = later]
  by fastforce

theorem absorb_retry_loses_witness:
  "\<exists>n2 err n3 l3. Absorb_node (\<lambda>_. []) demo_node demo_transfer None [(Some 0, True)] (\<lambda>_ _. [''a'']) 5 = (n2, Some err) \<and>
    Absorb_node (\<lambda>_. []) n2 demo_transfer None [] (\<lambda>_ _. [''a'']) 6 = (n3, None) \<and>
    lookup n3 (spec_Key (tr_Spec demo_transfer)) = Some l3 \<and> slots (lq_q l3) = []"
proof -
  obtain n lq where q: "queueFor demo_node (tr_Spec demo_transfer) None = (n, Inr lq)" and e: "slots (lq_q lq) = []"
    using demo_open by blast
  obtain n2 err where a: "Absorb_node (\<lambda>_. []) demo_node demo_transfer None [(Some 0, True)] (\<lambda>_ _. [''a'']) 5 = (n2, Some err)"
    using Absorb_first [OF q demo_fresh, of "\<lambda>_. []" "[(Some 0, True)]" "\<lambda>_ _. [''a'']" 5] by (auto simp: demo_journal)
  from absorb_retry_loses [OF q demo_fresh a] a e show ?thesis by metis
qed

end
