(* ===== verification/NodeDead.thy ===== *)
theory NodeDead
  imports NodeProps WalProps
begin

text \<open>
  Dead letters across a restart: what a node owes the gateway is what its log gives back
  (\<open>backend/queue/logic/deadletter-logic.go\<close> over \<open>backend/queue/repo/walfile/deadletters.go\<close>).
\<close>

subsection \<open>Events\<close>

datatype dead_ev = DOffer u16 message | DAck "string list"

fun dead_event :: "(json \<Rightarrow> bytes) \<Rightarrow> queueKey \<Rightarrow> dead_ev \<Rightarrow> node \<Rightarrow> node" where
  "dead_event render k (DOffer i m) n = offerDeadLetter render n k i m None True"
| "dead_event render k (DAck ids) n = AckDeadLetters render n ids"

fun dead_fits :: "(json \<Rightarrow> bytes) \<Rightarrow> dead_ev \<Rightarrow> bool" where
  "dead_fits render (DOffer i m) \<longleftrightarrow> fits (render (dl_json (DLetter i m))) \<and> fits (render (dl_json (DDrained (ID m))))"
| "dead_fits render (DAck ids) \<longleftrightarrow> True"

text \<open>A letter as the log keeps it.\<close>

definition strip :: "pendingDeadLetter \<Rightarrow> pendingDeadLetter" where
  "strip d = d\<lparr>pd_Msg := (pd_Msg d)\<lparr>Attempts := 0\<rparr>\<rparr>"

subsection \<open>The log and the letters in memory\<close>

definition queues_apart :: "node \<Rightarrow> bool" where
  "queues_apart n \<longleftrightarrow> distinct (map fst (n_queues n)) \<and> inj_on dir (set (map fst (n_queues n)))"

definition letters_logged :: "(json \<Rightarrow> bytes) \<Rightarrow> liveQueue \<Rightarrow> bytes \<Rightarrow> dlop list \<Rightarrow> bool" where
  "letters_logged render lq file ps \<longleftrightarrow>
     file = dl_log render ps \<and> dl_live ps = (\<lambda>i. map_option strip (map_of (lq_dl lq) i)) \<and>
     (\<forall>i d. map_of (lq_dl lq) i = Some d \<longrightarrow> ID (pd_Msg d) = i \<and> fits (render (dl_json (DDrained i)))) \<and>
     (\<forall>p \<in> set ps. fits (render (dl_json p))) \<and> distinct (map fst (lq_dl lq))"

lemma dl_live_snoc: "dl_live (ps @ [p]) = dl_step p (dl_live ps)"
  by (simp add: dl_live_def)

lemma dl_live_drained: "dl_live (ps @ map DDrained ds) = (\<lambda>i. if i \<in> set ds then None else dl_live ps i)"
proof (induction ds rule: rev_induct)
  case (snoc d ds)
  have "dl_live (ps @ map DDrained (ds @ [d])) = dl_step (DDrained d) (dl_live (ps @ map DDrained ds))"
    using dl_live_snoc [of "ps @ map DDrained ds" "DDrained d"] by simp
  with snoc show ?case by (auto simp: fun_eq_iff)
qed (simp add: dl_live_def)

lemma dl_log_snoc: "dl_log render (ps @ [p]) = dl_log render ps @ encode render (dl_kind p) (dl_json p)"
  by (simp add: dl_log_def)

lemma dl_log_drained:
  "fold (\<lambda>i file. fst (AppendDeadLetterDrained render file i None)) ds (dl_log render ps) = dl_log render (ps @ map DDrained ds)"
  by (induction ds rule: rev_induct) (simp_all add: AppendDeadLetterDrained_def write_log_def dl_log_def)

lemma map_of_filter_fst: "map_of (filter (\<lambda>e. P (fst e)) xs) i = (if P i then map_of xs i else None)"
  by (induction xs) auto

lemma letters_offer:
  assumes "letters_logged render lq file ps" and "dead_fits render (DOffer i m)"
  shows "letters_logged render (lq\<lparr>lq_dl := AList.update (ID m) \<lparr>pd_Slot = i, pd_Msg = m\<rparr> (lq_dl lq)\<rparr>)
    (fst (AppendDeadLetter render file i m None True)) (ps @ [DLetter i m])"
  using assms
  by (auto simp: letters_logged_def AppendDeadLetter_def write_log_def dl_log_snoc dl_live_snoc fun_eq_iff strip_def
      update_conv' distinct_update)

lemma letters_ack:
  assumes "letters_logged render lq file ps" and "ds = filter (\<lambda>i. i \<in> set ids) (map fst (lq_dl lq))"
  shows "letters_logged render (lq\<lparr>lq_dl := filter (\<lambda>e. fst e \<notin> set ds) (lq_dl lq)\<rparr>)
    (fold (\<lambda>i file. fst (AppendDeadLetterDrained render file i None)) ds file) (ps @ map DDrained ds)"
proof -
  have m: "map_of (filter (\<lambda>e. fst e \<notin> set ds) (lq_dl lq)) = (\<lambda>i. if i \<in> set ds then None else map_of (lq_dl lq) i)"
    using map_of_filter_fst [of "\<lambda>i. i \<notin> set ds" "lq_dl lq"] by (simp add: fun_eq_iff)
  have f: "fits (render (dl_json (DDrained i)))" if "i \<in> set ds" for i
  proof -
    have "i \<in> fst ` set (lq_dl lq)" using that assms(2) by auto
    then obtain d where "map_of (lq_dl lq) i = Some d" by (metis map_of_eq_None_iff not_None_eq)
    with assms(1) show ?thesis unfolding letters_logged_def by blast
  qed
  have a: "file = dl_log render ps" "dl_live ps = (\<lambda>i. map_option strip (map_of (lq_dl lq) i))"
    "\<forall>i d. map_of (lq_dl lq) i = Some d \<longrightarrow> ID (pd_Msg d) = i \<and> fits (render (dl_json (DDrained i)))"
    "\<forall>p \<in> set ps. fits (render (dl_json p))" "distinct (map fst (lq_dl lq))"
    using assms(1) by (simp_all add: letters_logged_def)
  show ?thesis unfolding letters_logged_def
  proof (intro conjI)
    show "\<forall>p \<in> set (ps @ map DDrained ds). fits (render (dl_json p))" using a(4) f by auto
    show "distinct (map fst (lq_dl (lq\<lparr>lq_dl := filter (\<lambda>e. fst e \<notin> set ds) (lq_dl lq)\<rparr>)))"
      using a(5) by (simp add: distinct_map_filter)
  qed (use a in \<open>simp_all add: a(1) dl_log_drained dl_live_drained m fun_eq_iff\<close>)
qed

subsection \<open>One event on a node\<close>

lemma ack_other:
  assumes "k' \<noteq> k" and "dir k' \<noteq> dir k"
  shows "lookup (ack_dead_queue render ids (k', l) n) k = lookup n k"
    "disk_at (ack_dead_queue render ids (k', l) n) k = disk_at n k"
  using assms by (simp_all add: ack_dead_queue_def Let_def disk_set_other)

lemma ack_others:
  assumes "\<forall>x \<in> set xs. fst x \<noteq> k \<and> dir (fst x) \<noteq> dir k"
  shows "lookup (fold (ack_dead_queue render ids) xs n) k = lookup n k \<and> disk_at (fold (ack_dead_queue render ids) xs n) k = disk_at n k"
  using assms by (induction xs arbitrary: n) (auto simp: ack_other)

definition letters_kept :: "(json \<Rightarrow> bytes) \<Rightarrow> queueKey \<Rightarrow> node \<Rightarrow> dlop list \<Rightarrow> nat \<Rightarrow> bool" where
  "letters_kept render k n ps N \<longleftrightarrow> queues_apart n \<and>
     (\<exists>lq. lookup n k = Some lq \<and> letters_logged render lq (qd_dl (disk_at n k)) ps \<and> List.length (lq_dl lq) \<le> N)"

lemma apart_set_live: "queues_apart n \<Longrightarrow> lookup n k = Some l \<Longrightarrow> queues_apart (set_live k lq n)"
  by (simp add: queues_apart_def keys_set_live del: map_map)

lemma apart_set_disk [simp]: "queues_apart (set_disk k d n) = queues_apart n"
  by (simp add: queues_apart_def)

lemma length_update: "List.length (AList.update k v al) \<le> Suc (List.length al)"
  by (induction al) auto

lemma kept_offer:
  assumes "letters_kept render k n ps N" and "dead_fits render (DOffer i m)" and "N < maxPendingDeadLetters"
  shows "letters_kept render k (offerDeadLetter render n k i m None True) (ps @ [DLetter i m]) (Suc N)"
proof -
  obtain lq where a: "queues_apart n" "lookup n k = Some lq" "letters_logged render lq (qd_dl (disk_at n k)) ps" "List.length (lq_dl lq) \<le> N"
    using assms(1) by (auto simp: letters_kept_def)
  let ?lq = "lq\<lparr>lq_dl := AList.update (ID m) \<lparr>pd_Slot = i, pd_Msg = m\<rparr> (lq_dl lq)\<rparr>"
  obtain f where f: "AppendDeadLetter render (qd_dl (disk_at n k)) i m None True = (f, True)" by (simp add: AppendDeadLetter_def)
  then have e: "offerDeadLetter render n k i m None True = set_live k ?lq (set_disk k ((disk_at n k)\<lparr>qd_dl := f\<rparr>) n)"
    using a assms(3) by (simp add: offerDeadLetter_def Let_def)
  have "List.length (lq_dl ?lq) \<le> Suc N" using a(4) length_update [of "ID m" "\<lparr>pd_Slot = i, pd_Msg = m\<rparr>" "lq_dl lq"] by simp
  moreover have "queues_apart (set_live k ?lq (set_disk k ((disk_at n k)\<lparr>qd_dl := f\<rparr>) n))"
    by (rule apart_set_live [where l = lq]) (simp_all add: a)
  ultimately show ?thesis using letters_offer [OF a(3) assms(2)] f by (simp add: letters_kept_def e)
qed

lemma kept_ack_one:
  assumes "lookup n k' = Some l"
  shows "map fst (n_queues (ack_dead_queue render ids (k', l') n)) = map fst (n_queues n)"
  by (simp add: ack_dead_queue_def Let_def keys_set_live [where l = l] assms del: map_map)

lemma kept_ack_keys:
  assumes "set (map fst xs) \<subseteq> set (map fst (n_queues n))"
  shows "map fst (n_queues (fold (ack_dead_queue render ids) xs n)) = map fst (n_queues n)"
  using assms
proof (induction xs arbitrary: n)
  case (Cons x xs)
  obtain l where "lookup n (fst x) = Some l"
    using Cons.prems unfolding lookup_def by (metis list.set_intros(1) list.simps(9) map_of_eq_None_iff not_None_eq set_map subsetD)
  then have k: "map fst (n_queues (ack_dead_queue render ids x n)) = map fst (n_queues n)"
    using kept_ack_one [of n "fst x" _ render ids "snd x"] by simp
  have "set (map fst xs) \<subseteq> set (map fst (n_queues (ack_dead_queue render ids x n)))" unfolding k using Cons.prems by simp
  from Cons.IH [OF this] k show ?case by simp
qed simp

lemma kept_ack:
  assumes "letters_kept render k n ps N"
  shows "\<exists>ps'. letters_kept render k (AckDeadLetters render n ids) ps' N"
proof -
  obtain lq where a: "queues_apart n" "lookup n k = Some lq" "letters_logged render lq (qd_dl (disk_at n k)) ps" "List.length (lq_dl lq) \<le> N"
    using assms(1) by (auto simp: letters_kept_def)
  have "(k, lq) \<in> set (n_queues n)" using a(2) by (auto simp: lookup_def dest: map_of_SomeD)
  then obtain xs ys where q: "n_queues n = xs @ (k, lq) # ys" by (meson split_list)
  have o: "\<forall>x \<in> set xs. fst x \<noteq> k \<and> dir (fst x) \<noteq> dir k" "\<forall>x \<in> set ys. fst x \<noteq> k \<and> dir (fst x) \<noteq> dir k"
  proof -
    have "k \<notin> fst ` set xs" "k \<notin> fst ` set ys" and i: "inj_on dir (insert k (fst ` set xs \<union> fst ` set ys))"
      using a(1) q by (auto simp: queues_apart_def)
    moreover have "x \<in> set xs \<union> set ys \<Longrightarrow> dir (fst x) = dir k \<Longrightarrow> fst x = k" for x
      by (rule inj_onD [OF i]) auto
    ultimately show "\<forall>x \<in> set xs. fst x \<noteq> k \<and> dir (fst x) \<noteq> dir k" "\<forall>x \<in> set ys. fst x \<noteq> k \<and> dir (fst x) \<noteq> dir k"
      by (metis UnI1 UnI2 imageI)+
  qed
  let ?n1 = "fold (ack_dead_queue render ids) xs n"
  let ?ds = "filter (\<lambda>i. i \<in> set ids) (map fst (lq_dl lq))"
  let ?lq = "lq\<lparr>lq_dl := filter (\<lambda>e. fst e \<notin> set ?ds) (lq_dl lq)\<rparr>"
  note one = ack_others [OF o(1), of render ids n]
  have "lookup (ack_dead_queue render ids (k, lq) ?n1) k = Some ?lq" by (simp add: ack_dead_queue_def Let_def)
  moreover have "qd_dl (disk_at (ack_dead_queue render ids (k, lq) ?n1) k)
      = fold (\<lambda>i file. fst (AppendDeadLetterDrained render file i None)) ?ds (qd_dl (disk_at n k))"
    using one by (simp add: ack_dead_queue_def Let_def)
  ultimately have l: "lookup (AckDeadLetters render n ids) k = Some ?lq"
    and d: "qd_dl (disk_at (AckDeadLetters render n ids) k) = fold (\<lambda>i file. fst (AppendDeadLetterDrained render file i None)) ?ds (qd_dl (disk_at n k))"
    using ack_others [OF o(2), of render ids "ack_dead_queue render ids (k, lq) ?n1"] by (simp_all add: AckDeadLetters_def q)
  have "map fst (n_queues (AckDeadLetters render n ids)) = map fst (n_queues n)"
    unfolding AckDeadLetters_def by (rule kept_ack_keys) simp
  then have ap: "queues_apart (AckDeadLetters render n ids)" using a(1) by (simp add: queues_apart_def del: map_map)
  have "\<And>P. List.length (filter P (lq_dl lq)) \<le> N" by (rule le_trans [OF length_filter_le a(4)])
  then have "List.length (lq_dl ?lq) \<le> N" by simp
  with l d ap letters_ack [OF a(3) refl, of ids] show ?thesis unfolding letters_kept_def by fastforce
qed

lemma kept_run:
  assumes "letters_kept render k n ps N" and "\<forall>e \<in> set es. dead_fits render e" and "N + List.length es \<le> maxPendingDeadLetters"
  shows "\<exists>ps'. letters_kept render k (fold (dead_event render k) es n) ps' (N + List.length es)"
  using assms
proof (induction es arbitrary: n ps N)
  case (Cons e es)
  have "\<exists>ps'. letters_kept render k (dead_event render k e n) ps' (Suc N)"
  proof (cases e)
    case (DOffer i m)
    then show ?thesis using kept_offer [OF Cons.prems(1), of i m] Cons.prems by auto
  next
    case (DAck ids)
    have "letters_kept render k n' ps' N \<Longrightarrow> letters_kept render k n' ps' (Suc N)" for n' ps'
      by (auto simp: letters_kept_def)
    with kept_ack [OF Cons.prems(1), of ids] DAck show ?thesis by auto
  qed
  then obtain ps' where "letters_kept render k (dead_event render k e n) ps' (Suc N)" by blast
  from Cons.IH [OF this] Cons.prems show ?case by simp
qed auto

subsection \<open>Recovery\<close>

lemma map_of_fold_update:
  assumes "\<And>x. x \<in> set ds \<Longrightarrow> f (key x) = Some x"
  shows "map_of (fold (\<lambda>x. AList.update (key x) x) ds al) i = (if \<exists>x \<in> set ds. key x = i then f i else map_of al i)"
  using assms by (induction ds arbitrary: al) (auto simp: update_conv')

lemma recover_letters:
  assumes j: "json_text render parse" and l: "letters_logged render lq file ps" and d: "qd_dl (disk_at n k) = file" and e: "lq_dl l0 = []"
  shows "map_of (lq_dl (snd (recoverDeadLetters render parse n k l0))) i = map_option strip (map_of (lq_dl lq) i)"
proof -
  have a: "file = dl_log render ps" "dl_live ps = (\<lambda>i. map_option strip (map_of (lq_dl lq) i))"
    "\<forall>i d. map_of (lq_dl lq) i = Some d \<longrightarrow> ID (pd_Msg d) = i" "\<And>p. p \<in> set ps \<Longrightarrow> fits (render (dl_json p))"
    using l by (simp_all add: letters_logged_def)
  obtain ds where r: "ReplayDeadLetters parse (dl_log render ps) = Some (ds, dl_log render ps)" and ds: "set ds = ran (dl_live ps)"
    using replay_dl_log [OF j a(4)] by blast
  have key: "dl_live ps (ID (pd_Msg x)) = Some x" if "x \<in> set ds" for x
  proof -
    have "x \<in> ran (dl_live ps)" using that ds by (simp only:)
    then obtain i where "dl_live ps i = Some x" unfolding ran_def by blast
    then obtain y where y: "map_of (lq_dl lq) i = Some y" "x = strip y" unfolding a(2) by auto
    then have "ID (pd_Msg x) = i" using a(3) by (simp add: strip_def)
    with y a(2) show ?thesis by simp
  qed
  have mem: "(\<exists>x \<in> set ds. ID (pd_Msg x) = i) \<longleftrightarrow> dl_live ps i \<noteq> None"
  proof
    assume "dl_live ps i \<noteq> None"
    then obtain x where x: "dl_live ps i = Some x" by blast
    then have "x \<in> set ds" using ds by (auto simp: ran_def)
    moreover have "ID (pd_Msg x) = i" using x a(2,3) by (auto simp: strip_def)
    ultimately show "\<exists>x \<in> set ds. ID (pd_Msg x) = i" by blast
  qed (use key in auto)
  have "map_of (fold (\<lambda>x. AList.update (ID (pd_Msg x)) x) ds []) i = dl_live ps i"
    using map_of_fold_update [of ds "dl_live ps" "\<lambda>x. ID (pd_Msg x)" "[]" i] key mem by auto
  moreover have "ds = [] \<Longrightarrow> dl_live ps i = None" using mem by simp
  ultimately show ?thesis using r d e a(1,2)
    by (cases "ds = []") (simp_all add: recoverDeadLetters_def Let_def)
qed


definition dead_js :: "json list" where
  "dead_js = [dl_json (DLetter 3 demo_msg), dl_json (DDrained ''a'')]"

definition dead_node :: node where
  "dead_node = fst (queueFor demo_node demo_spec None)"

lemma dead_node: "\<exists>lq. lookup dead_node (spec_Key demo_spec) = Some lq \<and> lq_dl lq = []"
  "queues_apart dead_node" "qd_dl (disk_at dead_node (spec_Key demo_spec)) = []"
  by (simp_all add: dead_node_def queueFor_def Let_def demo_node_def New_node_def lookup_def set_live_def set_disk_def disk_at_def
      queues_apart_def)

lemma dead_fits_demo: "\<forall>e \<in> set [DOffer 3 demo_msg, DAck []]. dead_fits (demo_render dead_js) e"
proof -
  have "ID demo_msg = ''a''" by (simp add: demo_msg_def)
  then show ?thesis by (auto intro!: demo_fits simp: dead_js_def simp del: dl_json.simps)
qed


end
