(* ===== verification/Proto.thy ===== *)
theory Proto
  imports Entity
begin

text \<open>
  The messages of \<open>backend/proto/queue/v1/queue.proto\<close> and the conversions on both ends of the network:
  \<open>backend/queue/controller/convert.go\<close> and \<open>v1-migrate.go\<close> at the node, and the functions at the end
  of \<open>backend/gateway/repo/nodegrpc/nodegrpc.go\<close> at the gateway.  The generated Go types are records
  with the fields of the \<open>.proto\<close> file; a nanosecond count in an \<open>int64\<close> field is an integer, and
  zero for a time that is absent.
\<close>

subsection \<open>Messages\<close>

record pbSpec =
  pb_org :: string
  pb_name :: string
  pb_visibility_timeout_ns :: int
  pb_max_retries :: u32
  pb_default_ttl_ns :: int
  pb_starvation_threshold_ns :: int
  pb_starvation_reserve :: rat
  pb_max_depth :: int
  pb_distributed :: bool
  pb_generation :: u64
  pb_has_dead_letter :: bool
  pb_starvation_avoidance_enabled :: bool

record pbWire =
  pb_id :: string
  pb_payload :: bytes
  pb_priority :: u32
  pb_group_id :: string
  pb_seq :: u64
  pb_enqueued_at_unix_ns :: int
  pb_expires_at_unix_ns :: int
  pb_deliver_after_unix_ns :: int
  pb_attempts :: u32

record pbStats =
  pb_st_org :: string
  pb_st_name :: string
  pb_ready :: "int list"
  pb_in_flight :: int
  pb_delayed :: int
  pb_oldest_age_ns :: int
  pb_enqueued :: nat
  pb_acked :: nat
  pb_expired :: nat
  pb_requeued :: nat
  pb_dead_lettered :: nat
  pb_escapes :: nat
  pb_top_ready :: int

record pbTransfer =
  pb_t_spec :: "pbSpec option"
  pb_by_slot :: "(u32 \<times> pbWire list) list"
  pb_move_id :: string

record pbHeld =
  pb_h_org :: string
  pb_h_queue :: string
  pb_h_slots :: "u32 list"
  pb_h_frozen :: "u32 list"

text \<open>\<open>int16(x)\<close> of a 32-bit value.\<close>

definition to_int16 :: "int \<Rightarrow> int" where
  "to_int16 x = (x + 32768) mod 65536 - 32768"

subsection \<open>The node's conversions\<close>

definition specFrom :: "pbSpec option \<Rightarrow> queueSpec" where
  "specFrom p = (case p of None \<Rightarrow> no_spec | Some p \<Rightarrow>
     \<lparr>sp_Org = pb_org p, sp_Name = pb_name p, sp_VisibilityTimeout = pb_visibility_timeout_ns p, sp_MaxRetries = pb_max_retries p,
      sp_DefaultTTL = pb_default_ttl_ns p, sp_StarvationThreshold = pb_starvation_threshold_ns p,
      sp_StarvationReserve = pb_starvation_reserve p, sp_StarvationAvoidanceEnabled = pb_starvation_avoidance_enabled p,
      sp_MaxDepth = pb_max_depth p, sp_Distributed = pb_distributed p, sp_HasDeadLetter = pb_has_dead_letter p,
      sp_Generation = pb_generation p\<rparr>)"

definition specTo :: "queueSpec \<Rightarrow> pbSpec" where
  "specTo s = \<lparr>pb_org = sp_Org s, pb_name = sp_Name s, pb_visibility_timeout_ns = sp_VisibilityTimeout s,
     pb_max_retries = sp_MaxRetries s, pb_default_ttl_ns = sp_DefaultTTL s, pb_starvation_threshold_ns = sp_StarvationThreshold s,
     pb_starvation_reserve = sp_StarvationReserve s, pb_max_depth = sp_MaxDepth s, pb_distributed = sp_Distributed s,
     pb_generation = sp_Generation s, pb_has_dead_letter = sp_HasDeadLetter s,
     pb_starvation_avoidance_enabled = sp_StarvationAvoidanceEnabled s\<rparr>"

definition statsTo :: "queueStats \<Rightarrow> pbStats" where
  "statsTo s = \<lparr>pb_st_org = qs_Org s, pb_st_name = qs_Name s, pb_ready = qs_Ready s, pb_in_flight = qs_InFlight s,
     pb_delayed = qs_Delayed s, pb_oldest_age_ns = qs_OldestAge s, pb_enqueued = qs_Enqueued s, pb_acked = qs_Acked s,
     pb_expired = qs_Expired s, pb_requeued = qs_Requeued s, pb_dead_lettered = qs_DeadLettered s, pb_escapes = qs_Escapes s,
     pb_top_ready = qs_TopReady s\<rparr>"

definition wireTo :: "wireMessage \<Rightarrow> pbWire" where
  "wireTo m = \<lparr>pb_id = w_ID m, pb_payload = w_Payload m, pb_priority = ucast (w_Priority m), pb_group_id = w_GroupID m,
     pb_seq = w_Seq m, pb_enqueued_at_unix_ns = w_EnqueuedAt m,
     pb_expires_at_unix_ns = (case w_ExpiresAt m of None \<Rightarrow> 0 | Some t \<Rightarrow> t),
     pb_deliver_after_unix_ns = (case w_DeliverAfter m of None \<Rightarrow> 0 | Some t \<Rightarrow> t), pb_attempts = w_Attempts m\<rparr>"

definition wireFrom :: "pbWire \<Rightarrow> wireMessage" where
  "wireFrom w = \<lparr>w_ID = pb_id w, w_Payload = pb_payload w, w_Priority = ucast (pb_priority w), w_GroupID = pb_group_id w,
     w_Seq = pb_seq w, w_EnqueuedAt = pb_enqueued_at_unix_ns w,
     w_ExpiresAt = (if pb_expires_at_unix_ns w \<noteq> 0 then Some (pb_expires_at_unix_ns w) else None),
     w_DeliverAfter = (if pb_deliver_after_unix_ns w \<noteq> 0 then Some (pb_deliver_after_unix_ns w) else None),
     w_Attempts = pb_attempts w\<rparr>"

definition slotsFrom :: "u32 list \<Rightarrow> u16 list" where
  "slotsFrom xs = map ucast xs"

definition slotsTo :: "u16 list \<Rightarrow> u32 list" where
  "slotsTo xs = map ucast xs"

definition transferTo :: "(u16 \<times> wireMessage list) list \<Rightarrow> (u32 \<times> pbWire list) list" where
  "transferTo bySlot = map (\<lambda>(i, ms). (ucast i, map wireTo ms)) bySlot"

text \<open>The map the node's \<open>Absorb\<close> handler rebuilds.\<close>

definition absorb_slots :: "pbTransfer \<Rightarrow> (u16 \<times> wireMessage list) list" where
  "absorb_slots t = map (\<lambda>(i, ms). (ucast i, map wireFrom ms)) (pb_by_slot t)"

subsection \<open>The gateway's conversions\<close>

definition gw_specTo :: "queueSpec \<Rightarrow> pbSpec" where
  "gw_specTo s = \<lparr>pb_org = sp_Org s, pb_name = sp_Name s, pb_visibility_timeout_ns = sp_VisibilityTimeout s,
     pb_max_retries = sp_MaxRetries s, pb_default_ttl_ns = sp_DefaultTTL s, pb_starvation_threshold_ns = sp_StarvationThreshold s,
     pb_starvation_reserve = sp_StarvationReserve s, pb_max_depth = sp_MaxDepth s, pb_distributed = sp_Distributed s,
     pb_generation = sp_Generation s, pb_has_dead_letter = sp_HasDeadLetter s,
     pb_starvation_avoidance_enabled = sp_StarvationAvoidanceEnabled s\<rparr>"

text \<open>\<open>Ready\<close> is an array of three: a shorter list leaves zeros, the rest of a longer one is dropped.\<close>

definition statsFrom :: "pbStats \<Rightarrow> nodeStats" where
  "statsFrom p = \<lparr>qs_Org = pb_st_org p, qs_Name = pb_st_name p,
     qs_Ready = map (\<lambda>i. if i < List.length (pb_ready p) then pb_ready p ! i else 0) [0..<3],
     qs_InFlight = pb_in_flight p, qs_Delayed = pb_delayed p, qs_OldestAge = pb_oldest_age_ns p,
     qs_TopReady = to_int16 (pb_top_ready p), qs_Enqueued = pb_enqueued p, qs_Acked = pb_acked p, qs_Expired = pb_expired p,
     qs_Requeued = pb_requeued p, qs_DeadLettered = pb_dead_lettered p, qs_Escapes = pb_escapes p\<rparr>"

definition gw_wireTo :: "wireMessage \<Rightarrow> pbWire" where
  "gw_wireTo m = \<lparr>pb_id = w_ID m, pb_payload = w_Payload m, pb_priority = ucast (w_Priority m), pb_group_id = w_GroupID m,
     pb_seq = w_Seq m, pb_enqueued_at_unix_ns = w_EnqueuedAt m,
     pb_expires_at_unix_ns = (case w_ExpiresAt m of None \<Rightarrow> 0 | Some t \<Rightarrow> t),
     pb_deliver_after_unix_ns = (case w_DeliverAfter m of None \<Rightarrow> 0 | Some t \<Rightarrow> t), pb_attempts = w_Attempts m\<rparr>"

definition gw_wireFrom :: "pbWire \<Rightarrow> wireMessage" where
  "gw_wireFrom w = \<lparr>w_ID = pb_id w, w_Payload = pb_payload w, w_Priority = ucast (pb_priority w), w_GroupID = pb_group_id w,
     w_Seq = pb_seq w, w_EnqueuedAt = pb_enqueued_at_unix_ns w,
     w_ExpiresAt = (if pb_expires_at_unix_ns w \<noteq> 0 then Some (pb_expires_at_unix_ns w) else None),
     w_DeliverAfter = (if pb_deliver_after_unix_ns w \<noteq> 0 then Some (pb_deliver_after_unix_ns w) else None),
     w_Attempts = pb_attempts w\<rparr>"

definition gw_slotsTo :: "u16 list \<Rightarrow> u32 list" where
  "gw_slotsTo xs = map ucast xs"

definition gw_slotsFrom :: "u32 list \<Rightarrow> u16 list" where
  "gw_slotsFrom xs = map ucast xs"

text \<open>The gateway's \<open>Transfer\<close>; the specification and the name of the move are the caller's to fill in.\<close>

definition transferFrom :: "pbTransfer \<Rightarrow> transferRequest" where
  "transferFrom out = \<lparr>tr_MoveID = [], tr_Spec = no_spec, tr_BySlot = map (\<lambda>(i, ms). (ucast i, map gw_wireFrom ms)) (pb_by_slot out)\<rparr>"

text \<open>The request \<open>Absorb\<close> sends.\<close>

definition absorb_request :: "transferRequest \<Rightarrow> pbTransfer" where
  "absorb_request t = \<lparr>pb_t_spec = Some (gw_specTo (tr_Spec t)),
     pb_by_slot = map (\<lambda>(i, ms). (ucast i, map gw_wireTo ms)) (tr_BySlot t), pb_move_id = tr_MoveID t\<rparr>"

subsection \<open>Round trips\<close>

lemma ucast_8_32_8 [simp]: "ucast (ucast (x :: u8) :: u32) = x"
  by (rule ucast_up_ucast_id) (simp add: is_up)

lemma ucast_16_32_16 [simp]: "ucast (ucast (x :: u16) :: u32) = x"
  by (rule ucast_up_ucast_id) (simp add: is_up)

lemma specFrom_gw_specTo [simp]: "specFrom (Some (gw_specTo s)) = s"
  by (simp add: specFrom_def gw_specTo_def)

text \<open>A pointer to the zero time does not occur: the wire form writes nil for it.\<close>

definition wire_ok :: "wireMessage \<Rightarrow> bool" where
  "wire_ok w \<longleftrightarrow> w_ExpiresAt w \<noteq> Some 0 \<and> w_DeliverAfter w \<noteq> Some 0"

lemma wire_ok_ToWire [simp]: "wire_ok (ToWire m)"
  by (simp add: wire_ok_def ToWire_def is_zero_def)

lemma wire_roundtrip [simp]:
  "wire_ok w \<Longrightarrow> wireFrom (gw_wireTo w) = w" "wire_ok w \<Longrightarrow> gw_wireFrom (wireTo w) = w"
  by (auto simp: wireFrom_def gw_wireTo_def gw_wireFrom_def wireTo_def wire_ok_def split: option.split)

lemma slots_roundtrip [simp]: "slotsFrom (gw_slotsTo xs) = xs" "gw_slotsFrom (slotsTo xs) = xs"
  by (simp_all add: slotsFrom_def gw_slotsTo_def gw_slotsFrom_def slotsTo_def comp_def)

end
