(* ===== verification/Rpc.thy ===== *)
theory Rpc
  imports NodeMaint Proto
begin

text \<open>
  The calls between gateway and node: the handlers of \<open>backend/queue/controller\<close> on a node, and the
  client \<open>backend/gateway/repo/nodegrpc/nodegrpc.go\<close>.  What the generated stub and the network do is
  an argument: a call is answered, refused before it is handled, or handled with its answer lost.
\<close>

subsection \<open>Requests and responses\<close>

record pbEnqueueRequest =
  pb_e_spec :: "pbSpec option"
  pb_e_slot :: "u32 option"
  pb_e_payload :: bytes
  pb_e_priority :: u32
  pb_e_group_id :: string
  pb_e_ttl_ns :: int
  pb_e_deliver_after_ns :: int

record pbEnqueueResponse =
  pb_r_message_id :: string
  pb_r_slot :: u32
  pb_r_seq :: u64

record pbDelivered =
  pb_d_message_id :: string
  pb_d_payload :: bytes
  pb_d_priority :: u32
  pb_d_group_id :: string
  pb_d_attempts :: u32
  pb_d_enqueued_at_unix_ns :: int
  pb_d_receipt :: string

record pbDeadLetter =
  pb_dl_org :: string
  pb_dl_name :: string
  pb_dl_slot :: u32
  pb_dl_message :: "pbWire option"

record pbSlotSet =
  pb_ss_spec :: "pbSpec option"
  pb_ss_slots :: "u32 list"
  pb_ss_move_id :: string

definition reply :: "'n \<times> err option \<Rightarrow> 'n \<times> (grpc_status + unit)" where
  "reply x = (fst x, case snd x of None \<Rightarrow> Inr () | Some e \<Rightarrow> Inl (toStatus e))"

subsection \<open>The node's handlers\<close>

definition srv_Enqueue :: "(json \<Rightarrow> bytes) \<Rightarrow> pbEnqueueRequest \<Rightarrow> err option \<Rightarrow> string \<Rightarrow> time \<Rightarrow> nat option \<Rightarrow> bool \<Rightarrow> node
    \<Rightarrow> node \<times> (grpc_status + pbEnqueueResponse)" where
  "srv_Enqueue render req open_err newid now wrote flushed n =
     (let inreq = \<lparr>er_Spec = specFrom (pb_e_spec req), er_Slot = map_option ucast (pb_e_slot req), er_Payload = pb_e_payload req,
                   er_Priority = ucast (pb_e_priority req), er_GroupID = pb_e_group_id req, er_TTL = pb_e_ttl_ns req,
                   er_DeliverAfter = pb_e_deliver_after_ns req\<rparr>
      in case Enqueue_node render n inreq open_err newid now wrote flushed of
           (n, Inl e) \<Rightarrow> (n, Inl (toStatus e))
         | (n, Inr r) \<Rightarrow> (n, Inr \<lparr>pb_r_message_id = es_MessageID r, pb_r_slot = ucast (es_Slot r), pb_r_seq = es_Seq r\<rparr>))"

definition srv_Dequeue :: "(json \<Rightarrow> bytes) \<Rightarrow> pbSpec option \<Rightarrow> int \<Rightarrow> err option \<Rightarrow> (nat \<Rightarrow> time) \<Rightarrow> node \<Rightarrow> node \<times> (grpc_status + pbDelivered list)" where
  "srv_Dequeue render spec mx open_err clock n =
     (case Dequeue_node render n \<lparr>dr_Spec = specFrom spec, dr_MaxMessages = mx\<rparr> open_err clock of
        (n, Inl e) \<Rightarrow> (n, Inl (toStatus e))
      | (n, Inr ms) \<Rightarrow> (n, Inr (map (\<lambda>m. \<lparr>pb_d_message_id = dm_MessageID m, pb_d_payload = dm_Payload m,
            pb_d_priority = ucast (dm_Priority m), pb_d_group_id = dm_GroupID m, pb_d_attempts = dm_Attempts m,
            pb_d_enqueued_at_unix_ns = dm_EnqueuedAt m, pb_d_receipt = dm_Receipt m\<rparr>) ms)))"

definition srv_Ack :: "(json \<Rightarrow> bytes) \<Rightarrow> pbSpec option \<Rightarrow> string \<Rightarrow> node \<Rightarrow> node \<times> (grpc_status + unit)" where
  "srv_Ack render spec receipt n = reply (Ack_node render n \<lparr>ar_Spec = specFrom spec, ar_Receipt = receipt\<rparr>)"

definition srv_Nack :: "(json \<Rightarrow> bytes) \<Rightarrow> pbSpec option \<Rightarrow> string \<Rightarrow> int \<Rightarrow> time \<Rightarrow> nat option \<Rightarrow> bool \<Rightarrow> node \<Rightarrow> node \<times> (grpc_status + unit)" where
  "srv_Nack render spec receipt delay now wrote flushed n =
     reply (Nack_node render n \<lparr>nr_Spec = specFrom spec, nr_Receipt = receipt, nr_Delay = delay\<rparr> now wrote flushed)"

definition srv_Stats :: "pbSpec option \<Rightarrow> time \<Rightarrow> node \<Rightarrow> node \<times> (grpc_status + pbStats)" where
  "srv_Stats spec now n = (n, case Stats_node n (specFrom spec) now of Inl e \<Rightarrow> Inl (toStatus e) | Inr s \<Rightarrow> Inr (statsTo s))"

definition srv_StatsAll :: "time \<Rightarrow> node \<Rightarrow> node \<times> (grpc_status + string \<times> pbStats list)" where
  "srv_StatsAll now n = (n, Inr (let (i, qs) = StatsAll n now in (i, map statsTo qs)))"

definition srv_Drop :: "pbSpec option \<Rightarrow> node \<Rightarrow> node \<times> (grpc_status + unit)" where
  "srv_Drop spec n = (Drop_node n (spec_Key (specFrom spec)), Inr ())"

definition srv_Freeze :: "pbSpec option \<Rightarrow> u32 list \<Rightarrow> visit list \<Rightarrow> (u16 \<Rightarrow> message list \<Rightarrow> string list) \<Rightarrow> time \<Rightarrow> node
    \<Rightarrow> node \<times> (grpc_status + pbTransfer)" where
  "srv_Freeze spec sl vs orders now n =
     (let (n, bySlot) = Freeze_node n (specFrom spec) (map ucast sl) vs orders now
      in (n, Inr \<lparr>pb_t_spec = Some (specTo (specFrom spec)), pb_by_slot = transferTo bySlot, pb_move_id = []\<rparr>))"

definition srv_Absorb :: "(json \<Rightarrow> bytes) \<Rightarrow> pbTransfer \<Rightarrow> err option \<Rightarrow> (nat option \<times> bool) list \<Rightarrow> (u16 \<Rightarrow> message list \<Rightarrow> string list) \<Rightarrow> time
    \<Rightarrow> node \<Rightarrow> node \<times> (grpc_status + unit)" where
  "srv_Absorb render req open_err io orders now n =
     reply (Absorb_node render n \<lparr>tr_MoveID = pb_move_id req, tr_Spec = specFrom (pb_t_spec req), tr_BySlot = absorb_slots req\<rparr>
       open_err io orders now)"

text \<open>\<open>orders\<close> gives each slot the orders its leases and groups are ranged over.\<close>

definition visits_of :: "(u16 \<Rightarrow> string list \<times> string list) \<Rightarrow> u16 list \<Rightarrow> visit list" where
  "visits_of orders sl = map (\<lambda>i. (i, orders i)) sl"

definition srv_PrepareMove :: "pbSlotSet \<Rightarrow> (u16 \<Rightarrow> string list \<times> string list) \<Rightarrow> node \<Rightarrow> node \<times> (grpc_status + pbTransfer)" where
  "srv_PrepareMove req orders n =
     (let (n, bySlot) = PrepareMove n (specFrom (pb_ss_spec req)) (visits_of orders (slotsFrom (pb_ss_slots req)))
      in (n, Inr \<lparr>pb_t_spec = pb_ss_spec req, pb_by_slot = transferTo bySlot, pb_move_id = pb_ss_move_id req\<rparr>))"

definition srv_DiscardMove :: "pbSlotSet \<Rightarrow> (u16 \<Rightarrow> string list \<times> string list) \<Rightarrow> node \<Rightarrow> node \<times> (grpc_status + unit)" where
  "srv_DiscardMove req orders n =
     (DiscardMove n (specFrom (pb_ss_spec req)) (visits_of orders (slotsFrom (pb_ss_slots req))), Inr ())"

definition srv_AbortMove :: "pbSlotSet \<Rightarrow> node \<Rightarrow> node \<times> (grpc_status + unit)" where
  "srv_AbortMove req n = (AbortMove n (specFrom (pb_ss_spec req)) (slotsFrom (pb_ss_slots req)), Inr ())"

definition srv_Held :: "node \<Rightarrow> node \<times> (grpc_status + string \<times> pbHeld list)" where
  "srv_Held n = (n, Inr (let h = HeldSlots_node n in (hr_NodeID h, map (\<lambda>q. \<lparr>pb_h_org = hs_Org q, pb_h_queue = hs_Name q,
     pb_h_slots = slotsTo (hs_Slots q), pb_h_frozen = slotsTo (hs_Frozen q)\<rparr>) (hr_Queues h))))"

definition srv_DeadLetters :: "node \<Rightarrow> node \<times> (grpc_status + pbDeadLetter list)" where
  "srv_DeadLetters n = (n, Inr (map (\<lambda>d. \<lparr>pb_dl_org = dl_Org d, pb_dl_name = dl_Name d, pb_dl_slot = ucast (dl_Slot d),
     pb_dl_message = Some (wireTo (ToWire (dl_Msg d)))\<rparr>) (DeadLetters n)))"

definition srv_AckDeadLetters :: "(json \<Rightarrow> bytes) \<Rightarrow> string list \<Rightarrow> node \<Rightarrow> node \<times> (grpc_status + unit)" where
  "srv_AckDeadLetters render ids n = (AckDeadLetters render n ids, Inr ())"

subsection \<open>The connection to a node\<close>

datatype net = Answered | Refused grpc_status | Lost grpc_status

fun call :: "net \<Rightarrow> ('n \<Rightarrow> 'n \<times> (grpc_status + 'r)) \<Rightarrow> 'n \<Rightarrow> 'n \<times> (call_err + 'r)" where
  "call Answered srv n = (let (n, r) = srv n in (n, case r of Inl z \<Rightarrow> Inl (Status z) | Inr x \<Rightarrow> Inr x))"
| "call (Refused z) srv n = (n, Inl (Status z))"
| "call (Lost z) srv n = (fst (srv n), Inl (Status z))"

text \<open>The cache of connections, by address; \<open>dial\<close> is the answer of making one.\<close>

type_synonym conns = "string list"

definition client :: "conns \<Rightarrow> string \<Rightarrow> err option \<Rightarrow> conns \<times> err option" where
  "client cs addr dial =
     (if addr \<in> set cs then (cs, None)
      else case dial of Some e \<Rightarrow> (cs, Some (Wrap CodeExhausted ''dial node'' e)) | None \<Rightarrow> (addr # cs, None))"

definition failed :: "conns \<Rightarrow> string \<Rightarrow> call_err \<Rightarrow> conns \<times> err" where
  "failed cs addr e =
     (case e of Status z \<Rightarrow> (if st_code z = C_Unavailable then removeAll addr cs else cs) | NotStatus _ \<Rightarrow> cs, fromStatus e)"

text \<open>What every method does: get the client, make the call, map its error.\<close>

definition rpc :: "conns \<Rightarrow> string \<Rightarrow> err option \<Rightarrow> net \<Rightarrow> ('n \<Rightarrow> 'n \<times> (grpc_status + 'r)) \<Rightarrow> 'n \<Rightarrow> conns \<times> 'n \<times> (err + 'r)" where
  "rpc cs addr dial net srv n =
     (case client cs addr dial of
        (cs, Some e) \<Rightarrow> (cs, n, Inl e)
      | (cs, None) \<Rightarrow> (case call net srv n of
            (n, Inl e) \<Rightarrow> (let (cs, e) = failed cs addr e in (cs, n, Inl e))
          | (n, Inr x) \<Rightarrow> (cs, n, Inr x)))"

definition rpc_map :: "('r \<Rightarrow> 's) \<Rightarrow> conns \<times> 'n \<times> (err + 'r) \<Rightarrow> conns \<times> 'n \<times> (err + 's)" where
  "rpc_map f x = (fst x, fst (snd x), case snd (snd x) of Inl e \<Rightarrow> Inl e | Inr r \<Rightarrow> Inr (f r))"

subsection \<open>The gateway's methods\<close>

text \<open>\<open>srv\<close> is what the call reaches: the handler of the node, with its environment.\<close>

definition enqueue_request :: "nodeEnqueue \<Rightarrow> pbEnqueueRequest" where
  "enqueue_request e = \<lparr>pb_e_spec = Some (gw_specTo (er_Spec e)), pb_e_slot = map_option ucast (er_Slot e), pb_e_payload = er_Payload e,
     pb_e_priority = ucast (er_Priority e), pb_e_group_id = er_GroupID e, pb_e_ttl_ns = er_TTL e, pb_e_deliver_after_ns = er_DeliverAfter e\<rparr>"

definition gw_Enqueue :: "conns \<Rightarrow> string \<Rightarrow> err option \<Rightarrow> net \<Rightarrow> (pbEnqueueRequest \<Rightarrow> 'n \<Rightarrow> 'n \<times> (grpc_status + pbEnqueueResponse))
    \<Rightarrow> nodeEnqueue \<Rightarrow> 'n \<Rightarrow> conns \<times> 'n \<times> (err + nodeEnqueueResult)" where
  "gw_Enqueue cs addr dial net srv e n =
     rpc_map (\<lambda>r. \<lparr>es_MessageID = pb_r_message_id r, es_Slot = ucast (pb_r_slot r), es_Seq = pb_r_seq r\<rparr>)
       (rpc cs addr dial net (srv (enqueue_request e)) n)"

definition gw_Dequeue :: "conns \<Rightarrow> string \<Rightarrow> err option \<Rightarrow> net \<Rightarrow> (pbSpec option \<Rightarrow> int \<Rightarrow> 'n \<Rightarrow> 'n \<times> (grpc_status + pbDelivered list))
    \<Rightarrow> queueSpec \<Rightarrow> int \<Rightarrow> 'n \<Rightarrow> conns \<times> 'n \<times> (err + nodeMessage list)" where
  "gw_Dequeue cs addr dial net srv spec mx n =
     rpc_map (map (\<lambda>m. \<lparr>dm_MessageID = pb_d_message_id m, dm_Payload = pb_d_payload m, dm_Priority = ucast (pb_d_priority m),
         dm_GroupID = pb_d_group_id m, dm_Attempts = pb_d_attempts m, dm_EnqueuedAt = pb_d_enqueued_at_unix_ns m,
         dm_Receipt = pb_d_receipt m\<rparr>))
       (rpc cs addr dial net (srv (Some (gw_specTo spec)) mx) n)"

definition gw_Ack :: "conns \<Rightarrow> string \<Rightarrow> err option \<Rightarrow> net \<Rightarrow> (pbSpec option \<Rightarrow> string \<Rightarrow> 'n \<Rightarrow> 'n \<times> (grpc_status + unit))
    \<Rightarrow> queueSpec \<Rightarrow> string \<Rightarrow> 'n \<Rightarrow> conns \<times> 'n \<times> (err + unit)" where
  "gw_Ack cs addr dial net srv spec receipt n = rpc cs addr dial net (srv (Some (gw_specTo spec)) receipt) n"

definition gw_Nack :: "conns \<Rightarrow> string \<Rightarrow> err option \<Rightarrow> net \<Rightarrow> (pbSpec option \<Rightarrow> string \<Rightarrow> int \<Rightarrow> 'n \<Rightarrow> 'n \<times> (grpc_status + unit))
    \<Rightarrow> queueSpec \<Rightarrow> string \<Rightarrow> duration \<Rightarrow> 'n \<Rightarrow> conns \<times> 'n \<times> (err + unit)" where
  "gw_Nack cs addr dial net srv spec receipt delay n = rpc cs addr dial net (srv (Some (gw_specTo spec)) receipt delay) n"

definition gw_Stats :: "conns \<Rightarrow> string \<Rightarrow> err option \<Rightarrow> net \<Rightarrow> (pbSpec option \<Rightarrow> 'n \<Rightarrow> 'n \<times> (grpc_status + pbStats))
    \<Rightarrow> queueSpec \<Rightarrow> 'n \<Rightarrow> conns \<times> 'n \<times> (err + nodeStats)" where
  "gw_Stats cs addr dial net srv spec n = rpc_map statsFrom (rpc cs addr dial net (srv (Some (gw_specTo spec))) n)"

definition gw_StatsAll :: "conns \<Rightarrow> string \<Rightarrow> err option \<Rightarrow> net \<Rightarrow> ('n \<Rightarrow> 'n \<times> (grpc_status + string \<times> pbStats list))
    \<Rightarrow> 'n \<Rightarrow> conns \<times> 'n \<times> (err + string \<times> nodeStats list)" where
  "gw_StatsAll cs addr dial net srv n = rpc_map (\<lambda>(i, qs). (i, map statsFrom qs)) (rpc cs addr dial net srv n)"

definition gw_Drop :: "conns \<Rightarrow> string \<Rightarrow> err option \<Rightarrow> net \<Rightarrow> (pbSpec option \<Rightarrow> 'n \<Rightarrow> 'n \<times> (grpc_status + unit))
    \<Rightarrow> queueSpec \<Rightarrow> 'n \<Rightarrow> conns \<times> 'n \<times> (err + unit)" where
  "gw_Drop cs addr dial net srv spec n = rpc cs addr dial net (srv (Some (gw_specTo spec))) n"

definition gw_Freeze :: "conns \<Rightarrow> string \<Rightarrow> err option \<Rightarrow> net \<Rightarrow> (pbSpec option \<Rightarrow> u32 list \<Rightarrow> 'n \<Rightarrow> 'n \<times> (grpc_status + pbTransfer))
    \<Rightarrow> queueSpec \<Rightarrow> u16 list \<Rightarrow> 'n \<Rightarrow> conns \<times> 'n \<times> (err + transferRequest)" where
  "gw_Freeze cs addr dial net srv spec sl n =
     rpc_map (\<lambda>t. (transferFrom t)\<lparr>tr_Spec := spec\<rparr>) (rpc cs addr dial net (srv (Some (gw_specTo spec)) (map ucast sl)) n)"

definition gw_Absorb :: "conns \<Rightarrow> string \<Rightarrow> err option \<Rightarrow> net \<Rightarrow> (pbTransfer \<Rightarrow> 'n \<Rightarrow> 'n \<times> (grpc_status + unit))
    \<Rightarrow> transferRequest \<Rightarrow> 'n \<Rightarrow> conns \<times> 'n \<times> (err + unit)" where
  "gw_Absorb cs addr dial net srv t n = rpc cs addr dial net (srv (absorb_request t)) n"

definition slot_set :: "queueSpec \<Rightarrow> u16 list \<Rightarrow> string \<Rightarrow> pbSlotSet" where
  "slot_set spec sl moveID = \<lparr>pb_ss_spec = Some (gw_specTo spec), pb_ss_slots = gw_slotsTo sl, pb_ss_move_id = moveID\<rparr>"

definition gw_PrepareMove :: "conns \<Rightarrow> string \<Rightarrow> err option \<Rightarrow> net \<Rightarrow> (pbSlotSet \<Rightarrow> 'n \<Rightarrow> 'n \<times> (grpc_status + pbTransfer))
    \<Rightarrow> queueSpec \<Rightarrow> u16 list \<Rightarrow> string \<Rightarrow> 'n \<Rightarrow> conns \<times> 'n \<times> (err + transferRequest)" where
  "gw_PrepareMove cs addr dial net srv spec sl moveID n =
     rpc_map transferFrom (rpc cs addr dial net (srv (slot_set spec sl moveID)) n)"

definition gw_DiscardMove :: "conns \<Rightarrow> string \<Rightarrow> err option \<Rightarrow> net \<Rightarrow> (pbSlotSet \<Rightarrow> 'n \<Rightarrow> 'n \<times> (grpc_status + unit))
    \<Rightarrow> queueSpec \<Rightarrow> u16 list \<Rightarrow> string \<Rightarrow> 'n \<Rightarrow> conns \<times> 'n \<times> (err + unit)" where
  "gw_DiscardMove cs addr dial net srv spec sl moveID n = rpc cs addr dial net (srv (slot_set spec sl moveID)) n"

definition gw_AbortMove :: "conns \<Rightarrow> string \<Rightarrow> err option \<Rightarrow> net \<Rightarrow> (pbSlotSet \<Rightarrow> 'n \<Rightarrow> 'n \<times> (grpc_status + unit))
    \<Rightarrow> queueSpec \<Rightarrow> u16 list \<Rightarrow> string \<Rightarrow> 'n \<Rightarrow> conns \<times> 'n \<times> (err + unit)" where
  "gw_AbortMove cs addr dial net srv spec sl moveID n = rpc cs addr dial net (srv (slot_set spec sl moveID)) n"

definition gw_Held :: "conns \<Rightarrow> string \<Rightarrow> err option \<Rightarrow> net \<Rightarrow> ('n \<Rightarrow> 'n \<times> (grpc_status + string \<times> pbHeld list))
    \<Rightarrow> 'n \<Rightarrow> conns \<times> 'n \<times> (err + heldResponse)" where
  "gw_Held cs addr dial net srv n =
     rpc_map (\<lambda>(i, qs). \<lparr>hr_NodeID = i, hr_Queues = map (\<lambda>q. \<lparr>hs_Org = pb_h_org q, hs_Name = pb_h_queue q,
         hs_Slots = gw_slotsFrom (pb_h_slots q), hs_Frozen = gw_slotsFrom (pb_h_frozen q)\<rparr>) qs\<rparr>)
       (rpc cs addr dial net srv n)"

text \<open>A dead letter at the gateway: where it came from, the message without its timers, its attempts.\<close>

record gwDeadLetter =
  gd_Org :: string
  gd_Name :: string
  gd_Message :: nodeMessage
  gd_Attempts :: u32

definition deadletter_item :: "pbDeadLetter \<Rightarrow> gwDeadLetter list" where
  "deadletter_item d =
     (case pb_dl_message d of
        None \<Rightarrow> []
      | Some m \<Rightarrow> [\<lparr>gd_Org = pb_dl_org d, gd_Name = pb_dl_name d,
          gd_Message = \<lparr>dm_MessageID = pb_id m, dm_Payload = pb_payload m, dm_Priority = ucast (pb_priority m), dm_GroupID = pb_group_id m,
            dm_Attempts = pb_attempts m, dm_EnqueuedAt = pb_enqueued_at_unix_ns m, dm_Receipt = []\<rparr>,
          gd_Attempts = pb_attempts m\<rparr>])"

definition gw_DeadLetters :: "conns \<Rightarrow> string \<Rightarrow> err option \<Rightarrow> net \<Rightarrow> ('n \<Rightarrow> 'n \<times> (grpc_status + pbDeadLetter list))
    \<Rightarrow> 'n \<Rightarrow> conns \<times> 'n \<times> (err + gwDeadLetter list)" where
  "gw_DeadLetters cs addr dial net srv n = rpc_map (\<lambda>ds. concat (map deadletter_item ds)) (rpc cs addr dial net srv n)"

definition gw_AckDeadLetters :: "conns \<Rightarrow> string \<Rightarrow> err option \<Rightarrow> net \<Rightarrow> (string list \<Rightarrow> 'n \<Rightarrow> 'n \<times> (grpc_status + unit))
    \<Rightarrow> string list \<Rightarrow> 'n \<Rightarrow> conns \<times> 'n \<times> (err + unit)" where
  "gw_AckDeadLetters cs addr dial net srv ids n = rpc cs addr dial net (srv ids) n"

subsection \<open>What arrives\<close>

lemma rpc_answered:
  assumes "addr \<in> set cs"
  shows "rpc cs addr dial Answered srv n =
    (case srv n of (n, Inl z) \<Rightarrow> (fst (failed cs addr (Status z)), n, Inl (fromStatus (Status z))) | (n, Inr x) \<Rightarrow> (cs, n, Inr x))"
  using assms by (simp add: rpc_def client_def failed_def split: prod.split sum.split)

lemma rpc_dialled:
  assumes "addr \<notin> set cs" and "dial = None"
  shows "rpc cs addr dial net srv n = rpc (addr # cs) addr dial net srv n"
  using assms by (simp add: rpc_def client_def)

lemma to_int16_id: "-32768 \<le> x \<Longrightarrow> x < 32768 \<Longrightarrow> to_int16 x = x"
  by (simp add: to_int16_def)

lemma statsFrom_statsTo:
  assumes "List.length (qs_Ready s) = 3" and "-32768 \<le> qs_TopReady s" and "qs_TopReady s < 32768"
  shows "statsFrom (statsTo s) = s"
proof -
  have "map (\<lambda>i. if i < List.length (pb_ready (statsTo s)) then pb_ready (statsTo s) ! i else 0) [0..<3] = qs_Ready s"
    using assms(1) by (intro nth_equalityI) (simp_all add: statsTo_def)
  then show ?thesis using assms(2,3) unfolding statsFrom_def by (simp add: statsTo_def to_int16_id)
qed

lemma specFrom_slot_set [simp]: "specFrom (pb_ss_spec (slot_set spec sl mv)) = spec" "slotsFrom (pb_ss_slots (slot_set spec sl mv)) = sl"
  by (simp_all add: slot_set_def)

lemma transfer_intact: "transfer_msgs (absorb_slots (absorb_request (transferFrom \<lparr>pb_t_spec = a, pb_by_slot = transferTo (to_wire_map bySlot), pb_move_id = b\<rparr>))) = bySlot"
  by (simp add: transfer_msgs_def absorb_slots_def absorb_request_def transferFrom_def transferTo_def to_wire_map_def comp_def split_def)

text \<open>C34: The network adds nothing and loses nothing of an enqueue: a call that is answered runs the node's
  \<open>Enqueue\<close> on exactly the request the gateway was given, returns its result unchanged, and an error
  comes back with the code the node gave it, which is what the gateway's routing decides on.\<close>

theorem enqueue_over_network:
  assumes "addr \<in> set cs"
  shows "case Enqueue_node render n e open_err newid now wrote flushed of
      (n', Inr r) \<Rightarrow> gw_Enqueue cs addr dial Answered (\<lambda>req. srv_Enqueue render req open_err newid now wrote flushed) e n = (cs, n', Inr r)
    | (n', Inl x) \<Rightarrow> \<exists>x' cs'. gw_Enqueue cs addr dial Answered (\<lambda>req. srv_Enqueue render req open_err newid now wrote flushed) e n
        = (cs', n', Inl x') \<and> CodeOf x' = CodeOf x"
proof -
  have r: "\<lparr>er_Spec = specFrom (pb_e_spec (enqueue_request e)), er_Slot = map_option ucast (pb_e_slot (enqueue_request e)),
      er_Payload = pb_e_payload (enqueue_request e), er_Priority = ucast (pb_e_priority (enqueue_request e)),
      er_GroupID = pb_e_group_id (enqueue_request e), er_TTL = pb_e_ttl_ns (enqueue_request e),
      er_DeliverAfter = pb_e_deliver_after_ns (enqueue_request e)\<rparr> = e"
    by (simp add: enqueue_request_def option.map_comp comp_def option.map_ident)
  show ?thesis
    unfolding gw_Enqueue_def rpc_answered [OF assms] srv_Enqueue_def Let_def r
    by (auto simp: rpc_map_def split: prod.split sum.split)
qed

definition demo_enqueue :: enqueueRequest where
  "demo_enqueue = \<lparr>er_Spec = no_spec\<lparr>sp_Name := ''n''\<rparr>, er_Slot = None, er_Payload = [1], er_Priority = 50, er_GroupID = [],
     er_TTL = 0, er_DeliverAfter = 0\<rparr>"

theorem enqueue_over_network_witness:
  "\<exists>x' cs' n'. gw_Enqueue [''n:1''] ''n:1'' None Answered (\<lambda>req. srv_Enqueue (\<lambda>_. []) req None ''a'' 5 None True) demo_enqueue (New_node ''x'' 1 SyncNever [])
     = (cs', n', Inl x') \<and> CodeOf x' = CodeInvalid"
proof -
  have "\<exists>n'. Enqueue_node (\<lambda>_. []) (New_node ''x'' 1 SyncNever []) demo_enqueue None ''a'' 5 None True = (n', Inl (Invalid ''slot is required''))"
    by (simp add: Enqueue_node_def queueFor_def Let_def New_node_def lookup_def demo_enqueue_def)
  moreover have "''n:1'' \<in> set [''n:1'']" by simp
  ultimately show ?thesis
    using enqueue_over_network [where addr = "''n:1''" and cs = "[''n:1'']" and render = "\<lambda>_. []" and n = "New_node ''x'' 1 SyncNever []"
      and e = demo_enqueue and open_err = None and newid = "''a''" and now = 5 and wrote = None and flushed = True and dial = None]
    by fastforce
qed



end
