(* ===== verification/NodeMove.thy ===== *)
theory NodeMove
  imports NodeProps QueueTransfer Rpc
begin

text \<open>
  What the node's half of a hand-over does to the messages it holds, operation by operation: preparing
  copies, absorbing adds, discarding removes, aborting changes nothing.  The laws are about a queue
  that has the shape the gateway asks for; the last section is about one that has not.
\<close>

definition node_held :: "node \<Rightarrow> queueKey \<Rightarrow> u16 \<Rightarrow> message multiset" where
  "node_held n k i = (case lookup n k of None \<Rightarrow> {#} | Some lq \<Rightarrow> held (slot_at (lq_q lq) i))"

text \<open>The queue, where it is live, is in order and has the shape \<open>d\<close>.\<close>

definition shaped :: "node \<Rightarrow> queueKey \<Rightarrow> bool \<Rightarrow> bool" where
  "shaped n k d \<longleftrightarrow> (\<forall>lq. lookup n k = Some lq \<longrightarrow> queue_ok (lq_q lq) \<and> Distributed (conf (lq_q lq)) = d)"

definition fair_orders :: "node \<Rightarrow> queueKey \<Rightarrow> (u16 \<Rightarrow> string list \<times> string list) \<Rightarrow> bool" where
  "fair_orders n k ords \<longleftrightarrow> (\<forall>lq i. lookup n k = Some lq \<longrightarrow>
     iterates (fst (ords i)) (inflight (slot_at (lq_q lq) i)) \<and> iterates (snd (ords i)) (groups (slot_at (lq_q lq) i)))"

lemma fair_visits_of:
  assumes "fair_orders n k ords" and "lookup n k = Some lq" and "distinct sl"
  shows "fair_visits (lq_q lq) (visits_of ords sl)"
  using assms by (auto simp: fair_visits_def fair_orders_def visits_of_def comp_def split: prod.split) (metis fst_conv snd_conv)+

lemma in_range_visits: "in_range q (visits_of ords sl) = {i \<in> set sl. unat i < slotCount q}"
  by (auto simp: in_range_def visits_of_def image_image)

lemma shaped_range: "shaped n k d \<Longrightarrow> lookup n k = Some lq \<Longrightarrow> slotCount (lq_q lq) = SlotCountFor d"
  by (simp add: shaped_def slotCount_def)

subsection \<open>Messages a queue holds\<close>

lemma held_prio: "slot_ok s \<Longrightarrow> m \<in># held s \<Longrightarrow> prio_valid (Priority m)"
proof -
  assume ok: "slot_ok s" and m: "m \<in># held s"
  then have c: "contents_wf s" "\<forall>x \<in> set (inflight s). lease_wf s (fst x) (snd x)"
    "\<forall>e \<in> set (delayed s). Priority (d_msg e) \<le> 100"
    by (simp_all add: slot_ok_def slot_inv_def slot_core_def band_ok_def lease_ok_def delay_ok_def)
  from m consider "m \<in># ready_ms s" | "m \<in># flight_ms s" | "m \<in># delayed_ms s" by (auto simp: held_def)
  then have "Priority m \<le> 100"
  proof cases
    case 1
    then show ?thesis using c(1) by (fastforce simp: ready_ms_def mem_sum_al contents_wf_def refs_def msg_ok_def)
  next
    case 2
    then show ?thesis using c(2) by (fastforce simp: flight_ms_def mem_sum_al lease_wf_def msg_ok_def)
  next
    case 3
    then show ?thesis using c(3) by (auto simp: delayed_ms_def)
  qed
  then show ?thesis by (simp add: prio_valid_100)
qed

lemma ThawSlots_held: "queue_ok q \<Longrightarrow> held (slot_at (ThawSlots q is) i) = held (slot_at q i)"
proof (induction "is" arbitrary: q)
  case (Cons j "is")
  show ?case
  proof (cases "unat j < slotCount q")
    case True
    let ?q1 = "with_slot q j ((slot_at q j)\<lparr>sfrozen := False\<rparr>)"
    have e: "ThawSlots q (j # is) = ThawSlots ?q1 is"
      using True by (subst ThawSlots.simps(2), subst get_slot_eq) (simp add: Let_def with_slot_def)
    have "queue_ok ?q1" using mark_moves [OF Cons.prems] by (simp add: qmoves_def)
    from Cons.IH [OF this] show ?thesis unfolding e
      using mark_ok(2) [OF queue_okD(2) [OF Cons.prems]] by simp
  qed (use Cons in simp)
qed simp

subsection \<open>Preparing\<close>

lemma PrepareMove_law:
  assumes "shaped n k d" and "fair_orders n k ords" and "distinct sl" and "\<forall>i \<in> set sl. unat i < SlotCountFor d"
    and "spec_Key spec = k" and "PrepareMove n spec (visits_of ords sl) = (n', out)"
  shows "shaped n' k d" "node_held n' = node_held n" "\<And>i. i \<in> set sl \<Longrightarrow>
      mset (case map_of out i of None \<Rightarrow> [] | Some ws \<Rightarrow> map FromWire ws) = node_held n k i"
    "fst ` set out \<subseteq> set sl" "distinct (map fst out)"
proof -
  have "shaped n' k d \<and> node_held n' = node_held n \<and> (\<forall>i \<in> set sl. 
      mset (case map_of out i of None \<Rightarrow> [] | Some ws \<Rightarrow> map FromWire ws) = node_held n k i) \<and> fst ` set out \<subseteq> set sl \<and> distinct (map fst out)"
  proof (cases "lookup n k")
    case None
    then have "n' = n" "out = []" using assms(5,6) by (simp_all add: PrepareMove_def)
    with None assms(1) show ?thesis by (simp add: node_held_def)
  next
    case (Some lq)
    obtain q bs where f: "FreezeSlots (lq_q lq) (visits_of ords sl) = (q, bs)" by fastforce
    have n': "n' = set_live k (lq\<lparr>lq_q := q\<rparr>) n" and out: "out = to_wire_map bs"
      using assms(5,6) Some f by (auto simp: PrepareMove_def Let_def)
    have ok: "queue_ok (lq_q lq)" "Distributed (conf (lq_q lq)) = d" using assms(1) Some by (simp_all add: shaped_def)
    note fv = fair_visits_of [OF assms(2) Some assms(3)]
    note F = FreezeSlots_moves [OF ok(1) f fv]
    have db: "distinct (map fst bs)" using FreezeSlots_loop_moves [OF ok(1) f [unfolded FreezeSlots_def] fv] by simp
    have r: "in_range (lq_q lq) (visits_of ords sl) = set sl"
      using assms(4) shaped_range [OF assms(1) Some] by (auto simp: in_range_visits)
    have h: "held (slot_at q i) = held (slot_at (lq_q lq) i)" for i
      using F(5) [of i] mark_ok(2) [OF queue_okD(2) [OF ok(1)]] by simp
    have m: "map_of out i = map_option (map ToWire) (map_of bs i)" for i
      by (simp add: out to_wire_map_def map_of_map)
    have "mset (case map_of out i of None \<Rightarrow> [] | Some ws \<Rightarrow> map FromWire ws) = held (slot_at (lq_q lq) i)" if "i \<in> set sl" for i
      using F(6) [of i] that r by (cases "map_of bs i") (simp_all add: m)
    moreover have "fst ` set out \<subseteq> set sl" "distinct (map fst out)"
      using F(7) r db by (auto simp: out to_wire_map_def comp_def case_prod_beta)
    moreover have "node_held n' = node_held n" using Some h by (auto simp: n' node_held_def fun_eq_iff split: option.split)
    moreover have "shaped n' k d" using F(1,4) ok(2) by (simp add: n' shaped_def qmoves_def)
    ultimately show ?thesis using Some by (simp add: node_held_def)
  qed
  then show "shaped n' k d" "node_held n' = node_held n" "\<And>i. i \<in> set sl \<Longrightarrow>
      mset (case map_of out i of None \<Rightarrow> [] | Some ws \<Rightarrow> map FromWire ws) = node_held n k i" "fst ` set out \<subseteq> set sl" "distinct (map fst out)"
    by blast+
qed

subsection \<open>Aborting and discarding\<close>

lemma AbortMove_law:
  assumes "shaped n k d" and "spec_Key spec = k"
  shows "shaped (AbortMove n spec sl) k d" "node_held (AbortMove n spec sl) = node_held n"
proof -
  have "shaped (AbortMove n spec sl) k d \<and> node_held (AbortMove n spec sl) = node_held n"
  proof (cases "lookup n k")
    case (Some lq)
    have ok: "queue_ok (lq_q lq)" "Distributed (conf (lq_q lq)) = d" using assms(1) Some by (simp_all add: shaped_def)
    have e: "AbortMove n spec sl = set_live k (lq\<lparr>lq_q := ThawSlots (lq_q lq) sl\<rparr>) n"
      using Some assms(2) by (simp add: AbortMove_def)
    have "queue_ok (ThawSlots (lq_q lq) sl)" "conf (ThawSlots (lq_q lq) sl) = conf (lq_q lq)"
      using ThawSlots_moves [OF ok(1), of sl] by (simp_all add: qmoves_def)
    with ok(2) Some ThawSlots_held [OF ok(1)] show ?thesis unfolding e
      by (auto simp: shaped_def node_held_def fun_eq_iff split: option.split)
  qed (use assms in \<open>simp add: AbortMove_def\<close>)
  then show "shaped (AbortMove n spec sl) k d" "node_held (AbortMove n spec sl) = node_held n" by simp_all
qed

lemma DiscardMove_law:
  assumes "shaped n k d" and "fair_orders n k ords" and "distinct sl" and "spec_Key spec = k"
  shows "shaped (DiscardMove n spec (visits_of ords sl)) k d"
    "\<And>i. node_held (DiscardMove n spec (visits_of ords sl)) k i =
       (if i \<in> set sl \<and> unat i < SlotCountFor d then {#} else node_held n k i)"
    "\<And>k'. k' \<noteq> k \<Longrightarrow> node_held (DiscardMove n spec (visits_of ords sl)) k' = node_held n k'"
proof -
  have "shaped (DiscardMove n spec (visits_of ords sl)) k d \<and>
    (\<forall>i. node_held (DiscardMove n spec (visits_of ords sl)) k i =
       (if i \<in> set sl \<and> unat i < SlotCountFor d then {#} else node_held n k i)) \<and>
    (\<forall>k'. k' \<noteq> k \<longrightarrow> node_held (DiscardMove n spec (visits_of ords sl)) k' = node_held n k')"
  proof (cases "lookup n k")
    case None
    with assms(1,4) show ?thesis by (simp add: DiscardMove_def node_held_def)
  next
    case (Some lq)
    obtain q c where f: "DropSlots (lq_q lq) (visits_of ords sl) = (q, c)" by fastforce
    have ok: "queue_ok (lq_q lq)" "Distributed (conf (lq_q lq)) = d" using assms(1) Some by (simp_all add: shaped_def)
    note D = DropSlots_moves [OF ok(1) f fair_visits_of [OF assms(2) Some assms(3)]]
    have r: "in_range (lq_q lq) (visits_of ords sl) = {i \<in> set sl. unat i < SlotCountFor d}"
      using shaped_range [OF assms(1) Some] by (simp add: in_range_visits)
    obtain dk where e: "DiscardMove n spec (visits_of ords sl) = set_live k (lq\<lparr>lq_q := q\<rparr>) (set_disk k dk n)"
      using Some assms(4) f by (simp add: DiscardMove_def Let_def)
    have "held (slot_at q i) = (if i \<in> set sl \<and> unat i < SlotCountFor d then {#} else held (slot_at (lq_q lq) i))" for i
      using D(6) [of i] D(7) [of i] r by auto
    with D(1,5) ok(2) Some show ?thesis unfolding e by (simp add: shaped_def node_held_def qmoves_def fun_eq_iff)
  qed
  then show "shaped (DiscardMove n spec (visits_of ords sl)) k d"
    "\<And>i. node_held (DiscardMove n spec (visits_of ords sl)) k i =
       (if i \<in> set sl \<and> unat i < SlotCountFor d then {#} else node_held n k i)"
    "\<And>k'. k' \<noteq> k \<Longrightarrow> node_held (DiscardMove n spec (visits_of ords sl)) k' = node_held n k'" by blast+
qed

subsection \<open>Absorbing\<close>

definition can_absorb :: "node \<Rightarrow> queueKey \<Rightarrow> (u16 \<Rightarrow> message list \<Rightarrow> string list) \<Rightarrow> time \<Rightarrow> (u16 \<times> message list) list \<Rightarrow> bool" where
  "can_absorb n k orders now bySlot \<longleftrightarrow> distinct (map fst bySlot) \<and>
     (\<forall>(i, ms) \<in> set bySlot. absorbable (node_held n k i) now ms (orders i ms))"

lemma sum_list_pick_orders:
  assumes "distinct (map fst out)"
  shows "sum_list (map (\<lambda>(j, ms, gs). if j = i then mset ms else {#}) (map (\<lambda>(i, ms). (i, ms, orders i ms)) out))
     = mset (case map_of out i of None \<Rightarrow> [] | Some ms \<Rightarrow> ms)"
  using sum_list_pick [OF assms, of i "\<lambda>_. ()"] by (simp add: comp_def case_prod_beta cong: if_cong)

lemma queueFor_shape:
  assumes "shaped n (spec_Key spec) (sp_Distributed spec)" and "queueFor n spec e = (n', Inr lq)"
  shows "queue_ok (lq_q lq)" "Distributed (conf (lq_q lq)) = sp_Distributed spec"
    "held (slot_at (lq_q lq) i) = node_held n (spec_Key spec) i"
proof -
  have "queue_ok (lq_q lq) \<and> Distributed (conf (lq_q lq)) = sp_Distributed spec \<and> held (slot_at (lq_q lq) i) = node_held n (spec_Key spec) i"
  proof (cases "lookup n (spec_Key spec)")
    case None
    then have l: "lq_q lq = New (EngineConfig spec) (n_inc n) (sp_Generation spec)"
      using assms(2) by (auto simp: queueFor_def Let_def split: option.splits)
    have "held (slot_at (lq_q lq) i) = {#}"
      by (simp add: l New_def slot_at_def newSlot_def held_def ready_ms_def flight_ms_def delayed_ms_def)
    with None show ?thesis using New_ok [of "EngineConfig spec"] by (simp add: l node_held_def New_def applyDefaults_def Let_def EngineConfig_def)
  next
    case (Some l)
    then have lq: "lq = l\<lparr>lq_q := fst (Reconfigure (lq_q l) (EngineConfig spec))\<rparr>"
      using assms(2) by (auto simp: queueFor_def Let_def)
    have ok: "queue_ok (lq_q l)" "Distributed (conf (lq_q l)) = sp_Distributed spec" using assms(1) Some by (simp_all add: shaped_def)
    have s: "slots (lq_q lq) = slots (lq_q l)" "localView (lq_q lq) = localView (lq_q l)" "reserved (lq_q lq) = reserved (lq_q l)"
      "Distributed (conf (lq_q lq)) = sp_Distributed spec"
      using ok(2) by (simp_all add: lq Reconfigure_def Let_def applyDefaults_def EngineConfig_def)
    show ?thesis using queue_ok_cong [OF ok(1) s(1-3)] s(4) Some by (simp add: node_held_def)
  qed
  then show "queue_ok (lq_q lq)" "Distributed (conf (lq_q lq)) = sp_Distributed spec"
    "held (slot_at (lq_q lq) i) = node_held n (spec_Key spec) i" by blast+
qed

lemma Absorb_node_law:
  assumes sh: "shaped n k (sp_Distributed (tr_Spec req))" and k: "spec_Key (tr_Spec req) = k"
    and fresh: "move_key k (tr_MoveID req) \<notin> set (n_moves n)"
    and can: "can_absorb n k orders now (transfer_msgs (tr_BySlot req))"
    and a: "Absorb_node render n req e io orders now = (n', None)"
  shows "node_held n' k i = node_held n k i + mset (case map_of (transfer_msgs (tr_BySlot req)) i of None \<Rightarrow> [] | Some ms \<Rightarrow> ms)"
    "shaped n' k (sp_Distributed (tr_Spec req))"
proof -
  obtain n1 lq where q: "queueFor n (tr_Spec req) e = (n1, Inr lq)"
    using a by (auto simp: Absorb_node_def split: prod.splits sum.splits)
  let ?bs = "transfer_msgs (tr_BySlot req)"
  let ?q = "Thaw (AbsorbQueue (lq_q lq) (map (\<lambda>(i, ms). (i, ms, orders i ms)) ?bs) now)"
  note Q = queueFor_shape [OF sh [folded k] q]
  note s = queueFor_ok [OF q]
  have l: "lookup n' k = Some (lq\<lparr>lq_q := ?q\<rparr>)"
    using a q s(4) fresh k
    by (auto simp: Absorb_node_def Let_def claimMove_simps split: prod.splits if_splits)
  have d: "distinct (map fst ?bs)" using can by (simp add: can_absorb_def)
  have f: "fair_absorb (lq_q lq) (map (\<lambda>(i, ms). (i, ms, orders i ms)) ?bs) now"
    using can Q(3) k by (auto simp: can_absorb_def fair_absorb_def comp_def case_prod_beta)
  note A = AbsorbQueue_moves [OF Q(1) f]
  have "held (slot_at ?q i) = held (slot_at (lq_q lq) i) + mset (case map_of ?bs i of None \<Rightarrow> [] | Some ms \<Rightarrow> ms)"
  proof -
    have "slot_at ?q i = slot_at (AbsorbQueue (lq_q lq) (map (\<lambda>(i, ms). (i, ms, orders i ms)) ?bs) now) i"
      by (simp add: Thaw_def slot_at_def)
    then show ?thesis using A(7) [of i] sum_list_pick_orders [OF d, of i orders] by simp
  qed
  then show "node_held n' k i = node_held n k i + mset (case map_of ?bs i of None \<Rightarrow> [] | Some ms \<Rightarrow> ms)"
    using l Q(3) k by (simp add: node_held_def)
  have "queue_ok ?q" using A(1) queue_ok_cong(1) [of "AbsorbQueue (lq_q lq) (map (\<lambda>(i, ms). (i, ms, orders i ms)) ?bs) now" ?q]
    by (simp add: qmoves_def Thaw_def)
  then show "shaped n' k (sp_Distributed (tr_Spec req))" using l A(4) Q(2) by (simp add: shaped_def Thaw_def)
qed

end
