(* ===== verification/NodeShape.thy ===== *)
theory NodeShape
  imports NodeMove WalProps
begin

text \<open>
  A node that restarts opens its queues from their directories alone, so it does not know which of
  them are distributed until a request says so.  A hand-over is no such request.  This theory shows
  what a hand-over does to the slots that the shape the node assumes does not have.
\<close>

lemma FreezeSlots_loop_bound:
  "FreezeSlots_loop q vs acc = (q', out) \<Longrightarrow> fst ` set out \<subseteq> fst ` set acc \<union> {j. unat j < slotCount q} \<and> conf q' = conf q"
proof (induction vs arbitrary: q acc)
  case (Cons v vs)
  obtain i ki kg where v: "v = (i, ki, kg)" by (cases v)
  show ?case
  proof (cases "unat i < slotCount q")
    case False
    with Cons v show ?thesis by simp
  next
    case True
    let ?s = "(slot_at q i)\<lparr>sfrozen := True\<rparr>"
    let ?q = "put_slot (fst (get_slot q i)) i ?s"
    let ?acc = "if List.length (copyAll ?s ki kg) > 0 then AList.update i (copyAll ?s ki kg) acc else acc"
    have "FreezeSlots_loop q (v # vs) acc = FreezeSlots_loop ?q vs ?acc"
      using True v by (simp add: Let_def case_prod_beta)
    with Cons.prems have l: "FreezeSlots_loop ?q vs ?acc = (q', out)" by simp
    have c: "conf ?q = conf q" "slotCount ?q = slotCount q" by (simp_all add: slotCount_def)
    have "fst ` set ?acc \<subseteq> fst ` set acc \<union> {j. unat j < slotCount q}" using True by (auto simp: keys_AList_update)
    with Cons.IH [OF l] c show ?thesis by (simp only: c) blast
  qed
qed simp

lemma Absorb_loop_conf: "Absorb_loop q vs now n mx = (q', n', mx') \<Longrightarrow> conf q' = conf q"
proof (induction vs arbitrary: q n mx)
  case (Cons v vs)
  obtain i ms gs where v: "v = (i, ms, gs)" by (cases v)
  show ?case
  proof (cases "ms = []")
    case False
    then obtain s' a b where "Absorb_loop (put_slot (fst (get_slot q i)) i s') vs now a b = (q', n', mx')"
      using Cons.prems v by (auto simp: Let_def case_prod_beta)
    from Cons.IH [OF this] show ?thesis by simp
  qed (use Cons v in simp)
qed simp

lemma AbsorbQueue_conf [simp]: "conf (AbsorbQueue q vs now) = conf q"
  by (auto simp: AbsorbQueue_def Let_def adoptSeq_def split: prod.split dest: Absorb_loop_conf)

text \<open>What recovery opens has the shape of an ordinary queue.\<close>

lemma recover_shape:
  assumes "lookup n k = None" and "lookup (recover_one render parse now orders k n) k = Some lq"
  shows "\<not> Distributed (conf (lq_q lq))"
proof -
  let ?q0 = "New (EngineConfig (bare_spec k)) (n_inc n) (sp_Generation (bare_spec k))"
  have k: "spec_Key (bare_spec k) = k" by (simp add: spec_Key_def bare_spec_def)
  have c: "\<not> Distributed (conf ?q0)"
    by (simp add: New_def applyDefaults_def Let_def EngineConfig_def bare_spec_def no_spec_def)
  obtain n1 l1 where q: "queueFor n (bare_spec k) None = (n1, Inr l1)" and l1: "lq_q l1 = ?q0" "lookup n1 k = Some l1"
    using assms(1) k by (auto simp: queueFor_def Let_def)
  obtain n2 l2 where r: "recoverDeadLetters render parse n1 k l1 = (n2, l2)" by fastforce
  have l2: "lq_q l2 = ?q0" "lookup n2 k = Some l2"
    using r l1 by (auto simp: recoverDeadLetters_def Let_def split: option.splits if_splits)
  have "recover_one render parse now orders k n =
    (case Replay parse (qd_wal (disk_at n2 k)) of
       (w, None) \<Rightarrow> set_disk k ((disk_at n2 k)\<lparr>qd_wal := w\<rparr>) n2
     | (w, Some bySlot) \<Rightarrow> (if sum_list (map (\<lambda>x. List.length (snd x)) bySlot) = 0 then set_disk k ((disk_at n2 k)\<lparr>qd_wal := w\<rparr>) n2
         else set_live k (l2\<lparr>lq_q := AbsorbQueue (lq_q l2) (map (\<lambda>(i, ms). (i, ms, orders i ms)) bySlot) now\<rparr>)
                (set_disk k ((disk_at n2 k)\<lparr>qd_wal := w\<rparr>) n2)))"
    using q r by (simp add: recover_one_def Let_def)
  then have "conf (lq_q lq) = conf ?q0"
    using assms(2) l2 by (auto split: prod.splits option.splits if_splits)
  with c show ?thesis by simp
qed

lemma Drop_walks: "wfile (fold (\<lambda>v w. Drop_wal w (fst v)) vs w) i = (if i \<in> fst ` set vs then [] else wfile w i)"
  by (induction vs arbitrary: w) (auto simp: Drop_wal_def wfile_def)

text \<open>C25: Counterexample: a hand-over right after a restart loses messages. A node that has recovered a
  distributed queue from disk, and has served no request for it yet, answers the preparation of a
  slot above the sixteen of an ordinary queue with nothing, whatever its log holds for that slot; when
  the gateway then tells it to let go, it deletes the log of the slot. The messages are in neither the
  transfer nor a log; the copies in memory, which placement no longer leads to, go with the process.\<close>

theorem moved_after_restart_loses:
  assumes "lookup n k = None" and "n1 = recover_one render parse now orders k n"
    and "spec_Key spec = k" and "spec_Key spec' = k" and "16 \<le> unat i" and "i \<in> set sl"
    and "PrepareMove n1 spec (visits_of ords sl) = (n2, out)" and "lookup n2 k \<noteq> None"
  shows "map_of out i = None \<and> wfile (qd_wal (disk_at (DiscardMove n2 spec' (visits_of ords' sl)) k)) i = []"
proof
  obtain l2 where l2: "lookup n2 k = Some l2" using assms(8) by blast
  have "lookup n1 k \<noteq> None" using assms(3,7) l2 by (auto simp: PrepareMove_def split: option.splits)
  then obtain l1 where l1: "lookup n1 k = Some l1" by blast
  have c: "slotCount (lq_q l1) = 16"
    using recover_shape [OF assms(1) l1 [unfolded assms(2)]] by (simp add: slotCount_def SlotCountFor_def CountFor_def PerQueue_def)
  obtain q bs where f: "FreezeSlots (lq_q l1) (visits_of ords sl) = (q, bs)" by fastforce
  have "fst ` set bs \<subseteq> {j. unat j < 16}" using FreezeSlots_loop_bound [OF f [unfolded FreezeSlots_def]] c by simp
  then have "i \<notin> fst ` set bs" using assms(5) by auto
  moreover have "out = to_wire_map bs" using assms(3,7) l1 f by (simp add: PrepareMove_def Let_def)
  ultimately show "map_of out i = None" by (force simp: map_of_eq_None_iff to_wire_map_def)
  have "fst ` set (visits_of ords' sl) = set sl" by (force simp: visits_of_def)
  then show "wfile (qd_wal (disk_at (DiscardMove n2 spec' (visits_of ords' sl)) k)) i = []"
    using l2 assms(4,6) Drop_walks [of "visits_of ords' sl" "qd_wal (disk_at n2 k)" i]
    by (simp add: DiscardMove_def Let_def wfile_def case_prod_beta)
qed

lemma recover_live: "lookup (recover_one render parse now orders k n) k \<noteq> None"
proof -
  have k: "spec_Key (bare_spec k) = k" by (simp add: spec_Key_def bare_spec_def)
  obtain n1 l1 where q: "queueFor n (bare_spec k) None = (n1, Inr l1)" and l1: "lookup n1 k = Some l1"
    using k by (cases "lookup n k") (auto simp: queueFor_def Let_def)
  obtain n2 l2 where r: "recoverDeadLetters render parse n1 k l1 = (n2, l2)" by fastforce
  have "lookup n2 k \<noteq> None"
    using r l1 by (auto simp: recoverDeadLetters_def Let_def split: option.splits if_splits)
  then show ?thesis using q r by (auto simp: recover_one_def Let_def split: prod.split option.split)
qed

lemma PrepareMove_live: "lookup n k \<noteq> None \<Longrightarrow> lookup (fst (PrepareMove n spec vs)) k \<noteq> None"
  by (auto simp: PrepareMove_def Let_def split: option.split prod.split)

definition twenty :: node where
  "twenty = New_node ''x'' 1 SyncNever [(dir (spec_Key demo_spec),
     \<lparr>qd_wal = \<lparr>wsync = SyncNever, wfiles = [(20, log_bytes (demo_render demo_js) [WEnq demo_msg])]\<rparr>, qd_dl = []\<rparr>)]"

definition wide_spec :: queueSpec where
  "wide_spec = demo_spec\<lparr>sp_Distributed := True\<rparr>"

text \<open>Here the log of slot 20 holds a message before, and is empty after.\<close>

theorem moved_after_restart_loses_witness:
  "\<exists>n1 n2 out f. n1 = recover_one (demo_render demo_js) (demo_parse demo_js) 5 (\<lambda>_ _. [[]]) (spec_Key demo_spec) twenty \<and>
    PrepareMove n1 wide_spec (visits_of (\<lambda>_. ([], [])) [20]) = (n2, out) \<and>
    replaySlot (demo_parse demo_js) (wfile (qd_wal (disk_at twenty (spec_Key demo_spec))) 20) = Some ([demo_msg], f) \<and>
    map_of out 20 = None \<and> wfile (qd_wal (disk_at (DiscardMove n2 wide_spec (visits_of (\<lambda>_. ([], [])) [20])) (spec_Key demo_spec))) 20 = []"
proof -
  let ?n1 = "recover_one (demo_render demo_js) (demo_parse demo_js) 5 (\<lambda>_ _. [[]]) (spec_Key demo_spec) twenty"
  obtain n2 out where p: "PrepareMove ?n1 wide_spec (visits_of (\<lambda>_. ([], [])) [20]) = (n2, out)" by fastforce
  have l: "lookup n2 (spec_Key demo_spec) \<noteq> None"
    using PrepareMove_live [OF recover_live, of "demo_render demo_js" "demo_parse demo_js" 5 "\<lambda>_ _. [[]]" "spec_Key demo_spec" twenty wide_spec
      "visits_of (\<lambda>_. ([], [])) [20]"] p by simp
  have t: "lookup twenty (spec_Key demo_spec) = None" by (simp add: twenty_def New_node_def lookup_def)
  have w: "spec_Key wide_spec = spec_Key demo_spec" by (simp add: wide_spec_def spec_Key_def)
  have u: "16 \<le> unat (20 :: u16)" by simp
  note R = moved_after_restart_loses [where spec' = wide_spec and ords' = "\<lambda>_. ([], [])", OF t refl w w u _ p l]
  have "all_fit (demo_render demo_js) [WEnq demo_msg]" by (simp add: demo_fits demo_js_def del: op_json.simps)
  from replaySlot_log [OF demo_json_text this]
  have "map_option fst (replaySlot (demo_parse demo_js) (wfile (qd_wal (disk_at twenty (spec_Key demo_spec))) 20)) = Some [demo_msg]"
    by (simp add: twenty_def New_node_def disk_at_def wfile_def replayed_def replay_state_def no_replay_def demo_msg_def)
  then obtain f where "replaySlot (demo_parse demo_js) (wfile (qd_wal (disk_at twenty (spec_Key demo_spec))) 20) = Some ([demo_msg], f)"
    by auto
  with R p show ?thesis by auto
qed

end
