(* ===== verification/GwEntity.thy ===== *)
theory GwEntity
  imports Entity Slotting
begin

text \<open>
  The gateway's own types: the settings and the stored record of a queue
  (\<open>backend/gateway/entity/repo-table-queue.go\<close>), the specification sent with every call
  (\<open>Spec\<close> of \<open>repo-node.go\<close>), a row of slot placement, and the requests and responses of \<open>req.go\<close>.
  The fields a JSON body fills and the controller only parses are in \<open>GwValidate\<close>.
\<close>

datatype queueState = StateActive | StateMigrating | StateDeleting

record queueSettings =
  gs_VisibilityTimeout :: duration
  gs_MaxRetries :: u32
  gs_DefaultTTL :: duration
  gs_StarvationThreshold :: duration
  gs_StarvationReserve :: rat
  gs_StarvationAvoidanceEnabled :: bool
  gs_MaxDepth :: int
  gs_DeadLetterQueue :: string
  gs_PlacementWidth :: int

text \<open>\<open>SlotOwners\<close> is a Go map; a slot that is absent reads as the empty string.\<close>

record queueConfig =
  qc_Org :: string
  qc_Name :: string
  qc_Settings :: queueSettings
  qc_Distributed :: bool
  qc_State :: queueState
  qc_OwnerNode :: string
  qc_Generation :: u64
  qc_SlotOwners :: "(u16 \<times> string) list"
  qc_CreatedAt :: time
  qc_UpdatedAt :: time

definition slot_owner :: "(u16 \<times> string) list \<Rightarrow> u16 \<Rightarrow> string" where
  "slot_owner al s = (case map_of al s of None \<Rightarrow> [] | Some x \<Rightarrow> x)"

definition Spec :: "queueConfig \<Rightarrow> queueSpec" where
  "Spec c = (let s = qc_Settings c in
     \<lparr>sp_Org = qc_Org c, sp_Name = qc_Name c, sp_VisibilityTimeout = gs_VisibilityTimeout s, sp_MaxRetries = gs_MaxRetries s,
      sp_DefaultTTL = gs_DefaultTTL s, sp_StarvationThreshold = gs_StarvationThreshold s,
      sp_StarvationReserve = gs_StarvationReserve s, sp_StarvationAvoidanceEnabled = gs_StarvationAvoidanceEnabled s,
      sp_MaxDepth = gs_MaxDepth s, sp_Distributed = qc_Distributed c, sp_HasDeadLetter = (gs_DeadLetterQueue s \<noteq> []),
      sp_Generation = qc_Generation c\<rparr>)"

lemma Spec_simps [simp]: "sp_Org (Spec c) = qc_Org c" "sp_Name (Spec c) = qc_Name c" "sp_Distributed (Spec c) = qc_Distributed c"
  "sp_Generation (Spec c) = qc_Generation c" "spec_Key (Spec c) = \<lparr>Org = qc_Org c, Name = qc_Name c\<rparr>"
  by (simp_all add: Spec_def Let_def spec_Key_def)

record slotPlacement =
  spl_Org :: string
  spl_QueueName :: string
  spl_Slot :: u16
  spl_OwnerNode :: string
  spl_Generation :: u64

text \<open>\<open>key\<close> and \<open>slotCountFor\<close> of the gateway's logic package.\<close>

definition gw_key :: "string \<Rightarrow> string \<Rightarrow> string" where
  "gw_key org nm = org @ ''/'' @ nm"

definition slotCountFor :: "bool \<Rightarrow> nat" where
  "slotCountFor distributed = CountFor distributed"

definition SlotsPerDistributedQueue :: nat where
  "SlotsPerDistributedQueue = PerDistributedQueue"

definition everySlot :: "nat \<Rightarrow> u16 list" where
  "everySlot n = map of_nat [0..<n]"

lemma slotCountFor_bounds: "0 < slotCountFor d" "slotCountFor d \<le> 64"
  by (simp_all add: slotCountFor_def CountFor_def PerDistributedQueue_def PerQueue_def)

subsection \<open>Requests and responses\<close>

record createQueueRequest =
  cr_Org :: string
  cr_Name :: string
  cr_Distributed :: bool
  cr_ParseQueueSettings :: queueSettings

record createQueueResponse =
  cs_Name :: string
  cs_Created :: bool
  cs_OwnerNode :: string

record updateQueueRequest =
  ur_Org :: string
  ur_Name :: string
  ur_ParseQueueSettings :: queueSettings

record queueSummary =
  qu_Name :: string
  qu_Distributed :: bool
  qu_PlacementWidth :: int
  qu_State :: queueState
  qu_OwnerNode :: string
  qu_Settings :: queueSettings
  qu_Messages :: int
  qu_InFlight :: int
  qu_OldestAge :: rat

record gwEnqueueRequest =
  ge_Org :: string
  ge_Queue :: string
  ge_GroupID :: string
  ge_Body :: bytes
  ge_PriorityValue :: u8
  ge_TTLFor :: duration
  ge_DeliverIn :: duration

record gwDequeueRequest =
  gq_Org :: string
  gq_Queue :: string
  gq_MaxMessages :: int
  gq_WaitTime :: duration

record gwAckRequest =
  ga_Org :: string
  ga_Queue :: string
  ga_Receipt :: string

record gwNackRequest =
  gn_Org :: string
  gn_Queue :: string
  gn_Receipt :: string
  gn_DelayFor :: duration

text \<open>A message as the client sees it; the payload is base64 text, kept here as its bytes.\<close>

record clientMessage =
  cm_MessageID :: string
  cm_Payload :: bytes
  cm_Priority :: u8
  cm_GroupID :: string
  cm_Attempts :: u32
  cm_EnqueuedAt :: time
  cm_Receipt :: string

definition toMessages :: "nodeMessage list \<Rightarrow> clientMessage list" where
  "toMessages ms = map (\<lambda>m. \<lparr>cm_MessageID = dm_MessageID m, cm_Payload = dm_Payload m, cm_Priority = dm_Priority m,
     cm_GroupID = dm_GroupID m, cm_Attempts = dm_Attempts m, cm_EnqueuedAt = dm_EnqueuedAt m, cm_Receipt = dm_Receipt m\<rparr>) ms"

end
