(* ===== verification/GwTables.thy ===== *)
theory GwTables
  imports GwEntity
begin

text \<open>
  The two PostgreSQL tables of \<open>backend/gateway/repo/postgres\<close> and the statements the repositories
  run on them (\<open>queues-table.go\<close>, \<open>slot-placement-table.go\<close>, the schema in \<open>conn.go\<close>).  A table is the
  list of its rows; each statement is a function on it, with what it reports.  The JSON column of the
  settings is the settings; \<open>now\<close> is the database's clock; the order of \<open>ORDER BY\<close> on text is the
  database's collation, the argument \<open>coll\<close>.
\<close>

subsection \<open>Rows\<close>

record queueRow =
  row_org_id :: string
  row_name :: string
  row_settings :: queueSettings
  row_distributed :: bool
  row_state :: queueState
  row_owner_node :: "string option"
  row_generation :: u64
  row_migrating_by :: "string option"
  row_migrating_since :: "time option"
  row_created_at :: time
  row_updated_at :: time

record tables =
  queues_tab :: "queueRow list"
  slots_tab :: "slotPlacement list"

definition row_is :: "string \<Rightarrow> string \<Rightarrow> queueRow \<Rightarrow> bool" where
  "row_is org nm r \<longleftrightarrow> row_org_id r = org \<and> row_name r = nm"

definition nullable :: "string \<Rightarrow> string option" where
  "nullable s = (if s = [] then None else Some s)"

definition scanQueue :: "queueRow \<Rightarrow> queueConfig" where
  "scanQueue r = \<lparr>qc_Org = row_org_id r, qc_Name = row_name r, qc_Settings = row_settings r, qc_Distributed = row_distributed r,
     qc_State = row_state r, qc_OwnerNode = (case row_owner_node r of None \<Rightarrow> [] | Some x \<Rightarrow> x), qc_Generation = row_generation r,
     qc_SlotOwners = [], qc_CreatedAt = row_created_at r, qc_UpdatedAt = row_updated_at r\<rparr>"

text \<open>\<open>UPDATE queues SET ... WHERE\<close> a condition: the new rows and how many were changed.\<close>

definition update_rows :: "(queueRow \<Rightarrow> bool) \<Rightarrow> (queueRow \<Rightarrow> queueRow) \<Rightarrow> tables \<Rightarrow> tables \<times> nat" where
  "update_rows P f t = (t\<lparr>queues_tab := map (\<lambda>r. if P r then f r else r) (queues_tab t)\<rparr>, List.length (filter P (queues_tab t)))"

subsection \<open>Queues\<close>

definition Get_row :: "string \<Rightarrow> string \<Rightarrow> tables \<Rightarrow> err + queueConfig" where
  "Get_row org nm t = (case find (row_is org nm) (queues_tab t) of None \<Rightarrow> Inl (NotFound ''queue'') | Some r \<Rightarrow> Inr (scanQueue r))"

definition new_row :: "queueConfig \<Rightarrow> time \<Rightarrow> queueRow" where
  "new_row c now = \<lparr>row_org_id = qc_Org c, row_name = qc_Name c, row_settings = qc_Settings c, row_distributed = qc_Distributed c,
     row_state = StateActive, row_owner_node = nullable (qc_OwnerNode c), row_generation = 1, row_migrating_by = None,
     row_migrating_since = None, row_created_at = now, row_updated_at = now\<rparr>"

definition insert_queue :: "queueConfig \<Rightarrow> time \<Rightarrow> tables \<Rightarrow> tables \<times> bool" where
  "insert_queue c now t =
     (if find (row_is (qc_Org c) (qc_Name c)) (queues_tab t) \<noteq> None then (t, False)
      else (t\<lparr>queues_tab := queues_tab t @ [new_row c now]\<rparr>, True))"

definition before_row :: "(string \<Rightarrow> string \<Rightarrow> bool) \<Rightarrow> queueRow \<Rightarrow> queueRow \<Rightarrow> bool" where
  "before_row coll a b \<longleftrightarrow> coll (row_org_id a) (row_org_id b) \<or> row_org_id a = row_org_id b \<and> coll (row_name a) (row_name b)"

definition ListByOrg :: "(string \<Rightarrow> string \<Rightarrow> bool) \<Rightarrow> string \<Rightarrow> tables \<Rightarrow> queueConfig list" where
  "ListByOrg coll org t = map scanQueue (sort_by (\<lambda>a b. coll (row_name a) (row_name b)) (filter (\<lambda>r. row_org_id r = org) (queues_tab t)))"

definition ListAll :: "(string \<Rightarrow> string \<Rightarrow> bool) \<Rightarrow> tables \<Rightarrow> queueConfig list" where
  "ListAll coll t = map scanQueue (sort_by (before_row coll) (queues_tab t))"

definition SetOwner_queue :: "string \<Rightarrow> string \<Rightarrow> string \<Rightarrow> u64 \<Rightarrow> time \<Rightarrow> tables \<Rightarrow> tables" where
  "SetOwner_queue org nm owner gen now t =
     fst (update_rows (row_is org nm) (\<lambda>r. r\<lparr>row_owner_node := Some owner, row_generation := gen, row_updated_at := now\<rparr>) t)"

definition migrationLease :: duration where
  "migrationLease = 2 * 60 * second"

definition lockable :: "time \<Rightarrow> queueRow \<Rightarrow> bool" where
  "lockable now r \<longleftrightarrow> row_state r = StateActive \<or>
     row_state r = StateMigrating \<and> (case row_migrating_since r of None \<Rightarrow> False | Some s \<Rightarrow> s < now - migrationLease)"

definition takeMigrationLock :: "string \<Rightarrow> string \<Rightarrow> string \<Rightarrow> time \<Rightarrow> tables \<Rightarrow> tables \<times> err option" where
  "takeMigrationLock holder org nm now t =
     (let (t, n) = update_rows (\<lambda>r. row_is org nm r \<and> lockable now r)
            (\<lambda>r. r\<lparr>row_state := StateMigrating, row_migrating_by := Some holder, row_migrating_since := Some now, row_updated_at := now\<rparr>) t
      in (t, if n = 0 then Some (New_error CodeConflict ''queue is already migrating'') else None))"

definition SetState :: "string \<Rightarrow> string \<Rightarrow> string \<Rightarrow> queueState \<Rightarrow> time \<Rightarrow> tables \<Rightarrow> tables \<times> err option" where
  "SetState holder org nm state now t =
     (if state = StateMigrating then takeMigrationLock holder org nm now t
      else (fst (update_rows (row_is org nm)
              (\<lambda>r. r\<lparr>row_state := state, row_migrating_by := None, row_migrating_since := None, row_updated_at := now\<rparr>) t), None))"

definition Delete_row :: "string \<Rightarrow> string \<Rightarrow> tables \<Rightarrow> tables" where
  "Delete_row org nm t = t\<lparr>queues_tab := filter (\<lambda>r. \<not> row_is org nm r) (queues_tab t)\<rparr>"

definition UpdateSettings :: "string \<Rightarrow> string \<Rightarrow> queueSettings \<Rightarrow> time \<Rightarrow> tables \<Rightarrow> tables \<times> err option" where
  "UpdateSettings org nm s now t =
     (let (t, n) = update_rows (row_is org nm) (\<lambda>r. r\<lparr>row_settings := s, row_updated_at := now\<rparr>) t
      in (t, if n = 0 then Some (NotFound ''queue'') else None))"

subsection \<open>Slot placement\<close>

definition placed :: "string \<Rightarrow> string \<Rightarrow> slotPlacement \<Rightarrow> bool" where
  "placed org nm p \<longleftrightarrow> spl_Org p = org \<and> spl_QueueName p = nm"

definition ListByQueue :: "string \<Rightarrow> string \<Rightarrow> tables \<Rightarrow> (u16 \<times> string) list" where
  "ListByQueue org nm t = map (\<lambda>p. (spl_Slot p, spl_OwnerNode p)) (filter (placed org nm) (slots_tab t))"

text \<open>\<open>INSERT ... ON CONFLICT DO UPDATE\<close>.\<close>

definition SetOwner_slot :: "string \<Rightarrow> string \<Rightarrow> u16 \<Rightarrow> string \<Rightarrow> u64 \<Rightarrow> tables \<Rightarrow> tables" where
  "SetOwner_slot org nm s owner gen t =
     (if \<exists>p \<in> set (slots_tab t). placed org nm p \<and> spl_Slot p = s
      then t\<lparr>slots_tab := map (\<lambda>p. if placed org nm p \<and> spl_Slot p = s then p\<lparr>spl_OwnerNode := owner, spl_Generation := gen\<rparr> else p) (slots_tab t)\<rparr>
      else t\<lparr>slots_tab := slots_tab t @ [\<lparr>spl_Org = org, spl_QueueName = nm, spl_Slot = s, spl_OwnerNode = owner, spl_Generation = gen\<rparr>]\<rparr>)"

definition DeleteByQueue :: "string \<Rightarrow> string \<Rightarrow> tables \<Rightarrow> tables" where
  "DeleteByQueue org nm t = t\<lparr>slots_tab := filter (\<lambda>p. \<not> placed org nm p) (slots_tab t)\<rparr>"

end
