(* ===== verification/GwWorld.thy ===== *)
theory GwWorld
  imports GwTables Rpc
begin

text \<open>
  A gateway process with what it talks to: the database, the view of the membership, the nodes and
  its own cache.  Every call out may fail in three ways (answered, refused before it had an effect,
  carried out with its answer lost); the faults of a run are a list consumed call by call, and a call
  for which the list has run out is answered.  Also here: the read-through cache
  (\<open>backend/gateway/logic/cache-logic.go\<close> over \<open>backend/third_party/inmemorycache\<close>), the queue
  configuration read through it (\<open>config-cache-logic.go\<close>), and \<open>Create\<close> of \<open>queues-table.go\<close>, which
  is two statements.
\<close>

subsection \<open>The cache\<close>

record queueRates =
  rt_Enqueue :: rat
  rt_Ack :: rat

record rateSample =
  rs_Enqueued :: nat
  rs_Acked :: nat
  rs_At :: time

text \<open>What is stored as JSON under the key's prefix.\<close>

datatype cached = C_Queue queueConfig | C_Stats nodeStats | C_Owner string | C_Rates queueRates | C_Sample rateSample

datatype envelope = Value cached | Miss string

text \<open>An entry and when it expires; \<open>None\<close> is a TTL of zero, which does not.\<close>

type_synonym cache = "(string \<times> envelope \<times> time option) list"

definition cache_Get :: "cache \<Rightarrow> time \<Rightarrow> string \<Rightarrow> envelope option" where
  "cache_Get c now k =
     (case map_of c k of None \<Rightarrow> None
      | Some (e, x) \<Rightarrow> (case x of None \<Rightarrow> Some e | Some t \<Rightarrow> if now < t then Some e else None))"

text \<open>\<open>adm\<close> is whether the cache library takes the entry.\<close>

definition cache_Set :: "bool \<Rightarrow> time \<Rightarrow> string \<Rightarrow> envelope \<Rightarrow> duration \<Rightarrow> cache \<Rightarrow> cache" where
  "cache_Set adm now k e ttl c =
     (if \<not> adm \<or> ttl < 0 then c else AList.update k (e, if ttl = 0 then None else Some (now + ttl)) c)"

definition cache_Del :: "string \<Rightarrow> cache \<Rightarrow> cache" where
  "cache_Del k c = AList.delete k c"

definition prefixQueue :: string where "prefixQueue = ''queue:''"
definition prefixStats :: string where "prefixStats = ''stats:''"
definition prefixNodeStats :: string where "prefixNodeStats = ''stats-node:''"
definition prefixOwner :: string where "prefixOwner = ''owner:''"
definition prefixRates :: string where "prefixRates = ''rates:''"
definition prefixSample :: string where "prefixSample = ''sample:''"

definition queueCacheKey :: "string \<Rightarrow> string \<Rightarrow> string" where "queueCacheKey org nm = prefixQueue @ gw_key org nm"
definition statsCacheKey :: "string \<Rightarrow> string \<Rightarrow> string" where "statsCacheKey org nm = prefixStats @ gw_key org nm"
definition ownerCacheKey :: "string \<Rightarrow> string \<Rightarrow> string" where "ownerCacheKey org nm = prefixOwner @ gw_key org nm"
definition ratesCacheKey :: "string \<Rightarrow> string \<Rightarrow> string" where "ratesCacheKey org nm = prefixRates @ gw_key org nm"
definition sampleCacheKey :: "string \<Rightarrow> string \<Rightarrow> string" where "sampleCacheKey org nm = prefixSample @ gw_key org nm"

definition nodeStatsCacheKey :: "string \<Rightarrow> string \<Rightarrow> string \<Rightarrow> string" where
  "nodeStatsCacheKey org nm node = prefixNodeStats @ gw_key org nm @ ''@'' @ node"

definition negativeTTL :: duration where
  "negativeTTL = 2 * second"

text \<open>\<open>jitter\<close> with \<open>r\<close> for the random number, reduced to the range \<open>Int63n\<close> draws from.\<close>

definition jitter :: "int \<Rightarrow> duration \<Rightarrow> duration" where
  "jitter r ttl = (if ttl \<le> 0 then ttl else ttl + r mod (ttl div 3 + 1))"

lemma jitter_bounds: "0 < ttl \<Longrightarrow> ttl \<le> jitter r ttl \<and> 3 * jitter r ttl \<le> 4 * ttl"
proof -
  assume t: "0 < ttl"
  then have "0 \<le> r mod (ttl div 3 + 1)" "r mod (ttl div 3 + 1) \<le> ttl div 3"
    using pos_mod_bound [of "ttl div 3 + 1" r] by (simp_all add: pos_imp_zdiv_nonneg_iff add_pos_nonneg)
  with t show ?thesis by (simp add: jitter_def)
qed

subsection \<open>The world\<close>

text \<open>A node as the gateway reaches it: the handlers behind its address, with their environment.\<close>

record 'n nodeAPI =
  api_Enqueue :: "pbEnqueueRequest \<Rightarrow> 'n \<Rightarrow> 'n \<times> (grpc_status + pbEnqueueResponse)"
  api_Dequeue :: "pbSpec option \<Rightarrow> int \<Rightarrow> 'n \<Rightarrow> 'n \<times> (grpc_status + pbDelivered list)"
  api_Ack :: "pbSpec option \<Rightarrow> string \<Rightarrow> 'n \<Rightarrow> 'n \<times> (grpc_status + unit)"
  api_Nack :: "pbSpec option \<Rightarrow> string \<Rightarrow> int \<Rightarrow> 'n \<Rightarrow> 'n \<times> (grpc_status + unit)"
  api_Stats :: "pbSpec option \<Rightarrow> 'n \<Rightarrow> 'n \<times> (grpc_status + pbStats)"
  api_StatsAll :: "'n \<Rightarrow> 'n \<times> (grpc_status + string \<times> pbStats list)"
  api_Drop :: "pbSpec option \<Rightarrow> 'n \<Rightarrow> 'n \<times> (grpc_status + unit)"
  api_PrepareMove :: "pbSlotSet \<Rightarrow> 'n \<Rightarrow> 'n \<times> (grpc_status + pbTransfer)"
  api_DiscardMove :: "pbSlotSet \<Rightarrow> 'n \<Rightarrow> 'n \<times> (grpc_status + unit)"
  api_AbortMove :: "pbSlotSet \<Rightarrow> 'n \<Rightarrow> 'n \<times> (grpc_status + unit)"
  api_Absorb :: "pbTransfer \<Rightarrow> 'n \<Rightarrow> 'n \<times> (grpc_status + unit)"
  api_Held :: "'n \<Rightarrow> 'n \<times> (grpc_status + string \<times> pbHeld list)"
  api_DeadLetters :: "'n \<Rightarrow> 'n \<times> (grpc_status + pbDeadLetter list)"
  api_AckDeadLetters :: "string list \<Rightarrow> 'n \<Rightarrow> 'n \<times> (grpc_status + unit)"

text \<open>What one call out meets: the answer of dialling, where a connection is made, and the network.\<close>

record fault =
  f_dial :: "err option"
  f_net :: net

definition no_fault :: fault where
  "no_fault = \<lparr>f_dial = None, f_net = Answered\<rparr>"

record 'n world =
  g_db :: tables
  g_members :: "member list"
  g_nodes :: "(string \<times> 'n) list"
  g_cache :: cache
  g_conns :: conns
  g_faults :: "fault list"
  g_now :: time
  g_holder :: string
  g_coll :: "string \<Rightarrow> string \<Rightarrow> bool"
  g_rand :: int
  g_admit :: bool
  g_CacheTTL :: duration
  g_CollectEvery :: duration

definition next_fault :: "'n world \<Rightarrow> fault \<times> 'n world" where
  "next_fault w = (case g_faults w of [] \<Rightarrow> (no_fault, w) | f # fs \<Rightarrow> (f, w\<lparr>g_faults := fs\<rparr>))"

text \<open>A statement to the database; its own error, where it has one, is an answer.\<close>

definition db :: "(tables \<Rightarrow> tables \<times> (err + 'a)) \<Rightarrow> 'n world \<Rightarrow> 'n world \<times> (err + 'a)" where
  "db stmt w =
     (let (f, w) = next_fault w
      in case f_net f of
           Answered \<Rightarrow> (let (t, r) = stmt (g_db w) in (w\<lparr>g_db := t\<rparr>, r))
         | Refused z \<Rightarrow> (w, Inl (Plain (st_msg z)))
         | Lost z \<Rightarrow> (w\<lparr>g_db := fst (stmt (g_db w))\<rparr>, Inl (Plain (st_msg z))))"

definition quietly :: "('t \<Rightarrow> 't) \<Rightarrow> 't \<Rightarrow> 't \<times> (err + unit)" where
  "quietly f t = (f t, Inr ())"

definition asking :: "('t \<Rightarrow> err + 'a) \<Rightarrow> 't \<Rightarrow> 't \<times> (err + 'a)" where
  "asking f t = (t, f t)"

definition checked :: "'t \<times> err option \<Rightarrow> 't \<times> (err + unit)" where
  "checked x = (fst x, case snd x of None \<Rightarrow> Inr () | Some e \<Rightarrow> Inl e)"

text \<open>A call to the node at an address: \<open>m\<close> is the client's method.  Nothing listens at an address
  no node has.\<close>

definition node_call :: "string \<Rightarrow> (conns \<Rightarrow> string \<Rightarrow> err option \<Rightarrow> net \<Rightarrow> 'n \<Rightarrow> conns \<times> 'n \<times> (err + 'a)) \<Rightarrow> 'n world \<Rightarrow> 'n world \<times> (err + 'a)" where
  "node_call addr m w =
     (let (f, w) = next_fault w
      in case map_of (g_nodes w) addr of
           None \<Rightarrow> (w, Inl (New_error CodeExhausted (''node unreachable: '' @ addr)))
         | Some n \<Rightarrow>
             (let (cs, n, r) = m (g_conns w) addr (f_dial f) (f_net f) n
              in (w\<lparr>g_conns := cs, g_nodes := AList.update addr n (g_nodes w)\<rparr>, r)))"

subsection \<open>Membership\<close>

definition Lookup :: "'n world \<Rightarrow> string \<Rightarrow> member option" where
  "Lookup w i = find (\<lambda>m. mem_id m = i) (g_members w)"

subsection \<open>Reading through the cache\<close>

definition evictCache :: "string \<Rightarrow> 'n world \<Rightarrow> 'n world" where
  "evictCache k w = w\<lparr>g_cache := cache_Del k (g_cache w)\<rparr>"

definition writeCache :: "string \<Rightarrow> duration \<Rightarrow> cached \<Rightarrow> 'n world \<Rightarrow> 'n world" where
  "writeCache k ttl v w = w\<lparr>g_cache := cache_Set (g_admit w) (g_now w) k (Value v) (jitter (g_rand w) ttl) (g_cache w)\<rparr>"

definition readCache :: "'n world \<Rightarrow> string \<Rightarrow> cached option" where
  "readCache w k = (case cache_Get (g_cache w) (g_now w) k of Some (Value v) \<Rightarrow> Some v | _ \<Rightarrow> None)"

text \<open>
  \<open>fetchViaCache\<close> at the one type it is used at.  An entry of another kind under the key would be the
  unreadable entry the code drops.  The zero value returned with an error is not modelled.
\<close>

definition fetchViaCache :: "string \<Rightarrow> duration \<Rightarrow> ('n world \<Rightarrow> 'n world \<times> (err + queueConfig)) \<Rightarrow> 'n world \<Rightarrow> 'n world \<times> (err + queueConfig)" where
  "fetchViaCache k ttl source w =
     (let through = (\<lambda>w. case source w of
            (w, Inl e) \<Rightarrow>
              (if CodeOf e = CodeNotFound
               then w\<lparr>g_cache := cache_Set (g_admit w) (g_now w) k (Miss (Error e)) negativeTTL (g_cache w)\<rparr> else w, Inl e)
          | (w, Inr c) \<Rightarrow> (writeCache k ttl (C_Queue c) w, Inr c))
      in case cache_Get (g_cache w) (g_now w) k of
           None \<Rightarrow> through w
         | Some (Miss s) \<Rightarrow> (w, Inl (New_error CodeNotFound s))
         | Some (Value (C_Queue c)) \<Rightarrow> (w, Inr c)
         | Some (Value _) \<Rightarrow> through (evictCache k w))"

definition loadConfig :: "string \<Rightarrow> string \<Rightarrow> 'n world \<Rightarrow> 'n world \<times> (err + queueConfig)" where
  "loadConfig org nm w =
     (case db (asking (Get_row org nm)) w of
        (w, Inl e) \<Rightarrow> (w, Inl e)
      | (w, Inr c) \<Rightarrow>
          (if \<not> qc_Distributed c then (w, Inr c)
           else case db (asking (\<lambda>t. Inr (ListByQueue org nm t))) w of
                  (w, Inl e) \<Rightarrow> (w, Inl (Internal ''read slot placement'' e))
                | (w, Inr owners) \<Rightarrow> (w, Inr (c\<lparr>qc_SlotOwners := owners\<rparr>))))"

definition config_for :: "string \<Rightarrow> string \<Rightarrow> 'n world \<Rightarrow> 'n world \<times> (err + queueConfig)" where
  "config_for org nm w = fetchViaCache (queueCacheKey org nm) (g_CacheTTL w) (loadConfig org nm) w"

fun withPlacement :: "queueConfig list \<Rightarrow> 'n world \<Rightarrow> 'n world \<times> queueConfig list" where
  "withPlacement [] w = (w, [])"
| "withPlacement (c # cs) w =
     (let (w, c) = (if \<not> qc_Distributed c then (w, c)
                    else case db (asking (\<lambda>t. Inr (ListByQueue (qc_Org c) (qc_Name c) t))) w of
                           (w, Inl e) \<Rightarrow> (w, c)
                         | (w, Inr owners) \<Rightarrow> (w, c\<lparr>qc_SlotOwners := owners\<rparr>));
          (w, cs) = withPlacement cs w
      in (w, c # cs))"

text \<open>\<open>Create\<close> answers with the row as it is stored, whether it made it or found it.\<close>

definition Create :: "queueConfig \<Rightarrow> 'n world \<Rightarrow> 'n world \<times> (err + queueConfig \<times> bool)" where
  "Create c w =
     (case db (\<lambda>t. let (t, made) = insert_queue c (g_now w) t in (t, Inr made)) w of
        (w, Inl e) \<Rightarrow> (w, Inl e)
      | (w, Inr made) \<Rightarrow>
          (case db (asking (Get_row (qc_Org c) (qc_Name c))) w of
             (w, Inl e) \<Rightarrow> (w, Inl e)
           | (w, Inr out) \<Rightarrow> (w, Inr (out, made))))"

end
