(* ===== verification/GwRouting.thy ===== *)
theory GwRouting
  imports GwWorld Receipt
begin

text \<open>
  \<open>backend/gateway/logic\<close>: where a queue is and how a request gets there.  \<open>placement-logic.go\<close>
  (\<open>assignOwner\<close>, \<open>ownerAddr\<close>), \<open>routing-logic.go\<close> (\<open>withOwner\<close>, \<open>rankedOwners\<close>, \<open>slotOf\<close>) and the
  operations built on them: \<open>enqueue-logic.go\<close>, \<open>ack-logic.go\<close>, \<open>dequeue-logic.go\<close>.
\<close>

subsection \<open>The owner of a queue or slot\<close>

definition no_nodes :: err where
  "no_nodes = New_error CodeExhausted ''no nodes available''"

text \<open>A panic unwinds past everything that only hands an error on; it is the error \<open>panicked\<close> here.\<close>

definition panicked :: err where
  "panicked = Plain ''panic: runtime error: index out of range [-1]''"

definition assignOwner :: "'n world \<Rightarrow> string \<Rightarrow> string \<Rightarrow> int \<Rightarrow> bool \<Rightarrow> int \<Rightarrow> err + member" where
  "assignOwner w org nm slot distributed width =
     (let members = g_members w
      in if members = [] then Inl no_nodes
         else let members = (if distributed then CandidatesFor (gw_key org nm) members width else members)
              in case OwnerKey org nm slot distributed of
                   None \<Rightarrow> Inl panicked
                 | Some k \<Rightarrow> (case OwnerFor k members of None \<Rightarrow> Inl no_nodes | Some m \<Rightarrow> Inr m))"

definition stored_owner :: "queueConfig \<Rightarrow> int \<Rightarrow> string" where
  "stored_owner cfg slot = (if qc_Distributed cfg then slot_owner (qc_SlotOwners cfg) (of_int slot) else qc_OwnerNode cfg)"

definition record_owner :: "queueConfig \<Rightarrow> int \<Rightarrow> string \<Rightarrow> 'n world \<Rightarrow> 'n world \<times> (err + unit)" where
  "record_owner cfg slot owner w =
     (if qc_Distributed cfg
      then db (quietly (SetOwner_slot (qc_Org cfg) (qc_Name cfg) (of_int slot) owner (qc_Generation cfg))) w
      else db (quietly (SetOwner_queue (qc_Org cfg) (qc_Name cfg) owner (qc_Generation cfg) (g_now w))) w)"

definition ownerAddr :: "queueConfig \<Rightarrow> int \<Rightarrow> 'n world \<Rightarrow> 'n world \<times> (err + string \<times> string)" where
  "ownerAddr cfg slot w =
     (let stored = stored_owner cfg slot
      in if stored \<noteq> []
         then (w, case Lookup w stored of
                    Some m \<Rightarrow> Inr (stored, mem_addr m)
                  | None \<Rightarrow> Inl (New_error CodeExhausted (''queue owner '' @ stored @ '' is not available'')))
         else case assignOwner w (qc_Org cfg) (qc_Name cfg) slot (qc_Distributed cfg) (gs_PlacementWidth (qc_Settings cfg)) of
                Inl e \<Rightarrow> (w, Inl e)
              | Inr m \<Rightarrow>
                  (case record_owner cfg slot (mem_id m) w of
                     (w, Inl e) \<Rightarrow> (w, Inl (Internal ''record owner'' e))
                   | (w, Inr _) \<Rightarrow> (evictCache (queueCacheKey (qc_Org cfg) (qc_Name cfg)) w, Inr (mem_id m, mem_addr m))))"

subsection \<open>Calling the owner\<close>

definition moveBackoff :: "duration list" where
  "moveBackoff = [5000000, 25000000, 100000000]"

text \<open>
  \<open>withOwner\<close> counts its attempts up; \<open>cancelled i\<close> says that the request is given up while it waits
  after attempt \<open>i\<close>.
\<close>

definition ctx_err :: err where
  "ctx_err = Plain ''context canceled''"

function withOwner_loop :: "(string \<Rightarrow> queueSpec \<Rightarrow> 'n world \<Rightarrow> 'n world \<times> (err + 'a)) \<Rightarrow> (nat \<Rightarrow> bool) \<Rightarrow> int \<Rightarrow> nat \<Rightarrow> queueConfig
    \<Rightarrow> 'n world \<Rightarrow> 'n world \<times> (err + 'a)" where
  "withOwner_loop run cancelled slot attempt cfg w =
     (if \<not> attempt < List.length moveBackoff + 1 then (w, Inl (New_error CodeExhausted ''queue moved repeatedly''))
      else case ownerAddr cfg slot w of
             (w, Inl e) \<Rightarrow> (w, Inl e)
           | (w, Inr (_, addr)) \<Rightarrow>
               (case run addr (Spec cfg) w of
                  (w, Inr r) \<Rightarrow> (w, Inr r)
                | (w, Inl e) \<Rightarrow>
                    (if CodeOf e \<noteq> CodeMoved \<or> attempt = List.length moveBackoff then (w, Inl e)
                     else if cancelled attempt then (w, Inl ctx_err)
                     else let w = w\<lparr>g_now := g_now w + moveBackoff ! attempt\<rparr>;
                              w = evictCache (queueCacheKey (qc_Org cfg) (qc_Name cfg)) w
                          in case config_for (qc_Org cfg) (qc_Name cfg) w of
                               (w, Inl e) \<Rightarrow> (w, Inl e)
                             | (w, Inr cfg) \<Rightarrow> withOwner_loop run cancelled slot (attempt + 1) cfg w)))"
  by pat_completeness auto
termination by (relation "measure (\<lambda>(_, _, _, attempt, _, _). List.length moveBackoff + 1 - attempt)") auto

declare withOwner_loop.simps [simp del]

definition withOwner :: "(nat \<Rightarrow> bool) \<Rightarrow> queueConfig \<Rightarrow> int \<Rightarrow> (string \<Rightarrow> queueSpec \<Rightarrow> 'n world \<Rightarrow> 'n world \<times> (err + 'a)) \<Rightarrow> 'n world
    \<Rightarrow> 'n world \<times> (err + 'a)" where
  "withOwner cancelled cfg slot run w = withOwner_loop run cancelled slot 0 cfg w"

text \<open>An ungrouped message is scattered by the text of the clock in base 36.\<close>

fun base36 :: "nat \<Rightarrow> string" where
  "base36 n = (if n < 36 then [''0123456789abcdefghijklmnopqrstuvwxyz'' ! n]
     else base36 (n div 36) @ [''0123456789abcdefghijklmnopqrstuvwxyz'' ! (n mod 36)])"

declare base36.simps [simp del]

definition FormatInt36 :: "int \<Rightarrow> string" where
  "FormatInt36 n = (if n < 0 then CHR ''-'' # base36 (nat (- n)) else base36 (nat n))"

definition slotOf :: "string \<Rightarrow> string \<Rightarrow> string \<Rightarrow> nat \<Rightarrow> int \<Rightarrow> u16" where
  "slotOf org nm grp n unix = (let grp = (if grp = [] then FormatInt36 unix else grp) in SlotFor org nm grp n)"

subsection \<open>Ranking the owners of a distributed queue\<close>

record ranked =
  rk_addr :: string
  rk_top :: int
  rk_score :: int

definition rank_owner :: "'n world \<Rightarrow> queueConfig \<Rightarrow> string \<Rightarrow> ranked option" where
  "rank_owner w cfg i =
     (case Lookup w i of
        None \<Rightarrow> None
      | Some m \<Rightarrow> Some (case readCache w (nodeStatsCacheKey (qc_Org cfg) (qc_Name cfg) i) of
            Some (C_Stats s) \<Rightarrow> \<lparr>rk_addr = mem_addr m, rk_top = qs_TopReady s,
              rk_score = qs_Ready s ! 2 * 1000 + qs_Ready s ! 1 * 100 + qs_Ready s ! 0\<rparr>
          | _ \<Rightarrow> \<lparr>rk_addr = mem_addr m, rk_top = - 1, rk_score = 0\<rparr>))"

definition ranks_before :: "ranked \<Rightarrow> ranked \<Rightarrow> bool" where
  "ranks_before a b = (if rk_top a \<noteq> rk_top b then rk_top a > rk_top b else rk_score a > rk_score b)"

text \<open>\<open>order\<close> is the order the slots are ranged over; a machine counts where it is met first.\<close>

definition distinct_owners :: "queueConfig \<Rightarrow> u16 list \<Rightarrow> string list" where
  "distinct_owners cfg order = rev (remdups (rev (filter (\<lambda>i. i \<noteq> []) (map (slot_owner (qc_SlotOwners cfg)) order))))"

definition rankedOwners :: "'n world \<Rightarrow> queueConfig \<Rightarrow> u16 list \<Rightarrow> string list" where
  "rankedOwners w cfg order = map rk_addr (sort_by ranks_before (List.map_filter (rank_owner w cfg) (distinct_owners cfg order)))"

subsection \<open>Enqueue, ack and nack\<close>

definition Enqueue_gw :: "'n nodeAPI \<Rightarrow> (nat \<Rightarrow> bool) \<Rightarrow> gwEnqueueRequest \<Rightarrow> 'n world \<Rightarrow> 'n world \<times> (err + string)" where
  "Enqueue_gw api cancelled req w =
     (case config_for (ge_Org req) (ge_Queue req) w of
        (w, Inl e) \<Rightarrow> (w, Inl e)
      | (w, Inr cfg) \<Rightarrow>
          (if qc_State cfg = StateDeleting then (w, Inl (NotFound ''queue''))
           else let slot = slotOf (ge_Org req) (ge_Queue req) (ge_GroupID req) (slotCountFor (qc_Distributed cfg)) (g_now w)
                in case withOwner cancelled cfg (uint slot) (\<lambda>addr spec. node_call addr (\<lambda>cs addr dial net n.
                          gw_Enqueue cs addr dial net (api_Enqueue api)
                            \<lparr>er_Spec = spec, er_Slot = Some slot, er_Payload = ge_Body req, er_Priority = ge_PriorityValue req,
                             er_GroupID = ge_GroupID req, er_TTL = ge_TTLFor req, er_DeliverAfter = ge_DeliverIn req\<rparr> n)) w of
                     (w, Inl e) \<Rightarrow> (w, Inl e)
                   | (w, Inr res) \<Rightarrow> (w, Inr (es_MessageID res))))"

definition Ack_gw :: "'n nodeAPI \<Rightarrow> (nat \<Rightarrow> bool) \<Rightarrow> gwAckRequest \<Rightarrow> 'n world \<Rightarrow> 'n world \<times> (err + unit)" where
  "Ack_gw api cancelled req w =
     (case config_for (ga_Org req) (ga_Queue req) w of
        (w, Inl e) \<Rightarrow> (w, Inl e)
      | (w, Inr cfg) \<Rightarrow>
          (case slotFromReceipt (ga_Receipt req) of
             Inl e \<Rightarrow> (w, Inl e)
           | Inr slot \<Rightarrow> withOwner cancelled cfg slot (\<lambda>addr spec. node_call addr (\<lambda>cs addr dial net n.
               gw_Ack cs addr dial net (api_Ack api) spec (ga_Receipt req) n)) w))"

definition Nack_gw :: "'n nodeAPI \<Rightarrow> (nat \<Rightarrow> bool) \<Rightarrow> gwNackRequest \<Rightarrow> 'n world \<Rightarrow> 'n world \<times> (err + unit)" where
  "Nack_gw api cancelled req w =
     (case config_for (gn_Org req) (gn_Queue req) w of
        (w, Inl e) \<Rightarrow> (w, Inl e)
      | (w, Inr cfg) \<Rightarrow>
          (case slotFromReceipt (gn_Receipt req) of
             Inl e \<Rightarrow> (w, Inl e)
           | Inr slot \<Rightarrow> withOwner cancelled cfg slot (\<lambda>addr spec. node_call addr (\<lambda>cs addr dial net n.
               gw_Nack cs addr dial net (api_Nack api) spec (gn_Receipt req) (gn_DelayFor req) n)) w))"

subsection \<open>Dequeue\<close>

text \<open>The owners of a distributed queue are asked in turn until one has something.\<close>

fun ask_owners :: "'n nodeAPI \<Rightarrow> queueSpec \<Rightarrow> int \<Rightarrow> string list \<Rightarrow> err option \<Rightarrow> bool \<Rightarrow> 'n world \<Rightarrow> 'n world \<times> (err + nodeMessage list)" where
  "ask_owners api spec mx [] lastErr answered w =
     (w, case lastErr of Some e \<Rightarrow> if answered then Inr [] else Inl e | None \<Rightarrow> Inr [])"
| "ask_owners api spec mx (addr # addrs) lastErr answered w =
     (case node_call addr (\<lambda>cs addr dial net n. gw_Dequeue cs addr dial net (api_Dequeue api) spec mx n) w of
        (w, Inl e) \<Rightarrow> ask_owners api spec mx addrs (Some e) answered w
      | (w, Inr ms) \<Rightarrow> if ms \<noteq> [] then (w, Inr ms) else ask_owners api spec mx addrs lastErr True w)"

definition take_once :: "'n nodeAPI \<Rightarrow> (nat \<Rightarrow> bool) \<Rightarrow> u16 list \<Rightarrow> queueConfig \<Rightarrow> int \<Rightarrow> 'n world \<Rightarrow> 'n world \<times> (err + nodeMessage list)" where
  "take_once api cancelled order cfg mx w =
     (if \<not> qc_Distributed cfg
      then withOwner cancelled cfg 0 (\<lambda>addr spec. node_call addr (\<lambda>cs addr dial net n.
             gw_Dequeue cs addr dial net (api_Dequeue api) spec mx n)) w
      else ask_owners api (Spec cfg) mx (rankedOwners w cfg order) None False w)"

text \<open>What ends the wait of a parked consumer, or makes it ask again, and when.\<close>

datatype wait_event = CtxDone | TimerFired | PollTick | Woken

text \<open>
  The loop of a waiting \<open>Dequeue\<close> over the events it meets; \<open>None\<close> while it is still parked.  The
  world may have moved on between two events: \<open>step\<close> is what the rest of the system did meanwhile.
\<close>

fun wait_loop :: "('n world \<Rightarrow> 'n world \<times> (err + nodeMessage list)) \<Rightarrow> bool \<Rightarrow> (wait_event \<times> ('n world \<Rightarrow> 'n world)) list \<Rightarrow> 'n world
    \<Rightarrow> 'n world \<times> (err + clientMessage list) option" where
  "wait_loop tk first es w =
     (case tk w of
        (w, Inl e) \<Rightarrow>
          (if first then (w, Some (Inl e))
           else case es of
                  [] \<Rightarrow> (w, None)
                | (CtxDone, step) # es \<Rightarrow> (step w, Some (Inl ctx_err))
                | (TimerFired, step) # es \<Rightarrow> (step w, Some (Inr []))
                | (_, step) # es \<Rightarrow> wait_loop tk False es (step w))
      | (w, Inr ms) \<Rightarrow>
          (if ms \<noteq> [] then (w, Some (Inr (toMessages ms)))
           else case es of
                  [] \<Rightarrow> (w, None)
                | (CtxDone, step) # es \<Rightarrow> (step w, Some (Inl ctx_err))
                | (TimerFired, step) # es \<Rightarrow> (step w, Some (Inr []))
                | (_, step) # es \<Rightarrow> wait_loop tk False es (step w)))"

declare wait_loop.simps [simp del]

definition Dequeue_gw :: "'n nodeAPI \<Rightarrow> (nat \<Rightarrow> bool) \<Rightarrow> u16 list \<Rightarrow> (wait_event \<times> ('n world \<Rightarrow> 'n world)) list \<Rightarrow> gwDequeueRequest \<Rightarrow> 'n world
    \<Rightarrow> 'n world \<times> (err + clientMessage list) option" where
  "Dequeue_gw api cancelled order es req w =
     (case config_for (gq_Org req) (gq_Queue req) w of
        (w, Inl e) \<Rightarrow> (w, Some (Inl e))
      | (w, Inr cfg) \<Rightarrow>
          (let tk = take_once api cancelled order cfg (gq_MaxMessages req)
           in if gq_WaitTime req \<le> 0
              then (case tk w of (w, Inl e) \<Rightarrow> (w, Some (Inl e)) | (w, Inr ms) \<Rightarrow> (w, Some (Inr (toMessages ms))))
              else wait_loop tk True es w))"

end
