(* ===== verification/GwMoves.thy ===== *)
theory GwMoves
  imports GwRouting
begin

text \<open>
  Moving queues between machines: \<open>rebalance-logic.go\<close> and \<open>reconcile-logic.go\<close> of
  \<open>backend/gateway/logic\<close>.  The random name of a move is an argument, as is the order in which the
  map of routes is ranged over.  The clocks that decide when \<open>Rebalance\<close> and \<open>Reconcile\<close> run are
  events (\<open>rebalancer_step\<close>).
\<close>

subsection \<open>The calls of a move\<close>

definition call_PrepareMove :: "'n nodeAPI \<Rightarrow> string \<Rightarrow> queueSpec \<Rightarrow> u16 list \<Rightarrow> string \<Rightarrow> 'n world \<Rightarrow> 'n world \<times> (err + transferRequest)" where
  "call_PrepareMove api addr spec sl mv w = node_call addr (\<lambda>cs addr dial net n. gw_PrepareMove cs addr dial net (api_PrepareMove api) spec sl mv n) w"

definition call_Absorb :: "'n nodeAPI \<Rightarrow> string \<Rightarrow> transferRequest \<Rightarrow> 'n world \<Rightarrow> 'n world \<times> (err + unit)" where
  "call_Absorb api addr t w = node_call addr (\<lambda>cs addr dial net n. gw_Absorb cs addr dial net (api_Absorb api) t n) w"

definition call_DiscardMove :: "'n nodeAPI \<Rightarrow> string \<Rightarrow> queueSpec \<Rightarrow> u16 list \<Rightarrow> string \<Rightarrow> 'n world \<Rightarrow> 'n world \<times> (err + unit)" where
  "call_DiscardMove api addr spec sl mv w = node_call addr (\<lambda>cs addr dial net n. gw_DiscardMove cs addr dial net (api_DiscardMove api) spec sl mv n) w"

definition call_AbortMove :: "'n nodeAPI \<Rightarrow> string \<Rightarrow> queueSpec \<Rightarrow> u16 list \<Rightarrow> string \<Rightarrow> 'n world \<Rightarrow> 'n world \<times> (err + unit)" where
  "call_AbortMove api addr spec sl mv w = node_call addr (\<lambda>cs addr dial net n. gw_AbortMove cs addr dial net (api_AbortMove api) spec sl mv n) w"

definition call_Held :: "'n nodeAPI \<Rightarrow> string \<Rightarrow> 'n world \<Rightarrow> 'n world \<times> (err + heldResponse)" where
  "call_Held api addr w = node_call addr (\<lambda>cs addr dial net n. gw_Held cs addr dial net (api_Held api) n) w"

text \<open>A failed abort is logged and left to the reconciler.\<close>

definition abort_move :: "'n nodeAPI \<Rightarrow> string \<Rightarrow> queueSpec \<Rightarrow> u16 list \<Rightarrow> string \<Rightarrow> 'n world \<Rightarrow> 'n world" where
  "abort_move api addr spec sl mv w = fst (call_AbortMove api addr spec sl mv w)"

text \<open>The name of a move: eight random bytes in hexadecimal, or the fixed word without randomness.\<close>

definition hex_byte :: "u8 \<Rightarrow> string" where
  "hex_byte b = (let d = ''0123456789abcdef'' in [d ! (unat b div 16), d ! (unat b mod 16)])"

definition newMoveID :: "bytes option \<Rightarrow> string" where
  "newMoveID r = (case r of None \<Rightarrow> ''move'' | Some bs \<Rightarrow> concat (map hex_byte bs))"

text \<open>Taking the lock, and what is deferred until the move is over, whatever came of it.\<close>

definition lock_queue :: "queueConfig \<Rightarrow> 'n world \<Rightarrow> 'n world \<times> (err + unit)" where
  "lock_queue cfg w = db (\<lambda>t. checked (SetState (g_holder w) (qc_Org cfg) (qc_Name cfg) StateMigrating (g_now w) t)) w"

definition unlock_queue :: "queueConfig \<Rightarrow> 'n world \<Rightarrow> 'n world" where
  "unlock_queue cfg w =
     evictCache (queueCacheKey (qc_Org cfg) (qc_Name cfg))
       (fst (db (\<lambda>t. checked (SetState (g_holder w) (qc_Org cfg) (qc_Name cfg) StateActive (g_now w) t)) w))"

definition with_gen :: "queueSpec \<Rightarrow> u64 \<Rightarrow> queueSpec" where
  "with_gen s g = s\<lparr>sp_Generation := g\<rparr>"

subsection \<open>A whole queue\<close>

text \<open>The body of \<open>migrate\<close> once the lock is held.\<close>

definition migrate_locked :: "'n nodeAPI \<Rightarrow> string \<Rightarrow> queueConfig \<Rightarrow> member \<Rightarrow> member \<Rightarrow> 'n world \<Rightarrow> 'n world \<times> (err + unit)" where
  "migrate_locked api mv cfg src dst w =
     (let spec = Spec cfg; sl = everySlot (slotCountFor (qc_Distributed cfg)); nextGen = qc_Generation cfg + 1
      in case call_PrepareMove api (mem_addr src) spec sl mv w of
           (w, Inl e) \<Rightarrow> (w, Inl e)
         | (w, Inr t) \<Rightarrow>
             (let t = t\<lparr>tr_Spec := with_gen spec nextGen, tr_MoveID := mv\<rparr>
              in case call_Absorb api (mem_addr dst) t w of
                   (w, Inl e) \<Rightarrow> (abort_move api (mem_addr src) spec sl mv w, Inl e)
                 | (w, Inr _) \<Rightarrow>
                     (case db (quietly (SetOwner_queue (qc_Org cfg) (qc_Name cfg) (mem_id dst) nextGen (g_now w))) w of
                        (w, Inl e) \<Rightarrow> (abort_move api (mem_addr src) spec sl mv w, Inl e)
                      | (w, Inr _) \<Rightarrow> (fst (call_DiscardMove api (mem_addr src) (with_gen spec nextGen) sl mv w), Inr ()))))"

definition migrate :: "'n nodeAPI \<Rightarrow> string \<Rightarrow> queueConfig \<Rightarrow> member \<Rightarrow> member \<Rightarrow> 'n world \<Rightarrow> 'n world \<times> (err + unit)" where
  "migrate api mv cfg src dst w =
     (case lock_queue cfg w of
        (w, Inl e) \<Rightarrow> (w, Inl e)
      | (w, Inr _) \<Rightarrow> (let (w, r) = migrate_locked api mv cfg src dst w in (unlock_queue cfg w, r)))"

subsection \<open>The slots of a distributed queue\<close>

type_synonym route = "string \<times> string"

text \<open>The slot's move, if its owner by hash is another machine than its live owner; a slot below the
  slot count never makes \<open>OwnerKey\<close> panic.\<close>

definition slot_route :: "'n world \<Rightarrow> queueConfig \<Rightarrow> member list \<Rightarrow> nat \<Rightarrow> route option" where
  "slot_route w cfg candidates s =
     (let current = slot_owner (qc_SlotOwners cfg) (of_nat s)
      in if current = [] then None
         else case OwnerKey (qc_Org cfg) (qc_Name cfg) (int s) True of
                None \<Rightarrow> None
              | Some k \<Rightarrow>
                  (case OwnerFor k candidates of
                     None \<Rightarrow> None
                   | Some want \<Rightarrow>
                       if mem_id want = current \<or> Lookup w current = None then None else Some (current, mem_id want)))"

definition add_route :: "'n world \<Rightarrow> queueConfig \<Rightarrow> member list \<Rightarrow> nat \<Rightarrow> (route \<times> u16 list) list \<Rightarrow> (route \<times> u16 list) list" where
  "add_route w cfg candidates s moves =
     (case slot_route w cfg candidates s of
        None \<Rightarrow> moves
      | Some r \<Rightarrow> AList.update r ((case map_of moves r of None \<Rightarrow> [] | Some l \<Rightarrow> l) @ [of_nat s]) moves)"

definition slot_moves :: "'n world \<Rightarrow> queueConfig \<Rightarrow> member list \<Rightarrow> (route \<times> u16 list) list" where
  "slot_moves w cfg members =
     fold (add_route w cfg (CandidatesFor (gw_key (qc_Org cfg) (qc_Name cfg)) members (gs_PlacementWidth (qc_Settings cfg))))
       [0..<slotCountFor (qc_Distributed cfg)] []"

text \<open>Recording the new owner slot by slot; the flag says whether every row was written.\<close>

fun record_slots :: "queueConfig \<Rightarrow> string \<Rightarrow> u64 \<Rightarrow> u16 list \<Rightarrow> bool \<Rightarrow> 'n world \<Rightarrow> 'n world \<times> bool" where
  "record_slots cfg dst gen [] ok w = (w, ok)"
| "record_slots cfg dst gen (s # sl) ok w =
     (case db (quietly (SetOwner_slot (qc_Org cfg) (qc_Name cfg) s dst gen)) w of
        (w, Inl e) \<Rightarrow> record_slots cfg dst gen sl False w
      | (w, Inr _) \<Rightarrow> record_slots cfg dst gen sl ok w)"

definition move_route :: "'n nodeAPI \<Rightarrow> (route \<Rightarrow> string) \<Rightarrow> queueConfig \<Rightarrow> route \<times> u16 list \<Rightarrow> 'n world \<Rightarrow> 'n world \<times> bool" where
  "move_route api newID cfg x w =
     (let ((src, dst), sl) = x; nextGen = qc_Generation cfg + 1
      in case (Lookup w src, Lookup w dst) of
           (Some a, Some b) \<Rightarrow>
             (let spec = Spec cfg; mv = newID (src, dst)
              in case call_PrepareMove api (mem_addr a) spec sl mv w of
                   (w, Inl e) \<Rightarrow> (w, False)
                 | (w, Inr t) \<Rightarrow>
                     (let t = t\<lparr>tr_Spec := with_gen spec nextGen, tr_MoveID := mv\<rparr>
                      in case call_Absorb api (mem_addr b) t w of
                           (w, Inl e) \<Rightarrow> (abort_move api (mem_addr a) spec sl mv w, False)
                         | (w, Inr _) \<Rightarrow>
                             (case record_slots cfg dst nextGen sl True w of
                                (w, False) \<Rightarrow> (w, False)
                              | (w, True) \<Rightarrow> (fst (call_DiscardMove api (mem_addr a) (with_gen spec nextGen) sl mv w), True))))
         | _ \<Rightarrow> (w, False))"

fun move_routes :: "'n nodeAPI \<Rightarrow> (route \<Rightarrow> string) \<Rightarrow> queueConfig \<Rightarrow> (route \<times> u16 list) list \<Rightarrow> nat \<Rightarrow> 'n world \<Rightarrow> 'n world \<times> nat" where
  "move_routes api newID cfg [] dn w = (w, dn)"
| "move_routes api newID cfg (x # xs) dn w =
     (let (w, ok) = move_route api newID cfg x w in move_routes api newID cfg xs (if ok then dn + 1 else dn) w)"

text \<open>\<open>perm\<close> puts the routes in the order they are ranged over.\<close>

definition rebalanceSlots :: "'n nodeAPI \<Rightarrow> (route \<Rightarrow> string) \<Rightarrow> ((route \<times> u16 list) list \<Rightarrow> (route \<times> u16 list) list) \<Rightarrow> queueConfig \<Rightarrow> member list
    \<Rightarrow> 'n world \<Rightarrow> 'n world \<times> bool" where
  "rebalanceSlots api newID perm cfg members w =
     (let moves = slot_moves w cfg members
      in if moves = [] then (w, False)
         else case lock_queue cfg w of
                (w, Inl e) \<Rightarrow> (w, False)
              | (w, Inr _) \<Rightarrow> (let (w, dn) = move_routes api newID cfg (perm moves) 0 w in (unlock_queue cfg w, dn > 0)))"

subsection \<open>Rebalancing\<close>

definition maxConcurrent :: nat where
  "maxConcurrent = 2"

text \<open>The arguments of a pass: the names of its moves, by queue and route, and the order of the routes.\<close>

fun rebalance_loop :: "'n nodeAPI \<Rightarrow> (string \<Rightarrow> route \<Rightarrow> string) \<Rightarrow> ((route \<times> u16 list) list \<Rightarrow> (route \<times> u16 list) list) \<Rightarrow> member list
    \<Rightarrow> queueConfig list \<Rightarrow> nat \<Rightarrow> 'n world \<Rightarrow> 'n world" where
  "rebalance_loop api newID perm members [] moved w = w"
| "rebalance_loop api newID perm members (cfg # cfgs) moved w =
     (let k = gw_key (qc_Org cfg) (qc_Name cfg)
      in if moved \<ge> maxConcurrent then w
         else if qc_State cfg \<noteq> StateActive then rebalance_loop api newID perm members cfgs moved w
         else if qc_Distributed cfg
         then (let (w, ok) = rebalanceSlots api (newID k) perm cfg members w
               in rebalance_loop api newID perm members cfgs (if ok then moved + 1 else moved) w)
         else case OwnerFor k members of
                None \<Rightarrow> rebalance_loop api newID perm members cfgs moved w
              | Some want \<Rightarrow>
                  (if mem_id want = qc_OwnerNode cfg then rebalance_loop api newID perm members cfgs moved w
                   else case Lookup w (qc_OwnerNode cfg) of
                          None \<Rightarrow> rebalance_loop api newID perm members cfgs moved w
                        | Some src \<Rightarrow>
                            (case migrate api (newID k (mem_id src, mem_id want)) cfg src want w of
                               (w, Inl e) \<Rightarrow> rebalance_loop api newID perm members cfgs moved w
                             | (w, Inr _) \<Rightarrow> rebalance_loop api newID perm members cfgs (moved + 1) w)))"

definition Rebalance :: "'n nodeAPI \<Rightarrow> (string \<Rightarrow> route \<Rightarrow> string) \<Rightarrow> ((route \<times> u16 list) list \<Rightarrow> (route \<times> u16 list) list) \<Rightarrow> 'n world \<Rightarrow> 'n world" where
  "Rebalance api newID perm w =
     (let members = g_members w
      in if members = [] then w
         else case db (asking (\<lambda>t. Inr (ListAll (g_coll w) t))) w of
                (w, Inl e) \<Rightarrow> w
              | (w, Inr cfgs) \<Rightarrow> (let (w, cfgs) = withPlacement cfgs w in rebalance_loop api newID perm members cfgs 0 w))"

definition stabilityWindow :: duration where
  "stabilityWindow = 15 * second"

datatype rebalance_event = MembershipChanged | SweepTick | SecondTick

text \<open>One turn of the loop of \<open>RunRebalancer\<close>: \<open>settleAt\<close> (zero when unset) and whether to rebalance.\<close>

definition rebalancer_step :: "rebalance_event \<Rightarrow> time \<Rightarrow> time \<Rightarrow> time \<times> bool" where
  "rebalancer_step ev now settleAt =
     (case ev of
        MembershipChanged \<Rightarrow> (now + stabilityWindow, False)
      | SweepTick \<Rightarrow> (settleAt, True)
      | SecondTick \<Rightarrow> (if is_zero settleAt \<or> now < settleAt then (settleAt, False) else (0, True)))"

end
