(* ===== verification/GwRows.thy ===== *)
theory GwRows
  imports GwTables
begin

text \<open>
  What the statements of \<open>GwTables\<close> do to the row of one queue and to the owner of one slot, that the
  primary keys stay unique, and that the migration lock has one holder at a time.
\<close>

subsection \<open>The row of a queue\<close>

definition row_at :: "tables \<Rightarrow> string \<Rightarrow> string \<Rightarrow> queueRow option" where
  "row_at t org nm = find (row_is org nm) (queues_tab t)"

lemma find_map_same: "(\<And>r. P (f r) = P r) \<Longrightarrow> find P (map f rs) = map_option f (find P rs)"
  by (induction rs) auto

lemma row_at_update:
  assumes "\<And>r. row_is o' m' (f r) = row_is o' m' r"
  shows "row_at (fst (update_rows P f t)) o' m' = map_option (\<lambda>r. if P r then f r else r) (row_at t o' m')"
  using assms by (simp add: update_rows_def row_at_def find_map_same)

lemma row_at_is: "row_at t org nm = Some r \<Longrightarrow> row_is org nm r"
  by (auto simp: row_at_def find_Some_iff)

lemma row_at_None: "row_at t org nm = None \<longleftrightarrow> (\<forall>r \<in> set (queues_tab t). \<not> row_is org nm r)"
  by (auto simp: row_at_def find_None_iff)

lemma row_is_other: "row_is org nm r \<Longrightarrow> row_is o' m' r \<longleftrightarrow> o' = org \<and> m' = nm"
  by (auto simp: row_is_def)

lemma row_at_SetOwner: "row_at (SetOwner_queue org nm owner gen now t) o' m' =
    (if o' = org \<and> m' = nm
     then map_option (\<lambda>r. r\<lparr>row_owner_node := Some owner, row_generation := gen, row_updated_at := now\<rparr>) (row_at t org nm)
     else row_at t o' m')"
  unfolding SetOwner_queue_def
  by (subst row_at_update) (auto simp: row_is_def option.map_comp intro!: option.map_cong0 option.map_ident_strong dest: row_at_is)

lemma row_at_SetState:
  assumes "qs \<noteq> StateMigrating"
  shows "row_at (fst (SetState h org nm qs now t)) o' m' =
    (if o' = org \<and> m' = nm
     then map_option (\<lambda>r. r\<lparr>row_state := qs, row_migrating_by := None, row_migrating_since := None, row_updated_at := now\<rparr>) (row_at t org nm)
     else row_at t o' m')"
  using assms unfolding SetState_def
  by (simp add: row_at_update row_is_def) (auto simp: row_is_def option.map_comp intro!: option.map_cong0 option.map_ident_strong dest: row_at_is)

lemma SetState_ok: "qs \<noteq> StateMigrating \<Longrightarrow> snd (SetState h org nm qs now t) = None"
  by (simp add: SetState_def)

lemma row_at_UpdateSettings: "row_at (fst (UpdateSettings org nm s now t)) o' m' =
    (if o' = org \<and> m' = nm then map_option (\<lambda>r. r\<lparr>row_settings := s, row_updated_at := now\<rparr>) (row_at t org nm) else row_at t o' m')"
  unfolding UpdateSettings_def Let_def case_prod_beta fst_conv
  by (subst row_at_update) (auto simp: row_is_def option.map_comp intro!: option.map_cong0 option.map_ident_strong dest: row_at_is)

lemma row_at_insert: "row_at (fst (insert_queue c now t)) o' m' =
    (if o' = qc_Org c \<and> m' = qc_Name c \<and> row_at t o' m' = None then Some (new_row c now) else row_at t o' m')"
proof -
  have "find P (xs @ ys) = (case find P xs of None \<Rightarrow> find P ys | Some x \<Rightarrow> Some x)" for P and xs ys :: "queueRow list"
    by (induction xs) auto
  then show ?thesis by (auto simp: insert_queue_def row_at_def row_is_def new_row_def split: option.split)
qed

lemma row_at_Delete: "row_at (Delete_row org nm t) o' m' = (if o' = org \<and> m' = nm then None else row_at t o' m')"
proof -
  have keep: "(\<And>x. P x \<Longrightarrow> Q x) \<Longrightarrow> find P (filter Q xs) = find P xs"
    and gone: "(\<And>x. P x \<Longrightarrow> \<not> Q x) \<Longrightarrow> find P (filter Q xs) = None" for P Q and xs :: "queueRow list"
    by (induction xs) auto
  show ?thesis unfolding Delete_row_def row_at_def
    by (cases "o' = org \<and> m' = nm") (auto simp: row_is_def intro!: keep gone)
qed

lemma row_at_slots [simp]: "row_at (SetOwner_slot org nm i owner gen t) o' m' = row_at t o' m'"
  "row_at (DeleteByQueue org nm t) o' m' = row_at t o' m'"
  by (simp_all add: row_at_def SetOwner_slot_def DeleteByQueue_def)

subsection \<open>Primary keys\<close>

definition keys_unique :: "tables \<Rightarrow> bool" where
  "keys_unique t \<longleftrightarrow> distinct (map (\<lambda>r. (row_org_id r, row_name r)) (queues_tab t)) \<and>
     distinct (map (\<lambda>p. (spl_Org p, spl_QueueName p, spl_Slot p)) (slots_tab t))"

lemma row_at_unique: "keys_unique t \<Longrightarrow> r \<in> set (queues_tab t) \<Longrightarrow> row_is org nm r \<Longrightarrow> row_at t org nm = Some r"
proof -
  assume u: "keys_unique t" and r: "r \<in> set (queues_tab t)" "row_is org nm r"
  then obtain x where x: "row_at t org nm = Some x" by (cases "row_at t org nm") (auto simp: row_at_None)
  then have "x \<in> set (queues_tab t)" "row_is org nm x" by (auto simp: row_at_def find_Some_iff)
  moreover have "inj_on (\<lambda>r. (row_org_id r, row_name r)) (set (queues_tab t))" using u by (simp add: keys_unique_def distinct_map)
  ultimately have "x = r" using r by (auto simp: row_is_def inj_on_def)
  with x show ?thesis by simp
qed

text \<open>The statements on one row or slot, as one relation: who acts, when, and on what.\<close>

inductive table_step :: "time \<Rightarrow> tables \<Rightarrow> tables \<Rightarrow> bool" where
  Insert: "table_step now t (fst (insert_queue c now t))"
| Owner: "table_step now t (SetOwner_queue org nm owner gen now t)"
| State: "table_step now t (fst (SetState h org nm qs now t))"
| Settings: "table_step now t (fst (UpdateSettings org nm s now t))"
| Delete: "table_step now t (Delete_row org nm t)"
| SlotOwner: "table_step now t (SetOwner_slot org nm i owner gen t)"
| SlotsGone: "table_step now t (DeleteByQueue org nm t)"

lemma keys_update:
  assumes "\<And>r. (row_org_id (f r), row_name (f r)) = (row_org_id r, row_name r)"
  shows "keys_unique (fst (update_rows P f t)) = keys_unique t"
proof -
  have "(\<lambda>r. (row_org_id r, row_name r)) \<circ> (\<lambda>r. if P r then f r else r) = (\<lambda>r. (row_org_id r, row_name r))"
    using assms by (auto simp: fun_eq_iff)
  then show ?thesis by (simp add: keys_unique_def update_rows_def)
qed

lemma table_step_keys: "table_step now t t' \<Longrightarrow> keys_unique t \<Longrightarrow> keys_unique t'"
proof (induction rule: table_step.induct)
  case (Insert now t c)
  then show ?case by (force simp: insert_queue_def keys_unique_def new_row_def find_None_iff row_is_def split: option.splits)
next
  case (State now t h org nm qs)
  then show ?case by (simp add: SetState_def takeMigrationLock_def Let_def case_prod_beta keys_update)
next
  case (SlotOwner now t org nm i owner gen)
  show ?case
  proof (cases "\<exists>p \<in> set (slots_tab t). placed org nm p \<and> spl_Slot p = i")
    case True
    have "(\<lambda>p. (spl_Org p, spl_QueueName p, spl_Slot p)) \<circ> (\<lambda>p. if placed org nm p \<and> spl_Slot p = i
        then p\<lparr>spl_OwnerNode := owner, spl_Generation := gen\<rparr> else p) = (\<lambda>p. (spl_Org p, spl_QueueName p, spl_Slot p))"
      by (auto simp: fun_eq_iff)
    with True SlotOwner show ?thesis by (simp add: SetOwner_slot_def keys_unique_def)
  next
    case False
    with SlotOwner show ?thesis by (auto simp: SetOwner_slot_def keys_unique_def placed_def)
  qed
next
  case (Owner now t org nm owner gen)
  then show ?case by (simp add: SetOwner_queue_def keys_update)
next
  case (Settings now t org nm s)
  then show ?case by (simp add: UpdateSettings_def Let_def case_prod_beta keys_update)
next
  case (Delete now t org nm)
  then show ?case by (simp add: Delete_row_def keys_unique_def distinct_map_filter)
next
  case (SlotsGone now t org nm)
  then show ?case by (simp add: DeleteByQueue_def keys_unique_def distinct_map_filter)
qed

subsection \<open>The migration lock\<close>

text \<open>A statement that does not set the state of the queue or remove it; an attempt at the lock is one.\<close>

inductive other_step :: "string \<Rightarrow> string \<Rightarrow> time \<Rightarrow> tables \<Rightarrow> tables \<Rightarrow> bool" for org nm where
  OInsert: "other_step org nm now t (fst (insert_queue c now t))"
| OOwner: "other_step org nm now t (SetOwner_queue o' m' owner gen now t)"
| OState: "(o', m') \<noteq> (org, nm) \<Longrightarrow> other_step org nm now t (fst (SetState h o' m' qs now t))"
| OLock: "other_step org nm now t (fst (takeMigrationLock h o' m' now t))"
| OSettings: "other_step org nm now t (fst (UpdateSettings o' m' s now t))"
| ODelete: "(o', m') \<noteq> (org, nm) \<Longrightarrow> other_step org nm now t (Delete_row o' m' t)"
| OSlotOwner: "other_step org nm now t (SetOwner_slot o' m' i owner gen t)"
| OSlotsGone: "other_step org nm now t (DeleteByQueue o' m' t)"

definition locked_by :: "string \<Rightarrow> time \<Rightarrow> queueRow \<Rightarrow> bool" where
  "locked_by h since r \<longleftrightarrow> row_state r = StateMigrating \<and> row_migrating_by r = Some h \<and> row_migrating_since r = Some since"

lemma lock_row: "row_at (fst (takeMigrationLock h org nm now t)) o' m' =
    map_option (\<lambda>r. if (o', m') = (org, nm) \<and> lockable now r
      then r\<lparr>row_state := StateMigrating, row_migrating_by := Some h, row_migrating_since := Some now, row_updated_at := now\<rparr> else r) (row_at t o' m')"
  unfolding takeMigrationLock_def Let_def case_prod_beta fst_conv
  by (subst row_at_update) (auto simp: row_is_def intro!: option.map_cong0 dest: row_at_is)

lemma lock_taken: "takeMigrationLock h org nm now t = (t', None) \<Longrightarrow> keys_unique t \<Longrightarrow>
    \<exists>r. row_at t org nm = Some r \<and> lockable now r \<and> row_at t' org nm = Some
      (r\<lparr>row_state := StateMigrating, row_migrating_by := Some h, row_migrating_since := Some now, row_updated_at := now\<rparr>)"
proof -
  assume k: "takeMigrationLock h org nm now t = (t', None)" and u: "keys_unique t"
  then have "filter (\<lambda>r. row_is org nm r \<and> lockable now r) (queues_tab t) \<noteq> []"
    by (auto simp: takeMigrationLock_def Let_def update_rows_def split: if_splits)
  then obtain r where r: "r \<in> set (queues_tab t)" "row_is org nm r" "lockable now r" by (auto simp: filter_empty_conv)
  have "row_at t org nm = Some r" by (rule row_at_unique [OF u r(1,2)])
  moreover have "t' = fst (takeMigrationLock h org nm now t)" using k by simp
  ultimately show ?thesis using r(3) by (simp add: lock_row)
qed

lemma lock_refused:
  assumes "row_at t org nm = Some r" and "\<not> lockable now r" and "keys_unique t"
  shows "takeMigrationLock h org nm now t = (t, Some (New_error CodeConflict ''queue is already migrating''))"
proof -
  have n: "\<forall>x \<in> set (queues_tab t). \<not> (row_is org nm x \<and> lockable now x)"
    using row_at_unique [OF assms(3)] assms(1,2) by fastforce
  then have "filter (\<lambda>r. row_is org nm r \<and> lockable now r) (queues_tab t) = []" by (auto simp: filter_empty_conv)
  moreover have "map (\<lambda>r. if row_is org nm r \<and> lockable now r then f r else r) (queues_tab t) = queues_tab t" for f
    using n by (intro map_idI) auto
  ultimately show ?thesis by (simp add: takeMigrationLock_def update_rows_def Let_def)
qed

lemma other_step_keys: "other_step org nm now t t' \<Longrightarrow> keys_unique t \<Longrightarrow> keys_unique t'"
proof (induction rule: other_step.induct)
  case (OLock now t h o' m')
  have "fst (takeMigrationLock h o' m' now t) = fst (SetState h o' m' StateMigrating now t)" by (simp add: SetState_def)
  with OLock show ?case using table_step_keys [OF table_step.State] by simp
qed (blast intro: table_step.intros table_step_keys)+

lemma lease_holds: "locked_by h since r \<Longrightarrow> now \<le> since + migrationLease \<Longrightarrow> \<not> lockable now r"
  by (simp add: locked_by_def lockable_def)

lemma other_step_lock:
  assumes "other_step org nm now t t'" and "row_at t org nm = Some r" and "locked_by h since r" and "now \<le> since + migrationLease"
  shows "\<exists>r'. row_at t' org nm = Some r' \<and> locked_by h since r'"
  using assms
proof (induction rule: other_step.induct)
  case (OState o' m' now t h' qs)
  then have "row_at (fst (SetState h' o' m' qs now t)) org nm = row_at t org nm"
    by (cases "qs = StateMigrating")
      (auto simp: row_at_SetState SetState_def [of _ _ _ StateMigrating] lock_row option.map_ident_strong)
  with OState show ?case by simp
next
  case (OLock now t h' o' m')
  with lease_holds [OF OLock(2,3)] show ?case by (auto simp: lock_row)
qed (auto simp: row_at_insert row_at_SetOwner row_at_UpdateSettings row_at_Delete row_at_slots locked_by_def)

text \<open>A run of such statements, with the times they are made at.\<close>

fun other_run :: "string \<Rightarrow> string \<Rightarrow> (time \<times> tables) list \<Rightarrow> tables \<Rightarrow> bool" where
  "other_run org nm [] t = True"
| "other_run org nm ((now, t') # rest) t = (other_step org nm now t t' \<and> other_run org nm rest t')"

definition run_end :: "tables \<Rightarrow> (time \<times> tables) list \<Rightarrow> tables" where
  "run_end t run = (if run = [] then t else snd (last run))"

lemma other_run_lock:
  assumes "other_run org nm run t" and "row_at t org nm = Some r" and "locked_by h since r" and "keys_unique t"
    and "\<And>x. x \<in> set run \<Longrightarrow> fst x \<le> since + migrationLease"
  shows "keys_unique (run_end t run) \<and> (\<exists>r'. row_at (run_end t run) org nm = Some r' \<and> locked_by h since r')"
  using assms
proof (induction run arbitrary: t r)
  case (Cons x run)
  obtain now t' where x: "x = (now, t')" by (cases x)
  have s: "other_step org nm now t t'" "other_run org nm run t'" using Cons.prems(1) x by simp_all
  have "now \<le> since + migrationLease" using Cons.prems(5) [of x] x by simp
  from other_step_lock [OF s(1) Cons.prems(2,3) this] obtain r' where r': "row_at t' org nm = Some r'" "locked_by h since r'" by blast
  have "run_end t (x # run) = run_end t' run" by (simp add: run_end_def x)
  with Cons.IH [OF s(2) r' other_step_keys [OF s(1) Cons.prems(4)]] Cons.prems(5) show ?case by simp
qed (simp add: run_end_def)


definition demo_settings :: queueSettings where
  "demo_settings = \<lparr>gs_VisibilityTimeout = 30 * second, gs_MaxRetries = 3, gs_DefaultTTL = 0, gs_StarvationThreshold = 0,
     gs_StarvationReserve = 1 / 5, gs_StarvationAvoidanceEnabled = False, gs_MaxDepth = 0, gs_DeadLetterQueue = [], gs_PlacementWidth = 6\<rparr>"

definition demo_config :: queueConfig where
  "demo_config = \<lparr>qc_Org = ''o'', qc_Name = ''n'', qc_Settings = demo_settings, qc_Distributed = False, qc_State = StateActive,
     qc_OwnerNode = ''n1'', qc_Generation = 1, qc_SlotOwners = [], qc_CreatedAt = 0, qc_UpdatedAt = 0\<rparr>"

definition demo_tables :: tables where
  "demo_tables = \<lparr>queues_tab = [new_row demo_config 0], slots_tab = []\<rparr>"


subsection \<open>The owner of a slot\<close>

definition slot_row :: "tables \<Rightarrow> string \<Rightarrow> string \<Rightarrow> u16 \<Rightarrow> string option" where
  "slot_row t org nm i = map_of (ListByQueue org nm t) i"

lemma slot_row_SetOwner: "slot_row (SetOwner_slot org nm i owner gen t) org nm j = (if j = i then Some owner else slot_row t org nm j)"
proof (cases "\<exists>p \<in> set (slots_tab t). placed org nm p \<and> spl_Slot p = i")
  case True
  let ?f = "\<lambda>p. if placed org nm p \<and> spl_Slot p = i then p\<lparr>spl_OwnerNode := owner, spl_Generation := gen\<rparr> else p"
  let ?l = "\<lambda>ps. map_of (map (\<lambda>p. (spl_Slot p, spl_OwnerNode p)) (filter (placed org nm) ps))"
  have pf: "placed org nm (p\<lparr>spl_OwnerNode := owner, spl_Generation := gen\<rparr>) = placed org nm p" for p by (simp add: placed_def)
  have e1: "j \<noteq> i \<Longrightarrow> ?l (map ?f ps) j = ?l ps j" for ps
    by (induction ps) (simp_all add: pf)
  have e2: "\<exists>p \<in> set ps. placed org nm p \<and> spl_Slot p = i \<Longrightarrow> ?l (map ?f ps) i = Some owner" for ps
  proof (induction ps)
    case (Cons p ps)
    show ?case
    proof (cases "placed org nm p \<and> spl_Slot p = i")
      case False
      with Cons.prems have "\<exists>p \<in> set ps. placed org nm p \<and> spl_Slot p = i" by auto
      from Cons.IH [OF this] False show ?thesis by auto
    qed (simp add: pf)
  qed simp
  have "slot_row (SetOwner_slot org nm i owner gen t) org nm j = ?l (map ?f (slots_tab t)) j"
    unfolding slot_row_def ListByQueue_def SetOwner_slot_def using True by simp
  with e1 e2 [OF True] show ?thesis by (simp add: slot_row_def ListByQueue_def)
next
  case False
  then have none: "slot_row t org nm i = None" by (auto simp: slot_row_def ListByQueue_def map_of_eq_None_iff)
  have e: "map_of (xs @ [(i, owner)]) j = (if j = i \<and> map_of xs i = None then Some owner else map_of xs j)" for xs
    by (induction xs) auto
  have "ListByQueue org nm (SetOwner_slot org nm i owner gen t) = ListByQueue org nm t @ [(i, owner)]"
    unfolding SetOwner_slot_def if_not_P [OF False] by (simp add: ListByQueue_def placed_def)
  with none show ?thesis by (simp add: slot_row_def e del: map_of_append)
qed

lemma slot_row_other [simp]: "slot_row (fst (update_rows P f t)) org nm i = slot_row t org nm i"
  by (simp add: slot_row_def ListByQueue_def update_rows_def)

end
