(* ===== verification/GwMoveSafe.thy ===== *)
theory GwMoveSafe
  imports GwMoves GwRows NodeMove
begin

text \<open>
  Moving a queue never loses a message, whatever the calls of the move meet.  What the gateway needs
  of the nodes is the locale \<open>move_api\<close>; the gateway's lemmas are proved in it once, for any
  pattern of refused and lost calls, and it is interpreted on the node of this development, with the
  laws of \<open>NodeMove\<close>.
\<close>

subsection \<open>Calls and faults\<close>

definition node_at :: "'n world \<Rightarrow> string \<Rightarrow> 'n option" where
  "node_at w addr = map_of (g_nodes w) addr"

lemma next_fault_frame: "next_fault w = (f, w') \<Longrightarrow> g_db w' = g_db w \<and> g_nodes w' = g_nodes w \<and> g_members w' = g_members w \<and>
    g_now w' = g_now w \<and> g_holder w' = g_holder w \<and> g_coll w' = g_coll w \<and> g_cache w' = g_cache w \<and> g_CacheTTL w' = g_CacheTTL w"
  by (auto simp: next_fault_def split: list.splits)

text \<open>A call changes the node it reaches by the handler or not at all, and an answer is the handler's.\<close>

lemma rpc_effect:
  assumes "rpc cs addr dial net srv n = (cs', n', r)"
  shows "(n' = n \<or> n' = fst (srv n)) \<and> (\<forall>x. r = Inr x \<longrightarrow> srv n = (n', Inr x))"
  using assms
  by (cases net) (auto simp: rpc_def failed_def client_def Let_def split: option.splits sum.splits prod.splits if_splits)

definition reached :: "'n world \<Rightarrow> string \<Rightarrow> ('n \<Rightarrow> 'n \<times> (grpc_status + 'r)) \<Rightarrow> ('r \<Rightarrow> 's) \<Rightarrow> 'n world \<Rightarrow> err + 's \<Rightarrow> bool" where
  "reached w addr srv f w' r \<longleftrightarrow> g_db w' = g_db w \<and> g_members w' = g_members w \<and> (\<forall>x. x \<noteq> addr \<longrightarrow> node_at w' x = node_at w x) \<and>
     (\<forall>n. node_at w addr = Some n \<longrightarrow> (\<exists>n'. node_at w' addr = Some n' \<and> (n' = n \<or> n' = fst (srv n)) \<and>
        (\<forall>x. r = Inr x \<longrightarrow> (\<exists>y. srv n = (n', Inr y) \<and> x = f y))))"

lemma reachedD:
  assumes "reached w addr srv f w' r"
  shows "g_db w' = g_db w" "g_members w' = g_members w" "x \<noteq> addr \<Longrightarrow> node_at w' x = node_at w x"
    "node_at w addr = Some n \<Longrightarrow> \<exists>n'. node_at w' addr = Some n' \<and> (n' = n \<or> n' = fst (srv n)) \<and>
       (\<forall>x. r = Inr x \<longrightarrow> (\<exists>y. srv n = (n', Inr y) \<and> x = f y))"
  using assms by (auto simp: reached_def)

lemma rpc_map_effect:
  assumes "rpc_map f (rpc cs addr dial net srv n) = (cs', n', r)"
  shows "(n' = n \<or> n' = fst (srv n)) \<and> (\<forall>x. r = Inr x \<longrightarrow> (\<exists>y. srv n = (n', Inr y) \<and> x = f y))"
proof -
  obtain cs1 n1 r1 where c: "rpc cs addr dial net srv n = (cs1, n1, r1)" by (metis prod_cases3)
  from rpc_effect [OF c] c assms show ?thesis by (auto simp: rpc_map_def split: sum.splits)
qed

lemma node_call_effect:
  assumes "node_call addr (\<lambda>cs addr dial net n. rpc_map f (rpc cs addr dial net srv n)) w = (w', r)"
  shows "reached w addr srv f w' r"
proof -
  obtain f' w1 where n: "next_fault w = (f', w1)" by fastforce
  note F = next_fault_frame [OF n]
  show ?thesis
  proof (cases "map_of (g_nodes w) addr")
    case None
    then show ?thesis using assms n F by (auto simp: node_call_def node_at_def reached_def)
  next
    case (Some a)
    obtain cs n' r' where m: "rpc_map f (rpc (g_conns w1) addr (f_dial f') (f_net f') srv a) = (cs, n', r')" by (metis prod_cases3)
    have w': "w' = w1\<lparr>g_conns := cs, g_nodes := AList.update addr n' (g_nodes w1)\<rparr>" "r' = r"
      using assms n F Some m by (auto simp: node_call_def)
    show ?thesis using rpc_map_effect [OF m] F Some by (simp add: w' node_at_def reached_def)
  qed
qed

lemma rpc_map_id [simp]: "rpc_map id x = x"
  by (simp add: rpc_map_def prod_eq_iff split: sum.split)

lemma prepare_effect: "call_PrepareMove api addr spec sl mv w = (w', r) \<Longrightarrow>
    reached w addr (api_PrepareMove api (slot_set spec sl mv)) transferFrom w' r"
  by (rule node_call_effect) (simp add: call_PrepareMove_def gw_PrepareMove_def)

lemma absorb_effect: "call_Absorb api addr t w = (w', r) \<Longrightarrow> reached w addr (api_Absorb api (absorb_request t)) id w' r"
  by (rule node_call_effect) (simp add: call_Absorb_def gw_Absorb_def)

lemma discard_effect: "call_DiscardMove api addr spec sl mv w = (w', r) \<Longrightarrow>
    reached w addr (api_DiscardMove api (slot_set spec sl mv)) id w' r"
  by (rule node_call_effect) (simp add: call_DiscardMove_def gw_DiscardMove_def)

lemma abort_effect: "call_AbortMove api addr spec sl mv w = (w', r) \<Longrightarrow>
    reached w addr (api_AbortMove api (slot_set spec sl mv)) id w' r"
  by (rule node_call_effect) (simp add: call_AbortMove_def gw_AbortMove_def)

lemma held_effect: "call_Held api addr w = (w', r) \<Longrightarrow> \<exists>f. reached w addr (api_Held api) f w' r"
  by (rule exI, rule node_call_effect) (simp add: call_Held_def gw_Held_def)

text \<open>A statement leaves the nodes alone; it is carried out or not, and it was when it is answered.\<close>

lemma db_effect:
  assumes "db stmt w = (w', r)"
  shows "g_nodes w' = g_nodes w" "g_members w' = g_members w" "node_at w' = node_at w"
    "g_db w' = g_db w \<or> g_db w' = fst (stmt (g_db w))" "\<And>x. r = Inr x \<Longrightarrow> stmt (g_db w) = (g_db w', Inr x)"
proof -
  obtain f w1 where n: "next_fault w = (f, w1)" by fastforce
  note F = next_fault_frame [OF n]
  have "g_nodes w' = g_nodes w \<and> g_members w' = g_members w \<and> (g_db w' = g_db w \<or> g_db w' = fst (stmt (g_db w))) \<and>
    (\<forall>x. r = Inr x \<longrightarrow> stmt (g_db w) = (g_db w', Inr x))"
    using assms n F by (auto simp: db_def Let_def split: net.splits prod.splits)
  then show "g_nodes w' = g_nodes w" "g_members w' = g_members w" "node_at w' = node_at w"
    "g_db w' = g_db w \<or> g_db w' = fst (stmt (g_db w))" "\<And>x. r = Inr x \<Longrightarrow> stmt (g_db w) = (g_db w', Inr x)"
    by (auto simp: node_at_def fun_eq_iff)
qed

subsection \<open>The lock and the owner on record\<close>

lemma lock_queue_effect:
  assumes "lock_queue cfg w = (w', r)"
  shows "node_at w' = node_at w" "g_members w' = g_members w"
    "row_at (g_db w') (qc_Org cfg) (qc_Name cfg) = None \<longleftrightarrow> row_at (g_db w) (qc_Org cfg) (qc_Name cfg) = None"
    "map_option row_owner_node (row_at (g_db w') o' m') = map_option row_owner_node (row_at (g_db w) o' m')"
    "r = Inr () \<Longrightarrow> row_at (g_db w) (qc_Org cfg) (qc_Name cfg) \<noteq> None"
proof -
  note D = db_effect [OF assms [unfolded lock_queue_def]]
  show "node_at w' = node_at w" "g_members w' = g_members w" by (rule D)+
  have f: "fst (checked (SetState h org nm StateMigrating now t)) = fst (takeMigrationLock h org nm now t)" for h org nm now t
    by (simp add: checked_def SetState_def)
  have o: "map_option row_owner_node (row_at (fst (takeMigrationLock h org nm now t)) o' m') = map_option row_owner_node (row_at t o' m')" for h org nm now t
    by (auto simp: lock_row option.map_comp intro!: option.map_cong0)
  show "map_option row_owner_node (row_at (g_db w') o' m') = map_option row_owner_node (row_at (g_db w) o' m')"
    using D(4) o by (auto simp: f)
  show "row_at (g_db w') (qc_Org cfg) (qc_Name cfg) = None \<longleftrightarrow> row_at (g_db w) (qc_Org cfg) (qc_Name cfg) = None"
    using D(4) by (auto simp: f lock_row)
  assume "r = Inr ()"
  from D(5) [OF this] have "snd (takeMigrationLock (g_holder w) (qc_Org cfg) (qc_Name cfg) (g_now w) (g_db w)) = None"
    by (auto simp: checked_def SetState_def split: option.splits)
  then have "filter (\<lambda>r. row_is (qc_Org cfg) (qc_Name cfg) r \<and> lockable (g_now w) r) (queues_tab (g_db w)) \<noteq> []"
    by (auto simp: takeMigrationLock_def Let_def update_rows_def split: if_splits)
  then show "row_at (g_db w) (qc_Org cfg) (qc_Name cfg) \<noteq> None" by (auto simp: row_at_None filter_empty_conv)
qed

lemma unlock_queue_effect:
  "node_at (unlock_queue cfg w) = node_at w"
  "map_option row_owner_node (row_at (g_db (unlock_queue cfg w)) o' m') = map_option row_owner_node (row_at (g_db w) o' m')"
  "slots_tab (g_db (unlock_queue cfg w)) = slots_tab (g_db w)"
proof -
  obtain w' r where d: "db (\<lambda>t. checked (SetState (g_holder w) (qc_Org cfg) (qc_Name cfg) StateActive (g_now w) t)) w = (w', r)" by fastforce
  note D = db_effect [OF d]
  have u: "unlock_queue cfg w = evictCache (queueCacheKey (qc_Org cfg) (qc_Name cfg)) w'" by (simp add: unlock_queue_def d)
  show "node_at (unlock_queue cfg w) = node_at w" using D(3) by (simp add: u evictCache_def node_at_def fun_eq_iff)
  show "map_option row_owner_node (row_at (g_db (unlock_queue cfg w)) o' m') = map_option row_owner_node (row_at (g_db w) o' m')"
    using D(4) by (auto simp: u evictCache_def checked_def row_at_SetState option.map_comp intro!: option.map_cong0)
  show "slots_tab (g_db (unlock_queue cfg w)) = slots_tab (g_db w)"
    using D(4) by (auto simp: u evictCache_def checked_def SetState_def update_rows_def)
qed

lemma everySlot_in_range: "distinct (everySlot (slotCountFor d))" "\<forall>i \<in> set (everySlot (slotCountFor d)). unat i < slotCountFor d"
proof -
  have b: "j < 65536" if "j < slotCountFor d" for j using that slotCountFor_bounds(2) [of d] by simp
  then have u: "unat (of_nat j :: u16) = j" if "j < slotCountFor d" for j using that by (simp add: unat_of_nat)
  show "distinct (everySlot (slotCountFor d))"
    by (auto simp: everySlot_def distinct_map inj_on_def) (metis u)
  show "\<forall>i \<in> set (everySlot (slotCountFor d)). unat i < slotCountFor d" using u by (auto simp: everySlot_def)
qed

lemma lock_queue_slots:
  assumes "lock_queue cfg w = (w', r)"
  shows "slots_tab (g_db w') = slots_tab (g_db w)"
  using db_effect(4) [OF assms [unfolded lock_queue_def]]
  by (auto simp: checked_def SetState_def takeMigrationLock_def Let_def case_prod_beta update_rows_def)

text \<open>Recording a slot move: each row is the new owner's or as it was; all are where no write failed.\<close>

lemma record_slots_effect:
  "record_slots cfg dst gen sl ok w = (w', ok') \<Longrightarrow> node_at w' = node_at w \<and> g_members w' = g_members w \<and>
    (\<forall>j. slot_row (g_db w') (qc_Org cfg) (qc_Name cfg) j = slot_row (g_db w) (qc_Org cfg) (qc_Name cfg) j \<or>
       j \<in> set sl \<and> slot_row (g_db w') (qc_Org cfg) (qc_Name cfg) j = Some dst) \<and>
    (ok' \<longrightarrow> ok \<and> (\<forall>j \<in> set sl. slot_row (g_db w') (qc_Org cfg) (qc_Name cfg) j = Some dst))"
proof (induction sl arbitrary: ok w)
  case (Cons s sl)
  let ?o = "\<lambda>w. slot_row (g_db w) (qc_Org cfg) (qc_Name cfg)"
  obtain w1 r where d: "db (quietly (SetOwner_slot (qc_Org cfg) (qc_Name cfg) s dst gen)) w = (w1, r)" by fastforce
  note D = db_effect [OF d]
  have one: "?o w1 j = ?o w j \<or> j = s \<and> ?o w1 j = Some dst" for j
    using D(4) by (auto simp: quietly_def slot_row_SetOwner split: if_splits)
  have r: "record_slots cfg dst gen sl (ok \<and> r = Inr ()) w1 = (w', ok')" using Cons.prems d by (cases r) simp_all
  have I: "node_at w' = node_at w1" "g_members w' = g_members w1" "\<And>j. ?o w' j = ?o w1 j \<or> j \<in> set sl \<and> ?o w' j = Some dst"
    "ok' \<Longrightarrow> ok \<and> r = Inr ()" "\<And>j. ok' \<Longrightarrow> j \<in> set sl \<Longrightarrow> ?o w' j = Some dst"
    using Cons.IH [OF r] by blast+
  have "?o w' j = ?o w j \<or> j \<in> set (s # sl) \<and> ?o w' j = Some dst" for j
    using I(3) [of j] one [of j] by auto
  moreover have "?o w' s = Some dst" if ok'
  proof -
    have "g_db w1 = SetOwner_slot (qc_Org cfg) (qc_Name cfg) s dst gen (g_db w)" using D(5) [of "()"] I(4) [OF that] by (simp add: quietly_def)
    then have "?o w1 s = Some dst" by (simp add: slot_row_SetOwner)
    with I(3) [of s] show ?thesis by auto
  qed
  ultimately show ?case using I(1,2,4,5) D(2,3) by simp
qed simp

subsection \<open>What a move needs of the nodes\<close>

definition carries :: "transferRequest \<Rightarrow> (u16 \<Rightarrow> message multiset) \<Rightarrow> u16 list \<Rightarrow> bool" where
  "carries t h sl \<longleftrightarrow> distinct (map fst (tr_BySlot t)) \<and> fst ` set (tr_BySlot t) \<subseteq> set sl \<and>
     (\<forall>i \<in> set sl. mset (case map_of (transfer_msgs (tr_BySlot t)) i of None \<Rightarrow> [] | Some ms \<Rightarrow> ms) = h i)"

text \<open>
  \<open>held_at\<close> is what a node holds of a queue, slot by slot; \<open>source\<close> says that it can give the queue
  of the given shape away, \<open>takes\<close> that it can absorb these messages under the name of the move.
\<close>

locale move_api =
  fixes api :: "'n nodeAPI"
    and held_at :: "'n \<Rightarrow> queueKey \<Rightarrow> u16 \<Rightarrow> message multiset"
    and source :: "'n \<Rightarrow> queueKey \<Rightarrow> bool \<Rightarrow> bool"
    and takes :: "'n \<Rightarrow> queueKey \<Rightarrow> bool \<Rightarrow> string \<Rightarrow> (u16 \<Rightarrow> message multiset) \<Rightarrow> u16 list \<Rightarrow> bool"
  assumes prepare: "source n k d \<Longrightarrow> distinct sl \<Longrightarrow> \<forall>i \<in> set sl. unat i < slotCountFor d \<Longrightarrow> spec_Key spec = k \<Longrightarrow>
      api_PrepareMove api (slot_set spec sl mv) n = (n', r) \<Longrightarrow>
      source n' k d \<and> held_at n' k = held_at n k \<and> (\<exists>t. r = Inr t \<and> carries (transferFrom t) (held_at n k) sl)"
    and absorb: "takes n k (sp_Distributed (tr_Spec t)) (tr_MoveID t) h sl \<Longrightarrow> carries t h sl \<Longrightarrow> spec_Key (tr_Spec t) = k \<Longrightarrow>
      api_Absorb api (absorb_request t) n = (n', Inr ()) \<Longrightarrow> i \<in> set sl \<Longrightarrow> h i \<subseteq># held_at n' k i"
    and abort: "source n k d \<Longrightarrow> spec_Key spec = k \<Longrightarrow> held_at (fst (api_AbortMove api (slot_set spec sl mv) n)) k = held_at n k"
begin

lemma carries_spec: "carries (t\<lparr>tr_Spec := s, tr_MoveID := mv\<rparr>) h sl = carries t h sl"
  by (simp add: carries_def)

lemma abort_keeps:
  assumes "node_at w addr = Some a" and "source a k d" and "spec_Key spec = k"
  shows "\<exists>a'. node_at (abort_move api addr spec sl mv w) addr = Some a' \<and> held_at a' k = held_at a k"
    "x \<noteq> addr \<Longrightarrow> node_at (abort_move api addr spec sl mv w) x = node_at w x"
    "g_db (abort_move api addr spec sl mv w) = g_db w"
proof -
  obtain w' r where c: "call_AbortMove api addr spec sl mv w = (w', r)" by fastforce
  note A = reachedD [OF abort_effect [OF c]]
  have w': "abort_move api addr spec sl mv w = w'" by (simp add: abort_move_def c)
  show "\<exists>a'. node_at (abort_move api addr spec sl mv w) addr = Some a' \<and> held_at a' k = held_at a k"
    using A(4) [OF assms(1)] abort [OF assms(2,3)] by (auto simp: w')
  show "x \<noteq> addr \<Longrightarrow> node_at (abort_move api addr spec sl mv w) x = node_at w x" using A(3) by (simp add: w')
  show "g_db (abort_move api addr spec sl mv w) = g_db w" using A(1) by (simp add: w')
qed

text \<open>The copy the source hands over, wherever the call broke off.\<close>

lemma prepare_keeps:
  assumes "node_at w addr = Some a" and "source a k d" and "spec_Key spec = k" and "distinct sl" and "\<forall>i \<in> set sl. unat i < slotCountFor d"
    and "call_PrepareMove api addr spec sl mv w = (w', r)"
  shows "\<exists>a'. node_at w' addr = Some a' \<and> source a' k d \<and> held_at a' k = held_at a k \<and> (\<forall>t. r = Inr t \<longrightarrow> carries t (held_at a k) sl)"
    "x \<noteq> addr \<Longrightarrow> node_at w' x = node_at w x" "g_db w' = g_db w" "g_members w' = g_members w"
proof -
  note P = reachedD [OF prepare_effect [OF assms(6)]]
  obtain a' where a': "node_at w' addr = Some a'" "a' = a \<or> a' = fst (api_PrepareMove api (slot_set spec sl mv) a)"
    "\<forall>x. r = Inr x \<longrightarrow> (\<exists>y. api_PrepareMove api (slot_set spec sl mv) a = (a', Inr y) \<and> x = transferFrom y)"
    using P(4) [OF assms(1)] by blast
  obtain n1 r1 where c: "api_PrepareMove api (slot_set spec sl mv) a = (n1, r1)" by fastforce
  note Q = prepare [OF assms(2,4,5,3) c]
  show "\<exists>a'. node_at w' addr = Some a' \<and> source a' k d \<and> held_at a' k = held_at a k \<and> (\<forall>t. r = Inr t \<longrightarrow> carries t (held_at a k) sl)"
    using a' Q c assms(2) by auto
  show "x \<noteq> addr \<Longrightarrow> node_at w' x = node_at w x" "g_db w' = g_db w" "g_members w' = g_members w" by (rule P; assumption)+
qed

text \<open>A target that answered has the messages; another node, and the tables, are as they were.\<close>

lemma absorb_keeps:
  assumes "node_at w addr = Some b" and "takes b k (sp_Distributed (tr_Spec t)) (tr_MoveID t) h sl" and "carries t h sl" and "spec_Key (tr_Spec t) = k"
    and "call_Absorb api addr t w = (w', r)"
  shows "\<exists>b'. node_at w' addr = Some b' \<and> (r = Inr () \<longrightarrow> (\<forall>i \<in> set sl. h i \<subseteq># held_at b' k i))"
    "x \<noteq> addr \<Longrightarrow> node_at w' x = node_at w x" "g_db w' = g_db w" "g_members w' = g_members w"
proof -
  note A = reachedD [OF absorb_effect [OF assms(5)]]
  show "\<exists>b'. node_at w' addr = Some b' \<and> (r = Inr () \<longrightarrow> (\<forall>i \<in> set sl. h i \<subseteq># held_at b' k i))"
    using A(4) [OF assms(1)] absorb [OF assms(2-4)] by fastforce
  show "x \<noteq> addr \<Longrightarrow> node_at w' x = node_at w x" "g_db w' = g_db w" "g_members w' = g_members w" by (rule A; assumption)+
qed

lemma migrate_locked_keeps:
  assumes a: "node_at w (mem_addr src) = Some a0" and b: "node_at w (mem_addr dst) = Some b0" and ne: "mem_addr src \<noteq> mem_addr dst"
    and k: "k = \<lparr>Org = qc_Org cfg, Name = qc_Name cfg\<rparr>" and s: "source a0 k (qc_Distributed cfg)"
    and t: "takes b0 k (qc_Distributed cfg) mv (held_at a0 k) (everySlot (slotCountFor (qc_Distributed cfg)))"
    and row: "row_at (g_db w) (qc_Org cfg) (qc_Name cfg) \<noteq> None"
    and m: "migrate_locked api mv cfg src dst w = (w', r)"
  shows "\<exists>a1 b1. node_at w' (mem_addr src) = Some a1 \<and> node_at w' (mem_addr dst) = Some b1 \<and>
    (held_at a1 k = held_at a0 k \<and> r \<noteq> Inr () \<and> g_db w' = g_db w \<or>
     (\<forall>i \<in> set (everySlot (slotCountFor (qc_Distributed cfg))). held_at a0 k i \<subseteq># held_at b1 k i) \<and>
       map_option row_owner_node (row_at (g_db w') (qc_Org cfg) (qc_Name cfg)) = Some (Some (mem_id dst)))"
proof -
  let ?sl = "everySlot (slotCountFor (qc_Distributed cfg))" and ?spec = "Spec cfg"
  have sk: "spec_Key ?spec = k" by (simp add: k)
  have sl: "distinct ?sl" "\<forall>i \<in> set ?sl. unat i < slotCountFor (qc_Distributed cfg)" by (rule everySlot_in_range)+
  obtain w1 r1 where p: "call_PrepareMove api (mem_addr src) ?spec ?sl mv w = (w1, r1)" by fastforce
  note P = prepare_keeps [OF a s sk sl p]
  obtain a1 where a1: "node_at w1 (mem_addr src) = Some a1" "source a1 k (qc_Distributed cfg)" "held_at a1 k = held_at a0 k"
    "\<And>t. r1 = Inr t \<Longrightarrow> carries t (held_at a0 k) ?sl" using P(1) by blast
  have b1: "node_at w1 (mem_addr dst) = Some b0" using P(2) b ne by metis
  show ?thesis
  proof (cases r1)
    case (Inl e)
    then have "w' = w1" "r = Inl e" using m p by (simp_all add: migrate_locked_def)
    with a1 b1 P(3) show ?thesis by simp
  next
    case (Inr t0)
    let ?t = "t0\<lparr>tr_Spec := with_gen ?spec (qc_Generation cfg + 1), tr_MoveID := mv\<rparr>"
    have c: "carries ?t (held_at a0 k) ?sl" using a1(4) [OF Inr] by (simp add: carries_spec)
    have tt: "takes b0 k (sp_Distributed (tr_Spec ?t)) (tr_MoveID ?t) (held_at a0 k) ?sl" "spec_Key (tr_Spec ?t) = k"
      using t sk by (simp_all add: with_gen_def spec_Key_def)
    obtain w2 r2 where ab: "call_Absorb api (mem_addr dst) ?t w1 = (w2, r2)" by fastforce
    note A = absorb_keeps [OF b1 tt(1) c tt(2) ab]
    obtain b2 where b2: "node_at w2 (mem_addr dst) = Some b2" "r2 = Inr () \<Longrightarrow> \<forall>i \<in> set ?sl. held_at a0 k i \<subseteq># held_at b2 k i"
      using A(1) by blast
    have a2: "node_at w2 (mem_addr src) = Some a1" using A(2) a1(1) ne by metis
    show ?thesis
    proof (cases r2)
      case (Inl e)
      then have w': "w' = abort_move api (mem_addr src) ?spec ?sl mv w2" "r = Inl e"
        using m p Inr ab by (simp_all add: migrate_locked_def Let_def)
      note B = abort_keeps [OF a2 a1(2) sk, where sl = ?sl and mv = mv, folded w'(1)]
      have "g_db w' = g_db w" "node_at w' (mem_addr dst) = Some b2" using B(3) A(3) P(3) B(2) [of "mem_addr dst"] ne b2(1) by auto
      with B(1) a1(3) w'(2) show ?thesis by auto
    next
      case (Inr u)
      have gain: "\<forall>i \<in> set ?sl. held_at a0 k i \<subseteq># held_at b2 k i" using b2(2) Inr by simp
      obtain w3 r3 where o: "db (quietly (SetOwner_queue (qc_Org cfg) (qc_Name cfg) (mem_id dst) (qc_Generation cfg + 1) (g_now w2))) w2 = (w3, r3)"
        by fastforce
      note D = db_effect [OF o]
      have row2: "g_db w2 = g_db w" using A(3) P(3) by simp
      have set: "map_option row_owner_node (row_at (fst (quietly (SetOwner_queue (qc_Org cfg) (qc_Name cfg) (mem_id dst)
          (qc_Generation cfg + 1) (g_now w2)) (g_db w2))) (qc_Org cfg) (qc_Name cfg)) = Some (Some (mem_id dst))"
        using row row2 by (auto simp: quietly_def row_at_SetOwner)
      show ?thesis
      proof (cases r3)
        case (Inl e)
        then have w': "w' = abort_move api (mem_addr src) ?spec ?sl mv w3" "r = Inl e"
          using m p \<open>r1 = Inr t0\<close> ab Inr o by (simp_all add: migrate_locked_def Let_def)
        have a3: "node_at w3 (mem_addr src) = Some a1" using D(3) a2 by simp
        note B = abort_keeps [OF a3 a1(2) sk, where sl = ?sl and mv = mv, folded w'(1)]
        have b3: "node_at w' (mem_addr dst) = Some b2" using B(2) [of "mem_addr dst"] ne b2(1) D(3) by auto
        show ?thesis
        proof (cases "g_db w3 = g_db w2")
          case True
          then have "g_db w' = g_db w" using B(3) row2 by simp
          with B(1) b3 a1(3) w'(2) show ?thesis by auto
        next
          case False
          then have "map_option row_owner_node (row_at (g_db w') (qc_Org cfg) (qc_Name cfg)) = Some (Some (mem_id dst))"
            using D(4) set B(3) by simp
          with B(1) b3 gain show ?thesis by auto
        qed
      next
        case (Inr v)
        have db3: "g_db w3 = fst (quietly (SetOwner_queue (qc_Org cfg) (qc_Name cfg) (mem_id dst) (qc_Generation cfg + 1) (g_now w2)) (g_db w2))"
          using D(5) [OF Inr] by simp
        obtain w4 r4 where x: "call_DiscardMove api (mem_addr src) (with_gen ?spec (qc_Generation cfg + 1)) ?sl mv w3 = (w4, r4)" by fastforce
        then have w': "w' = w4" "r = Inr ()"
          using m p \<open>r1 = Inr t0\<close> ab \<open>r2 = Inr u\<close> o Inr by (simp_all add: migrate_locked_def Let_def)
        note X = reachedD [OF discard_effect [OF x]]
        have a3: "node_at w3 (mem_addr src) = Some a1" using D(3) a2 by simp
        obtain a4 where a4: "node_at w4 (mem_addr src) = Some a4" using X(4) [OF a3] by blast
        have "node_at w4 (mem_addr dst) = Some b2" using X(3) [of "mem_addr dst"] ne b2(1) D(3) by auto
        moreover have "map_option row_owner_node (row_at (g_db w4) (qc_Org cfg) (qc_Name cfg)) = Some (Some (mem_id dst))"
          using X(1) db3 set by simp
        ultimately show ?thesis using a4 gain by (simp add: w')
      qed
    qed
  qed
qed

text \<open>The messages of the slots are where they were, or on the target as well.\<close>

lemma migrate_keeps:
  assumes a: "node_at w (mem_addr src) = Some a0" and b: "node_at w (mem_addr dst) = Some b0" and ne: "mem_addr src \<noteq> mem_addr dst"
    and k: "k = \<lparr>Org = qc_Org cfg, Name = qc_Name cfg\<rparr>" and s: "source a0 k (qc_Distributed cfg)"
    and t: "takes b0 k (qc_Distributed cfg) mv (held_at a0 k) (everySlot (slotCountFor (qc_Distributed cfg)))"
    and m: "migrate api mv cfg src dst w = (w', r)"
  shows "\<exists>a1 b1. node_at w' (mem_addr src) = Some a1 \<and> node_at w' (mem_addr dst) = Some b1 \<and>
    (held_at a1 k = held_at a0 k \<and> r \<noteq> Inr () \<and>
       map_option row_owner_node (row_at (g_db w') (qc_Org cfg) (qc_Name cfg)) = map_option row_owner_node (row_at (g_db w) (qc_Org cfg) (qc_Name cfg)) \<or>
     (\<forall>i \<in> set (everySlot (slotCountFor (qc_Distributed cfg))). held_at a0 k i \<subseteq># held_at b1 k i) \<and>
       map_option row_owner_node (row_at (g_db w') (qc_Org cfg) (qc_Name cfg)) = Some (Some (mem_id dst)))"
proof -
  obtain w1 r1 where l: "lock_queue cfg w = (w1, r1)" by fastforce
  note L = lock_queue_effect [OF l]
  show ?thesis
  proof (cases r1)
    case (Inl e)
    then have "w' = w1" "r = Inl e" using m l by (simp_all add: migrate_def)
    with L(1,4) a b show ?thesis by simp
  next
    case (Inr u)
    obtain w2 r2 where x: "migrate_locked api mv cfg src dst w1 = (w2, r2)" by fastforce
    then have w': "w' = unlock_queue cfg w2" "r = r2" using m l Inr by (simp_all add: migrate_def)
    have "row_at (g_db w1) (qc_Org cfg) (qc_Name cfg) \<noteq> None" using L(3,5) Inr by simp
    moreover have "node_at w1 (mem_addr src) = Some a0" "node_at w1 (mem_addr dst) = Some b0" using L(1) a b by simp_all
    ultimately obtain a1 b1 where "node_at w2 (mem_addr src) = Some a1" "node_at w2 (mem_addr dst) = Some b1"
      "held_at a1 k = held_at a0 k \<and> r2 \<noteq> Inr () \<and> g_db w2 = g_db w1 \<or>
       (\<forall>i \<in> set (everySlot (slotCountFor (qc_Distributed cfg))). held_at a0 k i \<subseteq># held_at b1 k i) \<and>
         map_option row_owner_node (row_at (g_db w2) (qc_Org cfg) (qc_Name cfg)) = Some (Some (mem_id dst))"
      using migrate_locked_keeps [OF _ _ ne k s t _ x] by blast
    then show ?thesis using L(4) unlock_queue_effect(1,2) [of cfg w2] by (intro exI [of _ a1] exI [of _ b1]) (auto simp: w')
  qed
qed

text \<open>
  The slots of a distributed queue: wherever the move of a route broke off, every slot is with the
  machine placement names, even where only some of the rows were written.
\<close>

lemma move_route_keeps:
  assumes a: "Lookup w s = Some src" and b: "Lookup w t = Some dst" and ne: "mem_addr src \<noteq> mem_addr dst"
    and a0: "node_at w (mem_addr src) = Some a0" and b0: "node_at w (mem_addr dst) = Some b0"
    and k: "k = \<lparr>Org = qc_Org cfg, Name = qc_Name cfg\<rparr>" and src: "source a0 k (qc_Distributed cfg)"
    and sl: "distinct sl" "\<forall>i \<in> set sl. unat i < slotCountFor (qc_Distributed cfg)"
    and dst: "takes b0 k (qc_Distributed cfg) (newID (s, t)) (held_at a0 k) sl"
    and m: "move_route api newID cfg ((s, t), sl) w = (w', ok)"
  shows "\<exists>a1 b1. node_at w' (mem_addr src) = Some a1 \<and> node_at w' (mem_addr dst) = Some b1 \<and>
    (\<forall>i \<in> set sl. slot_row (g_db w') (qc_Org cfg) (qc_Name cfg) i = slot_row (g_db w) (qc_Org cfg) (qc_Name cfg) i \<and> held_at a1 k i = held_at a0 k i \<or>
       slot_row (g_db w') (qc_Org cfg) (qc_Name cfg) i = Some t \<and> held_at a0 k i \<subseteq># held_at b1 k i) \<and>
    (ok \<longrightarrow> (\<forall>i \<in> set sl. slot_row (g_db w') (qc_Org cfg) (qc_Name cfg) i = Some t))"
proof -
  let ?spec = "Spec cfg" and ?mv = "newID (s, t)" and ?o = "\<lambda>w. slot_row (g_db w) (qc_Org cfg) (qc_Name cfg)"
  have sk: "spec_Key ?spec = k" by (simp add: k)
  obtain w1 r1 where p: "call_PrepareMove api (mem_addr src) ?spec sl ?mv w = (w1, r1)" by fastforce
  note P = prepare_keeps [OF a0 src sk sl p]
  obtain a1 where a1: "node_at w1 (mem_addr src) = Some a1" "source a1 k (qc_Distributed cfg)" "held_at a1 k = held_at a0 k"
    "\<And>t. r1 = Inr t \<Longrightarrow> carries t (held_at a0 k) sl" using P(1) by blast
  have b1: "node_at w1 (mem_addr dst) = Some b0" using P(2) b0 ne by metis
  show ?thesis
  proof (cases r1)
    case (Inl e)
    then have "w' = w1" "\<not> ok" using m a b p by (simp_all add: move_route_def Let_def)
    with a1 b1 P(3) show ?thesis by simp
  next
    case (Inr t0)
    let ?t = "t0\<lparr>tr_Spec := with_gen ?spec (qc_Generation cfg + 1), tr_MoveID := ?mv\<rparr>"
    have c: "carries ?t (held_at a0 k) sl" using a1(4) [OF Inr] by (simp add: carries_spec)
    have tt: "takes b0 k (sp_Distributed (tr_Spec ?t)) (tr_MoveID ?t) (held_at a0 k) sl" "spec_Key (tr_Spec ?t) = k"
      using dst sk by (simp_all add: with_gen_def spec_Key_def)
    obtain w2 r2 where ab: "call_Absorb api (mem_addr dst) ?t w1 = (w2, r2)" by fastforce
    note A = absorb_keeps [OF b1 tt(1) c tt(2) ab]
    obtain b2 where b2: "node_at w2 (mem_addr dst) = Some b2" "r2 = Inr () \<Longrightarrow> \<forall>i \<in> set sl. held_at a0 k i \<subseteq># held_at b2 k i"
      using A(1) by blast
    have a2: "node_at w2 (mem_addr src) = Some a1" using A(2) a1(1) ne by metis
    show ?thesis
    proof (cases r2)
      case (Inl e)
      then have w': "w' = abort_move api (mem_addr src) ?spec sl ?mv w2" "\<not> ok"
        using m a b p Inr ab by (simp_all add: move_route_def Let_def)
      note B = abort_keeps [OF a2 a1(2) sk, where sl = sl and mv = ?mv, folded w'(1)]
      have "g_db w' = g_db w" "node_at w' (mem_addr dst) = Some b2" using B(3) A(3) P(3) B(2) [of "mem_addr dst"] ne b2(1) by auto
      with B(1) a1(3) w'(2) show ?thesis by auto
    next
      case (Inr u)
      have gain: "\<forall>i \<in> set sl. held_at a0 k i \<subseteq># held_at b2 k i" using b2(2) Inr by simp
      obtain w3 rec where o: "record_slots cfg t (qc_Generation cfg + 1) sl True w2 = (w3, rec)" by fastforce
      have R: "node_at w3 = node_at w2" "\<And>j. ?o w3 j = ?o w2 j \<or> j \<in> set sl \<and> ?o w3 j = Some t" "rec \<Longrightarrow> \<forall>j \<in> set sl. ?o w3 j = Some t"
        using record_slots_effect [OF o] by blast+
      have db2: "g_db w2 = g_db w" using A(3) P(3) by simp
      show ?thesis
      proof (cases rec)
        case False
        then have "w' = w3" "\<not> ok" using m a b p \<open>r1 = Inr t0\<close> ab Inr o by (simp_all add: move_route_def Let_def)
        with R(1,2) a2 b2(1) gain a1(3) db2 show ?thesis by auto
      next
        case True
        obtain w4 r4 where x: "call_DiscardMove api (mem_addr src) (with_gen ?spec (qc_Generation cfg + 1)) sl ?mv w3 = (w4, r4)" by fastforce
        then have w': "w' = w4" using m a b p \<open>r1 = Inr t0\<close> ab Inr o True by (simp add: move_route_def Let_def)
        note X = reachedD [OF discard_effect [OF x]]
        have a3: "node_at w3 (mem_addr src) = Some a1" using R(1) a2 by simp
        obtain a4 where "node_at w4 (mem_addr src) = Some a4" using X(4) [OF a3] by blast
        moreover have "node_at w4 (mem_addr dst) = Some b2" using X(3) [of "mem_addr dst"] ne b2(1) R(1) by auto
        ultimately show ?thesis using X(1) R(3) True gain by (simp add: w')
      qed
    qed
  qed
qed

end

end
