(* ===== verification/GwHost.thy ===== *)
theory GwHost
  imports GwMoveSafe
begin

text \<open>
  The nodes of this development behind the gateway's calls: a host is a node with the environment its
  handlers meet, call by call (the clock, message IDs, what the disk answers, the order its maps are
  ranged over).  It is an instance of \<open>move_api\<close>, so a move between two of them loses nothing.
\<close>

record nodeEnv =
  e_open :: "err option"
  e_newid :: string
  e_now :: time
  e_clock :: "nat \<Rightarrow> time"
  e_wrote :: "nat option"
  e_flushed :: bool
  e_io :: "(nat option \<times> bool) list"
  e_visit :: "queue \<Rightarrow> u16 \<Rightarrow> string list \<times> string list"
  e_groups :: "u16 \<Rightarrow> message list \<Rightarrow> string list"

record host =
  h_node :: node
  h_env :: "nat \<Rightarrow> nodeEnv"
  h_tick :: nat

definition on_host :: "(nodeEnv \<Rightarrow> node \<Rightarrow> node \<times> 'r) \<Rightarrow> host \<Rightarrow> host \<times> 'r" where
  "on_host f h = (let (n, r) = f (h_env h (h_tick h)) (h_node h) in (h\<lparr>h_node := n, h_tick := h_tick h + 1\<rparr>, r))"

definition visit_order :: "nodeEnv \<Rightarrow> node \<Rightarrow> queueKey \<Rightarrow> u16 \<Rightarrow> string list \<times> string list" where
  "visit_order e n k = (case lookup n k of None \<Rightarrow> (\<lambda>_. ([], [])) | Some lq \<Rightarrow> e_visit e (lq_q lq))"

definition host_api :: "(json \<Rightarrow> bytes) \<Rightarrow> host nodeAPI" where
  "host_api render = \<lparr>
     api_Enqueue = (\<lambda>req. on_host (\<lambda>e. srv_Enqueue render req (e_open e) (e_newid e) (e_now e) (e_wrote e) (e_flushed e))),
     api_Dequeue = (\<lambda>spec mx. on_host (\<lambda>e. srv_Dequeue render spec mx (e_open e) (e_clock e))),
     api_Ack = (\<lambda>spec rc. on_host (\<lambda>e. srv_Ack render spec rc)),
     api_Nack = (\<lambda>spec rc d. on_host (\<lambda>e. srv_Nack render spec rc d (e_now e) (e_wrote e) (e_flushed e))),
     api_Stats = (\<lambda>spec. on_host (\<lambda>e. srv_Stats spec (e_now e))),
     api_StatsAll = on_host (\<lambda>e. srv_StatsAll (e_now e)),
     api_Drop = (\<lambda>spec. on_host (\<lambda>e. srv_Drop spec)),
     api_PrepareMove = (\<lambda>req. on_host (\<lambda>e n. srv_PrepareMove req (visit_order e n (spec_Key (specFrom (pb_ss_spec req)))) n)),
     api_DiscardMove = (\<lambda>req. on_host (\<lambda>e n. srv_DiscardMove req (visit_order e n (spec_Key (specFrom (pb_ss_spec req)))) n)),
     api_AbortMove = (\<lambda>req. on_host (\<lambda>e. srv_AbortMove req)),
     api_Absorb = (\<lambda>req. on_host (\<lambda>e. srv_Absorb render req (e_open e) (e_io e) (e_groups e) (e_now e))),
     api_Held = on_host (\<lambda>e. srv_Held),
     api_DeadLetters = on_host (\<lambda>e. srv_DeadLetters),
     api_AckDeadLetters = (\<lambda>ids. on_host (\<lambda>e. srv_AckDeadLetters render ids))\<rparr>"

text \<open>Ranging over a map meets every key once.\<close>

definition fair_env :: "nodeEnv \<Rightarrow> bool" where
  "fair_env e \<longleftrightarrow>
     (\<forall>q i. iterates (fst (e_visit e q i)) (inflight (slot_at q i)) \<and> iterates (snd (e_visit e q i)) (groups (slot_at q i))) \<and>
     (\<forall>i ms. distinct (e_groups e i ms) \<and> set (e_groups e i ms) = msg_group ` {m \<in> set ms. \<not> held_back m (e_now e)})"

definition host_held :: "host \<Rightarrow> queueKey \<Rightarrow> u16 \<Rightarrow> message multiset" where
  "host_held h = node_held (h_node h)"

definition host_source :: "host \<Rightarrow> queueKey \<Rightarrow> bool \<Rightarrow> bool" where
  "host_source h k d \<longleftrightarrow> shaped (h_node h) k d \<and> (\<forall>t. fair_env (h_env h t))"

text \<open>A target that has not seen the move, and on which these IDs mean no other messages.\<close>

definition host_takes :: "host \<Rightarrow> queueKey \<Rightarrow> bool \<Rightarrow> string \<Rightarrow> (u16 \<Rightarrow> message multiset) \<Rightarrow> u16 list \<Rightarrow> bool" where
  "host_takes h k d mv H sl \<longleftrightarrow> shaped (h_node h) k d \<and> (\<forall>t. fair_env (h_env h t)) \<and> move_key k mv \<notin> set (n_moves (h_node h)) \<and>
     (\<forall>i \<in> set sl. ids_ok (node_held (h_node h) k i + H i) \<and> (\<forall>m \<in># H i. prio_valid (Priority m)))"

lemma FromWire_hop [simp]: "FromWire (wireFrom (gw_wireTo x)) = FromWire x"
  by (simp add: FromWire_def wireFrom_def gw_wireTo_def split: option.split)

lemma absorb_hop: "transfer_msgs (absorb_slots (absorb_request t)) = transfer_msgs (tr_BySlot t)"
  by (simp add: transfer_msgs_def absorb_slots_def absorb_request_def comp_def split_def)

lemma prepare_hop: "tr_BySlot (transferFrom \<lparr>pb_t_spec = a, pb_by_slot = transferTo (to_wire_map bs), pb_move_id = b\<rparr>) = to_wire_map bs"
  by (simp add: transferFrom_def transferTo_def to_wire_map_def comp_def split_def)

lemma PrepareMove_wires: "PrepareMove n spec vs = (n', out) \<Longrightarrow> \<exists>bs. out = to_wire_map bs"
  by (auto simp: PrepareMove_def Let_def split: option.splits prod.splits intro: exI [of _ "[]"]) (metis list.map_disc_iff to_wire_map_def)

lemma fair_visit_order: "fair_env e \<Longrightarrow> fair_orders n k (visit_order e n k)"
  by (simp add: fair_env_def fair_orders_def visit_order_def)

lemma map_of_transfer: "map_of (transfer_msgs bs) i = map_option (map FromWire) (map_of bs i)"
  by (simp add: transfer_msgs_def map_of_map)

lemma host_prepare:
  assumes "host_source h k d" and "distinct sl" and "\<forall>i \<in> set sl. unat i < slotCountFor d" and "spec_Key spec = k"
    and "api_PrepareMove (host_api render) (slot_set spec sl mv) h = (h', r)"
  shows "host_source h' k d \<and> host_held h' k = host_held h k \<and> (\<exists>t. r = Inr t \<and> carries (transferFrom t) (host_held h k) sl)"
proof -
  let ?e = "h_env h (h_tick h)" and ?n = "h_node h"
  have f: "shaped ?n k d" "fair_orders ?n k (visit_order ?e ?n k)" using assms(1) fair_visit_order by (auto simp: host_source_def)
  obtain n' out where p: "PrepareMove ?n spec (visits_of (visit_order ?e ?n k) sl) = (n', out)" by fastforce
  have sl: "\<forall>i \<in> set sl. unat i < SlotCountFor d" using assms(3) by (simp add: slotCountFor_def SlotCountFor_def)
  note P = PrepareMove_law [OF f assms(2) sl assms(4) p]
  obtain bs where bs: "out = to_wire_map bs" using PrepareMove_wires [OF p] by blast
  have h': "h' = h\<lparr>h_node := n', h_tick := h_tick h + 1\<rparr>"
    "r = Inr \<lparr>pb_t_spec = pb_ss_spec (slot_set spec sl mv), pb_by_slot = transferTo out, pb_move_id = pb_ss_move_id (slot_set spec sl mv)\<rparr>"
    using assms(4,5) p by (auto simp: host_api_def on_host_def srv_PrepareMove_def Let_def)
  have c: "carries (transferFrom \<lparr>pb_t_spec = x, pb_by_slot = transferTo out, pb_move_id = y\<rparr>) (host_held h k) sl" for x y
    unfolding carries_def bs prepare_hop map_of_transfer
  proof (intro conjI ballI)
    fix i assume "i \<in> set sl"
    from P(3) [OF this] show "mset (case map_option (map FromWire) (map_of (to_wire_map bs) i) of None \<Rightarrow> [] | Some ms \<Rightarrow> ms) = host_held h k i"
      by (cases "map_of (to_wire_map bs) i") (simp_all add: bs host_held_def)
  qed (use P(4,5) bs in auto)
  show ?thesis using P(1,2) c assms(1) by (simp add: h' host_source_def host_held_def)
qed

lemma host_abort:
  assumes "host_source h k d" and "spec_Key spec = k"
  shows "host_held (fst (api_AbortMove (host_api render) (slot_set spec sl mv) h)) k = host_held h k"
  using AbortMove_law(2) [of "h_node h" k d spec sl] assms
  by (simp add: host_api_def on_host_def srv_AbortMove_def host_held_def host_source_def)

lemma host_absorb:
  assumes "host_takes h k (sp_Distributed (tr_Spec t)) (tr_MoveID t) H sl" and "carries t H sl" and "spec_Key (tr_Spec t) = k"
    and "api_Absorb (host_api render) (absorb_request t) h = (h', Inr ())" and "i \<in> set sl"
  shows "H i \<subseteq># host_held h' k i"
proof -
  let ?e = "h_env h (h_tick h)" and ?n = "h_node h"
  let ?req = "\<lparr>tr_MoveID = tr_MoveID t, tr_Spec = tr_Spec t, tr_BySlot = absorb_slots (absorb_request t)\<rparr>"
  let ?bs = "transfer_msgs (tr_BySlot t)"
  obtain n' err where a': "Absorb_node render ?n ?req (e_open ?e) (e_io ?e) (e_groups ?e) (e_now ?e) = (n', err)" by fastforce
  have "specFrom (pb_t_spec (absorb_request t)) = tr_Spec t" "pb_move_id (absorb_request t) = tr_MoveID t" by (simp_all add: absorb_request_def)
  then have "h_node h' = n' \<and> err = None"
    using assms(4) a' by (auto simp: host_api_def on_host_def srv_Absorb_def reply_def split: option.splits)
  then have h': "h_node h' = n'" and a: "Absorb_node render ?n ?req (e_open ?e) (e_io ?e) (e_groups ?e) (e_now ?e) = (n', None)"
    using a' by simp_all
  have T: "shaped ?n k (sp_Distributed (tr_Spec t))" "fair_env ?e" "move_key k (tr_MoveID t) \<notin> set (n_moves ?n)"
    "\<forall>i \<in> set sl. ids_ok (node_held ?n k i + H i) \<and> (\<forall>m \<in># H i. prio_valid (Priority m))"
    using assms(1) by (simp_all add: host_takes_def)
  have C: "distinct (map fst ?bs)" "fst ` set ?bs \<subseteq> set sl" "\<forall>i \<in> set sl. mset (case map_of ?bs i of None \<Rightarrow> [] | Some ms \<Rightarrow> ms) = H i"
    using assms(2) by (auto simp: carries_def transfer_msgs_def comp_def split_def)
  have "can_absorb ?n k (e_groups ?e) (e_now ?e) ?bs"
    unfolding can_absorb_def
  proof (intro conjI C ballI)
    fix x assume x: "x \<in> set ?bs"
    obtain j ms where e: "x = (j, ms)" by (cases x)
    have j: "j \<in> set sl" "map_of ?bs j = Some ms" using x C(1,2) e by (auto simp: map_of_in_set)
    then have m: "mset ms = H j" using C(3) by force
    then have s: "set ms = set_mset (H j)" by (metis set_mset_mset)
    have "absorbable (node_held ?n k j) (e_now ?e) ms (e_groups ?e j ms)"
      using T(2) T(4) [rule_format, OF j(1)] by (simp add: absorbable_def fair_env_def m s)
    then show "case x of (i, ms) \<Rightarrow> absorbable (node_held ?n k i) (e_now ?e) ms (e_groups ?e i ms)" by (simp add: e)
  qed
  then have can: "can_absorb ?n k (e_groups ?e) (e_now ?e) (transfer_msgs (tr_BySlot ?req))" by (simp add: absorb_hop)
  have "node_held n' k i = node_held ?n k i + mset (case map_of ?bs i of None \<Rightarrow> [] | Some ms \<Rightarrow> ms)"
    using Absorb_node_law(1) [where req = ?req and k = k, OF _ _ _ can a] T(1,3) assms(3) by (simp add: absorb_hop)
  then show ?thesis using C(3) assms(5) h' by (simp add: host_held_def)
qed

interpretation hosts: move_api "host_api render" host_held host_source host_takes
  by unfold_locales (rule host_prepare host_absorb host_abort; assumption)+

subsection \<open>A move loses nothing\<close>

text \<open>C20: Moving a queue to another machine loses no message, whatever happens to the calls of the move. Each
  call of \<open>migrate\<close>, to the database or to a node, may be answered, refused, or carried out with its answer
  lost. Afterwards either the old owner holds all it held and the owner on record is as it was, or the
  new owner holds all of it and is the owner on record; and if the move reports success it is the
  latter.\<close>

theorem migrate_loses_nothing:
  assumes "node_at w (mem_addr src) = Some a0" and "node_at w (mem_addr dst) = Some b0" and "mem_addr src \<noteq> mem_addr dst"
    and "k = \<lparr>Org = qc_Org cfg, Name = qc_Name cfg\<rparr>" and "host_source a0 k (qc_Distributed cfg)"
    and "host_takes b0 k (qc_Distributed cfg) mv (host_held a0 k) (everySlot (slotCountFor (qc_Distributed cfg)))"
    and "migrate (host_api render) mv cfg src dst w = (w', r)"
  shows "\<exists>a1 b1. node_at w' (mem_addr src) = Some a1 \<and> node_at w' (mem_addr dst) = Some b1 \<and>
    (host_held a1 k = host_held a0 k \<and> r \<noteq> Inr () \<and>
       map_option row_owner_node (row_at (g_db w') (qc_Org cfg) (qc_Name cfg)) = map_option row_owner_node (row_at (g_db w) (qc_Org cfg) (qc_Name cfg)) \<or>
     (\<forall>i \<in> set (everySlot (slotCountFor (qc_Distributed cfg))). host_held a0 k i \<subseteq># host_held b1 k i) \<and>
       map_option row_owner_node (row_at (g_db w') (qc_Org cfg) (qc_Name cfg)) = Some (Some (mem_id dst)))"
  by (rule hosts.migrate_keeps [OF assms])


text \<open>A world with two nodes, one holding the messages of \<open>two_slots\<close>; the answer of recording the new owner is lost.\<close>

definition plain_env :: nodeEnv where
  "plain_env = \<lparr>e_open = None, e_newid = ''a'', e_now = 6, e_clock = (\<lambda>_. 6), e_wrote = None, e_flushed = True, e_io = [],
     e_visit = (\<lambda>q i. (remdups (map fst (inflight (slot_at q i))), remdups (map fst (groups (slot_at q i))))),
     e_groups = (\<lambda>_ ms. remdups (map msg_group (filter (\<lambda>m. \<not> held_back m 6) ms)))\<rparr>"

lemma plain_fair: "fair_env plain_env"
  by (auto simp: fair_env_def plain_env_def iterates_def)

definition demo_key :: queueKey where
  "demo_key = \<lparr>Org = ''o'', Name = ''n''\<rparr>"

definition host_a :: "queue \<Rightarrow> host" where
  "host_a q = \<lparr>h_node = set_live demo_key \<lparr>lq_q = q, lq_dl = []\<rparr> (New_node ''n1'' 1 SyncNever []), h_env = (\<lambda>_. plain_env), h_tick = 0\<rparr>"

definition host_b :: host where
  "host_b = \<lparr>h_node = New_node ''n2'' 1 SyncNever [], h_env = (\<lambda>_. plain_env), h_tick = 0\<rparr>"

definition demo_wide :: queueConfig where
  "demo_wide = demo_config\<lparr>qc_Distributed := True, qc_OwnerNode := [], qc_SlotOwners := [(0, ''n1''), (3, ''n1'')]\<rparr>"

definition demo_members :: "member list" where
  "demo_members = [\<lparr>mem_id = ''n1'', mem_addr = ''a''\<rparr>, \<lparr>mem_id = ''n2'', mem_addr = ''b''\<rparr>]"

definition demo_world :: "queueConfig \<Rightarrow> queue \<Rightarrow> fault list \<Rightarrow> host world" where
  "demo_world c q fs = \<lparr>g_db = \<lparr>queues_tab = [new_row c 0], slots_tab = []\<rparr>, g_members = demo_members,
     g_nodes = [(''a'', host_a q), (''b'', host_b)], g_cache = [], g_conns = [], g_faults = fs, g_now = 7, g_holder = ''gw'',
     g_coll = (\<lambda>a b. a < b), g_rand = 0, g_admit = True, g_CacheTTL = 30 * second, g_CollectEvery = second\<rparr>"

definition unheard :: fault where
  "unheard = \<lparr>f_dial = None, f_net = Lost \<lparr>st_code = C_Unavailable, st_msg = ''gone''\<rparr>\<rparr>"

lemma demo_source: "queue_reach q \<Longrightarrow> Distributed (conf q) = d \<Longrightarrow> host_source (host_a q) demo_key d"
  using plain_fair by (simp add: host_source_def shaped_def host_a_def queue_reach_ok)

lemma demo_takes: "queue_reach q \<Longrightarrow> host_takes host_b demo_key d mv (host_held (host_a q) demo_key) sl"
proof -
  assume q: "queue_reach q"
  have l: "lookup (h_node host_b) demo_key = None" by (simp add: host_b_def New_node_def lookup_def)
  have h: "host_held (host_a q) demo_key i = held (slot_at q i)" for i by (simp add: host_held_def node_held_def host_a_def)
  have ok: "slot_ok (slot_at q i)" for i by (rule queue_okD(2) [OF queue_reach_ok [OF q]])
  have "ids_ok (host_held (host_a q) demo_key i)" "\<forall>m \<in># host_held (host_a q) demo_key i. prio_valid (Priority m)" for i
    using slot_ids [OF ok] held_prio [OF ok] by (auto simp: h)
  with l plain_fair show ?thesis by (simp add: host_takes_def shaped_def node_held_def host_b_def New_node_def)
qed

theorem migrate_loses_nothing_witness:
  "\<exists>w' r a1 b1. migrate (host_api (\<lambda>_. [])) ''m1'' demo_config (demo_members ! 0) (demo_members ! 1)
      (demo_world demo_config leak1 [no_fault, no_fault, no_fault, unheard]) = (w', r) \<and>
    node_at w' ''a'' = Some a1 \<and> node_at w' ''b'' = Some b1 \<and>
    (host_held a1 demo_key = host_held (host_a leak1) demo_key \<and> r \<noteq> Inr () \<and> map_option row_owner_node (row_at (g_db w') ''o'' ''n'') = Some (Some ''n1'') \<or>
     {i \<in> set (everySlot (slotCountFor False)). \<not> host_held (host_a leak1) demo_key i \<subseteq># host_held b1 demo_key i} = {} \<and>
       map_option row_owner_node (row_at (g_db w') ''o'' ''n'') = Some (Some ''n2''))"
proof -
  let ?w = "demo_world demo_config leak1 [no_fault, no_fault, no_fault, unheard]"
  obtain w' r where m: "migrate (host_api (\<lambda>_. [])) ''m1'' demo_config (demo_members ! 0) (demo_members ! 1) ?w = (w', r)" by fastforce
  have n: "node_at ?w (mem_addr (demo_members ! 0)) = Some (host_a leak1)" "node_at ?w (mem_addr (demo_members ! 1)) = Some host_b"
    "mem_addr (demo_members ! 0) \<noteq> mem_addr (demo_members ! 1)" by (simp_all add: demo_world_def demo_members_def node_at_def)
  have c: "demo_key = \<lparr>Org = qc_Org demo_config, Name = qc_Name demo_config\<rparr>" "\<not> qc_Distributed demo_config"
    "qc_Org demo_config = ''o''" "qc_Name demo_config = ''n''"
    by (simp_all add: demo_config_def demo_key_def)
  have r: "map_option row_owner_node (row_at (g_db ?w) ''o'' ''n'') = Some (Some ''n1'')"
    by (simp add: demo_world_def row_at_def row_is_def new_row_def demo_config_def nullable_def)
  have "Distributed (conf leak1) = qc_Distributed demo_config" using c(2) by simp code_simp
  note A = demo_source [OF leak1_reach this] demo_takes [OF leak1_reach, where d = "qc_Distributed demo_config" and mv = "''m1''"
      and sl = "everySlot (slotCountFor (qc_Distributed demo_config))"]
  from migrate_loses_nothing [OF n c(1) A m] m r show ?thesis by (auto simp: c demo_members_def)
qed


end
