(* ===== verification/GwReconcile.thy ===== *)
theory GwReconcile
  imports GwMoves
begin

text \<open>
  \<open>reconcile-logic.go\<close> of \<open>backend/gateway/logic\<close>: what every machine holds, compared with what
  placement says, and the repairs: a frozen slot its owner holds is thawed, a slot someone else owns is
  discarded.
\<close>

definition qkey :: "queueConfig \<Rightarrow> string" where
  "qkey c = gw_key (qc_Org c) (qc_Name c)"

text \<open>The reports of the machines that answered, in the order they are asked.\<close>

fun gather_held :: "'n nodeAPI \<Rightarrow> member list \<Rightarrow> 'n world \<Rightarrow> 'n world \<times> (member \<times> heldSlots list) list" where
  "gather_held api [] w = (w, [])"
| "gather_held api (m # ms) w =
     (case call_Held api (mem_addr m) w of
        (w, Inl e) \<Rightarrow> gather_held api ms w
      | (w, Inr h) \<Rightarrow> (let (w, rs) = gather_held api ms w in (w, (m, hr_Queues h) # rs)))"

text \<open>Who owns each slot of a queue; the rows of one pass make two maps.\<close>

definition placement_of :: "queueConfig \<Rightarrow> (u16 \<times> string) list option" where
  "placement_of c =
     (if qc_State c \<noteq> StateActive then None
      else if qc_Distributed c then Some (qc_SlotOwners c)
      else if qc_OwnerNode c = [] then None
      else Some (map (\<lambda>s. (of_nat s, qc_OwnerNode c)) [0..<slotCountFor False]))"

definition owners_map :: "queueConfig list \<Rightarrow> (string \<times> (u16 \<times> string) list) list" where
  "owners_map cfgs = fold (\<lambda>c al. case placement_of c of None \<Rightarrow> al | Some p \<Rightarrow> AList.update (qkey c) p al) cfgs []"

definition specs_map :: "queueConfig list \<Rightarrow> (string \<times> queueSpec) list" where
  "specs_map cfgs = fold (\<lambda>c al. if qc_State c \<noteq> StateActive then al else AList.update (qkey c) (Spec c) al) cfgs []"

definition spec_at :: "(string \<times> queueSpec) list \<Rightarrow> string \<Rightarrow> queueSpec" where
  "spec_at al k = (case map_of al k of None \<Rightarrow> no_spec | Some s \<Rightarrow> s)"

definition orphaned :: "(u16 \<times> string) list \<Rightarrow> string \<Rightarrow> heldSlots \<Rightarrow> u16 list" where
  "orphaned place i q = filter (\<lambda>s. case map_of place s of None \<Rightarrow> False | Some x \<Rightarrow> x \<noteq> [] \<and> x \<noteq> i) (hs_Slots q)"

definition stranded :: "(u16 \<times> string) list \<Rightarrow> string \<Rightarrow> heldSlots \<Rightarrow> u16 list" where
  "stranded place i q = filter (\<lambda>s. case map_of place s of None \<Rightarrow> False | Some x \<Rightarrow> x = i) (hs_Frozen q)"

text \<open>The repair of one queue on one machine; \<open>rep\<close> counts slots.\<close>

definition repair_queue :: "'n nodeAPI \<Rightarrow> (string \<times> (u16 \<times> string) list) list \<Rightarrow> (string \<times> queueSpec) list \<Rightarrow> member \<Rightarrow> heldSlots
    \<Rightarrow> nat \<Rightarrow> 'n world \<Rightarrow> 'n world \<times> nat" where
  "repair_queue api owners specs m q rep w =
     (let k = gw_key (hs_Org q) (hs_Name q)
      in case map_of owners k of
           None \<Rightarrow> (w, rep)
         | Some place \<Rightarrow>
             (let orp = orphaned place (mem_id m) q; stra = stranded place (mem_id m) q;
                  (w, rep) = (if stra = [] then (w, rep)
                    else case call_AbortMove api (mem_addr m) (spec_at specs k) stra [] w of
                           (w, Inl e) \<Rightarrow> (w, rep) | (w, Inr _) \<Rightarrow> (w, rep + List.length stra))
              in if orp = [] then (w, rep)
                 else case call_DiscardMove api (mem_addr m) (spec_at specs k) orp [] w of
                        (w, Inl e) \<Rightarrow> (w, rep) | (w, Inr _) \<Rightarrow> (w, rep + List.length orp)))"

fun repair_queues :: "'n nodeAPI \<Rightarrow> (string \<times> (u16 \<times> string) list) list \<Rightarrow> (string \<times> queueSpec) list \<Rightarrow> (member \<times> heldSlots) list
    \<Rightarrow> nat \<Rightarrow> 'n world \<Rightarrow> 'n world \<times> nat" where
  "repair_queues api owners specs [] rep w = (w, rep)"
| "repair_queues api owners specs (x # xs) rep w =
     (let (w, rep) = repair_queue api owners specs (fst x) (snd x) rep w in repair_queues api owners specs xs rep w)"

definition flat_reports :: "(member \<times> heldSlots list) list \<Rightarrow> (member \<times> heldSlots) list" where
  "flat_reports rs = concat (map (\<lambda>(m, qs). map (Pair m) qs) rs)"

definition Reconcile :: "'n nodeAPI \<Rightarrow> 'n world \<Rightarrow> 'n world \<times> nat" where
  "Reconcile api w =
     (let members = g_members w
      in if members = [] then (w, 0)
         else case gather_held api members w of
                (w, reports) \<Rightarrow>
                  (case db (asking (\<lambda>t. Inr (ListAll (g_coll w) t))) w of
                     (w, Inl e) \<Rightarrow> (w, 0)
                   | (w, Inr cfgs) \<Rightarrow>
                       (let (w, cfgs) = withPlacement cfgs w
                        in repair_queues api (owners_map cfgs) (specs_map cfgs) (flat_reports reports) 0 w)))"

end
