(* ===== verification/GwStuck.thy ===== *)
theory GwStuck
  imports GwHost GwReconcile
begin

text \<open>
  What becomes of a queue whose migration was broken off before its state was set back: the passes
  that run in the background, \<open>Rebalance\<close> and \<open>Reconcile\<close>, both leave it alone, so its slots stay
  frozen on the old owner.
\<close>

subsection \<open>Calls about other queues\<close>

text \<open>A handler changes nothing of a queue the request does not name.\<close>

definition untouched :: "queueKey \<Rightarrow> host \<Rightarrow> host \<Rightarrow> bool" where
  "untouched k h h' \<longleftrightarrow> lookup (h_node h') k = lookup (h_node h) k"

lemma queueFor_other: "queueFor n spec e = (n', r) \<Longrightarrow> spec_Key spec \<noteq> k \<Longrightarrow> lookup n' k = lookup n k"
  by (auto simp: queueFor_def Let_def split: option.splits)

lemma claimMove_other: "lookup (fst (claimMove n k' x)) k = lookup n k"
  by (simp add: claimMove_simps lookup_def)

lemma Absorb_other:
  assumes "spec_Key (tr_Spec req) \<noteq> k" and "Absorb_node render n req e io orders now = (n', r)"
  shows "lookup n' k = lookup n k"
proof -
  obtain n1 r1 where q: "queueFor n (tr_Spec req) e = (n1, r1)" by fastforce
  note Q = queueFor_other [OF q assms(1)]
  show ?thesis
  proof (cases r1)
    case (Inl x)
    with q Q assms(2) show ?thesis by (simp add: Absorb_node_def)
  next
    case (Inr lq)
    let ?c = "if tr_MoveID req \<noteq> [] then claimMove n1 (spec_Key (tr_Spec req)) (tr_MoveID req) else (n1, True)"
    have "lookup (fst ?c) k = lookup n k" using Q claimMove_other by simp
    then show ?thesis using q Inr assms
      by (cases ?c) (auto simp: Absorb_node_def Let_def split: prod.splits if_splits)
  qed
qed

lemma handlers_other:
  assumes "spec_Key spec \<noteq> k"
  shows "untouched k h (fst (api_PrepareMove (host_api render) (slot_set spec sl mv) h))"
    "untouched k h (fst (api_DiscardMove (host_api render) (slot_set spec sl mv) h))"
    "untouched k h (fst (api_AbortMove (host_api render) (slot_set spec sl mv) h))"
  using assms
  by (auto simp: untouched_def host_api_def on_host_def srv_PrepareMove_def srv_DiscardMove_def srv_AbortMove_def PrepareMove_def
      DiscardMove_def AbortMove_def Let_def split: option.split prod.split)

lemma absorb_other:
  assumes "spec_Key (tr_Spec t) \<noteq> k"
  shows "untouched k h (fst (api_Absorb (host_api render) (absorb_request t) h))"
proof -
  let ?e = "h_env h (h_tick h)"
  let ?req = "\<lparr>tr_MoveID = tr_MoveID t, tr_Spec = tr_Spec t, tr_BySlot = absorb_slots (absorb_request t)\<rparr>"
  obtain n' err where a: "Absorb_node render (h_node h) ?req (e_open ?e) (e_io ?e) (e_groups ?e) (e_now ?e) = (n', err)" by fastforce
  have "specFrom (pb_t_spec (absorb_request t)) = tr_Spec t" "pb_move_id (absorb_request t) = tr_MoveID t" by (simp_all add: absorb_request_def)
  then have "h_node (fst (api_Absorb (host_api render) (absorb_request t) h)) = n'"
    using a by (simp add: host_api_def on_host_def srv_Absorb_def reply_def)
  with Absorb_other [OF _ a] assms show ?thesis by (simp add: untouched_def)
qed

subsection \<open>A queue left alone\<close>

text \<open>The rows of the queue and its state on every node are as they were.\<close>

definition rows_of :: "tables \<Rightarrow> string \<Rightarrow> string \<Rightarrow> queueRow list" where
  "rows_of t org nm = filter (row_is org nm) (queues_tab t)"

lemma row_at_rows: "row_at t org nm = (case rows_of t org nm of [] \<Rightarrow> None | r # _ \<Rightarrow> Some r)"
proof -
  have "find P xs = (case filter P xs of [] \<Rightarrow> None | r # _ \<Rightarrow> Some r)" for P and xs :: "queueRow list"
    by (induction xs) auto
  then show ?thesis by (simp add: row_at_def rows_of_def)
qed

definition left_alone :: "string \<Rightarrow> string \<Rightarrow> host world \<Rightarrow> host world \<Rightarrow> bool" where
  "left_alone org nm w w' \<longleftrightarrow> rows_of (g_db w') org nm = rows_of (g_db w) org nm \<and>
     (\<forall>addr h. node_at w addr = Some h \<longrightarrow> (\<exists>h'. node_at w' addr = Some h' \<and> untouched \<lparr>Org = org, Name = nm\<rparr> h h'))"

lemma left_alone_refl [intro]: "g_db w' = g_db w \<Longrightarrow> g_nodes w' = g_nodes w \<Longrightarrow> left_alone org nm w w'"
  by (simp add: left_alone_def untouched_def node_at_def)

lemma left_alone_same [simp]: "left_alone org nm w w"
  by (rule left_alone_refl) simp_all

lemma left_alone_trans [trans]: "left_alone org nm w w' \<Longrightarrow> left_alone org nm w' w'' \<Longrightarrow> left_alone org nm w w''"
  unfolding left_alone_def untouched_def by metis

lemma reached_alone:
  assumes "reached w addr srv f w' r" and "\<And>h. untouched \<lparr>Org = org, Name = nm\<rparr> h (fst (srv h))"
  shows "left_alone org nm w w'"
  unfolding left_alone_def
proof (intro conjI allI impI)
  show "rows_of (g_db w') org nm = rows_of (g_db w) org nm" using reachedD(1) [OF assms(1)] by simp
  fix x h assume h: "node_at w x = Some h"
  show "\<exists>h'. node_at w' x = Some h' \<and> untouched \<lparr>Org = org, Name = nm\<rparr> h h'"
  proof (cases "x = addr")
    case True
    with reachedD(4) [OF assms(1), of h] h assms(2) [of h] show ?thesis by (auto simp: untouched_def)
  next
    case False
    with reachedD(3) [OF assms(1)] h show ?thesis by (simp add: untouched_def)
  qed
qed

lemma db_alone:
  assumes "db stmt w = (w', r)" and "rows_of (fst (stmt (g_db w))) org nm = rows_of (g_db w) org nm"
  shows "left_alone org nm w w'"
  using db_effect(3,4) [OF assms(1)] assms(2) by (auto simp: left_alone_def untouched_def)

lemma asking_alone: "db (asking q) w = (w', r) \<Longrightarrow> left_alone org nm w w'"
  by (rule db_alone) (auto simp: asking_def)

lemma update_rows_other:
  assumes "\<And>r. P r \<Longrightarrow> \<not> row_is org nm r" and "\<And>r. row_is org nm (f r) = row_is org nm r"
  shows "rows_of (fst (update_rows P f t)) org nm = rows_of t org nm"
proof -
  have "filter (row_is org nm) (map (\<lambda>r. if P r then f r else r) rs) = filter (row_is org nm) rs" for rs
    using assms by (induction rs) auto
  then show ?thesis by (simp add: rows_of_def update_rows_def)
qed

lemma SetState_other:
  assumes "(o', m') \<noteq> (org, nm)"
  shows "rows_of (fst (checked (SetState h o' m' s now t))) org nm = rows_of t org nm"
  using assms
  by (auto simp: checked_def SetState_def takeMigrationLock_def Let_def case_prod_beta row_is_def intro!: update_rows_other)

lemma SetOwner_other:
  assumes "(o', m') \<noteq> (org, nm)"
  shows "rows_of (fst (quietly (SetOwner_queue o' m' owner gen now) t)) org nm = rows_of t org nm"
  using assms by (auto simp: quietly_def SetOwner_queue_def row_is_def intro!: update_rows_other)

lemma SetOwner_slot_rows: "rows_of (fst (quietly (SetOwner_slot o' m' s owner gen) t)) org nm = rows_of t org nm"
  by (simp add: quietly_def SetOwner_slot_def rows_of_def)

lemma lock_alone: "(qc_Org cfg, qc_Name cfg) \<noteq> (org, nm) \<Longrightarrow> lock_queue cfg w = (w', r) \<Longrightarrow> left_alone org nm w w'"
  unfolding lock_queue_def by (rule db_alone, assumption) (rule SetState_other)

lemma unlock_alone:
  assumes "(qc_Org cfg, qc_Name cfg) \<noteq> (org, nm)"
  shows "left_alone org nm w (unlock_queue cfg w)"
proof -
  obtain w' r where d: "db (\<lambda>t. checked (SetState (g_holder w) (qc_Org cfg) (qc_Name cfg) StateActive (g_now w) t)) w = (w', r)" by fastforce
  have "left_alone org nm w w'" by (rule db_alone [OF d]) (rule SetState_other [OF assms])
  also have "left_alone org nm w' (unlock_queue cfg w)" by (rule left_alone_refl) (simp_all add: unlock_queue_def d evictCache_def)
  finally show ?thesis .
qed

text \<open>The calls of a move, each about the queue of its spec.\<close>

lemma key_other: "(sp_Org s, sp_Name s) \<noteq> (org, nm) \<Longrightarrow> spec_Key s \<noteq> \<lparr>Org = org, Name = nm\<rparr>"
  by (simp add: spec_Key_def)

lemma calls_alone:
  assumes "(sp_Org s, sp_Name s) \<noteq> (org, nm)"
  shows "call_PrepareMove (host_api render) addr s sl mv w = (w1, r1) \<Longrightarrow> left_alone org nm w w1"
    "call_DiscardMove (host_api render) addr s sl mv w = (w2, r2) \<Longrightarrow> left_alone org nm w w2"
    "call_AbortMove (host_api render) addr s sl mv w = (w3, r3) \<Longrightarrow> left_alone org nm w w3"
  by (erule reached_alone [OF prepare_effect] reached_alone [OF discard_effect] reached_alone [OF abort_effect],
      rule handlers_other [OF key_other [OF assms]])+

lemma absorb_alone:
  "(sp_Org (tr_Spec t), sp_Name (tr_Spec t)) \<noteq> (org, nm) \<Longrightarrow> call_Absorb (host_api render) addr t w = (w', r) \<Longrightarrow> left_alone org nm w w'"
  by (erule reached_alone [OF absorb_effect]) (rule absorb_other, erule key_other)

lemma abort_move_alone: "(sp_Org s, sp_Name s) \<noteq> (org, nm) \<Longrightarrow> left_alone org nm w (abort_move (host_api render) addr s sl mv w)"
  unfolding abort_move_def by (rule calls_alone(3)) (auto simp: prod_eq_iff)

lemma discard_alone: "(sp_Org s, sp_Name s) \<noteq> (org, nm) \<Longrightarrow> left_alone org nm w (fst (call_DiscardMove (host_api render) addr s sl mv w))"
  by (rule calls_alone(2)) (auto simp: prod_eq_iff)

lemma held_alone: "call_Held (host_api render) addr w = (w', r) \<Longrightarrow> left_alone org nm w w'"
  by (drule held_effect) (auto simp: host_api_def on_host_def untouched_def srv_Held_def Let_def elim!: reached_alone)

lemma with_gen_simps [simp]: "sp_Org (with_gen s g) = sp_Org s" "sp_Name (with_gen s g) = sp_Name s"
  by (simp_all add: with_gen_def)


subsection \<open>Moves of other queues\<close>

lemma migrate_locked_alone:
  assumes ne: "(qc_Org cfg, qc_Name cfg) \<noteq> (org, nm)"
  shows "left_alone org nm w (fst (migrate_locked (host_api render) mv cfg src dst w))"
proof -
  have s: "(sp_Org (Spec cfg), sp_Name (Spec cfg)) \<noteq> (org, nm)" using ne by simp
  let ?sl = "everySlot (slotCountFor (qc_Distributed cfg))" and ?g = "qc_Generation cfg + 1"
  obtain w1 r1 where p: "call_PrepareMove (host_api render) (mem_addr src) (Spec cfg) ?sl mv w = (w1, r1)" by fastforce
  note l1 = calls_alone(1) [OF s p]
  show ?thesis
  proof (cases r1)
    case (Inl e)
    with p l1 show ?thesis by (simp add: migrate_locked_def Let_def)
  next
    case (Inr t)
    let ?t = "t\<lparr>tr_Spec := with_gen (Spec cfg) ?g, tr_MoveID := mv\<rparr>"
    obtain w2 r2 where a: "call_Absorb (host_api render) (mem_addr dst) ?t w1 = (w2, r2)" by fastforce
    have l2: "left_alone org nm w w2" by (rule left_alone_trans [OF l1 absorb_alone [OF _ a]]) (use ne in simp)
    obtain w3 r3 where o: "db (quietly (SetOwner_queue (qc_Org cfg) (qc_Name cfg) (mem_id dst) ?g (g_now w2))) w2 = (w3, r3)" by fastforce
    have l3: "left_alone org nm w w3" by (rule left_alone_trans [OF l2 db_alone [OF o SetOwner_other [OF ne]]])
    have b2: "left_alone org nm w (abort_move (host_api render) (mem_addr src) (Spec cfg) ?sl mv w2)"
      by (rule left_alone_trans [OF l2 abort_move_alone [OF s]])
    have b3: "left_alone org nm w (abort_move (host_api render) (mem_addr src) (Spec cfg) ?sl mv w3)"
      by (rule left_alone_trans [OF l3 abort_move_alone [OF s]])
    have d: "left_alone org nm w (fst (call_DiscardMove (host_api render) (mem_addr src) (with_gen (Spec cfg) ?g) ?sl mv w3))"
      by (rule left_alone_trans [OF l3 discard_alone]) (use ne in simp)
    show ?thesis using p Inr a o b2 b3 d by (cases r2; cases r3) (simp_all add: migrate_locked_def Let_def)
  qed
qed

lemma migrate_alone:
  assumes ne: "(qc_Org cfg, qc_Name cfg) \<noteq> (org, nm)"
  shows "left_alone org nm w (fst (migrate (host_api render) mv cfg src dst w))"
proof -
  obtain w1 r1 where l: "lock_queue cfg w = (w1, r1)" by fastforce
  obtain w2 r2 where m: "migrate_locked (host_api render) mv cfg src dst w1 = (w2, r2)" by fastforce
  have "left_alone org nm w w1" by (rule lock_alone [OF ne l])
  moreover have "left_alone org nm w1 w2" using migrate_locked_alone [OF ne, of w1 render mv src dst] m by simp
  moreover note unlock_alone [OF ne, of w2]
  ultimately show ?thesis using l m by (cases r1) (auto simp: migrate_def intro: left_alone_trans)
qed

lemma record_slots_alone: "left_alone org nm w (fst (record_slots cfg dst gen sl ok w))"
proof (induction sl arbitrary: ok w)
  case (Cons i sl)
  obtain w1 r where d: "db (quietly (SetOwner_slot (qc_Org cfg) (qc_Name cfg) i dst gen)) w = (w1, r)" by fastforce
  have "left_alone org nm w w1" by (rule db_alone [OF d SetOwner_slot_rows])
  then show ?case using Cons.IH d by (cases r) (auto intro: left_alone_trans)
qed simp

lemma move_route_alone:
  assumes ne: "(qc_Org cfg, qc_Name cfg) \<noteq> (org, nm)"
  shows "left_alone org nm w (fst (move_route (host_api render) newID cfg x w))"
proof -
  have s: "(sp_Org (Spec cfg), sp_Name (Spec cfg)) \<noteq> (org, nm)" using ne by simp
  obtain src dst sl where x: "x = ((src, dst), sl)" by (metis prod.exhaust)
  show ?thesis
  proof (cases "Lookup w src = None \<or> Lookup w dst = None")
    case True
    then show ?thesis by (cases "Lookup w src"; cases "Lookup w dst") (auto simp: move_route_def x Let_def)
  next
    case False
    then obtain a b where ab: "Lookup w src = Some a" "Lookup w dst = Some b" by auto
    let ?mv = "newID (src, dst)" and ?g = "qc_Generation cfg + 1"
    obtain w1 r1 where p: "call_PrepareMove (host_api render) (mem_addr a) (Spec cfg) sl ?mv w = (w1, r1)" by fastforce
    note l1 = calls_alone(1) [OF s p]
    show ?thesis
    proof (cases r1)
      case (Inl e)
      with p l1 ab show ?thesis by (simp add: move_route_def x Let_def)
    next
      case (Inr t)
      let ?t = "t\<lparr>tr_Spec := with_gen (Spec cfg) ?g, tr_MoveID := ?mv\<rparr>"
      obtain w2 r2 where c: "call_Absorb (host_api render) (mem_addr b) ?t w1 = (w2, r2)" by fastforce
      have l2: "left_alone org nm w w2" by (rule left_alone_trans [OF l1 absorb_alone [OF _ c]]) (use ne in simp)
      obtain w3 ok where o: "record_slots cfg dst ?g sl True w2 = (w3, ok)" by fastforce
      have l3: "left_alone org nm w w3" by (rule left_alone_trans [OF l2]) (metis record_slots_alone o fst_conv)
      have b2: "left_alone org nm w (abort_move (host_api render) (mem_addr a) (Spec cfg) sl ?mv w2)"
        by (rule left_alone_trans [OF l2 abort_move_alone [OF s]])
      have d: "left_alone org nm w (fst (call_DiscardMove (host_api render) (mem_addr a) (with_gen (Spec cfg) ?g) sl ?mv w3))"
        by (rule left_alone_trans [OF l3 discard_alone]) (use ne in simp)
      show ?thesis using p Inr c o b2 l3 d ab by (cases r2; cases ok) (simp_all add: move_route_def x Let_def)
    qed
  qed
qed

lemma move_routes_alone:
  "(qc_Org cfg, qc_Name cfg) \<noteq> (org, nm) \<Longrightarrow> left_alone org nm w (fst (move_routes (host_api render) newID cfg xs dn w))"
proof (induction xs arbitrary: dn w)
  case (Cons x xs)
  obtain w1 ok where m: "move_route (host_api render) newID cfg x w = (w1, ok)" by fastforce
  have "left_alone org nm w w1" using move_route_alone [OF Cons.prems] m by (metis fst_conv)
  then show ?case using left_alone_trans Cons.IH [OF Cons.prems] by (auto simp: m)
qed simp

lemma rebalanceSlots_alone:
  assumes ne: "(qc_Org cfg, qc_Name cfg) \<noteq> (org, nm)"
  shows "left_alone org nm w (fst (rebalanceSlots (host_api render) newID perm cfg members w))"
proof -
  obtain w1 r1 where l: "lock_queue cfg w = (w1, r1)" by fastforce
  obtain w2 dn where m: "move_routes (host_api render) newID cfg (perm (slot_moves w cfg members)) 0 w1 = (w2, dn)" by fastforce
  have "left_alone org nm w w1" by (rule lock_alone [OF ne l])
  moreover have "left_alone org nm w1 w2" using move_routes_alone [OF ne] m by (metis fst_conv)
  moreover note unlock_alone [OF ne, of w2]
  ultimately show ?thesis using l m by (cases r1) (auto simp: rebalanceSlots_def Let_def intro: left_alone_trans)
qed


subsection \<open>The passes in the background\<close>

text \<open>Every row of the queue is in migrating.\<close>

definition migrating :: "tables \<Rightarrow> string \<Rightarrow> string \<Rightarrow> bool" where
  "migrating t org nm \<longleftrightarrow> (\<forall>r \<in> set (rows_of t org nm). row_state r = StateMigrating)"

text \<open>Of what a pass reads, no active queue is this one.\<close>

definition spares :: "string \<Rightarrow> string \<Rightarrow> queueConfig list \<Rightarrow> bool" where
  "spares org nm cfgs \<longleftrightarrow> (\<forall>c \<in> set cfgs. qc_State c = StateActive \<longrightarrow> (qc_Org c, qc_Name c) \<noteq> (org, nm))"

lemma spares_Cons [simp]: "spares org nm (c # cs) \<longleftrightarrow> (qc_State c = StateActive \<longrightarrow> (qc_Org c, qc_Name c) \<noteq> (org, nm)) \<and> spares org nm cs"
  by (simp add: spares_def)

lemma ListAll_spares: "migrating t org nm \<Longrightarrow> spares org nm (ListAll coll t)"
  by (auto simp: migrating_def rows_of_def row_is_def spares_def ListAll_def set_sort_by scanQueue_def)

lemma withPlacement_alone:
  "left_alone org nm w (fst (withPlacement cs w)) \<and> spares org nm (snd (withPlacement cs w)) = spares org nm cs"
proof (induction cs arbitrary: w)
  case (Cons c cs)
  show ?case
  proof (cases "qc_Distributed c")
    case True
    obtain w1 r where d: "db (asking (\<lambda>t. Inr (ListByQueue (qc_Org c) (qc_Name c) t))) w = (w1, r)" by fastforce
    have "left_alone org nm w w1" by (rule asking_alone [OF d])
    with Cons.IH [of w1] True d show ?thesis by (cases r) (auto simp: Let_def case_prod_beta intro: left_alone_trans)
  next
    case False
    with Cons.IH [of w] show ?thesis by (simp add: Let_def case_prod_beta)
  qed
qed simp

lemma rebalance_loop_alone:
  "spares org nm cfgs \<Longrightarrow> left_alone org nm w (rebalance_loop (host_api render) newID perm members cfgs moved w)"
proof (induction cfgs arbitrary: moved w)
  case (Cons c cs)
  note IH = Cons.IH [OF conjunct2 [OF Cons.prems [unfolded spares_Cons]]]
  let ?k = "gw_key (qc_Org c) (qc_Name c)"
  show ?case
  proof (cases "moved \<ge> maxConcurrent \<or> qc_State c \<noteq> StateActive")
    case True
    then show ?thesis using IH by (auto simp: Let_def)
  next
    case False
    then have ne: "(qc_Org c, qc_Name c) \<noteq> (org, nm)" and run: "\<not> moved \<ge> maxConcurrent" "qc_State c = StateActive" using Cons.prems by auto
    obtain w1 ok where d: "rebalanceSlots (host_api render) (newID ?k) perm c members w = (w1, ok)" by fastforce
    have l1: "left_alone org nm w w1" using rebalanceSlots_alone [OF ne] d by (metis fst_conv)
    have m: "left_alone org nm w (fst (migrate (host_api render) mv c src want w))" for mv src want by (rule migrate_alone [OF ne])
    show ?thesis using run d left_alone_trans [OF l1 IH] left_alone_trans [OF m IH] IH
      by (auto simp: Let_def split: option.split prod.split sum.split) (metis fst_conv)+
  qed
qed simp

lemma Rebalance_alone:
  assumes "migrating (g_db w) org nm"
  shows "left_alone org nm w (Rebalance (host_api render) newID perm w)"
proof -
  obtain w1 r where d: "db (asking (\<lambda>t. Inr (ListAll (g_coll w) t))) w = (w1, r)" by fastforce
  have l1: "left_alone org nm w w1" by (rule asking_alone [OF d])
  show ?thesis
  proof (cases r)
    case (Inl e)
    with d l1 show ?thesis by (simp add: Rebalance_def Let_def)
  next
    case (Inr cfgs)
    have "cfgs = ListAll (g_coll w) (g_db w)" using db_effect(5) [OF d Inr] by (auto simp: asking_def)
    then have s: "spares org nm cfgs" using ListAll_spares [OF assms] by simp
    obtain w2 cs where p: "withPlacement cfgs w1 = (w2, cs)" by fastforce
    have "left_alone org nm w1 w2" "spares org nm cs" using withPlacement_alone [of org nm w1 cfgs] s p by simp_all
    then have "left_alone org nm w (rebalance_loop (host_api render) newID perm (g_members w) cs 0 w2)"
      using l1 rebalance_loop_alone left_alone_trans by metis
    then show ?thesis using d Inr p by (simp add: Rebalance_def Let_def)
  qed
qed


lemma gather_held_alone: "left_alone org nm w (fst (gather_held (host_api render) ms w))"
proof (induction ms arbitrary: w)
  case (Cons m ms)
  obtain w1 r where h: "call_Held (host_api render) (mem_addr m) w = (w1, r)" by fastforce
  show ?case using left_alone_trans [OF held_alone [OF h] Cons.IH] h by (cases r) (simp_all add: case_prod_beta Let_def)
qed simp

lemma owners_specs:
  assumes "map_of (owners_map cfgs) k = Some p"
  shows "\<exists>c \<in> set cfgs. qc_State c = StateActive \<and> spec_at (specs_map cfgs) k = Spec c"
  using assms
proof (induction cfgs arbitrary: p rule: rev_induct)
  case (snoc c cs)
  have upd: "map_of (AList.update x v al) k = (if k = x then Some v else map_of al k)" for x and v :: 'b and al
    by (simp add: update_conv')
  show ?case
  proof (cases "qkey c = k \<and> qc_State c = StateActive")
    case True
    then show ?thesis by (intro bexI [of _ c]) (simp_all add: spec_at_def specs_map_def upd)
  next
    case False
    then have "map_of (owners_map cs) k = Some p" and "spec_at (specs_map (cs @ [c])) k = spec_at (specs_map cs) k"
      using snoc.prems by (auto simp: owners_map_def specs_map_def spec_at_def placement_of_def upd split: option.splits if_splits)
    with snoc.IH show ?thesis by auto
  qed
qed (simp add: owners_map_def)

lemma repair_queue_alone:
  assumes "spares org nm cfgs"
  shows "left_alone org nm w (fst (repair_queue (host_api render) (owners_map cfgs) (specs_map cfgs) m q rep w))"
proof (cases "map_of (owners_map cfgs) (gw_key (hs_Org q) (hs_Name q))")
  case None
  then show ?thesis by (simp add: repair_queue_def Let_def)
next
  case (Some p)
  let ?s = "spec_at (specs_map cfgs) (gw_key (hs_Org q) (hs_Name q))"
  obtain c where c: "c \<in> set cfgs" "qc_State c = StateActive" "?s = Spec c" using owners_specs [OF Some] by blast
  have s: "(sp_Org ?s, sp_Name ?s) \<noteq> (org, nm)" using assms c by (auto simp: spares_def)
  define x where "x = (if stranded p (mem_id m) q = [] then (w, rep)
    else case call_AbortMove (host_api render) (mem_addr m) ?s (stranded p (mem_id m) q) [] w of
           (w, Inl e) \<Rightarrow> (w, rep) | (w, Inr _) \<Rightarrow> (w, rep + List.length (stranded p (mem_id m) q)))"
  obtain w1 rep1 where x1: "x = (w1, rep1)" by fastforce
  have l1: "left_alone org nm w w1"
    using x1 calls_alone(3) [OF s] by (auto simp: x_def split: if_splits prod.splits sum.splits)
  have "repair_queue (host_api render) (owners_map cfgs) (specs_map cfgs) m q rep w =
    (if orphaned p (mem_id m) q = [] then (w1, rep1)
     else case call_DiscardMove (host_api render) (mem_addr m) ?s (orphaned p (mem_id m) q) [] w1 of
            (w, Inl e) \<Rightarrow> (w, rep1) | (w, Inr _) \<Rightarrow> (w, rep1 + List.length (orphaned p (mem_id m) q)))"
    using x1 Some unfolding repair_queue_def x_def by (simp add: Let_def)
  then show ?thesis using l1 left_alone_trans [OF l1 calls_alone(2) [OF s]] by (auto split: prod.split sum.split)
qed

lemma repair_queues_alone:
  "spares org nm cfgs \<Longrightarrow> left_alone org nm w (fst (repair_queues (host_api render) (owners_map cfgs) (specs_map cfgs) xs rep w))"
proof (induction xs arbitrary: rep w)
  case (Cons x xs)
  obtain w1 rep1 where r: "repair_queue (host_api render) (owners_map cfgs) (specs_map cfgs) (fst x) (snd x) rep w = (w1, rep1)" by fastforce
  have "left_alone org nm w w1" using repair_queue_alone [OF Cons.prems] r by (metis fst_conv)
  then show ?case using left_alone_trans Cons.IH [OF Cons.prems] by (auto simp: r)
qed simp

lemma Reconcile_alone:
  assumes "migrating (g_db w) org nm"
  shows "left_alone org nm w (fst (Reconcile (host_api render) w))"
proof -
  obtain w1 rs where g: "gather_held (host_api render) (g_members w) w = (w1, rs)" by fastforce
  have l1: "left_alone org nm w w1" using gather_held_alone g by (metis fst_conv)
  obtain w2 r where d: "db (asking (\<lambda>t. Inr (ListAll (g_coll w1) t))) w1 = (w2, r)" by fastforce
  have l2: "left_alone org nm w w2" by (rule left_alone_trans [OF l1 asking_alone [OF d]])
  show ?thesis
  proof (cases r)
    case (Inl e)
    with d g l2 show ?thesis by (simp add: Reconcile_def Let_def)
  next
    case (Inr cfgs)
    have "cfgs = ListAll (g_coll w1) (g_db w1)" using db_effect(5) [OF d Inr] by (auto simp: asking_def)
    moreover have "migrating (g_db w1) org nm" using assms l1 by (simp add: migrating_def left_alone_def)
    ultimately have s: "spares org nm cfgs" using ListAll_spares by simp
    obtain w3 cs where p: "withPlacement cfgs w2 = (w3, cs)" by fastforce
    have "left_alone org nm w2 w3" "spares org nm cs" using withPlacement_alone [of org nm w2 cfgs] s p by simp_all
    then have "left_alone org nm w (fst (repair_queues (host_api render) (owners_map cs) (specs_map cs) (flat_reports rs) 0 w3))"
      using l2 repair_queues_alone left_alone_trans by metis
    then show ?thesis using d Inr g p by (simp add: Reconcile_def Let_def)
  qed
qed

text \<open>What goes on in the background: the two passes, in any order and number, while time passes, machines
  come and go, calls fail and the cache changes.\<close>

inductive upkeep :: "(json \<Rightarrow> bytes) \<Rightarrow> host world \<Rightarrow> host world \<Rightarrow> bool" for render where
  Start: "upkeep render w w"
| Rebalanced: "upkeep render w w' \<Longrightarrow> upkeep render w (Rebalance (host_api render) newID perm w')"
| Reconciled: "upkeep render w w' \<Longrightarrow> upkeep render w (fst (Reconcile (host_api render) w'))"
| Elsewhere: "upkeep render w w' \<Longrightarrow> g_db w'' = g_db w' \<Longrightarrow> g_nodes w'' = g_nodes w' \<Longrightarrow> upkeep render w w''"

lemma upkeep_alone: "upkeep render w w' \<Longrightarrow> migrating (g_db w) org nm \<Longrightarrow> left_alone org nm w w'"
proof (induction rule: upkeep.induct)
  case (Rebalanced w w' newID perm)
  then have "migrating (g_db w') org nm" by (simp add: migrating_def left_alone_def)
  with Rebalanced show ?case using Rebalance_alone left_alone_trans by metis
next
  case (Reconciled w w')
  then have "migrating (g_db w') org nm" by (simp add: migrating_def left_alone_def)
  with Reconciled show ?case using Reconcile_alone left_alone_trans by metis
next
  case (Elsewhere w w' w'')
  then show ?case using left_alone_trans [OF _ left_alone_refl] by metis
qed simp



text \<open>Ten minutes after a gateway took the lock, with both machines there.\<close>

definition stuck_world :: "host world" where
  "stuck_world = (demo_world demo_config leak1 [])\<lparr>g_db := fst (takeMigrationLock ''gw'' ''o'' ''n'' 7 demo_tables)\<rparr>"


end
