(* ===== verification/GwWaiters.thy ===== *)
theory GwWaiters
  imports GwEntity
begin

text \<open>
  \<open>dequeue-wait-logic.go\<close> of \<open>backend/gateway/logic\<close>: the consumers parked on a queue, each with a
  channel that holds at most one wake, and the notification streams that wake them.  A channel is a
  number in an explicit store, since the code tells channels apart by identity; \<open>wt_full\<close> are those
  holding a wake.  Every operation runs under the one lock.
\<close>

subsection \<open>Waiters\<close>

record waiters =
  wt_m :: "(string \<times> nat list) list"
  wt_next :: "(string \<times> nat) list"
  wt_full :: "nat list"
  wt_fresh :: nat

definition newWaiters :: waiters where
  "newWaiters = \<lparr>wt_m = [], wt_next = [], wt_full = [], wt_fresh = 0\<rparr>"

definition waiting :: "waiters \<Rightarrow> string \<Rightarrow> nat list" where
  "waiting w k = (case map_of (wt_m w) k of None \<Rightarrow> [] | Some l \<Rightarrow> l)"

definition next_of :: "waiters \<Rightarrow> string \<Rightarrow> nat" where
  "next_of w k = (case map_of (wt_next w) k of None \<Rightarrow> 0 | Some n \<Rightarrow> n)"

definition park :: "string \<Rightarrow> waiters \<Rightarrow> waiters \<times> nat" where
  "park k w = (let ch = wt_fresh w in (w\<lparr>wt_fresh := ch + 1, wt_m := AList.update k (waiting w k @ [ch]) (wt_m w)\<rparr>, ch))"

text \<open>The first channel without a wake, from where the last delivery left off.\<close>

definition deliver :: "string \<Rightarrow> waiters \<Rightarrow> waiters" where
  "deliver k w =
     (let l = waiting w k; n = List.length l
      in if n = 0 then w
         else let start = next_of w k mod n
              in case find (\<lambda>i. l ! ((start + i) mod n) \<notin> set (wt_full w)) [0..<n] of
                   None \<Rightarrow> w
                 | Some i \<Rightarrow> (let idx = (start + i) mod n
                     in w\<lparr>wt_full := l ! idx # wt_full w, wt_next := AList.update k ((idx + 1) mod n) (wt_next w)\<rparr>))"

definition wake :: "string \<Rightarrow> waiters \<Rightarrow> waiters" where
  "wake k w = deliver k w"

text \<open>A receive from a channel takes its wake.\<close>

definition receive :: "nat \<Rightarrow> waiters \<Rightarrow> waiters" where
  "receive ch w = w\<lparr>wt_full := removeAll ch (wt_full w)\<rparr>"

definition unpark :: "string \<Rightarrow> nat \<Rightarrow> waiters \<Rightarrow> waiters" where
  "unpark k ch w =
     (let w = w\<lparr>wt_m := AList.update k (remove1 ch (waiting w k)) (wt_m w)\<rparr>
      in if waiting w k = [] then w\<lparr>wt_m := AList.delete k (wt_m w), wt_next := AList.delete k (wt_next w)\<rparr>
         else if ch \<in> set (wt_full w) then deliver k (receive ch w) else w)"

subsection \<open>Streams\<close>

text \<open>
  One turn of \<open>RunSubscriber\<close>: the streams open now, by node and address, become one per member.
  What it starts and cancels are the second and third result.
\<close>

definition current_members :: "member list \<Rightarrow> (string \<times> string) list" where
  "current_members ms = fold (\<lambda>m al. AList.update (mem_id m) (mem_addr m) al) ms []"

definition subscriber_step :: "member list \<Rightarrow> (string \<times> string) list \<Rightarrow> (string \<times> string) list \<times> (string \<times> string) list \<times> (string \<times> string) list" where
  "subscriber_step ms opn =
     (let current = current_members ms;
          started = filter (\<lambda>(i, a). map_of opn i \<noteq> Some a) current;
          replaced = filter (\<lambda>(i, a). i \<in> fst ` set started) opn;
          gone = filter (\<lambda>(i, a). i \<notin> fst ` set current) opn
      in (filter (\<lambda>(i, a). map_of current i = Some a) opn @ started, started, replaced @ gone))"

definition minStreamBackoff :: duration where
  "minStreamBackoff = 250000000"

definition maxStreamBackoff :: duration where
  "maxStreamBackoff = 5 * second"

text \<open>The wait before the next attempt of \<open>streamFrom\<close>, and the one after it; \<open>opened\<close> is whether the
  attempt had opened a stream.\<close>

definition stream_retry :: "bool \<Rightarrow> duration \<Rightarrow> duration \<times> duration" where
  "stream_retry opened backoff =
     (let backoff = (if opened then minStreamBackoff else backoff);
          nxt = backoff * 2
      in (backoff, if nxt > maxStreamBackoff then maxStreamBackoff else nxt))"

text \<open>What a stream forwards: a wake for the queue of every notification.\<close>

fun forward :: "(string \<times> string) list \<Rightarrow> waiters \<Rightarrow> waiters" where
  "forward [] w = w"
| "forward ((org, nm) # ns) w = forward ns (wake (gw_key org nm) w)"

lemma backoff_bounds:
  "minStreamBackoff \<le> b \<Longrightarrow> b \<le> maxStreamBackoff \<Longrightarrow> minStreamBackoff \<le> fst (stream_retry c b) \<and> fst (stream_retry c b) \<le> maxStreamBackoff
     \<and> minStreamBackoff \<le> snd (stream_retry c b) \<and> snd (stream_retry c b) \<le> maxStreamBackoff"
  by (simp add: stream_retry_def minStreamBackoff_def maxStreamBackoff_def Let_def second_def)

lemma current_map: "map_of (current_members ms) i = map_option mem_addr (find (\<lambda>m. mem_id m = i) (rev ms))"
proof -
  have upd: "map_of (AList.update x v al) k = (if k = x then Some v else map_of al k)" for x k v and al :: "(string \<times> string) list"
    by (simp add: update_conv')
  have "map_of (fold (\<lambda>m al. AList.update (mem_id m) (mem_addr m) al) ms al) i
      = (case find (\<lambda>m. mem_id m = i) (rev ms) of None \<Rightarrow> map_of al i | Some m \<Rightarrow> Some (mem_addr m))" for al
  proof (induction ms arbitrary: al rule: rev_induct)
    case (snoc m ms)
    then show ?case by (auto simp: upd)
  qed simp
  then show ?thesis by (simp add: current_members_def split: option.split)
qed

text \<open>After a turn there is a stream to every member, at its address, and to no one else.\<close>

lemma streams_follow_members: "map_of (fst (subscriber_step ms opn)) i = map_of (current_members ms) i" if "distinct (map fst opn)"
proof -
  let ?c = "current_members ms"
  have d: "distinct (map fst ?c)" unfolding current_members_def
    by (induction ms rule: rev_induct) (simp_all add: distinct_update)
  have f: "map_of (filter P al) i = (case map_of al i of Some v \<Rightarrow> if P (i, v) then Some v else None | None \<Rightarrow> None)"
    if "distinct (map fst al)" for P and al :: "(string \<times> string) list"
    using that by (induction al) (auto split: option.split dest: map_of_SomeD simp: map_of_eq_None_iff rev_image_eqI)
  show ?thesis by (simp add: subscriber_step_def Let_def map_add_def f [OF d] f [OF that] split: option.split)
qed

subsection \<open>No wake is stranded\<close>

text \<open>Per queue, what matters is how many consumers are parked and how many of them hold a wake.\<close>

definition parked :: "waiters \<Rightarrow> string \<Rightarrow> nat \<times> nat" where
  "parked w k = (List.length (waiting w k), List.length (filter (\<lambda>c. c \<in> set (wt_full w)) (waiting w k)))"

definition waiters_ok :: "waiters \<Rightarrow> bool" where
  "waiters_ok w \<longleftrightarrow> (\<forall>k. distinct (waiting w k)) \<and> (\<forall>k. \<forall>c \<in> set (waiting w k). c < wt_fresh w) \<and>
     (\<forall>k k'. k \<noteq> k' \<longrightarrow> set (waiting w k) \<inter> set (waiting w k') = {}) \<and> (\<forall>c \<in> set (wt_full w). c < wt_fresh w)"

lemma waiters_only: "waiters_ok w \<Longrightarrow> c \<in> set (waiting w k) \<Longrightarrow> c \<in> set (waiting w k') \<Longrightarrow> k' = k"
  unfolding waiters_ok_def by (metis IntI empty_iff)

lemma waiting_update: "waiting (w\<lparr>wt_m := AList.update k l (wt_m w)\<rparr>) k' = (if k' = k then l else waiting w k')"
  by (simp add: waiting_def update_conv')

lemma waiting_delete: "waiting (w\<lparr>wt_m := AList.delete k (wt_m w)\<rparr>) k' = (if k' = k then [] else waiting w k')"
  by (simp add: waiting_def delete_conv')

lemma waiting_frame [simp]: "waiting (w\<lparr>wt_full := x\<rparr>) k = waiting w k" "waiting (w\<lparr>wt_next := y\<rparr>) k = waiting w k"
  "waiting (w\<lparr>wt_fresh := z\<rparr>) k = waiting w k"
  by (simp_all add: waiting_def)

text \<open>A delivery fills exactly one free channel of the queue, if it has one.\<close>

lemma deliver_cases:
  obtains "deliver k w = w" and "set (waiting w k) \<subseteq> set (wt_full w)"
  | c n where "deliver k w = w\<lparr>wt_full := c # wt_full w, wt_next := AList.update k n (wt_next w)\<rparr>"
      "c \<in> set (waiting w k)" "c \<notin> set (wt_full w)"
proof (cases "waiting w k = []")
  case True
  then show ?thesis by (intro that(1)) (simp_all add: deliver_def)
next
  case False
  let ?l = "waiting w k" and ?n = "List.length (waiting w k)"
  let ?s = "next_of w k mod ?n"
  let ?P = "\<lambda>i. ?l ! ((?s + i) mod ?n) \<notin> set (wt_full w)"
  have n: "0 < ?n" using False by simp
  show ?thesis
  proof (cases "find ?P [0..<?n]")
    case None
    have "c \<in> set (wt_full w)" if c: "c \<in> set ?l" for c
    proof -
      obtain j where j: "j < ?n" "?l ! j = c" using c by (auto simp: in_set_conv_nth)
      let ?i = "(j + ?n - ?s) mod ?n"
      have s: "?s < ?n" using n by simp
      have "(?s + ?i) mod ?n = (?s + (j + ?n - ?s)) mod ?n" by (simp add: mod_add_right_eq)
      also have "\<dots> = j" using j s by simp
      finally have "(?s + ?i) mod ?n = j" .
      moreover have "\<not> ?P ?i" using None n by (auto simp: find_None_iff)
      ultimately show ?thesis using j by simp
    qed
    then show ?thesis using None False by (intro that(1)) (auto simp: deliver_def Let_def)
  next
    case (Some i)
    then have "?P i" by (auto simp: find_Some_iff)
    then show ?thesis using Some False n by (intro that(2)) (auto simp: deliver_def Let_def)
  qed
qed


lemma filter_fill: "distinct l \<Longrightarrow> c \<in> set l \<Longrightarrow> c \<notin> F \<Longrightarrow> List.length (filter (\<lambda>x. x \<in> insert c F) l) = Suc (List.length (filter (\<lambda>x. x \<in> F) l))"
  by (induction l) (auto intro!: arg_cong [of _ _ List.length] filter_cong)

lemma filter_all: "set l \<subseteq> F \<Longrightarrow> filter (\<lambda>x. x \<in> F) l = l"
  by (induction l) auto

lemma filter_not_all: "c \<in> set l \<Longrightarrow> c \<notin> F \<Longrightarrow> List.length (filter (\<lambda>x. x \<in> F) l) < List.length l"
  by (rule length_filter_less) auto

lemma deliver_parked:
  assumes "waiters_ok w"
  shows "parked (deliver k w) k = (fst (parked w k), min (fst (parked w k)) (snd (parked w k) + 1))"
    and "k' \<noteq> k \<Longrightarrow> parked (deliver k w) k' = parked w k'" and "waiters_ok (deliver k w)"
    and "waiting (deliver k w) k' = waiting w k'"
proof -
  have d: "distinct (waiting w k)" and sep: "k' \<noteq> k \<Longrightarrow> set (waiting w k) \<inter> set (waiting w k') = {}" for k'
    using assms by (auto simp: waiters_ok_def)
  show "parked (deliver k w) k = (fst (parked w k), min (fst (parked w k)) (snd (parked w k) + 1))"
  proof (cases rule: deliver_cases [of k w])
    case 1
    then show ?thesis by (simp add: parked_def filter_all)
  next
    case (2 c n)
    then show ?thesis using filter_fill [OF d 2(2,3)] filter_not_all [OF 2(2,3)] by (simp add: parked_def)
  qed
  show "parked (deliver k w) k' = parked w k'" if "k' \<noteq> k"
  proof (cases rule: deliver_cases [of k w])
    case (2 c n)
    then have "c \<notin> set (waiting w k')" using sep [OF that] by auto
    then have "filter (\<lambda>x. x = c \<or> x \<in> set (wt_full w)) (waiting w k') = filter (\<lambda>x. x \<in> set (wt_full w)) (waiting w k')"
      by (intro filter_cong) auto
    with 2 show ?thesis by (simp add: parked_def)
  qed simp
  show "waiters_ok (deliver k w)"
    by (cases rule: deliver_cases [of k w]) (use assms in \<open>auto simp: waiters_ok_def\<close>)
  show "waiting (deliver k w) k' = waiting w k'"
    by (cases rule: deliver_cases [of k w]) auto
qed

inductive waiters_reach :: "waiters \<Rightarrow> bool" where
  New: "waiters_reach newWaiters"
| Park: "waiters_reach w \<Longrightarrow> waiters_reach (fst (park k w))"
| Wake: "waiters_reach w \<Longrightarrow> waiters_reach (wake k w)"
| Receive: "waiters_reach w \<Longrightarrow> waiters_reach (receive ch w)"
| Unpark: "waiters_reach w \<Longrightarrow> ch \<in> set (waiting w k) \<Longrightarrow> waiters_reach (unpark k ch w)"

lemma park_waiting: "waiting (fst (park k w)) k' = (if k' = k then waiting w k @ [wt_fresh w] else waiting w k')"
  by (simp add: park_def Let_def waiting_def update_conv')

lemma park_ok: "waiters_ok w \<Longrightarrow> waiters_ok (fst (park k w))"
  unfolding waiters_ok_def park_waiting by (force simp: park_def Let_def)

lemma unpark_cases:
  fixes k and ch
  assumes "waiters_ok w"
  defines "w1 \<equiv> w\<lparr>wt_m := AList.update k (remove1 ch (waiting w k)) (wt_m w)\<rparr>"
  shows "waiters_ok w1" "waiting w1 k' = (if k' = k then remove1 ch (waiting w k) else waiting w k')"
  using assms unfolding waiters_ok_def waiting_update w1_def by (auto dest: notin_set_remove1) (blast dest: notin_set_remove1)+

lemma receive_ok: "waiters_ok w \<Longrightarrow> waiters_ok (receive ch w)"
  by (auto simp: waiters_ok_def receive_def)

lemma unpark_ok: "waiters_ok w \<Longrightarrow> waiters_ok (unpark k ch w)"
proof -
  assume ok: "waiters_ok w"
  let ?w1 = "w\<lparr>wt_m := AList.update k (remove1 ch (waiting w k)) (wt_m w)\<rparr>"
  note U = unpark_cases [OF ok, of k ch]
  show ?thesis
  proof (cases "waiting ?w1 k = []")
    case True
    then have "unpark k ch w = ?w1\<lparr>wt_m := AList.delete k (wt_m ?w1), wt_next := AList.delete k (wt_next w)\<rparr>"
      by (simp add: unpark_def Let_def)
    moreover have "waiting (?w1\<lparr>wt_m := AList.delete k (wt_m ?w1), wt_next := AList.delete k (wt_next w)\<rparr>) k' = waiting ?w1 k'" for k'
      using True by (auto simp: waiting_def delete_conv' update_conv')
    ultimately show ?thesis using U(1) by (simp add: waiters_ok_def)
  next
    case False
    then show ?thesis using U(1) deliver_parked(3) [OF receive_ok [OF U(1)]] by (auto simp: unpark_def Let_def)
  qed
qed

lemma waiters_reach_ok: "waiters_reach w \<Longrightarrow> waiters_ok w"
proof (induction rule: waiters_reach.induct)
  case New
  then show ?case by (simp add: waiters_ok_def newWaiters_def waiting_def)
qed (auto simp: park_ok wake_def deliver_parked(3) receive_ok unpark_ok)

text \<open>The contract: per queue a number of consumers and of wakes held, never more wakes than consumers.\<close>

definition abs_park :: "nat \<times> nat \<Rightarrow> nat \<times> nat" where "abs_park x = (fst x + 1, snd x)"
definition abs_wake :: "nat \<times> nat \<Rightarrow> nat \<times> nat" where "abs_wake x = (fst x, min (fst x) (snd x + 1))"
definition abs_unpark :: "nat \<times> nat \<Rightarrow> nat \<times> nat" where "abs_unpark x = (fst x - 1, min (fst x - 1) (snd x))"
definition abs_receive :: "nat \<times> nat \<Rightarrow> nat \<times> nat" where "abs_receive x = (fst x, snd x - 1)"

lemma park_parked:
  assumes "waiters_ok w"
  shows "parked (fst (park k w)) k' = (if k' = k then abs_park (parked w k) else parked w k')"
proof -
  have "wt_fresh w \<notin> set (wt_full w)" "wt_full (fst (park k w)) = wt_full w"
    using assms by (auto simp: waiters_ok_def park_def Let_def)
  then show ?thesis by (simp add: parked_def park_waiting abs_park_def)
qed

lemma receive_parked:
  assumes "waiters_ok w" and "ch \<in> set (waiting w k)" and "ch \<in> set (wt_full w)"
  shows "parked (receive ch w) k' = (if k' = k then abs_receive (parked w k) else parked w k')"
proof -
  let ?F = "set (wt_full w)"
  have w: "waiting (receive ch w) j = waiting w j" "set (wt_full (receive ch w)) = ?F - {ch}" for j by (auto simp: receive_def)
  have less: "Suc (List.length (filter (\<lambda>x. x \<in> F - {c}) l)) = List.length (filter (\<lambda>x. x \<in> F) l)" if "distinct l" "c \<in> set l" "c \<in> F" for F l and c :: nat
    using that by (induction l) (auto intro!: arg_cong [of _ _ List.length] filter_cong)
  have same: "filter (\<lambda>x. x \<in> ?F - {ch}) (waiting w k') = filter (\<lambda>x. x \<in> ?F) (waiting w k')" if "k' \<noteq> k"
    using that waiters_only [OF assms(1,2)] by (intro filter_cong) auto
  have d: "distinct (waiting w k)" using assms(1) by (simp add: waiters_ok_def)
  show ?thesis
    using less [OF d assms(2,3), symmetric] same by (simp add: parked_def w abs_receive_def)
qed

lemma unpark_parked:
  assumes ok: "waiters_ok w" and c: "ch \<in> set (waiting w k)"
  shows "parked (unpark k ch w) k' = (if k' = k then abs_unpark (parked w k) else parked w k')"
proof -
  let ?w1 = "w\<lparr>wt_m := AList.update k (remove1 ch (waiting w k)) (wt_m w)\<rparr>" and ?F = "set (wt_full w)"
  note U = unpark_cases [OF ok, of k ch]
  have d: "distinct (waiting w k)" using ok by (simp add: waiters_ok_def)
  have cnt: "List.length (filter (\<lambda>x. x \<in> F) (remove1 a l)) + (if a \<in> F then 1 else 0) = List.length (filter (\<lambda>x. x \<in> F) l)"
    if "a \<in> set l" for F l and a :: nat using that by (induction l) auto
  have len: "List.length (remove1 ch (waiting w k)) = List.length (waiting w k) - 1" using c by (simp add: length_remove1)
  have le: "snd (parked w k) \<le> fst (parked w k)" by (simp add: parked_def)
  show ?thesis
  proof (cases "waiting ?w1 k = []")
    case True
    then have w: "unpark k ch w = ?w1\<lparr>wt_m := AList.delete k (wt_m ?w1), wt_next := AList.delete k (wt_next w)\<rparr>"
      by (simp add: unpark_def Let_def)
    have "waiting (unpark k ch w) j = waiting ?w1 j" "wt_full (unpark k ch w) = wt_full w" for j
      using True unfolding w by (auto simp: waiting_def delete_conv' update_conv')
    with True U(2) len show ?thesis by (auto simp: parked_def abs_unpark_def)
  next
    case False
    show ?thesis
    proof (cases "ch \<in> ?F")
      case True
      let ?w2 = "receive ch ?w1"
      have u: "unpark k ch w = deliver k ?w2" using False True by (simp add: unpark_def Let_def)
      have ok2: "waiters_ok ?w2" by (rule receive_ok [OF U(1)])
      have w2: "waiting ?w2 j = waiting ?w1 j" "set (wt_full ?w2) = ?F - {ch}" for j by (auto simp: receive_def)
      have "filter (\<lambda>x. x \<in> ?F - {ch}) (waiting ?w1 j) = filter (\<lambda>x. x \<in> ?F) (waiting ?w1 j)" for j
        using d U(2) waiters_only [OF ok c, of j] by (intro filter_cong) (auto split: if_splits)
      then have p2: "parked ?w2 j = parked ?w1 j" for j by (simp add: parked_def w2)
      have "0 < snd (parked w k)" using c True by (auto simp: parked_def filter_empty_conv)
      moreover have "parked ?w1 k = (fst (parked w k) - 1, snd (parked w k) - 1)" using cnt [OF c, of ?F] len U(2) True by (simp add: parked_def)
      moreover have "k' \<noteq> k \<Longrightarrow> parked ?w1 k' = parked w k'" using U(2) by (simp add: parked_def)
      ultimately show ?thesis using deliver_parked(1,2) [OF ok2] p2 le by (auto simp: u abs_unpark_def)
    next
      case nf: False
      have u: "unpark k ch w = ?w1" using False nf by (simp add: unpark_def Let_def)
      have "parked ?w1 k = (fst (parked w k) - 1, snd (parked w k))" using cnt [OF c, of ?F] len U(2) nf by (simp add: parked_def)
      moreover have "k' \<noteq> k \<Longrightarrow> parked ?w1 k' = parked w k'" using U(2) by (simp add: parked_def)
      moreover have "snd (parked ?w1 k) \<le> fst (parked ?w1 k)" by (simp add: parked_def)
      ultimately show ?thesis by (auto simp: u abs_unpark_def)
    qed
  qed
qed


text \<open>C31: No wake is stranded. Per queue, the parked consumers and the wakes they hold are a pair of numbers:
  \<open>park\<close> adds a consumer, \<open>wake\<close> adds a wake as long as a consumer is without one, a receive takes
  one, and \<open>unpark\<close> takes the consumer away but passes a wake it did not use on to another one that is
  parked, if any is without. Nothing of another queue changes.\<close>

theorem waiters_refine:
  assumes "waiters_reach w"
  shows "parked (fst (park k w)) k' = (if k' = k then abs_park (parked w k) else parked w k') \<and>
    parked (wake k w) k' = (if k' = k then abs_wake (parked w k) else parked w k') \<and>
    (ch \<in> set (waiting w k) \<and> ch \<in> set (wt_full w) \<longrightarrow> parked (receive ch w) k' = (if k' = k then abs_receive (parked w k) else parked w k')) \<and>
    (ch \<in> set (waiting w k) \<longrightarrow> parked (unpark k ch w) k' = (if k' = k then abs_unpark (parked w k) else parked w k'))"
  using waiters_reach_ok [OF assms]
  by (simp add: park_parked wake_def deliver_parked abs_wake_def receive_parked unpark_parked)

text \<open>Two consumers, one of which is woken and leaves without having looked.\<close>

definition demo_waiters :: waiters where
  "demo_waiters = wake ''o/n'' (fst (park ''o/n'' (fst (park ''o/n'' newWaiters))))"

theorem waiters_refine_witness:
  "parked demo_waiters ''o/n'' = (2, 1) \<and> 0 \<in> set (wt_full demo_waiters) \<and> parked (unpark ''o/n'' 0 demo_waiters) ''o/n'' = (1, 1)
     \<and> parked (receive 0 demo_waiters) ''o/n'' = (2, 0) \<and> parked (wake ''o/n'' demo_waiters) ''o/n'' = (2, 2)
     \<and> parked (fst (park ''o/n'' demo_waiters)) ''o/n'' = (3, 1)"
proof -
  have r: "waiters_reach demo_waiters" unfolding demo_waiters_def by (intro waiters_reach.intros)
  have p: "parked demo_waiters ''o/n'' = (2, 1)" "0 \<in> set (waiting demo_waiters ''o/n'')" "0 \<in> set (wt_full demo_waiters)" by code_simp+
  show ?thesis using waiters_refine [OF r, where k = "''o/n''" and k' = "''o/n''" and ch = 0] p
    by (simp add: abs_park_def abs_wake_def abs_unpark_def abs_receive_def)
qed

end
