(* ===== verification/GwAdmin.thy ===== *)
theory GwAdmin
  imports GwRouting
begin

text \<open>
  \<open>queue-admin-logic.go\<close> and \<open>queue-settings-logic.go\<close> of \<open>backend/gateway/logic\<close>: creating, deleting,
  listing and changing queues.
\<close>

text \<open>
  \<open>%q\<close>, byte by byte: a quote and a backslash are escaped, and so is what ASCII does not print.  A rune outside
  ASCII is kept, as it is when it can be printed; the escapes of the other ones, and of bytes that are
  not UTF-8, are not modelled.
\<close>

definition hex_byte_digits :: "nat \<Rightarrow> string" where
  "hex_byte_digits n = [''0123456789abcdef'' ! (n div 16), ''0123456789abcdef'' ! (n mod 16)]"

definition quote_char :: "char \<Rightarrow> string" where
  "quote_char c =
     (let n = of_char c :: nat
      in if c = CHR 0x22 \<or> c = CHR 0x5C then [CHR 0x5C, c]
         else if 32 \<le> n \<and> n \<noteq> 127 then [c]
         else CHR 0x5C # (if n = 7 then ''a'' else if n = 8 then ''b'' else if n = 9 then ''t'' else if n = 10 then ''n''
                          else if n = 11 then ''v'' else if n = 12 then ''f'' else if n = 13 then ''r'' else CHR ''x'' # hex_byte_digits n))"

definition quote :: "string \<Rightarrow> string" where
  "quote s = CHR 0x22 # concat (map quote_char s) @ [CHR 0x22]"

definition dlq_missing :: "string \<Rightarrow> err" where
  "dlq_missing d = Invalid (''dead-letter queue '' @ quote d @ '' does not exist; create it first'')"

subsection \<open>Creating a queue\<close>

text \<open>The dead-letter queue named by the settings has to exist and to stay.\<close>

definition check_dlq :: "string \<Rightarrow> queueSettings \<Rightarrow> 'n world \<Rightarrow> 'n world \<times> (err + unit)" where
  "check_dlq org s w =
     (let d = gs_DeadLetterQueue s
      in if d = [] then (w, Inr ())
         else case config_for org d w of
                (w, Inl e) \<Rightarrow> (w, Inl (if CodeOf e = CodeNotFound then dlq_missing d else e))
              | (w, Inr c) \<Rightarrow>
                  (if qc_State c = StateDeleting
                   then (w, Inl (Invalid (''dead-letter queue '' @ quote d @ '' is being deleted''))) else (w, Inr ())))"

text \<open>Each slot of a distributed queue is placed on its own; without members the loop stops.\<close>

fun place_slots :: "string \<Rightarrow> string \<Rightarrow> int \<Rightarrow> nat list \<Rightarrow> 'n world \<Rightarrow> 'n world \<times> (err + unit)" where
  "place_slots org nm width [] w = (w, Inr ())"
| "place_slots org nm width (s # ss) w =
     (case assignOwner w org nm (int s) True width of
        Inl e \<Rightarrow> (w, Inr ())
      | Inr m \<Rightarrow>
          (case db (quietly (SetOwner_slot org nm (of_nat s) (mem_id m) 1)) w of
             (w, Inl e) \<Rightarrow> (w, Inl (Internal ''place slot'' e))
           | (w, Inr _) \<Rightarrow> place_slots org nm width ss w))"

definition create_cfg :: "createQueueRequest \<Rightarrow> string \<Rightarrow> queueConfig" where
  "create_cfg req owner = \<lparr>qc_Org = cr_Org req, qc_Name = cr_Name req, qc_Settings = cr_ParseQueueSettings req,
     qc_Distributed = cr_Distributed req, qc_State = StateActive, qc_OwnerNode = owner, qc_Generation = 0, qc_SlotOwners = [],
     qc_CreatedAt = 0, qc_UpdatedAt = 0\<rparr>"

definition CreateQueue :: "createQueueRequest \<Rightarrow> 'n world \<Rightarrow> 'n world \<times> (err + createQueueResponse)" where
  "CreateQueue req w =
     (let settings = cr_ParseQueueSettings req
      in case check_dlq (cr_Org req) settings w of
           (w, Inl e) \<Rightarrow> (w, Inl e)
         | (w, Inr _) \<Rightarrow>
             (let owner = (if cr_Distributed req then []
                           else case assignOwner w (cr_Org req) (cr_Name req) 0 False 0 of Inl _ \<Rightarrow> [] | Inr m \<Rightarrow> mem_id m)
              in case Create (create_cfg req owner) w of
                   (w, Inl e) \<Rightarrow> (w, Inl (Internal ''create queue'' e))
                 | (w, Inr (cfg, created)) \<Rightarrow>
                     (let finish = (\<lambda>cfg w.
                            if \<not> created \<and> qc_Settings cfg \<noteq> settings
                            then (w, Inl (New_error CodeConflict ''queue exists with different settings''))
                            else (writeCache (queueCacheKey (qc_Org cfg) (qc_Name cfg)) (g_CacheTTL w) (C_Queue cfg) w,
                                  Inr \<lparr>cs_Name = qc_Name cfg, cs_Created = created, cs_OwnerNode = qc_OwnerNode cfg\<rparr>))
                      in if created \<and> cr_Distributed req
                         then (case place_slots (cr_Org req) (cr_Name req) (gs_PlacementWidth settings) [0..<SlotsPerDistributedQueue] w of
                                 (w, Inl e) \<Rightarrow> (w, Inl e)
                               | (w, Inr _) \<Rightarrow>
                                   (case loadConfig (cr_Org req) (cr_Name req) w of
                                      (w, Inl e) \<Rightarrow> (w, Inl (Internal ''reload queue'' e))
                                    | (w, Inr cfg) \<Rightarrow> finish cfg w))
                         else finish cfg w)))"

subsection \<open>Deleting a queue\<close>

definition deadLetterUsers :: "string \<Rightarrow> string \<Rightarrow> 'n world \<Rightarrow> 'n world \<times> (err + string list)" where
  "deadLetterUsers org nm w =
     (case db (asking (\<lambda>t. Inr (ListByOrg (g_coll w) org t))) w of
        (w, Inl e) \<Rightarrow> (w, Inl (Internal ''list queues'' e))
      | (w, Inr cfgs) \<Rightarrow>
          (w, Inr (sort (map qc_Name (filter (\<lambda>c. qc_Name c \<noteq> nm \<and> gs_DeadLetterQueue (qc_Settings c) = nm) cfgs)))))"

fun join :: "string \<Rightarrow> string list \<Rightarrow> string" where
  "join sep [] = []"
| "join sep [x] = x"
| "join sep (x # xs) = x @ sep @ join sep xs"

definition DeleteQueue :: "'n nodeAPI \<Rightarrow> string \<Rightarrow> string \<Rightarrow> 'n world \<Rightarrow> 'n world \<times> (err + unit)" where
  "DeleteQueue api org nm w =
     (case config_for org nm w of
        (w, Inl e) \<Rightarrow> (w, Inl e)
      | (w, Inr cfg) \<Rightarrow>
     (case deadLetterUsers org nm w of
        (w, Inl e) \<Rightarrow> (w, Inl e)
      | (w, Inr users) \<Rightarrow>
     (if users \<noteq> [] then (w, Inl (New_error CodeConflict (quote nm @ '' is the dead-letter queue for '' @ join '', '' users @ ''; point them elsewhere first'')))
      else case db (\<lambda>t. checked (SetState (g_holder w) org nm StateDeleting (g_now w) t)) w of
        (w, Inl e) \<Rightarrow> (w, Inl (Internal ''mark deleting'' e))
      | (w, Inr _) \<Rightarrow>
          (let w = evictCache (queueCacheKey org nm) w;
               w = (case ownerAddr cfg 0 w of
                      (w, Inr (_, addr)) \<Rightarrow>
                        (if addr \<noteq> [] then fst (node_call addr (\<lambda>cs addr dial net n. gw_Drop cs addr dial net (api_Drop api) (Spec cfg) n) w) else w)
                    | (w, Inl _) \<Rightarrow> w)
           in case db (quietly (DeleteByQueue org nm)) w of
                (w, Inl e) \<Rightarrow> (w, Inl (Internal ''delete slot placement'' e))
              | (w, Inr _) \<Rightarrow>
                  (case db (quietly (Delete_row org nm)) w of
                     (w, Inl e) \<Rightarrow> (w, Inl (Internal ''delete queue'' e))
                   | (w, Inr _) \<Rightarrow> (evictCache (queueCacheKey org nm) w, Inr ()))))))"

subsection \<open>Listing\<close>

definition seconds :: "duration \<Rightarrow> rat" where
  "seconds d = of_int d / of_int second"

definition summary_of :: "'n world \<Rightarrow> queueConfig \<Rightarrow> queueSummary" where
  "summary_of w c =
     (let s = \<lparr>qu_Name = qc_Name c, qu_Distributed = qc_Distributed c, qu_PlacementWidth = gs_PlacementWidth (qc_Settings c),
               qu_State = qc_State c, qu_OwnerNode = qc_OwnerNode c, qu_Settings = qc_Settings c, qu_Messages = 0, qu_InFlight = 0, qu_OldestAge = 0\<rparr>
      in case readCache w (statsCacheKey (qc_Org c) (qc_Name c)) of
           Some (C_Stats x) \<Rightarrow> s\<lparr>qu_Messages := qs_Ready x ! 0 + qs_Ready x ! 1 + qs_Ready x ! 2, qu_InFlight := qs_InFlight x,
             qu_OldestAge := seconds (qs_OldestAge x)\<rparr>
         | _ \<Rightarrow> s)"

definition ListQueues :: "string \<Rightarrow> 'n world \<Rightarrow> 'n world \<times> (err + queueSummary list)" where
  "ListQueues org w =
     (case db (asking (\<lambda>t. Inr (ListByOrg (g_coll w) org t))) w of
        (w, Inl e) \<Rightarrow> (w, Inl (Internal ''list queues'' e))
      | (w, Inr cfgs) \<Rightarrow> (w, Inr (map (summary_of w) cfgs)))"

subsection \<open>Changing the settings\<close>

definition UpdateQueue :: "updateQueueRequest \<Rightarrow> 'n world \<Rightarrow> 'n world \<times> (err + queueSummary)" where
  "UpdateQueue req w =
     (case config_for (ur_Org req) (ur_Name req) w of
        (w, Inl e) \<Rightarrow> (w, Inl e)
      | (w, Inr cfg) \<Rightarrow>
     (if qc_State cfg = StateDeleting then (w, Inl (Invalid ''queue is being deleted''))
      else
        let settings = (ur_ParseQueueSettings req)\<lparr>gs_PlacementWidth := gs_PlacementWidth (qc_Settings cfg)\<rparr>;
            d = gs_DeadLetterQueue settings
        in case (if d \<noteq> [] \<and> d \<noteq> gs_DeadLetterQueue (qc_Settings cfg)
                 then (case config_for (ur_Org req) d w of
                         (w, Inl e) \<Rightarrow> (w, Inl (if CodeOf e = CodeNotFound then dlq_missing d else e))
                       | (w, Inr _) \<Rightarrow> (w, Inr ()))
                 else (w, Inr ())) of
             (w, Inl e) \<Rightarrow> (w, Inl e)
           | (w, Inr _) \<Rightarrow>
               (case db (\<lambda>t. checked (UpdateSettings (ur_Org req) (ur_Name req) settings (g_now w) t)) w of
                  (w, Inl e) \<Rightarrow> (w, Inl (Internal ''update queue'' e))
                | (w, Inr _) \<Rightarrow>
                    (evictCache (queueCacheKey (ur_Org req) (ur_Name req)) w,
                     Inr \<lparr>qu_Name = qc_Name cfg, qu_Distributed = qc_Distributed cfg, qu_PlacementWidth = gs_PlacementWidth settings,
                          qu_State = qc_State cfg, qu_OwnerNode = qc_OwnerNode cfg, qu_Settings = settings,
                          qu_Messages = 0, qu_InFlight = 0, qu_OldestAge = 0\<rparr>))))"

end
