(* ===== verification/GwFrame.thy ===== *)
theory GwFrame
  imports GwHost GwReconcile GwAdmin
begin

text \<open>
  What the gateway's operations leave of the nodes: a reflexive and transitive relation that every
  handler respects holds between a node before and after.
\<close>

definition nodes_rel :: "('n \<Rightarrow> 'n \<Rightarrow> bool) \<Rightarrow> 'n world \<Rightarrow> 'n world \<Rightarrow> bool" where
  "nodes_rel Q w w' \<longleftrightarrow> (\<forall>addr n. node_at w addr = Some n \<longrightarrow> (\<exists>n'. node_at w' addr = Some n' \<and> Q n n'))"

lemma nodes_rel_same: "reflp Q \<Longrightarrow> g_nodes w' = g_nodes w \<Longrightarrow> nodes_rel Q w w'"
  by (auto simp: nodes_rel_def node_at_def dest: reflpD)

lemma nodes_rel_trans: "transp Q \<Longrightarrow> nodes_rel Q w w' \<Longrightarrow> nodes_rel Q w' w'' \<Longrightarrow> nodes_rel Q w w''"
  unfolding nodes_rel_def by (metis transpD)

lemma reached_rel:
  assumes "reached w addr srv f w' r" and "reflp Q" and "\<And>n. Q n (fst (srv n))"
  shows "nodes_rel Q w w'"
  unfolding nodes_rel_def
proof (intro allI impI)
  fix x n assume n: "node_at w x = Some n"
  show "\<exists>n'. node_at w' x = Some n' \<and> Q n n'"
  proof (cases "x = addr")
    case True
    with n reachedD(4) [OF assms(1)] assms(2,3) show ?thesis by (metis reflpD)
  next
    case False
    with n reachedD(3) [OF assms(1)] assms(2) show ?thesis by (auto dest: reflpD)
  qed
qed

lemma node_call_rel:
  assumes "reflp Q" and "\<And>n. Q n (fst (srv n))"
  shows "nodes_rel Q w (fst (node_call addr (\<lambda>cs addr dial net n. rpc_map f (rpc cs addr dial net srv n)) w))"
  using reached_rel [OF node_call_effect assms] by (metis prod.collapse)

subsection \<open>What leaves the nodes alone\<close>

lemma db_nodes [simp]: "g_nodes (fst (db stmt w)) = g_nodes w"
  by (rule db_effect(1)) (rule prod.collapse [symmetric])

lemma db_nodes' [simp]: "db stmt w = (w', r) \<Longrightarrow> g_nodes w' = g_nodes w"
  by (rule db_effect(1))

lemma evictCache_nodes [simp]: "g_nodes (evictCache k w) = g_nodes w" "g_db (evictCache k w) = g_db w" "g_members (evictCache k w) = g_members w"
  by (simp_all add: evictCache_def)

lemma writeCache_nodes [simp]: "g_nodes (writeCache k ttl v w) = g_nodes w" "g_db (writeCache k ttl v w) = g_db w"
    "g_members (writeCache k ttl v w) = g_members w"
  by (simp_all add: writeCache_def)

lemma loadConfig_nodes: "loadConfig org nm w = (w', r) \<Longrightarrow> g_nodes w' = g_nodes w"
  by (auto simp: loadConfig_def split: prod.splits sum.splits if_splits)

lemma fetchViaCache_nodes:
  assumes "\<And>w w' r. source w = (w', r) \<Longrightarrow> g_nodes w' = g_nodes w" and "fetchViaCache k ttl source w = (w', r)"
  shows "g_nodes w' = g_nodes w"
  using assms(2)
  by (auto simp: fetchViaCache_def Let_def split: option.splits envelope.splits cached.splits prod.splits sum.splits if_splits dest!: assms(1))

lemma config_for_nodes: "config_for org nm w = (w', r) \<Longrightarrow> g_nodes w' = g_nodes w"
  unfolding config_for_def by (rule fetchViaCache_nodes) (rule loadConfig_nodes)

lemma ownerAddr_nodes: "ownerAddr cfg slot w = (w', r) \<Longrightarrow> g_nodes w' = g_nodes w"
  by (auto simp: ownerAddr_def record_owner_def Let_def split: sum.splits prod.splits if_splits)

text \<open>
  What every part of \<open>withOwner\<close> respects, it respects.  \<open>R\<close> is reflexive and transitive, here and below.
\<close>

lemma withOwner_loop_rel:
  assumes refl: "reflp R" and trans: "transp R"
    and own: "\<And>cfg w. R w (fst (ownerAddr cfg slot w))" and run: "\<And>addr s w. R w (fst (run addr s w))"
    and later: "\<And>w t k. R w (evictCache k (w\<lparr>g_now := t\<rparr>))" and conf: "\<And>org nm w. R w (fst (config_for org nm w))"
  shows "R w (fst (withOwner_loop run cancelled slot attempt cfg w))"
proof (induction "List.length moveBackoff + 1 - attempt" arbitrary: attempt cfg w rule: less_induct)
  case less
  show ?case
  proof (cases "attempt < List.length moveBackoff + 1")
    case False
    then show ?thesis using refl by (subst withOwner_loop.simps) (simp add: reflpD)
  next
    case True
    obtain w1 o1 where o: "ownerAddr cfg slot w = (w1, o1)" by fastforce
    have l1: "R w w1" using own o by (metis fst_conv)
    show ?thesis
    proof (cases o1)
      case (Inl e)
      then show ?thesis using o l1 True by (subst withOwner_loop.simps) simp
    next
      case (Inr ia)
      obtain i addr where a: "o1 = Inr (i, addr)" using Inr by (cases ia) simp
      obtain w2 r2 where c: "run addr (Spec cfg) w1 = (w2, r2)" by fastforce
      have l2: "R w w2" using transpD [OF trans l1] run c by (metis fst_conv)
      let ?w3 = "evictCache (queueCacheKey (qc_Org cfg) (qc_Name cfg)) (w2\<lparr>g_now := g_now w2 + moveBackoff ! attempt\<rparr>)"
      obtain w4 r4 where f: "config_for (qc_Org cfg) (qc_Name cfg) ?w3 = (w4, r4)" by fastforce
      have l4: "R w w4" using transpD [OF trans transpD [OF trans l2 later] conf] f by (metis fst_conv)
      have l5: "R w (fst (withOwner_loop run cancelled slot (attempt + 1) cfg' w4))" for cfg'
        by (rule transpD [OF trans l4 less.hyps]) (use True in simp)
      have e: "withOwner_loop run cancelled slot attempt cfg w =
        (case r2 of Inr r \<Rightarrow> (w2, Inr r)
         | Inl e \<Rightarrow> if CodeOf e \<noteq> CodeMoved \<or> attempt = List.length moveBackoff then (w2, Inl e)
             else if cancelled attempt then (w2, Inl ctx_err)
             else case r4 of Inl e \<Rightarrow> (w4, Inl e) | Inr cfg' \<Rightarrow> withOwner_loop run cancelled slot (attempt + 1) cfg' w4)"
        unfolding withOwner_loop.simps [of run cancelled slot attempt cfg w] o a
        using True by (simp add: c f Let_def split: sum.split)
      show ?thesis unfolding e using l2 l4 l5 by (simp split: sum.split)
    qed
  qed
qed

lemma withOwner_nodes:
  assumes "reflp Q" and "transp Q" and "\<And>addr s w. nodes_rel Q w (fst (run addr s w))"
  shows "nodes_rel Q w (fst (withOwner cancelled cfg slot run w))"
  unfolding withOwner_def
proof (rule withOwner_loop_rel)
  show "reflp (nodes_rel Q)" using nodes_rel_same [OF assms(1)] by (simp add: reflpI)
  show "transp (nodes_rel Q)" using nodes_rel_trans [OF assms(2)] by (blast intro: transpI)
  show "nodes_rel Q w (fst (ownerAddr cfg slot w))" for cfg w
    by (rule nodes_rel_same [OF assms(1) ownerAddr_nodes]) (rule prod.collapse [symmetric])
  show "nodes_rel Q w (fst (config_for org nm w))" for org nm w
    by (rule nodes_rel_same [OF assms(1) config_for_nodes]) (rule prod.collapse [symmetric])
qed (use assms(3) nodes_rel_same [OF assms(1)] in simp_all)

lemma Enqueue_gw_nodes:
  assumes "reflp Q" and "transp Q" and "\<And>req n. Q n (fst (api_Enqueue api req n))"
  shows "nodes_rel Q w (fst (Enqueue_gw api cancelled req w))"
proof -
  obtain w1 r1 where c: "config_for (ge_Org req) (ge_Queue req) w = (w1, r1)" by fastforce
  have l1: "nodes_rel Q w w1" by (rule nodes_rel_same [OF assms(1) config_for_nodes [OF c]])
  have run: "nodes_rel Q w (fst (node_call addr (\<lambda>cs addr dial net n. gw_Enqueue cs addr dial net (api_Enqueue api) (x s) n) w))" for addr s w and x :: "queueSpec \<Rightarrow> nodeEnqueue"
    unfolding gw_Enqueue_def by (rule node_call_rel [OF assms(1)]) (rule assms(3))
  show ?thesis
  proof (cases r1)
    case (Inl e)
    then show ?thesis using c l1 by (simp add: Enqueue_gw_def)
  next
    case (Inr cfg)
    let ?s = "slotOf (ge_Org req) (ge_Queue req) (ge_GroupID req) (slotCountFor (qc_Distributed cfg)) (g_now w1)"
    define send where "send = (\<lambda>addr spec. node_call addr (\<lambda>cs addr dial net n. gw_Enqueue cs addr dial net (api_Enqueue api)
      \<lparr>er_Spec = spec, er_Slot = Some ?s, er_Payload = ge_Body req, er_Priority = ge_PriorityValue req,
       er_GroupID = ge_GroupID req, er_TTL = ge_TTLFor req, er_DeliverAfter = ge_DeliverIn req\<rparr> n))"
    obtain w2 r2 where o: "withOwner cancelled cfg (uint ?s) send w1 = (w2, r2)" by fastforce
    have "nodes_rel Q w1 (fst (withOwner cancelled cfg (uint ?s) send w1))"
      by (rule withOwner_nodes [OF assms(1,2)]) (simp only: send_def, rule run)
    then have "nodes_rel Q w w2" using nodes_rel_trans [OF assms(2) l1] o by simp
    then show ?thesis using c Inr l1 o unfolding send_def by (cases r2) (simp_all add: Enqueue_gw_def Let_def)
  qed
qed

end
