(* ===== verification/GwDeadLetter.thy ===== *)
theory GwDeadLetter
  imports GwFrame
begin

text \<open>
  \<open>deadletter-logic.go\<close> of \<open>backend/gateway/logic\<close>: what the nodes have given up on is moved into the
  queues it is to fail into.  The ticker of \<open>RunDeadLetterRouter\<close> is not modelled; a round is
  \<open>RouteDeadLetters\<close>.
\<close>

datatype deadLetterOutcome = deadLetterMoved | deadLetterRetry | deadLetterDrop

definition drainEvery :: duration where
  "drainEvery = 5 * second"

definition call_DeadLetters :: "'n nodeAPI \<Rightarrow> string \<Rightarrow> 'n world \<Rightarrow> 'n world \<times> (err + gwDeadLetter list)" where
  "call_DeadLetters api addr w = node_call addr (\<lambda>cs addr dial net n. gw_DeadLetters cs addr dial net (api_DeadLetters api) n) w"

definition call_AckDeadLetters :: "'n nodeAPI \<Rightarrow> string \<Rightarrow> string list \<Rightarrow> 'n world \<Rightarrow> 'n world \<times> (err + unit)" where
  "call_AckDeadLetters api addr ids w = node_call addr (\<lambda>cs addr dial net n. gw_AckDeadLetters cs addr dial net (api_AckDeadLetters api) ids n) w"

definition deliverDeadLetter :: "'n nodeAPI \<Rightarrow> (nat \<Rightarrow> bool) \<Rightarrow> gwDeadLetter \<Rightarrow> 'n world \<Rightarrow> 'n world \<times> deadLetterOutcome" where
  "deliverDeadLetter api cancelled d w =
     (case config_for (gd_Org d) (gd_Name d) w of
        (w, Inl e) \<Rightarrow> (w, if CodeOf e = CodeNotFound then deadLetterDrop else deadLetterRetry)
      | (w, Inr cfg) \<Rightarrow>
          (let target = gs_DeadLetterQueue (qc_Settings cfg)
           in if target = [] then (w, deadLetterDrop)
              else case Enqueue_gw api cancelled
                     \<lparr>ge_Org = gd_Org d, ge_Queue = target, ge_GroupID = dm_GroupID (gd_Message d), ge_Body = dm_Payload (gd_Message d),
                      ge_PriorityValue = dm_Priority (gd_Message d), ge_TTLFor = 0, ge_DeliverIn = 0\<rparr> w of
                     (w, Inl e) \<Rightarrow> (w, deadLetterRetry)
                   | (w, Inr _) \<Rightarrow> (w, deadLetterMoved)))"


text \<open>The items of one node, with what became of each.\<close>

fun deliver_letters :: "'n nodeAPI \<Rightarrow> (nat \<Rightarrow> bool) \<Rightarrow> gwDeadLetter list \<Rightarrow> 'n world \<Rightarrow> 'n world \<times> (gwDeadLetter \<times> deadLetterOutcome) list" where
  "deliver_letters api cancelled [] w = (w, [])"
| "deliver_letters api cancelled (d # ds) w =
     (let (w, x) = deliverDeadLetter api cancelled d w; (w, xs) = deliver_letters api cancelled ds w in (w, (d, x) # xs))"

definition settled_ids :: "(gwDeadLetter \<times> deadLetterOutcome) list \<Rightarrow> string list" where
  "settled_ids xs = map (\<lambda>(d, _). dm_MessageID (gd_Message d)) (filter (\<lambda>(_, x). x = deadLetterMoved \<or> x = deadLetterDrop) xs)"

definition route_member :: "'n nodeAPI \<Rightarrow> (nat \<Rightarrow> bool) \<Rightarrow> member \<Rightarrow> 'n world \<Rightarrow> 'n world \<times> (gwDeadLetter \<times> deadLetterOutcome) list" where
  "route_member api cancelled m w =
     (case call_DeadLetters api (mem_addr m) w of
        (w, Inl e) \<Rightarrow> (w, [])
      | (w, Inr items) \<Rightarrow>
          (if items = [] then (w, [])
           else let (w, xs) = deliver_letters api cancelled items w; ids = settled_ids xs
                in if ids = [] then (w, xs) else (fst (call_AckDeadLetters api (mem_addr m) ids w), xs)))"

text \<open>A round; the outcomes are what it logs.\<close>

fun route_members :: "'n nodeAPI \<Rightarrow> (nat \<Rightarrow> bool) \<Rightarrow> member list \<Rightarrow> 'n world \<Rightarrow> 'n world \<times> (gwDeadLetter \<times> deadLetterOutcome) list" where
  "route_members api cancelled [] w = (w, [])"
| "route_members api cancelled (m # ms) w =
     (let (w, xs) = route_member api cancelled m w; (w, ys) = route_members api cancelled ms w in (w, xs @ ys))"

definition RouteDeadLetters :: "'n nodeAPI \<Rightarrow> (nat \<Rightarrow> bool) \<Rightarrow> 'n world \<Rightarrow> 'n world \<times> (gwDeadLetter \<times> deadLetterOutcome) list" where
  "RouteDeadLetters api cancelled w = route_members api cancelled (g_members w) w"

subsection \<open>A dead letter stays until it is settled\<close>

text \<open>What a node has given up on: queue and message ID.\<close>

definition letters :: "host \<Rightarrow> (queueKey \<times> string) set" where
  "letters h = {(k, i). \<exists>lq. lookup (h_node h) k = Some lq \<and> i \<in> fst ` set (lq_dl lq)}"

text \<open>A map has every key once.\<close>

definition keys_once :: "host \<Rightarrow> bool" where
  "keys_once h \<longleftrightarrow> distinct (map fst (n_queues (h_node h)))"

definition keeps_letters :: "string set \<Rightarrow> host \<Rightarrow> host \<Rightarrow> bool" where
  "keeps_letters X h h' \<longleftrightarrow> (keys_once h \<longrightarrow> keys_once h' \<and> {x \<in> letters h. snd x \<notin> X} \<subseteq> letters h')"

lemma keeps_letters_refl: "reflp (keeps_letters X)"
  by (auto simp: keeps_letters_def intro: reflpI)

lemma keeps_letters_trans: "transp (keeps_letters X)"
  by (rule transpI) (auto simp: keeps_letters_def)

lemma keys_once_live: "distinct (map fst (n_queues n)) \<Longrightarrow> distinct (map fst (n_queues (set_live k lq n)))"
  by (simp add: set_live_def distinct_update)

lemma keys_once_same [simp]: "n_queues (set_disk k d n) = n_queues n" "n_queues (notifyWork k n) = n_queues n"
  by (simp_all add: set_disk_def notifyWork_def)

lemma queueFor_letters:
  assumes "queueFor n spec e = (n', r)" and "lookup n k = Some lq"
  shows "\<exists>lq'. lookup n' k = Some lq' \<and> lq_dl lq' = lq_dl lq"
  using assms by (auto simp: queueFor_def Let_def split: option.splits if_splits)

lemma enqueue_journaled_letters:
  assumes "enqueue_journaled render n k lq i x newid now wrote flushed = (n', r)" and "lookup n k = Some lq" and "lookup n k' = Some l"
  shows "\<exists>l'. lookup n' k' = Some l' \<and> lq_dl l' = lq_dl l"
  using assms by (auto simp: enqueue_journaled_def Let_def split: prod.splits sum.splits if_splits)

lemma Enqueue_node_letters:
  assumes "lookup n k' = Some l"
  shows "\<exists>l'. lookup (fst (Enqueue_node render n req e newid now wrote flushed)) k' = Some l' \<and> lq_dl l' = lq_dl l"
proof -
  let ?k = "spec_Key (er_Spec req)"
  obtain n1 r1 where q: "queueFor n (er_Spec req) e = (n1, r1)" by fastforce
  obtain l1 where l1: "lookup n1 k' = Some l1" "lq_dl l1 = lq_dl l" using queueFor_letters [OF q assms] by blast
  show ?thesis
  proof (cases "isl r1 \<or> er_Slot req = None")
    case True
    then show ?thesis using q l1 by (cases r1) (auto simp: Enqueue_node_def Let_def split: option.split)
  next
    case False
    then obtain lq i where r: "r1 = Inr lq" "er_Slot req = Some i" by (cases r1) auto
    have k: "lookup n1 ?k = Some lq" using q r by (auto simp: queueFor_def Let_def split: option.splits)
    obtain n2 r2 where j: "enqueue_journaled render n1 ?k lq i \<lparr>eo_Payload = er_Payload req, eo_Priority = er_Priority req, eo_GroupID = er_GroupID req,
        eo_TTL = er_TTL req, eo_DeliverAfter = er_DeliverAfter req\<rparr> newid now wrote flushed = (n2, r2)" by fastforce
    obtain l2 where l2: "lookup n2 k' = Some l2" "lq_dl l2 = lq_dl l1" using enqueue_journaled_letters [OF j k l1(1)] by blast
    have "lookup (notifyWork ?k n2) k' = Some l2" using l2 by (simp add: notifyWork_def lookup_def)
    then show ?thesis using q r j l1 l2 by (auto simp: Enqueue_node_def Let_def split: sum.split engine_error.split)
  qed
qed

lemma Enqueue_node_keys:
  assumes "distinct (map fst (n_queues n))"
  shows "distinct (map fst (n_queues (fst (Enqueue_node render n req e newid now wrote flushed))))"
proof -
  let ?k = "spec_Key (er_Spec req)"
  obtain n1 r1 where q: "queueFor n (er_Spec req) e = (n1, r1)" by fastforce
  have d: "distinct (map fst (n_queues n1))"
    using q assms by (auto simp: queueFor_def Let_def keys_once_live simp del: map_map split: option.splits)
  show ?thesis
  proof (cases "isl r1 \<or> er_Slot req = None")
    case True
    then show ?thesis using q d by (cases r1) (auto simp: Enqueue_node_def Let_def split: option.split)
  next
    case False
    then obtain lq i where r: "r1 = Inr lq" "er_Slot req = Some i" by (cases r1) auto
    obtain n2 r2 where j: "enqueue_journaled render n1 ?k lq i \<lparr>eo_Payload = er_Payload req, eo_Priority = er_Priority req, eo_GroupID = er_GroupID req,
        eo_TTL = er_TTL req, eo_DeliverAfter = er_DeliverAfter req\<rparr> newid now wrote flushed = (n2, r2)" by fastforce
    have "distinct (map fst (n_queues n2))"
      using j d by (auto simp: enqueue_journaled_def Let_def keys_once_live simp del: map_map split: prod.splits sum.splits)
    then show ?thesis using q r j by (auto simp: Enqueue_node_def Let_def split: sum.split engine_error.split)
  qed
qed

lemma enqueue_keeps_letters: "keeps_letters X h (fst (api_Enqueue (host_api render) req h))"
proof -
  let ?e = "h_env h (h_tick h)"
  let ?r = "\<lparr>er_Spec = specFrom (pb_e_spec req), er_Slot = map_option ucast (pb_e_slot req), er_Payload = pb_e_payload req,
    er_Priority = ucast (pb_e_priority req), er_GroupID = pb_e_group_id req, er_TTL = pb_e_ttl_ns req, er_DeliverAfter = pb_e_deliver_after_ns req\<rparr>"
  let ?o = "Enqueue_node render (h_node h) ?r (e_open ?e) (e_newid ?e) (e_now ?e) (e_wrote ?e) (e_flushed ?e)"
  have n: "h_node (fst (api_Enqueue (host_api render) req h)) = fst ?o"
    by (simp add: host_api_def on_host_def srv_Enqueue_def Let_def split: prod.split sum.split)
  have "letters h \<subseteq> letters (fst (api_Enqueue (host_api render) req h))"
  proof
    fix x assume "x \<in> letters h"
    then obtain k i lq where x: "x = (k, i)" "lookup (h_node h) k = Some lq" "i \<in> fst ` set (lq_dl lq)" by (auto simp: letters_def)
    obtain l' where "lookup (fst ?o) k = Some l'" "lq_dl l' = lq_dl lq" using Enqueue_node_letters [OF x(2)] by blast
    then show "x \<in> letters (fst (api_Enqueue (host_api render) req h))" using x n by (auto simp: letters_def)
  qed
  then show ?thesis using Enqueue_node_keys [of "h_node h"] n by (auto simp: keeps_letters_def keys_once_def)
qed

text \<open>Confirming some messages drops only those.\<close>

lemma ack_queues_letters:
  assumes "distinct (map fst xs)" and "\<forall>x \<in> set xs. lookup n (fst x) = Some (snd x)" and "distinct (map fst (n_queues n))"
    and "lookup n k = Some l" and "i \<in> fst ` set (lq_dl l)" and "i \<notin> set ids"
  shows "distinct (map fst (n_queues (fold (ack_dead_queue render ids) xs n))) \<and>
    (\<exists>l'. lookup (fold (ack_dead_queue render ids) xs n) k = Some l' \<and> i \<in> fst ` set (lq_dl l'))"
  using assms
proof (induction xs arbitrary: n l)
  case (Cons x xs)
  let ?n = "ack_dead_queue render ids x n"
  obtain k0 l0 where x: "x = (k0, l0)" by fastforce
  have l0: "lookup n k0 = Some l0" using Cons.prems(2) by (simp add: x)
  have d: "distinct (map fst (n_queues ?n))" using Cons.prems(3) by (simp add: x ack_dead_queue_def Let_def keys_once_live del: map_map)
  have r: "\<forall>y \<in> set xs. lookup ?n (fst y) = Some (snd y)"
  proof
    fix y assume y: "y \<in> set xs"
    then have "fst y \<noteq> k0" using Cons.prems(1) x by auto
    then show "lookup ?n (fst y) = Some (snd y)" using Cons.prems(2) y by (simp add: x ack_dead_queue_def Let_def)
  qed
  have "\<exists>l'. lookup ?n k = Some l' \<and> i \<in> fst ` set (lq_dl l')"
  proof (cases "k = k0")
    case True
    then have "l = l0" using Cons.prems(4) l0 by simp
    with True Cons.prems(5,6) show ?thesis by (force simp: x ack_dead_queue_def Let_def)
  next
    case False
    with Cons.prems(4,5) show ?thesis by (simp add: x ack_dead_queue_def Let_def)
  qed
  then obtain l' where "lookup ?n k = Some l'" "i \<in> fst ` set (lq_dl l')" by blast
  from Cons.IH [OF _ r d this Cons.prems(6)] Cons.prems(1) show ?case by simp
qed simp

lemma ack_keys:
  "distinct (map fst (n_queues n)) \<Longrightarrow> distinct (map fst (n_queues (fold (ack_dead_queue render ids) xs n)))"
  by (induction xs arbitrary: n) (simp_all add: ack_dead_queue_def Let_def keys_once_live case_prod_beta del: map_map)

lemma ack_keeps_letters: "keeps_letters (set ids) h (fst (api_AckDeadLetters (host_api render) ids h))"
  unfolding keeps_letters_def
proof (intro impI conjI subsetI)
  let ?h = "fst (api_AckDeadLetters (host_api render) ids h)"
  have n: "h_node ?h = fold (ack_dead_queue render ids) (n_queues (h_node h)) (h_node h)"
    by (simp add: host_api_def on_host_def srv_AckDeadLetters_def AckDeadLetters_def)
  assume k: "keys_once h"
  then show "keys_once ?h" by (simp add: keys_once_def n ack_keys)
  have all: "\<forall>x \<in> set (n_queues (h_node h)). lookup (h_node h) (fst x) = Some (snd x)"
    using k by (auto simp: keys_once_def lookup_def)
  fix x assume "x \<in> {x \<in> letters h. snd x \<notin> set ids}"
  then obtain k' i l where "x = (k', i)" "lookup (h_node h) k' = Some l" "i \<in> fst ` set (lq_dl l)" "i \<notin> set ids" by (force simp: letters_def)
  with ack_queues_letters [OF k [unfolded keys_once_def] all k [unfolded keys_once_def] this(2-4)]
  show "x \<in> letters ?h" by (simp add: letters_def n)
qed

lemma letters_calls:
  "nodes_rel (keeps_letters {}) w (fst (deliverDeadLetter (host_api render) cancelled d w))"
  "nodes_rel (keeps_letters {}) w (fst (call_DeadLetters (host_api render) addr w))"
  "nodes_rel (keeps_letters (set ids)) w (fst (call_AckDeadLetters (host_api render) addr ids w))"
proof -
  obtain w1 r1 where c: "config_for (gd_Org d) (gd_Name d) w = (w1, r1)" by fastforce
  have l1: "nodes_rel (keeps_letters {}) w w1" by (rule nodes_rel_same [OF keeps_letters_refl config_for_nodes [OF c]])
  have e: "nodes_rel (keeps_letters {}) w (fst (Enqueue_gw (host_api render) cancelled req w1))" for req
    by (rule nodes_rel_trans [OF keeps_letters_trans l1 Enqueue_gw_nodes [OF keeps_letters_refl keeps_letters_trans enqueue_keeps_letters]])
  show "nodes_rel (keeps_letters {}) w (fst (deliverDeadLetter (host_api render) cancelled d w))"
  proof (cases r1)
    case (Inr cfg)
    obtain w2 r2 where q: "Enqueue_gw (host_api render) cancelled
      \<lparr>ge_Org = gd_Org d, ge_Queue = gs_DeadLetterQueue (qc_Settings cfg), ge_GroupID = dm_GroupID (gd_Message d), ge_Body = dm_Payload (gd_Message d),
       ge_PriorityValue = dm_Priority (gd_Message d), ge_TTLFor = 0, ge_DeliverIn = 0\<rparr> w1 = (w2, r2)" by fastforce
    have "nodes_rel (keeps_letters {}) w w2" using e q by (metis fst_conv)
    with c Inr l1 q show ?thesis by (cases r2) (simp_all add: deliverDeadLetter_def Let_def)
  qed (use c l1 in \<open>simp add: deliverDeadLetter_def\<close>)
  show "nodes_rel (keeps_letters {}) w (fst (call_DeadLetters (host_api render) addr w))"
    unfolding call_DeadLetters_def gw_DeadLetters_def
    by (rule node_call_rel [OF keeps_letters_refl])
      (auto simp: keeps_letters_def keys_once_def letters_def host_api_def on_host_def srv_DeadLetters_def)
  show "nodes_rel (keeps_letters (set ids)) w (fst (call_AckDeadLetters (host_api render) addr ids w))"
    using node_call_rel [OF keeps_letters_refl ack_keeps_letters, where f = id]
    by (simp add: call_AckDeadLetters_def gw_AckDeadLetters_def)
qed

lemma deliver_letters_nodes: "nodes_rel (keeps_letters {}) w (fst (deliver_letters (host_api render) cancelled ds w))"
proof (induction ds arbitrary: w)
  case (Cons d ds)
  obtain w1 x where d: "deliverDeadLetter (host_api render) cancelled d w = (w1, x)" by fastforce
  have "nodes_rel (keeps_letters {}) w w1" using letters_calls(1) d by (metis fst_conv)
  then show ?case using nodes_rel_trans [OF keeps_letters_trans _ Cons.IH] d by (simp add: case_prod_beta)
qed (simp add: nodes_rel_same keeps_letters_refl)

lemma keeps_letters_mono: "nodes_rel (keeps_letters X) w w' \<Longrightarrow> X \<subseteq> Y \<Longrightarrow> nodes_rel (keeps_letters Y) w w'"
  unfolding nodes_rel_def keeps_letters_def by blast

lemma route_member_letters:
  assumes "route_member (host_api render) cancelled m w = (w', xs)"
  shows "nodes_rel (keeps_letters (set (settled_ids xs))) w w'"
proof -
  obtain w1 r1 where c: "call_DeadLetters (host_api render) (mem_addr m) w = (w1, r1)" by fastforce
  have l1: "nodes_rel (keeps_letters {}) w w1" using letters_calls(2) c by (metis fst_conv)
  show ?thesis
  proof (cases "isl r1 \<or> r1 = Inr []")
    case True
    then show ?thesis using c l1 assms by (cases r1) (auto simp: route_member_def settled_ids_def)
  next
    case False
    then obtain items where i: "r1 = Inr items" "items \<noteq> []" by (cases r1) auto
    obtain w2 ys where d: "deliver_letters (host_api render) cancelled items w1 = (w2, ys)" by fastforce
    have l2: "nodes_rel (keeps_letters {}) w w2" using nodes_rel_trans [OF keeps_letters_trans l1] deliver_letters_nodes d by (metis fst_conv)
    have ys: "xs = ys" "w' = (if settled_ids ys = [] then w2 else fst (call_AckDeadLetters (host_api render) (mem_addr m) (settled_ids ys) w2))"
      using assms c i d by (auto simp: route_member_def Let_def split: if_splits)
    show ?thesis
      using keeps_letters_mono [OF l2] nodes_rel_trans [OF keeps_letters_trans keeps_letters_mono [OF l2] letters_calls(3)]
      by (simp add: ys)
  qed
qed


lemma route_members_letters: "route_members (host_api render) cancelled ms w = (w', xs) \<Longrightarrow> nodes_rel (keeps_letters (set (settled_ids xs))) w w'"
proof (induction ms arbitrary: w w' xs)
  case (Cons m ms)
  obtain w1 ys where r: "route_member (host_api render) cancelled m w = (w1, ys)" by fastforce
  obtain w2 zs where rs: "route_members (host_api render) cancelled ms w1 = (w2, zs)" by fastforce
  have e: "w' = w2" "xs = ys @ zs" using Cons.prems r rs by simp_all
  have s: "set (settled_ids xs) = set (settled_ids ys) \<union> set (settled_ids zs)" unfolding e settled_ids_def by (simp add: image_Un)
  have "nodes_rel (keeps_letters (set (settled_ids xs))) w w1" by (rule keeps_letters_mono [OF route_member_letters [OF r]]) (simp add: s)
  moreover have "nodes_rel (keeps_letters (set (settled_ids xs))) w1 w2" by (rule keeps_letters_mono [OF Cons.IH [OF rs]]) (simp add: s)
  ultimately show ?case unfolding e by (rule nodes_rel_trans [OF keeps_letters_trans])
qed (simp add: nodes_rel_same keeps_letters_refl)

text \<open>A message that was accepted by the queue it is to fail into, and one that has nowhere to go.\<close>

definition dead_enqueued :: "host nodeAPI \<Rightarrow> gwDeadLetter \<Rightarrow> bool" where
  "dead_enqueued api d \<longleftrightarrow> (\<exists>cancelled target w1 w2 mid. Enqueue_gw api cancelled
     \<lparr>ge_Org = gd_Org d, ge_Queue = target, ge_GroupID = dm_GroupID (gd_Message d), ge_Body = dm_Payload (gd_Message d),
      ge_PriorityValue = dm_Priority (gd_Message d), ge_TTLFor = 0, ge_DeliverIn = 0\<rparr> w1 = (w2, Inr mid))"

definition dead_homeless :: "gwDeadLetter \<Rightarrow> bool" where
  "dead_homeless d \<longleftrightarrow> (\<exists>(w1 :: host world) w2 r. config_for (gd_Org d) (gd_Name d) w1 = (w2, r) \<and>
     (case r of Inl e \<Rightarrow> CodeOf e = CodeNotFound | Inr cfg \<Rightarrow> gs_DeadLetterQueue (qc_Settings cfg) = []))"

lemma deliver_outcome:
  assumes "deliverDeadLetter api cancelled d w = (w', x)"
  shows "x = deadLetterMoved \<and> dead_enqueued api d \<or> x = deadLetterDrop \<and> dead_homeless d \<or> x = deadLetterRetry"
  using assms unfolding dead_enqueued_def dead_homeless_def
  by (auto simp: deliverDeadLetter_def Let_def split: prod.splits sum.splits if_splits) blast+

lemma outcomes_true:
  "snd (deliver_letters api cancelled ds w) = xs \<Longrightarrow> (d, x) \<in> set xs \<Longrightarrow> x \<noteq> deadLetterRetry \<Longrightarrow> dead_enqueued api d \<or> dead_homeless d"
proof (induction ds arbitrary: w xs)
  case (Cons a ds)
  obtain w1 y where y: "deliverDeadLetter api cancelled a w = (w1, y)" by fastforce
  then have "xs = (a, y) # snd (deliver_letters api cancelled ds w1)" using Cons.prems(1) by (auto simp: case_prod_beta)
  with Cons.prems(2,3) Cons.IH [OF refl] deliver_outcome [OF y] show ?case by auto
qed simp

lemma member_outcomes_true:
  "snd (route_member api cancelled m w) = xs \<Longrightarrow> (d, x) \<in> set xs \<Longrightarrow> x \<noteq> deadLetterRetry \<Longrightarrow> dead_enqueued api d \<or> dead_homeless d"
  using outcomes_true by (auto simp: route_member_def Let_def case_prod_beta split: prod.splits sum.splits if_splits)

lemma round_outcomes_true:
  "snd (route_members api cancelled ms w) = xs \<Longrightarrow> (d, x) \<in> set xs \<Longrightarrow> x \<noteq> deadLetterRetry \<Longrightarrow> dead_enqueued api d \<or> dead_homeless d"
  by (induction ms arbitrary: w xs) (auto simp: case_prod_beta dest: member_outcomes_true [OF refl])



text \<open>A node that has given up on one message, of a queue with nowhere to send it.\<close>

definition dead_host :: host where
  "dead_host = (host_a leak1)\<lparr>h_node := set_live demo_key
     \<lparr>lq_q = leak1, lq_dl = [(''m'', \<lparr>pd_Slot = 0, pd_Msg = leak_msg\<lparr>ID := ''m''\<rparr>\<rparr>)]\<rparr> (New_node ''n1'' 1 SyncNever [])\<rparr>"

definition dead_world :: "host world" where
  "dead_world = (demo_world demo_config leak1 [])\<lparr>g_nodes := [(''a'', dead_host), (''b'', host_b)]\<rparr>"


end
