(* ===== verification/GwMetrics.thy ===== *)
theory GwMetrics
  imports GwAdmin
begin

text \<open>
  What the gateway reports: \<open>metrics-collector-logic.go\<close>, \<open>node-detail-logic.go\<close>, \<open>registry-logic.go\<close>
  and \<open>timeseries-logic.go\<close> of \<open>backend/gateway/logic\<close>.  Rates are rationals; a map is ranged over in
  the order an argument puts it in; the registry's raw contents and the monitoring system's answer are
  arguments.
\<close>

subsection \<open>Responses\<close>

record queueStatsResponse =
  qr_Queue :: string
  qr_Messages :: int
  qr_InFlight :: int
  qr_Delayed :: int
  qr_ByPriority :: "(string \<times> int) list"
  qr_OldestMessageAgeSeconds :: rat
  qr_DeadLettered :: nat
  qr_Enqueued :: nat
  qr_Acked :: nat
  qr_Expired :: nat
  qr_Redelivered :: nat
  qr_StarvationEscapes :: nat
  qr_EnqueueRate :: rat
  qr_AckRate :: rat
  qr_OwnerNode :: string
  qr_Distributed :: bool
  qr_Exact :: bool
  qr_UnavailableSlots :: nat
  qr_AsOf :: time

record clusterPlacement =
  cp_Queue :: string
  cp_Org :: string
  cp_Distributed :: bool
  cp_Slots :: nat
  cp_TotalSlots :: nat

record clusterNode =
  cn_ID :: string
  cn_Addr :: string
  cn_Queues :: "clusterPlacement list"

record clusterResponse =
  cl_Nodes :: "clusterNode list"
  cl_Unavailable :: "clusterPlacement list"

record registryEntry =
  re_Key :: string
  re_Value :: string
  re_Lease :: string
  re_TTLSeconds :: int
  re_Version :: int

record registryResponse =
  rg_Entries :: "registryEntry list"
  rg_Watching :: nat

record nodeQueueDetail =
  nq_Queue :: string
  nq_Distributed :: bool
  nq_Slots :: nat
  nq_TotalSlots :: nat
  nq_Ready :: int
  nq_ByPriority :: "(string \<times> int) list"
  nq_InFlight :: int
  nq_Delayed :: int
  nq_OldestAge :: rat
  nq_Enqueued :: nat
  nq_Acked :: nat
  nq_Expired :: nat
  nq_Redelivered :: nat
  nq_DeadLettered :: nat
  nq_Escapes :: nat

record nodeDetailResponse =
  nd_ID :: string
  nd_Addr :: string
  nd_Live :: bool
  nd_Slots :: nat
  nd_Ready :: int
  nd_InFlight :: int
  nd_Delayed :: int
  nd_OldestAge :: rat
  nd_Queues :: "nodeQueueDetail list"

subsection \<open>Collecting\<close>

definition call_StatsAll :: "'n nodeAPI \<Rightarrow> string \<Rightarrow> 'n world \<Rightarrow> 'n world \<times> (err + string \<times> nodeStats list)" where
  "call_StatsAll api addr w = node_call addr (\<lambda>cs addr dial net n. gw_StatsAll cs addr dial net (api_StatsAll api) n) w"

definition call_Stats :: "'n nodeAPI \<Rightarrow> string \<Rightarrow> queueSpec \<Rightarrow> 'n world \<Rightarrow> 'n world \<times> (err + nodeStats)" where
  "call_Stats api addr spec w = node_call addr (\<lambda>cs addr dial net n. gw_Stats cs addr dial net (api_Stats api) spec n) w"

text \<open>The zero value of \<open>NodeStats\<close>.\<close>

definition no_stats :: nodeStats where
  "no_stats = \<lparr>qs_Org = [], qs_Name = [], qs_Ready = [0, 0, 0], qs_InFlight = 0, qs_Delayed = 0, qs_OldestAge = 0, qs_TopReady = 0,
     qs_Enqueued = 0, qs_Acked = 0, qs_Expired = 0, qs_Requeued = 0, qs_DeadLettered = 0, qs_Escapes = 0\<rparr>"

definition statsTTL :: "'n world \<Rightarrow> duration" where
  "statsTTL w = 3 * g_CollectEvery w"

definition addStats :: "nodeStats \<Rightarrow> nodeStats \<Rightarrow> nodeStats" where
  "addStats into s =
     \<lparr>qs_Org = (if qs_Org into = [] then qs_Org s else qs_Org into), qs_Name = (if qs_Org into = [] then qs_Name s else qs_Name into),
      qs_Ready = map (\<lambda>i. qs_Ready into ! i + qs_Ready s ! i) [0..<3],
      qs_InFlight = qs_InFlight into + qs_InFlight s, qs_Delayed = qs_Delayed into + qs_Delayed s,
      qs_OldestAge = (if qs_OldestAge s > qs_OldestAge into then qs_OldestAge s else qs_OldestAge into),
      qs_TopReady = (if qs_TopReady s > qs_TopReady into then qs_TopReady s else qs_TopReady into),
      qs_Enqueued = qs_Enqueued into + qs_Enqueued s, qs_Acked = qs_Acked into + qs_Acked s, qs_Expired = qs_Expired into + qs_Expired s,
      qs_Requeued = qs_Requeued into + qs_Requeued s, qs_DeadLettered = qs_DeadLettered into + qs_DeadLettered s,
      qs_Escapes = qs_Escapes into + qs_Escapes s\<rparr>"

definition perSecond :: "nat \<Rightarrow> nat \<Rightarrow> rat \<Rightarrow> rat" where
  "perSecond before after elapsed = (if after < before then 0 else of_nat (after - before) / elapsed)"

definition recordRates :: "nodeStats \<Rightarrow> 'n world \<Rightarrow> 'n world" where
  "recordRates s w =
     (let now = g_now w;
          nxt = \<lparr>rs_Enqueued = qs_Enqueued s, rs_Acked = qs_Acked s, rs_At = now\<rparr>;
          w = (case readCache w (sampleCacheKey (qs_Org s) (qs_Name s)) of
                 Some (C_Sample prev) \<Rightarrow>
                   (let elapsed = seconds (now - rs_At prev)
                    in if elapsed > 0
                       then writeCache (ratesCacheKey (qs_Org s) (qs_Name s)) (statsTTL w)
                              (C_Rates \<lparr>rt_Enqueue = perSecond (rs_Enqueued prev) (qs_Enqueued s) elapsed,
                                        rt_Ack = perSecond (rs_Acked prev) (qs_Acked s) elapsed\<rparr>) w
                       else w)
               | _ \<Rightarrow> w)
      in writeCache (sampleCacheKey (qs_Org s) (qs_Name s)) (statsTTL w) (C_Sample nxt) w)"

text \<open>One queue of one node's report: its own entries, and the sum under the queue's key.\<close>

definition collect_queue :: "string \<Rightarrow> nodeStats \<Rightarrow> (string \<times> nodeStats) list \<times> 'n world \<Rightarrow> (string \<times> nodeStats) list \<times> 'n world" where
  "collect_queue nodeID s x =
     (let (totals, w) = x; k = gw_key (qs_Org s) (qs_Name s);
          w = writeCache (nodeStatsCacheKey (qs_Org s) (qs_Name s) nodeID) (statsTTL w) (C_Stats s) w;
          w = writeCache (ownerCacheKey (qs_Org s) (qs_Name s)) (statsTTL w) (C_Owner nodeID) w
      in (AList.update k (addStats (case map_of totals k of None \<Rightarrow> no_stats | Some t \<Rightarrow> t) s) totals, w))"

fun collect_members :: "'n nodeAPI \<Rightarrow> member list \<Rightarrow> (string \<times> nodeStats) list \<Rightarrow> 'n world \<Rightarrow> (string \<times> nodeStats) list \<times> 'n world" where
  "collect_members api [] totals w = (totals, w)"
| "collect_members api (m # ms) totals w =
     (case call_StatsAll api (mem_addr m) w of
        (w, Inl e) \<Rightarrow> collect_members api ms totals w
      | (w, Inr (nodeID, sts)) \<Rightarrow>
          (let (totals, w) = fold (collect_queue nodeID) sts (totals, w) in collect_members api ms totals w))"

definition Collect :: "'n nodeAPI \<Rightarrow> ((string \<times> nodeStats) list \<Rightarrow> (string \<times> nodeStats) list) \<Rightarrow> 'n world \<Rightarrow> 'n world" where
  "Collect api perm w =
     (let (totals, w) = collect_members api (g_members w) [] w
      in fold (\<lambda>(k, s) w. recordRates s (writeCache (prefixStats @ k) (statsTTL w) (C_Stats s) w)) (perm totals) w)"

subsection \<open>The statistics of a queue\<close>

definition withRates :: "'n world \<Rightarrow> queueStatsResponse \<Rightarrow> string \<Rightarrow> string \<Rightarrow> queueStatsResponse" where
  "withRates w resp org nm =
     (case readCache w (ratesCacheKey org nm) of
        Some (C_Rates r) \<Rightarrow> resp\<lparr>qr_EnqueueRate := rt_Enqueue r, qr_AckRate := rt_Ack r\<rparr>
      | _ \<Rightarrow> resp)"

definition by_priority :: "nodeStats \<Rightarrow> (string \<times> int) list" where
  "by_priority s = [(''low'', qs_Ready s ! 0), (''medium'', qs_Ready s ! 1), (''high'', qs_Ready s ! 2)]"

definition toStatsResponse :: "time \<Rightarrow> queueConfig \<Rightarrow> nodeStats \<Rightarrow> bool \<Rightarrow> queueStatsResponse" where
  "toStatsResponse now cfg s exact =
     \<lparr>qr_Queue = qc_Name cfg, qr_Messages = qs_Ready s ! 0 + qs_Ready s ! 1 + qs_Ready s ! 2, qr_InFlight = qs_InFlight s,
      qr_Delayed = qs_Delayed s, qr_ByPriority = by_priority s, qr_OldestMessageAgeSeconds = seconds (qs_OldestAge s),
      qr_DeadLettered = qs_DeadLettered s, qr_Enqueued = qs_Enqueued s, qr_Acked = qs_Acked s, qr_Expired = qs_Expired s,
      qr_Redelivered = qs_Requeued s, qr_StarvationEscapes = qs_Escapes s, qr_EnqueueRate = 0, qr_AckRate = 0,
      qr_OwnerNode = qc_OwnerNode cfg, qr_Distributed = qc_Distributed cfg, qr_Exact = exact, qr_UnavailableSlots = 0, qr_AsOf = now\<rparr>"

definition slotsByOwner :: "queueConfig \<Rightarrow> (string \<times> nat) list" where
  "slotsByOwner cfg =
     fold (\<lambda>(_, x) al. if x = [] then al else AList.update x (case map_of al x of None \<Rightarrow> 1 | Some n \<Rightarrow> n + 1) al) (qc_SlotOwners cfg) []"

text \<open>Every machine with a slot is asked; \<open>missing\<close> counts the slots of those that did not answer.  A node
  that has never seen the queue answers not found, which is nothing held.\<close>

fun ask_stats :: "'n nodeAPI \<Rightarrow> queueSpec \<Rightarrow> (string \<times> nat) list \<Rightarrow> nodeStats \<Rightarrow> nat \<Rightarrow> 'n world \<Rightarrow> 'n world \<times> nodeStats \<times> nat" where
  "ask_stats api spec [] tot missing w = (w, tot, missing)"
| "ask_stats api spec ((owner, held_slots) # xs) tot missing w =
     (case Lookup w owner of
        None \<Rightarrow> ask_stats api spec xs tot (missing + held_slots) w
      | Some m \<Rightarrow>
          (case call_Stats api (mem_addr m) spec w of
             (w, Inl e) \<Rightarrow> ask_stats api spec xs tot (if CodeOf e = CodeNotFound then missing else missing + held_slots) w
           | (w, Inr s) \<Rightarrow> ask_stats api spec xs (addStats tot s) missing w))"

text \<open>The owner of a queue that is not distributed, if it answers.\<close>

definition owner_stats :: "'n nodeAPI \<Rightarrow> queueConfig \<Rightarrow> 'n world \<Rightarrow> 'n world \<times> nodeStats option" where
  "owner_stats api cfg w =
     (case ownerAddr cfg 0 w of
        (w, Inl e) \<Rightarrow> (w, None)
      | (w, Inr (_, addr)) \<Rightarrow>
          (if addr = [] then (w, None)
           else case call_Stats api addr (Spec cfg) w of (w, Inl e) \<Rightarrow> (w, None) | (w, Inr s) \<Rightarrow> (w, Some s)))"

definition Stats_gw :: "'n nodeAPI \<Rightarrow> ((string \<times> nat) list \<Rightarrow> (string \<times> nat) list) \<Rightarrow> string \<Rightarrow> string \<Rightarrow> 'n world
    \<Rightarrow> 'n world \<times> (err + queueStatsResponse)" where
  "Stats_gw api perm org nm w =
     (case config_for org nm w of
        (w, Inl e) \<Rightarrow> (w, Inl e)
      | (w, Inr cfg) \<Rightarrow>
          (if \<not> qc_Distributed cfg
           then (case owner_stats api cfg w of
                   (w, Some s) \<Rightarrow> (w, Inr (withRates w (toStatsResponse (g_now w) cfg s True) org nm))
                 | (w, None) \<Rightarrow>
                     (w, Inr (withRates w (toStatsResponse (g_now w) cfg
                       (case readCache w (statsCacheKey org nm) of Some (C_Stats s) \<Rightarrow> s | _ \<Rightarrow> no_stats\<lparr>qs_Org := org, qs_Name := nm\<rparr>) False) org nm)))
           else (case ask_stats api (Spec cfg) (perm (slotsByOwner cfg)) (no_stats\<lparr>qs_Org := org, qs_Name := nm\<rparr>) 0 w of
                   (w, tot, missing) \<Rightarrow>
                     (w, Inr ((withRates w (toStatsResponse (g_now w) cfg tot False) org nm)\<lparr>qr_UnavailableSlots := missing\<rparr>)))))"

definition GetMetrics :: "string \<Rightarrow> 'n world \<Rightarrow> 'n world \<times> (err + queueStatsResponse list)" where
  "GetMetrics org w =
     (case db (asking (\<lambda>t. Inr (ListByOrg (g_coll w) org t))) w of
        (w, Inl e) \<Rightarrow> (w, Inl (Internal ''list queues'' e))
      | (w, Inr cfgs) \<Rightarrow>
          (w, Inr (map (\<lambda>c. let s = (case readCache w (statsCacheKey (qc_Org c) (qc_Name c)) of Some (C_Stats s) \<Rightarrow> s | _ \<Rightarrow> no_stats)
             in withRates w (toStatsResponse (g_now w) c s (\<not> qc_Distributed c)) (qc_Org c) (qc_Name c)) cfgs)))"


subsection \<open>The cluster\<close>

text \<open>The three maps of \<open>GetClusterDetails\<close>: slots by machine and queue, what each queue is, and the queues
  of a machine in the order they are met.\<close>

record clusterCount =
  cc_slots :: "((string \<times> string) \<times> nat) list"
  cc_meta :: "(string \<times> clusterPlacement) list"
  cc_order :: "(string \<times> string list) list"

definition slots_of :: "clusterCount \<Rightarrow> string \<Rightarrow> string \<Rightarrow> nat" where
  "slots_of a node k = (case map_of (cc_slots a) (node, k) of None \<Rightarrow> 0 | Some n \<Rightarrow> n)"

definition no_placement :: clusterPlacement where
  "no_placement = \<lparr>cp_Queue = [], cp_Org = [], cp_Distributed = False, cp_Slots = 0, cp_TotalSlots = 0\<rparr>"

definition meta_of :: "clusterCount \<Rightarrow> string \<Rightarrow> clusterPlacement" where
  "meta_of a k = (case map_of (cc_meta a) k of None \<Rightarrow> no_placement | Some p \<Rightarrow> p)"

definition order_of :: "clusterCount \<Rightarrow> string \<Rightarrow> string list" where
  "order_of a node = (case map_of (cc_order a) node of None \<Rightarrow> [] | Some ks \<Rightarrow> ks)"

definition count_slot :: "string \<Rightarrow> queueConfig \<Rightarrow> clusterCount \<Rightarrow> clusterCount" where
  "count_slot node c a =
     (let k = gw_key (qc_Org c) (qc_Name c);
          a = (if map_of (cc_meta a) k = None
               then a\<lparr>cc_meta := AList.update k \<lparr>cp_Queue = qc_Name c, cp_Org = qc_Org c, cp_Distributed = qc_Distributed c, cp_Slots = 0,
                        cp_TotalSlots = slotCountFor (qc_Distributed c)\<rparr> (cc_meta a)\<rparr> else a);
          a = (if slots_of a node k = 0 then a\<lparr>cc_order := AList.update node (order_of a node @ [k]) (cc_order a)\<rparr> else a)
      in a\<lparr>cc_slots := AList.update (node, k) (slots_of a node k + 1) (cc_slots a)\<rparr>)"

definition count_queue :: "queueConfig \<Rightarrow> clusterCount \<Rightarrow> clusterCount" where
  "count_queue c a =
     (if qc_Distributed c then fold (\<lambda>(_, x) a. if x = [] then a else count_slot x c a) (qc_SlotOwners c) a
      else if qc_OwnerNode c = [] then a
      else let a = count_slot (qc_OwnerNode c) c a
           in a\<lparr>cc_slots := AList.update (qc_OwnerNode c, gw_key (qc_Org c) (qc_Name c)) (slotCountFor False) (cc_slots a)\<rparr>)"

definition cluster_node :: "clusterCount \<Rightarrow> member \<Rightarrow> clusterNode" where
  "cluster_node a m = \<lparr>cn_ID = mem_id m, cn_Addr = mem_addr m,
     cn_Queues = map (\<lambda>k. (meta_of a k)\<lparr>cp_Slots := slots_of a (mem_id m) k\<rparr>) (order_of a (mem_id m))\<rparr>"

text \<open>The slots on machines that are not registered, by queue.\<close>

definition lost_slots :: "member list \<Rightarrow> ((string \<times> string) \<times> nat) list \<Rightarrow> (string \<times> nat) list" where
  "lost_slots ms xs =
     fold (\<lambda>((node, k), n) al. if node \<in> mem_id ` set ms then al
       else AList.update k ((case map_of al k of None \<Rightarrow> 0 | Some x \<Rightarrow> x) + n) al) xs []"

definition GetClusterDetails :: "((string \<times> nat) list \<Rightarrow> (string \<times> nat) list) \<Rightarrow> 'n world \<Rightarrow> 'n world \<times> (err + clusterResponse)" where
  "GetClusterDetails perm w =
     (case db (asking (\<lambda>t. Inr (ListAll (g_coll w) t))) w of
        (w, Inl e) \<Rightarrow> (w, Inl (Internal ''list queues'' e))
      | (w, Inr cfgs) \<Rightarrow>
          (let (w, cfgs) = withPlacement cfgs w;
               a = fold count_queue cfgs \<lparr>cc_slots = [], cc_meta = [], cc_order = []\<rparr>
           in (w, Inr \<lparr>cl_Nodes = map (cluster_node a) (g_members w),
                       cl_Unavailable = sort_by (\<lambda>x y. cp_Queue x < cp_Queue y)
                         (map (\<lambda>(k, n). (meta_of a k)\<lparr>cp_Slots := n\<rparr>) (perm (lost_slots (g_members w) (cc_slots a))))\<rparr>)))"

subsection \<open>One machine\<close>

definition slots_here :: "string \<Rightarrow> queueConfig list \<Rightarrow> (string \<times> nat) list" where
  "slots_here node cfgs =
     fold (\<lambda>c al.
       if \<not> qc_Distributed c then (if qc_OwnerNode c = node then AList.update (qc_Name c) (slotCountFor False) al else al)
       else fold (\<lambda>(_, x) al. if x = node then AList.update (qc_Name c) (case map_of al (qc_Name c) of None \<Rightarrow> 1 | Some n \<Rightarrow> n + 1) al else al)
              (qc_SlotOwners c) al) cfgs []"

definition queue_detail :: "queueConfig \<Rightarrow> nat \<Rightarrow> nodeStats \<Rightarrow> nodeQueueDetail" where
  "queue_detail cfg n s =
     \<lparr>nq_Queue = qs_Name s, nq_Distributed = qc_Distributed cfg, nq_Slots = n, nq_TotalSlots = slotCountFor (qc_Distributed cfg),
      nq_Ready = qs_Ready s ! 0 + qs_Ready s ! 1 + qs_Ready s ! 2, nq_ByPriority = by_priority s, nq_InFlight = qs_InFlight s,
      nq_Delayed = qs_Delayed s, nq_OldestAge = seconds (qs_OldestAge s), nq_Enqueued = qs_Enqueued s, nq_Acked = qs_Acked s,
      nq_Expired = qs_Expired s, nq_Redelivered = qs_Requeued s, nq_DeadLettered = qs_DeadLettered s, nq_Escapes = qs_Escapes s\<rparr>"

text \<open>What placement says of a queue on a machine that does not answer.\<close>

definition bare_detail :: "string \<Rightarrow> bool \<Rightarrow> nat \<Rightarrow> nodeQueueDetail" where
  "bare_detail nm distributed n =
     \<lparr>nq_Queue = nm, nq_Distributed = distributed, nq_Slots = n, nq_TotalSlots = slotCountFor distributed,
      nq_Ready = 0, nq_ByPriority = [], nq_InFlight = 0, nq_Delayed = 0, nq_OldestAge = 0, nq_Enqueued = 0, nq_Acked = 0,
      nq_Expired = 0, nq_Redelivered = 0, nq_DeadLettered = 0, nq_Escapes = 0\<rparr>"

definition add_detail :: "nodeQueueDetail \<Rightarrow> nodeDetailResponse \<Rightarrow> nodeDetailResponse" where
  "add_detail q r = r\<lparr>nd_Queues := nd_Queues r @ [q], nd_Ready := nd_Ready r + nq_Ready q, nd_InFlight := nd_InFlight r + nq_InFlight q,
     nd_Delayed := nd_Delayed r + nq_Delayed q, nd_Slots := nd_Slots r + nq_Slots q,
     nd_OldestAge := (if nq_OldestAge q > nd_OldestAge r then nq_OldestAge q else nd_OldestAge r)\<rparr>"

definition by_name :: "queueConfig list \<Rightarrow> string \<Rightarrow> queueConfig option" where
  "by_name cfgs nm = find (\<lambda>c. qc_Name c = nm) (rev cfgs)"

definition GetNodeDetails :: "'n nodeAPI \<Rightarrow> ((string \<times> nat) list \<Rightarrow> (string \<times> nat) list) \<Rightarrow> string \<Rightarrow> string \<Rightarrow> 'n world
    \<Rightarrow> 'n world \<times> (err + nodeDetailResponse)" where
  "GetNodeDetails api perm org nodeID w =
     (case Lookup w nodeID of
        None \<Rightarrow> (w, Inl (NotFound ''node''))
      | Some m \<Rightarrow>
          (case db (asking (\<lambda>t. Inr (ListByOrg (g_coll w) org t))) w of
             (w, Inl e) \<Rightarrow> (w, Inl (Internal ''list queues'' e))
           | (w, Inr cfgs) \<Rightarrow>
               (let (w, cfgs) = withPlacement cfgs w; here = slots_here nodeID cfgs;
                    resp = \<lparr>nd_ID = mem_id m, nd_Addr = mem_addr m, nd_Live = True, nd_Slots = 0, nd_Ready = 0, nd_InFlight = 0, nd_Delayed = 0,
                            nd_OldestAge = 0, nd_Queues = []\<rparr>
                in case call_StatsAll api (mem_addr m) w of
                     (w, Inl e) \<Rightarrow>
                       (w, Inr (resp\<lparr>nd_Live := False,
                          nd_Queues := map (\<lambda>(nm, n). bare_detail nm (case by_name cfgs nm of None \<Rightarrow> False | Some c \<Rightarrow> qc_Distributed c) n) (perm here)\<rparr>))
                   | (w, Inr (_, sts)) \<Rightarrow>
                       (w, Inr (fold (\<lambda>s r. if qs_Org s \<noteq> org then r
                          else case by_name cfgs (qs_Name s) of
                                 None \<Rightarrow> r
                               | Some cfg \<Rightarrow> add_detail (queue_detail cfg (case map_of here (qs_Name s) of None \<Rightarrow> 0 | Some n \<Rightarrow> n) s) r) sts resp)))))"

subsection \<open>The registry and the monitoring system\<close>

definition GetRegistry :: "(err + registryEntry list) \<Rightarrow> 'n world \<Rightarrow> err + registryResponse" where
  "GetRegistry ents w =
     (case ents of
        Inl e \<Rightarrow> Inl (Internal ''read registry'' e)
      | Inr es \<Rightarrow> Inr \<lparr>rg_Entries = es, rg_Watching = card (set (map mem_id (g_members w)))\<rparr>)"

record timeseriesQuery =
  tq_Org :: string
  tq_Queue :: string
  tq_Range :: duration
  tq_Step :: duration

text \<open>A \<open>float64\<close>: a rational, or one of the values that are not numbers.\<close>

datatype gofloat = Number rat | Infinite bool | NaN

record seriesPoint =
  pt_At :: time
  pt_Value :: gofloat

record series =
  se_Name :: string
  se_Points :: "seriesPoint list"

record timeseriesResponse =
  ts_Available :: bool
  ts_Range :: string
  ts_Step :: string
  ts_Ready :: "series list"
  ts_InFlight :: "series list"
  ts_OldestAge :: "series list"
  ts_Rates :: "series list"

definition windows :: "(string \<times> duration \<times> duration) list" where
  "windows = [(''5m'', 5 * 60 * second, 5 * second), (''1h'', 3600 * second, 30 * second), (''6h'', 6 * 3600 * second, 3 * 60 * second),
     (''24h'', 24 * 3600 * second, 10 * 60 * second)]"

definition GetTimeseriesMetrics :: "(timeseriesQuery \<Rightarrow> err + timeseriesResponse) \<Rightarrow> string \<Rightarrow> string \<Rightarrow> string \<Rightarrow> 'n world
    \<Rightarrow> 'n world \<times> (err + timeseriesResponse)" where
  "GetTimeseriesMetrics query org nm window w =
     (case config_for org nm w of
        (w, Inl e) \<Rightarrow> (w, Inl e)
      | (w, Inr _) \<Rightarrow>
          (let window = (if map_of windows window = None then ''5m'' else window);
               (rng, step) = the (map_of windows window)
           in case query \<lparr>tq_Org = org, tq_Queue = nm, tq_Range = rng, tq_Step = step\<rparr> of
                Inl e \<Rightarrow> (w, Inl e)
              | Inr res \<Rightarrow> (w, Inr (res\<lparr>ts_Range := window\<rparr>))))"

end
