(* ===== verification/GwMembership.thy ===== *)
theory GwMembership
  imports GwMetrics
begin

text \<open>
  The live view of the machines: how a node publishes itself
  (\<open>backend/queue/repo/membershipetcd/repo.go\<close>) and how a gateway follows what is published
  (\<open>backend/gateway/repo/membershipetcd/repo.go\<close>).  etcd is not in the repository: what it answers is
  an argument, and its store for the purpose of the theorem is what its events make of an empty map.
  The JSON text of a member is a parameter.
\<close>

subsection \<open>Publishing a node\<close>

definition memberPrefix :: string where
  "memberPrefix = ''/ryuk/members/''"

datatype etcd_event = EvPut string string | EvDelete string

text \<open>The answers to granting a lease, to writing under it and to keeping it alive; what is written.\<close>

definition publish_node :: "(string \<Rightarrow> string \<Rightarrow> string) \<Rightarrow> string \<Rightarrow> string \<Rightarrow> err option \<Rightarrow> err option \<Rightarrow> err option \<Rightarrow> etcd_event list \<times> err option" where
  "publish_node mjson i addr grant put keep =
     (case grant of
        Some e \<Rightarrow> ([], Some e)
      | None \<Rightarrow> (case put of Some e \<Rightarrow> ([], Some e) | None \<Rightarrow> ([EvPut (memberPrefix @ i) (mjson i addr)], keep)))"

definition minRegisterBackoff :: duration where
  "minRegisterBackoff = 250000000"

definition maxRegisterBackoff :: duration where
  "maxRegisterBackoff = 5 * second"

text \<open>The wait after an attempt to publish again.\<close>

definition register_backoff :: "bool \<Rightarrow> duration \<Rightarrow> duration" where
  "register_backoff ok backoff =
     (if ok then minRegisterBackoff
      else let nxt = backoff * 2 in if nxt > maxRegisterBackoff then maxRegisterBackoff else nxt)"

subsection \<open>Following the registry\<close>

definition minWatchBackoff :: duration where
  "minWatchBackoff = 250000000"

definition maxWatchBackoff :: duration where
  "maxWatchBackoff = 5 * second"

definition registryPrefix :: string where
  "registryPrefix = ''/ryuk/''"

text \<open>A listener's channel holds one signal or none.\<close>

record membership =
  mb_members :: "(string \<times> member) list"
  mb_listeners :: "bool list"

definition new_membership :: membership where
  "new_membership = \<lparr>mb_members = [], mb_listeners = []\<rparr>"

definition notify_listeners :: "membership \<Rightarrow> membership" where
  "notify_listeners mb = mb\<lparr>mb_listeners := map (\<lambda>_. True) (mb_listeners mb)\<rparr>"

definition Changed :: "membership \<Rightarrow> membership \<times> nat" where
  "Changed mb = (mb\<lparr>mb_listeners := mb_listeners mb @ [False]\<rparr>, List.length (mb_listeners mb))"

definition keep_member :: "(string \<Rightarrow> member option) \<Rightarrow> string \<Rightarrow> (string \<times> member) list \<Rightarrow> (string \<times> member) list" where
  "keep_member unjson v ms = (case unjson v of None \<Rightarrow> ms | Some m \<Rightarrow> AList.update (mem_id m) m ms)"

definition setMembers :: "(string \<times> member) list \<Rightarrow> membership \<Rightarrow> membership" where
  "setMembers ms mb = notify_listeners (mb\<lparr>mb_members := ms\<rparr>)"

definition resync :: "(string \<Rightarrow> member option) \<Rightarrow> (err + (string \<times> string) list \<times> int) \<Rightarrow> membership \<Rightarrow> membership \<times> (err + int)" where
  "resync unjson answer mb =
     (case answer of
        Inl e \<Rightarrow> (mb, Inl e)
      | Inr (kvs, rv) \<Rightarrow> (setMembers (fold (\<lambda>kv. keep_member unjson (snd kv)) kvs []) mb, Inr rv))"

definition apply_event :: "(string \<Rightarrow> member option) \<Rightarrow> etcd_event \<Rightarrow> membership \<Rightarrow> membership" where
  "apply_event unjson ev mb =
     (case ev of
        EvDelete k \<Rightarrow> mb\<lparr>mb_members := AList.delete (drop (List.length memberPrefix) k) (mb_members mb)\<rparr>
      | EvPut k v \<Rightarrow> mb\<lparr>mb_members := keep_member unjson v (mb_members mb)\<rparr>)"

text \<open>One watch: the responses until it ends, each an error or the events of a revision.\<close>

datatype watch_response = WatchError | WatchEvents "etcd_event list" int

fun watchFrom :: "(string \<Rightarrow> member option) \<Rightarrow> watch_response list \<Rightarrow> int \<Rightarrow> membership \<Rightarrow> membership \<times> int" where
  "watchFrom unjson [] rv mb = (mb, rv)"
| "watchFrom unjson (WatchError # rs) rv mb = (mb, rv)"
| "watchFrom unjson (WatchEvents evs r # rs) rv mb =
     watchFrom unjson rs (r + 1) (notify_listeners (fold (apply_event unjson) evs mb))"

text \<open>One turn of \<open>follow\<close>: the watch until it ends, then the read that makes up for what was missed.\<close>

definition follow_turn :: "(string \<Rightarrow> member option) \<Rightarrow> watch_response list \<Rightarrow> (err + (string \<times> string) list \<times> int) \<Rightarrow> int \<Rightarrow> duration \<Rightarrow> membership
    \<Rightarrow> membership \<times> int \<times> duration" where
  "follow_turn unjson rs answer rv backoff mb =
     (let (mb, rv) = watchFrom unjson rs rv mb
      in case resync unjson answer mb of
           (mb, Inl e) \<Rightarrow> (let nxt = backoff * 2 in (mb, rv, if nxt > maxWatchBackoff then maxWatchBackoff else nxt))
         | (mb, Inr fresh) \<Rightarrow> (mb, fresh + 1, minWatchBackoff))"

definition Members :: "membership \<Rightarrow> member list" where
  "Members mb = sort_by (\<lambda>a b. mem_id a < mem_id b) (map snd (mb_members mb))"

definition Lookup_member :: "membership \<Rightarrow> string \<Rightarrow> member option" where
  "Lookup_member mb i = map_of (mb_members mb) i"

text \<open>A key as the registry view shows it.\<close>

record etcd_key =
  ek_Key :: string
  ek_Value :: string
  ek_Version :: int
  ek_Lease :: int
  ek_TTL :: "int option"

fun base16 :: "nat \<Rightarrow> string" where
  "base16 n = (if n < 16 then [''0123456789abcdef'' ! n] else base16 (n div 16) @ [''0123456789abcdef'' ! (n mod 16)])"

declare base16.simps [simp del]

definition FormatInt16 :: "int \<Rightarrow> string" where
  "FormatInt16 n = (if n < 0 then CHR ''-'' # base16 (nat (- n)) else base16 (nat n))"

definition registry_entry :: "etcd_key \<Rightarrow> registryEntry" where
  "registry_entry k = \<lparr>re_Key = ek_Key k, re_Value = ek_Value k, re_Lease = (if ek_Lease k \<noteq> 0 then FormatInt16 (ek_Lease k) else []),
     re_TTLSeconds = (if ek_Lease k \<noteq> 0 then (case ek_TTL k of None \<Rightarrow> 0 | Some t \<Rightarrow> t) else 0), re_Version = ek_Version k\<rparr>"

definition Entries :: "(err + etcd_key list) \<Rightarrow> err + registryEntry list" where
  "Entries answer =
     (case answer of Inl e \<Rightarrow> Inl e
      | Inr ks \<Rightarrow> Inr (sort_by (\<lambda>a b. re_Key a < re_Key b) (map registry_entry ks)))"

subsection \<open>The view is the registry\<close>

definition etcd_apply :: "etcd_event \<Rightarrow> (string \<times> string) list \<Rightarrow> (string \<times> string) list" where
  "etcd_apply ev s = (case ev of EvPut k v \<Rightarrow> AList.update k v s | EvDelete k \<Rightarrow> AList.delete k s)"

definition etcd_store :: "etcd_event list \<Rightarrow> (string \<times> string) list" where
  "etcd_store evs = fold etcd_apply evs []"

text \<open>What nodes write, and what a lease that ends deletes.\<close>

definition by_node :: "(string \<Rightarrow> string \<Rightarrow> string) \<Rightarrow> etcd_event \<Rightarrow> bool" where
  "by_node mjson ev \<longleftrightarrow> (\<exists>i a. ev = EvPut (memberPrefix @ i) (mjson i a)) \<or> (\<exists>i. ev = EvDelete (memberPrefix @ i))"

lemma publish_by_node: "ev \<in> set (fst (publish_node mjson i addr grant put keep)) \<Longrightarrow> by_node mjson ev"
  by (auto simp: publish_node_def by_node_def split: option.splits)

definition view :: "(string \<Rightarrow> member option) \<Rightarrow> (string \<times> string) list \<Rightarrow> string \<Rightarrow> member option" where
  "view unjson s i = (case map_of s (memberPrefix @ i) of None \<Rightarrow> None | Some v \<Rightarrow> unjson v)"

text \<open>The store holds only what nodes wrote.\<close>

definition node_store :: "(string \<Rightarrow> string \<Rightarrow> string) \<Rightarrow> (string \<times> string) list \<Rightarrow> bool" where
  "node_store mjson s \<longleftrightarrow> (\<forall>k v. map_of s k = Some v \<longrightarrow> (\<exists>i a. k = memberPrefix @ i \<and> v = mjson i a))"

lemma node_store_apply: "by_node mjson ev \<Longrightarrow> node_store mjson s \<Longrightarrow> node_store mjson (etcd_apply ev s)"
  by (cases ev) (auto simp: by_node_def node_store_def etcd_apply_def update_conv' delete_conv' split: if_splits)

lemma node_store_events: "\<forall>ev \<in> set evs. by_node mjson ev \<Longrightarrow> node_store mjson s \<Longrightarrow> node_store mjson (fold etcd_apply evs s)"
  by (induction evs arbitrary: s) (simp_all add: node_store_apply)

lemma fold_keep_members:
  assumes "\<And>i a. unjson (mjson i a) = Some \<lparr>mem_id = i, mem_addr = a\<rparr>" and "distinct (map fst kvs)"
    and "\<forall>kv \<in> set kvs. \<exists>i a. kv = (memberPrefix @ i, mjson i a)"
  shows "map_of (fold (\<lambda>kv. keep_member unjson (snd kv)) kvs ms) i =
    (case map_of kvs (memberPrefix @ i) of None \<Rightarrow> map_of ms i | Some v \<Rightarrow> unjson v)"
  using assms(2,3)
proof (induction kvs arbitrary: ms)
  case (Cons kv kvs)
  obtain j a where kv: "kv = (memberPrefix @ j, mjson j a)" using Cons.prems(2) by auto
  have "map_of kvs (memberPrefix @ j) = None" using Cons.prems(1) kv by (simp add: map_of_eq_None_iff)
  with Cons.IH Cons.prems kv show ?case by (auto simp: keep_member_def assms(1) update_conv' split: option.split)
qed simp

text \<open>An event does to the view what it does to the store.\<close>

lemma apply_event_view:
  assumes "\<And>i a. unjson (mjson i a) = Some \<lparr>mem_id = i, mem_addr = a\<rparr>" and "by_node mjson ev"
    and "map_of (mb_members mb) = view unjson s"
  shows "map_of (mb_members (apply_event unjson ev mb)) = view unjson (etcd_apply ev s)"
  using assms(2,3)
  by (auto simp: by_node_def apply_event_def etcd_apply_def view_def keep_member_def assms(1) update_conv' delete_conv' fun_eq_iff)

lemma apply_events_view:
  assumes "\<And>i a. unjson (mjson i a) = Some \<lparr>mem_id = i, mem_addr = a\<rparr>" and "\<forall>ev \<in> set evs. by_node mjson ev"
    and "map_of (mb_members mb) = view unjson s"
  shows "map_of (mb_members (fold (apply_event unjson) evs mb)) = view unjson (fold etcd_apply evs s)"
  using assms(2,3) by (induction evs arbitrary: mb s) (simp_all add: apply_event_view [OF assms(1)])

lemma apply_events_listeners: "mb_listeners (fold (apply_event unjson) evs mb) = mb_listeners mb"
  by (induction evs arbitrary: mb) (simp_all add: apply_event_def split: etcd_event.split)

text \<open>The events of a watch up to its end.\<close>

fun watched :: "watch_response list \<Rightarrow> etcd_event list" where
  "watched [] = []"
| "watched (WatchError # rs) = []"
| "watched (WatchEvents evs r # rs) = evs @ watched rs"

lemma watchFrom_view:
  assumes "\<And>i a. unjson (mjson i a) = Some \<lparr>mem_id = i, mem_addr = a\<rparr>"
  shows "\<forall>ev \<in> set (watched rs). by_node mjson ev \<Longrightarrow> map_of (mb_members mb) = view unjson s \<Longrightarrow> False \<notin> set (mb_listeners mb) \<Longrightarrow>
    watchFrom unjson rs rv mb = (mb', rv') \<Longrightarrow>
    map_of (mb_members mb') = view unjson (fold etcd_apply (watched rs) s) \<and> False \<notin> set (mb_listeners mb')"
proof (induction rs arbitrary: rv mb s)
  case (Cons r rs)
  show ?case
  proof (cases r)
    case (WatchEvents evs n)
    let ?mb = "notify_listeners (fold (apply_event unjson) evs mb)"
    have "map_of (mb_members ?mb) = view unjson (fold etcd_apply evs s)"
      using apply_events_view [OF assms _ Cons.prems(2), of evs] Cons.prems(1) WatchEvents by (simp add: notify_listeners_def)
    moreover have "False \<notin> set (mb_listeners ?mb)" by (auto simp: notify_listeners_def)
    ultimately show ?thesis using Cons.IH [of ?mb "fold etcd_apply evs s" "n + 1"] Cons.prems WatchEvents by simp
  qed (use Cons.prems in simp)
qed simp

text \<open>C33: The gateway's view of the cluster is the registry. Where every node publishes itself as \<open>publish\<close>
  does, reading the registry and then applying the events of a watch from there leaves exactly the
  members the registry holds after those events, whatever order the read lists its keys in and
  wherever the watch ends; and every listener has a signal.\<close>

theorem members_follow_registry:
  assumes "\<And>i a. unjson (mjson i a) = Some \<lparr>mem_id = i, mem_addr = a\<rparr>"
    and "\<forall>ev \<in> set (evs @ watched rs). by_node mjson ev"
    and "distinct (map fst kvs)" and "map_of kvs = map_of (etcd_store evs)"
    and "resync unjson (Inr (kvs, r0)) mb = (mb1, Inr r1)" and "watchFrom unjson rs (r1 + 1) mb1 = (mb2, r2)"
  shows "Lookup_member mb2 i = view unjson (etcd_store (evs @ watched rs)) i \<and> False \<notin> set (mb_listeners mb2)"
proof -
  have n: "node_store mjson (etcd_store evs)" unfolding etcd_store_def
    by (rule node_store_events) (use assms(2) in \<open>auto simp: node_store_def\<close>)
  have k: "\<forall>kv \<in> set kvs. \<exists>i a. kv = (memberPrefix @ i, mjson i a)"
  proof
    fix kv assume "kv \<in> set kvs"
    then have "map_of kvs (fst kv) = Some (snd kv)" using assms(3) by simp
    then show "\<exists>i a. kv = (memberPrefix @ i, mjson i a)" using n unfolding assms(4) node_store_def by (metis prod.collapse)
  qed
  have mb1: "mb1 = setMembers (fold (\<lambda>kv. keep_member unjson (snd kv)) kvs []) mb" using assms(5) by (simp add: resync_def)
  have v: "map_of (mb_members mb1) = view unjson (etcd_store evs)"
    unfolding mb1 setMembers_def notify_listeners_def
    by (rule ext) (simp add: fold_keep_members [OF assms(1,3) k] view_def assms(4) split: option.split)
  have l: "False \<notin> set (mb_listeners mb1)" by (auto simp: mb1 setMembers_def notify_listeners_def)
  show ?thesis
    using watchFrom_view [OF assms(1) _ v l assms(6)] assms(2) by (simp add: Lookup_member_def etcd_store_def)
qed

text \<open>Two nodes, one of which leaves while the gateway watches; the watch breaks off then.\<close>

definition demo_mjson :: "string \<Rightarrow> string \<Rightarrow> string" where
  "demo_mjson i a = replicate (List.length i) CHR ''x'' @ '':'' @ i @ a"

definition demo_unjson :: "string \<Rightarrow> member option" where
  "demo_unjson s = (let n = List.length (takeWhile (\<lambda>c. c = CHR ''x'') s); r = drop (n + 1) s
     in Some \<lparr>mem_id = take n r, mem_addr = drop n r\<rparr>)"

lemma demo_json: "demo_unjson (demo_mjson i a) = Some \<lparr>mem_id = i, mem_addr = a\<rparr>"
proof -
  have "takeWhile (\<lambda>c. c = CHR ''x'') (demo_mjson i a) = replicate (List.length i) CHR ''x''"
    by (simp add: demo_mjson_def takeWhile_append takeWhile_replicate)
  then show ?thesis by (simp add: demo_unjson_def demo_mjson_def Let_def)
qed

definition demo_events :: "etcd_event list" where
  "demo_events = [EvPut (memberPrefix @ ''n1'') (demo_mjson ''n1'' ''a''), EvPut (memberPrefix @ ''n2'') (demo_mjson ''n2'' ''b'')]"

definition demo_watch :: "watch_response list" where
  "demo_watch = [WatchEvents [EvDelete (memberPrefix @ ''n1'')] 4, WatchError]"

definition demo_view :: membership where
  "demo_view = fst (watchFrom demo_unjson demo_watch 4 (fst (resync demo_unjson (Inr (rev (etcd_store demo_events), 3)) (fst (Changed new_membership)))))"

theorem members_follow_registry_witness:
  "Lookup_member demo_view ''n1'' = None \<and> Lookup_member demo_view ''n2'' = Some \<lparr>mem_id = ''n2'', mem_addr = ''b''\<rparr> \<and>
     False \<notin> set (mb_listeners demo_view)"
proof -
  have st: "etcd_store demo_events = [(memberPrefix @ ''n1'', demo_mjson ''n1'' ''a''), (memberPrefix @ ''n2'', demo_mjson ''n2'' ''b'')]"
    by (simp add: etcd_store_def etcd_apply_def demo_events_def)
  have e: "\<forall>ev \<in> set (demo_events @ watched demo_watch). by_node demo_mjson ev"
    by (auto simp: demo_events_def demo_watch_def by_node_def)
  have d: "distinct (map fst (rev (etcd_store demo_events)))" by (simp add: st)
  have m: "map_of (rev (etcd_store demo_events)) = map_of (etcd_store demo_events)" by (auto simp: st fun_eq_iff)
  obtain mb1 r1 where r: "resync demo_unjson (Inr (rev (etcd_store demo_events), 3)) (fst (Changed new_membership)) = (mb1, Inr r1)" "r1 = 3"
    by (simp add: resync_def)
  obtain mb2 r2 where w: "watchFrom demo_unjson demo_watch (r1 + 1) mb1 = (mb2, r2)" by fastforce
  have v: "demo_view = mb2" using r w by (simp add: demo_view_def)
  have s: "etcd_store (demo_events @ watched demo_watch) = [(memberPrefix @ ''n2'', demo_mjson ''n2'' ''b'')]"
    by (simp add: etcd_store_def etcd_apply_def demo_events_def demo_watch_def)
  note T = members_follow_registry [OF demo_json e d m r(1) w]
  have "view demo_unjson [(memberPrefix @ ''n2'', demo_mjson ''n2'' ''b'')] ''n1'' = None" by (simp add: view_def)
  moreover have "view demo_unjson [(memberPrefix @ ''n2'', demo_mjson ''n2'' ''b'')] ''n2'' = Some \<lparr>mem_id = ''n2'', mem_addr = ''b''\<rparr>"
    by (simp add: view_def demo_json)
  ultimately show ?thesis using T [of "''n1''"] T [of "''n2''"] by (simp add: s v)
qed

end
