(* ===== verification/GwValidate.thy ===== *)
theory GwValidate
  imports GwAdmin Layout
begin

text \<open>
  The gateway's HTTP layer, \<open>backend/gateway/controller\<close>: what decides whether a request is well formed
  (\<open>validate.go\<close>, the parsing functions of \<open>v1-*.go\<close>), who it is from (\<open>middlewares.go\<close>) and the status
  an error becomes (\<open>handlers.go\<close>).  A JSON body is the record it decodes to, or the text of the decoding
  error; a JSON number is a rational; strings are bytes.
\<close>

subsection \<open>Durations\<close>

text \<open>
  \<open>time.ParseDuration\<close>: one number with a unit after the other, with its bounds; the fraction is
  multiplied out exactly where the library uses floating point.
\<close>

definition duration_units :: "(string \<times> nat) list" where
  "duration_units = [(''ns'', 1), (''us'', 1000), ([CHR 0xC2, CHR 0xB5, CHR ''s''], 1000), ([CHR 0xCE, CHR 0xBC, CHR ''s''], 1000),
     (''ms'', 1000000), (''s'', 1000000000), (''m'', 60000000000), (''h'', 3600000000000)]"

text \<open>Digits at the front: their value, unless it passes \<open>2^63\<close>, and the rest.\<close>

definition leadingInt :: "string \<Rightarrow> nat option \<times> string" where
  "leadingInt s = (let ds = takeWhile is_digit s; v = dec_value ds in (if v > 2 ^ 63 then None else Some v, dropWhile is_digit s))"

text \<open>A fraction keeps the digits that fit; the others are read and dropped.\<close>

fun fraction_digits :: "nat \<Rightarrow> nat \<Rightarrow> string \<Rightarrow> nat \<times> nat" where
  "fraction_digits f scale [] = (f, scale)"
| "fraction_digits f scale (c # cs) =
     (if f > (2 ^ 63 - 1) div 10 \<or> f * 10 + (of_char c - 48) > 2 ^ 63 then (f, scale)
      else fraction_digits (f * 10 + (of_char c - 48)) (scale * 10) cs)"

definition leadingFraction :: "string \<Rightarrow> (nat \<times> nat) \<times> string" where
  "leadingFraction s = (fraction_digits 0 1 (takeWhile is_digit s), dropWhile is_digit s)"

definition starts_number :: "char \<Rightarrow> bool" where
  "starts_number c \<longleftrightarrow> c = CHR ''.'' \<or> is_digit c"

text \<open>One number with its unit: what it adds and the rest.\<close>

definition duration_part :: "string \<Rightarrow> (nat \<times> string) option" where
  "duration_part s =
     (case leadingInt s of
        (None, _) \<Rightarrow> None
      | (Some v, r) \<Rightarrow>
          (let pre = r \<noteq> s; dot = (r \<noteq> [] \<and> hd r = CHR ''.'');
               ((f, scale), r') = (if dot then leadingFraction (tl r) else ((0, 1), r));
               post = (dot \<and> r' \<noteq> tl r);
               u = takeWhile (\<lambda>c. \<not> starts_number c) r'; rest = dropWhile (\<lambda>c. \<not> starts_number c) r'
           in if \<not> pre \<and> \<not> post \<or> u = [] then None
              else case map_of duration_units u of
                     None \<Rightarrow> None
                   | Some unit \<Rightarrow>
                       (if v > 2 ^ 63 div unit then None
                        else let n = v * unit + f * unit div scale in if n > 2 ^ 63 then None else Some (n, rest))))"

function duration_parts :: "nat \<Rightarrow> string \<Rightarrow> nat option" where
  "duration_parts d s =
     (if s = [] then Some d
      else if \<not> starts_number (hd s) then None
      else case duration_part s of
             None \<Rightarrow> None
           | Some (n, rest) \<Rightarrow> if List.length rest \<ge> List.length s \<or> d + n > 2 ^ 63 then None else duration_parts (d + n) rest)"
  by pat_completeness auto
termination by (relation "measure (\<lambda>(_, s). List.length s)") auto

declare duration_parts.simps [simp del]

definition ParseDuration :: "string \<Rightarrow> duration option" where
  "ParseDuration s =
     (let neg = (s \<noteq> [] \<and> hd s = CHR ''-''); s = (if s \<noteq> [] \<and> (hd s = CHR ''-'' \<or> hd s = CHR ''+'') then tl s else s)
      in if s = ''0'' then Some 0
         else if s = [] then None
         else case duration_parts 0 s of
                None \<Rightarrow> None
              | Some d \<Rightarrow> if neg then Some (- int d) else if d > 2 ^ 63 - 1 then None else Some (int d))"

text \<open>The rest after a part is shorter, so the guard of the loop never decides.\<close>

lemma dropWhile_shorter: "List.length (dropWhile P s) \<le> List.length s"
  by (metis length_dropWhile_le)

lemma duration_part_shorter: "duration_part s = Some (n, rest) \<Longrightarrow> List.length rest < List.length s"
proof -
  assume p: "duration_part s = Some (n, rest)"
  define r where "r = dropWhile is_digit s"
  obtain v where v: "leadingInt s = (Some v, r)" using p by (auto simp: duration_part_def leadingInt_def r_def Let_def split: if_splits)
  define r' where "r' = (if r \<noteq> [] \<and> hd r = CHR ''.'' then dropWhile is_digit (tl r) else r)"
  have rr: "List.length r' \<le> List.length r"
    unfolding r'_def by (cases r) (auto intro: le_SucI dropWhile_shorter)
  have "rest = dropWhile (\<lambda>c. \<not> starts_number c) r'" and u: "takeWhile (\<lambda>c. \<not> starts_number c) r' \<noteq> []"
    using p v unfolding r'_def
    by (auto simp: duration_part_def leadingFraction_def Let_def case_prod_beta split: if_splits option.splits)
  then have "List.length rest < List.length r'"
    by (metis append_eq_conv_conj length_append less_add_same_cancel2 length_greater_0_conv takeWhile_dropWhile_id)
  with rr show ?thesis using dropWhile_shorter [of is_digit s] by (simp add: r_def)
qed

definition optDuration :: "string \<Rightarrow> string \<Rightarrow> err + duration" where
  "optDuration field s =
     (if s = [] then Inr 0
      else case ParseDuration s of
             None \<Rightarrow> Inl (Invalid (field @ '': bad duration '' @ quote s))
           | Some d \<Rightarrow> if d < 0 then Inl (Invalid (field @ '' must not be negative'')) else Inr d)"

subsection \<open>Priorities, payloads, names\<close>

datatype json_any = JNull | JNumber rat | JString string | JOther

text \<open>\<open>strings.ToUpper\<close>, as far as it can make an ASCII letter: from the small one, and the dotless i becomes I.\<close>

fun ToUpper :: "string \<Rightarrow> string" where
  "ToUpper [] = []"
| "ToUpper [c] = [if 97 \<le> (of_char c :: nat) \<and> (of_char c :: nat) \<le> 122 then char_of ((of_char c :: nat) - 32) else c]"
| "ToUpper (c # d # s) =
     (if c = CHR 0xC4 \<and> d = CHR 0xB1 then CHR ''I'' # ToUpper s
      else (if 97 \<le> (of_char c :: nat) \<and> (of_char c :: nat) \<le> 122 then char_of ((of_char c :: nat) - 32) else c) # ToUpper (d # s))"

definition parsePriority :: "json_any \<Rightarrow> err + u8" where
  "parsePriority v =
     (case v of
        JNull \<Rightarrow> Inr 50
      | JNumber x \<Rightarrow> if x < 0 \<or> x > 100 then Inl (Invalid ''priority must be 0-100'') else Inr (of_int \<lfloor>x\<rfloor>)
      | JString s \<Rightarrow>
          (if ToUpper s = ''HIGH'' then Inr 75 else if ToUpper s = ''MEDIUM'' then Inr 50 else if ToUpper s = ''LOW'' then Inr 25
           else case Atoi s of
                  None \<Rightarrow> Inl (Invalid ''priority must be 0-100, or HIGH, MEDIUM, LOW'')
                | Some n \<Rightarrow> if n < 0 \<or> n > 100 then Inl (Invalid ''priority must be 0-100, or HIGH, MEDIUM, LOW'') else Inr (of_int n))
      | JOther \<Rightarrow> Inl (Invalid ''priority must be a number or HIGH, MEDIUM, LOW''))"

text \<open>Base64 with padding: line breaks skipped, full groups of four, the two other characters of the alphabet.\<close>

definition std_b64_decode :: "string \<Rightarrow> string option" where
  "std_b64_decode s =
     (let s = filter (\<lambda>c. c \<noteq> char_of (10 :: nat) \<and> c \<noteq> char_of (13 :: nat)) s;
          n = List.length s;
          core = (if n \<ge> 2 \<and> drop (n - 2) s = ''=='' then take (n - 2) s
                  else if n \<ge> 1 \<and> drop (n - 1) s = ''='' then take (n - 1) s else s)
      in if n mod 4 \<noteq> 0 \<or> CHR ''-'' \<in> set core \<or> CHR ''_'' \<in> set core then None
         else b64_decode (map (\<lambda>c. if c = CHR ''+'' then CHR ''-'' else if c = CHR ''/'' then CHR ''_'' else c) core))"

definition as_bytes :: "string \<Rightarrow> bytes" where
  "as_bytes s = map (\<lambda>c. of_nat (of_char c)) s"

definition decodePayload :: "string \<Rightarrow> string \<Rightarrow> err + bytes" where
  "decodePayload s encoding =
     (if s = [] then Inl (Invalid ''payload is required'')
      else if encoding \<in> {[], ''text'', ''utf8'', ''utf-8''} then Inr (as_bytes s)
      else if encoding = ''base64''
      then (case std_b64_decode s of None \<Rightarrow> Inl (Invalid ''payload is not valid base64'') | Some b \<Rightarrow> Inr (as_bytes b))
      else Inl (Invalid ''payloadEncoding must be text or base64''))"

definition name_char :: "char \<Rightarrow> bool" where
  "name_char c \<longleftrightarrow> (let n = of_char c :: nat in c = CHR ''-'' \<or> c = CHR ''_'' \<or> 97 \<le> n \<and> n \<le> 122 \<or> 65 \<le> n \<and> n \<le> 90 \<or> 48 \<le> n \<and> n \<le> 57)"

text \<open>A rune outside ASCII is refused, and so is each of its bytes.\<close>

definition queueName :: "string \<Rightarrow> string \<Rightarrow> err option" where
  "queueName field name =
     (if name = [] then Some (Invalid (field @ '' is required''))
      else if List.length name > 128 then Some (Invalid (field @ '' must be 128 characters or fewer''))
      else if \<not> list_all name_char name then Some (Invalid (field @ '' may only contain letters, digits, - and _''))
      else None)"


subsection \<open>Creating and updating\<close>

definition DefaultPlacementWidth :: int where "DefaultPlacementWidth = 6"
definition MinPlacementWidth :: int where "MinPlacementWidth = 2"
definition MaxPlacementWidth :: int where "MaxPlacementWidth = 64"
definition MaxPayloadBytes :: nat where "MaxPayloadBytes = 256 * 1024"
definition MaxWaitTime :: duration where "MaxWaitTime = 20 * second"
definition MaxDequeueBatch :: int where "MaxDequeueBatch = 10"

text \<open>The fields of a creation body; absent is the zero value, or \<open>None\<close> for a pointer.\<close>

record createBody =
  cb_Name :: string
  cb_VisibilityTimeout :: string
  cb_MaxRetries :: "u32 option"
  cb_DefaultTTL :: string
  cb_StarvationThreshold :: string
  cb_StarvationReserve :: rat
  cb_StarvationAvoidanceEnabled :: "bool option"
  cb_MaxDepth :: int
  cb_DeadLetterQueue :: string
  cb_PlacementWidth :: int

definition settingsFrom :: "createBody \<Rightarrow> err + queueSettings" where
  "settingsFrom b =
     (case optDuration ''visibilityTimeout'' (cb_VisibilityTimeout b) of
        Inl e \<Rightarrow> Inl e
      | Inr vis \<Rightarrow>
     (case optDuration ''defaultTtl'' (cb_DefaultTTL b) of
        Inl e \<Rightarrow> Inl e
      | Inr ttl \<Rightarrow>
     (case optDuration ''starvationThreshold'' (cb_StarvationThreshold b) of
        Inl e \<Rightarrow> Inl e
      | Inr thr \<Rightarrow>
          (let thr = (if thr = 0 \<and> ttl > 0 then ttl div 4 else thr);
               s = \<lparr>gs_VisibilityTimeout = (if vis = 0 then 30 * second else vis),
                    gs_MaxRetries = (case cb_MaxRetries b of Some n \<Rightarrow> n | None \<Rightarrow> 3), gs_DefaultTTL = ttl, gs_StarvationThreshold = thr,
                    gs_StarvationReserve = (if cb_StarvationReserve b = 0 then 1 / 5 else cb_StarvationReserve b),
                    gs_StarvationAvoidanceEnabled = (case cb_StarvationAvoidanceEnabled b of Some x \<Rightarrow> x | None \<Rightarrow> False),
                    gs_MaxDepth = cb_MaxDepth b, gs_DeadLetterQueue = cb_DeadLetterQueue b, gs_PlacementWidth = cb_PlacementWidth b\<rparr>
           in if ttl > 0 \<and> thr \<ge> ttl
              then Inl (Invalid ''starvationThreshold must be below defaultTtl, or messages can expire while waiting'')
              else Inr s))))"

definition check_dlq_name :: "string \<Rightarrow> string \<Rightarrow> err option" where
  "check_dlq_name name dlq =
     (if dlq = [] then None
      else case queueName ''deadLetterQueue'' dlq of
             Some e \<Rightarrow> Some e
           | None \<Rightarrow> if dlq = name then Some (Invalid ''deadLetterQueue must not be the queue itself'') else None)"

text \<open>\<open>body\<close> is what \<open>decode\<close> made of the request; \<open>distributed\<close> is a field of the body of its own.\<close>

definition parseAndValidateCreateQueueRequest :: "err + createBody \<times> bool \<Rightarrow> string \<Rightarrow> err + createQueueRequest" where
  "parseAndValidateCreateQueueRequest body org =
     (case body of
        Inl e \<Rightarrow> Inl e
      | Inr (b, distributed) \<Rightarrow>
          (case queueName ''name'' (cb_Name b) of
             Some e \<Rightarrow> Inl e
           | None \<Rightarrow>
          (case check_dlq_name (cb_Name b) (cb_DeadLetterQueue b) of
             Some e \<Rightarrow> Inl e
           | None \<Rightarrow>
               (if cb_StarvationReserve b < 0 \<or> cb_StarvationReserve b \<ge> 1 then Inl (Invalid ''starvationReserve must be between 0 and 1'')
                else if cb_MaxDepth b < 0 then Inl (Invalid ''maxDepth must not be negative'')
                else if cb_PlacementWidth b \<noteq> 0 \<and> \<not> distributed then Inl (Invalid ''placementWidth only applies to a distributed queue'')
                else let b = (if distributed \<and> cb_PlacementWidth b = 0 then b\<lparr>cb_PlacementWidth := DefaultPlacementWidth\<rparr> else b)
                     in if distributed \<and> (cb_PlacementWidth b < MinPlacementWidth \<or> cb_PlacementWidth b > MaxPlacementWidth)
                        then Inl (Invalid ''placementWidth must be between 2 and 64'')
                        else case settingsFrom b of
                               Inl e \<Rightarrow> Inl e
                             | Inr s \<Rightarrow> Inr \<lparr>cr_Org = org, cr_Name = cb_Name b, cr_Distributed = distributed, cr_ParseQueueSettings = s\<rparr>))))"

definition parseAndValidateUpdateQueueRequest :: "err + createBody \<times> bool option \<Rightarrow> string \<Rightarrow> string \<Rightarrow> err + updateQueueRequest" where
  "parseAndValidateUpdateQueueRequest body org name =
     (case body of
        Inl e \<Rightarrow> Inl e
      | Inr (b, distributed) \<Rightarrow>
          (if distributed \<noteq> None \<or> cb_PlacementWidth b \<noteq> 0
           then Inl (Invalid ''placement is fixed at creation: it decides which slot a group lives in'')
           else case check_dlq_name name (cb_DeadLetterQueue b) of
                  Some e \<Rightarrow> Inl e
                | None \<Rightarrow>
                    (case settingsFrom b of
                       Inl e \<Rightarrow> Inl e
                     | Inr s \<Rightarrow> Inr \<lparr>ur_Org = org, ur_Name = name, ur_ParseQueueSettings = s\<rparr>)))"

subsection \<open>Messages\<close>

record enqueueBody =
  eb_Payload :: string
  eb_PayloadEncoding :: string
  eb_Priority :: json_any
  eb_GroupID :: string
  eb_TTL :: string
  eb_DeliverAfter :: string

definition parseAndValidateEnqueueRequest :: "err + enqueueBody \<Rightarrow> string \<Rightarrow> string \<Rightarrow> err + gwEnqueueRequest" where
  "parseAndValidateEnqueueRequest body org name =
     (case body of
        Inl e \<Rightarrow> Inl e
      | Inr b \<Rightarrow>
     (case decodePayload (eb_Payload b) (eb_PayloadEncoding b) of
        Inl e \<Rightarrow> Inl e
      | Inr pl \<Rightarrow>
     (if List.length pl > MaxPayloadBytes then Inl (Invalid ''payload must be 256 KiB or less'')
      else case parsePriority (eb_Priority b) of
        Inl e \<Rightarrow> Inl e
      | Inr pr \<Rightarrow>
     (case optDuration ''ttl'' (eb_TTL b) of
        Inl e \<Rightarrow> Inl e
      | Inr ttl \<Rightarrow>
     (case optDuration ''deliverAfter'' (eb_DeliverAfter b) of
        Inl e \<Rightarrow> Inl e
      | Inr dl \<Rightarrow> Inr \<lparr>ge_Org = org, ge_Queue = name, ge_GroupID = eb_GroupID b, ge_Body = pl, ge_PriorityValue = pr,
                       ge_TTLFor = ttl, ge_DeliverIn = dl\<rparr>)))))"

record dequeueBody =
  db_MaxMessages :: int
  db_WaitTimeRaw :: string

definition parseAndValidateDequeueRequest :: "err + dequeueBody \<Rightarrow> string \<Rightarrow> string \<Rightarrow> err + gwDequeueRequest" where
  "parseAndValidateDequeueRequest body org name =
     (case body of
        Inl e \<Rightarrow> Inl e
      | Inr b \<Rightarrow>
          (if db_MaxMessages b < 0 then Inl (Invalid ''maxMessages must not be negative'')
           else let n = (if db_MaxMessages b = 0 then 1 else db_MaxMessages b); n = (if n > MaxDequeueBatch then MaxDequeueBatch else n)
                in case optDuration ''waitTime'' (db_WaitTimeRaw b) of
                     Inl e \<Rightarrow> Inl e
                   | Inr t \<Rightarrow> Inr \<lparr>gq_Org = org, gq_Queue = name, gq_MaxMessages = n,
                                     gq_WaitTime = (if t > MaxWaitTime then MaxWaitTime else t)\<rparr>))"

definition parseAndValidateAckRequest :: "err + string \<Rightarrow> string \<Rightarrow> string \<Rightarrow> err + gwAckRequest" where
  "parseAndValidateAckRequest body org name =
     (case body of
        Inl e \<Rightarrow> Inl e
      | Inr rc \<Rightarrow> if rc = [] then Inl (Invalid ''receipt is required'') else Inr \<lparr>ga_Org = org, ga_Queue = name, ga_Receipt = rc\<rparr>)"

text \<open>The receipt and the delay of the body.\<close>

definition parseAndValidateNackRequest :: "err + string \<times> string \<Rightarrow> string \<Rightarrow> string \<Rightarrow> err + gwNackRequest" where
  "parseAndValidateNackRequest body org name =
     (case body of
        Inl e \<Rightarrow> Inl e
      | Inr (rc, dl) \<Rightarrow>
          (if rc = [] then Inl (Invalid ''receipt is required'')
           else case optDuration ''delay'' dl of
                  Inl e \<Rightarrow> Inl e
                | Inr d \<Rightarrow> Inr \<lparr>gn_Org = org, gn_Queue = name, gn_Receipt = rc, gn_DelayFor = d\<rparr>))"

subsection \<open>Handlers\<close>

text \<open>The status of an error, and a reply: its status with the error's text or the value encoded.\<close>

definition status_of :: "err \<Rightarrow> nat" where
  "status_of e = (case CodeOf e of CodeInvalid \<Rightarrow> 400 | CodeNotFound \<Rightarrow> 404 | CodeConflict \<Rightarrow> 409 | CodeExhausted \<Rightarrow> 503
     | CodeMoved \<Rightarrow> 503 | _ \<Rightarrow> 500)"

type_synonym 'a http_reply = "nat \<times> (string + 'a)"

definition writeErr :: "err \<Rightarrow> 'a http_reply" where
  "writeErr e = (status_of e, Inl (Error e))"

definition writeJSON :: "nat \<Rightarrow> 'a \<Rightarrow> 'a http_reply" where
  "writeJSON status v = (status, Inr v)"

text \<open>\<open>json.Decode\<close> answers the value or the text of what is wrong; an empty body is the zero value.\<close>

definition decode :: "bool \<Rightarrow> 'a \<Rightarrow> string + 'a \<Rightarrow> err + 'a" where
  "decode no_body zero parsed =
     (if no_body then Inr zero else case parsed of Inl m \<Rightarrow> Inl (Invalid (''malformed body: '' @ m)) | Inr v \<Rightarrow> Inr v)"

definition TrimPrefix :: "string \<Rightarrow> string \<Rightarrow> string" where
  "TrimPrefix s p = (if take (List.length p) s = p then drop (List.length p) s else s)"

text \<open>The credential first: everything after it works for one organisation.\<close>

definition withOrg :: "(string \<times> string) list \<Rightarrow> string \<Rightarrow> (string \<Rightarrow> 'n world \<Rightarrow> 'n world \<times> 'a http_reply) \<Rightarrow> 'n world \<Rightarrow> 'n world \<times> 'a http_reply" where
  "withOrg orgs header handler w =
     (case map_of orgs (TrimSpace (TrimPrefix header ''Bearer '')) of
        None \<Rightarrow> (w, writeErr (New_error CodeInvalid ''unknown or missing credential''))
      | Some org \<Rightarrow> handler org w)"

text \<open>A request that parsed is run; its outcome becomes the reply.\<close>

definition serve :: "err + 'q \<Rightarrow> ('q \<Rightarrow> 'n world \<Rightarrow> 'n world \<times> (err + 'a)) \<Rightarrow> ('a \<Rightarrow> nat) \<Rightarrow> 'n world \<Rightarrow> 'n world \<times> 'a http_reply" where
  "serve req run status w =
     (case req of
        Inl e \<Rightarrow> (w, writeErr e)
      | Inr q \<Rightarrow> (case run q w of (w, Inl e) \<Rightarrow> (w, writeErr e) | (w, Inr v) \<Rightarrow> (w, writeJSON (status v) v)))"

definition h_CreateQueue :: "err + createBody \<times> bool \<Rightarrow> string \<Rightarrow> 'n world \<Rightarrow> 'n world \<times> createQueueResponse http_reply" where
  "h_CreateQueue body org w = serve (parseAndValidateCreateQueueRequest body org) CreateQueue (\<lambda>r. if cs_Created r then 201 else 200) w"

definition h_UpdateQueue :: "err + createBody \<times> bool option \<Rightarrow> string \<Rightarrow> string \<Rightarrow> 'n world \<Rightarrow> 'n world \<times> queueSummary http_reply" where
  "h_UpdateQueue body name org w = serve (parseAndValidateUpdateQueueRequest body org name) UpdateQueue (\<lambda>_. 200) w"

definition h_DeleteQueue :: "'n nodeAPI \<Rightarrow> string \<Rightarrow> string \<Rightarrow> 'n world \<Rightarrow> 'n world \<times> unit http_reply" where
  "h_DeleteQueue api name org w = serve (Inr ()) (\<lambda>_. DeleteQueue api org name) (\<lambda>_. 202) w"

definition h_ListQueues :: "string \<Rightarrow> 'n world \<Rightarrow> 'n world \<times> queueSummary list http_reply" where
  "h_ListQueues org w = serve (Inr ()) (\<lambda>_. ListQueues org) (\<lambda>_. 200) w"

definition h_Enqueue :: "'n nodeAPI \<Rightarrow> (nat \<Rightarrow> bool) \<Rightarrow> err + enqueueBody \<Rightarrow> string \<Rightarrow> string \<Rightarrow> 'n world \<Rightarrow> 'n world \<times> string http_reply" where
  "h_Enqueue api cancelled body name org w = serve (parseAndValidateEnqueueRequest body org name) (Enqueue_gw api cancelled) (\<lambda>_. 201) w"

definition h_Ack :: "'n nodeAPI \<Rightarrow> (nat \<Rightarrow> bool) \<Rightarrow> err + string \<Rightarrow> string \<Rightarrow> string \<Rightarrow> 'n world \<Rightarrow> 'n world \<times> unit http_reply" where
  "h_Ack api cancelled body name org w = serve (parseAndValidateAckRequest body org name) (Ack_gw api cancelled) (\<lambda>_. 200) w"

definition h_Nack :: "'n nodeAPI \<Rightarrow> (nat \<Rightarrow> bool) \<Rightarrow> err + string \<times> string \<Rightarrow> string \<Rightarrow> string \<Rightarrow> 'n world \<Rightarrow> 'n world \<times> unit http_reply" where
  "h_Nack api cancelled body name org w = serve (parseAndValidateNackRequest body org name) (Nack_gw api cancelled) (\<lambda>_. 200) w"

text \<open>An empty batch is 204 without a body; \<open>None\<close> while the consumer is still parked.\<close>

definition h_Dequeue :: "'n nodeAPI \<Rightarrow> (nat \<Rightarrow> bool) \<Rightarrow> u16 list \<Rightarrow> (wait_event \<times> ('n world \<Rightarrow> 'n world)) list \<Rightarrow> err + dequeueBody \<Rightarrow> string \<Rightarrow> string
    \<Rightarrow> 'n world \<Rightarrow> 'n world \<times> clientMessage list http_reply option" where
  "h_Dequeue api cancelled order es body name org w =
     (case parseAndValidateDequeueRequest body org name of
        Inl e \<Rightarrow> (w, Some (writeErr e))
      | Inr req \<Rightarrow>
          (case Dequeue_gw api cancelled order es req w of
             (w, None) \<Rightarrow> (w, None)
           | (w, Some (Inl e)) \<Rightarrow> (w, Some (writeErr e))
           | (w, Some (Inr ms)) \<Rightarrow> (w, Some (writeJSON (if ms = [] then 204 else 200) ms))))"

end
