(* ===== verification/GwRequests.thy ===== *)
theory GwRequests
  imports GwValidate
begin

text \<open>What the gateway's validation guarantees of a request, and where its two validators differ.\<close>

subsection \<open>Accepted names and durations\<close>

lemma name_char_safe: "name_char c \<Longrightarrow> safe_rune (of_char c) \<and> (of_char c :: nat) < 128"
  by (auto simp: name_char_def safe_rune_def cont_def Let_def)

text \<open>An accepted name is its own directory name.\<close>

lemma queueName_dir: "queueName field name = None \<Longrightarrow> sanitise name = name \<and> 0 < List.length name \<and> List.length name \<le> 128"
proof -
  assume n: "queueName field name = None"
  then have c: "\<forall>c \<in> set name. name_char c" by (auto simp: queueName_def list_all_iff split: if_splits)
  have "runes (map of_char name) = map of_char name" by (rule runes_ascii) (use c name_char_safe in auto)
  moreover have "concat (map sanitise_rune (map of_char name)) = name"
    using c by (induction name) (use name_char_safe in \<open>auto simp: sanitise_rune_def\<close>)
  ultimately show ?thesis using n by (auto simp: sanitise_def queueName_def split: if_splits)
qed

lemma optDuration_range: "optDuration field s = Inr d \<Longrightarrow> 0 \<le> d \<and> d < 2 ^ 63"
proof -
  have "d < 2 ^ 63" if p: "ParseDuration s = Some d" for d
  proof -
    have "int n < 2 ^ 63" if "\<not> n > 2 ^ 63 - 1" for n :: nat
    proof -
      have "n < 2 ^ 63" using that by simp
      then show ?thesis by (metis of_nat_less_iff of_nat_numeral of_nat_power)
    qed
    with p show ?thesis by (auto simp: ParseDuration_def Let_def split: if_splits option.splits)
  qed
  then show "optDuration field s = Inr d \<Longrightarrow> 0 \<le> d \<and> d < 2 ^ 63" by (auto simp: optDuration_def split: if_splits option.splits)
qed

lemma settingsFrom_range:
  assumes "settingsFrom b = Inr s"
  shows "0 < gs_VisibilityTimeout s \<and> gs_VisibilityTimeout s < 2 ^ 63 \<and> 0 \<le> gs_DefaultTTL s \<and> gs_DefaultTTL s < 2 ^ 63 \<and>
      0 \<le> gs_StarvationThreshold s \<and> (0 < gs_DefaultTTL s \<longrightarrow> gs_StarvationThreshold s < gs_DefaultTTL s)"
    and "gs_StarvationReserve s = (if cb_StarvationReserve b = 0 then 1 / 5 else cb_StarvationReserve b)"
    and "gs_MaxDepth s = cb_MaxDepth b" "gs_DeadLetterQueue s = cb_DeadLetterQueue b" "gs_PlacementWidth s = cb_PlacementWidth b"
proof -
  obtain vis ttl thr where p: "optDuration ''visibilityTimeout'' (cb_VisibilityTimeout b) = Inr vis"
    "optDuration ''defaultTtl'' (cb_DefaultTTL b) = Inr ttl" "optDuration ''starvationThreshold'' (cb_StarvationThreshold b) = Inr thr"
    using assms by (auto simp: settingsFrom_def split: sum.splits)
  note r = p [THEN optDuration_range]
  show "0 < gs_VisibilityTimeout s \<and> gs_VisibilityTimeout s < 2 ^ 63 \<and> 0 \<le> gs_DefaultTTL s \<and> gs_DefaultTTL s < 2 ^ 63 \<and>
      0 \<le> gs_StarvationThreshold s \<and> (0 < gs_DefaultTTL s \<longrightarrow> gs_StarvationThreshold s < gs_DefaultTTL s)"
    using assms p r by (auto simp: settingsFrom_def Let_def second_def pos_imp_zdiv_nonneg_iff split: if_splits)
qed (use assms in \<open>auto simp: settingsFrom_def Let_def split: sum.splits if_splits\<close>)

text \<open>A queue that is created has settings in range. Whatever the body of a request to create a queue
  says, once it is accepted the name is 1 to 128 characters that are a directory name as they stand, the
  starvation reserve lies strictly between 0 and 1, the depth limit is not negative, the visibility
  timeout is positive, every duration fits 64 bits, a threshold lies below the expiry where there is
  one, the width is 2 to 64 for a distributed queue and 0 for any other, and the dead-letter queue is
  not the queue itself.\<close>

theorem created_queue_in_range:
  assumes "parseAndValidateCreateQueueRequest (Inr (b, distributed)) org = Inr r"
  shows "let s = cr_ParseQueueSettings r; name = cr_Name r
     in 0 < List.length name \<and> List.length name \<le> 128 \<and> sanitise name = name \<and> cr_Org r = org \<and>
        0 < gs_StarvationReserve s \<and> gs_StarvationReserve s < 1 \<and> 0 \<le> gs_MaxDepth s \<and>
        0 < gs_VisibilityTimeout s \<and> gs_VisibilityTimeout s < 2 ^ 63 \<and> 0 \<le> gs_DefaultTTL s \<and> gs_DefaultTTL s < 2 ^ 63 \<and>
        0 \<le> gs_StarvationThreshold s \<and> (0 < gs_DefaultTTL s \<longrightarrow> gs_StarvationThreshold s < gs_DefaultTTL s) \<and>
        (if cr_Distributed r then 2 \<le> gs_PlacementWidth s \<and> gs_PlacementWidth s \<le> 64 else gs_PlacementWidth s = 0) \<and>
        gs_DeadLetterQueue s \<noteq> name"
proof -
  define B where "B = (if distributed \<and> cb_PlacementWidth b = 0 then b\<lparr>cb_PlacementWidth := DefaultPlacementWidth\<rparr> else b)"
  have B: "cb_Name B = cb_Name b" "cb_StarvationReserve B = cb_StarvationReserve b" "cb_MaxDepth B = cb_MaxDepth b"
      "cb_DeadLetterQueue B = cb_DeadLetterQueue b" "\<not> distributed \<Longrightarrow> cb_PlacementWidth B = cb_PlacementWidth b"
    by (simp_all add: B_def)
  have q: "queueName ''name'' (cb_Name b) = None"
    using assms by (cases "queueName ''name'' (cb_Name b)") (simp_all add: parseAndValidateCreateQueueRequest_def)
  have dl: "check_dlq_name (cb_Name b) (cb_DeadLetterQueue b) = None"
    using assms q by (cases "check_dlq_name (cb_Name b) (cb_DeadLetterQueue b)") (simp_all add: parseAndValidateCreateQueueRequest_def)
  have rng: "\<not> (cb_StarvationReserve b < 0 \<or> cb_StarvationReserve b \<ge> 1)" "\<not> cb_MaxDepth b < 0" "\<not> (cb_PlacementWidth b \<noteq> 0 \<and> \<not> distributed)"
    using assms q dl by (simp_all add: parseAndValidateCreateQueueRequest_def split: if_splits)
  have p: "parseAndValidateCreateQueueRequest (Inr (b, distributed)) org =
    (if distributed \<and> (cb_PlacementWidth B < MinPlacementWidth \<or> cb_PlacementWidth B > MaxPlacementWidth)
     then Inl (Invalid ''placementWidth must be between 2 and 64'')
     else case settingsFrom B of Inl e \<Rightarrow> Inl e
      | Inr s \<Rightarrow> Inr \<lparr>cr_Org = org, cr_Name = cb_Name B, cr_Distributed = distributed, cr_ParseQueueSettings = s\<rparr>)"
    unfolding B_def using q dl rng by (auto simp: parseAndValidateCreateQueueRequest_def Let_def)
  then have w: "\<not> (distributed \<and> (cb_PlacementWidth B < MinPlacementWidth \<or> cb_PlacementWidth B > MaxPlacementWidth))"
    using assms by (auto split: if_splits)
  obtain s where s: "settingsFrom B = Inr s"
    and r: "r = \<lparr>cr_Org = org, cr_Name = cb_Name b, cr_Distributed = distributed, cr_ParseQueueSettings = s\<rparr>"
    using assms p w B(1) by (cases "settingsFrom B") auto
  note n = queueName_dir [OF q] and S = settingsFrom_range [OF s, unfolded B]
  have "cb_DeadLetterQueue b \<noteq> cb_Name b"
    using dl n by (auto simp: check_dlq_name_def split: if_splits option.splits)
  moreover have "0 < gs_StarvationReserve s \<and> gs_StarvationReserve s < 1" using S(2) rng(1) by auto
  moreover have "if distributed then 2 \<le> gs_PlacementWidth s \<and> gs_PlacementWidth s \<le> 64 else gs_PlacementWidth s = 0"
    using S(5) w B(5) rng(3) by (auto simp: MinPlacementWidth_def MaxPlacementWidth_def)
  ultimately show ?thesis using n S(1,3,4) rng(2) by (simp add: r Let_def)
qed

definition plain_body :: createBody where
  "plain_body = \<lparr>cb_Name = ''jobs'', cb_VisibilityTimeout = ''1m30s'', cb_MaxRetries = None, cb_DefaultTTL = ''1.5h'', cb_StarvationThreshold = [],
     cb_StarvationReserve = 0, cb_StarvationAvoidanceEnabled = Some True, cb_MaxDepth = 10, cb_DeadLetterQueue = [], cb_PlacementWidth = 0\<rparr>"

lemma plain_durations: "ParseDuration ''1m30s'' = Some (90 * second)" "ParseDuration ''1.5h'' = Some (5400 * second)"
  by (simp_all add: ParseDuration_def duration_parts.simps duration_part_def leadingInt_def leadingFraction_def is_digit_def dec_value_def
      starts_number_def duration_units_def second_def Let_def)

theorem created_queue_in_range_witness:
  "\<exists>r. parseAndValidateCreateQueueRequest (Inr (plain_body, True)) ''o'' = Inr r \<and> gs_PlacementWidth (cr_ParseQueueSettings r) = 6 \<and>
     gs_StarvationThreshold (cr_ParseQueueSettings r) = 1350 * second \<and> gs_StarvationReserve (cr_ParseQueueSettings r) < 1"
proof -
  have "queueName ''name'' ''jobs'' = None" by code_simp
  then obtain r where r: "parseAndValidateCreateQueueRequest (Inr (plain_body, True)) ''o'' = Inr r" "gs_PlacementWidth (cr_ParseQueueSettings r) = 6"
    "gs_StarvationThreshold (cr_ParseQueueSettings r) = 1350 * second"
    by (simp add: parseAndValidateCreateQueueRequest_def plain_body_def check_dlq_name_def settingsFrom_def optDuration_def plain_durations
        Let_def second_def MinPlacementWidth_def MaxPlacementWidth_def DefaultPlacementWidth_def)
  from created_queue_in_range [OF r(1)] r show ?thesis by (auto simp: Let_def)
qed

text \<open>Counterexample: updating skips the range checks of creating, although the comment on
  \<open>settingsFrom\<close> says the two cannot drift apart. Whatever its starvation reserve and depth limit,
  settings that parse are accepted by an update and stored as they are, while a creation with a
  negative limit or a reserve of one or more is refused.\<close>

theorem update_skips_range_checks:
  assumes "settingsFrom b = Inr s" and "cb_PlacementWidth b = 0" and "check_dlq_name name (cb_DeadLetterQueue b) = None"
    and "cb_StarvationReserve b < 0 \<or> cb_StarvationReserve b \<ge> 1 \<or> cb_MaxDepth b < 0"
  shows "parseAndValidateUpdateQueueRequest (Inr (b, None)) org name = Inr \<lparr>ur_Org = org, ur_Name = name, ur_ParseQueueSettings = s\<rparr> \<and>
    gs_MaxDepth s = cb_MaxDepth b \<and> (cb_StarvationReserve b \<noteq> 0 \<longrightarrow> gs_StarvationReserve s = cb_StarvationReserve b) \<and>
    isl (parseAndValidateCreateQueueRequest (Inr (b, distributed)) org)"
  using assms settingsFrom_range [OF assms(1)]
  by (auto simp: parseAndValidateUpdateQueueRequest_def parseAndValidateCreateQueueRequest_def split: option.split)

definition wild_body :: createBody where
  "wild_body = plain_body\<lparr>cb_StarvationReserve := 2, cb_MaxDepth := - 5\<rparr>"

theorem update_skips_range_checks_witness:
  "\<exists>r. parseAndValidateUpdateQueueRequest (Inr (wild_body, None)) ''o'' ''jobs'' = Inr r \<and> gs_MaxDepth (ur_ParseQueueSettings r) = - 5 \<and>
     gs_StarvationReserve (ur_ParseQueueSettings r) = 2 \<and> isl (parseAndValidateCreateQueueRequest (Inr (wild_body, False)) ''o'')"
proof -
  obtain s where s: "settingsFrom wild_body = Inr s"
    by (simp add: wild_body_def plain_body_def settingsFrom_def optDuration_def plain_durations Let_def second_def)
  have "cb_PlacementWidth wild_body = 0" "check_dlq_name ''jobs'' (cb_DeadLetterQueue wild_body) = None"
    "cb_StarvationReserve wild_body < 0 \<or> cb_StarvationReserve wild_body \<ge> 1 \<or> cb_MaxDepth wild_body < 0"
    "cb_MaxDepth wild_body = - 5" "cb_StarvationReserve wild_body = 2"
    by (simp_all add: wild_body_def plain_body_def check_dlq_name_def)
  with update_skips_range_checks [OF s this(1-3), of "''o''" False] show ?thesis by auto
qed

end
