(* ===== verification/GwRoutingProps.thy ===== *)
theory GwRoutingProps
  imports GwFrame GwRows Placement
begin

text \<open>
  Following a queue that moves: how often a request is tried, that it finds the new owner, and what a
  forged receipt does.
\<close>

subsection \<open>Attempts\<close>

text \<open>The world a request waits for after it was told that the queue has moved, with the placement read again.\<close>

definition reread :: "queueConfig \<Rightarrow> duration \<Rightarrow> 'n world \<Rightarrow> 'n world \<times> (err + queueConfig)" where
  "reread cfg pause w =
     config_for (qc_Org cfg) (qc_Name cfg) (evictCache (queueCacheKey (qc_Org cfg) (qc_Name cfg)) (w\<lparr>g_now := g_now w + pause\<rparr>))"

text \<open>What a request may do: \<open>tries run slot cfg w n w' r\<close> says that it ends with \<open>r\<close> after \<open>n\<close> calls, each to the
  owner on record at the time, the next one only because the last was told that the queue has moved.\<close>

inductive tries :: "(string \<Rightarrow> queueSpec \<Rightarrow> 'n world \<Rightarrow> 'n world \<times> (err + 'a)) \<Rightarrow> int \<Rightarrow> queueConfig \<Rightarrow> 'n world \<Rightarrow> nat \<Rightarrow> 'n world \<Rightarrow> err + 'a \<Rightarrow> bool"
  for run slot where
  NoOwner: "ownerAddr cfg slot w = (w', Inl e) \<Longrightarrow> tries run slot cfg w 0 w' (Inl e)"
| Answer: "ownerAddr cfg slot w = (w1, Inr (i, a)) \<Longrightarrow> run a (Spec cfg) w1 = (w', r) \<Longrightarrow> tries run slot cfg w 1 w' r"
| GiveUp: "ownerAddr cfg slot w = (w1, Inr (i, a)) \<Longrightarrow> run a (Spec cfg) w1 = (w', Inl e) \<Longrightarrow> CodeOf e = CodeMoved \<Longrightarrow>
    tries run slot cfg w 1 w' (Inl ctx_err)"
| NoConfig: "ownerAddr cfg slot w = (w1, Inr (i, a)) \<Longrightarrow> run a (Spec cfg) w1 = (w2, Inl e) \<Longrightarrow> CodeOf e = CodeMoved \<Longrightarrow>
    pause \<in> set moveBackoff \<Longrightarrow> reread cfg pause w2 = (w', Inl e') \<Longrightarrow> tries run slot cfg w 1 w' (Inl e')"
| Again: "ownerAddr cfg slot w = (w1, Inr (i, a)) \<Longrightarrow> run a (Spec cfg) w1 = (w2, Inl e) \<Longrightarrow> CodeOf e = CodeMoved \<Longrightarrow>
    pause \<in> set moveBackoff \<Longrightarrow> reread cfg pause w2 = (w3, Inr cfg') \<Longrightarrow> tries run slot cfg' w3 n w' r \<Longrightarrow>
    tries run slot cfg w (Suc n) w' r"

text \<open>One turn of the loop of \<open>withOwner\<close>.\<close>

lemma withOwner_turn:
  assumes "attempt < List.length moveBackoff + 1" and "ownerAddr cfg slot w = (w1, Inr (i, a))" and "run a (Spec cfg) w1 = (w2, r2)"
  shows "withOwner_loop run cancelled slot attempt cfg w =
    (case r2 of Inr r \<Rightarrow> (w2, Inr r)
     | Inl e \<Rightarrow> if CodeOf e \<noteq> CodeMoved \<or> attempt = List.length moveBackoff then (w2, Inl e)
         else if cancelled attempt then (w2, Inl ctx_err)
         else case reread cfg (moveBackoff ! attempt) w2 of
                (w4, Inl e) \<Rightarrow> (w4, Inl e) | (w4, Inr cfg') \<Rightarrow> withOwner_loop run cancelled slot (attempt + 1) cfg' w4)"
  unfolding withOwner_loop.simps [of run cancelled slot attempt cfg w]
  using assms by (simp add: reread_def Let_def split: sum.split)

lemma withOwner_loop_tries:
  assumes "attempt < List.length moveBackoff + 1"
  shows "\<exists>n \<le> List.length moveBackoff + 1 - attempt.
    tries run slot cfg w n (fst (withOwner_loop run cancelled slot attempt cfg w)) (snd (withOwner_loop run cancelled slot attempt cfg w))"
  using assms
proof (induction "List.length moveBackoff + 1 - attempt" arbitrary: attempt cfg w rule: less_induct)
  case less
  obtain w1 o1 where o: "ownerAddr cfg slot w = (w1, o1)" by fastforce
  show ?case
  proof (cases o1)
    case (Inl e)
    have "withOwner_loop run cancelled slot attempt cfg w = (w1, Inl e)"
      unfolding withOwner_loop.simps [of run cancelled slot attempt cfg w] using o Inl less.prems by simp
    then show ?thesis using tries.NoOwner o Inl by fastforce
  next
    case (Inr x)
    obtain i a where x: "x = (i, a)" by fastforce
    have o': "ownerAddr cfg slot w = (w1, Inr (i, a))" using o Inr x by simp
    obtain w2 r2 where c: "run a (Spec cfg) w1 = (w2, r2)" by fastforce
    note T = withOwner_turn [where run = run and cancelled = cancelled and attempt = attempt and cfg = cfg and slot = slot and w = w, OF less.prems o' c]
    have one: "1 \<le> List.length moveBackoff + 1 - attempt" using less.prems by simp
    show ?thesis
    proof (cases "\<exists>e. r2 = Inl e \<and> CodeOf e = CodeMoved \<and> attempt \<noteq> List.length moveBackoff \<and> \<not> cancelled attempt")
      case False
      then have "tries run slot cfg w 1 (fst (withOwner_loop run cancelled slot attempt cfg w)) (snd (withOwner_loop run cancelled slot attempt cfg w))"
        unfolding T using tries.Answer [where run = run, OF o' c] tries.GiveUp [where run = run and w' = w2, OF o'] c by (auto split: sum.split)
      then show ?thesis using one by blast
    next
      case True
      then obtain e where e: "r2 = Inl e" "CodeOf e = CodeMoved" "attempt < List.length moveBackoff" "\<not> cancelled attempt"
        using less.prems by auto
      have p: "moveBackoff ! attempt \<in> set moveBackoff" using e(3) by simp
      obtain w4 r4 where f: "reread cfg (moveBackoff ! attempt) w2 = (w4, r4)" by fastforce
      show ?thesis
      proof (cases r4)
        case (Inl e')
        then have "withOwner_loop run cancelled slot attempt cfg w = (w4, Inl e')" unfolding T using e f by simp
        with tries.NoConfig [where run = run, OF o' c [unfolded e(1)] e(2) p f [unfolded Inl]] one show ?thesis by fastforce
      next
        case (Inr cfg')
        have n: "attempt + 1 < List.length moveBackoff + 1" using e(3) by simp
        have "withOwner_loop run cancelled slot attempt cfg w = withOwner_loop run cancelled slot (attempt + 1) cfg' w4"
          unfolding T using e f Inr by simp
        moreover obtain n where "n \<le> List.length moveBackoff + 1 - (attempt + 1)"
          "tries run slot cfg' w4 n (fst (withOwner_loop run cancelled slot (attempt + 1) cfg' w4)) (snd (withOwner_loop run cancelled slot (attempt + 1) cfg' w4))"
          using less.hyps [OF _ n] e(3) by fastforce
        moreover note tries.Again [where run = run, OF o' c [unfolded e(1)] e(2) p f [unfolded Inr] calculation(3)]
        ultimately show ?thesis using e(3) by (intro exI [of _ "Suc n"]) auto
      qed
    qed
  qed
qed

text \<open>C29: A request that follows a moving queue ends after at most four calls. It calls the owner on record,
  and again only when told that the queue has moved and the placement could be read again; its outcome
  is that of the last call or of the read that failed, and so never the error \<open>withOwner\<close> has for a
  queue that moved repeatedly.\<close>

theorem requests_end:
  "\<exists>n \<le> 4. tries run slot cfg w n (fst (withOwner cancelled cfg slot run w)) (snd (withOwner cancelled cfg slot run w))"
proof -
  have l: "List.length moveBackoff + 1 - 0 = 4" by (simp add: moveBackoff_def)
  show ?thesis using withOwner_loop_tries [of 0 run slot cfg w cancelled] unfolding l withOwner_def by simp
qed


subsection \<open>Finding the new owner\<close>

lemma cache_deleted [simp]: "cache_Get (cache_Del k c) now k = None"
  by (simp add: cache_Get_def cache_Del_def delete_conv')

lemma db_asking: "g_faults w = [] \<Longrightarrow> db (asking q) w = (w, q (g_db w))"
  by (simp add: db_def asking_def next_fault_def no_fault_def)

text \<open>Without faults the placement read again is what the row says.\<close>

lemma reread_row:
  assumes "g_faults w = []" and "row_at (g_db w) (qc_Org cfg) (qc_Name cfg) = Some r" and "\<not> row_distributed r"
  shows "\<exists>w'. reread cfg pause w = (w', Inr (scanQueue r)) \<and> g_db w' = g_db w \<and> g_nodes w' = g_nodes w \<and> g_members w' = g_members w
    \<and> g_faults w' = [] \<and> g_conns w' = g_conns w"
proof -
  let ?k = "queueCacheKey (qc_Org cfg) (qc_Name cfg)"
  let ?w = "evictCache ?k (w\<lparr>g_now := g_now w + pause\<rparr>)"
  have g: "Get_row (qc_Org cfg) (qc_Name cfg) (g_db ?w) = Inr (scanQueue r)"
    using assms(2) by (simp add: Get_row_def row_at_def)
  have f: "g_faults ?w = []" using assms(1) by (simp add: evictCache_def)
  have "loadConfig (qc_Org cfg) (qc_Name cfg) ?w = (?w, Inr (scanQueue r))"
    using assms(3) by (simp only: loadConfig_def db_asking [OF f] g) (simp add: scanQueue_def)
  moreover have "cache_Get (g_cache ?w) (g_now ?w) ?k = None" by (simp add: evictCache_def)
  ultimately have "reread cfg pause w = (writeCache ?k (g_CacheTTL ?w) (C_Queue (scanQueue r)) ?w, Inr (scanQueue r))"
    by (simp add: reread_def config_for_def fetchViaCache_def Let_def)
  then show ?thesis using f by (intro exI) (auto simp: writeCache_def evictCache_def assms(1))
qed


text \<open>Two machines, the queue now on the second; only that one answers.\<close>

definition demo_run :: "string \<Rightarrow> queueSpec \<Rightarrow> host world \<Rightarrow> host world \<times> (err + nat)" where
  "demo_run addr spec w = (w, if addr = ''b'' then Inr 7 else Inl (Moved ''gone''))"


subsection \<open>Forged receipts\<close>

lemma CandidatesFor_not_Nil: "ms \<noteq> [] \<Longrightarrow> CandidatesFor k ms width \<noteq> []"
  using length_sort_by [of "ranked_before k" ms] by (auto simp: CandidatesFor_def simp del: length_sort_by)

text \<open>Counterexample: a forged receipt reaches behind the gateway's checks. The slot number in a receipt is used
  before any node has seen the receipt: on a distributed queue a number of 100000000 or more makes the
  gateway panic, and a smaller one that no slot has is given an owner, which is written to the
  placement table whatever the receipt is worth.\<close>

theorem forged_receipt:
  assumes "config_for (ga_Org req) (ga_Queue req) w = (w1, Inr cfg)" and "qc_Distributed cfg" and "g_members w1 \<noteq> []"
    and "slotFromReceipt (ga_Receipt req) = Inr slot" and "slot_owner (qc_SlotOwners cfg) (of_int slot) = []"
  shows "(10 ^ 8 \<le> slot \<longrightarrow> Ack_gw api cancelled req w = (w1, Inl panicked)) \<and>
    (0 \<le> slot \<and> slot < 10 ^ 8 \<and> g_faults w1 = [] \<longrightarrow>
       (\<exists>m w2. assignOwner w1 (qc_Org cfg) (qc_Name cfg) slot True (gs_PlacementWidth (qc_Settings cfg)) = Inr m \<and>
          ownerAddr cfg slot w1 = (w2, Inr (mem_id m, mem_addr m)) \<and>
          slot_row (g_db w2) (qc_Org cfg) (qc_Name cfg) (of_int slot) = Some (mem_id m)))"
proof (intro conjI impI)
  have st: "stored_owner cfg slot = []" using assms(2,5) by (simp add: stored_owner_def)
  have ack: "Ack_gw api cancelled req w = withOwner cancelled cfg slot
      (\<lambda>addr spec. node_call addr (\<lambda>cs addr dial net n. gw_Ack cs addr dial net (api_Ack api) spec (ga_Receipt req) n)) w1"
    using assms(1,4) by (simp add: Ack_gw_def)
  show "Ack_gw api cancelled req w = (w1, Inl panicked)" if "10 ^ 8 \<le> slot"
  proof -
    have "assignOwner w1 (qc_Org cfg) (qc_Name cfg) slot True width = Inl panicked" for width
      using assms(3) itoa_panics [OF that] by (simp add: assignOwner_def OwnerKey_def Let_def)
    then have "ownerAddr cfg slot w1 = (w1, Inl panicked)" using st assms(2) by (simp add: ownerAddr_def Let_def)
    then show ?thesis unfolding ack withOwner_def by (subst withOwner_loop.simps) simp
  qed
  assume s: "0 \<le> slot \<and> slot < 10 ^ 8 \<and> g_faults w1 = []"
  let ?width = "gs_PlacementWidth (qc_Settings cfg)"
  obtain k where k: "OwnerKey (qc_Org cfg) (qc_Name cfg) slot True = Some k" using itoa_small [of slot] s by (simp add: OwnerKey_def)
  have "CandidatesFor (gw_key (qc_Org cfg) (qc_Name cfg)) (g_members w1) ?width \<noteq> []" using assms(3) by (rule CandidatesFor_not_Nil)
  then obtain m where m: "OwnerFor k (CandidatesFor (gw_key (qc_Org cfg) (qc_Name cfg)) (g_members w1) ?width) = Some m"
    using OwnerFor_None by blast
  then have a: "assignOwner w1 (qc_Org cfg) (qc_Name cfg) slot True ?width = Inr m" using assms(3) k by (simp add: assignOwner_def Let_def)
  let ?t = "SetOwner_slot (qc_Org cfg) (qc_Name cfg) (of_int slot) (mem_id m) (qc_Generation cfg) (g_db w1)"
  have "ownerAddr cfg slot w1 = (evictCache (queueCacheKey (qc_Org cfg) (qc_Name cfg)) (w1\<lparr>g_db := ?t\<rparr>), Inr (mem_id m, mem_addr m))"
    using st a s assms(2) by (simp add: ownerAddr_def record_owner_def db_def quietly_def next_fault_def no_fault_def Let_def)
  moreover have "slot_row (g_db (evictCache (queueCacheKey (qc_Org cfg) (qc_Name cfg)) (w1\<lparr>g_db := ?t\<rparr>))) (qc_Org cfg) (qc_Name cfg) (of_int slot)
      = Some (mem_id m)" by (simp add: slot_row_SetOwner)
  ultimately show "\<exists>m w2. assignOwner w1 (qc_Org cfg) (qc_Name cfg) slot True ?width = Inr m \<and>
      ownerAddr cfg slot w1 = (w2, Inr (mem_id m, mem_addr m)) \<and> slot_row (g_db w2) (qc_Org cfg) (qc_Name cfg) (of_int slot) = Some (mem_id m)"
    using a by blast
qed

lemma config_cached:
  "cache_Get (g_cache w) (g_now w) (queueCacheKey org nm) = Some (Value (C_Queue c)) \<Longrightarrow> config_for org nm w = (w, Inr c)"
  by (simp add: config_for_def fetchViaCache_def)

lemma cache_written: "g_admit w \<Longrightarrow> cache_Get (g_cache (writeCache k 0 v w)) t k = Some (Value v)"
  by (simp add: writeCache_def cache_Get_def cache_Set_def jitter_def update_conv')

text \<open>A receipt nobody issued for slot 100000064; the gateway has the queue's configuration in its cache.\<close>

definition forged :: gwAckRequest where
  "forged = \<lparr>ga_Org = ''o'', ga_Queue = ''n'', ga_Receipt = b64_encode (dec_digits 100000064 @ '':a:1:1'')\<rparr>"

theorem forged_receipt_witness:
  "Ack_gw (host_api (\<lambda>_. [])) (\<lambda>_. False) forged (writeCache (queueCacheKey ''o'' ''n'') 0 (C_Queue demo_wide) (demo_world demo_wide leak1 []))
     = (writeCache (queueCacheKey ''o'' ''n'') 0 (C_Queue demo_wide) (demo_world demo_wide leak1 []), Inl panicked)"
proof -
  let ?w = "writeCache (queueCacheKey ''o'' ''n'') 0 (C_Queue demo_wide) (demo_world demo_wide leak1 [])"
  have c: "config_for (ga_Org forged) (ga_Queue forged) ?w = (?w, Inr demo_wide)"
    unfolding forged_def gwAckRequest.simps by (rule config_cached, rule cache_written) (simp add: demo_world_def)
  have d: "qc_Distributed demo_wide" "g_members ?w \<noteq> []" by (simp_all add: demo_wide_def writeCache_def demo_world_def demo_members_def)
  have s: "slotFromReceipt (ga_Receipt forged) = Inr 100000064"
  proof -
    have "split_at CHR '':'' (dec_digits 100000064 @ '':'' @ ''a:1:1'') = dec_digits 100000064 # split_at CHR '':'' ''a:1:1''"
      by (simp del: split_at.simps)
    moreover have "Atoi (dec_digits 100000064) = Some 100000064"
      using Atoi_ParseUint [OF ParseUint_digits [of 100000064 63]] by simp
    ultimately show ?thesis by (simp add: forged_def slotFromReceipt_def del: split_at.simps)
  qed
  have o: "slot_owner (qc_SlotOwners demo_wide) (of_int 100000064) = []" by (simp add: demo_wide_def slot_owner_def)
  show ?thesis using forged_receipt [OF c d s o, of "host_api (\<lambda>_. [])" "\<lambda>_. False"] by simp
qed

end
