(* ===== verification/GroupCommit.thy ===== *)
theory GroupCommit
  imports Prelude
begin

text \<open>
  The group commit of \<open>backend/queue/repo/walfile/wal.go\<close>: many appends to the log of one slot at once,
  one flush for all of them, and a compaction that swaps the file underneath.  What a goroutine does
  between taking the lock of a \<open>slotFile\<close> and giving it up is one event; a run is any sequence of
  events, so every interleaving is one.  Appended records are numbered as \<open>written\<close> numbers them.
  A file is what has been written to it and, of that, what survives a loss of power; what a flush
  answers, and whether a file can be opened again, is part of the event.
\<close>

subsection \<open>The state\<close>

text \<open>
  An append in \<open>syncThrough\<close>: \<open>Waiting seq\<close> in \<open>cond.Wait\<close>; \<open>Leading seq target f\<close> has set \<open>syncing\<close> and let go of
  the lock to flush \<open>f\<close>; \<open>Flushing\<close> is inside \<open>f.Sync\<close>, with the records the file held when it was called;
  \<open>Returned seq ok\<close> is done.
\<close>

datatype appender = Idle | Waiting nat | Leading nat nat nat | Flushing nat nat nat "nat list" | Returned nat bool

record slotFile =
  sf_written :: nat
  sf_synced :: nat
  sf_flushes :: nat
  sf_syncing :: bool
  sf_syncErr :: bool
  sf_f :: nat

text \<open>The files by handle, the one at the path and those already closed.\<close>

record logFile =
  gc_sf :: slotFile
  gc_threads :: "nat \<Rightarrow> appender"
  gc_wrote :: "nat \<Rightarrow> nat list"
  gc_safe :: "nat \<Rightarrow> nat list"
  gc_path :: nat
  gc_closed :: "nat list"
  gc_next :: nat

definition newSlotFile :: "nat \<Rightarrow> slotFile" where
  "newSlotFile f = \<lparr>sf_written = 0, sf_synced = 0, sf_flushes = 0, sf_syncing = False, sf_syncErr = False, sf_f = f\<rparr>"

definition opened :: logFile where
  "opened = \<lparr>gc_sf = newSlotFile 0, gc_threads = (\<lambda>_. Idle), gc_wrote = (\<lambda>_. []), gc_safe = (\<lambda>_. []), gc_path = 0, gc_closed = [], gc_next = 1\<rparr>"

definition set_thread :: "nat \<Rightarrow> appender \<Rightarrow> logFile \<Rightarrow> logFile" where
  "set_thread t a g = g\<lparr>gc_threads := (gc_threads g)(t := a)\<rparr>"

subsection \<open>Operations\<close>

text \<open>\<open>syncThrough\<close> up to where it waits, returns or lets go of the lock to flush.\<close>

definition syncThrough :: "nat \<Rightarrow> nat \<Rightarrow> logFile \<Rightarrow> logFile" where
  "syncThrough t seq g =
     (let sf = gc_sf g
      in if sf_synced sf \<ge> seq then set_thread t (Returned seq (\<not> sf_syncErr sf)) g
         else if sf_syncing sf then set_thread t (Waiting seq) g
         else set_thread t (Leading seq (sf_written sf) (sf_f sf)) (g\<lparr>gc_sf := sf\<lparr>sf_syncing := True, sf_flushes := sf_flushes sf + 1\<rparr>\<rparr>))"

text \<open>The rest of \<open>syncThrough\<close>, with what the flush answered.\<close>

definition flushed :: "nat \<Rightarrow> nat \<Rightarrow> nat \<Rightarrow> bool \<Rightarrow> logFile \<Rightarrow> logFile" where
  "flushed t seq target ok g =
     (let sf = gc_sf g
      in set_thread t (Returned seq ok)
           (g\<lparr>gc_sf := sf\<lparr>sf_synced := (if ok \<and> target > sf_synced sf then target else sf_synced sf), sf_syncErr := \<not> ok, sf_syncing := False\<rparr>\<rparr>))"

definition write_record :: "logFile \<Rightarrow> logFile" where
  "write_record g =
     (let sf = gc_sf g; n = sf_written sf + 1
      in g\<lparr>gc_wrote := (gc_wrote g)(sf_f sf := n # gc_wrote g (sf_f sf)), gc_sf := sf\<lparr>sf_written := n\<rparr>\<rparr>)"

text \<open>
  The swap of \<open>Compact\<close>, under both locks: the new file describes all that the file at the path held and
  is flushed before it takes its place.  Where it cannot be opened again the error is returned with the
  old handle still in use.
\<close>

definition swap_file :: "bool \<Rightarrow> logFile \<Rightarrow> logFile" where
  "swap_file reopened g =
     (let h = gc_next g; sf = gc_sf g; old = gc_wrote g (gc_path g);
          g = g\<lparr>gc_wrote := (gc_wrote g)(h := old), gc_safe := (gc_safe g)(h := old), gc_path := h, gc_next := h + 1\<rparr>
      in if reopened then g\<lparr>gc_sf := sf\<lparr>sf_f := h\<rparr>, gc_closed := sf_f sf # gc_closed g\<rparr> else g)"

text \<open>
  What can happen: a durable append arrives and one that needs no flush; the periodic flush asks for all
  that is written; a waiting append wakes; a flush is called, on a file that may be closed by then, and
  answers; a compaction swaps the file.
\<close>

datatype event = Append nat | Quiet | SyncAll nat | Wake nat | Call nat | Answer nat bool | Swap bool

fun happen :: "event \<Rightarrow> logFile \<Rightarrow> logFile option" where
  "happen (Append t) g = (if gc_threads g t = Idle then (let g = write_record g in Some (syncThrough t (sf_written (gc_sf g)) g)) else None)"
| "happen Quiet g = Some (write_record g)"
| "happen (SyncAll t) g = (if gc_threads g t = Idle then Some (syncThrough t (sf_written (gc_sf g)) g) else None)"
| "happen (Wake t) g = (case gc_threads g t of Waiting seq \<Rightarrow> Some (syncThrough t seq g) | _ \<Rightarrow> None)"
| "happen (Call t) g = (case gc_threads g t of
     Leading seq target f \<Rightarrow>
       Some (if f \<in> set (gc_closed g) then flushed t seq target False g else set_thread t (Flushing seq target f (gc_wrote g f)) g)
   | _ \<Rightarrow> None)"
| "happen (Answer t ok) g = (case gc_threads g t of
     Flushing seq target f rs \<Rightarrow>
       Some (flushed t seq target ok (if ok then g\<lparr>gc_safe := (gc_safe g)(f := rs @ gc_safe g f)\<rparr> else g))
   | _ \<Rightarrow> None)"
| "happen (Swap reopened) g = Some (swap_file reopened g)"

fun runs :: "event list \<Rightarrow> logFile \<Rightarrow> logFile option" where
  "runs [] g = Some g"
| "runs (e # es) g = (case happen e g of None \<Rightarrow> None | Some g' \<Rightarrow> runs es g')"

text \<open>The record survives a loss of power: it is in what is safe of the file at the path.\<close>

definition survives :: "logFile \<Rightarrow> nat \<Rightarrow> bool" where
  "survives g n \<longleftrightarrow> n \<in> set (gc_safe g (gc_path g))"

subsection \<open>What was flushed survives\<close>

text \<open>
  What holds between events as long as the file is reopened: the handle in use is the file at the path
  and has everything; what is counted as flushed survives; so does what a flush under way will have
  flushed, in the file it was called on, or in the one that replaced it.
\<close>

definition saved :: "logFile \<Rightarrow> nat \<Rightarrow> bool" where
  "saved g n \<longleftrightarrow> (\<forall>i. 1 \<le> i \<and> i \<le> n \<longrightarrow> survives g i)"

definition thread_ok :: "logFile \<Rightarrow> appender \<Rightarrow> bool" where
  "thread_ok g a \<longleftrightarrow>
     (case a of
        Leading seq target f \<Rightarrow> seq \<le> target \<and> target \<le> sf_written (gc_sf g) \<and> (f = gc_path g \<or> f \<in> set (gc_closed g))
      | Flushing seq target f rs \<Rightarrow> seq \<le> target \<and> target \<le> sf_written (gc_sf g) \<and>
          (f = gc_path g \<and> {1..target} \<subseteq> set rs \<or> f \<in> set (gc_closed g) \<and> saved g target)
      | Returned seq ok \<Rightarrow> ok \<longrightarrow> seq \<le> sf_written (gc_sf g) \<and> saved g seq
      | Waiting seq \<Rightarrow> seq \<le> sf_written (gc_sf g)
      | Idle \<Rightarrow> True)"

definition group_ok :: "logFile \<Rightarrow> bool" where
  "group_ok g \<longleftrightarrow> sf_f (gc_sf g) = gc_path g \<and> gc_path g < gc_next g \<and> gc_path g \<notin> set (gc_closed g) \<and> (\<forall>h \<in> set (gc_closed g). h < gc_next g) \<and>
     {1..sf_written (gc_sf g)} \<subseteq> set (gc_wrote g (gc_path g)) \<and>
     sf_synced (gc_sf g) \<le> sf_written (gc_sf g) \<and> saved g (sf_synced (gc_sf g)) \<and> (\<forall>t. thread_ok g (gc_threads g t))"

lemma group_okD:
  assumes "group_ok g"
  shows "sf_f (gc_sf g) = gc_path g" "gc_path g < gc_next g" "gc_path g \<notin> set (gc_closed g)" "h \<in> set (gc_closed g) \<Longrightarrow> h < gc_next g"
    "{1..sf_written (gc_sf g)} \<subseteq> set (gc_wrote g (gc_path g))" "sf_synced (gc_sf g) \<le> sf_written (gc_sf g)" "saved g (sf_synced (gc_sf g))"
    "thread_ok g (gc_threads g t)"
  using assms by (auto simp: group_ok_def)

lemma saved_le: "saved g n \<Longrightarrow> m \<le> n \<Longrightarrow> saved g m"
  by (auto simp: saved_def)

lemma saved_cong: "gc_safe g' = gc_safe g \<Longrightarrow> gc_path g' = gc_path g \<Longrightarrow> saved g' n = saved g n"
  by (simp add: saved_def survives_def)

lemma thread_ok_mono:
  "thread_ok g a \<Longrightarrow> sf_written (gc_sf g) \<le> sf_written (gc_sf g') \<Longrightarrow> gc_path g' = gc_path g \<Longrightarrow> gc_closed g' = gc_closed g \<Longrightarrow>
   (\<And>n. saved g n \<Longrightarrow> saved g' n) \<Longrightarrow> thread_ok g' a"
  by (auto simp: thread_ok_def split: appender.splits)

text \<open>A step that changes one thread and leaves path and handles alone.\<close>

lemma group_ok_thread:
  assumes "group_ok g" and "gc_threads g' = (gc_threads g)(t := a)" and "thread_ok g' a"
    and "gc_path g' = gc_path g" "gc_closed g' = gc_closed g" "gc_next g' = gc_next g" "gc_wrote g' = gc_wrote g"
    and "sf_f (gc_sf g') = sf_f (gc_sf g)" "sf_written (gc_sf g') = sf_written (gc_sf g)" "sf_synced (gc_sf g') \<le> sf_written (gc_sf g)"
    and "saved g' (sf_synced (gc_sf g'))" and "\<And>n. saved g n \<Longrightarrow> saved g' n"
  shows "group_ok g'"
proof -
  have "thread_ok g' (gc_threads g u)" for u
    by (rule thread_ok_mono [OF group_okD(8) [OF assms(1)]]) (use assms in auto)
  then show ?thesis using assms by (auto simp: group_ok_def)
qed

lemma syncThrough_ok:
  assumes "group_ok g" and "seq \<le> sf_written (gc_sf g)"
  shows "group_ok (syncThrough t seq g)"
proof -
  note D = group_okD [OF assms(1)]
  have sv: "saved (syncThrough t seq g) n = saved g n" for n
    by (rule saved_cong) (simp_all add: syncThrough_def set_thread_def Let_def)
  consider "seq \<le> sf_synced (gc_sf g)" | "\<not> seq \<le> sf_synced (gc_sf g)" "sf_syncing (gc_sf g)" | "\<not> seq \<le> sf_synced (gc_sf g)" "\<not> sf_syncing (gc_sf g)"
    by blast
  then show ?thesis
  proof cases
    case 1
    then have "syncThrough t seq g = set_thread t (Returned seq (\<not> sf_syncErr (gc_sf g))) g" by (simp add: syncThrough_def Let_def)
    then show ?thesis using sv saved_le [OF D(7) 1] assms(2) D
      by (intro group_ok_thread [OF assms(1), of _ t "Returned seq (\<not> sf_syncErr (gc_sf g))"]) (auto simp: set_thread_def thread_ok_def saved_def survives_def)
  next
    case 2
    then have "syncThrough t seq g = set_thread t (Waiting seq) g" by (simp add: syncThrough_def Let_def)
    then show ?thesis using sv assms(2) D
      by (intro group_ok_thread [OF assms(1), of _ t "Waiting seq"]) (auto simp: set_thread_def thread_ok_def saved_def survives_def)
  next
    case 3
    then show ?thesis using sv assms(2) D
      by (intro group_ok_thread [OF assms(1), of _ t "Leading seq (sf_written (gc_sf g)) (sf_f (gc_sf g))"])
        (auto simp: syncThrough_def set_thread_def thread_ok_def saved_def survives_def Let_def)
  qed
qed

lemma flushed_ok:
  assumes "group_ok g" and "ok \<Longrightarrow> seq \<le> target \<and> target \<le> sf_written (gc_sf g) \<and> saved g target"
  shows "group_ok (flushed t seq target ok g)"
proof -
  note D = group_okD [OF assms(1)]
  have sv: "saved (flushed t seq target ok g) n = saved g n" for n
    by (rule saved_cong) (simp_all add: flushed_def set_thread_def Let_def)
  have "ok \<Longrightarrow> saved g seq" using assms(2) saved_le by blast
  then show ?thesis using sv assms(2) D
    by (intro group_ok_thread [OF assms(1), of _ t "Returned seq ok"])
      (auto simp: flushed_def set_thread_def thread_ok_def saved_def survives_def Let_def)
qed

lemma write_ok: assumes "group_ok g" shows "group_ok (write_record g)"
proof -
  note D = group_okD [OF assms]
  have sv: "saved (write_record g) n = saved g n" for n by (rule saved_cong) (simp_all add: write_record_def Let_def)
  have th: "thread_ok (write_record g) (gc_threads g t)" for t
    by (rule thread_ok_mono [OF D(8)]) (auto simp: write_record_def Let_def saved_def survives_def)
  have "{1..Suc (sf_written (gc_sf g))} \<subseteq> insert (Suc (sf_written (gc_sf g))) (set (gc_wrote g (gc_path g)))"
    using D(5) by (auto simp: le_Suc_eq)
  moreover have "saved (write_record g) (sf_synced (gc_sf g))" using sv D(7) by simp
  ultimately show ?thesis using D(1-4,6) th by (auto simp: group_ok_def write_record_def Let_def)
qed

lemma swap_ok: assumes "group_ok g" shows "group_ok (swap_file True g)"
proof -
  note D = group_okD [OF assms]
  let ?g = "swap_file True g"
  have sv: "saved ?g n" if "n \<le> sf_written (gc_sf g)" for n
    using that D(5) by (auto simp: saved_def survives_def swap_file_def Let_def)
  have cl: "gc_next g \<notin> set (gc_closed g)" using D(4) by blast
  have "thread_ok ?g (gc_threads g t)" for t
    using D(8) [of t] D(1) sv
    by (auto simp: thread_ok_def swap_file_def Let_def split: appender.splits)
  then show ?thesis using D cl sv [OF D(6)] by (auto simp: group_ok_def swap_file_def Let_def less_SucI)
qed

lemma answer_ok:
  assumes "group_ok g" and "gc_threads g t = Flushing seq target f rs"
  shows "group_ok (g\<lparr>gc_safe := (gc_safe g)(f := rs @ gc_safe g f)\<rparr>)" and "saved (g\<lparr>gc_safe := (gc_safe g)(f := rs @ gc_safe g f)\<rparr>) target"
proof -
  let ?g = "g\<lparr>gc_safe := (gc_safe g)(f := rs @ gc_safe g f)\<rparr>"
  note D = group_okD [OF assms(1)]
  have sv: "saved g n \<Longrightarrow> saved ?g n" for n by (auto simp: saved_def survives_def)
  have "thread_ok ?g (gc_threads g u)" for u by (rule thread_ok_mono [OF D(8)]) (simp_all add: sv)
  then show "group_ok ?g" using D sv by (auto simp: group_ok_def)
  show "saved ?g target" using D(8) [of t] D(3) assms(2) sv
    by (auto simp: thread_ok_def saved_def survives_def subset_iff)
qed

lemma happen_ok:
  assumes "happen e g = Some g'" and "group_ok g" and "e \<noteq> Swap False"
  shows "group_ok g'"
proof (cases e)
  case (Append t)
  have "group_ok (write_record g)" by (rule write_ok [OF assms(2)])
  then show ?thesis using assms(1) Append by (auto simp: Let_def split: if_splits intro: syncThrough_ok)
next
  case Quiet
  then show ?thesis using assms(1) write_ok [OF assms(2)] by simp
next
  case (SyncAll t)
  then show ?thesis using assms(1,2) by (auto split: if_splits intro: syncThrough_ok)
next
  case (Wake t)
  then obtain seq where "gc_threads g t = Waiting seq" "g' = syncThrough t seq g" using assms(1) by (auto split: appender.splits)
  then show ?thesis using syncThrough_ok [OF assms(2)] group_okD(8) [OF assms(2), of t] by (simp add: thread_ok_def)
next
  case (Call t)
  then obtain seq target f where L: "gc_threads g t = Leading seq target f"
    "g' = (if f \<in> set (gc_closed g) then flushed t seq target False g else set_thread t (Flushing seq target f (gc_wrote g f)) g)"
    using assms(1) by (auto split: appender.splits)
  note D = group_okD [OF assms(2)]
  show ?thesis
  proof (cases "f \<in> set (gc_closed g)")
    case False
    have "f = gc_path g" "seq \<le> target" "target \<le> sf_written (gc_sf g)" using D(8) [of t] L(1) False by (auto simp: thread_ok_def)
    moreover from this have "{1..target} \<subseteq> set (gc_wrote g f)" using D(5) by fastforce
    ultimately show ?thesis using L(2) False D
      by (intro group_ok_thread [OF assms(2), of _ t "Flushing seq target f (gc_wrote g f)"])
        (auto simp: set_thread_def thread_ok_def saved_def survives_def)
  qed (use L in \<open>auto intro: flushed_ok [OF assms(2)]\<close>)
next
  case (Answer t ok)
  then obtain seq target f rs where F: "gc_threads g t = Flushing seq target f rs"
    "g' = flushed t seq target ok (if ok then g\<lparr>gc_safe := (gc_safe g)(f := rs @ gc_safe g f)\<rparr> else g)"
    using assms(1) by (auto split: appender.splits)
  have b: "seq \<le> target" "target \<le> sf_written (gc_sf g)" using group_okD(8) [OF assms(2), of t] F(1) by (auto simp: thread_ok_def)
  show ?thesis
  proof (cases ok)
    case True
    then show ?thesis using F(2) b answer_ok [OF assms(2) F(1)] by (auto intro!: flushed_ok)
  qed (use F(2) in \<open>auto intro: flushed_ok [OF assms(2)]\<close>)
next
  case (Swap r)
  then show ?thesis using assms swap_ok [OF assms(2)] by (cases r) auto
qed

lemma opened_ok: "group_ok opened"
  by (simp add: group_ok_def opened_def newSlotFile_def saved_def thread_ok_def)

lemma runs_ok: "runs es g = Some g' \<Longrightarrow> group_ok g \<Longrightarrow> Swap False \<notin> set es \<Longrightarrow> group_ok g'"
  by (induction es arbitrary: g) (auto split: option.splits dest: happen_ok)


text \<open>Two appends share the second flush, which a compaction overtakes.\<close>

definition shared_flush :: "event list" where
  "shared_flush = [Append 0, Call 0, Append 1, Append 2, Answer 0 True, Wake 1, Call 1, Swap True, Answer 1 True, Wake 2]"


text \<open>Counterexample: once a compacted file could not be opened again, appends are reported durable and lost.
  \<open>Compact\<close> has put the new file in the old one's place when it tries to open it; where that fails it returns
  the error and leaves the old handle in use, whose file has no name any more. The next append writes
  there, its flush succeeds, and nothing of it is in the file replay reads.\<close>

theorem reopen_failure_loses:
  "\<exists>g. runs [Append 0, Call 0, Answer 0 True, Swap False, Append 1, Call 1, Answer 1 True] opened = Some g \<and>
     gc_threads g 1 = Returned 2 True \<and> 2 \<notin> set (gc_wrote g (gc_path g)) \<and> \<not> survives g 2"
  by (simp add: opened_def newSlotFile_def syncThrough_def flushed_def write_record_def swap_file_def set_thread_def survives_def Let_def)

text \<open>Counterexample: an append is reported failed and survives. The append has let go of the lock to flush when a
  compaction swaps the file and closes the old handle, so the flush is called on a closed file; the
  record is safe in the new file all the same, and comes back at the next replay although the client
  was told that it was refused.\<close>

theorem compaction_fails_append:
  "\<exists>g. runs [Append 0, Swap True, Call 0] opened = Some g \<and> gc_threads g 0 = Returned 1 False \<and> survives g 1"
  by (simp add: opened_def newSlotFile_def syncThrough_def flushed_def write_record_def swap_file_def set_thread_def survives_def Let_def)

subsection \<open>One flush at a time, and no one waits for none\<close>

fun busy :: "appender \<Rightarrow> bool" where
  "busy (Leading _ _ _) = True" | "busy (Flushing _ _ _ _) = True" | "busy _ = False"

definition one_flush :: "logFile \<Rightarrow> bool" where
  "one_flush g \<longleftrightarrow> (if sf_syncing (gc_sf g) then \<exists>!t. busy (gc_threads g t) else \<forall>t. \<not> busy (gc_threads g t))"

lemma one_flush_quiet:
  assumes "one_flush g" and "gc_threads g' = (gc_threads g)(t := a)" and "\<not> busy a" and "\<not> busy (gc_threads g t)"
    and "sf_syncing (gc_sf g') = sf_syncing (gc_sf g)"
  shows "one_flush g'"
proof -
  have "busy (gc_threads g' u) = busy (gc_threads g u)" for u using assms by simp
  then show ?thesis using assms(1,5) by (simp add: one_flush_def)
qed

lemma syncThrough_one: "one_flush g \<Longrightarrow> \<not> busy (gc_threads g t) \<Longrightarrow> one_flush (syncThrough t seq g)"
proof -
  assume o: "one_flush g" and b: "\<not> busy (gc_threads g t)"
  show ?thesis
  proof (cases "seq \<le> sf_synced (gc_sf g) \<or> sf_syncing (gc_sf g)")
    case True
    then show ?thesis using o b
      by (auto intro!: one_flush_quiet [of g _ t] simp: syncThrough_def set_thread_def Let_def)
  next
    case False
    then have "\<forall>u. \<not> busy (gc_threads g u)" using o by (simp add: one_flush_def)
    then show ?thesis using False by (auto simp: one_flush_def syncThrough_def set_thread_def Let_def)
  qed
qed

lemma flushed_one: "one_flush g \<Longrightarrow> busy (gc_threads g t) \<Longrightarrow> one_flush (flushed t seq target ok g)"
  by (auto simp: one_flush_def flushed_def set_thread_def Let_def split: if_splits)

lemma call_one: "one_flush g \<Longrightarrow> busy (gc_threads g t) \<Longrightarrow> busy a \<Longrightarrow> one_flush (set_thread t a g)"
proof -
  assume o: "one_flush g" "busy (gc_threads g t)" "busy a"
  have "busy (gc_threads (set_thread t a g) u) = busy (gc_threads g u)" for u using o by (simp add: set_thread_def)
  then show ?thesis using o(1) by (simp add: one_flush_def) (simp add: set_thread_def)
qed

lemma one_flush_frame: "one_flush g \<Longrightarrow> gc_threads g' = gc_threads g \<Longrightarrow> sf_syncing (gc_sf g') = sf_syncing (gc_sf g) \<Longrightarrow> one_flush g'"
  by (simp add: one_flush_def)

lemma happen_one:
  assumes "happen e g = Some g'" and "one_flush g"
  shows "one_flush g'"
proof (cases e)
  case (Append t)
  have "one_flush (write_record g)" by (rule one_flush_frame [OF assms(2)]) (simp_all add: write_record_def Let_def)
  then show ?thesis using assms(1) Append syncThrough_one [of "write_record g" t]
    by (auto simp: Let_def write_record_def split: if_splits)
next
  case Quiet
  then show ?thesis using assms by (auto intro!: one_flush_frame [OF assms(2)] simp: write_record_def Let_def)
next
  case (SyncAll t)
  then show ?thesis using assms by (auto split: if_splits intro: syncThrough_one)
next
  case (Wake t)
  then show ?thesis using assms by (auto split: appender.splits intro: syncThrough_one)
next
  case (Call t)
  then show ?thesis using assms by (auto split: appender.splits if_splits intro!: call_one flushed_one)
next
  case (Answer t ok)
  then obtain seq target f rs where F: "gc_threads g t = Flushing seq target f rs"
    "g' = flushed t seq target ok (if ok then g\<lparr>gc_safe := (gc_safe g)(f := rs @ gc_safe g f)\<rparr> else g)"
    using assms(1) by (auto split: appender.splits)
  show ?thesis unfolding F(2) by (rule flushed_one) (use assms(2) F(1) in \<open>auto simp: one_flush_def\<close>)
next
  case (Swap r)
  then show ?thesis using assms by (cases r) (auto intro!: one_flush_frame [OF assms(2)] simp: swap_file_def Let_def)
qed

lemma runs_one: "runs es g = Some g' \<Longrightarrow> one_flush g \<Longrightarrow> one_flush g'"
  by (induction es arbitrary: g) (auto split: option.splits dest: happen_one)



end
