(* ===== verification/GwMonitor.thy ===== *)
theory GwMonitor
  imports GwMetrics GwValidate
begin

text \<open>
  What the gateway tells the monitoring system and reads back from it: the text of \<open>/metrics\<close>
  (\<open>v1-metrics-prom.go\<close>) and the history of a queue (\<open>backend/gateway/repo/prometheus/repo.go\<close>).  The HTTP
  exchange is an argument, as the answer that came back.  A float is a rational, or one of the values
  that are not numbers.
\<close>

subsection \<open>Numbers as text\<close>

text \<open>A fraction of \<open>10 ^ prec\<close> without its trailing zeros, with the point if there is one.\<close>

definition fmtFrac :: "nat \<Rightarrow> nat \<Rightarrow> string" where
  "fmtFrac prec f =
     (let ds = dec_digits f; ds = replicate (prec - List.length ds) CHR ''0'' @ ds; ds = rev (dropWhile (\<lambda>c. c = CHR ''0'') (rev ds))
      in if f = 0 then [] else CHR ''.'' # ds)"

text \<open>\<open>Duration.String\<close>.\<close>

definition duration_string :: "duration \<Rightarrow> string" where
  "duration_string d =
     (let u = nat \<bar>d\<bar>; neg = (if d < 0 then ''-'' else []); secs = u div 10 ^ 9; frac = u mod 10 ^ 9
      in if u = 0 then ''0s''
         else neg @
           (if u < 10 ^ 3 then dec_digits u @ ''ns''
            else if u < 10 ^ 6 then dec_digits (u div 10 ^ 3) @ fmtFrac 3 (u mod 10 ^ 3) @ [CHR 0xC2, CHR 0xB5, CHR ''s'']
            else if u < 10 ^ 9 then dec_digits (u div 10 ^ 6) @ fmtFrac 6 (u mod 10 ^ 6) @ ''ms''
            else (if secs \<ge> 3600 then dec_digits (secs div 3600) @ ''h'' else []) @
                 (if secs \<ge> 60 then dec_digits (secs div 60 mod 60) @ ''m'' else []) @
                 dec_digits (secs mod 60) @ fmtFrac 9 frac @ ''s''))"

text \<open>\<open>FormatFloat\<close> of the seconds of a duration with as many digits as it takes.\<close>

definition seconds_string :: "duration \<Rightarrow> string" where
  "seconds_string d = (let u = nat \<bar>d\<bar> in (if d < 0 then ''-'' else []) @ dec_digits (u div 10 ^ 9) @ fmtFrac 9 (u mod 10 ^ 9))"

definition int_string :: "int \<Rightarrow> string" where
  "int_string n = (if n < 0 then CHR ''-'' # dec_digits (nat (- n)) else dec_digits (nat n))"

text \<open>\<open>%f\<close>: six digits after the point, the nearest.\<close>

definition fixed6 :: "rat \<Rightarrow> string" where
  "fixed6 x =
     (let n = nat \<lfloor>\<bar>x\<bar> * 10 ^ 6 + 1 / 2\<rfloor>; fs = dec_digits (n mod 10 ^ 6)
      in (if x < 0 then ''-'' else []) @ dec_digits (n div 10 ^ 6) @ ''.'' @ replicate (6 - List.length fs) CHR ''0'' @ fs)"

subsection \<open>The scrape\<close>

record promQueue =
  pm_org :: string
  pm_stats :: queueStatsResponse

definition newline :: string where
  "newline = [char_of (10 :: nat)]"

definition prom_labels :: "string \<Rightarrow> string \<Rightarrow> string" where
  "prom_labels org queue = ''org='' @ quote org @ '',queue='' @ quote queue"

text \<open>One family: \<open>HELP\<close> and \<open>TYPE\<close> once, then the rows of every queue.\<close>

definition family :: "promQueue list \<Rightarrow> string \<Rightarrow> string \<Rightarrow> string \<Rightarrow> (string \<Rightarrow> queueStatsResponse \<Rightarrow> string) \<Rightarrow> string" where
  "family ms name help kind row =
     ''# HELP '' @ name @ '' '' @ help @ newline @ ''# TYPE '' @ name @ '' '' @ kind @ newline
     @ concat (map (\<lambda>m. row (prom_labels (pm_org m) (qr_Queue (pm_stats m))) (pm_stats m)) ms)"

definition sample_line :: "string \<Rightarrow> string \<Rightarrow> string \<Rightarrow> string" where
  "sample_line name lbl v = name @ ''{'' @ lbl @ ''} '' @ v @ newline"

definition priority_count :: "queueStatsResponse \<Rightarrow> string \<Rightarrow> int" where
  "priority_count q p = (case map_of (qr_ByPriority q) p of None \<Rightarrow> 0 | Some n \<Rightarrow> n)"

definition exposition :: "promQueue list \<Rightarrow> string" where
  "exposition ms =
     family ms ''ryuk_queue_ready_messages'' ''Messages ready to be consumed'' ''gauge''
       (\<lambda>lbl q. concat (map (\<lambda>p. sample_line ''ryuk_queue_ready_messages'' (lbl @ '',priority='' @ quote p) (int_string (priority_count q p)))
          [''low'', ''medium'', ''high'']))
     @ family ms ''ryuk_queue_inflight_messages'' ''Messages out with workers'' ''gauge''
       (\<lambda>lbl q. sample_line ''ryuk_queue_inflight_messages'' lbl (int_string (qr_InFlight q)))
     @ family ms ''ryuk_queue_oldest_message_age_seconds'' ''Age of the oldest available message'' ''gauge''
       (\<lambda>lbl q. sample_line ''ryuk_queue_oldest_message_age_seconds'' lbl (fixed6 (qr_OldestMessageAgeSeconds q)))
     @ family ms ''ryuk_queue_enqueued_total'' ''Messages submitted'' ''counter''
       (\<lambda>lbl q. sample_line ''ryuk_queue_enqueued_total'' lbl (dec_digits (qr_Enqueued q)))
     @ family ms ''ryuk_queue_acknowledged_total'' ''Messages acknowledged'' ''counter''
       (\<lambda>lbl q. sample_line ''ryuk_queue_acknowledged_total'' lbl (dec_digits (qr_Acked q)))
     @ family ms ''ryuk_queue_dead_lettered_total'' ''Messages moved to the dead-letter queue'' ''counter''
       (\<lambda>lbl q. sample_line ''ryuk_queue_dead_lettered_total'' lbl (dec_digits (qr_DeadLettered q)))
     @ family ms ''ryuk_queue_enqueue_rate'' ''Messages enqueued per second'' ''gauge''
       (\<lambda>lbl q. sample_line ''ryuk_queue_enqueue_rate'' lbl (fixed6 (qr_EnqueueRate q)))
     @ family ms ''ryuk_queue_ack_rate'' ''Messages acknowledged per second'' ''gauge''
       (\<lambda>lbl q. sample_line ''ryuk_queue_ack_rate'' lbl (fixed6 (qr_AckRate q)))
     @ family ms ''ryuk_queue_starvation_escapes_total'' ''Deliveries that used the reserved share'' ''counter''
       (\<lambda>lbl q. sample_line ''ryuk_queue_starvation_escapes_total'' lbl (dec_digits (qr_StarvationEscapes q)))"

definition uniqueOrgs :: "(string \<times> string) list \<Rightarrow> string list" where
  "uniqueOrgs orgs = remdups (map snd orgs)"

text \<open>The organisations in the order the map yields them; one that cannot be read is left out.\<close>

fun scrape_orgs :: "string list \<Rightarrow> 'n world \<Rightarrow> 'n world \<times> promQueue list" where
  "scrape_orgs [] w = (w, [])"
| "scrape_orgs (org # os) w =
     (case GetMetrics org w of
        (w, Inl e) \<Rightarrow> scrape_orgs os w
      | (w, Inr qs) \<Rightarrow> (let (w, ms) = scrape_orgs os w in (w, map (\<lambda>q. \<lparr>pm_org = org, pm_stats = q\<rparr>) qs @ ms)))"

definition prom_before :: "promQueue \<Rightarrow> promQueue \<Rightarrow> bool" where
  "prom_before a b =
     (if pm_org a \<noteq> pm_org b then pm_org a < pm_org b else qr_Queue (pm_stats a) < qr_Queue (pm_stats b))"

definition PrometheusMetrics :: "(string list \<Rightarrow> string list) \<Rightarrow> (string \<times> string) list \<Rightarrow> 'n world \<Rightarrow> 'n world \<times> string" where
  "PrometheusMetrics perm orgs w =
     (let (w, ms) = scrape_orgs (perm (uniqueOrgs orgs)) w in (w, exposition (sort_by prom_before ms)))"

subsection \<open>Reading history\<close>

text \<open>The base URL without its trailing slashes; none configured is the empty one.\<close>

definition prom_base :: "string \<Rightarrow> string" where
  "prom_base s = rev (dropWhile (\<lambda>c. c = CHR ''/'') (rev s))"

definition Configured :: "string \<Rightarrow> bool" where
  "Configured base \<longleftrightarrow> base \<noteq> []"

text \<open>The answer of the readiness page, if there was one.\<close>

definition Ready_prom :: "string \<Rightarrow> nat option \<Rightarrow> bool" where
  "Ready_prom base answer \<longleftrightarrow> Configured base \<and> answer = Some 200"

text \<open>Backslashes first, then quotes: the backslash put before a quote is not doubled.\<close>

definition escape :: "string \<Rightarrow> string" where
  "escape s =
     (let s = concat (map (\<lambda>c. if c = CHR 0x5C then [CHR 0x5C, CHR 0x5C] else [c]) s)
      in concat (map (\<lambda>c. if c = CHR 0x22 then [CHR 0x5C, CHR 0x22] else [c]) s))"

definition selector :: "string \<Rightarrow> string \<Rightarrow> string \<Rightarrow> string" where
  "selector metric org queue = metric @ ''{'' @ prom_labels org queue @ ''}''"

definition qReady :: string where "qReady = ''ryuk_queue_ready_messages''"
definition qInFlight :: string where "qInFlight = ''ryuk_queue_inflight_messages''"
definition qOldestAge :: string where "qOldestAge = ''ryuk_queue_oldest_message_age_seconds''"
definition qEnqueue :: string where "qEnqueue = ''ryuk_queue_enqueue_rate''"
definition qAck :: string where "qAck = ''ryuk_queue_ack_rate''"

text \<open>\<open>url.QueryEscape\<close>, and \<open>Values.Encode\<close> of the four parameters, sorted by name.\<close>

definition query_escape :: "string \<Rightarrow> string" where
  "query_escape s = concat (map (\<lambda>c.
     if name_char c \<or> c = CHR ''.'' \<or> c = CHR ''~'' then [c] else if c = CHR '' '' then ''+''
     else CHR 0x25 # [''0123456789ABCDEF'' ! (of_char c div 16), ''0123456789ABCDEF'' ! (of_char c mod 16)]) s)"

definition range_url :: "string \<Rightarrow> time \<Rightarrow> string \<Rightarrow> duration \<Rightarrow> duration \<Rightarrow> string" where
  "range_url base now query window step =
     base @ ''/api/v1/query_range?end='' @ query_escape (int_string (now div second)) @ ''&query='' @ query_escape query
     @ ''&start='' @ query_escape (int_string ((now - window) div second)) @ ''&step='' @ query_escape (seconds_string step)"

text \<open>\<open>ParseFloat\<close>: the names of what is not a number, else a decimal with an exponent, out of range an error.
  Hexadecimal floats and underscores are not modelled.\<close>

definition float_name :: "string \<Rightarrow> gofloat option" where
  "float_name s =
     (let sgn = (s \<noteq> [] \<and> hd s \<in> {CHR ''+'', CHR ''-''}); u = ToUpper (if sgn then tl s else s)
      in if u = ''INF'' \<or> u = ''INFINITY'' then Some (Infinite (s \<noteq> [] \<and> hd s = CHR ''-''))
         else if u = ''NAN'' \<and> \<not> sgn then Some NaN else None)"

definition exponent_part :: "string \<Rightarrow> int option" where
  "exponent_part r =
     (if r = [] then Some 0
      else if hd r \<notin> {CHR ''e'', CHR ''E''} then None
      else let t = tl r; ds = (if t \<noteq> [] \<and> hd t \<in> {CHR ''+'', CHR ''-''} then tl t else t)
           in if ds = [] \<or> \<not> list_all is_digit ds then None
              else Some (if hd t = CHR ''-'' then - int (dec_value ds) else int (dec_value ds)))"

definition ParseFloat :: "string \<Rightarrow> gofloat option" where
  "ParseFloat s =
     (case float_name s of
        Some x \<Rightarrow> Some x
      | None \<Rightarrow>
          (let neg = (s \<noteq> [] \<and> hd s = CHR ''-''); b = (if s \<noteq> [] \<and> hd s \<in> {CHR ''+'', CHR ''-''} then tl s else s);
               ds = takeWhile is_digit b; r = dropWhile is_digit b; dot = (r \<noteq> [] \<and> hd r = CHR ''.'');
               fs = (if dot then takeWhile is_digit (tl r) else []); r = (if dot then dropWhile is_digit (tl r) else r)
           in if ds @ fs = [] then None
              else case exponent_part r of
                     None \<Rightarrow> None
                   | Some e \<Rightarrow>
                       (let x = of_nat (dec_value (ds @ fs)) / 10 ^ List.length fs * (if e \<ge> 0 then 10 ^ nat e else 1 / 10 ^ nat (- e)) :: rat
                        in if x \<ge> 2 ^ 1024 - 2 ^ 970 then None else Some (Number (if neg then - x else x)))))"

text \<open>A series as it comes back: its labels and pairs of JSON values.\<close>

record prom_result =
  px_Metric :: "(string \<times> string) list"
  px_Values :: "(json_any \<times> json_any) list"

record prom_body =
  px_Status :: string
  px_Result :: "prom_result list"

text \<open>A URL that cannot be built, no answer, or a status with the body or what is wrong with it.\<close>

datatype prom_answer = BadRequest err | Unreachable | Replied int "err + prom_body"

definition point_of :: "json_any \<times> json_any \<Rightarrow> seriesPoint option" where
  "point_of pr =
     (case pr of
        (JNumber tm, JString raw) \<Rightarrow>
          (case ParseFloat raw of
             None \<Rightarrow> None
           | Some v \<Rightarrow> Some \<lparr>pt_At = (if tm < 0 then \<lceil>tm\<rceil> else \<lfloor>tm\<rfloor>) * second, pt_Value = v\<rparr>)
      | _ \<Rightarrow> None)"

definition series_of :: "string \<Rightarrow> prom_result \<Rightarrow> series" where
  "series_of label s =
     \<lparr>se_Name = (if label \<noteq> [] \<and> label \<noteq> ''enqueue'' \<and> label \<noteq> ''ack''
                then (case map_of (px_Metric s) label of None \<Rightarrow> [] | Some v \<Rightarrow> v) else label),
      se_Points = List.map_filter point_of (px_Values s)\<rparr>"

definition rangeQuery :: "prom_answer \<Rightarrow> string \<Rightarrow> err + series list" where
  "rangeQuery answer label =
     (case answer of
        BadRequest e \<Rightarrow> Inl (Internal ''build prometheus query'' e)
      | Unreachable \<Rightarrow> Inl (New_error CodeExhausted ''monitoring system unavailable'')
      | Replied status body \<Rightarrow>
          (if status \<noteq> 200 then Inl (New_error CodeExhausted (''monitoring system returned '' @ int_string status))
           else case body of
                  Inl e \<Rightarrow> Inl (Internal ''decode prometheus response'' e)
                | Inr b \<Rightarrow> if px_Status b \<noteq> ''success'' then Inl (New_error CodeExhausted ''monitoring query failed'')
                            else Inr (map (series_of label) (px_Result b))))"

text \<open>The five questions of \<open>Query\<close>: what is asked, the label a series is named by, and where the answer goes.\<close>

definition asks :: "string \<Rightarrow> string \<Rightarrow> (string \<times> string \<times> (series list \<Rightarrow> timeseriesResponse \<Rightarrow> timeseriesResponse)) list" where
  "asks org nm =
     [(selector qReady org nm, ''priority'', \<lambda>xs r. r\<lparr>ts_Ready := ts_Ready r @ xs\<rparr>),
      (selector qInFlight org nm, [], \<lambda>xs r. r\<lparr>ts_InFlight := ts_InFlight r @ xs\<rparr>),
      (selector qOldestAge org nm, [], \<lambda>xs r. r\<lparr>ts_OldestAge := ts_OldestAge r @ xs\<rparr>),
      (selector qEnqueue org nm, ''enqueue'', \<lambda>xs r. r\<lparr>ts_Rates := ts_Rates r @ xs\<rparr>),
      (selector qAck org nm, ''ack'', \<lambda>xs r. r\<lparr>ts_Rates := ts_Rates r @ xs\<rparr>)]"

fun ask_all :: "(string \<Rightarrow> prom_answer) \<Rightarrow> (string \<Rightarrow> string)
    \<Rightarrow> (string \<times> string \<times> (series list \<Rightarrow> timeseriesResponse \<Rightarrow> timeseriesResponse)) list \<Rightarrow> timeseriesResponse \<Rightarrow> err + timeseriesResponse" where
  "ask_all http url [] r = Inr r"
| "ask_all http url ((q, label, into) # xs) r =
     (case rangeQuery (http (url q)) label of Inl e \<Rightarrow> Inl e | Inr ss \<Rightarrow> ask_all http url xs (into ss r))"

definition Query :: "(string \<Rightarrow> prom_answer) \<Rightarrow> string \<Rightarrow> time \<Rightarrow> timeseriesQuery \<Rightarrow> err + timeseriesResponse" where
  "Query http base now q =
     (let out = \<lparr>ts_Available = False, ts_Range = duration_string (tq_Range q), ts_Step = duration_string (tq_Step q),
                ts_Ready = [], ts_InFlight = [], ts_OldestAge = [], ts_Rates = []\<rparr>
      in if \<not> Configured base then Inr out
         else ask_all http (\<lambda>s. range_url base now s (tq_Range q) (tq_Step q)) (asks (escape (tq_Org q)) (escape (tq_Queue q)))
                (out\<lparr>ts_Available := True\<rparr>))"

subsection \<open>The pages\<close>

definition h_Stats :: "'n nodeAPI \<Rightarrow> ((string \<times> nat) list \<Rightarrow> (string \<times> nat) list) \<Rightarrow> string \<Rightarrow> string \<Rightarrow> 'n world \<Rightarrow> 'n world \<times> queueStatsResponse http_reply" where
  "h_Stats api perm name org w = serve (Inr ()) (\<lambda>_. Stats_gw api perm org name) (\<lambda>_. 200) w"

definition h_Metrics :: "string \<Rightarrow> 'n world \<Rightarrow> 'n world \<times> queueStatsResponse list http_reply" where
  "h_Metrics org w = serve (Inr ()) (\<lambda>_. GetMetrics org) (\<lambda>_. 200) w"

definition h_Cluster :: "((string \<times> nat) list \<Rightarrow> (string \<times> nat) list) \<Rightarrow> 'n world \<Rightarrow> 'n world \<times> clusterResponse http_reply" where
  "h_Cluster perm w = serve (Inr ()) (\<lambda>_. GetClusterDetails perm) (\<lambda>_. 200) w"

definition h_Node :: "'n nodeAPI \<Rightarrow> ((string \<times> nat) list \<Rightarrow> (string \<times> nat) list) \<Rightarrow> string \<Rightarrow> string \<Rightarrow> 'n world \<Rightarrow> 'n world \<times> nodeDetailResponse http_reply" where
  "h_Node api perm i org w = serve (Inr ()) (\<lambda>_. GetNodeDetails api perm org i) (\<lambda>_. 200) w"

definition h_Registry :: "(err + registryEntry list) \<Rightarrow> 'n world \<Rightarrow> 'n world \<times> registryResponse http_reply" where
  "h_Registry ents w = serve (Inr ()) (\<lambda>_ w. (w, GetRegistry ents w)) (\<lambda>_. 200) w"

text \<open>
  \<open>encoding/json\<close> has no text for what is not a number: the encoder fails, the handler has written the
  status by then and drops the error, and the body stays empty.
\<close>

definition is_number :: "gofloat \<Rightarrow> bool" where
  "is_number x \<longleftrightarrow> (case x of Number _ \<Rightarrow> True | _ \<Rightarrow> False)"

definition all_points :: "timeseriesResponse \<Rightarrow> seriesPoint list" where
  "all_points r = concat (map se_Points (ts_Ready r @ ts_InFlight r @ ts_OldestAge r @ ts_Rates r))"

definition encoded :: "timeseriesResponse \<Rightarrow> timeseriesResponse option" where
  "encoded r = (if list_all (is_number \<circ> pt_Value) (all_points r) then Some r else None)"

definition h_Timeseries :: "(string \<Rightarrow> prom_answer) \<Rightarrow> string \<Rightarrow> string \<Rightarrow> string \<Rightarrow> string \<Rightarrow> 'n world \<Rightarrow> 'n world \<times> timeseriesResponse option http_reply" where
  "h_Timeseries http base name window org w =
     serve (Inr ()) (\<lambda>_ w. case GetTimeseriesMetrics (Query http base (g_now w)) org name window w of
       (w, Inl e) \<Rightarrow> (w, Inl e) | (w, Inr r) \<Rightarrow> (w, Inr (encoded r))) (\<lambda>_. 200) w"

end
