(* ===== verification/GwMonitorProps.thy ===== *)
theory GwMonitorProps
  imports GwMonitor GwHost
begin

text \<open>What the monitoring pages show: which series a question reaches, and what one bad sample does to a page.\<close>

subsection \<open>Labels\<close>

definition plain_char :: "char \<Rightarrow> bool" where
  "plain_char c \<longleftrightarrow> c \<noteq> CHR 0x22 \<and> c \<noteq> CHR 0x5C"

text \<open>Escaping a character before it is quoted never makes it shorter, and longer when it is not plain.\<close>

lemma escape_append: "escape (c # s) = escape [c] @ escape s"
  by (simp add: escape_def Let_def)

lemma quote_escape_length:
  "List.length (concat (map quote_char s)) \<le> List.length (concat (map quote_char (escape s))) \<and>
   (List.length (concat (map quote_char s)) = List.length (concat (map quote_char (escape s))) \<longleftrightarrow> list_all plain_char s)"
proof (induction s)
  case (Cons c s)
  have p: "plain_char c \<Longrightarrow> escape [c] = [c]" by (simp add: escape_def plain_char_def Let_def)
  have q: "\<not> plain_char c \<Longrightarrow> List.length (concat (map quote_char (escape [c]))) = List.length (quote_char c) + 2"
    by (auto simp: escape_def plain_char_def quote_char_def Let_def)
  show ?case using Cons.IH p q by (cases "plain_char c") (auto simp: escape_append [of c s])
qed (simp add: escape_def Let_def)

lemma escape_plain: "list_all plain_char s \<Longrightarrow> escape s = s"
proof (induction s)
  case (Cons c s)
  then have "escape [c] = [c]" by (simp add: escape_def plain_char_def Let_def)
  then show ?case using Cons by (simp add: escape_append [of c s])
qed (simp add: escape_def Let_def)

text \<open>History is found exactly for plain names. The series asked for is the one \<open>/metrics\<close> exports if and only
  if neither the organisation nor the queue has a quote or a backslash in its name: \<open>Query\<close> escapes
  what \<open>%q\<close> escapes again.\<close>

theorem history_selector:
  "selector metric (escape org) (escape nm) = metric @ ''{'' @ prom_labels org nm @ ''}'' \<longleftrightarrow>
     list_all plain_char org \<and> list_all plain_char nm"
proof
  assume "list_all plain_char org \<and> list_all plain_char nm"
  then show "selector metric (escape org) (escape nm) = metric @ ''{'' @ prom_labels org nm @ ''}''"
    by (simp add: selector_def escape_plain)
next
  assume "selector metric (escape org) (escape nm) = metric @ ''{'' @ prom_labels org nm @ ''}''"
  then have "List.length (prom_labels (escape org) (escape nm)) = List.length (prom_labels org nm)" by (simp add: selector_def)
  then show "list_all plain_char org \<and> list_all plain_char nm"
    using quote_escape_length [of org] quote_escape_length [of nm] by (simp add: prom_labels_def quote_def) linarith
qed

subsection \<open>Samples\<close>

lemma NaN_parsed: "ParseFloat ''NaN'' = Some NaN"
  by code_simp

definition answered :: "prom_answer \<Rightarrow> prom_result list \<Rightarrow> bool" where
  "answered a rs \<longleftrightarrow> (\<exists>b. a = Replied 200 (Inr b) \<and> px_Status b = ''success'' \<and> px_Result b = rs)"

lemma rangeQuery_answered: "answered a rs \<Longrightarrow> rangeQuery a label = Inr (map (series_of label) rs)"
  by (auto simp: answered_def rangeQuery_def)

lemma bad_point:
  assumes "r \<in> set rs" and "(JNumber tm, JString ''NaN'') \<in> set (px_Values r)"
  shows "\<exists>p. p \<in> set (concat (map se_Points (map (series_of label) rs))) \<and> \<not> is_number (pt_Value p)"
proof -
  let ?p = "\<lparr>pt_At = (if tm < 0 then \<lceil>tm\<rceil> else \<lfloor>tm\<rfloor>) * second, pt_Value = NaN\<rparr>"
  have "point_of (JNumber tm, JString ''NaN'') = Some ?p" by (simp add: point_of_def NaN_parsed)
  then have "?p \<in> set (se_Points (series_of label r))" using assms(2) by (force simp: series_of_def map_filter_def)
  then show ?thesis using assms(1) by (intro exI [of _ ?p]) (auto simp: is_number_def)
qed

text \<open>The page as the answers make it, one list of series for each question.\<close>

lemma ask_all_answered:
  assumes "\<And>q label into. (q, label, into) \<in> set (asks org nm) \<Longrightarrow> answered (http (url q)) (rs q)"
  shows "\<exists>r'. ask_all http url (asks org nm) r = Inr r' \<and>
    (\<forall>q label into p. (q, label, into) \<in> set (asks org nm) \<and> p \<in> set (concat (map se_Points (map (series_of label) (rs q)))) \<longrightarrow> p \<in> set (all_points r'))"
proof -
  let ?q = "\<lambda>m. selector m org nm"
  have "answered (http (url (?q qReady))) (rs (?q qReady))" "answered (http (url (?q qInFlight))) (rs (?q qInFlight))"
    "answered (http (url (?q qOldestAge))) (rs (?q qOldestAge))" "answered (http (url (?q qEnqueue))) (rs (?q qEnqueue))"
    "answered (http (url (?q qAck))) (rs (?q qAck))"
    by (auto intro!: assms simp: asks_def)
  note Q = this [THEN rangeQuery_answered]
  show ?thesis by (auto simp: asks_def Q all_points_def)
qed

text \<open>Counterexample: one sample that is not a number empties a page. Where every question is answered and one
  sample of one series reads NaN, which the code means to skip, the page is answered with status 200
  and no body.\<close>

theorem nan_empties_page:
  assumes "config_for org nm w = (w', Inr cfg)" and "base \<noteq> []"
    and "\<And>q. q \<in> set (map fst (asks (escape org) (escape nm))) \<Longrightarrow>
      answered (http (range_url base (g_now w) q (fst (the (map_of windows win))) (snd (the (map_of windows win))))) (rs q)"
    and "map_of windows win \<noteq> None"
    and "q \<in> set (map fst (asks (escape org) (escape nm)))" and "r \<in> set (rs q)" and "(JNumber tm, JString ''NaN'') \<in> set (px_Values r)"
  shows "h_Timeseries http base nm win org w = (w', (200, Inr None))"
proof -
  obtain rng step where rs: "map_of windows win = Some (rng, step)" using assms(4) by fastforce
  let ?url = "\<lambda>s. range_url base (g_now w) s rng step"
  let ?out = "\<lparr>ts_Available = True, ts_Range = duration_string rng, ts_Step = duration_string step, ts_Ready = [], ts_InFlight = [], ts_OldestAge = [], ts_Rates = []\<rparr>"
  have a: "answered (http (?url x)) (rs x)" if "(x, l, i) \<in> set (asks (escape org) (escape nm))" for x l i
    using assms(3) [of x] that rs by force
  have "\<exists>x. ask_all http ?url (asks (escape org) (escape nm)) ?out = Inr x \<and>
    (\<forall>q label into p. (q, label, into) \<in> set (asks (escape org) (escape nm)) \<and>
       p \<in> set (concat (map se_Points (map (series_of label) (rs q)))) \<longrightarrow> p \<in> set (all_points x))"
    by (rule ask_all_answered) (rule a)
  then obtain x where x: "ask_all http ?url (asks (escape org) (escape nm)) ?out = Inr x"
    and all_in: "\<And>q label into p. (q, label, into) \<in> set (asks (escape org) (escape nm)) \<Longrightarrow>
      p \<in> set (concat (map se_Points (map (series_of label) (rs q)))) \<Longrightarrow> p \<in> set (all_points x)" by blast
  obtain label into where q: "(q, label, into) \<in> set (asks (escape org) (escape nm))" using assms(5) by force
  obtain p where "p \<in> set (all_points x)" "\<not> is_number (pt_Value p)" using bad_point [OF assms(6,7)] all_in [OF q] by blast
  then have "encoded (x\<lparr>ts_Range := win\<rparr>) = None" by (auto simp: encoded_def list_all_iff all_points_def)
  moreover have "GetTimeseriesMetrics (Query http base (g_now w)) org nm win w = (w', Inr (x\<lparr>ts_Range := win\<rparr>))"
    using assms(1,2) x rs by (simp add: GetTimeseriesMetrics_def Query_def Configured_def Let_def)
  ultimately show ?thesis by (simp add: h_Timeseries_def serve_def writeJSON_def)
qed

text \<open>Every question is answered with one series, whose second sample is a latency that was never measured.\<close>

definition nan_series :: prom_result where
  "nan_series = \<lparr>px_Metric = [], px_Values = [(JNumber 60, JString ''1.5''), (JNumber 65, JString ''NaN'')]\<rparr>"

definition nan_answer :: prom_answer where
  "nan_answer = Replied 200 (Inr \<lparr>px_Status = ''success'', px_Result = [nan_series]\<rparr>)"

theorem nan_empties_page_witness:
  "\<exists>w'. h_Timeseries (\<lambda>_. nan_answer) ''http://p'' ''n'' ''5m'' ''o'' (demo_world demo_config leak1 []) = (w', (200, Inr None))"
proof -
  let ?w = "demo_world demo_config leak1 []"
  obtain w' cfg where c: "config_for ''o'' ''n'' ?w = (w', Inr cfg)"
    by (simp add: config_for_def fetchViaCache_def cache_Get_def loadConfig_def db_def asking_def next_fault_def no_fault_def
        Get_row_def row_is_def new_row_def demo_world_def demo_config_def scanQueue_def nullable_def Let_def)
  have a: "answered nan_answer [nan_series]" by (simp add: answered_def nan_answer_def)
  have q: "selector qReady (escape ''o'') (escape ''n'') \<in> set (map fst (asks (escape ''o'') (escape ''n'')))" by (simp add: asks_def)
  show ?thesis
    using nan_empties_page [OF c _ _ _ q, where http = "\<lambda>_. nan_answer" and rs = "\<lambda>_. [nan_series]" and base = "''http://p''" and win = "''5m''"
        and r = nan_series and tm = 65] a
    by (auto simp: nan_series_def windows_def)
qed

end
