(* ===== verification/GwTyped.thy ===== *)
theory GwTyped
  imports GwFrame GwDeadLetter GwMetrics
begin

text \<open>
  The tables stay well typed: their primary keys are keys, and a row says who is migrating it exactly
  while it is in migrating.  Every operation of the gateway is one kind of step here.
\<close>

definition lock_fields :: "queueRow \<Rightarrow> bool" where
  "lock_fields r \<longleftrightarrow> (if row_state r = StateMigrating then row_migrating_by r \<noteq> None \<and> row_migrating_since r \<noteq> None
     else row_migrating_by r = None \<and> row_migrating_since r = None)"

definition typed :: "'n world \<Rightarrow> bool" where
  "typed w \<longleftrightarrow> keys_unique (g_db w) \<and> (\<forall>r \<in> set (queues_tab (g_db w)). lock_fields r)"

lemma typed_db [intro]: "typed w \<Longrightarrow> g_db w' = g_db w \<Longrightarrow> typed w'"
  by (simp add: typed_def)

subsection \<open>Statements\<close>

definition typed_tables :: "tables \<Rightarrow> bool" where
  "typed_tables t \<longleftrightarrow> keys_unique t \<and> (\<forall>r \<in> set (queues_tab t). lock_fields r)"

lemma table_step_typed: "table_step now t t' \<Longrightarrow> typed_tables t \<Longrightarrow> typed_tables t'"
proof -
  assume s: "table_step now t t'" and t: "typed_tables t"
  have "\<forall>r \<in> set (queues_tab t'). lock_fields r"
    using s t
    by (induction rule: table_step.induct)
      (auto simp: typed_tables_def insert_queue_def new_row_def SetOwner_queue_def update_rows_def SetState_def takeMigrationLock_def
         UpdateSettings_def Delete_row_def SetOwner_slot_def DeleteByQueue_def lock_fields_def Let_def split: if_splits)
  then show ?thesis using table_step_keys [OF s] t by (simp add: typed_tables_def)
qed

lemma db_typed:
  assumes "db stmt w = (w', r)" and "typed w" and "\<And>t. typed_tables t \<Longrightarrow> typed_tables (fst (stmt t))"
  shows "typed w'"
  using db_effect(4) [OF assms(1)] assms(2,3) by (auto simp: typed_def typed_tables_def)

named_theorems keeps_type

lemma asking_typed [keeps_type]: "db (asking q) w = (w', r) \<Longrightarrow> typed w \<Longrightarrow> typed w'"
  by (erule db_typed) (auto simp: asking_def)

lemma slot_typed [keeps_type]: "db (quietly (SetOwner_slot org nm i owner gen)) w = (w', r) \<Longrightarrow> typed w \<Longrightarrow> typed w'"
  by (erule db_typed) (auto simp: quietly_def intro: table_step_typed table_step.SlotOwner)

lemma owner_typed [keeps_type]: "db (quietly (SetOwner_queue org nm owner gen now)) w = (w', r) \<Longrightarrow> typed w \<Longrightarrow> typed w'"
  by (erule db_typed) (auto simp: quietly_def intro: table_step_typed table_step.Owner)

lemma slots_gone_typed [keeps_type]: "db (quietly (DeleteByQueue org nm)) w = (w', r) \<Longrightarrow> typed w \<Longrightarrow> typed w'"
  by (erule db_typed) (auto simp: quietly_def intro: table_step_typed table_step.SlotsGone)

lemma delete_typed [keeps_type]: "db (quietly (Delete_row org nm)) w = (w', r) \<Longrightarrow> typed w \<Longrightarrow> typed w'"
  by (erule db_typed) (auto simp: quietly_def intro: table_step_typed table_step.Delete)

lemma state_typed [keeps_type]: "db (\<lambda>t. checked (SetState h org nm qs now t)) w = (w', r) \<Longrightarrow> typed w \<Longrightarrow> typed w'"
  by (erule db_typed) (auto simp: checked_def intro: table_step_typed table_step.State)

lemma settings_typed [keeps_type]: "db (\<lambda>t. checked (UpdateSettings org nm s now t)) w = (w', r) \<Longrightarrow> typed w \<Longrightarrow> typed w'"
  by (erule db_typed) (auto simp: checked_def intro: table_step_typed table_step.Settings)

lemma node_typed [keeps_type]: "node_call addr m w = (w', r) \<Longrightarrow> typed w \<Longrightarrow> typed w'"
  by (auto simp: node_call_def next_fault_def typed_def Let_def split: option.splits list.splits prod.splits)

lemma node_typed' [simp]: "typed w \<Longrightarrow> typed (fst (node_call addr m w))"
  using node_typed by (metis prod.collapse)

subsection \<open>Reading and routing\<close>

lemma Create_typed [keeps_type]: "Create c w = (w', r) \<Longrightarrow> typed w \<Longrightarrow> typed w'"
proof -
  assume c: "Create c w = (w', r)" and t: "typed w"
  obtain w1 r1 where d: "db (\<lambda>t. let (t, made) = insert_queue c (g_now w) t in (t, Inr made)) w = (w1, r1)" by fastforce
  have "typed w1" by (rule db_typed [OF d t]) (metis (no_types, lifting) case_prod_beta fst_conv table_step.Insert table_step_typed)
  then show ?thesis using c d by (auto simp: Create_def split: sum.splits prod.splits dest: keeps_type)
qed

lemma loadConfig_typed [keeps_type]: "loadConfig org nm w = (w', r) \<Longrightarrow> typed w \<Longrightarrow> typed w'"
  by (auto simp: loadConfig_def split: prod.splits sum.splits if_splits dest: keeps_type)

lemma cache_typed [simp]: "typed (evictCache k w) = typed w" "typed (writeCache k ttl v w) = typed w"
  "typed (w\<lparr>g_cache := c\<rparr>) = typed w" "typed (w\<lparr>g_now := t\<rparr>) = typed w"
  by (simp_all add: typed_def)

lemma config_for_typed [keeps_type]: "config_for org nm w = (w', r) \<Longrightarrow> typed w \<Longrightarrow> typed w'"
  by (auto simp: config_for_def fetchViaCache_def Let_def split: option.splits envelope.splits cached.splits prod.splits sum.splits if_splits
      dest!: loadConfig_typed)

lemma ownerAddr_typed [keeps_type]: "ownerAddr cfg slot w = (w', r) \<Longrightarrow> typed w \<Longrightarrow> typed w'"
  by (auto simp: ownerAddr_def record_owner_def Let_def split: sum.splits prod.splits if_splits dest: keeps_type)

lemma withOwner_typed:
  assumes "\<And>addr s w w' r. run addr s w = (w', r) \<Longrightarrow> typed w \<Longrightarrow> typed w'" and "withOwner cancelled cfg slot run w = (w', r)" and "typed w"
  shows "typed w'"
proof -
  have "typed w \<longrightarrow> typed (fst (withOwner cancelled cfg slot run w))"
    unfolding withOwner_def
  proof (rule withOwner_loop_rel [where R = "\<lambda>w w'. typed w \<longrightarrow> typed w'"])
    show "reflp (\<lambda>w w'. typed w \<longrightarrow> typed w')" by (simp add: reflpI)
    show "transp (\<lambda>w w'. typed w \<longrightarrow> typed w')" by (rule transpI) blast
    show "typed w \<longrightarrow> typed (fst (ownerAddr cfg slot w))" for cfg w using ownerAddr_typed by (metis prod.collapse)
    show "typed w \<longrightarrow> typed (fst (run addr s w))" for addr s w using assms(1) by (metis prod.collapse)
    show "typed w \<longrightarrow> typed (fst (config_for org nm w))" for org nm w using config_for_typed by (metis prod.collapse)
  qed simp
  with assms(2,3) show ?thesis by simp
qed

lemma withOwner_call_typed [keeps_type]:
  "withOwner cancelled cfg slot (\<lambda>addr spec. node_call addr (m spec)) w = (w', r) \<Longrightarrow> typed w \<Longrightarrow> typed w'"
  by (erule withOwner_typed [rotated]) (auto dest: node_typed)

lemma Enqueue_typed [keeps_type]: "Enqueue_gw api cancelled req w = (w', r) \<Longrightarrow> typed w \<Longrightarrow> typed w'"
  by (auto simp: Enqueue_gw_def Let_def split: prod.splits sum.splits if_splits dest: keeps_type)

lemma Ack_typed [keeps_type]: "Ack_gw api cancelled req w = (w', r) \<Longrightarrow> typed w \<Longrightarrow> typed w'"
  by (auto simp: Ack_gw_def split: prod.splits sum.splits dest: keeps_type)

lemma Nack_typed [keeps_type]: "Nack_gw api cancelled req w = (w', r) \<Longrightarrow> typed w \<Longrightarrow> typed w'"
  by (auto simp: Nack_gw_def split: prod.splits sum.splits dest: keeps_type)

lemma ask_owners_typed [keeps_type]: "ask_owners api spec mx addrs e a w = (w', r) \<Longrightarrow> typed w \<Longrightarrow> typed w'"
  by (induction addrs arbitrary: e a w) (auto split: prod.splits sum.splits if_splits dest: node_typed)

lemma take_once_typed [keeps_type]: "take_once api cancelled order cfg mx w = (w', r) \<Longrightarrow> typed w \<Longrightarrow> typed w'"
  by (auto simp: take_once_def split: if_splits dest: keeps_type)

text \<open>What happens elsewhere while a consumer is parked keeps the types.\<close>

definition meanwhile_typed :: "(wait_event \<times> ('n world \<Rightarrow> 'n world)) list \<Rightarrow> bool" where
  "meanwhile_typed es \<longleftrightarrow> (\<forall>(ev, f) \<in> set es. \<forall>w. typed w \<longrightarrow> typed (f w))"

lemma wait_loop_typed:
  assumes tk: "\<And>w. typed w \<Longrightarrow> typed (fst (tk w))"
  shows "meanwhile_typed es \<Longrightarrow> typed w \<Longrightarrow> typed (fst (wait_loop tk first es w))"
proof (induction es arbitrary: first w)
  case Nil
  obtain w1 r1 where t: "tk w = (w1, r1)" by fastforce
  have "typed w1" using tk [OF Nil.prems(2)] t by simp
  then show ?case using t by (subst wait_loop.simps) (simp split: sum.split)
next
  case (Cons x es)
  obtain ev f where x: "x = (ev, f)" by fastforce
  obtain w1 r1 where t: "tk w = (w1, r1)" by fastforce
  have 1: "typed w1" using tk [OF Cons.prems(2)] t by simp
  have 2: "typed (f w1)" "meanwhile_typed es" using Cons.prems(1) 1 x by (auto simp: meanwhile_typed_def)
  have 3: "typed (fst (wait_loop tk False es (f w1)))" by (rule Cons.IH [OF 2(2,1)])
  show ?case using t 1 2(1) 3 x by (subst wait_loop.simps) (cases ev; simp split: sum.split)
qed

lemma take_once_typed': "typed w \<Longrightarrow> typed (fst (take_once api cancelled order cfg mx w))"
  using take_once_typed by (metis prod.collapse)

lemma Dequeue_typed:
  assumes "typed w" and "meanwhile_typed es"
  shows "typed (fst (Dequeue_gw api cancelled order es req w))"
proof -
  obtain w1 r1 where c: "config_for (gq_Org req) (gq_Queue req) w = (w1, r1)" by fastforce
  have 1: "typed w1" by (rule config_for_typed [OF c assms(1)])
  show ?thesis
  proof (cases r1)
    case (Inl e)
    then show ?thesis using c 1 by (simp add: Dequeue_gw_def)
  next
    case (Inr cfg)
    let ?tk = "take_once api cancelled order cfg (gq_MaxMessages req)"
    obtain w2 r2 where t: "?tk w1 = (w2, r2)" by fastforce
    have "typed w2" by (rule take_once_typed [OF t 1])
    moreover have "typed (fst (wait_loop ?tk True es w1))" by (rule wait_loop_typed [OF take_once_typed' assms(2) 1])
    ultimately show ?thesis using c Inr t by (simp add: Dequeue_gw_def Let_def split: sum.split)
  qed
qed

subsection \<open>Administration\<close>

lemma check_dlq_typed [keeps_type]: "check_dlq org s w = (w', r) \<Longrightarrow> typed w \<Longrightarrow> typed w'"
  by (auto simp: check_dlq_def Let_def split: if_splits prod.splits sum.splits dest: keeps_type)

lemma place_slots_typed [keeps_type]: "place_slots org nm width ss w = (w', r) \<Longrightarrow> typed w \<Longrightarrow> typed w'"
  by (induction ss arbitrary: w) (auto split: sum.splits prod.splits dest: keeps_type)

lemma UpdateQueue_typed [keeps_type]: "UpdateQueue req w = (w', r) \<Longrightarrow> typed w \<Longrightarrow> typed w'"
  by (auto simp: UpdateQueue_def Let_def split: if_splits prod.splits sum.splits dest!: keeps_type)

lemma CreateQueue_typed [keeps_type]: "CreateQueue req w = (w', r) \<Longrightarrow> typed w \<Longrightarrow> typed w'"
  by (auto simp: CreateQueue_def Let_def split: if_splits prod.splits sum.splits dest!: keeps_type)

lemma ListQueues_typed [keeps_type]: "ListQueues org w = (w', r) \<Longrightarrow> typed w \<Longrightarrow> typed w'"
  by (auto simp: ListQueues_def split: prod.splits sum.splits dest!: keeps_type)

lemma deadLetterUsers_typed [keeps_type]: "deadLetterUsers org nm w = (w', r) \<Longrightarrow> typed w \<Longrightarrow> typed w'"
  by (auto simp: deadLetterUsers_def split: prod.splits sum.splits dest!: keeps_type)

lemma DeleteQueue_typed [keeps_type]: "DeleteQueue api org nm w = (w', r) \<Longrightarrow> typed w \<Longrightarrow> typed w'"
proof -
  assume d: "DeleteQueue api org nm w = (w', r)" and t: "typed w"
  define drop where "drop = (\<lambda>cfg w. case ownerAddr cfg 0 w of
      (w, Inr (_, addr)) \<Rightarrow>
        (if addr \<noteq> [] then fst (node_call addr (\<lambda>cs addr dial net n. gw_Drop cs addr dial net (api_Drop api) (Spec cfg) n) w) else w)
    | (w, Inl _) \<Rightarrow> w)"
  have dr: "typed w \<Longrightarrow> typed (drop cfg w)" for cfg w
    by (auto simp: drop_def split: prod.split sum.split dest!: ownerAddr_typed)
  show ?thesis using d t
    unfolding DeleteQueue_def drop_def [symmetric] Let_def
    by (auto split: if_splits prod.splits sum.splits dest!: keeps_type dest: dr)
qed

subsection \<open>Moves, repairs, the dead-letter router\<close>

lemma calls_typed [keeps_type]:
  "call_PrepareMove api addr spec sl mv w = (w1, r1) \<Longrightarrow> typed w \<Longrightarrow> typed w1"
  "call_Absorb api addr t w = (w2, r2) \<Longrightarrow> typed w \<Longrightarrow> typed w2"
  "call_DiscardMove api addr spec sl mv w = (w3, r3) \<Longrightarrow> typed w \<Longrightarrow> typed w3"
  "call_AbortMove api addr spec sl mv w = (w4, r4) \<Longrightarrow> typed w \<Longrightarrow> typed w4"
  "call_Held api addr w = (w5, r5) \<Longrightarrow> typed w \<Longrightarrow> typed w5"
  "call_DeadLetters api addr w = (w6, r6) \<Longrightarrow> typed w \<Longrightarrow> typed w6"
  "call_AckDeadLetters api addr ids w = (w7, r7) \<Longrightarrow> typed w \<Longrightarrow> typed w7"
  "call_StatsAll api addr w = (w8, r8) \<Longrightarrow> typed w \<Longrightarrow> typed w8"
  "call_Stats api addr spec w = (w9, r9) \<Longrightarrow> typed w \<Longrightarrow> typed w9"
  by (auto simp: call_PrepareMove_def call_Absorb_def call_DiscardMove_def call_AbortMove_def call_Held_def call_DeadLetters_def
      call_AckDeadLetters_def call_StatsAll_def call_Stats_def dest: node_typed)

lemma discard_typed [simp]: "typed w \<Longrightarrow> typed (fst (call_DiscardMove api addr spec sl mv w))"
  using calls_typed(3) by (metis prod.collapse)

lemma abort_typed [simp]: "typed w \<Longrightarrow> typed (abort_move api addr spec sl mv w)"
  unfolding abort_move_def using calls_typed(4) by (metis prod.collapse)

lemma ack_dead_typed [simp]: "typed w \<Longrightarrow> typed (fst (call_AckDeadLetters api addr ids w))"
  using calls_typed(7) by (metis prod.collapse)

lemma lock_typed [keeps_type]: "lock_queue cfg w = (w', r) \<Longrightarrow> typed w \<Longrightarrow> typed w'"
  unfolding lock_queue_def by (rule state_typed)

lemma unlock_typed [simp]: "typed w \<Longrightarrow> typed (unlock_queue cfg w)"
  unfolding unlock_queue_def by simp (metis prod.collapse state_typed)

lemma migrate_locked_typed [keeps_type]: "migrate_locked api mv cfg src dst w = (w', r) \<Longrightarrow> typed w \<Longrightarrow> typed w'"
  by (auto simp: migrate_locked_def Let_def split: prod.splits sum.splits dest!: keeps_type)

lemma migrate_typed [keeps_type]: "migrate api mv cfg src dst w = (w', r) \<Longrightarrow> typed w \<Longrightarrow> typed w'"
  by (auto simp: migrate_def Let_def split: prod.splits sum.splits dest!: keeps_type)

lemma record_slots_typed [keeps_type]: "record_slots cfg dst gen sl ok w = (w', r) \<Longrightarrow> typed w \<Longrightarrow> typed w'"
  by (induction sl arbitrary: ok w) (auto split: prod.splits sum.splits dest: keeps_type)

lemma move_route_typed [keeps_type]: "move_route api newID cfg x w = (w', r) \<Longrightarrow> typed w \<Longrightarrow> typed w'"
  by (cases x; cases "fst x")
    (auto simp: move_route_def Let_def split: prod.splits sum.splits option.splits bool.splits dest!: keeps_type)

lemma move_routes_typed [keeps_type]: "move_routes api newID cfg xs dn w = (w', r) \<Longrightarrow> typed w \<Longrightarrow> typed w'"
  by (induction xs arbitrary: dn w) (auto split: prod.splits dest!: move_route_typed)

lemma rebalanceSlots_typed [keeps_type]: "rebalanceSlots api newID perm cfg members w = (w', r) \<Longrightarrow> typed w \<Longrightarrow> typed w'"
  by (auto simp: rebalanceSlots_def Let_def split: prod.splits sum.splits if_splits dest!: keeps_type)

lemma withPlacement_typed [keeps_type]: "withPlacement cs w = (w', r) \<Longrightarrow> typed w \<Longrightarrow> typed w'"
  by (induction cs arbitrary: w r) (auto simp: Let_def split: prod.splits sum.splits if_splits dest!: asking_typed)

lemma rebalance_loop_typed [simp]: "typed w \<Longrightarrow> typed (rebalance_loop api newID perm members cfgs moved w)"
  by (induction cfgs arbitrary: moved w)
    (auto simp: Let_def split: prod.split sum.split option.split dest: rebalanceSlots_typed migrate_typed)

lemma Rebalance_typed [simp]: "typed w \<Longrightarrow> typed (Rebalance api newID perm w)"
  by (auto simp: Rebalance_def Let_def split: prod.split sum.split dest!: keeps_type)

lemma gather_held_typed [keeps_type]: "gather_held api ms w = (w', r) \<Longrightarrow> typed w \<Longrightarrow> typed w'"
  by (induction ms arbitrary: w r) (auto simp: Let_def split: prod.splits sum.splits dest!: calls_typed)

lemma repair_queue_typed [keeps_type]: "repair_queue api owners specs m q rep w = (w', r) \<Longrightarrow> typed w \<Longrightarrow> typed w'"
  by (auto simp: repair_queue_def Let_def split: prod.splits sum.splits option.splits if_splits dest!: calls_typed)

lemma repair_queues_typed [keeps_type]: "repair_queues api owners specs xs rep w = (w', r) \<Longrightarrow> typed w \<Longrightarrow> typed w'"
  by (induction xs arbitrary: rep w) (auto split: prod.splits dest!: repair_queue_typed)

lemma Reconcile_typed [keeps_type]: "Reconcile api w = (w', r) \<Longrightarrow> typed w \<Longrightarrow> typed w'"
  by (auto simp: Reconcile_def Let_def split: prod.splits sum.splits if_splits dest!: keeps_type)

lemma deliver_typed [keeps_type]: "deliverDeadLetter api cancelled d w = (w', r) \<Longrightarrow> typed w \<Longrightarrow> typed w'"
  by (auto simp: deliverDeadLetter_def Let_def split: prod.splits sum.splits if_splits dest!: keeps_type)

lemma deliver_letters_typed [keeps_type]: "deliver_letters api cancelled ds w = (w', r) \<Longrightarrow> typed w \<Longrightarrow> typed w'"
  by (induction ds arbitrary: w r) (auto split: prod.splits dest!: deliver_typed)

lemma route_member_typed [keeps_type]: "route_member api cancelled m w = (w', r) \<Longrightarrow> typed w \<Longrightarrow> typed w'"
  by (auto simp: route_member_def Let_def split: prod.splits sum.splits if_splits dest!: calls_typed deliver_letters_typed)

lemma route_members_typed: "route_members api cancelled ms w = (w', r) \<Longrightarrow> typed w \<Longrightarrow> typed w'"
  by (induction ms arbitrary: w r) (auto split: prod.splits dest!: route_member_typed)

lemma RouteDeadLetters_typed [keeps_type]: "RouteDeadLetters api cancelled w = (w', r) \<Longrightarrow> typed w \<Longrightarrow> typed w'"
  unfolding RouteDeadLetters_def by (rule route_members_typed)

subsection \<open>Statistics\<close>

lemma collect_queue_typed: "typed w \<Longrightarrow> typed (snd (collect_queue i s (tot, w)))"
  by (simp add: collect_queue_def Let_def)

lemma collect_queues_typed: "fold (collect_queue i) xs x = (tot', w') \<Longrightarrow> typed (snd x) \<Longrightarrow> typed w'"
proof (induction xs arbitrary: x)
  case (Cons s xs)
  have "typed (snd (collect_queue i s x))" using collect_queue_typed [of "snd x" i s "fst x"] Cons.prems(2) by simp
  with Cons show ?case by simp
qed simp

lemma collect_members_typed: "collect_members api ms tot w = (tot', w') \<Longrightarrow> typed w \<Longrightarrow> typed w'"
  by (induction ms arbitrary: tot w) (auto simp: Let_def split: prod.splits sum.splits dest!: calls_typed(8) collect_queues_typed)

lemma recordRates_typed: "typed w \<Longrightarrow> typed (recordRates s w)"
  by (simp add: recordRates_def Let_def split: option.split cached.split)

lemma Collect_typed [simp]: "typed w \<Longrightarrow> typed (Collect api perm w)"
proof -
  have "typed w \<Longrightarrow> typed (fold (\<lambda>(k, s) w. recordRates s (writeCache (prefixStats @ k) (statsTTL w) (C_Stats s) w)) xs w)" for xs and w :: "'a world"
    by (induction xs arbitrary: w) (auto simp: recordRates_typed split: prod.split)
  then show "typed w \<Longrightarrow> typed (Collect api perm w)"
    by (auto simp: Collect_def split: prod.split dest!: collect_members_typed)
qed

lemma ask_stats_typed [keeps_type]: "ask_stats api spec xs tot missing w = (w', r) \<Longrightarrow> typed w \<Longrightarrow> typed w'"
  by (induction xs arbitrary: tot missing w) (auto split: prod.splits sum.splits option.splits dest!: calls_typed(9))

lemma Stats_typed [keeps_type]: "Stats_gw api perm org nm w = (w', r) \<Longrightarrow> typed w \<Longrightarrow> typed w'"
  by (auto simp: Stats_gw_def owner_stats_def split: prod.splits sum.splits option.splits if_splits dest!: keeps_type)

lemma pages_typed [keeps_type]:
  "GetMetrics org w = (w1, r1) \<Longrightarrow> typed w \<Longrightarrow> typed w1"
  "GetClusterDetails perm w = (w2, r2) \<Longrightarrow> typed w \<Longrightarrow> typed w2"
  "GetNodeDetails api perm' org i w = (w3, r3) \<Longrightarrow> typed w \<Longrightarrow> typed w3"
  "GetTimeseriesMetrics q org nm win w = (w4, r4) \<Longrightarrow> typed w \<Longrightarrow> typed w4"
  by (auto simp: GetMetrics_def GetClusterDetails_def GetNodeDetails_def GetTimeseriesMetrics_def Let_def
      split: prod.splits sum.splits option.splits dest!: asking_typed withPlacement_typed calls_typed(8) config_for_typed)

subsection \<open>Every operation\<close>

text \<open>What the gateways of a cluster do, one operation after the other, in any order, while time passes, machines come
  and go, calls to nodes and database fail, and nodes and cache change on their own.\<close>

inductive gateway_run :: "'n nodeAPI \<Rightarrow> 'n world \<Rightarrow> 'n world \<Rightarrow> bool" for api w where
  Start: "gateway_run api w w"
| Elsewhere: "gateway_run api w w' \<Longrightarrow> g_db w'' = g_db w' \<Longrightarrow> gateway_run api w w''"
| Creating: "gateway_run api w w' \<Longrightarrow> gateway_run api w (fst (CreateQueue creq w'))"
| Updating: "gateway_run api w w' \<Longrightarrow> gateway_run api w (fst (UpdateQueue ureq w'))"
| Deleting: "gateway_run api w w' \<Longrightarrow> gateway_run api w (fst (DeleteQueue api org nm w'))"
| Listing: "gateway_run api w w' \<Longrightarrow> gateway_run api w (fst (ListQueues org w'))"
| Enqueuing: "gateway_run api w w' \<Longrightarrow> gateway_run api w (fst (Enqueue_gw api cancelled ereq w'))"
| Dequeuing: "gateway_run api w w' \<Longrightarrow> meanwhile_typed es \<Longrightarrow> gateway_run api w (fst (Dequeue_gw api cancelled order es qreq w'))"
| Acking: "gateway_run api w w' \<Longrightarrow> gateway_run api w (fst (Ack_gw api cancelled areq w'))"
| Nacking: "gateway_run api w w' \<Longrightarrow> gateway_run api w (fst (Nack_gw api cancelled nreq w'))"
| Rebalancing: "gateway_run api w w' \<Longrightarrow> gateway_run api w (Rebalance api newID perm1 w')"
| Reconciling: "gateway_run api w w' \<Longrightarrow> gateway_run api w (fst (Reconcile api w'))"
| Burying: "gateway_run api w w' \<Longrightarrow> gateway_run api w (fst (RouteDeadLetters api cancelled w'))"
| Collecting: "gateway_run api w w' \<Longrightarrow> gateway_run api w (Collect api perm2 w')"
| Measuring: "gateway_run api w w' \<Longrightarrow> gateway_run api w (fst (Stats_gw api perm3 org nm w'))"
| Metrics: "gateway_run api w w' \<Longrightarrow> gateway_run api w (fst (GetMetrics org w'))"
| Cluster: "gateway_run api w w' \<Longrightarrow> gateway_run api w (fst (GetClusterDetails perm3 w'))"
| Machine: "gateway_run api w w' \<Longrightarrow> gateway_run api w (fst (GetNodeDetails api perm3 org i w'))"
| History: "gateway_run api w w' \<Longrightarrow> gateway_run api w (fst (GetTimeseriesMetrics q org nm win w'))"

lemma fst_typed: "(\<And>w' r. x = (w', r) \<Longrightarrow> typed w \<Longrightarrow> typed w') \<Longrightarrow> typed w \<Longrightarrow> typed (fst x)"
  by (metis prod.collapse)

lemmas ops_typed =
  fst_typed [OF CreateQueue_typed]
  fst_typed [OF UpdateQueue_typed]
  fst_typed [OF DeleteQueue_typed]
  fst_typed [OF ListQueues_typed]
  fst_typed [OF Enqueue_typed]
  fst_typed [OF Ack_typed]
  fst_typed [OF Nack_typed]
  fst_typed [OF Reconcile_typed]
  fst_typed [OF RouteDeadLetters_typed]
  fst_typed [OF Stats_typed]
  fst_typed [OF pages_typed(1)]
  fst_typed [OF pages_typed(2)]
  fst_typed [OF pages_typed(3)]
  fst_typed [OF pages_typed(4)]

lemma gateway_run_typed: "gateway_run api w w' \<Longrightarrow> typed w \<Longrightarrow> typed w'"
proof (induction rule: gateway_run.induct)
  case (Elsewhere w' w'')
  then show ?case by blast
next
  case (Dequeuing w' es cancelled order qreq)
  then show ?case using Dequeue_typed by blast
qed (simp_all add: ops_typed)

text \<open>C23: The tables stay well typed. Whatever the gateways of a cluster do, in whatever order and with whatever
  failures, no organisation has two queues of a name, no slot of a queue two owners, and a row names a
  gateway that is migrating it, and since when, exactly while it is in migrating.\<close>

theorem tables_typed:
  assumes "gateway_run api w w'" and "typed w"
  shows "distinct (map (\<lambda>r. (row_org_id r, row_name r)) (queues_tab (g_db w'))) \<and>
    distinct (map (\<lambda>p. (spl_Org p, spl_QueueName p, spl_Slot p)) (slots_tab (g_db w'))) \<and>
    (\<forall>r \<in> set (queues_tab (g_db w')).
       (row_state r = StateMigrating \<longleftrightarrow> row_migrating_by r \<noteq> None) \<and> (row_state r = StateMigrating \<longleftrightarrow> row_migrating_since r \<noteq> None))"
proof -
  have l: "lock_fields r \<Longrightarrow> (row_state r = StateMigrating \<longleftrightarrow> row_migrating_by r \<noteq> None) \<and> (row_state r = StateMigrating \<longleftrightarrow> row_migrating_since r \<noteq> None)"
    for r by (simp add: lock_fields_def split: if_splits)
  show ?thesis using gateway_run_typed [OF assms] l unfolding typed_def keys_unique_def by blast
qed

theorem tables_typed_witness:
  "{r \<in> set (queues_tab (g_db (Rebalance (host_api (\<lambda>_. [])) (\<lambda>_ _. ''m1'') id
      (fst (DeleteQueue (host_api (\<lambda>_. [])) ''o'' ''n'' (demo_world demo_config leak1 [unheard])))))).
    (row_state r = StateMigrating) \<noteq> (row_migrating_by r \<noteq> None)} = {}"
proof -
  let ?api = "host_api (\<lambda>_. [])" and ?w = "demo_world demo_config leak1 [unheard]"
  have r: "gateway_run ?api ?w (Rebalance ?api (\<lambda>_ _. ''m1'') id (fst (DeleteQueue ?api ''o'' ''n'' ?w)))"
    by (intro gateway_run.Rebalancing gateway_run.Deleting gateway_run.Start)
  have "typed ?w" by (simp add: typed_def keys_unique_def lock_fields_def demo_world_def new_row_def)
  from tables_typed [OF r this] show ?thesis by blast
qed

end
