(* ===== verification/Admission.thy ===== *)
theory Admission
  imports QueueTransfer
begin

text \<open>
  The depth limit of a queue under concurrent producers (\<open>EnqueueToSlot\<close> of
  \<open>backend/queue/logic/engine/queue.go\<close>).  No lock covers the check: a call claims a place in \<open>reserved\<close>,
  compares \<open>depth\<close> and its claim with the limit, stores its message under the lock of the slot, counts it
  in \<open>depth\<close> and gives the claim back, and between two of these atomic operations any other call may
  run.  A step of this theory is one of them; the calls under way are a list, the oldest claim first.
  The limit is one number throughout: a run in which \<open>Reconfigure\<close> changes it is not one.
\<close>

subsection \<open>Steps\<close>

text \<open>How far a call has come: \<open>Claimed\<close> with the number its claim gave it.\<close>

datatype stage = Claimed int | Admitted | Refused | Stored | Counted

record gate =
  ga_max :: int
  ga_depth :: int
  ga_reserved :: int
  ga_held :: int
  ga_leaving :: int
  ga_calls :: "stage list"

definition claim :: "gate \<Rightarrow> gate" where
  "claim g = (let n = ga_reserved g + 1 in g\<lparr>ga_reserved := n, ga_calls := ga_calls g @ [Claimed n]\<rparr>)"

definition load_depth :: "gate \<Rightarrow> int \<Rightarrow> stage" where
  "load_depth g pending = (if ga_max g > 0 \<and> ga_depth g + pending > ga_max g then Refused else Admitted)"

text \<open>
  \<open>give_back\<close> is every path out: a refusal, a slot that is frozen or a journal that fails, and the end.
  A message leaves under its slot's lock and is taken off \<open>depth\<close> afterwards, unless it had expired
  when a dequeue or a nack came across it, which takes nothing off.
\<close>

inductive gate_step :: "gate \<Rightarrow> gate \<Rightarrow> bool" where
  claims: "gate_step g (claim g)"
| loads: "ga_calls g = xs @ Claimed p # ys \<Longrightarrow> gate_step g (g\<lparr>ga_calls := xs @ load_depth g p # ys\<rparr>)"
| gives_back: "ga_calls g = xs @ c # ys \<Longrightarrow> c \<in> {Refused, Admitted, Counted} \<Longrightarrow>
    gate_step g (g\<lparr>ga_reserved := ga_reserved g - 1, ga_calls := xs @ ys\<rparr>)"
| stores: "ga_calls g = xs @ Admitted # ys \<Longrightarrow> gate_step g (g\<lparr>ga_held := ga_held g + 1, ga_calls := xs @ Stored # ys\<rparr>)"
| counts: "ga_calls g = xs @ Stored # ys \<Longrightarrow> gate_step g (g\<lparr>ga_depth := ga_depth g + 1, ga_calls := xs @ Counted # ys\<rparr>)"
| leaves: "0 < ga_held g \<Longrightarrow> gate_step g (g\<lparr>ga_held := ga_held g - 1, ga_leaving := ga_leaving g + 1\<rparr>)"
| uncounts: "0 < ga_leaving g \<Longrightarrow> gate_step g (g\<lparr>ga_depth := ga_depth g - 1, ga_leaving := ga_leaving g - 1\<rparr>)"
| expires: "0 < ga_held g \<Longrightarrow> gate_step g (g\<lparr>ga_held := ga_held g - 1\<rparr>)"

text \<open>A queue that holds \<open>n\<close> messages, with no call under way.\<close>

definition idle_gate :: "int \<Rightarrow> int \<Rightarrow> gate" where
  "idle_gate mx n = \<lparr>ga_max = mx, ga_depth = n, ga_reserved = 0, ga_held = n, ga_leaving = 0, ga_calls = []\<rparr>"

lemma gate_one: "gate_step g g' \<Longrightarrow> gate_step\<^sup>*\<^sup>* g g'"
  by (rule r_into_rtranclp)

lemma gate_more: "gate_step\<^sup>*\<^sup>* g g' \<Longrightarrow> gate_step g' g'' \<Longrightarrow> gate_step\<^sup>*\<^sup>* g g''"
  by (rule rtranclp.rtrancl_into_rtrancl)

subsection \<open>The invariant\<close>

text \<open>
  The rank of a call is the number of calls not yet counted that claimed before it, itself included.
  A claim is never below the rank of its call, and every admitted call has room for all of its rank.
\<close>

fun weight :: "stage \<Rightarrow> int" where
  "weight Counted = 0" | "weight _ = 1"

definition rank :: "stage list \<Rightarrow> int" where
  "rank cs = (\<Sum>c\<leftarrow>cs. weight c)"

fun has_room :: "int \<Rightarrow> int \<Rightarrow> stage \<Rightarrow> int \<Rightarrow> bool" where
  "has_room mx d (Claimed p) k = (k \<le> p)"
| "has_room mx d Admitted k = (d + k \<le> mx)"
| "has_room mx d Stored k = (d + k \<le> mx)"
| "has_room mx d Refused k = True"
| "has_room mx d Counted k = True"

fun room :: "int \<Rightarrow> int \<Rightarrow> stage list \<Rightarrow> int \<Rightarrow> bool" where
  "room mx d [] k = True"
| "room mx d (c # cs) k = (has_room mx d c (k + weight c) \<and> room mx d cs (k + weight c))"

lemma rank_simps [simp]: "rank [] = 0" "rank (c # cs) = weight c + rank cs" "rank (xs @ ys) = rank xs + rank ys"
  by (simp_all add: rank_def)

lemma weight_bounds: "0 \<le> weight c \<and> weight c \<le> 1"
  by (cases c) simp_all

lemma rank_bounds: "0 \<le> rank cs \<and> rank cs \<le> int (length cs)"
  by (induction cs) (use weight_bounds in \<open>auto simp: add_mono\<close>)

lemma room_append [simp]: "room mx d (xs @ ys) k \<longleftrightarrow> room mx d xs k \<and> room mx d ys (k + rank xs)"
  by (induction xs arbitrary: k) (auto simp: algebra_simps)

lemma has_room_mono: "has_room mx d c k \<Longrightarrow> j \<le> k \<Longrightarrow> d' + j \<le> d + k \<Longrightarrow> has_room mx d' c j"
  by (cases c) auto

lemma room_mono: "room mx d cs k \<Longrightarrow> j \<le> k \<Longrightarrow> d' + j \<le> d + k \<Longrightarrow> room mx d' cs j"
  by (induction cs arbitrary: k j) (auto elim: has_room_mono)

lemma room_below: "room mx d cs k \<Longrightarrow> d' + k + rank cs \<le> mx \<Longrightarrow> room mx d' cs k"
proof (induction cs arbitrary: k)
  case (Cons c cs)
  have "d' + (k + weight c) \<le> mx" using Cons.prems(2) rank_bounds [of cs] by simp
  then have "has_room mx d' c (k + weight c)" using Cons.prems(1) by (cases c) auto
  then show ?case using Cons by (simp add: algebra_simps)
qed simp

definition stored :: "stage list \<Rightarrow> int" where
  "stored cs = int (count_list cs Stored)"

lemma stored_simps [simp]: "stored [] = 0" "stored (c # cs) = (if c = Stored then 1 else 0) + stored cs" "stored (xs @ ys) = stored xs + stored ys"
  by (simp_all add: stored_def)

lemma stored_nonneg [simp]: "0 \<le> stored cs"
  by (simp add: stored_def)

lemma room_stored: "room mx d cs k \<Longrightarrow> stored cs = 0 \<or> d + k + stored cs \<le> mx"
proof (induction cs arbitrary: k)
  case (Cons c cs)
  then have "stored cs = 0 \<or> d + (k + weight c) + stored cs \<le> mx" by simp
  then show ?case using Cons.prems by (cases c) (auto simp: algebra_simps)
qed simp

definition gate_ok :: "gate \<Rightarrow> bool" where
  "gate_ok g \<longleftrightarrow> ga_reserved g = int (length (ga_calls g)) \<and> ga_depth g \<le> ga_max g \<and> 0 \<le> ga_leaving g \<and>
     ga_held g + ga_leaving g \<le> ga_depth g + stored (ga_calls g) \<and> room (ga_max g) (ga_depth g) (ga_calls g) 0"

lemma gate_step_max: "gate_step g g' \<Longrightarrow> ga_max g' = ga_max g"
  by (induction rule: gate_step.induct) (simp_all add: claim_def Let_def)

lemma gate_step_ok:
  assumes "gate_step g g'" and "0 < ga_max g" and "gate_ok g"
  shows "gate_ok g'"
  using assms
proof (induction rule: gate_step.induct)
  case (claims g)
  then show ?case using rank_bounds [of "ga_calls g"] by (simp add: gate_ok_def claim_def Let_def)
next
  case (loads g xs p ys)
  have r: "rank xs + 1 \<le> p" using loads by (simp add: gate_ok_def)
  have w: "weight (load_depth g p) = 1" by (simp add: load_depth_def)
  have "has_room (ga_max g) (ga_depth g) (load_depth g p) (rank xs + 1)" using r loads.prems(1) by (simp add: load_depth_def)
  then show ?case using loads w by (simp add: gate_ok_def load_depth_def)
next
  case (gives_back g xs c ys)
  have "room (ga_max g) (ga_depth g) ys (rank xs + weight c)" using gives_back by (simp add: gate_ok_def)
  then have "room (ga_max g) (ga_depth g) ys (rank xs)" by (rule room_mono) (use weight_bounds [of c] in simp_all)
  moreover have "c \<noteq> Stored" using gives_back.hyps(2) by auto
  ultimately show ?case using gives_back by (simp add: gate_ok_def)
next
  case (counts g xs ys)
  have o: "ga_depth g + (rank xs + 1) \<le> ga_max g" "room (ga_max g) (ga_depth g) xs 0" "room (ga_max g) (ga_depth g) ys (rank xs + 1)"
    using counts by (simp_all add: gate_ok_def)
  have "room (ga_max g) (ga_depth g + 1) xs 0" using o(1) by (intro room_below [OF o(2)]) simp
  moreover have "room (ga_max g) (ga_depth g + 1) ys (rank xs)" by (rule room_mono [OF o(3)]) simp_all
  ultimately show ?case using counts o(1) rank_bounds [of xs] by (simp add: gate_ok_def)
next
  case (uncounts g)
  then show ?case by (auto simp: gate_ok_def elim: room_mono)
qed (simp_all add: gate_ok_def)

lemma gate_run_ok: "gate_step\<^sup>*\<^sup>* g g' \<Longrightarrow> 0 < ga_max g \<Longrightarrow> gate_ok g \<Longrightarrow> gate_ok g' \<and> ga_max g' = ga_max g"
  by (induction rule: rtranclp_induct) (auto dest: gate_step_max gate_step_ok)

subsection \<open>A call on its own\<close>

text \<open>
  \<open>EnqueueToSlot\<close> run without interruption is a run of these steps: the counters of the queue move as
  they say, whatever it answers.
\<close>

definition gate_of :: "queue \<Rightarrow> int \<Rightarrow> gate" where
  "gate_of q n = \<lparr>ga_max = MaxDepth (conf q), ga_depth = depth q, ga_reserved = reserved q, ga_held = n, ga_leaving = 0, ga_calls = []\<rparr>"

lemma gate_of_run:
  shows "gate_step\<^sup>*\<^sup>* (gate_of q n) (gate_of q n)"
    and "\<not> (MaxDepth (conf q) > 0 \<and> depth q + (reserved q + 1) > MaxDepth (conf q)) \<Longrightarrow>
      gate_step\<^sup>*\<^sup>* (gate_of q n) ((gate_of q n)\<lparr>ga_held := n + 1, ga_depth := depth q + 1\<rparr>)"
proof -
  let ?g0 = "gate_of q n" let ?g1 = "claim ?g0"
  let ?g2 = "?g1\<lparr>ga_calls := [load_depth ?g1 (reserved q + 1)]\<rparr>"
  let ?g3 = "?g2\<lparr>ga_held := n + 1, ga_calls := [Stored]\<rparr>"
  let ?g4 = "?g3\<lparr>ga_depth := depth q + 1, ga_calls := [Counted]\<rparr>"
  show "gate_step\<^sup>*\<^sup>* ?g0 ?g0" by simp
  assume r: "\<not> (MaxDepth (conf q) > 0 \<and> depth q + (reserved q + 1) > MaxDepth (conf q))"
  have l: "load_depth ?g1 (reserved q + 1) = Admitted" using r by (simp add: load_depth_def claim_def gate_of_def Let_def)
  have a: "gate_step ?g0 ?g1" by (rule claims)
  have b: "gate_step ?g1 ?g2"
    using loads [of ?g1 "[]" "reserved q + 1" "[]"] by (simp add: claim_def gate_of_def Let_def)
  have c: "gate_step ?g2 ?g3"
    using stores [of ?g2 "[]" "[]"] l by (simp add: claim_def gate_of_def Let_def)
  have d: "gate_step ?g3 ?g4"
    using counts [of ?g3 "[]" "[]"] by (simp add: claim_def gate_of_def Let_def)
  have e: "gate_step ?g4 (?g4\<lparr>ga_reserved := ga_reserved ?g4 - 1, ga_calls := []\<rparr>)"
    using gives_back [of ?g4 "[]" Counted "[]"] by simp
  have x: "?g4\<lparr>ga_reserved := ga_reserved ?g4 - 1, ga_calls := []\<rparr> = ?g0\<lparr>ga_held := n + 1, ga_depth := depth q + 1\<rparr>"
    by (simp add: claim_def gate_of_def Let_def)
  show "gate_step\<^sup>*\<^sup>* ?g0 (?g0\<lparr>ga_held := n + 1, ga_depth := depth q + 1\<rparr>)"
    using gate_more [OF gate_more [OF gate_more [OF gate_more [OF gate_one [OF a] b] c] d] e] unfolding x .
qed

lemma EnqueueToSlot_steps:
  assumes "EnqueueToSlot q i o' newid now jok = (q', r)"
  shows "gate_step\<^sup>*\<^sup>* (gate_of q n) (gate_of q' (case r of Inl _ \<Rightarrow> n | Inr _ \<Rightarrow> n + 1))"
proof (cases r)
  case (Inl e)
  then have "gate_of q' n = gate_of q n" using assms
    by (auto simp: EnqueueToSlot_def gate_of_def nextSeq_def get_slot_reserved Let_def split: if_splits)
  then show ?thesis using Inl gate_of_run(1) [of q n] by simp
next
  case (Inr m)
  then have "\<not> (MaxDepth (conf q) > 0 \<and> depth q + (reserved q + 1) > MaxDepth (conf q))"
    and "gate_of q' (n + 1) = (gate_of q n)\<lparr>ga_held := n + 1, ga_depth := depth q + 1\<rparr>" using assms
    by (auto simp: EnqueueToSlot_def gate_of_def nextSeq_def get_slot_reserved Let_def split: if_splits)
  then show ?thesis using Inr gate_of_run(2) [of q n] by simp
qed

subsection \<open>The limit\<close>

text \<open>C8: The depth limit holds under any number of concurrent producers. From a queue within its limit,
  however the calls, the acknowledgements and the expiries interleave, the queue never holds more
  than the limit, the counter never passes it, and every claim is given back: those outstanding are the
  calls under way.\<close>

theorem admission_bound:
  assumes "gate_step\<^sup>*\<^sup>* (idle_gate mx n) g" and "0 < mx" and "n \<le> mx"
  shows "ga_held g \<le> mx \<and> ga_depth g \<le> mx \<and> ga_reserved g = int (length (ga_calls g))"
proof -
  have "gate_ok (idle_gate mx n)" using assms(3) by (simp add: gate_ok_def idle_gate_def)
  then have g: "gate_ok g" "ga_max g = mx" using gate_run_ok [OF assms(1)] assms(2) by (simp_all add: idle_gate_def)
  then show ?thesis using room_stored [of mx "ga_depth g" "ga_calls g" 0] by (auto simp: gate_ok_def)
qed

text \<open>Two producers reach for the last place of a queue; the other one is refused.\<close>

definition last_place :: gate where
  "last_place = \<lparr>ga_max = 2, ga_depth = 1, ga_reserved = 2, ga_held = 1, ga_leaving = 0, ga_calls = [Admitted, Refused]\<rparr>"

lemma last_place_reached: "gate_step\<^sup>*\<^sup>* (idle_gate 2 1) last_place"
proof -
  let ?g = "claim (claim (idle_gate 2 1))"
  have c: "ga_calls ?g = [Claimed 1, Claimed 2]" by (simp add: claim_def idle_gate_def Let_def)
  have a: "gate_step ?g (?g\<lparr>ga_calls := [Admitted, Claimed 2]\<rparr>)"
    using loads [of ?g "[]" 1 "[Claimed 2]"] c by (simp add: load_depth_def claim_def idle_gate_def Let_def)
  have b: "gate_step (?g\<lparr>ga_calls := [Admitted, Claimed 2]\<rparr>) last_place"
    using loads [of "?g\<lparr>ga_calls := [Admitted, Claimed 2]\<rparr>" "[Admitted]" 2 "[]"]
    by (simp add: load_depth_def claim_def idle_gate_def last_place_def Let_def)
  show ?thesis by (rule gate_more [OF gate_more [OF gate_more [OF gate_one [OF claims] claims] a] b])
qed

theorem admission_bound_witness: "ga_held last_place \<le> 2 \<and> ga_depth last_place \<le> 2 \<and> ga_reserved last_place = 2"
  using admission_bound [OF last_place_reached] by (simp add: last_place_def)

text \<open>Counterexample: a call is refused as full by a queue that has room for it and for every other call under
  way. A call that has counted its message and not yet given its claim back is counted twice, so the
  second of two calls on an empty queue that may hold two is refused.\<close>

theorem admission_refuses_fitting:
  "\<exists>g. gate_step\<^sup>*\<^sup>* (idle_gate 2 0) g \<and> ga_calls g = [Counted, Refused] \<and> ga_held g = 1 \<and> ga_depth g = 1"
proof -
  let ?g0 = "idle_gate 2 0" let ?g1 = "claim (claim ?g0)"
  let ?g2 = "?g1\<lparr>ga_calls := [Admitted, Claimed 2]\<rparr>"
  let ?g3 = "?g2\<lparr>ga_held := 1, ga_calls := [Stored, Claimed 2]\<rparr>"
  let ?g4 = "?g3\<lparr>ga_depth := 1, ga_calls := [Counted, Claimed 2]\<rparr>"
  let ?g5 = "?g4\<lparr>ga_calls := [Counted, Refused]\<rparr>"
  have a: "gate_step ?g1 ?g2"
    using loads [of ?g1 "[]" 1 "[Claimed 2]"] by (simp add: load_depth_def claim_def idle_gate_def Let_def)
  have b: "gate_step ?g2 ?g3" using stores [of ?g2 "[]" "[Claimed 2]"] by (simp add: claim_def idle_gate_def Let_def)
  have c: "gate_step ?g3 ?g4" using counts [of ?g3 "[]" "[Claimed 2]"] by (simp add: claim_def idle_gate_def Let_def)
  have d: "gate_step ?g4 ?g5"
    using loads [of ?g4 "[Counted]" 2 "[]"] by (simp add: load_depth_def claim_def idle_gate_def Let_def)
  have "gate_step\<^sup>*\<^sup>* ?g0 ?g5"
    by (rule gate_more [OF gate_more [OF gate_more [OF gate_more [OF gate_more [OF gate_one [OF claims] claims] a] b] c] d])
  then show ?thesis by (intro exI [of _ ?g5]) simp
qed

end
