(* ===== verification/Handoff.thy ===== *)
theory Handoff
  imports NodeShape
begin

text \<open>
  What may happen between the lock regions of a node's operations while slots are handed over
  (\<open>backend/queue/logic/engine/queue.go\<close>, \<open>backend/queue/logic/migration-logic.go\<close>).  \<open>EnqueueToSlot\<close> reads the
  frozen flag of a slot before it takes the lock of the slot, and \<open>Absorb\<close> writes to the log before
  it takes any lock of the engine; here each is the two halves between which others may run, and an
  uninterrupted run of the halves is the operation of \<open>Queue\<close> and \<open>NodeMaint\<close>.
\<close>

subsection \<open>The two halves of an enqueue\<close>

text \<open>Up to where the lock of the slot is asked for; the claim in \<open>reserved\<close> stays.\<close>

definition enqueue_enter :: "queue \<Rightarrow> u16 \<Rightarrow> enqueueOptions \<Rightarrow> string \<Rightarrow> time \<Rightarrow> queue \<times> (engine_error + message)" where
  "enqueue_enter q slotID o' newid now =
     (if qfrozen q then (q, Inl ErrFrozen)
      else if unat slotID \<ge> slotCount q then (q, Inl ErrBadSlot)
      else if \<not> prio_valid (eo_Priority o') then (q, Inl ErrBadPriority)
      else
        let q = q\<lparr>reserved := reserved q + 1\<rparr>; pending = reserved q
        in if MaxDepth (conf q) > 0 \<and> depth q + pending > MaxDepth (conf q)
           then (q\<lparr>reserved := reserved q - 1\<rparr>, Inl ErrQueueFull)
           else let m = build_message (conf q) o' newid now; (q, s) = get_slot q slotID
                in if sfrozen s then (q\<lparr>reserved := reserved q - 1\<rparr>, Inl ErrFrozen) else (q, Inr m))"

text \<open>From there on, with the slot the first half found; a queue never takes a slot out of its map.\<close>

definition enqueue_commit :: "queue \<Rightarrow> u16 \<Rightarrow> message \<Rightarrow> time \<Rightarrow> bool \<Rightarrow> queue \<times> (engine_error + message)" where
  "enqueue_commit q slotID m now journal_ok =
     (let (q, s) = get_slot q slotID; (q, n) = nextSeq q; m = m\<lparr>Seq := n\<rparr>
      in if \<not> journal_ok then (q\<lparr>reserved := reserved q - 1\<rparr>, Inl ErrJournal)
         else let q = q\<lparr>jlog := jlog q @ [AppendEnqueue slotID m]\<rparr>;
                  q = put_slot q slotID (enqueue s m now);
                  q = q\<lparr>depth := depth q + 1\<rparr>
              in (q\<lparr>reserved := reserved q - 1\<rparr>, Inr m))"

lemma get_slot_again: "get_slot q i = (q', s) \<Longrightarrow> get_slot q' i = (q', s)"
  by (auto simp: get_slot_def rebuildLocalView_def update_conv' split: option.splits)

lemma EnqueueToSlot_halves:
  "EnqueueToSlot q i o' newid now jok =
     (case enqueue_enter q i o' newid now of (q, Inl e) \<Rightarrow> (q, Inl e) | (q, Inr m) \<Rightarrow> enqueue_commit q i m now jok)"
  by (simp add: EnqueueToSlot_def enqueue_enter_def enqueue_commit_def Let_def split: prod.split)
     (auto dest: get_slot_again)

subsection \<open>What a hand-over loses\<close>

text \<open>C4: A hand-over of a slot moves what the slot held when it was copied, no more and no less. Whatever happens
  to the slot between the copy and the drop, the messages dropped at the old owner, with those that
  left it meanwhile, are the copies and the messages that entered it meanwhile: what entered is lost, and
  what was acknowledged comes back.\<close>

theorem handover_window:
  assumes "slot_reach s" and "iterates ki (inflight s)" and "iterates kg (groups s)" and "ms = copyAll (s\<lparr>sfrozen := True\<rparr>) ki kg"
    and "slot_run (s\<lparr>sfrozen := True\<rparr>) In Out T s'"
    and "iterates ki' (inflight s')" and "iterates kg' (groups s')" and "drain s' ki' kg' = (s'', ds)"
  shows "\<exists>gone. {m. m \<in># gone \<and> (\<forall>t \<in> T. \<not> expired m t)} = {} \<and>
    image_mset core (mset ds + Out + gone) = image_mset core (mset ms + In)"
proof -
  have ok: "slot_ok s" using assms(1) run_ok newSlot_ok(1) unfolding slot_reach_def by blast
  note f = mark_ok [OF ok, of True]
  have ms: "mset ms = held s" using copyAll_held [OF slot_okD(2) [OF f(1)]] assms(2-4) f(2) by simp
  obtain gone where g: "slot_ok s'" "\<forall>m \<in># gone. \<exists>t \<in> T. expired m t"
    "image_mset core (held (s\<lparr>sfrozen := True\<rparr>) + In) = image_mset core (held s' + Out + gone)"
    using run_ok [OF assms(5) f(1)] by blast
  have "mset ds = held s'" using drain_spec(3) [OF slot_okD(2) [OF g(1)] assms(6-8)] .
  then have "image_mset core (mset ds + Out + gone) = image_mset core (mset ms + In)" using g(3) ms f(2) by simp
  moreover have "{m. m \<in># gone \<and> (\<forall>t \<in> T. \<not> expired m t)} = {}" using g(2) by blast
  ultimately show ?thesis by blast
qed

text \<open>A message that enters a slot copied while empty.\<close>

definition entered_late :: slot where
  "entered_late = enqueue ((newSlot 0)\<lparr>sfrozen := True\<rparr>) (plain ''a'' 50 1) 3"

theorem handover_window_witness:
  "\<exists>gone. image_mset core (mset (snd (drain entered_late (remdups (map fst (inflight entered_late))) (remdups (map fst (groups entered_late))))) + ({#} + {#}) + gone)
     = image_mset core (mset (copyAll ((newSlot 0)\<lparr>sfrozen := True\<rparr>) [] []) + ({#} + {#plain ''a'' 50 1#}))"
proof -
  let ?s = "newSlot 0" let ?ki = "remdups (map fst (inflight entered_late))" let ?kg = "remdups (map fst (groups entered_late))"
  have r: "slot_reach ?s" unfolding slot_reach_def using slot_run.Start by blast
  have i: "iterates [] (inflight ?s)" "iterates [] (groups ?s)" "iterates ?ki (inflight entered_late)" "iterates ?kg (groups entered_late)"
    by (auto simp: iterates_def newSlot_def)
  have "slot_step (?s\<lparr>sfrozen := True\<rparr>) (slot_op.Enqueue (plain ''a'' 50 1) 3) entered_late"
    unfolding entered_late_def by (rule slot_step.Enqueue) (simp_all add: prio_valid_100 plain_def newSlot_ok mark_ok ids_ok_def)
  from slot_run.Step [OF slot_run.Start this]
  have "slot_run (?s\<lparr>sfrozen := True\<rparr>) ({#} + {#plain ''a'' 50 1#}) ({#} + {#}) ({} \<union> {3}) entered_late" by simp
  from handover_window [OF r i(1,2) refl this i(3,4) prod.collapse [symmetric]] show ?thesis by blast
qed

subsection \<open>An enqueue that comes late\<close>

lemma DropSlots_one:
  assumes "unat i < slotCount q"
  shows "snd (DropSlots q [(i, ki, kg)]) = length (snd (drain (slot_at q i) ki kg)) \<and>
    depth (fst (DropSlots q [(i, ki, kg)])) = depth q - int (length (snd (drain (slot_at q i) ki kg)))"
proof -
  obtain q1 where "get_slot q i = (q1, slot_at q i)" "depth q1 = depth q" using get_slot_eq get_slot_frame(4) by metis
  then show ?thesis using assms by (simp add: DropSlots_def Let_def split: prod.split)
qed

definition late_conf :: config where
  "late_conf = tiny_conf\<lparr>MaxDepth := 9\<rparr>"

definition late_entered :: queue where
  "late_entered = fst (enqueue_enter (New late_conf 7 0) 3 (opts 50 0) ''a'' 1)"

definition late_msg :: message where
  "late_msg = build_message (applyDefaults late_conf) (opts 50 0) ''a'' 1"

text \<open>C3: Counterexample: a message whose enqueue was reported successful is lost by a hand-over. The enqueue
  reads that the slot is not frozen; the hand-over freezes the slot and copies it, without the
  message; the enqueue takes the lock, writes its record, puts the message into the slot and returns it;
  the hand-over drops the slot. The message is in no copy and no slot.\<close>

theorem late_enqueue_lost:
  "\<exists>q1 q2 q3 q4 m0 m. enqueue_enter (New late_conf 7 0) 3 (opts 50 0) ''a'' 1 = (q1, Inr m0) \<and>
     FreezeSlots q1 [(3, [], [])] = (q2, []) \<and> enqueue_commit q2 3 m0 1 True = (q3, Inr m) \<and>
     DropSlots q3 [(3, [], [''a''])] = (q4, 1) \<and> held (slot_at q4 3) = {#} \<and> depth q4 = 0"
proof -
  let ?q1 = "late_entered" let ?q2 = "fst (FreezeSlots ?q1 [(3, [], [])])" let ?q3 = "fst (enqueue_commit ?q2 3 late_msg 1 True)"
  let ?s = "slot_at ?q3 3" let ?q4 = "fst (DropSlots ?q3 [(3, [], [''a''])])"
  have a: "snd (enqueue_enter (New late_conf 7 0) 3 (opts 50 0) ''a'' 1) = Inr late_msg" unfolding late_msg_def by code_simp
  have b: "snd (FreezeSlots ?q1 [(3, [], [])]) = []" by code_simp
  have c: "\<exists>m. snd (enqueue_commit ?q2 3 late_msg 1 True) = Inr m" by (simp add: enqueue_commit_def Let_def nextSeq_def split: prod.split)
  have d: "held (slot_at ?q4 3) = {#}" by code_simp
  have "length (leased_msgs ?s [] @ drained_msgs ?s [''a''] @ map d_msg (fst (drain_with (heap_take d_at) (length (delayed ?s)) (delayed ?s)))) = 1"
    by code_simp
  then have "length (snd (drain ?s [] [''a''])) = 1" unfolding drain_def Let_def snd_conv length_sort .
  moreover have "unat (3 :: u16) < slotCount ?q3" "depth ?q3 = 1" by code_simp+
  ultimately have "snd (DropSlots ?q3 [(3, [], [''a''])]) = 1 \<and> depth ?q4 = 0" using DropSlots_one [of 3 ?q3 "[]" "[''a'']"] by simp
  with a b c d show ?thesis unfolding late_entered_def by (metis prod.collapse)
qed

subsection \<open>An absorb that meets a compaction\<close>

text \<open>\<open>Absorb\<close> up to where it has journaled what arrived: done already, or the messages by slot.\<close>

definition absorb_journal :: "(json \<Rightarrow> bytes) \<Rightarrow> node \<Rightarrow> transferRequest \<Rightarrow> err option \<Rightarrow> (nat option \<times> bool) list
    \<Rightarrow> node \<times> (err option + (u16 \<times> message list) list)" where
  "absorb_journal render n req open_err io =
     (case queueFor n (tr_Spec req) open_err of
        (n, Inl e) \<Rightarrow> (n, Inl (Some (Internal ''open queue'' e)))
      | (n, Inr lq) \<Rightarrow>
          (let k = spec_Key (tr_Spec req);
               (n, fresh) = (if tr_MoveID req \<noteq> [] then claimMove n k (tr_MoveID req) else (n, True))
           in if \<not> fresh then (n, Inl None)
              else
                let d = disk_at n k; bySlot = transfer_msgs (tr_BySlot req);
                    (w, ok) = journal_transfer render (qd_wal d) (flat_msgs bySlot) io;
                    n = set_disk k (d\<lparr>qd_wal := w\<rparr>) n
                in if \<not> ok then (n, Inl (Some (Internal ''journal transfer'' (Plain ''write'')))) else (n, Inr bySlot)))"

text \<open>The rest, into the queue as it is by then.\<close>

definition absorb_apply :: "node \<Rightarrow> queueKey \<Rightarrow> (u16 \<times> message list) list \<Rightarrow> (u16 \<Rightarrow> message list \<Rightarrow> string list) \<Rightarrow> time \<Rightarrow> node" where
  "absorb_apply n k bySlot orders now =
     (let lq = the (lookup n k);
          q = Thaw (AbsorbQueue (lq_q lq) (map (\<lambda>(i, ms). (i, ms, orders i ms)) bySlot) now);
          n = set_live k (lq\<lparr>lq_q := q\<rparr>) n
      in if flat_msgs bySlot \<noteq> [] then notifyWork k n else n)"

lemma lookup_claim: "lookup (fst (claimMove n k x)) k' = lookup n k'"
  by (simp add: claimMove_simps lookup_def)

lemma Absorb_node_halves:
  "Absorb_node render n req e io orders now =
     (case absorb_journal render n req e io of
        (n, Inl r) \<Rightarrow> (n, r)
      | (n, Inr bySlot) \<Rightarrow> (absorb_apply n (spec_Key (tr_Spec req)) bySlot orders now, None))"
proof (cases "queueFor n (tr_Spec req) e")
  case (Pair n1 r)
  show ?thesis
  proof (cases r)
    case (Inr lq)
    have l: "lookup n1 (spec_Key (tr_Spec req)) = Some lq" using queueFor_ok(1) Pair Inr by blast
    then have "lookup (fst (claimMove n1 (spec_Key (tr_Spec req)) (tr_MoveID req))) (spec_Key (tr_Spec req)) = Some lq"
      by (simp add: lookup_claim)
    with l show ?thesis
      by (auto simp: Absorb_node_def absorb_journal_def absorb_apply_def Pair Inr Let_def split: prod.split)
  qed (simp add: Absorb_node_def absorb_journal_def Pair)
qed

text \<open>Compaction of slots that hold nothing leaves nothing of their logs.\<close>

lemma compacted_file:
  assumes "distinct (map fst bs)"
  shows "wfile (fold (\<lambda>(i, ms) w. Compact render w i ms (mk i)) bs w) i =
    (case map_of bs i of None \<Rightarrow> wfile w i | Some ms \<Rightarrow> concat (map (compact_one render) ms) @ copyTail (wfile w i) (mk i))"
  using assms
proof (induction bs arbitrary: w)
  case (Cons x bs)
  obtain j ms where x: "x = (j, ms)" by fastforce
  have f: "wfile (Compact render w j ms (mk j)) i =
      (if i = j then concat (map (compact_one render) ms) @ copyTail (wfile w j) (mk j) else wfile w i)"
    by (simp add: Compact_def wfile_def update_conv')
  have "map_of bs j = None" using Cons.prems x by (simp add: map_of_eq_None_iff)
  then show ?case using Cons x f by (cases "i = j") (simp_all split: option.split)
qed simp

lemma marks_are_lengths: "(case map_of (Marks w) i of None \<Rightarrow> 0 | Some m \<Rightarrow> m) = length (wfile w i)"
proof -
  have "map_of (map (\<lambda>(i, f). (i, length f)) fs) i = map_option length (map_of fs i)" for fs :: "(u16 \<times> bytes) list"
    by (induction fs) auto
  then show ?thesis by (simp add: Marks_def wfile_def split: option.split)
qed

lemma compact_queue_log:
  assumes "lookup n k = Some lq" and "distinct (map fst vs)" and "(i, ki, kg) \<in> set vs"
  shows "wfile (qd_wal (disk_at (compact_queue render (k, vs) n) k)) i =
    concat (map (compact_one render) (sort_key Seq (copyAll (local_slot (lq_q lq) i) ki kg)))"
proof -
  let ?bs = "Snapshot (lq_q lq) vs"
  have "map fst ?bs = map fst vs" by (simp add: Snapshot_def case_prod_beta comp_def)
  then have d: "distinct (map fst ?bs)" using assms(2) by simp
  have "(i, sort_key Seq (copyAll (local_slot (lq_q lq) i) ki kg)) \<in> set ?bs" using assms(3) by (force simp: Snapshot_def)
  then have m: "map_of ?bs i = Some (sort_key Seq (copyAll (local_slot (lq_q lq) i) ki kg))" by (rule map_of_is_SomeI [OF d])
  show ?thesis using assms(1) m compacted_file [OF d, of render "\<lambda>i. length (wfile (qd_wal (disk_at n k)) i)" "qd_wal (disk_at n k)" i]
    by (simp add: compact_queue_def Let_def marks_are_lengths copyTail_def) (simp add: wfile_def)
qed

lemma absorb_apply_disk: "disk_at (absorb_apply n k bySlot orders now) k' = disk_at n k'"
  by (simp add: absorb_apply_def Let_def)

text \<open>C12: Counterexample: messages a node took over, and said so, are in no log. \<open>Absorb\<close> has written what arrived
  to the log of a slot when the log is compacted: the compaction marks the end of the log behind those
  records, copies the slot, which does not hold the messages yet, and puts the copy in the place of
  the log up to the mark. \<open>Absorb\<close> then puts the messages into the slot and answers success, upon which the
  old owner discards its own; the log of the slot is what the slot held before.\<close>

theorem absorb_compaction_loses:
  assumes "absorb_journal render n req e io = (n1, Inr bySlot)" and "k = spec_Key (tr_Spec req)"
    and "lookup n1 k = Some lq" and "distinct (map fst vs)" and "(i, ki, kg) \<in> set vs"
    and "copyAll (local_slot (lq_q lq) i) ki kg = []"
  shows "wfile (qd_wal (disk_at (absorb_apply (compact_queue render (k, vs) n1) k bySlot orders now) k)) i = []"
  using compact_queue_log [OF assms(3-5)] assms(6) by (simp add: absorb_apply_disk)

text \<open>A node that has the slot of the transfer, with nothing in it.\<close>

definition empty_slot_node :: node where
  "empty_slot_node = AbortMove (fst (queueFor demo_node demo_spec None)) demo_spec [3]"

lemma empty_slot_live:
  "\<exists>lq. lookup empty_slot_node (spec_Key demo_spec) = Some lq \<and> map_of (slots (lq_q lq)) 3 = Some ((newSlot 3)\<lparr>sfrozen := False\<rparr>)"
  "n_moves empty_slot_node = []"
proof -
  obtain n lq where q: "queueFor demo_node demo_spec None = (n, Inr lq)" and e: "slots (lq_q lq) = []"
    using demo_open by (auto simp: demo_transfer_def)
  have l: "lookup n (spec_Key demo_spec) = Some lq" by (rule queueFor_ok(1) [OF q])
  have "slotCount (lq_q lq) \<ge> 16" by (simp add: slotCount_def SlotCountFor_def CountFor_def PerQueue_def PerDistributedQueue_def)
  then have "map_of (slots (ThawSlots (lq_q lq) [3])) 3 = Some ((newSlot 3)\<lparr>sfrozen := False\<rparr>)"
    using e by (simp add: get_slot_def rebuildLocalView_def put_slot_def update_conv')
  then show "\<exists>lq. lookup empty_slot_node (spec_Key demo_spec) = Some lq \<and> map_of (slots (lq_q lq)) 3 = Some ((newSlot 3)\<lparr>sfrozen := False\<rparr>)"
    using q l by (simp add: empty_slot_node_def AbortMove_def Let_def)
  have "n_moves n = []" using queueFor_ok(4) [OF q] by (simp add: demo_node_def New_node_def)
  then show "n_moves empty_slot_node = []" using q l by (simp add: empty_slot_node_def AbortMove_def Let_def set_live_def)
qed

lemma empty_slot_journal:
  "\<exists>n1 bySlot lq. absorb_journal (\<lambda>_. []) empty_slot_node demo_transfer None [] = (n1, Inr bySlot) \<and>
     lookup n1 (spec_Key demo_spec) = Some lq \<and> copyAll (local_slot (lq_q lq) 3) [] [] = [] \<and>
     wfile (qd_wal (disk_at n1 (spec_Key demo_spec))) 3 \<noteq> []"
proof -
  let ?k = "spec_Key demo_spec"
  have s: "tr_Spec demo_transfer = demo_spec" by (simp add: demo_transfer_def)
  obtain l where l: "lookup empty_slot_node ?k = Some l" "map_of (slots (lq_q l)) 3 = Some ((newSlot 3)\<lparr>sfrozen := False\<rparr>)"
    using empty_slot_live(1) by blast
  obtain n lq where q: "queueFor empty_slot_node demo_spec None = (n, Inr lq)" using queueFor_live [OF l(1)] by blast
  note Q = queueFor_ok [OF q]
  let ?n = "n\<lparr>n_moves := move_key ?k (tr_MoveID demo_transfer) # n_moves n\<rparr>"
  obtain w where w: "journal_transfer (\<lambda>_. []) (qd_wal (disk_at ?n ?k)) (flat_msgs (transfer_msgs (tr_BySlot demo_transfer))) [] = (w, True)"
    using demo_journal(1) by (metis prod.collapse)
  have "wfile w 3 \<noteq> []" using w
    by (auto simp: demo_transfer_def flat_msgs_def transfer_msgs_def AppendEnqueue_wal_def append_wal_def wfile_def update_conv' encode_def le32_def)
  moreover have "copyAll (local_slot (lq_q lq) 3) [] [] = []"
    using l Q(2) by (simp add: local_slot_def copyAll_def leased_msgs_def grouped_msgs_def newSlot_def)
  moreover have "claimMove n ?k (tr_MoveID demo_transfer) = (?n, True)"
    using empty_slot_live(2) Q(4) by (simp add: claimMove_simps)
  moreover have "lookup ?n ?k = Some lq" using Q(1) by (simp add: lookup_def)
  ultimately show ?thesis using q w demo_fresh(1)
    by (simp add: absorb_journal_def s Let_def) (simp add: wfile_def)
qed

theorem absorb_compaction_loses_witness:
  "\<exists>n1 bySlot. absorb_journal (\<lambda>_. []) empty_slot_node demo_transfer None [] = (n1, Inr bySlot) \<and>
     wfile (qd_wal (disk_at n1 (spec_Key demo_spec))) 3 \<noteq> [] \<and>
     wfile (qd_wal (disk_at (absorb_apply (compact_queue (\<lambda>_. []) (spec_Key demo_spec, [(3, [], [])]) n1) (spec_Key demo_spec) bySlot
       (\<lambda>_ _. [''a'']) 5) (spec_Key demo_spec))) 3 = []"
proof -
  have k: "spec_Key demo_spec = spec_Key (tr_Spec demo_transfer)" by (simp add: demo_transfer_def)
  obtain n1 bySlot lq where J: "absorb_journal (\<lambda>_. []) empty_slot_node demo_transfer None [] = (n1, Inr bySlot)"
    "lookup n1 (spec_Key demo_spec) = Some lq" "copyAll (local_slot (lq_q lq) 3) [] [] = []"
    "wfile (qd_wal (disk_at n1 (spec_Key demo_spec))) 3 \<noteq> []" using empty_slot_journal by blast
  show ?thesis using absorb_compaction_loses [OF J(1) k J(2) _ _ J(3), of "[(3, [], [])]" "\<lambda>_ _. [''a'']" 5] J(1,4) by auto
qed

end
