(* ===== verification/GwLoss.thy ===== *)
theory GwLoss
  imports GwRoutingProps GwAdmin
begin

text \<open>
  Where the administration of a queue (\<open>queue-admin-logic.go\<close> of \<open>backend/gateway/logic\<close>) loses sight of messages:
  creating a queue that exists forgets where its slots are, and deleting one reaches one machine.
\<close>

subsection \<open>Creating a queue that exists\<close>

lemma db_insert_existing:
  assumes "g_faults w = []" and "row_at (g_db w) (qc_Org c) (qc_Name c) = Some r"
  shows "Create c w = (w, Inr (scanQueue r, False))"
proof -
  have f: "find (row_is (qc_Org c) (qc_Name c)) (queues_tab (g_db w)) = Some r" using assms(2) by (simp add: row_at_def)
  have "db (\<lambda>t. let (t, made) = insert_queue c (g_now w) t in (t, Inr made)) w = (w, Inr False)"
    using assms(1) f by (simp add: db_def next_fault_def no_fault_def insert_queue_def)
  moreover have "Get_row (qc_Org c) (qc_Name c) (g_db w) = Inr (scanQueue r)" using f by (simp add: Get_row_def)
  ultimately show ?thesis by (simp add: Create_def db_asking [OF assms(1)])
qed

lemma cache_written_now:
  assumes "g_admit w" and "0 < ttl"
  shows "cache_Get (g_cache (writeCache k ttl v w)) (g_now w) k = Some (Value v)"
  using assms jitter_bounds [OF assms(2), of "g_rand w"] by (simp add: writeCache_def cache_Get_def cache_Set_def update_conv')

lemma assignOwner_member:
  assumes "g_members w \<noteq> []" and "0 \<le> slot" and "slot < 10 ^ 8"
  shows "\<exists>m. assignOwner w org nm slot True width = Inr m \<and> m \<in> set (g_members w)"
proof -
  let ?ms = "CandidatesFor (gw_key org nm) (g_members w) width"
  obtain k where k: "OwnerKey org nm slot True = Some k" using itoa_small [of slot] assms by (simp add: OwnerKey_def)
  obtain m where m: "OwnerFor k ?ms = Some m" using OwnerFor_None [of k ?ms] CandidatesFor_not_Nil [OF assms(1)] by (cases "OwnerFor k ?ms") auto
  have "set ?ms \<subseteq> set (g_members w)"
    using set_take_subset [of "nat width" "sort_by (ranked_before (gw_key org nm)) (g_members w)"] by (simp add: CandidatesFor_def)
  then show ?thesis using OwnerFor_best(1) [OF m] k m assms(1) by (auto simp: assignOwner_def Let_def)
qed

text \<open>C27: Counterexample: creating a distributed queue that exists already makes the gateway place its slots anew.
  The request is answered as one for a queue that is there, and the row is cached as it was scanned,
  without the owners of the slots. The next request for any slot, whoever holds its messages, gives it the
  owner the ranking names among the machines that are up, and writes that owner over the one on record.\<close>

theorem recreate_forgets_placement:
  assumes "row_at (g_db w) (cr_Org req) (cr_Name req) = Some r" and "row_distributed r" and "row_settings r = cr_ParseQueueSettings req"
    and "cr_Distributed req" and "gs_DeadLetterQueue (cr_ParseQueueSettings req) = []"
    and "g_faults w = []" and "g_admit w" and "0 < g_CacheTTL w" and "g_members w \<noteq> []" and "0 \<le> slot" and "slot < 10 ^ 8"
  shows "\<exists>w1 resp cfg m w2. CreateQueue req w = (w1, Inr resp) \<and> \<not> cs_Created resp \<and>
    config_for (cr_Org req) (cr_Name req) w1 = (w1, Inr cfg) \<and> m \<in> set (g_members w) \<and>
    ownerAddr cfg slot w1 = (w2, Inr (mem_id m, mem_addr m)) \<and>
    slot_row (g_db w2) (cr_Org req) (cr_Name req) (of_int slot) = Some (mem_id m)"
proof -
  let ?cfg = "scanQueue r" let ?k = "queueCacheKey (cr_Org req) (cr_Name req)"
  have i: "row_org_id r = cr_Org req" "row_name r = cr_Name req" using row_at_is [OF assms(1)] by (simp_all add: row_is_def)
  then have c: "qc_Org ?cfg = cr_Org req" "qc_Name ?cfg = cr_Name req" "qc_Settings ?cfg = cr_ParseQueueSettings req"
    "qc_Distributed ?cfg" "qc_SlotOwners ?cfg = []" using assms(2,3) by (simp_all add: scanQueue_def)
  let ?w1 = "writeCache ?k (g_CacheTTL w) (C_Queue ?cfg) w"
  have "Create (create_cfg req []) w = (w, Inr (?cfg, False))"
    by (rule db_insert_existing [OF assms(6)]) (simp add: create_cfg_def assms(1))
  then have q: "CreateQueue req w = (?w1, Inr \<lparr>cs_Name = cr_Name req, cs_Created = False, cs_OwnerNode = qc_OwnerNode ?cfg\<rparr>)"
    using assms(4,5) c by (simp add: CreateQueue_def check_dlq_def Let_def)
  have n: "config_for (cr_Org req) (cr_Name req) ?w1 = (?w1, Inr ?cfg)"
    by (rule config_cached) (use cache_written_now [OF assms(7,8), of ?k "C_Queue ?cfg"] in \<open>simp add: writeCache_def\<close>)
  have s: "g_members ?w1 = g_members w" "g_faults ?w1 = []" using assms(6) by (simp_all add: writeCache_def)
  obtain m where m: "assignOwner ?w1 (cr_Org req) (cr_Name req) slot True (gs_PlacementWidth (qc_Settings ?cfg)) = Inr m" "m \<in> set (g_members w)"
    using assignOwner_member [of ?w1 slot] assms(9-11) unfolding s(1) by blast
  have st: "stored_owner ?cfg slot = []" using c by (simp add: stored_owner_def slot_owner_def)
  let ?t = "SetOwner_slot (cr_Org req) (cr_Name req) (of_int slot) (mem_id m) (qc_Generation ?cfg) (g_db ?w1)"
  have o: "ownerAddr ?cfg slot ?w1 = (evictCache ?k (?w1\<lparr>g_db := ?t\<rparr>), Inr (mem_id m, mem_addr m))"
    using st m(1) c s(2) by (simp add: ownerAddr_def record_owner_def db_def quietly_def next_fault_def no_fault_def Let_def)
  have "slot_row (g_db (evictCache ?k (?w1\<lparr>g_db := ?t\<rparr>))) (cr_Org req) (cr_Name req) (of_int slot) = Some (mem_id m)"
    by (simp add: slot_row_SetOwner)
  with q n m(2) o show ?thesis by auto
qed

text \<open>Here slot 0 is with a machine that is away for the moment; afterwards it is with another one.\<close>

definition away_world :: "host world" where
  "away_world = (demo_world demo_wide leak1 [])\<lparr>g_db := SetOwner_slot ''o'' ''n'' 0 ''n9'' 1 (g_db (demo_world demo_wide leak1 []))\<rparr>"

definition same_again :: createQueueRequest where
  "same_again = \<lparr>cr_Org = ''o'', cr_Name = ''n'', cr_Distributed = True, cr_ParseQueueSettings = qc_Settings demo_wide\<rparr>"

theorem recreate_forgets_placement_witness:
  "slot_row (g_db away_world) ''o'' ''n'' 0 = Some ''n9'' \<and>
   (\<exists>w1 resp cfg w2 (m :: member). CreateQueue same_again away_world = (w1, Inr resp) \<and> config_for ''o'' ''n'' w1 = (w1, Inr cfg) \<and>
      ownerAddr cfg 0 w1 = (w2, Inr (mem_id m, mem_addr m)) \<and> slot_row (g_db w2) ''o'' ''n'' 0 = Some (mem_id m) \<and> mem_id m \<noteq> ''n9'')"
proof -
  let ?r = "new_row demo_wide 0"
  have d: "gs_DeadLetterQueue (qc_Settings demo_wide) = []" by (simp add: demo_wide_def demo_config_def demo_settings_def)
  have r: "row_at (g_db away_world) (cr_Org same_again) (cr_Name same_again) = Some ?r" "row_distributed ?r"
    "row_settings ?r = cr_ParseQueueSettings same_again"
    by (simp_all add: away_world_def same_again_def demo_world_def row_at_def row_is_def new_row_def demo_wide_def demo_config_def SetOwner_slot_def)
  have q: "cr_Distributed same_again" "gs_DeadLetterQueue (cr_ParseQueueSettings same_again) = []" using d by (simp_all add: same_again_def)
  have w: "g_faults away_world = []" "g_admit away_world" "0 < g_CacheTTL away_world" "g_members away_world \<noteq> []"
    by (simp_all add: away_world_def demo_world_def demo_members_def second_def)
  have m: "m \<in> set (g_members away_world) \<Longrightarrow> mem_id m \<noteq> ''n9''" for m by (auto simp: away_world_def demo_world_def demo_members_def)
  have a: "slot_row (g_db away_world) ''o'' ''n'' 0 = Some ''n9''" by (simp add: away_world_def slot_row_SetOwner)
  have n: "cr_Org same_again = ''o''" "cr_Name same_again = ''n''" by (simp_all add: same_again_def)
  have "(0 :: int) < 10 ^ 8" by simp
  then obtain w1 resp cfg m' w2 where R: "CreateQueue same_again away_world = (w1, Inr resp)" "config_for ''o'' ''n'' w1 = (w1, Inr cfg)"
    "m' \<in> set (g_members away_world)" "ownerAddr cfg 0 w1 = (w2, Inr (mem_id m', mem_addr m'))" "slot_row (g_db w2) ''o'' ''n'' 0 = Some (mem_id m')"
    using recreate_forgets_placement [OF r q w order_refl, unfolded n of_int_0] by blast
  from R(1,2,4,5) m [OF R(3)] a show ?thesis by blast
qed

subsection \<open>Deleting a queue\<close>

text \<open>
  Deleting a queue, when it is reported done, has taken its row and its placement away and has called at most
  one machine: every other one keeps what it held of the queue.
\<close>

lemma node_call_others:
  assumes "node_call addr m w = (w', r)" and "a \<noteq> addr"
  shows "node_at w' a = node_at w a"
  using assms by (auto simp: node_call_def next_fault_def node_at_def Let_def update_conv' split: list.splits option.splits prod.splits)

text \<open>The call to the owner, if there is one to call.\<close>

definition drop_owner :: "'n nodeAPI \<Rightarrow> queueConfig \<Rightarrow> 'n world \<Rightarrow> 'n world" where
  "drop_owner api cfg w =
     (case ownerAddr cfg 0 w of
        (w, Inr (_, addr)) \<Rightarrow>
          (if addr \<noteq> [] then fst (node_call addr (\<lambda>cs addr dial net n. gw_Drop cs addr dial net (api_Drop api) (Spec cfg) n) w) else w)
      | (w, Inl _) \<Rightarrow> w)"

lemma drop_owner_others: "\<exists>addr. \<forall>a. a \<noteq> addr \<longrightarrow> node_at (drop_owner api cfg w) a = node_at w a"
proof -
  obtain w1 r where o: "ownerAddr cfg 0 w = (w1, r)" by fastforce
  have n: "node_at w1 = node_at w" using ownerAddr_nodes [OF o] by (simp add: node_at_def fun_eq_iff)
  show ?thesis
  proof (cases r)
    case (Inr x)
    obtain i addr where x: "x = (i, addr)" by fastforce
    obtain w2 r2 where c: "node_call addr (\<lambda>cs addr dial net n. gw_Drop cs addr dial net (api_Drop api) (Spec cfg) n) w1 = (w2, r2)" by fastforce
    show ?thesis using node_call_others [OF c] n o Inr x c by (intro exI [of _ addr]) (simp add: drop_owner_def)
  qed (use n o in \<open>simp add: drop_owner_def\<close>)
qed

theorem delete_reaches_one:
  assumes "DeleteQueue api org nm w = (w', Inr ())"
  shows "row_at (g_db w') org nm = None \<and> (\<exists>addr. \<forall>a. a \<noteq> addr \<longrightarrow> node_at w' a = node_at w a)"
proof -
  obtain w1 cfg where c: "config_for org nm w = (w1, Inr cfg)" using assms by (auto simp: DeleteQueue_def split: prod.splits sum.splits)
  obtain w2 where u: "deadLetterUsers org nm w1 = (w2, Inr [])" using assms c by (auto simp: DeleteQueue_def split: prod.splits sum.splits if_splits)
  obtain w3 where s: "db (\<lambda>t. checked (SetState (g_holder w2) org nm StateDeleting (g_now w2) t)) w2 = (w3, Inr ())"
    using assms c u by (auto simp: DeleteQueue_def split: prod.splits sum.splits)
  let ?w4 = "drop_owner api cfg (evictCache (queueCacheKey org nm) w3)"
  obtain w5 where d: "db (quietly (DeleteByQueue org nm)) ?w4 = (w5, Inr ())"
    using assms c u s by (auto simp: DeleteQueue_def drop_owner_def Let_def split: prod.splits sum.splits)
  obtain w6 where e: "db (quietly (Delete_row org nm)) w5 = (w6, Inr ())" "w' = evictCache (queueCacheKey org nm) w6"
    using assms c u s d by (auto simp: DeleteQueue_def drop_owner_def Let_def split: prod.splits sum.splits)
  have "g_db w6 = Delete_row org nm (g_db w5)" using db_effect(5) [OF e(1)] by (simp add: quietly_def)
  then have "row_at (g_db w') org nm = None" using e(2) by (simp add: row_at_Delete)
  moreover have "node_at w2 = node_at w1" using u db_nodes' by (auto simp: deadLetterUsers_def node_at_def fun_eq_iff split: prod.splits sum.splits)
  then have "node_at (evictCache (queueCacheKey org nm) w3) = node_at w" "node_at w' = node_at ?w4"
    using config_for_nodes [OF c] db_effect(3) [OF s] db_effect(3) [OF d] db_effect(3) [OF e(1)] e(2) by (simp_all add: node_at_def fun_eq_iff)
  ultimately show ?thesis using drop_owner_others [of api cfg "evictCache (queueCacheKey org nm) w3"] by simp
qed

end
