(* ===== verification/GwTenants.thy ===== *)
theory GwTenants
  imports GwFrame GwMetrics GwStuck
begin

text \<open>
  Organisations share the tables, the nodes and the gateway's cache.  What a request of one of them
  leaves of the others: their rows and placements, the queues and the directories of theirs on every
  node.  The cache is shared under the key \<open>key(org, name)\<close>, which joins the two with a slash, so
  this holds of organisations whose ID has no slash.
\<close>

subsection \<open>What is an organisation's\<close>

definition rows_in :: "string \<Rightarrow> tables \<Rightarrow> queueRow list" where
  "rows_in v t = filter (\<lambda>r. row_org_id r = v) (queues_tab t)"

definition slots_in :: "string \<Rightarrow> tables \<Rightarrow> slotPlacement list" where
  "slots_in v t = filter (\<lambda>p. spl_Org p = v) (slots_tab t)"

text \<open>A node keeps the live queues of the organisation and the directories they have.\<close>

definition keeps_org :: "string \<Rightarrow> node \<Rightarrow> node \<Rightarrow> bool" where
  "keeps_org v n n' \<longleftrightarrow> (\<forall>k. Org k = v \<longrightarrow> lookup n' k = lookup n k \<and> map_of (n_disk n') (dir k) = map_of (n_disk n) (dir k))"

text \<open>Every configuration in the cache is under the key of its queue.\<close>

definition slash_free :: "string \<Rightarrow> bool" where
  "slash_free s \<longleftrightarrow> CHR ''/'' \<notin> set s"

text \<open>An organisation that is not \<open>v\<close>, also on disk; IDs of ASCII that differ are.\<close>

definition foreign :: "string \<Rightarrow> string \<Rightarrow> bool" where
  "foreign v org \<longleftrightarrow> slash_free org \<and> sanitise org \<noteq> sanitise v"

lemma foreign_D: "foreign v org \<Longrightarrow> slash_free org" "foreign v org \<Longrightarrow> org \<noteq> v"
  by (auto simp: foreign_def)

definition cache_sound :: "'n world \<Rightarrow> bool" where
  "cache_sound w \<longleftrightarrow> (\<forall>k c x. map_of (g_cache w) k = Some (Value (C_Queue c), x) \<longrightarrow>
     slash_free (qc_Org c) \<and> k = queueCacheKey (qc_Org c) (qc_Name c))"

lemma gw_key_inj:
  assumes "slash_free a" and "slash_free b" and "gw_key a n = gw_key b m"
  shows "a = b \<and> n = m"
proof -
  have t: "takeWhile (\<lambda>c. c \<noteq> CHR ''/'') (gw_key s n) = s" if "slash_free s" for s n
    using that by (induction s) (auto simp: gw_key_def slash_free_def)
  have "a = b" using t [OF assms(1), of n] t [OF assms(2), of m] assms(3) by simp
  with assms(3) show ?thesis by (simp add: gw_key_def)
qed

lemma queueCacheKey_inj: "slash_free a \<Longrightarrow> slash_free b \<Longrightarrow> queueCacheKey a n = queueCacheKey b m \<Longrightarrow> a = b \<and> n = m"
  by (rule gw_key_inj) (simp_all add: queueCacheKey_def)

lemma sound_Get:
  assumes "cache_sound w" and "slash_free org" and "cache_Get (g_cache w) now (queueCacheKey org nm) = Some (Value (C_Queue c))"
  shows "qc_Org c = org \<and> qc_Name c = nm"
proof -
  obtain x where "map_of (g_cache w) (queueCacheKey org nm) = Some (Value (C_Queue c), x)"
    using assms(3) by (auto simp: cache_Get_def split: option.splits if_splits)
  with assms(1) have "slash_free (qc_Org c)" "queueCacheKey org nm = queueCacheKey (qc_Org c) (qc_Name c)"
    by (auto simp: cache_sound_def)
  with queueCacheKey_inj assms(2) show ?thesis by metis
qed

lemma sound_same: "cache_sound w \<Longrightarrow> g_cache w' = g_cache w \<Longrightarrow> cache_sound w'"
  by (simp add: cache_sound_def)

lemma sound_evict [simp]: "cache_sound w \<Longrightarrow> cache_sound (evictCache k w)"
  by (auto simp: cache_sound_def evictCache_def cache_Del_def delete_conv' split: if_splits)

lemma sound_Set:
  assumes "cache_sound w" and "\<And>c. e = Value (C_Queue c) \<Longrightarrow> slash_free (qc_Org c) \<and> k = queueCacheKey (qc_Org c) (qc_Name c)"
  shows "cache_sound (w\<lparr>g_cache := cache_Set a t k e ttl (g_cache w)\<rparr>)"
  using assms by (auto simp: cache_sound_def cache_Set_def update_conv' split: if_splits)

subsection \<open>Statements\<close>

definition stmt_spares :: "string \<Rightarrow> (tables \<Rightarrow> tables) \<Rightarrow> bool" where
  "stmt_spares v f \<longleftrightarrow> (\<forall>t. rows_in v (f t) = rows_in v t \<and> slots_in v (f t) = slots_in v t)"

lemma spares_update: "(\<And>r. P r \<Longrightarrow> row_org_id r \<noteq> v) \<Longrightarrow> (\<And>r. row_org_id (f r) = row_org_id r) \<Longrightarrow> stmt_spares v (\<lambda>t. fst (update_rows P f t))"
proof -
  assume p: "\<And>r. P r \<Longrightarrow> row_org_id r \<noteq> v" and f: "\<And>r. row_org_id (f r) = row_org_id r"
  have "filter (\<lambda>r. row_org_id r = v) (map (\<lambda>r. if P r then f r else r) rs) = filter (\<lambda>r. row_org_id r = v) rs" for rs
    using p f by (induction rs) auto
  then show ?thesis by (simp add: stmt_spares_def rows_in_def slots_in_def update_rows_def)
qed

lemma spares:
  assumes "org \<noteq> v"
  shows "stmt_spares v (\<lambda>t. fst (quietly (SetOwner_queue org nm owner gen now) t))"
    "stmt_spares v (\<lambda>t. fst (checked (SetState h org nm qs now t)))"
    "stmt_spares v (\<lambda>t. fst (checked (UpdateSettings org nm s now t)))"
    "stmt_spares v (\<lambda>t. fst (quietly (Delete_row org nm) t))"
    "stmt_spares v (\<lambda>t. fst (quietly (DeleteByQueue org nm) t))"
    "stmt_spares v (\<lambda>t. fst (quietly (SetOwner_slot org nm i owner gen) t))"
    "qc_Org c = org \<Longrightarrow> stmt_spares v (\<lambda>t. fst (let (t, made) = insert_queue c now t in (t, Inr made)))"
proof -
  show "stmt_spares v (\<lambda>t. fst (quietly (SetOwner_queue org nm owner gen now) t))"
    unfolding quietly_def SetOwner_queue_def fst_conv by (rule spares_update) (auto simp: row_is_def assms)
  have m: "stmt_spares v (\<lambda>t. fst (takeMigrationLock h org nm now t))"
    unfolding takeMigrationLock_def Let_def case_prod_beta fst_conv by (rule spares_update) (auto simp: row_is_def assms)
  have u: "stmt_spares v (\<lambda>t. fst (update_rows (row_is org nm) (\<lambda>r. r\<lparr>row_state := qs, row_migrating_by := None, row_migrating_since := None, row_updated_at := now\<rparr>) t))"
    by (rule spares_update) (auto simp: row_is_def assms)
  show "stmt_spares v (\<lambda>t. fst (checked (SetState h org nm qs now t)))"
    using m u by (cases "qs = StateMigrating") (simp_all add: SetState_def checked_def)
  show "stmt_spares v (\<lambda>t. fst (checked (UpdateSettings org nm s now t)))"
    unfolding checked_def UpdateSettings_def Let_def case_prod_beta fst_conv by (rule spares_update) (auto simp: row_is_def assms)
  have f: "filter (\<lambda>r. \<not> row_is org nm r \<and> row_org_id r = v) rs = filter (\<lambda>r. row_org_id r = v) rs" for rs
    using assms by (intro filter_cong) (auto simp: row_is_def)
  show "stmt_spares v (\<lambda>t. fst (quietly (Delete_row org nm) t))"
    by (simp add: stmt_spares_def quietly_def Delete_row_def rows_in_def slots_in_def f)
  have g: "filter (\<lambda>p. \<not> placed org nm p \<and> spl_Org p = v) ps = filter (\<lambda>p. spl_Org p = v) ps" for ps
    using assms by (intro filter_cong) (auto simp: placed_def)
  show "stmt_spares v (\<lambda>t. fst (quietly (DeleteByQueue org nm) t))"
    by (simp add: stmt_spares_def quietly_def DeleteByQueue_def rows_in_def slots_in_def g)
  have s: "filter (\<lambda>p. spl_Org p = v) (map (\<lambda>p. if placed org nm p \<and> spl_Slot p = i then p\<lparr>spl_OwnerNode := owner, spl_Generation := gen\<rparr> else p) ps)
      = filter (\<lambda>p. spl_Org p = v) ps" for ps
    using assms by (induction ps) (auto simp: placed_def)
  show "stmt_spares v (\<lambda>t. fst (quietly (SetOwner_slot org nm i owner gen) t))"
    using s assms by (simp add: stmt_spares_def quietly_def SetOwner_slot_def rows_in_def slots_in_def)
  show "qc_Org c = org \<Longrightarrow> stmt_spares v (\<lambda>t. fst (let (t, made) = insert_queue c now t in (t, Inr made)))"
    using assms by (simp add: stmt_spares_def insert_queue_def Let_def rows_in_def slots_in_def new_row_def split: prod.split)
qed

lemma asking_spares: "stmt_spares v (\<lambda>t. fst (asking q t))"
  by (simp add: stmt_spares_def asking_def)

lemma Get_row_key: "Get_row org nm t = Inr c \<Longrightarrow> qc_Org c = org \<and> qc_Name c = nm"
  by (auto simp: Get_row_def scanQueue_def row_is_def find_Some_iff split: option.splits)

lemma asking_answer: "db (asking q) w = (w', Inr c) \<Longrightarrow> q (g_db w) = Inr c"
  by (auto simp: db_def asking_def next_fault_def Let_def split: list.splits net.splits)

lemma db_cache: "db stmt w = (w', r) \<Longrightarrow> g_cache w' = g_cache w"
  by (auto simp: db_def next_fault_def Let_def split: list.splits net.splits prod.splits)

lemma node_call_cache: "node_call addr m w = (w', r) \<Longrightarrow> g_cache w' = g_cache w"
  by (auto simp: node_call_def next_fault_def Let_def split: list.splits option.splits prod.splits)

subsection \<open>A node's promise, and what the gateway makes of it\<close>

text \<open>\<open>Q\<close> is the node before and after; a handler that is told a queue of another organisation respects it.\<close>

locale tenant_api =
  fixes api :: "'n nodeAPI" and v :: string and Q :: "'n \<Rightarrow> 'n \<Rightarrow> bool"
  assumes Q_refl: "reflp Q" and Q_trans: "transp Q"
    and enqueue: "foreign v (sp_Org (specFrom (pb_e_spec req))) \<Longrightarrow> Q n (fst (api_Enqueue api req n))"
    and dequeue: "foreign v (sp_Org (specFrom s)) \<Longrightarrow> Q n (fst (api_Dequeue api s mx n))"
    and ack: "foreign v (sp_Org (specFrom s)) \<Longrightarrow> Q n (fst (api_Ack api s rc n))"
    and nack: "foreign v (sp_Org (specFrom s)) \<Longrightarrow> Q n (fst (api_Nack api s rc d n))"
    and drops: "foreign v (sp_Org (specFrom s)) \<Longrightarrow> Q n (fst (api_Drop api s n))"
    and stats: "foreign v (sp_Org (specFrom s)) \<Longrightarrow> Q n (fst (api_Stats api s n))"
    and stats_all: "Q n (fst (api_StatsAll api n))"
begin

definition apart :: "'n world \<Rightarrow> 'n world \<Rightarrow> bool" where
  "apart w0 w \<longleftrightarrow> cache_sound w \<and> rows_in v (g_db w) = rows_in v (g_db w0) \<and>
     slots_in v (g_db w) = slots_in v (g_db w0) \<and> nodes_rel Q w0 w"

lemma apart_start: "cache_sound w \<Longrightarrow> apart w w"
  by (simp add: apart_def nodes_rel_same Q_refl)

lemma apart_same:
  assumes "apart w0 w" and "cache_sound w'" and "g_db w' = g_db w" and "g_nodes w' = g_nodes w"
  shows "apart w0 w'"
  using assms nodes_rel_trans [OF Q_trans _ nodes_rel_same [OF Q_refl]] by (auto simp: apart_def)

lemma apart_D: "apart w0 w \<Longrightarrow> cache_sound w"
  by (simp add: apart_def)

lemma db_apart: "db stmt w = (w', r) \<Longrightarrow> apart w0 w \<Longrightarrow> stmt_spares v (\<lambda>t. fst (stmt t)) \<Longrightarrow> apart w0 w'"
  using db_effect(4) [of stmt w w' r] sound_same [OF _ db_cache] nodes_rel_trans [OF Q_trans _ nodes_rel_same [OF Q_refl db_effect(1)]]
  unfolding apart_def stmt_spares_def by metis

lemma call_apart:
  assumes "node_call addr (\<lambda>cs addr dial net n. rpc_map f (rpc cs addr dial net srv n)) w = (w', r)" and "apart w0 w"
    and "\<And>n. Q n (fst (srv n))"
  shows "apart w0 w'"
  using reachedD(1) [OF node_call_effect [OF assms(1)]] reached_rel [OF node_call_effect [OF assms(1)] Q_refl assms(3)]
    sound_same [OF _ node_call_cache [OF assms(1)]] nodes_rel_trans [OF Q_trans] assms(2)
  unfolding apart_def by metis

lemmas plain_call_apart = call_apart [where f = id, unfolded rpc_map_id]

lemma apart_evict [simp]: "apart w0 w \<Longrightarrow> apart w0 (evictCache k w)"
  by (rule apart_same) (simp_all add: apart_D)

lemma apart_later [simp]: "apart w0 w \<Longrightarrow> apart w0 (w\<lparr>g_now := t\<rparr>)"
  by (rule apart_same) (auto intro: sound_same [OF apart_D])

lemma apart_write: "apart w0 w \<Longrightarrow> slash_free (qc_Org c) \<Longrightarrow> apart w0 (writeCache (queueCacheKey (qc_Org c) (qc_Name c)) ttl (C_Queue c) w)"
  unfolding writeCache_def by (rule apart_same) (assumption | rule sound_Set [OF apart_D] | simp)+

lemma apart_miss [simp]: "apart w0 w \<Longrightarrow> apart w0 (w\<lparr>g_cache := cache_Set a t k (Miss s) ttl (g_cache w)\<rparr>)"
  by (rule apart_same) (assumption | rule sound_Set [OF apart_D] | simp)+

lemma asking_apart: "db (asking q) w = (w', r) \<Longrightarrow> apart w0 w \<Longrightarrow> apart w0 w'"
  by (rule db_apart) (assumption | rule asking_spares)+

lemma loadConfig_apart: "loadConfig org nm w = (w', r) \<Longrightarrow> apart w0 w \<Longrightarrow> apart w0 w'"
  by (auto simp: loadConfig_def split: prod.splits sum.splits if_splits dest: asking_apart)

lemma loadConfig_key: "loadConfig org nm w = (w', Inr c) \<Longrightarrow> qc_Org c = org \<and> qc_Name c = nm"
  by (auto simp: loadConfig_def split: prod.splits sum.splits if_splits dest!: asking_answer Get_row_key)

lemma through_apart:
  assumes "(case loadConfig org nm w of
      (w, Inl e) \<Rightarrow> (if CodeOf e = CodeNotFound
        then w\<lparr>g_cache := cache_Set (g_admit w) (g_now w) (queueCacheKey org nm) (Miss (Error e)) negativeTTL (g_cache w)\<rparr> else w, Inl e)
    | (w, Inr c) \<Rightarrow> (writeCache (queueCacheKey org nm) ttl (C_Queue c) w, Inr c)) = (w', r)" and "apart w0 w" and "slash_free org"
  shows "apart w0 w' \<and> (\<forall>c. r = Inr c \<longrightarrow> qc_Org c = org)"
proof -
  obtain w1 r1 where l: "loadConfig org nm w = (w1, r1)" by fastforce
  have 1: "apart w0 w1" by (rule loadConfig_apart [OF l assms(2)])
  show ?thesis
  proof (cases r1)
    case (Inl e)
    with l 1 assms(1) show ?thesis by (auto split: if_splits)
  next
    case (Inr c)
    have k: "qc_Org c = org" "qc_Name c = nm" using loadConfig_key [of org nm w w1 c] l Inr by simp_all
    have "w' = writeCache (queueCacheKey org nm) ttl (C_Queue c) w1" "r = Inr c" using l Inr assms(1) by simp_all
    with apart_write [OF 1, of c ttl] assms(3) k show ?thesis by simp
  qed
qed

lemma config_for_apart:
  assumes "config_for org nm w = (w', r)" and "apart w0 w" and "slash_free org"
  shows "apart w0 w' \<and> (\<forall>c. r = Inr c \<longrightarrow> qc_Org c = org)"
proof (cases "\<exists>c. cache_Get (g_cache w) (g_now w) (queueCacheKey org nm) = Some (Value (C_Queue c))")
  case True
  then obtain c where c: "cache_Get (g_cache w) (g_now w) (queueCacheKey org nm) = Some (Value (C_Queue c))" by blast
  have "w' = w" "r = Inr c" using assms(1) c by (simp_all add: config_for_def fetchViaCache_def)
  with sound_Get [OF apart_D [OF assms(2)] assms(3) c] assms(2) show ?thesis by simp
next
  case False
  then show ?thesis using assms(1,2)
      through_apart [OF _ assms(2,3), where ttl = "g_CacheTTL w" and nm = nm and w' = w' and r = r]
      through_apart [OF _ apart_evict [OF assms(2)] assms(3), where ttl = "g_CacheTTL w" and nm = nm and w' = w' and r = r]
    by (cases "cache_Get (g_cache w) (g_now w) (queueCacheKey org nm)")
      (auto simp: config_for_def fetchViaCache_def Let_def split: envelope.splits cached.splits)
qed

lemma config_apart:
  "config_for org nm w = (w', r) \<Longrightarrow> apart w0 w \<Longrightarrow> foreign v org \<Longrightarrow> apart w0 w' \<and> (\<forall>c. r = Inr c \<longrightarrow> foreign v (qc_Org c))"
  using config_for_apart foreign_D(1) by metis

lemma assign_apart: "record_owner cfg slot i w = (w', r) \<Longrightarrow> apart w0 w \<Longrightarrow> foreign v (qc_Org cfg) \<Longrightarrow> apart w0 w'"
  unfolding record_owner_def
  by (cases "qc_Distributed cfg") (simp_all add: db_apart [OF _ _ spares(1) [OF foreign_D(2)]] db_apart [OF _ _ spares(6) [OF foreign_D(2)]])

lemma ownerAddr_apart: "ownerAddr cfg slot w = (w', r) \<Longrightarrow> apart w0 w \<Longrightarrow> foreign v (qc_Org cfg) \<Longrightarrow> apart w0 w'"
  by (auto simp: ownerAddr_def Let_def split: sum.splits prod.splits if_splits dest!: assign_apart)

lemma withOwner_apart:
  assumes run: "\<And>addr s w w' r. run addr s w = (w', r) \<Longrightarrow> apart w0 w \<Longrightarrow> foreign v (sp_Org s) \<Longrightarrow> apart w0 w'"
    and "withOwner cancelled cfg slot run w = (w', r)" and "apart w0 w" and "foreign v (qc_Org cfg)"
  shows "apart w0 w'"
proof -
  have "apart w0 w \<Longrightarrow> foreign v (qc_Org cfg) \<Longrightarrow> apart w0 (fst (withOwner_loop run cancelled slot attempt cfg w))" for attempt cfg w
  proof (induction "List.length moveBackoff + 1 - attempt" arbitrary: attempt cfg w rule: less_induct)
    case less
    obtain w1 o1 where o: "ownerAddr cfg slot w = (w1, o1)" by fastforce
    have 1: "apart w0 w1" by (rule ownerAddr_apart [OF o less.prems])
    show ?case
    proof (cases "attempt < List.length moveBackoff + 1 \<and> (\<exists>i addr. o1 = Inr (i, addr))")
      case False
      with o 1 less.prems(1) show ?thesis by (subst withOwner_loop.simps) (cases o1; auto)
    next
      case True
      then obtain i addr where a: "o1 = Inr (i, addr)" by blast
      obtain w2 r2 where c: "run addr (Spec cfg) w1 = (w2, r2)" by fastforce
      have 2: "apart w0 w2" by (rule run [OF c 1]) (simp add: less.prems(2))
      let ?w3 = "evictCache (queueCacheKey (qc_Org cfg) (qc_Name cfg)) (w2\<lparr>g_now := g_now w2 + moveBackoff ! attempt\<rparr>)"
      obtain w4 r4 where f: "config_for (qc_Org cfg) (qc_Name cfg) ?w3 = (w4, r4)" by fastforce
      have 4: "apart w0 w4 \<and> (\<forall>c. r4 = Inr c \<longrightarrow> foreign v (qc_Org c))"
        by (rule config_apart [OF f]) (simp_all add: 2 less.prems(2))
      have 5: "apart w0 (fst (withOwner_loop run cancelled slot (attempt + 1) cfg' w4))" if "r4 = Inr cfg'" for cfg'
        by (rule less.hyps) (use True 4 that in auto)
      have e: "withOwner_loop run cancelled slot attempt cfg w =
        (case r2 of Inr r \<Rightarrow> (w2, Inr r)
         | Inl e \<Rightarrow> if CodeOf e \<noteq> CodeMoved \<or> attempt = List.length moveBackoff then (w2, Inl e)
             else if cancelled attempt then (w2, Inl ctx_err)
             else case r4 of Inl e \<Rightarrow> (w4, Inl e) | Inr cfg' \<Rightarrow> withOwner_loop run cancelled slot (attempt + 1) cfg' w4)"
        unfolding withOwner_loop.simps [of run cancelled slot attempt cfg w] o a
        using True by (simp add: c f Let_def split: sum.split)
      show ?thesis unfolding e using 2 4 5 by (simp split: sum.split)
    qed
  qed
  from this [OF assms(3,4)] assms(2) show ?thesis by (simp add: withOwner_def) (metis fst_conv)
qed

lemma own_calls:
  "node_call addr (\<lambda>cs addr dial net n. gw_Enqueue cs addr dial net (api_Enqueue api) e n) w = (w1, r1) \<Longrightarrow> apart w0 w \<Longrightarrow> foreign v (sp_Org (er_Spec e)) \<Longrightarrow> apart w0 w1"
  "node_call addr (\<lambda>cs addr dial net n. gw_Dequeue cs addr dial net (api_Dequeue api) spec mx n) w = (w2, r2) \<Longrightarrow> apart w0 w \<Longrightarrow> foreign v (sp_Org spec) \<Longrightarrow> apart w0 w2"
  "node_call addr (\<lambda>cs addr dial net n. gw_Ack cs addr dial net (api_Ack api) spec rc n) w = (w3, r3) \<Longrightarrow> apart w0 w \<Longrightarrow> foreign v (sp_Org spec) \<Longrightarrow> apart w0 w3"
  "node_call addr (\<lambda>cs addr dial net n. gw_Nack cs addr dial net (api_Nack api) spec rc d n) w = (w4, r4) \<Longrightarrow> apart w0 w \<Longrightarrow> foreign v (sp_Org spec) \<Longrightarrow> apart w0 w4"
  "node_call addr (\<lambda>cs addr dial net n. gw_Drop cs addr dial net (api_Drop api) spec n) w = (w5, r5) \<Longrightarrow> apart w0 w \<Longrightarrow> foreign v (sp_Org spec) \<Longrightarrow> apart w0 w5"
  "call_Stats api addr spec w = (w6, r6) \<Longrightarrow> apart w0 w \<Longrightarrow> foreign v (sp_Org spec) \<Longrightarrow> apart w0 w6"
  "call_StatsAll api addr w = (w7, r7) \<Longrightarrow> apart w0 w \<Longrightarrow> apart w0 w7"
  unfolding gw_Enqueue_def gw_Dequeue_def gw_Ack_def gw_Nack_def gw_Drop_def call_Stats_def gw_Stats_def call_StatsAll_def gw_StatsAll_def
  by ((erule (1) call_apart | erule (1) plain_call_apart),
      rule enqueue dequeue ack nack drops stats stats_all, (simp add: enqueue_request_def)?)+

subsection \<open>The requests\<close>

lemma Enqueue_apart: "Enqueue_gw api cancelled req w = (w', r) \<Longrightarrow> apart w0 w \<Longrightarrow> foreign v (ge_Org req) \<Longrightarrow> apart w0 w'"
  by (auto simp: Enqueue_gw_def Let_def split: prod.splits sum.splits if_splits dest!: config_apart withOwner_apart [rotated]
      intro: own_calls(1))

lemma Ack_apart: "Ack_gw api cancelled req w = (w', r) \<Longrightarrow> apart w0 w \<Longrightarrow> foreign v (ga_Org req) \<Longrightarrow> apart w0 w'"
  by (auto simp: Ack_gw_def split: prod.splits sum.splits dest!: config_apart withOwner_apart [rotated] intro: own_calls(3))

lemma Nack_apart: "Nack_gw api cancelled req w = (w', r) \<Longrightarrow> apart w0 w \<Longrightarrow> foreign v (gn_Org req) \<Longrightarrow> apart w0 w'"
  by (auto simp: Nack_gw_def split: prod.splits sum.splits dest!: config_apart withOwner_apart [rotated] intro: own_calls(4))

lemma ask_owners_apart: "ask_owners api spec mx addrs e a w = (w', r) \<Longrightarrow> apart w0 w \<Longrightarrow> foreign v (sp_Org spec) \<Longrightarrow> apart w0 w'"
  by (induction addrs arbitrary: e a w) (auto split: prod.splits sum.splits if_splits dest: own_calls(2))

lemma take_once_apart: "take_once api cancelled order cfg mx w = (w', r) \<Longrightarrow> apart w0 w \<Longrightarrow> foreign v (qc_Org cfg) \<Longrightarrow> apart w0 w'"
  by (auto simp: take_once_def split: if_splits dest!: withOwner_apart [rotated] ask_owners_apart intro: own_calls(2))

lemma check_dlq_apart: "check_dlq org s w = (w', r) \<Longrightarrow> apart w0 w \<Longrightarrow> foreign v org \<Longrightarrow> apart w0 w'"
  by (auto simp: check_dlq_def Let_def split: if_splits prod.splits sum.splits dest!: config_apart)

lemma place_slots_apart: "place_slots org nm width ss w = (w', r) \<Longrightarrow> apart w0 w \<Longrightarrow> foreign v org \<Longrightarrow> apart w0 w'"
  by (induction ss arbitrary: w) (auto split: sum.splits prod.splits dest: db_apart [OF _ _ spares(6) [OF foreign_D(2)]])

lemma Create_apart:
  assumes "Create c w = (w', r)" and "apart w0 w" and "foreign v (qc_Org c)"
  shows "apart w0 w' \<and> (\<forall>c' made. r = Inr (c', made) \<longrightarrow> foreign v (qc_Org c'))"
proof -
  obtain w1 r1 where d: "db (\<lambda>t. let (t, made) = insert_queue c (g_now w) t in (t, Inr made)) w = (w1, r1)" by fastforce
  have "apart w0 w1" by (rule db_apart [OF d assms(2) spares(7) [OF foreign_D(2) [OF assms(3)]]]) simp
  then have "apart w0 w'" using assms(1) d by (auto simp: Create_def split: sum.splits prod.splits dest: asking_apart)
  moreover have "\<forall>c' made. r = Inr (c', made) \<longrightarrow> foreign v (qc_Org c')"
    using assms(1,3) d by (auto simp: Create_def split: sum.splits prod.splits dest!: asking_answer Get_row_key)
  ultimately show ?thesis by blast
qed

lemma CreateQueue_apart:
  assumes "CreateQueue req w = (w', r)" and "apart w0 w" and f: "foreign v (cr_Org req)"
  shows "apart w0 w'"
proof -
  define finish where "finish = (\<lambda>created cfg w.
    if \<not> created \<and> qc_Settings cfg \<noteq> cr_ParseQueueSettings req
    then (w :: 'n world, Inl (New_error CodeConflict ''queue exists with different settings''))
    else (writeCache (queueCacheKey (qc_Org cfg) (qc_Name cfg)) (g_CacheTTL w) (C_Queue cfg) w,
          Inr \<lparr>cs_Name = qc_Name cfg, cs_Created = created, cs_OwnerNode = qc_OwnerNode cfg\<rparr>))"
  have fin: "apart w0 w'" if "finish created cfg w = (w', r)" "apart w0 w" "foreign v (qc_Org cfg)" for created cfg w
    using that apart_write foreign_D(1) by (auto simp: finish_def split: if_splits)
  obtain w1 r1 where a: "check_dlq (cr_Org req) (cr_ParseQueueSettings req) w = (w1, r1)" by fastforce
  have 1: "apart w0 w1" by (rule check_dlq_apart [OF a assms(2) f])
  let ?o = "if cr_Distributed req then [] else case assignOwner w1 (cr_Org req) (cr_Name req) 0 False 0 of Inl _ \<Rightarrow> [] | Inr m \<Rightarrow> mem_id m"
  obtain w2 r2 where b: "Create (create_cfg req ?o) w1 = (w2, r2)" by fastforce
  have 2: "apart w0 w2 \<and> (\<forall>c' made. r2 = Inr (c', made) \<longrightarrow> foreign v (qc_Org c'))"
    by (rule Create_apart [OF b 1]) (use f in \<open>simp add: create_cfg_def\<close>)
  obtain w3 r3 where c: "place_slots (cr_Org req) (cr_Name req) (gs_PlacementWidth (cr_ParseQueueSettings req)) [0..<SlotsPerDistributedQueue] w2 = (w3, r3)" by fastforce
  have 3: "apart w0 w3" by (rule place_slots_apart [OF c _ f]) (use 2 in simp)
  obtain w4 r4 where d: "loadConfig (cr_Org req) (cr_Name req) w3 = (w4, r4)" by fastforce
  have 4: "apart w0 w4 \<and> (\<forall>c. r4 = Inr c \<longrightarrow> foreign v (qc_Org c))"
    using loadConfig_apart [OF d 3] loadConfig_key [of "cr_Org req" "cr_Name req" w3 w4] d f by auto
  have e: "CreateQueue req w = (case r1 of Inl e \<Rightarrow> (w1, Inl e)
    | Inr _ \<Rightarrow> (case r2 of Inl e \<Rightarrow> (w2, Inl (Internal ''create queue'' e))
      | Inr (cfg, created) \<Rightarrow> if created \<and> cr_Distributed req
          then (case r3 of Inl e \<Rightarrow> (w3, Inl e)
            | Inr _ \<Rightarrow> (case r4 of Inl e \<Rightarrow> (w4, Inl (Internal ''reload queue'' e)) | Inr cfg \<Rightarrow> finish created cfg w4))
          else finish created cfg w2))"
    unfolding CreateQueue_def Let_def a
    by (simp add: b c d finish_def split: sum.split prod.split)
  show ?thesis using assms(1) 1 2 3 4 unfolding e by (auto split: sum.splits prod.splits if_splits dest: fin)
qed

lemma UpdateQueue_apart:
  assumes "UpdateQueue req w = (w', r)" and "apart w0 w" and f: "foreign v (ur_Org req)"
  shows "apart w0 w'"
proof -
  note S = db_apart [OF _ _ spares(3) [OF foreign_D(2) [OF f]]]
  show ?thesis using assms
    by (auto simp: UpdateQueue_def Let_def split: if_splits prod.splits sum.splits dest!: config_apart dest: S)
qed

lemma ListQueues_apart: "ListQueues org w = (w', r) \<Longrightarrow> apart w0 w \<Longrightarrow> apart w0 w'"
  by (auto simp: ListQueues_def split: prod.splits sum.splits dest!: asking_apart)

lemma deadLetterUsers_apart: "deadLetterUsers org nm w = (w', r) \<Longrightarrow> apart w0 w \<Longrightarrow> apart w0 w'"
  by (auto simp: deadLetterUsers_def split: prod.splits sum.splits dest!: asking_apart)

lemma DeleteQueue_apart:
  assumes "DeleteQueue api org nm w = (w', r)" and a: "apart w0 w" and f: "foreign v org"
  shows "apart w0 w'"
proof -
  note S = db_apart [OF _ _ spares(2) [OF foreign_D(2) [OF f]]] db_apart [OF _ _ spares(4) [OF foreign_D(2) [OF f]]]
    db_apart [OF _ _ spares(5) [OF foreign_D(2) [OF f]]]
  obtain w1 r1 where c: "config_for org nm w = (w1, r1)" by fastforce
  note 1 = config_apart [OF c a f]
  obtain w2 r2 where u: "deadLetterUsers org nm w1 = (w2, r2)" by fastforce
  have 2: "apart w0 w2" using deadLetterUsers_apart [OF u] 1 by blast
  obtain w3 r3 where m: "db (\<lambda>t. checked (SetState (g_holder w2) org nm StateDeleting (g_now w2) t)) w2 = (w3, r3)" by fastforce
  have 3: "apart w0 w3" by (rule S(1) [OF m 2])
  show ?thesis
  proof (cases r1)
    case (Inl e)
    with assms(1) c 1 show ?thesis by (simp add: DeleteQueue_def)
  next
    case (Inr cfg)
    obtain w4 r4 where o: "ownerAddr cfg 0 (evictCache (queueCacheKey org nm) w3) = (w4, r4)" by fastforce
    have 4: "apart w0 w4" by (rule ownerAddr_apart [OF o]) (use 1 3 Inr in simp_all)
    have 5: "apart w0 (fst (node_call addr (\<lambda>cs addr dial net n. gw_Drop cs addr dial net (api_Drop api) (Spec cfg) n) w4))" for addr
      by (rule own_calls(5) [OF prod.collapse [symmetric] 4]) (use 1 Inr in simp)
    have rest: "(case db (quietly (DeleteByQueue org nm)) w5 of
        (w, Inl e) \<Rightarrow> (w, Inl (Internal ''delete slot placement'' e))
      | (w, Inr _) \<Rightarrow> (case db (quietly (Delete_row org nm)) w of
          (w, Inl e) \<Rightarrow> (w, Inl (Internal ''delete queue'' e)) | (w, Inr _) \<Rightarrow> (evictCache (queueCacheKey org nm) w, Inr ()))) = (w', r)
      \<Longrightarrow> apart w0 w5 \<Longrightarrow> apart w0 w'" for w5
      by (auto split: sum.splits prod.splits dest: S(2) S(3))
    show ?thesis using assms(1) 2 3
      unfolding DeleteQueue_def c Inr Let_def
      by (simp add: u m o split: sum.splits if_splits) (auto dest!: rest simp: 4 5)
  qed
qed

text \<open>A parked consumer asks again and again, while the rest of the system goes on.\<close>

lemma wait_loop_apart:
  assumes tk: "\<And>w. apart w0 w \<Longrightarrow> apart w0 (fst (tk w))"
  shows "\<forall>(ev, f) \<in> set es. \<forall>w. apart w0 w \<longrightarrow> apart w0 (f w) \<Longrightarrow> apart w0 w \<Longrightarrow> apart w0 (fst (wait_loop tk first es w))"
proof (induction es arbitrary: first w)
  case Nil
  obtain w1 r1 where t: "tk w = (w1, r1)" by fastforce
  have "apart w0 w1" using tk [OF Nil.prems(2)] t by simp
  then show ?case using t by (subst wait_loop.simps) (simp split: sum.split)
next
  case (Cons x es)
  obtain ev f where x: "x = (ev, f)" by fastforce
  obtain w1 r1 where t: "tk w = (w1, r1)" by fastforce
  have 1: "apart w0 w1" using tk [OF Cons.prems(2)] t by simp
  have 2: "apart w0 (f w1)" "\<forall>(ev, f) \<in> set es. \<forall>w. apart w0 w \<longrightarrow> apart w0 (f w)" using Cons.prems(1) 1 x by auto
  have 3: "apart w0 (fst (wait_loop tk False es (f w1)))" by (rule Cons.IH [OF 2(2,1)])
  show ?case using t 1 2(1) 3 x by (subst wait_loop.simps) (cases ev; simp split: sum.split)
qed

lemma Dequeue_apart:
  assumes a: "apart w0 w" and f: "foreign v (gq_Org req)" and es: "\<forall>(ev, f) \<in> set es. \<forall>w. apart w0 w \<longrightarrow> apart w0 (f w)"
  shows "apart w0 (fst (Dequeue_gw api cancelled order es req w))"
proof -
  obtain w1 r1 where c: "config_for (gq_Org req) (gq_Queue req) w = (w1, r1)" by fastforce
  note 1 = config_apart [OF c a f]
  show ?thesis
  proof (cases r1)
    case (Inl e)
    then show ?thesis using c 1 by (simp add: Dequeue_gw_def)
  next
    case (Inr cfg)
    let ?tk = "take_once api cancelled order cfg (gq_MaxMessages req)"
    have tk: "apart w0 w \<Longrightarrow> apart w0 (fst (?tk w))" for w
      using 1 Inr by (intro take_once_apart [OF prod.collapse [symmetric]]) simp_all
    obtain w2 r2 where t: "?tk w1 = (w2, r2)" by fastforce
    have "apart w0 w2" using tk [of w1] 1 t by simp
    moreover have "apart w0 (fst (wait_loop ?tk True es w1))" using 1 by (intro wait_loop_apart tk es) simp_all
    ultimately show ?thesis using c Inr t by (simp add: Dequeue_gw_def Let_def split: sum.split)
  qed
qed

lemma ask_stats_apart: "ask_stats api spec xs tot missing w = (w', r) \<Longrightarrow> apart w0 w \<Longrightarrow> foreign v (sp_Org spec) \<Longrightarrow> apart w0 w'"
  by (induction xs arbitrary: tot missing w) (auto split: prod.splits sum.splits option.splits dest!: own_calls(6))

lemma owner_stats_apart: "owner_stats api cfg w = (w', r) \<Longrightarrow> apart w0 w \<Longrightarrow> foreign v (qc_Org cfg) \<Longrightarrow> apart w0 w'"
  by (auto simp: owner_stats_def split: prod.splits sum.splits if_splits dest!: ownerAddr_apart dest: own_calls(6))

lemma Stats_apart: "Stats_gw api perm org nm w = (w', r) \<Longrightarrow> apart w0 w \<Longrightarrow> foreign v org \<Longrightarrow> apart w0 w'"
  by (auto simp: Stats_gw_def split: prod.splits sum.splits option.splits if_splits dest!: config_apart dest: owner_stats_apart ask_stats_apart)

lemma withPlacement_apart: "withPlacement cs w = (w', r) \<Longrightarrow> apart w0 w \<Longrightarrow> apart w0 w'"
  by (induction cs arbitrary: w r) (auto simp: Let_def split: prod.splits sum.splits if_splits dest!: asking_apart)

lemma pages_apart:
  "GetMetrics org w = (w1, r1) \<Longrightarrow> apart w0 w \<Longrightarrow> apart w0 w1"
  "GetClusterDetails perm w = (w2, r2) \<Longrightarrow> apart w0 w \<Longrightarrow> apart w0 w2"
  "GetNodeDetails api perm' org i w = (w3, r3) \<Longrightarrow> apart w0 w \<Longrightarrow> apart w0 w3"
  "GetTimeseriesMetrics q org nm win w = (w4, r4) \<Longrightarrow> apart w0 w \<Longrightarrow> foreign v org \<Longrightarrow> apart w0 w4"
  by (auto simp: GetMetrics_def GetClusterDetails_def GetNodeDetails_def GetTimeseriesMetrics_def Let_def
      split: prod.splits sum.splits option.splits dest!: asking_apart withPlacement_apart own_calls(7) config_apart)

end

subsection \<open>The organisations of a cluster\<close>

text \<open>
  What everyone but \<open>v\<close> does: the requests of organisations other than \<open>v\<close>, one after the other in any order,
  also those that arrive while another one is parked; time passes, machines come and go, calls fail,
  entries of the cache expire or are dropped.
\<close>

inductive others_run :: "'n nodeAPI \<Rightarrow> string \<Rightarrow> 'n world \<Rightarrow> 'n world \<Rightarrow> bool" for api v where
  Idle: "g_db w' = g_db w \<Longrightarrow> g_nodes w' = g_nodes w \<Longrightarrow> map_of (g_cache w') \<subseteq>\<^sub>m map_of (g_cache w) \<Longrightarrow> others_run api v w w'"
| Then: "others_run api v w w' \<Longrightarrow> others_run api v w' w'' \<Longrightarrow> others_run api v w w''"
| Creating: "foreign v (cr_Org creq) \<Longrightarrow> others_run api v w (fst (CreateQueue creq w))"
| Updating: "foreign v (ur_Org ureq) \<Longrightarrow> others_run api v w (fst (UpdateQueue ureq w))"
| Deleting: "foreign v org \<Longrightarrow> others_run api v w (fst (DeleteQueue api org nm w))"
| Listing: "foreign v org \<Longrightarrow> others_run api v w (fst (ListQueues org w))"
| Enqueuing: "foreign v (ge_Org ereq) \<Longrightarrow> others_run api v w (fst (Enqueue_gw api cancelled ereq w))"
| Dequeuing: "foreign v (gq_Org qreq) \<Longrightarrow> \<forall>x \<in> set es. \<forall>w. others_run api v w (snd x w)
    \<Longrightarrow> others_run api v w (fst (Dequeue_gw api cancelled order es qreq w))"
| Acking: "foreign v (ga_Org areq) \<Longrightarrow> others_run api v w (fst (Ack_gw api cancelled areq w))"
| Nacking: "foreign v (gn_Org nreq) \<Longrightarrow> others_run api v w (fst (Nack_gw api cancelled nreq w))"
| Measuring: "foreign v org \<Longrightarrow> others_run api v w (fst (Stats_gw api perm org nm w))"
| Metrics: "foreign v org \<Longrightarrow> others_run api v w (fst (GetMetrics org w))"
| History: "foreign v org \<Longrightarrow> others_run api v w (fst (GetTimeseriesMetrics q org nm win w))"
| Machine: "foreign v org \<Longrightarrow> others_run api v w (fst (GetNodeDetails api perm org i w))"
| Cluster: "others_run api v w (fst (GetClusterDetails perm w))"

context tenant_api
begin

lemma fst_apart: "(\<And>w' r. x = (w', r) \<Longrightarrow> apart w0 w') \<Longrightarrow> apart w0 (fst x)"
  by (metis prod.collapse)

lemma others_run_apart: "others_run api v w w' \<Longrightarrow> apart w0 w \<Longrightarrow> apart w0 w'"
proof (induction arbitrary: w0 rule: others_run.induct)
  case (Idle w' w)
  have "cache_sound w'" using apart_D [OF Idle.prems] Idle.hyps(3) unfolding cache_sound_def map_le_def by (metis domI)
  with Idle show ?case by (auto intro: apart_same)
next
  case (Then w w' w'')
  then show ?case by blast
next
  case (Dequeuing qreq es w cancelled order)
  then show ?case by (intro Dequeue_apart) (auto simp: split_def)
qed (rule fst_apart, erule (1) CreateQueue_apart UpdateQueue_apart DeleteQueue_apart ListQueues_apart Enqueue_apart Ack_apart Nack_apart
  Stats_apart pages_apart, assumption?)+

end

subsection \<open>The nodes of this development keep the promise\<close>

named_theorems keeps_org_intro

lemma foreign_key: "foreign v (Org k) \<Longrightarrow> Org k' = v \<Longrightarrow> k' \<noteq> k \<and> dir k' \<noteq> dir k"
  by (auto simp: foreign_def dir_def)

lemma keeps_set_live [keeps_org_intro]: "foreign v (Org k) \<Longrightarrow> keeps_org v n n' \<Longrightarrow> keeps_org v n (set_live k lq n')"
  by (simp add: keeps_org_def foreign_key) (simp add: set_live_def)

lemma keeps_set_disk [keeps_org_intro]: "foreign v (Org k) \<Longrightarrow> keeps_org v n n' \<Longrightarrow> keeps_org v n (set_disk k d n')"
  using foreign_key [of v k] by (simp add: keeps_org_def) (simp add: set_disk_def update_conv')

lemma keeps_notify [keeps_org_intro]: "keeps_org v n n' \<Longrightarrow> keeps_org v n (notifyWork k n')"
  by (simp add: keeps_org_def) (simp add: notifyWork_def)

lemma keeps_self [simp, keeps_org_intro]: "keeps_org v n n"
  by (simp add: keeps_org_def)

lemma keeps_trans: "keeps_org v n n' \<Longrightarrow> keeps_org v n' n'' \<Longrightarrow> keeps_org v n n''"
  by (simp add: keeps_org_def)

lemma keeps_drop: "foreign v (Org k) \<Longrightarrow> keeps_org v n (Drop_node n k)"
  using foreign_key [of v k] by (simp add: keeps_org_def Drop_node_def lookup_def delete_conv')

lemma keeps_put [keeps_org_intro]: "foreign v (Org k) \<Longrightarrow> keeps_org v n n' \<Longrightarrow> keeps_org v n (put_queue render k lq q n')"
  by (simp add: put_queue_def Let_def keeps_org_intro)

lemma keeps_offer [keeps_org_intro]: "foreign v (Org k) \<Longrightarrow> keeps_org v n n' \<Longrightarrow> keeps_org v n (offerDeadLetter render n' k i m wrote flushed)"
  by (simp add: offerDeadLetter_def Let_def keeps_org_intro split: option.split prod.split)

lemma keeps_queueFor: "queueFor n spec e = (n', r) \<Longrightarrow> foreign v (sp_Org spec) \<Longrightarrow> keeps_org v n n'"
  by (auto simp: queueFor_def Let_def spec_Key_def split: option.splits intro!: keeps_org_intro)

lemma keeps_journaled:
  "enqueue_journaled render n' k lq i o' newid now wrote flushed = (n'', r) \<Longrightarrow> foreign v (Org k) \<Longrightarrow> keeps_org v n n' \<Longrightarrow> keeps_org v n n''"
  by (auto simp: enqueue_journaled_def Let_def split: prod.splits sum.splits intro!: keeps_org_intro)

lemma keeps_Enqueue: "Enqueue_node render n req e newid now wrote flushed = (n', r) \<Longrightarrow> foreign v (sp_Org (er_Spec req)) \<Longrightarrow> keeps_org v n n'"
  by (auto simp: Enqueue_node_def Let_def spec_Key_def split: prod.splits sum.splits option.splits engine_error.splits
      dest!: keeps_queueFor keeps_journaled intro!: keeps_org_intro)

lemma keeps_Dequeue: "Dequeue_node render n req e clock = (n', r) \<Longrightarrow> foreign v (sp_Org (dr_Spec req)) \<Longrightarrow> keeps_org v n n'"
  by (auto simp: Dequeue_node_def Let_def spec_Key_def split: prod.splits sum.splits dest!: keeps_queueFor intro!: keeps_org_intro)

lemma keeps_Ack: "Ack_node render n req = (n', r) \<Longrightarrow> foreign v (sp_Org (ar_Spec req)) \<Longrightarrow> keeps_org v n n'"
  by (auto simp: Ack_node_def Let_def spec_Key_def split: prod.splits sum.splits option.splits engine_error.splits intro!: keeps_org_intro)

lemma keeps_Nack: "Nack_node render n req now wrote flushed = (n', r) \<Longrightarrow> foreign v (sp_Org (nr_Spec req)) \<Longrightarrow> keeps_org v n n'"
  by (auto simp: Nack_node_def Let_def spec_Key_def split: prod.splits sum.splits option.splits engine_error.splits intro!: keeps_org_intro)

definition host_keeps :: "string \<Rightarrow> host \<Rightarrow> host \<Rightarrow> bool" where
  "host_keeps v h h' \<longleftrightarrow> keeps_org v (h_node h) (h_node h')"

lemma on_host_keeps: "keeps_org v (h_node h) (fst (f (h_env h (h_tick h)) (h_node h))) \<Longrightarrow> host_keeps v h (fst (on_host f h))"
  by (simp add: host_keeps_def on_host_def Let_def case_prod_beta)

lemma fst_keeps: "(\<And>n' r. x = (n', r) \<Longrightarrow> keeps_org v n n') \<Longrightarrow> keeps_org v n (fst x)"
  by (metis prod.collapse)

lemma srv_keeps:
  "foreign v (sp_Org (specFrom (pb_e_spec req))) \<Longrightarrow> keeps_org v n (fst (srv_Enqueue render req e newid now wrote flushed n))"
  "foreign v (sp_Org (specFrom s)) \<Longrightarrow> keeps_org v n (fst (srv_Dequeue render s mx e clock n))"
  "foreign v (sp_Org (specFrom s)) \<Longrightarrow> keeps_org v n (fst (srv_Ack render s rc n))"
  "foreign v (sp_Org (specFrom s)) \<Longrightarrow> keeps_org v n (fst (srv_Nack render s rc d now wrote flushed n))"
  "foreign v (sp_Org (specFrom s)) \<Longrightarrow> keeps_org v n (fst (srv_Drop s n))"
  by (auto simp: srv_Enqueue_def srv_Dequeue_def srv_Ack_def srv_Nack_def srv_Drop_def reply_def Let_def spec_Key_def split: prod.split sum.split
      dest!: keeps_Enqueue keeps_Dequeue intro!: keeps_drop)
    (rule fst_keeps, erule keeps_Ack keeps_Nack, simp)+

interpretation tenants: tenant_api "host_api render" v "host_keeps v"
proof unfold_locales
  show "reflp (host_keeps v)" by (simp add: reflpI host_keeps_def)
  show "transp (host_keeps v)" by (rule transpI) (auto simp: host_keeps_def intro: keeps_trans)
qed (auto simp: host_api_def srv_Stats_def srv_StatsAll_def intro!: on_host_keeps srv_keeps)

subsection \<open>Isolation\<close>

lemma foreign_ascii: "ascii v \<Longrightarrow> ascii org \<Longrightarrow> org \<noteq> v \<Longrightarrow> slash_free org \<Longrightarrow> foreign v org"
proof -
  assume a: "ascii v" "ascii org" and n: "org \<noteq> v" and s: "slash_free org"
  have small: "\<forall>b \<in> set (map of_char v). b < (128 :: nat)" "\<forall>b \<in> set (map of_char org). b < (128 :: nat)"
    using a by (auto simp: ascii_def)
  have "sanitise org \<noteq> sanitise v"
  proof
    assume "sanitise org = sanitise v"
    then have "map (of_char :: char \<Rightarrow> nat) org = map of_char v"
      by (intro sanitise_runes_inj [OF small(2,1)]) (simp only: sanitise_def runes_ascii [OF small(1)] runes_ascii [OF small(2)])
    then have "map char_of (map (of_char :: char \<Rightarrow> nat) org) = map char_of (map (of_char :: char \<Rightarrow> nat) v)" by (rule arg_cong)
    then show False using n by (simp add: comp_def)
  qed
  with s show ?thesis by (simp add: foreign_def)
qed


definition other_request :: createQueueRequest where
  "other_request = \<lparr>cr_Org = ''p'', cr_Name = ''n'', cr_Distributed = False, cr_ParseQueueSettings = demo_settings\<rparr>"

definition other_message :: gwEnqueueRequest where
  "other_message = \<lparr>ge_Org = ''p'', ge_Queue = ''n'', ge_GroupID = [], ge_Body = [1], ge_PriorityValue = 50, ge_TTLFor = 0, ge_DeliverIn = 0\<rparr>"


text \<open>
  With a slash in an organisation's ID the key is that of another organisation's queue: whoever asks
  for queue \<open>b/n\<close> of \<open>a\<close> is given the configuration of queue \<open>n\<close> of \<open>a/b\<close>, and with it that queue.
\<close>

theorem slash_shares_cache:
  assumes "qc_Org c = ''a/b''" and "qc_Name c = ''n''" and "g_admit w" and "0 < g_CacheTTL w"
  shows "config_for ''a'' ''b/n'' (writeCache (queueCacheKey (qc_Org c) (qc_Name c)) (g_CacheTTL w) (C_Queue c) w)
    = (writeCache (queueCacheKey (qc_Org c) (qc_Name c)) (g_CacheTTL w) (C_Queue c) w, Inr c)"
proof -
  have "queueCacheKey (qc_Org c) (qc_Name c) = queueCacheKey ''a'' ''b/n''" using assms by (simp add: queueCacheKey_def gw_key_def)
  moreover have "0 < jitter (g_rand w) (g_CacheTTL w)" using jitter_bounds [OF assms(4), of "g_rand w"] assms(4) by linarith
  ultimately show ?thesis
    using assms(3) by (simp add: config_for_def fetchViaCache_def writeCache_def cache_Get_def cache_Set_def update_conv')
qed

theorem slash_shares_cache_witness:
  "snd (config_for ''a'' ''b/n'' (writeCache (queueCacheKey ''a/b'' ''n'') (30 * second) (C_Queue (demo_config\<lparr>qc_Org := ''a/b''\<rparr>)) (demo_world demo_config leak1 [])))
    = Inr (demo_config\<lparr>qc_Org := ''a/b''\<rparr>)"
proof -
  have c: "qc_Org (demo_config\<lparr>qc_Org := ''a/b''\<rparr>) = ''a/b''" "qc_Name (demo_config\<lparr>qc_Org := ''a/b''\<rparr>) = ''n''" by (simp_all add: demo_config_def)
  have w: "g_admit (demo_world demo_config leak1 [])" "0 < g_CacheTTL (demo_world demo_config leak1 [])"
    "g_CacheTTL (demo_world demo_config leak1 []) = 30 * second"
    by (simp_all add: demo_world_def second_def)
  from slash_shares_cache [OF c w(1,2)] show ?thesis by (simp add: c w(3))
qed

end
