(* ===== verification/Streams.thy ===== *)
theory Streams
  imports Rpc GwWaiters "HOL-Library.Sublist"
begin

text \<open>
  The notification stream from a node to a gateway, end to end: the channel of the subscriber in the node
  (\<open>backend/queue/logic/notify-logic.go\<close>), the handler that sends from it
  (\<open>backend/queue/controller/v1-subscribe.go\<close>), the goroutine that receives
  (\<open>Subscribe\<close> of \<open>backend/gateway/repo/nodegrpc/nodegrpc.go\<close>) and the loop that wakes consumers (\<open>streamFrom\<close> of
  \<open>backend/gateway/logic/dequeue-wait-logic.go\<close>).  What each of them does without waiting is one event.
  The transport delivers in order what it delivers.  Also here: the health check of a node.
\<close>

definition srv_Health :: "node \<Rightarrow> node \<times> (grpc_status + string \<times> string)" where
  "srv_Health n = (n, Inr (''ok'', n_id n))"

text \<open>Opening the stream; the answer of the transport is an argument.\<close>

definition gw_Subscribe :: "conns \<Rightarrow> string \<Rightarrow> err option \<Rightarrow> call_err option \<Rightarrow> conns \<times> (err + unit)" where
  "gw_Subscribe cs addr dial opened =
     (case client cs addr dial of
        (cs, Some e) \<Rightarrow> (cs, Inl e)
      | (cs, None) \<Rightarrow> (case opened of Some e \<Rightarrow> (let (cs, e) = failed cs addr e in (cs, Inl e)) | None \<Rightarrow> (cs, Inr ())))"

subsection \<open>Events\<close>

text \<open>
  The node's subscribers with the number of this one; what is on its way; the notification the receiving goroutine
  has in its hands; the channel it fills; the gateway's waiters.
\<close>

record stream =
  sm_subs :: subscribers
  sm_id :: nat
  sm_wire :: "notification list"
  sm_hand :: "notification option"
  sm_out :: "notification list"
  sm_waiters :: waiters

definition out_cap :: nat where
  "out_cap = 64"

definition wake_for :: "notification \<Rightarrow> waiters \<Rightarrow> waiters" where
  "wake_for k = wake (gw_key (Org k) (Name k))"

text \<open>\<open>Hangup\<close> is every way the handler ends: the subscriber goes, and what was not received with it.\<close>

datatype stream_event = Publish notification | Send | Recv | Put | Take | Hangup

fun stream_happen :: "stream_event \<Rightarrow> stream \<Rightarrow> stream option" where
  "stream_happen (Publish k) s = Some (s\<lparr>sm_subs := publish (sm_subs s) k\<rparr>)"
| "stream_happen Send s =
     (case map_of (sub_m (sm_subs s)) (sm_id s) of
        Some (k # ch) \<Rightarrow> Some (s\<lparr>sm_subs := (sm_subs s)\<lparr>sub_m := AList.update (sm_id s) ch (sub_m (sm_subs s))\<rparr>, sm_wire := sm_wire s @ [k]\<rparr>)
      | _ \<Rightarrow> None)"
| "stream_happen Recv s =
     (case sm_wire s of k # ks \<Rightarrow> if sm_hand s = None then Some (s\<lparr>sm_hand := Some k, sm_wire := ks\<rparr>) else None | [] \<Rightarrow> None)"
| "stream_happen Put s =
     (case sm_hand s of Some k \<Rightarrow> if List.length (sm_out s) < out_cap then Some (s\<lparr>sm_hand := None, sm_out := sm_out s @ [k]\<rparr>) else None
      | None \<Rightarrow> None)"
| "stream_happen Take s = (case sm_out s of k # ks \<Rightarrow> Some (s\<lparr>sm_out := ks, sm_waiters := wake_for k (sm_waiters s)\<rparr>) | [] \<Rightarrow> None)"
| "stream_happen Hangup s =
     Some (s\<lparr>sm_subs := (sm_subs s)\<lparr>sub_m := AList.delete (sm_id s) (sub_m (sm_subs s))\<rparr>, sm_wire := []\<rparr>)"

fun stream_run :: "stream_event list \<Rightarrow> stream \<Rightarrow> stream option" where
  "stream_run [] s = Some s"
| "stream_run (e # es) s = (case stream_happen e s of None \<Rightarrow> None | Some s' \<Rightarrow> stream_run es s')"

lemma stream_run_append: "stream_run (es @ fs) s = (case stream_run es s of None \<Rightarrow> None | Some s' \<Rightarrow> stream_run fs s')"
  by (induction es arbitrary: s) (auto split: option.split)

text \<open>The node's side of a new subscription is \<open>Subscribe\<close> and of the end \<open>Unsubscribe\<close>.\<close>

definition subscribed :: "node \<Rightarrow> waiters \<Rightarrow> stream" where
  "subscribed n w = (let (n, i) = Subscribe n in \<lparr>sm_subs = n_subs n, sm_id = i, sm_wire = [], sm_hand = None, sm_out = [], sm_waiters = w\<rparr>)"

lemma hangup_unsubscribes: "n_subs n = sm_subs s \<Longrightarrow> stream_happen Hangup s = Some s' \<Longrightarrow> n_subs (Unsubscribe n (sm_id s)) = sm_subs s'"
  by (auto simp: Unsubscribe_def)

subsection \<open>In order, and lost only by a full channel\<close>

definition channel :: "stream \<Rightarrow> notification list" where
  "channel s = (case map_of (sub_m (sm_subs s)) (sm_id s) of None \<Rightarrow> [] | Some ch \<Rightarrow> ch)"

text \<open>What is under way, the next to arrive first.\<close>

definition under_way :: "stream \<Rightarrow> notification list" where
  "under_way s = sm_out s @ (case sm_hand s of None \<Rightarrow> [] | Some k \<Rightarrow> [k]) @ sm_wire s @ channel s"

fun published :: "stream_event list \<Rightarrow> notification list" where
  "published [] = []"
| "published (Publish k # es) = k # published es"
| "published (_ # es) = published es"

text \<open>The notifications published while the channel was full.\<close>

fun skipped :: "stream_event list \<Rightarrow> stream \<Rightarrow> nat" where
  "skipped [] s = 0"
| "skipped (e # es) s =
     (case e of Publish k \<Rightarrow> (if List.length (channel s) < sub_cap then 0 else 1) | _ \<Rightarrow> 0)
     + (case stream_happen e s of None \<Rightarrow> 0 | Some s' \<Rightarrow> skipped es s')"

definition connected_stream :: "stream \<Rightarrow> bool" where
  "connected_stream s \<longleftrightarrow> map_of (sub_m (sm_subs s)) (sm_id s) \<noteq> None"

lemma map_of_publish: "map_of (sub_m (publish s k)) i = map_option (\<lambda>ch. if List.length ch < sub_cap then ch @ [k] else ch) (map_of (sub_m s) i)"
proof -
  have "map_of (map (\<lambda>(i, ch). (i, f ch)) m) i = map_option f (map_of m i)" for f and m :: "(nat \<times> notification list) list"
    by (induction m) auto
  then show ?thesis by (simp add: publish_def)
qed

text \<open>What one event does to the notifications under way.\<close>

lemma stream_event_effect:
  assumes "stream_happen e s = Some s'" and "connected_stream s" and "e \<noteq> Hangup"
  shows "connected_stream s' \<and>
    (case e of
       Publish k \<Rightarrow> under_way s' = under_way s @ (if List.length (channel s) < sub_cap then [k] else []) \<and> sm_waiters s' = sm_waiters s
     | Take \<Rightarrow> \<exists>k. under_way s = k # under_way s' \<and> sm_waiters s' = wake_for k (sm_waiters s)
     | _ \<Rightarrow> under_way s' = under_way s \<and> sm_waiters s' = sm_waiters s)"
  using assms
  by (cases e)
     (auto simp: under_way_def channel_def connected_stream_def map_of_publish update_conv' split: option.splits list.splits if_splits)

lemma stream_run_effect:
  assumes "stream_run es s = Some s'" and "connected_stream s" and "Hangup \<notin> set es"
  shows "\<exists>ms. subseq (ms @ under_way s') (under_way s @ published es) \<and>
    List.length (ms @ under_way s') + skipped es s = List.length (under_way s @ published es) \<and>
    sm_waiters s' = fold wake_for ms (sm_waiters s)"
  using assms
proof (induction es arbitrary: s)
  case (Cons e es)
  obtain s1 where s1: "stream_happen e s = Some s1" "stream_run es s1 = Some s'" using Cons.prems(1) by (auto split: option.splits)
  note E = stream_event_effect [OF s1(1) Cons.prems(2)]
  have c: "connected_stream s1" "e \<noteq> Hangup" "Hangup \<notin> set es" using E Cons.prems(3) by auto
  obtain ms where M: "subseq (ms @ under_way s') (under_way s1 @ published es)"
    "List.length (ms @ under_way s') + skipped es s1 = List.length (under_way s1 @ published es)"
    "sm_waiters s' = fold wake_for ms (sm_waiters s1)" using Cons.IH [OF s1(2) c(1,3)] by blast
  show ?case
  proof (cases e)
    case (Publish k)
    show ?thesis
    proof (cases "List.length (channel s) < sub_cap")
      case True
      then show ?thesis using M E c(2) s1(1) Publish by (intro exI [of _ ms]) auto
    next
      case False
      then have u: "under_way s1 = under_way s" "sm_waiters s1 = sm_waiters s" using E c(2) Publish by auto
      have "subseq (under_way s @ published es) (under_way s @ k # published es)" by (intro list_emb_append_mono subseq_order.refl list_emb_Cons)
      with M(1) have "subseq (ms @ under_way s') (under_way s @ k # published es)" unfolding u by (rule subseq_order.trans)
      then show ?thesis using M u False s1(1) Publish by (intro exI [of _ ms]) auto
    qed
  next
    case Take
    then obtain k where k: "under_way s = k # under_way s1" "sm_waiters s1 = wake_for k (sm_waiters s)" using E c(2) by auto
    then show ?thesis using M s1(1) Take by (intro exI [of _ "k # ms"]) auto
  qed (use M E c(2) s1(1) in \<open>auto intro!: exI [of _ ms]\<close>)
qed auto

subsection \<open>All that is under way arrives\<close>

definition distance :: "stream \<Rightarrow> nat" where
  "distance s = List.length (sm_out s) + (if sm_hand s = None then 0 else 2) + 3 * List.length (sm_wire s) + 4 * List.length (channel s)"

text \<open>Whatever is under way, the next event that brings it nearer.\<close>

definition next_event :: "stream \<Rightarrow> stream_event" where
  "next_event s = (if sm_out s \<noteq> [] then Take else if sm_hand s \<noteq> None then Put else if sm_wire s \<noteq> [] then Recv else Send)"

lemma next_event_nearer:
  assumes "connected_stream s" and "under_way s \<noteq> []"
  shows "\<exists>s'. stream_happen (next_event s) s = Some s' \<and> distance s' < distance s"
proof (cases "sm_out s")
  case Nil
  show ?thesis
  proof (cases "sm_hand s")
    case None
    show ?thesis
    proof (cases "sm_wire s")
      case [simp]: Nil
      obtain k ch where [simp]: "map_of (sub_m (sm_subs s)) (sm_id s) = Some (k # ch)"
        using assms(2) \<open>sm_out s = []\<close> None by (auto simp: under_way_def channel_def neq_Nil_conv split: option.splits)
      show ?thesis using \<open>sm_out s = []\<close> None by (simp add: next_event_def distance_def channel_def)
    qed (use \<open>sm_out s = []\<close> None in \<open>simp add: next_event_def distance_def channel_def\<close>)
  qed (use \<open>sm_out s = []\<close> in \<open>simp add: next_event_def distance_def channel_def out_cap_def\<close>)
qed (simp add: next_event_def distance_def channel_def)

lemma stream_drains:
  assumes "connected_stream s"
  shows "\<exists>es s'. stream_run es s = Some s' \<and> under_way s' = [] \<and> sm_waiters s' = fold wake_for (under_way s) (sm_waiters s)"
  using assms
proof (induction "distance s" arbitrary: s rule: less_induct)
  case less
  show ?case
  proof (cases "under_way s = []")
    case True
    then show ?thesis by (intro exI [of _ "[]"]) simp
  next
    case False
    obtain s1 where s1: "stream_happen (next_event s) s = Some s1" "distance s1 < distance s"
      using next_event_nearer [OF less.prems False] by blast
    have "next_event s \<noteq> Hangup" "\<forall>k. next_event s \<noteq> Publish k" by (simp_all add: next_event_def)
    then have E: "connected_stream s1" "sm_waiters s1 = sm_waiters s \<and> under_way s1 = under_way s \<or>
        (\<exists>k. under_way s = k # under_way s1 \<and> sm_waiters s1 = wake_for k (sm_waiters s))"
      using stream_event_effect [OF s1(1) less.prems] by (auto split: stream_event.splits)
    obtain es s' where "stream_run es s1 = Some s'" "under_way s' = []" "sm_waiters s' = fold wake_for (under_way s1) (sm_waiters s1)"
      using less.hyps [OF s1(2) E(1)] by blast
    then show ?thesis using s1(1) E(2) by (intro exI [of _ "next_event s # es"] exI [of _ s']) auto
  qed
qed

lemma subscribed_fresh: "connected_stream (subscribed n w)" "under_way (subscribed n w) = []" "sm_waiters (subscribed n w) = w"
  by (simp_all add: subscribed_def Subscribe_def Let_def connected_stream_def under_way_def channel_def update_conv')

text \<open>C32: Notifications arrive in order and are lost only at a full channel. As long as the stream is not broken off,
  the wakes the gateway has done and the notifications under way are, in order, those published since it
  subscribed, less one for every time the channel of the subscriber was full; and without any further
  event at the node all that is under way can arrive.\<close>

theorem notifications_delivered:
  assumes "stream_run es (subscribed n w) = Some s" and "Hangup \<notin> set es"
  shows "\<exists>ms. subseq (ms @ under_way s) (published es) \<and>
    List.length (ms @ under_way s) + skipped es (subscribed n w) = List.length (published es) \<and> sm_waiters s = fold wake_for ms w \<and>
    (\<exists>fs s'. stream_run fs s = Some s' \<and> under_way s' = [] \<and> sm_waiters s' = fold wake_for (ms @ under_way s) w)"
proof -
  note F = subscribed_fresh [of n w]
  have c: "connected_stream s" if "stream_run es t = Some s" "connected_stream t" "Hangup \<notin> set es" for es t
    using that stream_event_effect by (induction es arbitrary: t) (fastforce split: option.splits)+
  obtain ms where "subseq (ms @ under_way s) (published es)"
    "List.length (ms @ under_way s) + skipped es (subscribed n w) = List.length (published es)" "sm_waiters s = fold wake_for ms w"
    using stream_run_effect [OF assms(1) F(1) assms(2)] F by auto
  with stream_drains [OF c [OF assms(1) F(1) assms(2)]] show ?thesis by (intro exI [of _ ms]) auto
qed

definition demo_events :: "stream_event list" where
  "demo_events = [Publish \<lparr>Org = ''o'', Name = ''n''\<rparr>, Send, Recv, Publish \<lparr>Org = ''o'', Name = ''m''\<rparr>, Put, Take, Send]"

theorem notifications_delivered_witness:
  "\<exists>s ms. stream_run demo_events (subscribed (New_node ''x'' 1 SyncNever []) newWaiters) = Some s \<and>
     under_way s = [\<lparr>Org = ''o'', Name = ''m''\<rparr>] \<and> List.length ms = 1 \<and> sm_waiters s = fold wake_for ms newWaiters"
proof -
  let ?n = "New_node ''x'' 1 SyncNever []"
  obtain s where s: "stream_run demo_events (subscribed ?n newWaiters) = Some s" "under_way s = [\<lparr>Org = ''o'', Name = ''m''\<rparr>]"
    by (simp add: demo_events_def subscribed_def Subscribe_def New_node_def publish_def sub_cap_def out_cap_def under_way_def channel_def Let_def)
  have p: "List.length (published demo_events) = 2" "skipped demo_events (subscribed ?n newWaiters) = 0" "Hangup \<notin> set demo_events"
    by (simp_all add: demo_events_def subscribed_def Subscribe_def New_node_def publish_def sub_cap_def out_cap_def channel_def Let_def)
  obtain ms where "List.length (ms @ under_way s) + 0 = 2" "sm_waiters s = fold wake_for ms newWaiters"
    using notifications_delivered [OF s(1) p(3)] unfolding p(1,2) by blast
  with s show ?thesis by auto
qed

end
