(* ===== verification/WalHandles.thy ===== *)
theory WalHandles
  imports Wal Errors
begin

text \<open>
  The open files of a write-ahead log (\<open>Open\<close>, \<open>slot\<close>, \<open>append\<close>, \<open>syncAll\<close>, \<open>Drop\<close> and \<open>Close\<close> of
  \<open>backend/queue/repo/walfile/wal.go\<close>): which slots have a handle, what of a file survives a loss of power, and when
  the periodic flush runs.  A file is known by a number, so that one that is removed and made again is
  another file.  The theory \<open>Wal\<close> is the view of these operations without handles; what appends, flushes and
  compactions of one slot do to each other is the subject of \<open>GroupCommit\<close>.
\<close>

subsection \<open>Files and handles\<close>

record walFiles =
  hf_path :: "(u16 \<times> nat) list"
  hf_data :: "nat \<Rightarrow> bytes"
  hf_safe :: "nat \<Rightarrow> bytes"
  hf_fresh :: nat

record walHandle =
  wh_sync :: string
  wh_interval :: duration
  wh_slots :: "(u16 \<times> nat) list"
  wh_looping :: bool
  wh_closed :: bool
  wh_disk :: walFiles

definition default_interval :: duration where
  "default_interval = 100000000"

definition Open_wal :: "string \<Rightarrow> duration \<Rightarrow> walFiles \<Rightarrow> walHandle" where
  "Open_wal mode interval d =
     (let mode = (if mode = [] then ''interval'' else mode)
      in \<lparr>wh_sync = mode, wh_interval = (if interval \<le> 0 then default_interval else interval), wh_slots = [],
          wh_looping = (mode = ''interval''), wh_closed = False, wh_disk = d\<rparr>)"

text \<open>\<open>OpenFile\<close> with \<open>O_CREATE\<close>.\<close>

definition open_file :: "u16 \<Rightarrow> walFiles \<Rightarrow> walFiles \<times> nat" where
  "open_file i d =
     (case map_of (hf_path d) i of
        Some h \<Rightarrow> (d, h)
      | None \<Rightarrow> (let h = hf_fresh d
                 in (d\<lparr>hf_path := AList.update i h (hf_path d), hf_data := (hf_data d)(h := []), hf_safe := (hf_safe d)(h := []), hf_fresh := h + 1\<rparr>, h)))"

text \<open>\<open>opens\<close> is whether the file could be opened, where it is not open yet.\<close>

definition slot_handle :: "u16 \<Rightarrow> bool \<Rightarrow> walHandle \<Rightarrow> walHandle \<times> nat option" where
  "slot_handle i opens w =
     (case map_of (wh_slots w) i of
        Some h \<Rightarrow> (w, Some h)
      | None \<Rightarrow> (if \<not> opens then (w, None)
                 else let (d, h) = open_file i (wh_disk w) in (w\<lparr>wh_disk := d, wh_slots := AList.update i h (wh_slots w)\<rparr>, Some h)))"

text \<open>A flush that succeeds makes all that was written safe.\<close>

definition fsync :: "nat \<Rightarrow> bool \<Rightarrow> walHandle \<Rightarrow> walHandle" where
  "fsync h ok w = (if ok then w\<lparr>wh_disk := (wh_disk w)\<lparr>hf_safe := (hf_safe (wh_disk w))(h := hf_data (wh_disk w) h)\<rparr>\<rparr> else w)"

definition write_bytes :: "nat \<Rightarrow> bytes \<Rightarrow> walHandle \<Rightarrow> walHandle" where
  "write_bytes h buf w = w\<lparr>wh_disk := (wh_disk w)\<lparr>hf_data := (hf_data (wh_disk w))(h := hf_data (wh_disk w) h @ buf)\<rparr>\<rparr>"

definition append_handle :: "u16 \<Rightarrow> bytes \<Rightarrow> bool \<Rightarrow> bool \<Rightarrow> nat option \<Rightarrow> bool \<Rightarrow> walHandle \<Rightarrow> walHandle \<times> bool" where
  "append_handle i buf durable opens wrote flushed w =
     (case slot_handle i opens w of
        (w, None) \<Rightarrow> (w, False)
      | (w, Some h) \<Rightarrow>
          (case wrote of
             Some n \<Rightarrow> (write_bytes h (take n buf) w, False)
           | None \<Rightarrow> (let w = write_bytes h buf w
                      in if \<not> durable \<or> wh_sync w \<noteq> ''always'' then (w, True) else (fsync h flushed w, flushed))))"

subsection \<open>Flushing, dropping, closing\<close>

text \<open>\<open>syncAll\<close> over the open slots, in the order of the map; errors are ignored.\<close>

definition syncAll :: "(u16 \<times> bool) list \<Rightarrow> walHandle \<Rightarrow> walHandle" where
  "syncAll visits w = fold (\<lambda>(i, ok) w. case map_of (wh_slots w) i of Some h \<Rightarrow> fsync h ok w | None \<Rightarrow> w) visits w"

text \<open>A tick of \<open>syncLoop\<close>, which only the interval mode starts and \<open>Close\<close> stops.\<close>

definition tick :: "(u16 \<times> bool) list \<Rightarrow> walHandle \<Rightarrow> walHandle" where
  "tick visits w = (if wh_looping w then syncAll visits w else w)"

definition Drop_handle :: "u16 \<Rightarrow> walHandle \<Rightarrow> walHandle" where
  "Drop_handle i w = w\<lparr>wh_slots := AList.delete i (wh_slots w), wh_disk := (wh_disk w)\<lparr>hf_path := AList.delete i (hf_path (wh_disk w))\<rparr>\<rparr>"

text \<open>What \<open>Close\<close> returns is the first error of closing a file; those of the flushes before are dropped.\<close>

definition Close_wal :: "(u16 \<times> bool) list \<Rightarrow> err option \<Rightarrow> walHandle \<Rightarrow> walHandle \<times> err option" where
  "Close_wal visits close_err w =
     (if wh_closed w then (w, None)
      else ((syncAll visits (w\<lparr>wh_looping := False\<rparr>))\<lparr>wh_slots := [], wh_closed := True\<rparr>, close_err))"

subsection \<open>The view without handles\<close>

definition syncMode_of :: "string \<Rightarrow> syncMode" where
  "syncMode_of s = (if s = ''always'' then SyncAlways else if s = ''interval'' then SyncInterval else SyncNever)"

definition wal_of :: "walHandle \<Rightarrow> wal" where
  "wal_of w = \<lparr>wsync = syncMode_of (wh_sync w), wfiles = map (\<lambda>(i, h). (i, hf_data (wh_disk w) h)) (hf_path (wh_disk w))\<rparr>"

text \<open>The handles are those of the files at their paths, and every file is some slot's alone.\<close>

definition handles_ok :: "walHandle \<Rightarrow> bool" where
  "handles_ok w \<longleftrightarrow> (\<forall>i h. map_of (wh_slots w) i = Some h \<longrightarrow> map_of (hf_path (wh_disk w)) i = Some h) \<and>
     (\<forall>i j h. map_of (hf_path (wh_disk w)) i = Some h \<longrightarrow> map_of (hf_path (wh_disk w)) j = Some h \<longrightarrow> i = j) \<and>
     (\<forall>i h. map_of (hf_path (wh_disk w)) i = Some h \<longrightarrow> h < hf_fresh (wh_disk w))"

lemma map_of_second: "map_of (map (\<lambda>(i, h). (i, f h)) ps) i = map_option f (map_of ps i)"
  by (induction ps) auto

lemma wfile_wal_of: "wfile (wal_of w) i = (case map_of (hf_path (wh_disk w)) i of None \<Rightarrow> [] | Some h \<Rightarrow> hf_data (wh_disk w) h)"
  by (simp add: wfile_def wal_of_def map_of_second split: option.split)

lemma slot_handle_ok:
  assumes "slot_handle i opens w = (w', r)" and "handles_ok w"
  shows "handles_ok w'" "\<And>j. wfile (wal_of w') j = wfile (wal_of w) j" "wh_sync w' = wh_sync w"
    "\<And>h. r = Some h \<Longrightarrow> map_of (hf_path (wh_disk w')) i = Some h \<and> map_of (wh_slots w') i = Some h"
    "\<And>j h. map_of (wh_slots w) j = Some h \<Longrightarrow> map_of (wh_slots w') j = Some h"
proof -
  have f: "map_of (hf_path (wh_disk w)) j = Some (hf_fresh (wh_disk w)) \<Longrightarrow> False" for j
    using assms(2) unfolding handles_ok_def by (meson less_irrefl)
  show "handles_ok w'" using assms f
    by (auto simp: slot_handle_def open_file_def handles_ok_def Let_def update_conv' less_Suc_eq split: option.splits if_splits)
  show "wfile (wal_of w') j = wfile (wal_of w) j" for j using assms
    by (auto dest!: f simp: wfile_wal_of slot_handle_def open_file_def Let_def update_conv' split: option.splits if_splits)
  show "wh_sync w' = wh_sync w" using assms(1)
    by (auto simp: slot_handle_def open_file_def Let_def split: option.splits if_splits)
  show "map_of (hf_path (wh_disk w')) i = Some h \<and> map_of (wh_slots w') i = Some h" if "r = Some h" for h
    using assms that by (auto simp: slot_handle_def open_file_def handles_ok_def Let_def update_conv' split: option.splits if_splits)
  show "map_of (wh_slots w') j = Some h" if "map_of (wh_slots w) j = Some h" for j h
    using assms that by (auto simp: slot_handle_def open_file_def Let_def update_conv' split: option.splits if_splits)
qed

lemma write_view:
  assumes "handles_ok w" and "map_of (hf_path (wh_disk w)) i = Some h"
  shows "wfile (wal_of (write_bytes h buf w)) j = (if j = i then wfile (wal_of w) i @ buf else wfile (wal_of w) j)"
  using assms by (auto simp: wfile_wal_of write_bytes_def handles_ok_def split: option.split)

lemma fsync_view [simp]: "wfile (wal_of (fsync h ok w)) j = wfile (wal_of w) j" "wh_slots (fsync h ok w) = wh_slots w"
    "hf_path (wh_disk (fsync h ok w)) = hf_path (wh_disk w)" "hf_data (wh_disk (fsync h ok w)) = hf_data (wh_disk w)"
    "handles_ok (fsync h ok w) = handles_ok w"
  by (simp_all add: wfile_wal_of fsync_def handles_ok_def split: option.split)

text \<open>
  An append over handles is the append of \<open>Wal\<close>: the same bytes in the same file and the same answer, for a record
  \<open>buf\<close> that is what \<open>encode\<close> gives.
\<close>

theorem append_refines:
  assumes "handles_ok w" and "append_handle i (encode render kind v) durable True wrote flushed w = (w', ok)"
  shows "wfile (wal_of w') j = wfile (fst (append_wal render (wal_of w) i kind v durable wrote flushed)) j \<and>
    ok = snd (append_wal render (wal_of w) i kind v durable wrote flushed) \<and> handles_ok w'"
proof -
  obtain w1 r where s: "slot_handle i True w = (w1, r)" by fastforce
  have "snd (slot_handle i True w) \<noteq> None" by (simp add: slot_handle_def Let_def split: option.split prod.split)
  then have "r \<noteq> None" using s by simp
  then obtain h where h: "r = Some h" by blast
  note S = slot_handle_ok [OF s assms(1)]
  have m: "map_of (hf_path (wh_disk w1)) i = Some h" using S(4) h by blast
  have k: "handles_ok (write_bytes h b w1)" for b using S(1) by (simp add: handles_ok_def write_bytes_def)
  have y: "wh_sync (write_bytes h b w1) = wh_sync w" for b using S(3) by (simp add: write_bytes_def)
  have a: "wsync (wal_of w) \<noteq> SyncAlways \<longleftrightarrow> wh_sync w \<noteq> ''always''" by (simp add: wal_of_def syncMode_of_def)
  show ?thesis using assms(2) s h S(2) k
    by (auto simp: append_handle_def append_wal_def Let_def write_view [OF S(1) m] y a wfile_def [of "_\<lparr>wfiles := _\<rparr>"] update_conv'
        simp flip: wfile_def split: option.splits if_splits)
qed

subsection \<open>What survives a loss of power\<close>

text \<open>Only a file that is open may have bytes that are not safe.\<close>

definition dirty_open :: "walHandle \<Rightarrow> bool" where
  "dirty_open w \<longleftrightarrow> (\<forall>i h. map_of (hf_path (wh_disk w)) i = Some h \<longrightarrow> hf_safe (wh_disk w) h \<noteq> hf_data (wh_disk w) h \<longrightarrow> map_of (wh_slots w) i = Some h)"

definition all_safe :: "walHandle \<Rightarrow> bool" where
  "all_safe w \<longleftrightarrow> (\<forall>i h. map_of (hf_path (wh_disk w)) i = Some h \<longrightarrow> hf_safe (wh_disk w) h = hf_data (wh_disk w) h)"

lemma dirty_append:
  assumes "handles_ok w" and "dirty_open w" and "append_handle i buf durable opens wrote flushed w = (w', ok)"
  shows "handles_ok w' \<and> dirty_open w'"
proof -
  obtain w1 r where s: "slot_handle i opens w = (w1, r)" by fastforce
  note S = slot_handle_ok [OF s assms(1)]
  have f: "map_of (hf_path (wh_disk w)) j = Some (hf_fresh (wh_disk w)) \<Longrightarrow> False" for j
    using assms(1) unfolding handles_ok_def by (meson less_irrefl)
  have d1: "dirty_open w1"
  proof (cases "map_of (wh_slots w) i")
    case None
    note n = None
    show ?thesis
    proof (cases "map_of (hf_path (wh_disk w)) i")
      case None
      then show ?thesis using s n assms(2)
        by (auto dest!: f simp: dirty_open_def slot_handle_def open_file_def Let_def update_conv' split: if_splits)
    next
      case (Some h)
      then show ?thesis using s n assms(2)
        by (auto simp: dirty_open_def slot_handle_def open_file_def Let_def update_conv' split: if_splits)
    qed
  qed (use s assms(2) in \<open>simp add: slot_handle_def\<close>)
  have W: "handles_ok (write_bytes h b w1) \<and> dirty_open (write_bytes h b w1)" if "r = Some h" for h b
  proof
    show "handles_ok (write_bytes h b w1)" using S(1) by (simp add: handles_ok_def write_bytes_def)
    show "dirty_open (write_bytes h b w1)" unfolding dirty_open_def
    proof (intro allI impI)
      fix j h'
      assume p: "map_of (hf_path (wh_disk (write_bytes h b w1))) j = Some h'"
        and d: "hf_safe (wh_disk (write_bytes h b w1)) h' \<noteq> hf_data (wh_disk (write_bytes h b w1)) h'"
      have p1: "map_of (hf_path (wh_disk w1)) j = Some h'" using p by (simp add: write_bytes_def)
      show "map_of (wh_slots (write_bytes h b w1)) j = Some h'"
      proof (cases "h' = h")
        case True
        then have "j = i" using S(1) S(4) [OF that] p1 unfolding handles_ok_def by blast
        then show ?thesis using S(4) [OF that] True by (simp add: write_bytes_def)
      next
        case False
        then show ?thesis using d d1 p1 by (simp add: dirty_open_def write_bytes_def)
      qed
    qed
  qed
  have F: "handles_ok (fsync h b x) \<and> dirty_open (fsync h b x)" if "handles_ok x" "dirty_open x" for h b x
  proof
    have e: "h' = h \<and> b \<or> hf_safe (wh_disk (fsync h b x)) h' = hf_safe (wh_disk x) h'" for h' by (simp add: fsync_def)
    have g: "hf_safe (wh_disk (fsync h True x)) h = hf_data (wh_disk x) h" by (simp add: fsync_def)
    show "dirty_open (fsync h b x)" unfolding dirty_open_def fsync_view using that(2) e g unfolding dirty_open_def by metis
  qed (simp add: that(1))
  show ?thesis
  proof (cases r)
    case None
    then show ?thesis using assms(3) s d1 S(1) by (simp add: append_handle_def)
  next
    case (Some h)
    then have "(case wrote of Some n \<Rightarrow> (write_bytes h (take n buf) w1, False)
        | None \<Rightarrow> (let w = write_bytes h buf w1 in if \<not> durable \<or> wh_sync w \<noteq> ''always'' then (w, True) else (fsync h flushed w, flushed))) = (w', ok)"
      using assms(3) s by (simp add: append_handle_def)
    then have "(\<exists>b. w' = write_bytes h b w1) \<or> w' = fsync h flushed (write_bytes h buf w1)"
      by (cases wrote) (auto simp: Let_def split: if_splits)
    then show ?thesis using W [OF Some] F [OF W [OF Some, THEN conjunct1] W [OF Some, THEN conjunct2]] by blast
  qed
qed

lemma syncAll_effect:
  "wh_slots (syncAll visits w) = wh_slots w \<and> hf_path (wh_disk (syncAll visits w)) = hf_path (wh_disk w) \<and>
   hf_data (wh_disk (syncAll visits w)) = hf_data (wh_disk w) \<and>
   (\<forall>h. hf_safe (wh_disk w) h = hf_data (wh_disk w) h \<longrightarrow> hf_safe (wh_disk (syncAll visits w)) h = hf_data (wh_disk w) h) \<and>
   (\<forall>i h. (i, True) \<in> set visits \<longrightarrow> map_of (wh_slots w) i = Some h \<longrightarrow> hf_safe (wh_disk (syncAll visits w)) h = hf_data (wh_disk w) h)"
proof (induction visits arbitrary: w)
  case (Cons x visits)
  obtain i ok where x: "x = (i, ok)" by fastforce
  let ?w = "case map_of (wh_slots w) i of Some h \<Rightarrow> fsync h ok w | None \<Rightarrow> w"
  have e: "syncAll ((i, ok) # visits) w = syncAll visits ?w" by (simp add: syncAll_def)
  have k: "wh_slots ?w = wh_slots w" "hf_path (wh_disk ?w) = hf_path (wh_disk w)" "hf_data (wh_disk ?w) = hf_data (wh_disk w)"
    "\<And>h. hf_safe (wh_disk w) h = hf_data (wh_disk w) h \<Longrightarrow> hf_safe (wh_disk ?w) h = hf_data (wh_disk w) h"
    "\<And>h. ok \<Longrightarrow> map_of (wh_slots w) i = Some h \<Longrightarrow> hf_safe (wh_disk ?w) h = hf_data (wh_disk w) h"
    by (auto simp: fsync_def split: option.split)
  note I = Cons.IH [of ?w, unfolded k(1-3)]
  show ?case unfolding x e
  proof (intro conjI allI impI)
    show "hf_safe (wh_disk (syncAll visits ?w)) h = hf_data (wh_disk w) h" if "hf_safe (wh_disk w) h = hf_data (wh_disk w) h" for h
      using I k(4) [OF that] by blast
    show "hf_safe (wh_disk (syncAll visits ?w)) h = hf_data (wh_disk w) h"
      if "(j, True) \<in> set ((i, ok) # visits)" "map_of (wh_slots w) j = Some h" for j h
    proof (cases "(j, True) \<in> set visits")
      case False
      then have "ok" "j = i" using that(1) by auto
      then show ?thesis using I k(5) that(2) by blast
    qed (use I that(2) in blast)
  qed (use I in simp_all)
qed (simp add: syncAll_def)

text \<open>
  The window of the interval mode: a tick whose flushes succeed leaves nothing that was written unsafe, whatever was
  appended before it.
\<close>

theorem tick_saves:
  assumes "dirty_open w" and "wh_looping w" and "\<forall>i h. map_of (wh_slots w) i = Some h \<longrightarrow> (i, True) \<in> set visits"
  shows "all_safe (tick visits w)"
proof -
  note E = syncAll_effect [of visits w]
  have "hf_safe (wh_disk (syncAll visits w)) h = hf_data (wh_disk w) h" if p: "map_of (hf_path (wh_disk w)) i = Some h" for i h
  proof (cases "hf_safe (wh_disk w) h = hf_data (wh_disk w) h")
    case False
    then have "map_of (wh_slots w) i = Some h" using assms(1) p by (simp add: dirty_open_def)
    then show ?thesis using E assms(3) by blast
  qed (use E in blast)
  then show ?thesis using E assms(2) by (simp add: all_safe_def tick_def)
qed

text \<open>A mode that is none of the three starts no loop and flushes no append: nothing is safe before the log is closed.\<close>

theorem unknown_mode_never_flushes:
  assumes "mode \<notin> {[], ''always'', ''interval''}" and "append_handle i buf durable opens wrote flushed w = (w', ok)" and "wh_sync w = mode"
  shows "\<not> wh_looping (Open_wal mode interval d) \<and> wh_sync w' = mode \<and>
    (\<forall>h. h < hf_fresh (wh_disk w) \<longrightarrow> hf_safe (wh_disk w') h = hf_safe (wh_disk w) h)"
  using assms
  by (auto simp: Open_wal_def append_handle_def slot_handle_def open_file_def write_bytes_def Let_def split: option.splits if_splits)

text \<open>Closing reports success although a flush failed: the file is closed with bytes that are not safe.\<close>

theorem close_hides_flush_error:
  "\<exists>w w'. fst (append_handle 3 [1] False True None True (Open_wal [] 0 \<lparr>hf_path = [], hf_data = \<lambda>_. [], hf_safe = \<lambda>_. [], hf_fresh = 0\<rparr>)) = w \<and>
     Close_wal [(3, False)] None w = (w', None) \<and> \<not> all_safe w'"
  by (simp add: append_handle_def slot_handle_def open_file_def write_bytes_def Open_wal_def Close_wal_def syncAll_def fsync_def all_safe_def Let_def)

end
