(* ===== verification/Spec2Isabelle.thy ===== *)
theory Spec2Isabelle
  imports Placement QueueTransfer WalProps NodeDead Rpc NodeShape GwHost GwStuck GwWaiters GwDeadLetter
    GwMembership GwRequests GwRoutingProps GroupCommit GwMonitorProps Environment GwTyped Admission Handoff GwLoss GwTenants
    Streams WalHandles
begin

text \<open>
  \<^bold>\<open>The ryuk priority queue.\<close>

  Ryuk is a distributed priority queue written in Go.  \<^emph>\<open>Nodes\<close> (\<open>src/backend/queue\<close>) hold the messages of queues in
  memory and on a write-ahead log.  A stateless \<^emph>\<open>gateway\<close> (\<open>src/backend/gateway\<close>) answers HTTP, keeps the settings
  of queues and the owner of every queue or slot in PostgreSQL, learns from etcd which nodes are up, and
  calls the node that owns what a request is about.  A queue has sixteen slots on one node, or sixty-four spread over
  several nodes when it is distributed; a slot is what is locked, logged and moved.  Delivery is at least once.

  This theory imports the development and states no property of its own; the properties are spread over the theories of the
  components they belong to, each right after a text that begins with its number.

  \<^bold>\<open>Conventions.\<close>
  \<^item> The model follows the source function by function and keeps its names; a name that HOL has already gets a suffix,
    such as \<open>Enqueue_node\<close> or \<open>Ack_gw\<close>.  An operation under a lock is one function on the state, its result
    paired with the state after.  Errors are values: the engine's are \<open>engine_error\<close>, a service's \<open>err\<close>, the left side of a sum;
    a panic is the error \<open>panicked\<close>.
  \<^item> A time is an integer, nanoseconds since Go's zero time; a duration is an integer of nanoseconds.  Integers that can wrap keep their
    width (\<open>u8\<close>, \<open>u16\<close>, \<open>u32\<close>, \<open>u64\<close>); lifetime counters that grow by one per event are numbers.  A float is a
    rational, or in \<open>GwMonitor\<close> also one of the values that are not numbers.
  \<^item> A Go map is an association list with distinct keys.  Where the code ranges over a map, the order is an argument, constrained
    by \<open>iterates\<close> where a property needs a fair one.  So are random numbers, clock readings, and what the disk, the network, the
    database, etcd and Prometheus answer: a gateway's world has a list of faults, consumed call by call, each of which
    lets a call be answered, refuses it, or carries it out and loses the answer.
  \<^item> The text of a JSON object is a parameter (\<open>render\<close>, \<open>parse\<close>), of which at most \<open>json_text render parse\<close> is assumed: parsing what
    was rendered gives it back.  The objects themselves, with field names, omitted fields and ranges, are modelled.
  \<^item> Interfaces are locales, interpreted on the model's own definitions where those are declared: \<open>fifo\<close> (\<open>Deque\<close>) is the queue a
    slot builds on, \<open>timer_queue\<close> (\<open>GoHeap\<close>) its timers, \<open>move_api\<close> (\<open>GwMoveSafe\<close>, on the nodes of \<open>GwHost\<close>) what a
    gateway relies on when it moves messages between nodes it cannot see into.

  \<^bold>\<open>The engine\<close> (\<open>src/backend/queue/logic/engine\<close>, \<open>src/backend/slotting\<close>).
  \<^item> \<open>Prelude\<close>: machine types, maps, sorting.  \<open>Message\<close>: \<open>message.go\<close>, \<open>priority.go\<close>, \<open>errors.go\<close>, \<open>journal.go\<close> and the settings
    of \<open>queue.go\<close>.  \<open>Deque\<close>, \<open>GoHeap\<close>: \<open>deque.go\<close>, \<open>heaps.go\<close>.
  \<^item> \<open>Slot\<close>, \<open>Sweep\<close>, and \<open>SlotAbsorb\<close> for what \<open>Absorb\<close> does to one slot: \<open>slot.go\<close>, \<open>group.go\<close>, \<open>sweep.go\<close>, \<open>stats.go\<close>.  Groups
    live in a store, since the code shares them by pointer.  \<open>Bands\<close>, \<open>BandSteps\<close>, \<open>SlotInv\<close>, \<open>SlotOps\<close>, \<open>SlotTimers\<close> build the invariant of a
    slot, bottom up, and show that every operation keeps it and moves exactly the messages it should; \<open>SlotRun\<close> is the slot
    as a state machine.  \<open>SlotProps\<close>, \<open>SlotLease\<close>, \<open>SlotPrio\<close> state what follows in every reachable state: order within a group,
    one worker per group, no group forgotten, receipts good for once, priorities.
  \<^item> \<open>Slotting\<close>, \<open>Placement\<close>: the hashes that choose slots and machines, bit by bit, and rendezvous hashing.
  \<^item> \<open>Queue\<close>, \<open>QueueMaint\<close>: \<open>queue.go\<close>, \<open>dispatch.go\<close>.  \<open>QueueInv\<close>, \<open>QueueRun\<close>, \<open>QueueHandover\<close> carry the slots' lemmas to a queue;
    \<open>QueueProps\<close>, \<open>QueueTransfer\<close> state conservation of messages, the depth counter, priority across slots, hand-over.
  \<^item> \<open>Admission\<close>, \<open>Handoff\<close>: the same code between its lock regions, any number of callers interleaved: the depth limit, and what a
    hand-over or a compaction can lose to an operation that is half way.

  \<^bold>\<open>The log\<close> (\<open>src/backend/queue/repo/walfile\<close>).
  \<^item> \<open>WalRecord\<close>: framing and CRC of \<open>record.go\<close>, byte by byte.  \<open>Wal\<close>, \<open>WalProps\<close>: append, replay, compaction of \<open>wal.go\<close> on bytes;
    what a crash in the middle of a write leaves.  \<open>WalHandles\<close>: the open files and what is flushed, a refinement of \<open>Wal\<close>.  \<open>GroupCommit\<close>:
    appends that wait for one flush while a compaction swaps the file.
  \<^item> \<open>DeadLetters\<close>: \<open>deadletters.go\<close>.  \<open>Text\<close>, \<open>Layout\<close>: the standard library's text functions; file and directory names,
    \<open>nodeid.go\<close>.

  \<^bold>\<open>The node\<close> (\<open>src/backend/queue/logic\<close>, \<open>controller\<close>, \<open>entity\<close>).
  \<^item> \<open>Errors\<close>, \<open>Entity\<close>, \<open>Receipt\<close>: \<open>enterr\<close>, \<open>req-queue.go\<close>, \<open>receipt.go\<close>.  \<open>Node\<close>, \<open>NodeMaint\<close>: every operation of \<open>QueueLogic\<close> on a
    node with its directory.  \<open>NodeProps\<close>, \<open>NodeMove\<close>, \<open>NodeDead\<close>, \<open>NodeShape\<close>: receipts and restarts, hand-overs and their retries, dead
    letters across a restart, and slots a restarted node does not know of.
  \<^item> \<open>Proto\<close>, \<open>Rpc\<close>, \<open>Streams\<close>: the conversions at both ends of the network, the handlers of \<open>controller\<close> with the client
    \<open>src/backend/gateway/repo/nodegrpc\<close>, and the notification stream end to end.

  \<^bold>\<open>The gateway\<close> (\<open>src/backend/gateway\<close>).
  \<^item> \<open>GwEntity\<close>, \<open>GwTables\<close>, \<open>GwRows\<close>: types, each SQL statement as a function on two tables, what it does to a row; the migration lock.
    \<open>GwWorld\<close>: a gateway with its cache (\<open>cache-logic.go\<close>, \<open>config-cache-logic.go\<close>), database, members, nodes and faults.
  \<^item> \<open>GwRouting\<close>, \<open>GwAdmin\<close>, \<open>GwMoves\<close>, \<open>GwReconcile\<close>, \<open>GwDeadLetter\<close>, \<open>GwMetrics\<close>, \<open>GwWaiters\<close>, \<open>GwMembership\<close>, \<open>GwValidate\<close>, \<open>GwMonitor\<close>: the
    files of \<open>logic\<close>, \<open>controller\<close> and \<open>repo\<close> of those subjects.  \<open>Environment\<close>: \<open>src/backend/config\<close>.
  \<^item> \<open>GwFrame\<close>, \<open>GwMoveSafe\<close>, \<open>GwHost\<close>: what a gateway leaves of its nodes; a move loses nothing, whatever fails, proved for any nodes with
    the contract and then for the nodes of this development.  \<open>GwTyped\<close>: the tables stay well typed.  \<open>GwRoutingProps\<close>, \<open>GwRequests\<close>,
    \<open>GwMonitorProps\<close>: requests end and find their queue, validation, what monitoring shows.  \<open>GwStuck\<close>, \<open>GwLoss\<close>: a queue left in migrating
    stays there; creating and deleting lose sight of messages.  \<open>GwTenants\<close>: requests of an organisation leave the others' rows, queues and
    directories alone, by a contract of the node's handlers, as long as no organisation has a slash in its ID.

  \<^bold>\<open>Bounds.\<close>  Loops whose end is not structural are \<open>function\<close>s with a measure: the heap loops, \<open>fanout\<close>, the three timers of a slot (what is
  left of a heap), replay (what is left of a file), \<open>withOwner\<close> (attempts).  A loop the code ends by a clock or by closing a channel
  is a list of the events it sees.  There is no fuel in the model.

  \<^bold>\<open>Not modelled.\<close>  The generated protocol code (its records are, with their conversions); the main functions, dependency wiring and
  logging, which start and connect what is here; the pool of database connections; static files, CORS and the table of URLs; the HTTP server
  and client libraries; \<open>newID\<close>'s random bytes, which are an argument; the tickers of background loops, whose rounds are
  modelled; mocks, test harness, seeds and the integration client; the web front end.  Of the memory model of Go the development
  takes that a lock region or an atomic operation is one step.
\<close>

end
